(* ===== verification/KV_Prelude.thy ===== *)
theory KV_Prelude
  imports
    Complex_Main
    "HOL-Library.AList"
    "HOL-Library.Char_ord"
    "HOL-Library.List_Lexorder"
    "HOL-Library.Product_Lexorder"
begin

text \<open>
  What every component of the development shares.

  \<^item> The Python runtime as the sources use it: the exception classes they raise
    (\<open>py_error\<close>), computations that mutate an object and may raise (\<open>py\<close>: the
    state reached is kept when an exception propagates, as it is in Python),
    \<open>min(xs, key=f)\<close> with its first-minimal-element rule, and ceiling division as the
    sources spell it.
  \<^item> Names for the values that flow between components: tokens, block identifiers,
    node identifiers, tiers, simulated times.
  \<^item> The generic facts on lists, maps and association lists the component proofs use.

  Python's \<open>float\<close> is modelled by exact rational arithmetic: rounding, infinities and
  NaN are outside the model. A \<open>dict\<close> whose iteration order is observable is an
  association list that keeps insertion order (\<open>AList.update\<close> overwrites in place and
  appends new keys, as a Python \<open>dict\<close> does); a \<open>dict\<close> that is only looked up is a
  HOL map.
\<close>

section \<open>Python exceptions and state\<close>

text \<open>
  \<open>OutOfFuel\<close> and \<open>HeapFault\<close> are not Python exceptions. The first marks a loop that was
  given too few rounds, the second a reference to an object the store does not hold;
  the components prove that neither occurs in a well-formed state.
\<close>

datatype py_error =
    ValueError | KeyError | RuntimeError | MemoryError | AssertionError | IndexError | StructError | AttributeError
  | SystemExit | OutOfFuel | HeapFault

type_synonym 'a result = "py_error + 'a"

type_synonym ('s, 'a) py = "'s \<Rightarrow> (py_error + 'a) \<times> 's"

definition py_return :: "'a \<Rightarrow> ('s, 'a) py" where
  "py_return x s = (Inr x, s)"

definition py_raise :: "py_error \<Rightarrow> ('s, 'a) py" where
  "py_raise e s = (Inl e, s)"

definition py_bind :: "('s, 'a) py \<Rightarrow> ('a \<Rightarrow> ('s, 'b) py) \<Rightarrow> ('s, 'b) py" where
  "py_bind m k s = (case m s of (Inl e, s') \<Rightarrow> (Inl e, s') | (Inr x, s') \<Rightarrow> k x s')"

definition py_of :: "'a result \<Rightarrow> ('s, 'a) py" where
  "py_of r s = (r, s)"

section \<open>Names of the model's values\<close>

type_synonym token = int
type_synonym bid = string
type_synonym node_id = string
type_synonym req_id = string
type_synonym tier = string
type_synonym time = rat
type_synonym addr = nat

abbreviation gpu :: tier where "gpu \<equiv> ''gpu''"
abbreviation cpu :: tier where "cpu \<equiv> ''cpu''"
abbreviation disk :: tier where "disk \<equiv> ''disk''"

section \<open>Collections of rewrite rules\<close>

named_theorems pool_simps "unfolding rules of the block pool"
named_theorems node_simps "unfolding rules of the mock engine node"
named_theorems sched_simps "unfolding rules of the scheduling policies"

lemma py_bind_simps [simp]:
  "py_bind (py_return x) k s = k x s"
  "py_bind (py_raise e) k s = (Inl e, s)"
  by (simp_all add: py_bind_def py_return_def py_raise_def)

lemma py_of_simps [simp]: "py_of (Inr x) = py_return x" "py_of (Inl e) = py_raise e"
  by (auto simp: py_of_def py_return_def py_raise_def)

lemma py_bind_Inl: "m s = (Inl e, s') \<Longrightarrow> py_bind m k s = (Inl e, s')"
  by (simp add: py_bind_def)

lemma py_bind_Inr: "m s = (Inr x, s') \<Longrightarrow> py_bind m k s = k x s'"
  by (simp add: py_bind_def)

lemma py_bind_InrE:
  assumes "py_bind m k s = (Inr y, t)"
  obtains x s' where "m s = (Inr x, s')" "k x s' = (Inr y, t)"
  using assms by (auto simp: py_bind_def split: prod.splits sum.splits)

lemma py_bind_cases:
  assumes "py_bind m k s = r"
  obtains (raised) e s' where "m s = (Inl e, s')" "r = (Inl e, s')"
    | (returned) x s' where "m s = (Inr x, s')" "k x s' = r"
  using assms by (auto simp: py_bind_def split: prod.splits sum.splits)

text \<open>A property of the state that a computation keeps, whether it returns or raises.\<close>

definition keeps :: "('s \<Rightarrow> bool) \<Rightarrow> ('s, 'a) py \<Rightarrow> bool" where
  "keeps I m \<longleftrightarrow> (\<forall>s. I s \<longrightarrow> I (snd (m s)))"

lemma keepsD: "keeps I m \<Longrightarrow> I s \<Longrightarrow> m s = (r, s') \<Longrightarrow> I s'"
  unfolding keeps_def by (metis snd_conv)

lemma keeps_bindI:
  assumes "I (snd (m s))" "\<And>x s'. m s = (Inr x, s') \<Longrightarrow> I s' \<Longrightarrow> I (snd (k x s'))"
  shows "I (snd (py_bind m k s))"
  using assms by (auto simp: py_bind_def split: prod.splits sum.splits)

named_theorems keeps_rules "rules for what a computation keeps"

lemma keeps_bind [keeps_rules]: "keeps I m \<Longrightarrow> (\<And>x. keeps I (k x)) \<Longrightarrow> keeps I (py_bind m k)"
  unfolding keeps_def by (blast intro: keeps_bindI)

lemma keeps_simple [keeps_rules]: "keeps I (py_return x)" "keeps I (py_raise e)"
  by (simp_all add: keeps_def py_return_def py_raise_def)

lemma keeps_if [keeps_rules]: "(b \<Longrightarrow> keeps I m) \<Longrightarrow> (\<not> b \<Longrightarrow> keeps I m') \<Longrightarrow> keeps I (if b then m else m')"
  by simp

lemma keeps_option [keeps_rules]: "(x = None \<Longrightarrow> keeps I m) \<Longrightarrow> (\<And>y. x = Some y \<Longrightarrow> keeps I (f y)) \<Longrightarrow> keeps I (case x of None \<Rightarrow> m | Some y \<Rightarrow> f y)"
  by (cases x) simp_all

lemma keeps_prod [keeps_rules]: "(\<And>y z. x = (y, z) \<Longrightarrow> keeps I (f y z)) \<Longrightarrow> keeps I (case x of (y, z) \<Rightarrow> f y z)"
  by (cases x) simp

section \<open>Python's \<open>min\<close> with a key\<close>

text \<open>
  \<open>min(xs, key=f)\<close> scans from the left and replaces its candidate only by a strictly
  smaller one, so the first of several minimal elements is returned.
\<close>

fun min_from :: "('a \<Rightarrow> 'k::linorder) \<Rightarrow> 'a \<Rightarrow> 'a list \<Rightarrow> 'a" where
  "min_from f best [] = best"
| "min_from f best (x # xs) = min_from f (if f x < f best then x else best) xs"

definition min_by :: "('a \<Rightarrow> 'k::linorder) \<Rightarrow> 'a list \<Rightarrow> 'a option" where
  "min_by f xs = (case xs of [] \<Rightarrow> None | x # xs' \<Rightarrow> Some (min_from f x xs'))"

lemma min_from_in: "min_from f best xs \<in> insert best (set xs)"
proof (induction xs arbitrary: best)
  case (Cons x xs)
  show ?case using Cons.IH[of "if f x < f best then x else best"] by auto
qed simp

lemma min_from_le: "f (min_from f best xs) \<le> f best"
proof (induction xs arbitrary: best)
  case (Cons x xs)
  show ?case using Cons.IH[of "if f x < f best then x else best"] by (auto split: if_splits)
qed simp

lemma min_from_min: "y \<in> set xs \<Longrightarrow> f (min_from f best xs) \<le> f y"
proof (induction xs arbitrary: best)
  case (Cons x xs)
  show ?case
  proof (cases "y = x")
    case True
    have "f (min_from f best (x # xs)) \<le> f (if f x < f best then x else best)"
      by (simp add: min_from_le)
    also have "\<dots> \<le> f x" by auto
    finally show ?thesis using True by simp
  next
    case False
    with Cons show ?thesis by simp
  qed
qed simp

lemma min_by_Nil [simp]: "min_by f [] = None"
  by (simp add: min_by_def)

lemma min_by_None [simp]: "min_by f xs = None \<longleftrightarrow> xs = []"
  by (simp add: min_by_def split: list.splits)

lemma min_by_in: "min_by f xs = Some x \<Longrightarrow> x \<in> set xs"
  using min_from_in by (fastforce simp: min_by_def split: list.splits)

lemma min_by_least: "min_by f xs = Some x \<Longrightarrow> y \<in> set xs \<Longrightarrow> f x \<le> f y"
  by (auto simp: min_by_def min_from_min min_from_le split: list.splits)

lemma min_by_Some: "xs \<noteq> [] \<Longrightarrow> \<exists>x. min_by f xs = Some x"
  by (simp add: min_by_def split: list.splits)

section \<open>Ceiling division\<close>

definition ceil_div :: "nat \<Rightarrow> nat \<Rightarrow> nat" where
  "ceil_div n d = (n + d - 1) div d"

lemma ceil_div_0 [simp]: "0 < d \<Longrightarrow> ceil_div 0 d = 0"
  by (simp add: ceil_div_def)

lemma ceil_div_pos: "0 < n \<Longrightarrow> 0 < d \<Longrightarrow> 0 < ceil_div n d"
  by (simp add: ceil_div_def div_greater_zero_iff)

lemma ceil_div_bounds:
  assumes "0 < d"
  shows "n \<le> ceil_div n d * d" and "ceil_div n d * d < n + d"
proof -
  have eq: "(n + d - 1) div d * d + (n + d - 1) mod d = n + d - 1"
    by (rule div_mult_mod_eq)
  have "(n + d - 1) mod d < d" using assms by simp
  with eq show "n \<le> ceil_div n d * d" unfolding ceil_div_def by linarith
  from eq assms show "ceil_div n d * d < n + d" unfolding ceil_div_def by linarith
qed

lemma ceil_div_unique:
  assumes "0 < d" and "n \<le> k * d" and "k * d < n + d"
  shows "ceil_div n d = k"
proof -
  let ?c = "ceil_div n d"
  have "?c * d < (k + 1) * d" "k * d < (?c + 1) * d"
    using ceil_div_bounds[OF assms(1), of n] assms by auto
  then show ?thesis using assms(1) by (metis mult_less_cancel2 Suc_eq_plus1 less_Suc_eq_le le_antisym)
qed

lemma ceil_div_mult [simp]: "0 < d \<Longrightarrow> ceil_div (k * d) d = k"
  by (rule ceil_div_unique) auto

lemma ceil_div_mono: "0 < d \<Longrightarrow> m \<le> n \<Longrightarrow> ceil_div m d \<le> ceil_div n d"
  by (simp add: ceil_div_def div_le_mono)

lemma ceil_div_add:
  assumes "0 < d"
  shows "ceil_div (m + n) d \<le> ceil_div m d + ceil_div n d"
    and "ceil_div m d + ceil_div n d \<le> ceil_div (m + n) d + 1"
proof -
  let ?a = "ceil_div m d" and ?b = "ceil_div n d" and ?c = "ceil_div (m + n) d"
  note b = ceil_div_bounds[OF assms]
  have "?c * d < (?a + ?b + 1) * d"
    using b(1)[of m] b(1)[of n] b(2)[of "m + n"] by (simp add: algebra_simps)
  then have "?c < ?a + ?b + 1" by (simp only: mult_less_cancel2)
  then show "?c \<le> ?a + ?b" by simp
  have "(?a + ?b) * d < (?c + 2) * d"
    using b(2)[of m] b(2)[of n] b(1)[of "m + n"] by (simp add: algebra_simps)
  then have "?a + ?b < ?c + 2" by (simp only: mult_less_cancel2)
  then show "?a + ?b \<le> ?c + 1" by simp
qed

lemma div_le_ceil_div: "0 < d \<Longrightarrow> n div d \<le> ceil_div n d"
  by (simp add: ceil_div_def div_le_mono)

end
