(* ===== verification/Config.thy ===== *)
theory Config
  imports KV_Prelude
begin

text \<open>
  The configuration records of \<open>config.py\<close> that the components read, their defaults and
  the field constraints Pydantic enforces when a file is loaded (\<open>ge\<close>, \<open>gt\<close>, \<open>le\<close>).
  Sizes and counts whose constraint is \<open>ge=0\<close> or \<open>ge=1\<close> are natural numbers;
  \<open>*_ok\<close> states the remaining constraints.
\<close>

section \<open>Sub-configurations\<close>

record node_config =
  gpu_blocks :: nat
  cpu_blocks :: nat
  disk_blocks :: nat
  capacity :: nat

definition node_config_default :: node_config where
  "node_config_default =
     \<lparr>gpu_blocks = 2000, cpu_blocks = 10000, disk_blocks = 100000, capacity = 32\<rparr>"

definition node_config_ok :: "node_config \<Rightarrow> bool" where
  "node_config_ok c \<longleftrightarrow> 1 \<le> capacity c"

record model_config =
  block_size :: nat
  kv_bytes_per_token :: nat
  prefill_cost_per_token_ms :: rat
  decode_base_ms :: rat
  marginal_decode_ms :: rat
  prefill_chunk_size :: nat

definition model_config_default :: model_config where
  "model_config_default =
     \<lparr>block_size = 16, kv_bytes_per_token = 512, prefill_cost_per_token_ms = 33 / 1000,
      decode_base_ms = 5, marginal_decode_ms = 1 / 2, prefill_chunk_size = 512\<rparr>"

definition model_config_ok :: "model_config \<Rightarrow> bool" where
  "model_config_ok c \<longleftrightarrow>
     1 \<le> block_size c \<and> 1 \<le> kv_bytes_per_token c \<and> 0 < prefill_cost_per_token_ms c \<and>
     0 < decode_base_ms c \<and> 0 < marginal_decode_ms c \<and> 1 \<le> prefill_chunk_size c"

datatype contention = Contention_none | Contention_per_node_lane

record bandwidth_config =
  gpu_to_gpu :: rat
  gpu_to_cpu :: rat
  cpu_to_disk :: rat
  contention_model :: contention

definition bandwidth_config_default :: bandwidth_config where
  "bandwidth_config_default =
     \<lparr>gpu_to_gpu = 300000000000, gpu_to_cpu = 32000000000, cpu_to_disk = 5000000000,
      contention_model = Contention_none\<rparr>"

definition bandwidth_config_ok :: "bandwidth_config \<Rightarrow> bool" where
  "bandwidth_config_ok c \<longleftrightarrow> 0 < gpu_to_gpu c \<and> 0 < gpu_to_cpu c \<and> 0 < cpu_to_disk c"

record slo_config =
  ttft_target_ms :: rat
  tbt_target_ms :: rat

definition slo_config_default :: slo_config where
  "slo_config_default = \<lparr>ttft_target_ms = 2000, tbt_target_ms = 100\<rparr>"

definition slo_config_ok :: "slo_config \<Rightarrow> bool" where
  "slo_config_ok c \<longleftrightarrow> 0 < ttft_target_ms c \<and> 0 < tbt_target_ms c"

lemma config_defaults_ok:
  "node_config_ok node_config_default" "model_config_ok model_config_default"
  "bandwidth_config_ok bandwidth_config_default" "slo_config_ok slo_config_default"
  by (simp_all add: node_config_ok_def node_config_default_def model_config_ok_def
      model_config_default_def bandwidth_config_ok_def bandwidth_config_default_def
      slo_config_ok_def slo_config_default_def)

end
