(* ===== verification/Request_Types.thy ===== *)
theory Request_Types
  imports Config
begin

text \<open>
  The value types that cross component boundaries: \<open>request.py\<close> (\<open>Request\<close>),
  \<open>kv_cache/block_table.py\<close> (\<open>RequestBlockTable\<close>) and \<open>CacheLookup\<close> of \<open>scheduler/base.py\<close>.
\<close>

record request =
  request_id :: req_id
  token_ids :: "token list"
  prefix_hash :: string
  expected_output_len :: nat
  arrival_time :: time
  slo_ttft :: rat
  slo_tbt :: rat
  priority :: int

record request_block_table =
  bt_request_id :: req_id
  bt_node_id :: node_id
  bt_block_ids :: "bid list"
  matched_blocks :: nat
  new_blocks :: nat

record cache_lookup =
  matched_tokens :: nat
  matched_blocks_by_tier :: "(tier \<times> nat) list"
  transfer_cost_ms :: rat

definition no_hit :: cache_lookup where
  "no_hit = \<lparr>matched_tokens = 0, matched_blocks_by_tier = [], transfer_cost_ms = 0\<rparr>"

end
