(* ===== verification/Interfaces.thy ===== *)
theory Interfaces
  imports Config
begin

text \<open>
  The contracts between components, one locale each. A locale fixes the operations a
  client calls and assumes the laws the provider promises; the client's lemmas are proved
  inside it (or in a later \<^theory_text>\<open>context\<close> block), and the providing component interprets it
  on its own definitions.

  \<^item> \<open>block_source\<close>: the \<open>mint\<close> callback of the radix tree (\<open>radix_tree.py\<close>, constructor
    argument \<open>mint\<close>), which \<open>cache_manager.py\<close> wires to \<open>BlockPool.allocate(n, "gpu")\<close>.
  \<^item> \<open>block_sink\<close>: the \<open>tier_of\<close> and \<open>free_blocks\<close> callbacks of the purge operations,
    wired to \<open>BlockPool.tier_of\<close> and \<open>BlockPool.free\<close>.
\<close>

locale block_source =
  fixes mint :: "nat \<Rightarrow> ('p, bid list) py"
    and issued :: "'p \<Rightarrow> bid set"
    and room :: "'p \<Rightarrow> int"
    and src_inv :: "'p \<Rightarrow> bool"
  assumes mint_length: "src_inv p \<Longrightarrow> mint n p = (Inr ids, p') \<Longrightarrow> length ids = n"
    and mint_distinct: "src_inv p \<Longrightarrow> mint n p = (Inr ids, p') \<Longrightarrow> distinct ids"
    and mint_fresh: "src_inv p \<Longrightarrow> mint n p = (Inr ids, p') \<Longrightarrow> set ids \<inter> issued p = {}"
    and mint_issued: "src_inv p \<Longrightarrow> mint n p = (Inr ids, p') \<Longrightarrow> issued p' = issued p \<union> set ids"
    and mint_inv: "src_inv p \<Longrightarrow> mint n p = (Inr ids, p') \<Longrightarrow> src_inv p'"
    and mint_room: "src_inv p \<Longrightarrow> mint n p = (Inr ids, p') \<Longrightarrow> room p' = room p - int n"
    and mint_raises: "src_inv p \<Longrightarrow> mint n p = (Inl e, p') \<Longrightarrow>
      p' = p \<and> e = MemoryError \<and> room p < int n"

locale block_sink =
  fixes tier_lookup :: "'p \<Rightarrow> bid \<Rightarrow> tier option"
    and held :: "'p \<Rightarrow> bid \<Rightarrow> bool"
    and release :: "bid list \<Rightarrow> ('p, unit) py"
    and sink_inv :: "'p \<Rightarrow> bool"
  assumes release_dead: "sink_inv p \<Longrightarrow> release bs p = (Inr u, p') \<Longrightarrow> b \<in> set bs \<Longrightarrow>
      tier_lookup p' b = None"
    and release_frame: "sink_inv p \<Longrightarrow> release bs p = (Inr u, p') \<Longrightarrow> b \<notin> set bs \<Longrightarrow>
      tier_lookup p' b = tier_lookup p b"
    and release_held: "sink_inv p \<Longrightarrow> release bs p = (Inr u, p') \<Longrightarrow> held p' b \<Longrightarrow> held p b"
    and release_inv: "sink_inv p \<Longrightarrow> release bs p = (Inr u, p') \<Longrightarrow> sink_inv p'"
    and release_raises: "sink_inv p \<Longrightarrow> distinct bs \<Longrightarrow> (\<And>b. b \<in> set bs \<Longrightarrow> tier_lookup p b \<noteq> None) \<Longrightarrow>
      release bs p = (Inl e, p') \<Longrightarrow> p' = p \<and> e = RuntimeError \<and> (\<exists>b \<in> set bs. held p b)"

end
