(* ===== verification/Block_Pool.thy ===== *)
theory Block_Pool
  imports Interfaces
begin

text \<open>
  \<open>kv_cache/block_pool.py\<close>: which tier every KV block lives on, how many slots each tier
  has left, and how many active requests pin a block.

  The pool record has the four dictionaries of the class and the source of fresh
  identifiers: \<open>uuids p i\<close> is the i-th value \<open>uuid.uuid4()\<close> yields to this pool and \<open>drawn p\<close>
  counts the values drawn so far. That two draws never coincide is part of the pool
  invariant (\<open>inj (uuids p)\<close>).
\<close>

section \<open>State\<close>

record tier_state =
  tier_capacity :: nat
  allocated :: "bid set"

definition tier_used :: "tier_state \<Rightarrow> nat" where
  "tier_used s = card (allocated s)"

definition tier_free :: "tier_state \<Rightarrow> int" where
  "tier_free s = int (tier_capacity s) - int (tier_used s)"

record block_pool =
  tiers :: "tier \<rightharpoonup> tier_state"
  block_tier :: "bid \<rightharpoonup> tier"
  ref_counts :: "bid \<rightharpoonup> int"
  pin_counts :: "bid \<rightharpoonup> int"
  uuids :: "nat \<Rightarrow> bid"
  drawn :: nat

definition pool_init :: "node_config \<Rightarrow> (nat \<Rightarrow> bid) \<Rightarrow> block_pool" where
  "pool_init cfg src =
     \<lparr>tiers = [gpu \<mapsto> \<lparr>tier_capacity = gpu_blocks cfg, allocated = {}\<rparr>,
               cpu \<mapsto> \<lparr>tier_capacity = cpu_blocks cfg, allocated = {}\<rparr>,
               disk \<mapsto> \<lparr>tier_capacity = disk_blocks cfg, allocated = {}\<rparr>],
      block_tier = Map.empty, ref_counts = Map.empty, pin_counts = Map.empty,
      uuids = src, drawn = 0\<rparr>"

section \<open>Internal helpers\<close>

definition require_tier :: "block_pool \<Rightarrow> tier \<Rightarrow> tier_state result" where
  "require_tier p t = (case tiers p t of None \<Rightarrow> Inl ValueError | Some st \<Rightarrow> Inr st)"

definition ref_count :: "block_pool \<Rightarrow> bid \<Rightarrow> int" where
  "ref_count p b = (case ref_counts p b of None \<Rightarrow> 0 | Some n \<Rightarrow> n)"

definition pin_count :: "block_pool \<Rightarrow> bid \<Rightarrow> int" where
  "pin_count p b = (case pin_counts p b of None \<Rightarrow> 0 | Some n \<Rightarrow> n)"

text \<open>Replacing the block set of one tier object in place.\<close>

definition on_tier :: "tier \<Rightarrow> (bid set \<Rightarrow> bid set) \<Rightarrow> block_pool \<Rightarrow> block_pool" where
  "on_tier t f p = p\<lparr>tiers := (tiers p)(t := map_option (allocated_update f) (tiers p t))\<rparr>"

definition move_raw :: "bid \<Rightarrow> tier \<Rightarrow> tier \<Rightarrow> (block_pool, unit) py" where
  "move_raw b from_tier to_tier p =
     (case require_tier p from_tier of Inl e \<Rightarrow> (Inl e, p) | Inr src \<Rightarrow>
      (case require_tier p to_tier of Inl e \<Rightarrow> (Inl e, p) | Inr dst \<Rightarrow>
        if block_tier p b \<noteq> Some from_tier then (Inl KeyError, p)
        else if pin_count p b > 0 then (Inl RuntimeError, p)
        else if tier_free dst < 1 then (Inl MemoryError, p)
        else (let p1 = on_tier from_tier (\<lambda>A. A - {b}) p;
                  p2 = on_tier to_tier (insert b) p1
              in (Inr (), p2\<lparr>block_tier := (block_tier p2)(b \<mapsto> to_tier)\<rparr>))))"

section \<open>Public operations\<close>

definition register_block :: "tier \<Rightarrow> bid \<Rightarrow> block_pool \<Rightarrow> block_pool" where
  "register_block t b p =
     p\<lparr>block_tier := (block_tier p)(b \<mapsto> t),
       ref_counts := (ref_counts p)(b \<mapsto> 0),
       pin_counts := (pin_counts p)(b \<mapsto> 0)\<rparr>"

definition allocate :: "int \<Rightarrow> tier \<Rightarrow> (block_pool, bid list) py" where
  "allocate num_blocks t p =
     (case require_tier p t of Inl e \<Rightarrow> (Inl e, p) | Inr st \<Rightarrow>
        if num_blocks > tier_free st then (Inl MemoryError, p)
        else (let ids = map (uuids p) [drawn p ..< drawn p + nat num_blocks];
                  p1 = p\<lparr>drawn := drawn p + nat num_blocks\<rparr>;
                  p2 = on_tier t (\<lambda>A. A \<union> set ids) p1
              in (Inr ids, fold (register_block t) ids p2)))"

fun free_check :: "block_pool \<Rightarrow> (bid \<times> tier) list \<Rightarrow> bid list \<Rightarrow> (bid \<times> tier) list result" where
  "free_check p seen [] = Inr seen"
| "free_check p seen (b # bs) =
     (if b \<in> fst ` set seen then Inl ValueError
      else case block_tier p b of None \<Rightarrow> Inl KeyError
      | Some t \<Rightarrow> if pin_count p b > 0 then Inl RuntimeError
                 else free_check p (seen @ [(b, t)]) bs)"

definition release_one :: "bid \<times> tier \<Rightarrow> block_pool \<Rightarrow> block_pool" where
  "release_one bt p =
     (let p1 = p\<lparr>block_tier := (block_tier p)(fst bt := None)\<rparr>;
          p2 = on_tier (snd bt) (\<lambda>A. A - {fst bt}) p1
      in p2\<lparr>ref_counts := (ref_counts p2)(fst bt := None),
            pin_counts := (pin_counts p2)(fst bt := None)\<rparr>)"

definition free :: "bid list \<Rightarrow> (block_pool, unit) py" where
  "free bs p = (case free_check p [] bs of Inl e \<Rightarrow> (Inl e, p)
                | Inr seen \<Rightarrow> (Inr (), fold release_one seen p))"

definition bump :: "int \<Rightarrow> bid \<Rightarrow> block_pool \<Rightarrow> block_pool" where
  "bump d b p =
     p\<lparr>ref_counts := (ref_counts p)(b \<mapsto> ref_count p b + d),
       pin_counts := (pin_counts p)(b \<mapsto> pin_count p b + d)\<rparr>"

definition pin :: "bid list \<Rightarrow> (block_pool, unit) py" where
  "pin bs p = (if \<exists>b \<in> set bs. block_tier p b = None then (Inl KeyError, p)
               else (Inr (), fold (bump 1) bs p))"

fun unpin_check :: "block_pool \<Rightarrow> bid list \<Rightarrow> unit result" where
  "unpin_check p [] = Inr ()"
| "unpin_check p (b # bs) =
     (if block_tier p b = None then Inl KeyError
      else if pin_count p b \<le> 0 \<or> ref_count p b \<le> 0 then Inl RuntimeError
      else unpin_check p bs)"

definition unpin :: "bid list \<Rightarrow> (block_pool, unit) py" where
  "unpin bs p = (case unpin_check p bs of Inl e \<Rightarrow> (Inl e, p)
                 | Inr _ \<Rightarrow> (Inr (), fold (bump (- 1)) bs p))"

definition promote :: "bid \<Rightarrow> tier \<Rightarrow> tier \<Rightarrow> (block_pool, unit) py" where
  "promote = move_raw"

definition demote :: "bid \<Rightarrow> tier \<Rightarrow> tier \<Rightarrow> (block_pool, unit) py" where
  "demote = move_raw"

definition move :: "bid \<Rightarrow> tier \<Rightarrow> tier \<Rightarrow> (block_pool, unit) py" where
  "move = move_raw"

definition used :: "tier \<Rightarrow> block_pool \<Rightarrow> nat result" where
  "used t p = (case require_tier p t of Inl e \<Rightarrow> Inl e | Inr st \<Rightarrow> Inr (tier_used st))"

definition tier_of :: "block_pool \<Rightarrow> bid \<Rightarrow> tier option" where
  "tier_of p b = block_tier p b"

definition tiers_of :: "block_pool \<Rightarrow> bid list \<Rightarrow> (bid \<times> tier) list" where
  "tiers_of p bs = fold (\<lambda>b d. case block_tier p b of None \<Rightarrow> d | Some t \<Rightarrow> AList.update b t d) bs []"

record tier_stats =
  st_capacity :: nat
  st_used :: nat
  st_free :: int

definition stats :: "block_pool \<Rightarrow> tier \<rightharpoonup> tier_stats" where
  "stats p t = map_option (\<lambda>s. \<lparr>st_capacity = tier_capacity s, st_used = tier_used s,
                                st_free = tier_free s\<rparr>) (tiers p t)"

definition tier_breakdown :: "block_pool \<Rightarrow> tier \<rightharpoonup> tier_stats" where
  "tier_breakdown p t = map_option (\<lambda>s. \<lparr>st_capacity = tier_capacity s, st_used = tier_used s,
                                         st_free = tier_free s\<rparr>) (tiers p t)"

section \<open>The invariant\<close>

definition blocks_on :: "block_pool \<Rightarrow> tier \<Rightarrow> bid set" where
  "blocks_on p t = {b. block_tier p b = Some t}"

definition pool_inv :: "block_pool \<Rightarrow> bool" where
  "pool_inv p \<longleftrightarrow>
     dom (tiers p) = {gpu, cpu, disk} \<and>
     (\<forall>t st. tiers p t = Some st \<longrightarrow>
        allocated st = blocks_on p t \<and> card (blocks_on p t) \<le> tier_capacity st) \<and>
     ran (block_tier p) \<subseteq> {gpu, cpu, disk} \<and>
     dom (block_tier p) \<subseteq> uuids p ` {..<drawn p} \<and> inj (uuids p) \<and>
     dom (pin_counts p) = dom (block_tier p) \<and> ref_counts p = pin_counts p \<and>
     (\<forall>b n. pin_counts p b = Some n \<longrightarrow> 0 \<le> n)"


lemma pool_invI:
  assumes "dom (tiers p) = {gpu, cpu, disk}"
    and "\<And>t st. tiers p t = Some st \<Longrightarrow> allocated st = blocks_on p t"
    and "\<And>t st. tiers p t = Some st \<Longrightarrow> card (blocks_on p t) \<le> tier_capacity st"
    and "\<And>b t. block_tier p b = Some t \<Longrightarrow> t \<in> {gpu, cpu, disk}"
    and "\<And>b t. block_tier p b = Some t \<Longrightarrow> b \<in> uuids p ` {..<drawn p}"
    and "inj (uuids p)" and "dom (pin_counts p) = dom (block_tier p)"
    and "ref_counts p = pin_counts p"
    and "\<And>b n. pin_counts p b = Some n \<Longrightarrow> 0 \<le> n"
  shows "pool_inv p"
proof -
  have "ran (block_tier p) \<subseteq> {gpu, cpu, disk}" using assms(4) by (auto simp: ran_def)
  moreover have "dom (block_tier p) \<subseteq> uuids p ` {..<drawn p}" using assms(5) by blast
  ultimately show ?thesis unfolding pool_inv_def using assms(1-3,6-9) by meson
qed

lemma pool_inv_tiers: "pool_inv p \<Longrightarrow> t \<in> {gpu, cpu, disk} \<Longrightarrow> \<exists>st. tiers p t = Some st"
  by (auto simp: pool_inv_def dom_def)

lemma pool_inv_tier_names: "pool_inv p \<Longrightarrow> tiers p t = Some st \<Longrightarrow> t \<in> {gpu, cpu, disk}"
  unfolding pool_inv_def by blast

lemma pool_inv_allocated: "pool_inv p \<Longrightarrow> tiers p t = Some st \<Longrightarrow> allocated st = blocks_on p t"
  by (simp add: pool_inv_def)

lemma pool_inv_capacity:
  "pool_inv p \<Longrightarrow> tiers p t = Some st \<Longrightarrow> card (blocks_on p t) \<le> tier_capacity st"
  by (simp add: pool_inv_def)

lemma pool_inv_block_tier:
  "pool_inv p \<Longrightarrow> block_tier p b = Some t \<Longrightarrow> t \<in> {gpu, cpu, disk}"
  unfolding pool_inv_def ran_def by blast

lemma pool_inv_issued:
  "pool_inv p \<Longrightarrow> block_tier p b = Some t \<Longrightarrow> b \<in> uuids p ` {..<drawn p}"
  unfolding pool_inv_def dom_def by blast

lemma pool_inv_counts:
  assumes "pool_inv p"
  shows "inj (uuids p)" "dom (pin_counts p) = dom (block_tier p)" "ref_counts p = pin_counts p"
    "pin_counts p b = Some n \<Longrightarrow> 0 \<le> n"
  using assms unfolding pool_inv_def by blast+

lemma pool_inv_finite: "pool_inv p \<Longrightarrow> finite (dom (block_tier p))"
  unfolding pool_inv_def by (meson finite_imageI finite_lessThan finite_subset)

lemma finite_blocks_on: "pool_inv p \<Longrightarrow> finite (blocks_on p t)"
  by (rule finite_subset[OF _ pool_inv_finite]) (auto simp: blocks_on_def)

lemma pin_count_nonneg: "pool_inv p \<Longrightarrow> 0 \<le> pin_count p b"
  by (auto simp: pin_count_def pool_inv_def split: option.splits)

lemma pin_count_allocated: "pool_inv p \<Longrightarrow> pin_count p b > 0 \<Longrightarrow> block_tier p b \<noteq> None"
  using pool_inv_counts(2)[of p] by (fastforce simp: pin_count_def split: option.splits)

lemma ref_count_pin_count: "pool_inv p \<Longrightarrow> ref_count p b = pin_count p b"
  by (simp add: ref_count_def pin_count_def pool_inv_def)

lemma on_tier_simps [simp]:
  "block_tier (on_tier t f p) = block_tier p" "ref_counts (on_tier t f p) = ref_counts p"
  "pin_counts (on_tier t f p) = pin_counts p" "uuids (on_tier t f p) = uuids p"
  "drawn (on_tier t f p) = drawn p"
  "tiers (on_tier t f p) = (tiers p)(t := map_option (allocated_update f) (tiers p t))"
  by (simp_all add: on_tier_def)

lemma pool_init_inv: "inj src \<Longrightarrow> pool_inv (pool_init cfg src)"
  by (rule pool_invI) (auto simp: pool_init_def blocks_on_def split: if_splits)

section \<open>Allocation\<close>

lemma fold_register [simp]:
  "tiers (fold (register_block t) ids p) = tiers p"
  "uuids (fold (register_block t) ids p) = uuids p"
  "drawn (fold (register_block t) ids p) = drawn p"
  "block_tier (fold (register_block t) ids p) =
     (\<lambda>b. if b \<in> set ids then Some t else block_tier p b)"
  "ref_counts (fold (register_block t) ids p) =
     (\<lambda>b. if b \<in> set ids then Some 0 else ref_counts p b)"
  "pin_counts (fold (register_block t) ids p) =
     (\<lambda>b. if b \<in> set ids then Some 0 else pin_counts p b)"
  by (induction ids arbitrary: p) (auto simp: register_block_def fun_eq_iff)

text \<open>What a successful allocation returns and how the pool differs afterwards.\<close>

lemma allocate_Inr:
  assumes "allocate n t p = (Inr ids, p')"
  shows "ids = map (uuids p) [drawn p ..< drawn p + nat n]"
    and "tiers p' = (tiers p)(t := map_option (allocated_update (\<lambda>A. A \<union> set ids)) (tiers p t))"
    and "block_tier p' = (\<lambda>b. if b \<in> set ids then Some t else block_tier p b)"
    and "pin_counts p' = (\<lambda>b. if b \<in> set ids then Some 0 else pin_counts p b)"
    and "ref_counts p' = (\<lambda>b. if b \<in> set ids then Some 0 else ref_counts p b)"
    and "uuids p' = uuids p" and "drawn p' = drawn p + nat n"
    and "\<exists>st. tiers p t = Some st \<and> n \<le> tier_free st"
  using assms by (auto simp: allocate_def require_tier_def Let_def
      split: sum.splits option.splits if_splits)

lemma allocate_Inl: "allocate n t p = (Inl e, p') \<Longrightarrow> p' = p"
  by (auto simp: allocate_def Let_def split: sum.splits if_splits)

lemma allocate_fresh:
  assumes inv: "pool_inv p" and a: "allocate n t p = (Inr ids, p')"
  shows "length ids = nat n" "distinct ids" "set ids \<inter> uuids p ` {..<drawn p} = {}"
    "set ids \<inter> dom (block_tier p) = {}"
proof -
  note ids = allocate_Inr(1)[OF a]
  have inj: "inj (uuids p)" using inv by (rule pool_inv_counts)
  show "length ids = nat n" "distinct ids"
    using ids inj by (auto simp: distinct_map inj_on_def dest: injD)
  show fresh: "set ids \<inter> uuids p ` {..<drawn p} = {}"
    using ids inj by (auto dest: injD)
  have "dom (block_tier p) \<subseteq> uuids p ` {..<drawn p}"
    using inv unfolding pool_inv_def by blast
  with fresh show "set ids \<inter> dom (block_tier p) = {}" by blast
qed

lemma allocate_blocks_on:
  assumes inv: "pool_inv p" and a: "allocate n t p = (Inr ids, p')"
  shows "blocks_on p' t' = (if t' = t then blocks_on p t \<union> set ids else blocks_on p t')"
  using allocate_Inr(3)[OF a] allocate_fresh(4)[OF inv a] by (auto simp: blocks_on_def)

lemma allocate_inv:
  assumes inv: "pool_inv p" and a: "allocate n t p = (Inr ids, p')"
  shows "pool_inv p'"
proof (rule pool_invI)
  note A = allocate_Inr[OF a] and F = allocate_fresh[OF inv a] and B = allocate_blocks_on[OF inv a]
  obtain st0 where st0: "tiers p t = Some st0" "n \<le> tier_free st0" using A(8) by blast
  show "dom (tiers p') = {gpu, cpu, disk}"
    using A(2) inv st0 by (auto simp: pool_inv_def dom_def)
  fix t' st assume st: "tiers p' t' = Some st"
  show "allocated st = blocks_on p' t'"
    using st A(2) B inv st0 by (auto simp: pool_inv_allocated split: if_splits)
  show "card (blocks_on p' t') \<le> tier_capacity st"
  proof (cases "t' = t")
    case True
    have "card (blocks_on p t \<union> set ids) \<le> card (blocks_on p t) + nat n"
      using F(1) card_Un_le[of "blocks_on p t" "set ids"] card_length[of ids] by linarith
    also have "\<dots> \<le> tier_capacity st0"
      using st0 pool_inv_capacity[OF inv st0(1)] pool_inv_allocated[OF inv st0(1)]
      by (auto simp: tier_free_def tier_used_def)
    finally show ?thesis using True st A(2) B st0 by auto
  next
    case False
    then show ?thesis using st A(2) B inv by (auto simp: pool_inv_capacity)
  qed
next
  note A = allocate_Inr[OF a]
  obtain st0 where st0: "tiers p t = Some st0" using A(8) by blast
  fix b t' assume "block_tier p' b = Some t'"
  then show "t' \<in> {gpu, cpu, disk}" "b \<in> uuids p' ` {..<drawn p'}"
    using A(1,3,6,7) pool_inv_block_tier[OF inv] pool_inv_issued[OF inv, of b]
      pool_inv_tier_names[OF inv st0] by (auto split: if_splits intro: rev_image_eqI)
next
  note A = allocate_Inr[OF a] and C = pool_inv_counts[OF inv]
  show "inj (uuids p')" using A(6) C(1) by simp
  show "ref_counts p' = pin_counts p'" using A(4,5) C(3) by (simp add: fun_eq_iff)
  show "dom (pin_counts p') = dom (block_tier p')" using A C(2) by (auto simp: dom_def)
  fix b n' assume "pin_counts p' b = Some n'"
  then show "0 \<le> n'" using A C(4)[of b n'] by (auto split: if_splits)
qed

section \<open>Release\<close>

lemma free_check_Inr:
  "free_check p seen bs = Inr seen' \<longleftrightarrow>
     seen' = seen @ map (\<lambda>b. (b, the (block_tier p b))) bs \<and> distinct bs \<and>
     set bs \<inter> fst ` set seen = {} \<and>
     (\<forall>b \<in> set bs. block_tier p b \<noteq> None \<and> pin_count p b \<le> 0)"
  by (induction p seen bs rule: free_check.induct)
    (auto split: if_splits option.splits simp: image_iff)

lemma fold_release [simp]:
  "uuids (fold release_one bts p) = uuids p" "drawn (fold release_one bts p) = drawn p"
  "block_tier (fold release_one bts p) = (\<lambda>b. if b \<in> fst ` set bts then None else block_tier p b)"
  "ref_counts (fold release_one bts p) = (\<lambda>b. if b \<in> fst ` set bts then None else ref_counts p b)"
  "pin_counts (fold release_one bts p) = (\<lambda>b. if b \<in> fst ` set bts then None else pin_counts p b)"
  by (induction bts arbitrary: p) (auto simp: release_one_def Let_def fun_eq_iff)

lemma fold_release_tiers:
  "tiers (fold release_one bts p) t =
     map_option (allocated_update (\<lambda>A. A - {b. (b, t) \<in> set bts})) (tiers p t)"
proof (induction bts arbitrary: p)
  case Nil
  then show ?case by (cases "tiers p t") auto
next
  case (Cons bt bts)
  have one: "tiers (release_one bt p) t =
    map_option (allocated_update (\<lambda>A. A - {b. (b, t) = bt})) (tiers p t)"
    by (cases bt; cases "tiers p t")
      (auto simp: release_one_def Let_def intro!: tier_state.equality)
  have "tiers (fold release_one (bt # bts) p) t = map_option
      (allocated_update (\<lambda>A. A - {b. (b, t) \<in> set bts})) (tiers (release_one bt p) t)"
    by (simp add: Cons.IH)
  then show ?case unfolding one
    by (cases "tiers p t") (auto intro!: tier_state.equality)
qed

lemma free_Inr:
  assumes "free bs p = (Inr u, p')"
  shows "distinct bs" "\<forall>b \<in> set bs. block_tier p b \<noteq> None \<and> pin_count p b \<le> 0"
    "block_tier p' = (\<lambda>b. if b \<in> set bs then None else block_tier p b)"
    "pin_counts p' = (\<lambda>b. if b \<in> set bs then None else pin_counts p b)"
    "ref_counts p' = (\<lambda>b. if b \<in> set bs then None else ref_counts p b)"
    "uuids p' = uuids p" "drawn p' = drawn p"
    "tiers p' t = map_option
       (allocated_update (\<lambda>A. A - {b \<in> set bs. block_tier p b = Some t})) (tiers p t)"
proof -
  let ?bts = "map (\<lambda>b. (b, the (block_tier p b))) bs"
  from assms have c: "free_check p [] bs = Inr ?bts" and p': "p' = fold release_one ?bts p"
    by (auto simp: free_def free_check_Inr split: sum.splits)
  from c show d: "distinct bs" "\<forall>b \<in> set bs. block_tier p b \<noteq> None \<and> pin_count p b \<le> 0"
    by (simp_all add: free_check_Inr)
  show "block_tier p' = (\<lambda>b. if b \<in> set bs then None else block_tier p b)"
    "pin_counts p' = (\<lambda>b. if b \<in> set bs then None else pin_counts p b)"
    "ref_counts p' = (\<lambda>b. if b \<in> set bs then None else ref_counts p b)"
    "uuids p' = uuids p" "drawn p' = drawn p" unfolding p' by (simp_all add: image_image)
  have "{b. (b, t) \<in> set ?bts} = {b \<in> set bs. block_tier p b = Some t}" using d(2) by force
  then show "tiers p' t = map_option
     (allocated_update (\<lambda>A. A - {b \<in> set bs. block_tier p b = Some t})) (tiers p t)"
    unfolding p' by (simp only: fold_release_tiers)
qed

lemma free_Inl: "free bs p = (Inl e, p') \<Longrightarrow> p' = p"
  by (auto simp: free_def split: sum.splits)

lemma free_succeeds:
  "distinct bs \<Longrightarrow> \<forall>b \<in> set bs. block_tier p b \<noteq> None \<and> pin_count p b \<le> 0 \<Longrightarrow>
   \<exists>p'. free bs p = (Inr (), p')"
  using free_check_Inr[of p "[]" bs "map (\<lambda>b. (b, the (block_tier p b))) bs"]
  by (simp add: free_def)

lemma free_blocks_on: "free bs p = (Inr u, p') \<Longrightarrow> blocks_on p' t = blocks_on p t - set bs"
  by (auto simp: blocks_on_def free_Inr(3))

lemma free_inv:
  assumes inv: "pool_inv p" and f: "free bs p = (Inr u, p')"
  shows "pool_inv p'"
proof (rule pool_invI)
  note F = free_Inr[OF f] and B = free_blocks_on[OF f]
  show "dom (tiers p') = {gpu, cpu, disk}" using F(8) inv by (auto simp: pool_inv_def dom_def)
  fix t st assume st: "tiers p' t = Some st"
  then obtain st0 where st0: "tiers p t = Some st0"
    "st = allocated_update (\<lambda>A. A - {b \<in> set bs. block_tier p b = Some t}) st0"
    using F(8)[of t] by auto
  then show "allocated st = blocks_on p' t"
    using B pool_inv_allocated[OF inv st0(1)] by (auto simp: blocks_on_def)
  show "card (blocks_on p' t) \<le> tier_capacity st"
    using B st0 pool_inv_capacity[OF inv st0(1)] card_Diff1_le finite_blocks_on[OF inv]
    by (metis (no_types, lifting) Diff_subset card_mono le_trans tier_state.select_convs(1)
        tier_state.surjective tier_state.update_convs(2))
next
  note F = free_Inr[OF f]
  fix b t assume "block_tier p' b = Some t"
  then have b: "block_tier p b = Some t" using F(3) by (auto split: if_splits)
  then show "t \<in> {gpu, cpu, disk}" by (rule pool_inv_block_tier[OF inv])
  show "b \<in> uuids p' ` {..<drawn p'}" using pool_inv_issued[OF inv b] F(6,7) by simp
next
  note F = free_Inr[OF f] and C = pool_inv_counts[OF inv]
  show "inj (uuids p')" using F(6) C(1) by simp
  show "ref_counts p' = pin_counts p'" using F(4,5) C(3) by (simp add: fun_eq_iff)
  show "dom (pin_counts p') = dom (block_tier p')" using F(3,4) C(2) by (auto simp: dom_def)
  fix b n assume "pin_counts p' b = Some n"
  then show "0 \<le> n" using F(4) C(4)[of b n] by (auto split: if_splits)
qed

section \<open>Pinning\<close>

lemma bump_simps [simp]:
  "tiers (bump d b p) = tiers p" "block_tier (bump d b p) = block_tier p"
  "uuids (bump d b p) = uuids p" "drawn (bump d b p) = drawn p"
  "pin_count (bump d b p) b' = pin_count p b' + (if b' = b then d else 0)"
  "ref_count (bump d b p) b' = ref_count p b' + (if b' = b then d else 0)"
  "dom (pin_counts (bump d b p)) = insert b (dom (pin_counts p))"
  "dom (ref_counts (bump d b p)) = insert b (dom (ref_counts p))"
  by (auto simp: bump_def pin_count_def ref_count_def)

lemma fold_bump [simp]:
  "tiers (fold (bump d) bs p) = tiers p" "block_tier (fold (bump d) bs p) = block_tier p"
  "uuids (fold (bump d) bs p) = uuids p" "drawn (fold (bump d) bs p) = drawn p"
  "pin_count (fold (bump d) bs p) b = pin_count p b + d * int (count_list bs b)"
  "ref_count (fold (bump d) bs p) b = ref_count p b + d * int (count_list bs b)"
  "dom (pin_counts (fold (bump d) bs p)) = set bs \<union> dom (pin_counts p)"
  "dom (ref_counts (fold (bump d) bs p)) = set bs \<union> dom (ref_counts p)"
  by (induction bs arbitrary: p) (auto simp: algebra_simps)

text \<open>The counters of a pool are determined by the domains and the read-outs.\<close>

lemma counts_eqI:
  assumes "dom m = dom m'" and "\<And>b. (case m b of None \<Rightarrow> 0 | Some n \<Rightarrow> n) =
    (case m' b of None \<Rightarrow> 0 | Some (n::int) \<Rightarrow> n)"
  shows "m = m'"
proof
  fix b
  have "m b = None \<longleftrightarrow> m' b = None" using assms(1) by (metis domIff)
  then show "m b = m' b" using assms(2)[of b] by (cases "m b"; cases "m' b") auto
qed

lemma fold_bump_inv:
  assumes inv: "pool_inv p" and bs: "set bs \<subseteq> dom (block_tier p)"
    and nn: "\<And>b. 0 \<le> pin_count p b + d * int (count_list bs b)"
  shows "pool_inv (fold (bump d) bs p)"
proof -
  let ?q = "fold (bump d) bs p"
  note C = pool_inv_counts[OF inv]
  have dom: "dom (pin_counts ?q) = dom (block_tier ?q)" "dom (ref_counts ?q) = dom (pin_counts ?q)"
    using bs C(2,3) by auto
  have "ref_count ?q b = pin_count ?q b" for b by (simp add: ref_count_pin_count[OF inv])
  with dom(2) have "ref_counts ?q = pin_counts ?q"
    unfolding ref_count_def pin_count_def by (rule counts_eqI)
  moreover have "0 \<le> n" if "pin_counts ?q b = Some n" for b n
    using nn[of b] that fold_bump(5)[of d bs p b] by (simp add: pin_count_def)
  ultimately show ?thesis
    using inv dom unfolding pool_inv_def blocks_on_def by (simp add: dom_def)
qed

lemma pin_Inr:
  assumes "pin bs p = (Inr u, p')"
  shows "p' = fold (bump 1) bs p" "set bs \<subseteq> dom (block_tier p)"
  using assms by (auto simp: pin_def split: if_splits)

lemma pin_inv: "pool_inv p \<Longrightarrow> pin bs p = (Inr u, p') \<Longrightarrow> pool_inv p'"
  using pin_Inr[of bs p u p'] pin_count_nonneg[of p] by (auto intro!: fold_bump_inv)

lemma pin_Inl: "pin bs p = (Inl e, p') \<Longrightarrow> p' = p \<and> e = KeyError"
  by (auto simp: pin_def split: if_splits)

lemma unpin_check_Inr:
  "unpin_check p bs = Inr u \<longleftrightarrow>
     (\<forall>b \<in> set bs. block_tier p b \<noteq> None \<and> 0 < pin_count p b \<and> 0 < ref_count p b)"
  by (induction p bs rule: unpin_check.induct) auto

lemma unpin_Inr:
  assumes "unpin bs p = (Inr u, p')"
  shows "p' = fold (bump (- 1)) bs p" "set bs \<subseteq> dom (block_tier p)" "\<forall>b \<in> set bs. 0 < pin_count p b"
  using assms by (auto simp: unpin_def unpin_check_Inr split: sum.splits)

lemma unpin_Inl: "unpin bs p = (Inl e, p') \<Longrightarrow> p' = p"
  by (auto simp: unpin_def split: sum.splits)

lemma count_list_distinct: "distinct bs \<Longrightarrow> count_list bs b = (if b \<in> set bs then 1 else 0)"
  by (induction bs) auto

lemma unpin_inv:
  assumes "pool_inv p" "distinct bs" "unpin bs p = (Inr u, p')"
  shows "pool_inv p'"
  unfolding unpin_Inr(1)[OF assms(3)]
proof (rule fold_bump_inv[OF assms(1) unpin_Inr(2)[OF assms(3)]])
  fix b
  show "0 \<le> pin_count p b + - 1 * int (count_list bs b)"
    using unpin_Inr(3)[OF assms(3)] pin_count_nonneg[OF assms(1), of b]
    by (fastforce simp: count_list_distinct[OF assms(2)])
qed

section \<open>Moving between tiers\<close>

lemma move_Inr:
  assumes "move_raw b s d p = (Inr u, p')"
  shows "block_tier p b = Some s" "pin_count p b \<le> 0" "\<exists>st. tiers p d = Some st \<and> 1 \<le> tier_free st"
    "block_tier p' = (block_tier p)(b \<mapsto> d)" "pin_counts p' = pin_counts p"
    "ref_counts p' = ref_counts p" "uuids p' = uuids p" "drawn p' = drawn p"
    "tiers p' = (tiers p)(s := map_option (allocated_update (\<lambda>A. A - {b})) (tiers p s),
       d := map_option (allocated_update (insert b))
              (((tiers p)(s := map_option (allocated_update (\<lambda>A. A - {b})) (tiers p s))) d))"
  using assms by (auto simp: move_raw_def require_tier_def Let_def
      split: sum.splits option.splits if_splits)

lemma move_Inl: "move_raw b s d p = (Inl e, p') \<Longrightarrow> p' = p"
  by (auto simp: move_raw_def Let_def split: sum.splits if_splits)

lemma move_succeeds:
  assumes "block_tier p b = Some s" "pin_count p b \<le> 0" "tiers p s = Some src"
    "tiers p d = Some dst" "1 \<le> tier_free dst"
  shows "\<exists>p'. move_raw b s d p = (Inr (), p')"
  using assms by (auto simp: move_raw_def require_tier_def Let_def)

lemma move_blocks_on:
  assumes "move_raw b s d p = (Inr u, p')"
  shows "blocks_on p' t = (if t = d then insert b (blocks_on p d) else blocks_on p t - {b})"
  using move_Inr(4)[OF assms] by (auto simp: blocks_on_def)

lemma move_inv:
  assumes inv: "pool_inv p" and m: "move_raw b s d p = (Inr u, p')"
  shows "pool_inv p'"
proof (rule pool_invI)
  note M = move_Inr[OF m] and B = move_blocks_on[OF m]
  obtain std where std: "tiers p d = Some std" "1 \<le> tier_free std" using M(3) by blast
  have s: "s \<in> {gpu, cpu, disk}" using pool_inv_block_tier[OF inv M(1)] .
  then obtain sts where sts: "tiers p s = Some sts" using pool_inv_tiers[OF inv] by blast
  show "dom (tiers p') = {gpu, cpu, disk}"
    using M(9) inv sts std s by (auto simp: pool_inv_def)
  fix t st assume st: "tiers p' t = Some st"
  have al: "\<And>t st. tiers p t = Some st \<Longrightarrow> allocated st = blocks_on p t"
    using pool_inv_allocated[OF inv] .
  have bt: "b \<notin> blocks_on p t" if "t \<noteq> s" for t using M(1) that by (auto simp: blocks_on_def)
  show "allocated st = blocks_on p' t"
    using st M(9) B al bt sts std by (auto split: if_splits)
  show "card (blocks_on p' t) \<le> tier_capacity st"
  proof (cases "t = d")
    case True
    have "card (insert b (blocks_on p d)) \<le> Suc (card (blocks_on p d))"
      by (simp add: card_insert_le_m1 card_insert_if finite_blocks_on[OF inv])
    also have "\<dots> \<le> tier_capacity std"
      using std al[OF std(1)] by (auto simp: tier_free_def tier_used_def)
    also have "tier_capacity std = tier_capacity st"
      using st M(9) True std by (auto split: if_splits)
    finally show ?thesis using B True by simp
  next
    case False
    have "card (blocks_on p' t) \<le> card (blocks_on p t)"
      using B False by (simp add: card_mono finite_blocks_on[OF inv])
    also have "\<dots> \<le> tier_capacity st"
      using st M(9) False pool_inv_capacity[OF inv, of t] by (auto split: if_splits)
    finally show ?thesis .
  qed
next
  note M = move_Inr[OF m]
  have d: "d \<in> {gpu, cpu, disk}" using M(3) pool_inv_tier_names[OF inv] by blast
  fix b' t assume "block_tier p' b' = Some t"
  then show "t \<in> {gpu, cpu, disk}" "b' \<in> uuids p' ` {..<drawn p'}"
    using M(1,4,7,8) d pool_inv_block_tier[OF inv] pool_inv_issued[OF inv]
    by (auto split: if_splits)
next
  note M = move_Inr[OF m] and C = pool_inv_counts[OF inv]
  show "inj (uuids p')" "ref_counts p' = pin_counts p'" using M C by simp_all
  show "dom (pin_counts p') = dom (block_tier p')" using M(1,4,5) C(2) by (auto simp: dom_def)
  fix b' n assume "pin_counts p' b' = Some n"
  then show "0 \<le> n" using M(5) C(4)[of b' n] by simp
qed

section \<open>Capacities are constant\<close>

definition caps :: "block_pool \<Rightarrow> tier \<rightharpoonup> nat" where
  "caps p t = map_option tier_capacity (tiers p t)"

lemma allocate_caps:
  assumes "allocate n t p = (r, p')"
  shows "caps p' = caps p"
proof (cases r)
  case (Inl e)
  then show ?thesis using allocate_Inl assms by blast
next
  case (Inr ids)
  then show ?thesis
    using allocate_Inr(2,8)[of n t p ids p'] assms by (auto simp: caps_def fun_eq_iff)
qed

lemma free_caps:
  assumes "free bs p = (r, p')"
  shows "caps p' = caps p"
proof (cases r)
  case (Inl e)
  then show ?thesis using free_Inl assms by blast
next
  case (Inr u)
  then show ?thesis
    using free_Inr(8)[of bs p u p'] assms by (simp add: caps_def fun_eq_iff option.map_comp comp_def)
qed

lemma pin_caps: "pin bs p = (r, p') \<Longrightarrow> caps p' = caps p"
  by (auto simp: pin_def caps_def fun_eq_iff split: if_splits)

lemma unpin_caps: "unpin bs p = (r, p') \<Longrightarrow> caps p' = caps p"
  by (auto simp: unpin_def caps_def fun_eq_iff split: sum.splits)

lemma move_caps:
  assumes "move_raw b s d p = (r, p')"
  shows "caps p' = caps p"
proof (cases r)
  case (Inl e)
  then show ?thesis using move_Inl assms by blast
next
  case (Inr u)
  then show ?thesis
    using move_Inr(9)[of b s d p u p'] assms by (simp add: caps_def fun_eq_iff option.map_comp comp_def)
qed

lemmas pool_caps = allocate_caps free_caps pin_caps unpin_caps move_caps

section \<open>Reachable pools\<close>

text \<open>
  Every way the rest of the program changes a pool. \<open>unpin\<close> checks each identifier of
  its argument against the counters it starts with, so an argument that repeats an
  identifier may decrement a counter more often than it was checked; the cache manager
  only ever passes lists without repetitions (\<open>distinct\<close>).
\<close>

inductive pool_reach :: "node_config \<Rightarrow> (nat \<Rightarrow> bid) \<Rightarrow> block_pool \<Rightarrow> bool"
  for cfg src where
  init: "pool_reach cfg src (pool_init cfg src)"
| step_allocate: "pool_reach cfg src p \<Longrightarrow> allocate n t p = (r, p') \<Longrightarrow> pool_reach cfg src p'"
| step_free: "pool_reach cfg src p \<Longrightarrow> free bs p = (r', p') \<Longrightarrow> pool_reach cfg src p'"
| step_pin: "pool_reach cfg src p \<Longrightarrow> pin bs p = (r', p') \<Longrightarrow> pool_reach cfg src p'"
| step_unpin: "pool_reach cfg src p \<Longrightarrow> distinct bs \<Longrightarrow> unpin bs p = (r', p') \<Longrightarrow>
     pool_reach cfg src p'"
| step_move: "pool_reach cfg src p \<Longrightarrow> move_raw b s d p = (r', p') \<Longrightarrow> pool_reach cfg src p'"

lemma allocate_keeps_inv: "pool_inv p \<Longrightarrow> allocate n t p = (r, p') \<Longrightarrow> pool_inv p'"
  by (cases r) (use allocate_Inl allocate_inv in blast)+

lemma free_keeps_inv: "pool_inv p \<Longrightarrow> free bs p = (r, p') \<Longrightarrow> pool_inv p'"
  by (cases r) (use free_Inl free_inv in blast)+

lemma pin_keeps_inv: "pool_inv p \<Longrightarrow> pin bs p = (r, p') \<Longrightarrow> pool_inv p'"
  by (cases r) (use pin_Inl pin_inv in blast)+

lemma unpin_keeps_inv: "pool_inv p \<Longrightarrow> distinct bs \<Longrightarrow> unpin bs p = (r, p') \<Longrightarrow> pool_inv p'"
  by (cases r) (use unpin_Inl unpin_inv in blast)+

lemma move_keeps_inv: "pool_inv p \<Longrightarrow> move_raw b s d p = (r, p') \<Longrightarrow> pool_inv p'"
  by (cases r) (use move_Inl move_inv in blast)+

lemmas pool_keeps_inv =
  allocate_keeps_inv free_keeps_inv pin_keeps_inv unpin_keeps_inv move_keeps_inv

lemma pool_reach_pool_inv: "pool_reach cfg src p \<Longrightarrow> inj src \<Longrightarrow> pool_inv p"
  by (induction rule: pool_reach.induct) (blast intro: pool_init_inv pool_keeps_inv)+

section \<open>The laws behind the radix tree's callbacks\<close>

text \<open>\<open>cache_manager.py\<close> wires \<open>mint\<close> to \<open>pool.allocate(n, "gpu")\<close>, \<open>tier_of\<close> to \<open>pool.tier_of\<close>, \<open>free_blocks\<close>
  to \<open>pool.free\<close> and \<open>is_pinned\<close> to \<open>pool.pin_count(b) > 0\<close>.\<close>

definition pool_mint :: "nat \<Rightarrow> (block_pool, bid list) py" where
  "pool_mint n = allocate (int n) gpu"

definition pool_issued :: "block_pool \<Rightarrow> bid set" where
  "pool_issued p = uuids p ` {..<drawn p}"

definition gpu_room :: "block_pool \<Rightarrow> int" where
  "gpu_room p = (case tiers p gpu of None \<Rightarrow> 0 | Some st \<Rightarrow> tier_free st)"

definition pool_held :: "block_pool \<Rightarrow> bid \<Rightarrow> bool" where
  "pool_held p b \<longleftrightarrow> pin_count p b > 0"

lemma tier_free_blocks_on:
  "pool_inv p \<Longrightarrow> tiers p t = Some st \<Longrightarrow> tier_free st = int (tier_capacity st) - int (card (blocks_on p t))"
  by (simp add: tier_free_def tier_used_def pool_inv_allocated)

lemma allocate_gpu_room:
  assumes inv: "pool_inv p" and a: "allocate n gpu p = (Inr ids, p')"
  shows "gpu_room p' = gpu_room p - int (nat n)"
proof -
  note A = allocate_Inr[OF a] and F = allocate_fresh[OF inv a]
  obtain st where st: "tiers p gpu = Some st" using A(8) by blast
  have "blocks_on p gpu \<inter> set ids = {}" using F(4) by (auto simp: blocks_on_def)
  then have "card (blocks_on p gpu \<union> set ids) = card (blocks_on p gpu) + nat n"
    using card_Un_disjoint[OF finite_blocks_on[OF inv]] F(1,2) by (simp add: distinct_card)
  then show ?thesis
    using A(2) st pool_inv_allocated[OF inv st]
    by (simp add: gpu_room_def tier_free_def tier_used_def)
qed

lemma allocate_gpu_raises:
  assumes "pool_inv p" "allocate n gpu p = (Inl e, p')"
  shows "p' = p" "e = MemoryError" "gpu_room p < n"
  using assms pool_inv_tiers[OF assms(1), of gpu]
  by (auto simp: allocate_def require_tier_def gpu_room_def Let_def split: if_splits)

lemma pool_mint_issued: "pool_mint n p = (Inr ids, p') \<Longrightarrow> pool_issued p' = pool_issued p \<union> set ids"
proof -
  assume "pool_mint n p = (Inr ids, p')"
  note A = allocate_Inr[OF this[unfolded pool_mint_def]]
  have "{..<drawn p + n} = {..<drawn p} \<union> {drawn p..<drawn p + n}" by auto
  then show ?thesis using A(1,6,7) by (simp add: pool_issued_def image_Un)
qed

lemma free_raises:
  assumes "pool_inv p" "distinct bs" "\<And>b. b \<in> set bs \<Longrightarrow> block_tier p b \<noteq> None"
    "free bs p = (Inl e, p')"
  shows "p' = p" "e = RuntimeError" "\<exists>b \<in> set bs. pool_held p b"
proof -
  show "p' = p" by (rule free_Inl[OF assms(4)])
  show held: "\<exists>b \<in> set bs. pool_held p b"
    using free_succeeds[OF assms(2), of p] assms(3,4) by (force simp: pool_held_def)
  have "free_check p seen bs = Inl e \<Longrightarrow> set bs \<inter> fst ` set seen = {} \<Longrightarrow> e = RuntimeError" for seen
    using assms(2,3)
  proof (induction bs arbitrary: seen)
    case (Cons b bs)
    obtain t where "block_tier p b = Some t" using Cons.prems(4) by fastforce
    then show ?case using Cons by (auto split: if_splits)
  qed simp
  then show "e = RuntimeError" using assms(4) by (auto simp: free_def split: sum.splits)
qed

lemma free_held: "free bs p = (Inr u, p') \<Longrightarrow> pool_held p' b \<Longrightarrow> pool_held p b"
  by (auto simp: pool_held_def pin_count_def free_Inr(4) split: if_splits)

end
