(* ===== verification/Radix_Tree.thy ===== *)
theory Radix_Tree
  imports Interfaces
begin

text \<open>
  \<open>kv_cache/radix_tree.py\<close>: the prefix tree from token sequences to KV blocks.

  \<open>RadixNode\<close> objects are shared between the tree (\<open>children\<close>, \<open>parent\<close>) and the registry
  \<open>_nodes\<close>, and they are mutated in place, so the model keeps an explicit store: \<open>heap\<close>
  maps addresses to node records, the root object has address 0, and \<open>new\<close> objects get
  the next unused address. Both dictionaries whose order is observable (\<open>children\<close>, \<open>_nodes\<close>)
  are association lists in insertion order. An object that was detached stays in the
  store, unreachable, as it would until Python collects it.

  The callbacks \<open>mint\<close>, \<open>tier_of\<close>, \<open>free_blocks\<close> work on a second state component \<open>'p\<close> (the
  pool), which is threaded through; \<open>now\<close> is what \<open>self._clock()\<close> returns.
\<close>

section \<open>State\<close>

record radix_node =
  key :: "token list"
  block_ids :: "bid list"
  last_access_time :: time
  node_ref_count :: nat
  children :: "(token \<times> addr) list"
  parent :: "addr option"

record radix_tree =
  heap :: "addr \<rightharpoonup> radix_node"
  next_addr :: addr
  nodes :: "(bid \<times> addr) list"
  tree_block_size :: nat

abbreviation (input) root_addr :: addr where "root_addr \<equiv> 0"

definition tree_init :: "nat \<Rightarrow> time \<Rightarrow> radix_tree" where
  "tree_init bs t0 =
     \<lparr>heap = [root_addr \<mapsto> \<lparr>key = [], block_ids = [], last_access_time = t0, node_ref_count = 0,
                       children = [], parent = None\<rparr>],
      next_addr = 1, nodes = [], tree_block_size = max 1 bs\<rparr>"

definition n_blocks :: "radix_tree \<Rightarrow> token list \<Rightarrow> nat" where
  "n_blocks t k = (if k = [] then 0
                   else (length k + tree_block_size t - 1) div tree_block_size t)"

fun cp_len :: "token list \<Rightarrow> token list \<Rightarrow> nat" where
  "cp_len (a # as) (b # bs) = (if a = b then Suc (cp_len as bs) else 0)"
| "cp_len _ _ = 0"

text \<open>Assigning to attributes of one object, and creating an object.\<close>

definition upd_node :: "addr \<Rightarrow> (radix_node \<Rightarrow> radix_node) \<Rightarrow> radix_tree \<Rightarrow> radix_tree" where
  "upd_node a f t = t\<lparr>heap := (heap t)(a := map_option f (heap t a))\<rparr>"

definition new_node :: "radix_node \<Rightarrow> radix_tree \<Rightarrow> radix_tree" where
  "new_node n t = t\<lparr>heap := (heap t)(next_addr t \<mapsto> n), next_addr := Suc (next_addr t)\<rparr>"

definition fresh_node :: "token list \<Rightarrow> bid list \<Rightarrow> time \<Rightarrow> addr \<Rightarrow> radix_node" where
  "fresh_node k bids now p =
     \<lparr>key = k, block_ids = bids, last_access_time = now, node_ref_count = 0, children = [],
      parent = Some p\<rparr>"

definition set_child :: "addr \<Rightarrow> token \<Rightarrow> addr \<Rightarrow> radix_tree \<Rightarrow> radix_tree" where
  "set_child a tok c = upd_node a (\<lambda>n. n\<lparr>children := AList.update tok c (children n)\<rparr>)"

definition del_child :: "addr \<Rightarrow> token \<Rightarrow> radix_tree \<Rightarrow> radix_tree" where
  "del_child a tok = upd_node a (\<lambda>n. n\<lparr>children := AList.delete tok (children n)\<rparr>)"

definition set_reg :: "bid \<Rightarrow> addr \<Rightarrow> radix_tree \<Rightarrow> radix_tree" where
  "set_reg b a t = t\<lparr>nodes := AList.update b a (nodes t)\<rparr>"

definition del_reg :: "bid \<Rightarrow> radix_tree \<Rightarrow> radix_tree" where
  "del_reg b t = t\<lparr>nodes := AList.delete b (nodes t)\<rparr>"

definition touch :: "addr \<Rightarrow> time \<Rightarrow> radix_tree \<Rightarrow> radix_tree" where
  "touch a now = upd_node a (\<lambda>n. n\<lparr>last_access_time := now\<rparr>)"

section \<open>Insertion\<close>

text \<open>Calling \<open>self._mint(n)\<close>: the pool changes, the tree does not.\<close>

definition call_mint :: "(nat \<Rightarrow> ('p, bid list) py) \<Rightarrow> nat \<Rightarrow> (radix_tree \<times> 'p, bid list) py" where
  "call_mint mint n s = (case mint n (snd s) of (r, p') \<Rightarrow> (r, (fst s, p')))"

definition insert_leaf ::
  "(nat \<Rightarrow> ('p, bid list) py) \<Rightarrow> time \<Rightarrow> addr \<Rightarrow> token list \<Rightarrow> (radix_tree \<times> 'p, bid list) py" where
  "insert_leaf mint now node k s =
     py_bind (call_mint mint (n_blocks (fst s) k)) (\<lambda>bids (t, p).
       let leaf = next_addr t;
           t1 = new_node (fresh_node k bids now node) t;
           t2 = set_child node (hd k) leaf t1
       in case bids of [] \<Rightarrow> (Inl IndexError, (t2, p))
          | b # _ \<Rightarrow> (Inr bids, (set_reg b leaf t2, p))) s"

text \<open>The irreversible part of a split: the shortened child, the new middle node, the registry.\<close>

definition do_split ::
  "time \<Rightarrow> addr \<Rightarrow> token \<Rightarrow> addr \<Rightarrow> radix_node \<Rightarrow> nat \<Rightarrow> bid list \<Rightarrow> radix_tree \<Rightarrow> radix_tree" where
  "do_split now node first c child cp new_head t =
     (let bs = tree_block_size t;
          cp_blocks = (cp + bs - 1) div bs;
          mid = next_addr t;
          t1 = new_node (fresh_node (take cp (key child)) (take cp_blocks (block_ids child)) now node) t;
          t2 = upd_node c (\<lambda>n. n\<lparr>key := drop cp (key child),
                                  block_ids := new_head @ drop cp_blocks (block_ids child),
                                  parent := Some mid\<rparr>) t1;
          t3 = set_child mid (hd (drop cp (key child))) c t2
      in set_child node first mid t3)"

definition split_edge ::
  "(nat \<Rightarrow> ('p, bid list) py) \<Rightarrow> time \<Rightarrow> addr \<Rightarrow> addr \<Rightarrow> radix_node \<Rightarrow> nat \<Rightarrow> token list \<Rightarrow>
   (radix_tree \<times> 'p, bid list) py" where
  "split_edge mint now node c child cp remaining s =
     (let bs = tree_block_size (fst s);
          n_old = length (block_ids child);
          cp_blocks = (cp + bs - 1) div bs;
          tail_blocks = (length (key child) - cp + bs - 1) div bs;
          needs_extra = cp_blocks + tail_blocks > n_old
      in py_bind (if needs_extra then call_mint mint 1 else py_return []) (\<lambda>new_head (t, p).
        let mid = next_addr t;
            t1 = do_split now node (hd remaining) c child cp new_head t;
            mid_bids = take cp_blocks (block_ids child);
            child_bids = new_head @ drop cp_blocks (block_ids child)
        in case mid_bids of [] \<Rightarrow> (Inl IndexError, (t1, p)) | mb # _ \<Rightarrow>
             (case child_bids of [] \<Rightarrow> (Inl IndexError, (set_reg mb mid t1, p)) | cb # _ \<Rightarrow>
               (let t2 = set_reg cb c (set_reg mb mid t1);
                    tail = drop cp remaining
                in if tail = [] then (Inr mid_bids, (t2, p))
                   else py_bind (call_mint mint (n_blocks t2 tail)) (\<lambda>leaf_bids (t, p).
                     let leaf = next_addr t;
                         t3 = new_node (fresh_node tail leaf_bids now mid) t
                     in case leaf_bids of [] \<Rightarrow> (Inl IndexError, (t3, p))
                        | lb # _ \<Rightarrow> (Inr leaf_bids, (set_child mid (hd tail) leaf (set_reg lb leaf t3), p)))
                     (t2, p)))) s)"

fun insert_loop ::
  "nat \<Rightarrow> (nat \<Rightarrow> ('p, bid list) py) \<Rightarrow> time \<Rightarrow> token list \<Rightarrow> addr \<Rightarrow> nat \<Rightarrow>
   (radix_tree \<times> 'p, bid list) py" where
  "insert_loop 0 mint now toks node pos s = (Inl OutOfFuel, s)"
| "insert_loop (Suc fuel) mint now toks node pos (t, p) =
     (case heap t node of None \<Rightarrow> (Inl HeapFault, (t, p)) | Some nd \<Rightarrow>
       if pos < length toks then
         (let remaining = drop pos toks in
          case map_of (children nd) (toks ! pos) of
            None \<Rightarrow> insert_leaf mint now node remaining (t, p)
          | Some c \<Rightarrow> (case heap t c of None \<Rightarrow> (Inl HeapFault, (t, p)) | Some child \<Rightarrow>
              let cp = cp_len remaining (key child) in
              if cp = length (key child)
              then insert_loop fuel mint now toks c (pos + cp) (touch c now t, p)
              else split_edge mint now node c child cp remaining (t, p)))
       else (Inr (block_ids nd), (touch node now t, p)))"

definition root_bids :: "radix_tree \<Rightarrow> bid list" where
  "root_bids t = (case heap t root_addr of None \<Rightarrow> [] | Some r \<Rightarrow> block_ids r)"

definition tree_insert ::
  "(nat \<Rightarrow> ('p, bid list) py) \<Rightarrow> time \<Rightarrow> token list \<Rightarrow> (radix_tree \<times> 'p, bid list) py" where
  "tree_insert mint now toks s =
     (if toks = [] then (Inr (root_bids (fst s)), s)
      else insert_loop (Suc (length toks)) mint now toks root_addr 0 s)"

section \<open>Prefix matching\<close>

text \<open>
  \<open>match_prefix\<close> and \<open>match_prefix_path\<close> run the same loop; they differ in what they do
  with the blocks of a matched node: the former keeps the last node's, the latter appends
  them all. \<open>acc\<close> is that step.
\<close>

fun match_loop ::
  "nat \<Rightarrow> (bid list \<Rightarrow> bid list \<Rightarrow> bid list) \<Rightarrow> time \<Rightarrow> token list \<Rightarrow> addr \<Rightarrow> nat \<Rightarrow> bid list \<Rightarrow>
   (radix_tree, nat \<times> bid list) py" where
  "match_loop 0 acc now toks node pos ids t = (Inl OutOfFuel, t)"
| "match_loop (Suc fuel) acc now toks node pos ids t =
     (if pos < length toks then
        (case heap t node of None \<Rightarrow> (Inl HeapFault, t) | Some nd \<Rightarrow>
          (case map_of (children nd) (toks ! pos) of None \<Rightarrow> (Inr (pos, ids), t)
           | Some c \<Rightarrow> (case heap t c of None \<Rightarrow> (Inl HeapFault, t) | Some child \<Rightarrow>
               let cp = cp_len (drop pos toks) (key child) in
               if cp < length (key child) then (Inr (pos, ids), t)
               else match_loop fuel acc now toks c (pos + cp) (acc ids (block_ids child))
                      (touch c now t))))
      else (Inr (pos, ids), t))"

definition match_prefix :: "time \<Rightarrow> token list \<Rightarrow> (radix_tree, nat \<times> bid list) py" where
  "match_prefix now toks t =
     (if toks = [] then (Inr (0, root_bids t), t)
      else match_loop (Suc (length toks)) (\<lambda>_ bids. bids) now toks root_addr 0 (root_bids t) t)"

definition match_prefix_path :: "time \<Rightarrow> token list \<Rightarrow> (radix_tree, nat \<times> bid list) py" where
  "match_prefix_path now toks t =
     (if toks = [] then (Inr (0, []), t)
      else match_loop (Suc (length toks)) (\<lambda>ids bids. ids @ bids) now toks root_addr 0 [] t)"

section \<open>Eviction\<close>

definition reg_nodes :: "radix_tree \<Rightarrow> (addr \<times> radix_node) list" where
  "reg_nodes t = List.map_filter (\<lambda>(b, a). map_option (\<lambda>n. (a, n)) (heap t a)) (nodes t)"

definition evictable :: "radix_tree \<Rightarrow> (addr \<times> radix_node) list" where
  "evictable t = filter (\<lambda>(a, n). children n = [] \<and> node_ref_count n = 0) (reg_nodes t)"

text \<open>
  \<open>del victim.parent.children[victim.key[0]]; victim.parent = None;
  del self._nodes[victim.block_ids[0]]\<close> with the assertion before it.
\<close>

definition detach :: "addr \<times> radix_node \<Rightarrow> (radix_tree, unit) py" where
  "detach v t =
     (case v of (a, n) \<Rightarrow>
       (case parent n of None \<Rightarrow> (Inl AssertionError, t) | Some pa \<Rightarrow>
        (case heap t pa of None \<Rightarrow> (Inl HeapFault, t) | Some pn \<Rightarrow>
         (case key n of [] \<Rightarrow> (Inl IndexError, t) | k # _ \<Rightarrow>
           if map_of (children pn) k = None then (Inl KeyError, t)
           else (let t1 = upd_node a (\<lambda>n. n\<lparr>parent := None\<rparr>) (del_child pa k t) in
             case block_ids n of [] \<Rightarrow> (Inl IndexError, t1) | b # _ \<Rightarrow>
               if map_of (nodes t1) b = None then (Inl KeyError, t1)
               else (Inr (), del_reg b t1))))))"

fun evict_loop :: "(radix_node \<Rightarrow> 'a) \<Rightarrow> nat \<Rightarrow> 'a list \<Rightarrow> (radix_tree, 'a list) py" where
  "evict_loop out 0 evicted t = (Inr evicted, t)"
| "evict_loop out (Suc k) evicted t =
     (case min_by (\<lambda>(a, n). last_access_time n) (evictable t) of
        None \<Rightarrow> (Inr evicted, t)
      | Some v \<Rightarrow> py_bind (detach v) (\<lambda>_. evict_loop out k (evicted @ [out (snd v)])) t)"

definition evict_lru :: "nat \<Rightarrow> (radix_tree, bid list list) py" where
  "evict_lru n = evict_loop block_ids n []"

definition evict_lru_with_lengths :: "nat \<Rightarrow> (radix_tree, nat list) py" where
  "evict_lru_with_lengths n = evict_loop (\<lambda>nd. length (key nd)) n []"

section \<open>Removing nodes whose blocks were freed\<close>

text \<open>
  One round of \<open>purge_block_ids\<close>. A registered node has a non-empty key and a non-empty
  block list (\<open>tree_wf\<close>), so the two subscripts \<open>[0]\<close> of the source are in range.
\<close>

definition purge_one :: "bid set \<Rightarrow> (bid \<Rightarrow> tier option) \<Rightarrow> addr \<Rightarrow> radix_tree \<times> nat \<Rightarrow> radix_tree \<times> nat" where
  "purge_one freed tier_of a s =
     (case s of (t, purged) \<Rightarrow>
       (case heap t a of None \<Rightarrow> s | Some n \<Rightarrow>
         if children n \<noteq> [] \<or> node_ref_count n > 0 then s
         else if \<not> (\<exists>b \<in> set (block_ids n). b \<in> freed) then s
         else if \<exists>b \<in> set (block_ids n). tier_of b \<noteq> None then s
         else (let t1 = (case parent n of None \<Rightarrow> t
                         | Some pa \<Rightarrow> upd_node a (\<lambda>n. n\<lparr>parent := None\<rparr>) (del_child pa (hd (key n)) t))
               in (del_reg (hd (block_ids n)) t1, Suc purged))))"

definition purge_block_ids :: "bid list \<Rightarrow> (bid \<Rightarrow> tier option) \<Rightarrow> radix_tree \<Rightarrow> radix_tree \<times> nat" where
  "purge_block_ids freed tier_of t =
     (if freed = [] then (t, 0)
      else fold (purge_one (set freed) tier_of) (map snd (nodes t)) (t, 0))"

definition alive_blocks :: "(bid \<Rightarrow> tier option) \<Rightarrow> bid list \<Rightarrow> bid list" where
  "alive_blocks tier_of bids = filter (\<lambda>b. tier_of b \<noteq> None) bids"

definition call_free ::
  "(bid list \<Rightarrow> ('p, unit) py) \<Rightarrow> bid list \<Rightarrow> (radix_tree \<times> 'p, unit) py" where
  "call_free release bids s =
     (if bids = [] then (Inr (), s)
      else case release bids (snd s) of (r, p') \<Rightarrow> (r, (fst s, p')))"

definition drop_reg :: "bid list \<Rightarrow> radix_tree \<Rightarrow> radix_tree" where
  "drop_reg bids t = (case bids of [] \<Rightarrow> t | b # _ \<Rightarrow> del_reg b t)"

fun purge_subtree_alive ::
    "nat \<Rightarrow> ('p \<Rightarrow> bid \<Rightarrow> tier option) \<Rightarrow> (bid list \<Rightarrow> ('p, unit) py) \<Rightarrow> addr \<Rightarrow>
     (radix_tree \<times> 'p, nat) py"
  and purge_children ::
    "nat \<Rightarrow> ('p \<Rightarrow> bid \<Rightarrow> tier option) \<Rightarrow> (bid list \<Rightarrow> ('p, unit) py) \<Rightarrow> addr list \<Rightarrow> nat \<Rightarrow>
     (radix_tree \<times> 'p, nat) py" where
  "purge_subtree_alive 0 tier_of release a s = (Inl OutOfFuel, s)"
| "purge_subtree_alive (Suc fuel) tier_of release a (t, p) =
     (case heap t a of None \<Rightarrow> (Inl HeapFault, (t, p)) | Some n \<Rightarrow>
       py_bind (purge_children fuel tier_of release (map snd (children n)) 0)
         (\<lambda>purged (t, p). (Inr purged, (upd_node a (\<lambda>n. n\<lparr>children := []\<rparr>) t, p))) (t, p))"
| "purge_children fuel tier_of release [] purged s = (Inr purged, s)"
| "purge_children fuel tier_of release (c # cs) purged (t, p) =
     (case heap t c of None \<Rightarrow> (Inl HeapFault, (t, p)) | Some child \<Rightarrow>
       py_bind (call_free release (alive_blocks (tier_of p) (block_ids child))) (\<lambda>_ (t, p).
         py_bind (purge_subtree_alive fuel tier_of release c)
           (\<lambda>k. purge_children fuel tier_of release cs (purged + 1 + k))
           (upd_node c (\<lambda>n. n\<lparr>parent := None\<rparr>) (drop_reg (block_ids child) t), p)) (t, p))"

fun purge_path_loop ::
  "nat \<Rightarrow> ('p \<Rightarrow> bid \<Rightarrow> tier option) \<Rightarrow> (bid list \<Rightarrow> ('p, unit) py) \<Rightarrow> token list \<Rightarrow> addr \<Rightarrow> nat \<Rightarrow>
   (radix_tree \<times> 'p, nat) py" where
  "purge_path_loop 0 tier_of release toks node pos s = (Inl OutOfFuel, s)"
| "purge_path_loop (Suc fuel) tier_of release toks node pos (t, p) =
     (if pos < length toks then
        (case heap t node of None \<Rightarrow> (Inl HeapFault, (t, p)) | Some nd \<Rightarrow>
          (case map_of (children nd) (toks ! pos) of None \<Rightarrow> (Inr 0, (t, p))
           | Some c \<Rightarrow> (case heap t c of None \<Rightarrow> (Inl HeapFault, (t, p)) | Some child \<Rightarrow>
               if node_ref_count child > 0 then (Inr 0, (t, p))
               else let cp = cp_len (drop pos toks) (key child) in
               if cp < length (key child) then (Inr 0, (t, p))
               else if \<exists>b \<in> set (block_ids child). tier_of p b = None then
                 py_bind (call_free release (alive_blocks (tier_of p) (block_ids child))) (\<lambda>_ (t, p).
                   py_bind (purge_subtree_alive (Suc (length (nodes t))) tier_of release c)
                     (\<lambda>k. py_return (1 + k))
                     (upd_node c (\<lambda>n. n\<lparr>parent := None\<rparr>)
                        (drop_reg (block_ids child) (del_child node (toks ! pos) t)), p)) (t, p)
               else purge_path_loop fuel tier_of release toks c (pos + cp) (t, p))))
      else (Inr 0, (t, p)))"

definition purge_path_with_any_dead ::
  "('p \<Rightarrow> bid \<Rightarrow> tier option) \<Rightarrow> (bid list \<Rightarrow> ('p, unit) py) \<Rightarrow> token list \<Rightarrow>
   (radix_tree \<times> 'p, nat) py" where
  "purge_path_with_any_dead tier_of release toks s =
     (if toks = [] then (Inr 0, s)
      else purge_path_loop (Suc (length toks)) tier_of release toks root_addr 0 s)"

section \<open>Demotion candidates\<close>

definition demotable :: "(bid \<Rightarrow> bool) option \<Rightarrow> radix_tree \<Rightarrow> (addr \<times> radix_node) list" where
  "demotable is_pinned t =
     filter (\<lambda>(a, n). children n = [] \<and> node_ref_count n = 0 \<and>
       \<not> (case is_pinned of None \<Rightarrow> False | Some f \<Rightarrow> \<exists>b \<in> set (block_ids n). f b)) (reg_nodes t)"

text \<open>\<open>scans_left\<close> is \<open>max_scans - scans\<close>: the source bounds this loop itself.\<close>

fun demote_loop ::
  "nat \<Rightarrow> nat \<Rightarrow> (bid \<Rightarrow> tier option) option \<Rightarrow> (bid \<Rightarrow> bool) option \<Rightarrow> time \<Rightarrow> bid list list \<Rightarrow>
   (radix_tree, bid list list) py" where
  "demote_loop 0 n tier_of is_pinned now demoted t = (Inr demoted, t)"
| "demote_loop (Suc scans_left) n tier_of is_pinned now demoted t =
     (if length demoted < n then
        (case min_by (\<lambda>(a, n). last_access_time n) (demotable is_pinned t) of
           None \<Rightarrow> (Inr demoted, t)
         | Some v \<Rightarrow>
             if (case tier_of of None \<Rightarrow> False
                 | Some f \<Rightarrow> alive_blocks f (block_ids (snd v)) = [])
             then py_bind (detach v) (\<lambda>_. demote_loop scans_left n tier_of is_pinned now demoted) t
             else demote_loop scans_left n tier_of is_pinned now (demoted @ [block_ids (snd v)])
                    (touch (fst v) (now + 1 / 1000000000) t))
      else (Inr demoted, t))"

definition demote_lru ::
  "nat \<Rightarrow> (bid \<Rightarrow> tier option) option \<Rightarrow> (bid \<Rightarrow> bool) option \<Rightarrow> time \<Rightarrow>
   (radix_tree, bid list list) py" where
  "demote_lru n tier_of is_pinned now t =
     demote_loop (length (nodes t) + n + 1) n tier_of is_pinned now [] t"

end
