(* ===== verification/Radix_Invariant.thy ===== *)
theory Radix_Invariant
  imports Radix_Tree "HOL-Library.Sublist"
begin

text \<open>
  The representation invariant of the radix tree and what the tree stands for.

  \<open>tree_wf t L\<close> says that the store behind \<open>t\<close> is a tree: \<open>L\<close> labels every live object
  with the tokens on the way from the root to it, parent and child references agree, the
  registry \<open>_nodes\<close> holds exactly the live objects under their first block, every node
  owns \<open>ceil (len key / block_size)\<close> blocks, and no block has two owners. \<open>path_to t a ts\<close>
  (following child references from the root spells \<open>ts\<close> and ends in \<open>a\<close>) needs no label
  function; the two notions coincide on well-formed trees.
\<close>

section \<open>Definitions\<close>

definition registered :: "radix_tree \<Rightarrow> addr \<Rightarrow> bool" where
  "registered t a \<longleftrightarrow> (\<exists>b. map_of (nodes t) b = Some a)"

definition live :: "radix_tree \<Rightarrow> addr \<Rightarrow> bool" where
  "live t a \<longleftrightarrow> a = root_addr \<or> registered t a"

definition node_ok :: "radix_tree \<Rightarrow> (addr \<Rightarrow> token list) \<Rightarrow> bid \<Rightarrow> addr \<Rightarrow> bool" where
  "node_ok t L b a \<longleftrightarrow> (\<exists>n p pn. heap t a = Some n \<and> key n \<noteq> [] \<and>
     length (block_ids n) = n_blocks t (key n) \<and> distinct (block_ids n) \<and> hd (block_ids n) = b \<and>
     parent n = Some p \<and> live t p \<and> heap t p = Some pn \<and>
     map_of (children pn) (hd (key n)) = Some a \<and> L a = L p @ key n)"

definition kids_ok :: "radix_tree \<Rightarrow> addr \<Rightarrow> bool" where
  "kids_ok t a \<longleftrightarrow> (\<exists>n. heap t a = Some n \<and> distinct (map fst (children n)) \<and>
     (\<forall>tok c. map_of (children n) tok = Some c \<longrightarrow> registered t c \<and>
        (\<exists>cn. heap t c = Some cn \<and> parent cn = Some a \<and> hd (key cn) = tok)))"

definition owners_ok :: "radix_tree \<Rightarrow> bool" where
  "owners_ok t \<longleftrightarrow> (\<forall>a a' n n'. registered t a \<longrightarrow> registered t a' \<longrightarrow> a \<noteq> a' \<longrightarrow>
     heap t a = Some n \<longrightarrow> heap t a' = Some n' \<longrightarrow> set (block_ids n) \<inter> set (block_ids n') = {})"

definition root_ok :: "radix_tree \<Rightarrow> bool" where
  "root_ok t \<longleftrightarrow> \<not> registered t root_addr \<and>
     (\<exists>r. heap t root_addr = Some r \<and> key r = [] \<and> block_ids r = [] \<and> parent r = None)"

definition tree_wf :: "radix_tree \<Rightarrow> (addr \<Rightarrow> token list) \<Rightarrow> bool" where
  "tree_wf t L \<longleftrightarrow>
     0 < tree_block_size t \<and> distinct (map fst (nodes t)) \<and> root_ok t \<and> L root_addr = [] \<and>
     (\<forall>b a. map_of (nodes t) b = Some a \<longrightarrow> node_ok t L b a) \<and>
     (\<forall>a. live t a \<longrightarrow> kids_ok t a) \<and> owners_ok t \<and> (\<forall>a. heap t a \<noteq> None \<longrightarrow> a < next_addr t)"

definition tree_ok :: "radix_tree \<Rightarrow> bool" where
  "tree_ok t \<longleftrightarrow> (\<exists>L. tree_wf t L)"

inductive path_to :: "radix_tree \<Rightarrow> addr \<Rightarrow> token list \<Rightarrow> bool" for t where
  path_root: "path_to t root_addr []"
| path_step: "path_to t a ts \<Longrightarrow> heap t a = Some n \<Longrightarrow> map_of (children n) tok = Some c \<Longrightarrow>
     heap t c = Some cn \<Longrightarrow> path_to t c (ts @ key cn)"

text \<open>The cached prefixes, and all blocks the tree's nodes own.\<close>

definition cached :: "radix_tree \<Rightarrow> token list set" where
  "cached t = {ts. \<exists>a. path_to t a ts}"

definition tree_blocks :: "radix_tree \<Rightarrow> bid set" where
  "tree_blocks t = {b. \<exists>a n. registered t a \<and> heap t a = Some n \<and> b \<in> set (block_ids n)}"

text \<open>Everything about a tree except the LRU time stamps.\<close>

definition strip :: "radix_tree \<Rightarrow> radix_tree" where
  "strip t = t\<lparr>heap := (\<lambda>a. map_option (\<lambda>n. n\<lparr>last_access_time := 0\<rparr>) (heap t a))\<rparr>"

section \<open>Destruction rules\<close>

lemma node_okE:
  assumes "node_ok t L b a"
  obtains n p pn where "heap t a = Some n" "key n \<noteq> []"
    "length (block_ids n) = n_blocks t (key n)" "distinct (block_ids n)" "hd (block_ids n) = b"
    "parent n = Some p" "live t p" "heap t p = Some pn" "map_of (children pn) (hd (key n)) = Some a"
    "L a = L p @ key n"
  using assms unfolding node_ok_def by blast

lemma tree_wfD:
  assumes "tree_wf t L"
  shows "0 < tree_block_size t" "distinct (map fst (nodes t))" "root_ok t" "L root_addr = []"
    "map_of (nodes t) b = Some a \<Longrightarrow> node_ok t L b a" "live t a \<Longrightarrow> kids_ok t a"
    "owners_ok t" "heap t a = Some n \<Longrightarrow> a < next_addr t"
  using assms unfolding tree_wf_def by auto

lemma live_root [simp]: "live t root_addr" by (simp add: live_def)

lemma registered_live: "registered t a \<Longrightarrow> live t a" by (simp add: live_def)

lemma wf_registeredE:
  assumes "tree_wf t L" "registered t a"
  obtains n p pn where "heap t a = Some n" "key n \<noteq> []"
    "length (block_ids n) = n_blocks t (key n)" "distinct (block_ids n)"
    "map_of (nodes t) (hd (block_ids n)) = Some a"
    "parent n = Some p" "live t p" "heap t p = Some pn" "map_of (children pn) (hd (key n)) = Some a"
    "L a = L p @ key n"
proof -
  obtain b where b: "map_of (nodes t) b = Some a" using assms(2) by (auto simp: registered_def)
  show ?thesis
    using tree_wfD(5)[OF assms(1) b] b that by (elim node_okE) blast
qed

lemma wf_live_heap: "tree_wf t L \<Longrightarrow> live t a \<Longrightarrow> \<exists>n. heap t a = Some n"
  using tree_wfD(6) by (fastforce simp: kids_ok_def)

lemma wf_childE:
  assumes "tree_wf t L" "live t a" "heap t a = Some n" "map_of (children n) tok = Some c"
  obtains cn where "registered t c" "heap t c = Some cn" "parent cn = Some a" "hd (key cn) = tok"
    "key cn \<noteq> []" "L c = L a @ key cn"
proof -
  have k: "kids_ok t a" using tree_wfD(6)[OF assms(1,2)] .
  with assms(3,4) obtain cn where cn: "registered t c" "heap t c = Some cn" "parent cn = Some a"
    "hd (key cn) = tok" unfolding kids_ok_def by (metis option.inject)
  then show ?thesis using that wf_registeredE[OF assms(1) cn(1)] by (metis option.inject)
qed

lemma n_blocks_ceil: "0 < tree_block_size t \<Longrightarrow> n_blocks t k = ceil_div (length k) (tree_block_size t)"
  by (simp add: n_blocks_def ceil_div_def)

lemma n_blocks_pos: "0 < tree_block_size t \<Longrightarrow> k \<noteq> [] \<Longrightarrow> 0 < n_blocks t k"
  by (simp add: n_blocks_ceil ceil_div_pos)

lemma wf_block_ids_nonempty:
  assumes "tree_wf t L" "registered t a" "heap t a = Some n"
  shows "block_ids n \<noteq> []"
  using wf_registeredE[OF assms(1,2)] n_blocks_pos[OF tree_wfD(1)[OF assms(1)]] assms(3)
  by (metis length_greater_0_conv option.inject)

lemma registered_label: "tree_wf t L \<Longrightarrow> registered t a \<Longrightarrow> L a \<noteq> []"
  by (auto elim: wf_registeredE)

section \<open>Time stamps do not matter\<close>

lemma strip_simps [simp]:
  "nodes (strip t) = nodes t" "next_addr (strip t) = next_addr t"
  "tree_block_size (strip t) = tree_block_size t"
  "registered (strip t) = registered t" "live (strip t) = live t"
  "n_blocks (strip t) = n_blocks t"
  "heap (strip t) a = map_option (\<lambda>n. n\<lparr>last_access_time := 0\<rparr>) (heap t a)"
  by (auto simp: strip_def registered_def live_def n_blocks_def fun_eq_iff)

lemma tree_wf_strip: "tree_wf (strip t) L = tree_wf t L"
proof -
  have "node_ok (strip t) L b a = node_ok t L b a" for b a
    by (auto simp: node_ok_def)
  moreover have "kids_ok (strip t) a = kids_ok t a" for a
    by (fastforce simp: kids_ok_def)
  moreover have "owners_ok (strip t) = owners_ok t"
    by (fastforce simp: owners_ok_def)
  moreover have "root_ok (strip t) = root_ok t" by (auto simp: root_ok_def)
  ultimately show ?thesis by (simp add: tree_wf_def)
qed

lemma tree_wf_shape: "strip t' = strip t \<Longrightarrow> tree_wf t L \<Longrightarrow> tree_wf t' L"
  by (metis tree_wf_strip)

lemma path_to_strip: "path_to (strip t) a ts = path_to t a ts"
proof
  show "path_to (strip t) a ts \<Longrightarrow> path_to t a ts"
    by (induction rule: path_to.induct) (auto intro: path_to.intros)
  show "path_to t a ts \<Longrightarrow> path_to (strip t) a ts"
  proof (induction rule: path_to.induct)
    case (path_step a ts n tok c cn)
    have "path_to (strip t) c (ts @ key (cn\<lparr>last_access_time := 0\<rparr>))"
      using path_step by (intro path_to.path_step[where a = a and tok = tok and n = "n\<lparr>last_access_time := 0\<rparr>"]) auto
    then show ?case by simp
  qed (rule path_to.path_root)
qed

lemma cached_shape: "strip t' = strip t \<Longrightarrow> cached t' = cached t"
  unfolding cached_def by (metis path_to_strip)

lemma tree_blocks_strip: "tree_blocks (strip t) = tree_blocks t"
  by (fastforce simp: tree_blocks_def)

lemma tree_blocks_shape: "strip t' = strip t \<Longrightarrow> tree_blocks t' = tree_blocks t"
  by (metis tree_blocks_strip)

lemma strip_touch [simp]: "strip (touch a now t) = strip t"
proof -
  have "(\<lambda>x. map_option (\<lambda>n. n\<lparr>last_access_time := 0\<rparr>) (heap (touch a now t) x)) =
        (\<lambda>x. map_option (\<lambda>n. n\<lparr>last_access_time := 0\<rparr>) (heap t x))"
    by (auto simp: touch_def upd_node_def option.map_comp comp_def)
  then show ?thesis by (simp add: strip_def touch_def upd_node_def)
qed

lemma shape_heap:
  assumes "strip t' = strip t" "heap t a = Some n"
  obtains n' where "heap t' a = Some n'" "key n' = key n" "block_ids n' = block_ids n"
    "children n' = children n" "parent n' = parent n" "node_ref_count n' = node_ref_count n"
proof -
  have "heap (strip t') a = heap (strip t) a" using assms(1) by simp
  then obtain n' where n': "heap t' a = Some n'"
    and e: "n'\<lparr>last_access_time := 0\<rparr> = n\<lparr>last_access_time := 0\<rparr>" using assms(2) by auto
  show ?thesis
    by (rule that[OF n']) (use arg_cong[OF e, of key] arg_cong[OF e, of block_ids]
        arg_cong[OF e, of children] arg_cong[OF e, of parent] arg_cong[OF e, of node_ref_count] in simp_all)
qed

section \<open>Labels\<close>

lemma path_to_label: "path_to t a ts \<Longrightarrow> tree_wf t L \<Longrightarrow> live t a \<and> ts = L a"
proof (induction rule: path_to.induct)
  case (path_step a ts n tok c cn)
  then have a: "live t a" "ts = L a" by auto
  obtain cn' where "registered t c" "heap t c = Some cn'" "L c = L a @ key cn'"
    using wf_childE[OF path_step.prems a(1) path_step.hyps(2,3)] by metis
  with a path_step.hyps(4) show ?case by (simp add: registered_live)
qed (auto dest: tree_wfD(4))

lemma label_path_to: "tree_wf t L \<Longrightarrow> live t a \<Longrightarrow> path_to t a (L a)"
proof (induction "length (L a)" arbitrary: a rule: less_induct)
  case less
  show ?case
  proof (cases "a = root_addr")
    case True
    then show ?thesis using tree_wfD(4)[OF less.prems(1)] by (simp add: path_to.path_root)
  next
    case False
    then have "registered t a" using less.prems(2) by (simp add: live_def)
    then obtain n p pn where n: "heap t a = Some n" "key n \<noteq> []" "live t p" "heap t p = Some pn"
      "map_of (children pn) (hd (key n)) = Some a" "L a = L p @ key n"
      using wf_registeredE[OF less.prems(1)] by metis
    have "path_to t p (L p)" using less.hyps[of p] n less.prems(1) by simp
    from path_to.path_step[OF this n(4,5,1)] show ?thesis by (simp add: n(6))
  qed
qed

lemma path_to_iff: "tree_wf t L \<Longrightarrow> path_to t a ts \<longleftrightarrow> live t a \<and> ts = L a"
  using path_to_label label_path_to by metis

lemma cached_labels: "tree_wf t L \<Longrightarrow> cached t = L ` {a. live t a}"
  unfolding cached_def by (auto simp: path_to_iff)

text \<open>
  A node whose label is a proper prefix of another node's label has a child towards it:
  labels branch only at nodes. With it, labels are unique.
\<close>

definition toward :: "radix_tree \<Rightarrow> (addr \<Rightarrow> token list) \<Rightarrow> addr \<Rightarrow> token list \<Rightarrow> bool" where
  "toward t L x ts \<longleftrightarrow> (\<exists>nx c. heap t x = Some nx \<and>
     map_of (children nx) (ts ! length (L x)) = Some c \<and> prefix (L c) ts)"

lemma prefix_nth_same: "prefix xs ys \<Longrightarrow> i < length xs \<Longrightarrow> xs ! i = ys ! i"
  by (auto simp: prefix_def nth_append)

lemma prefix_len_eq: "prefix xs ys \<Longrightarrow> length xs = length ys \<Longrightarrow> xs = ys"
  by (auto simp: prefix_def)

lemma prefix_both: "prefix xs zs \<Longrightarrow> prefix ys zs \<Longrightarrow> length xs \<le> length ys \<Longrightarrow> prefix xs ys"
  by (rule prefix_length_prefix)

lemma toward_parent_step:
  assumes "heap t p = Some pn" "map_of (children pn) (hd (key n)) = Some a" "key n \<noteq> []"
    "L a = L p @ key n" "prefix (L a) ts"
  shows "map_of (children pn) (ts ! length (L p)) = Some a" "toward t L p ts"
proof -
  have "ts ! length (L p) = hd (key n)"
    using prefix_nth_same[OF assms(5), of "length (L p)"] assms(3,4) by (simp add: hd_conv_nth nth_append)
  then show "map_of (children pn) (ts ! length (L p)) = Some a" using assms(2) by simp
  then show "toward t L p ts" using assms(1,5) by (auto simp: toward_def)
qed

lemma toward_child:
  assumes "toward t L p ts" "heap t p = Some pn" "map_of (children pn) (ts' ! length (L p)) = Some a"
    "prefix ts ts'" "length (L p) < length ts"
  shows "prefix (L a) ts"
  using assms prefix_nth_same[OF assms(4,5)] by (auto simp: toward_def)

lemma labels_branch:
  assumes wf: "tree_wf t L"
  shows "live t a \<Longrightarrow> live t x \<Longrightarrow> prefix (L x) (L a) \<Longrightarrow>
    (if L x = L a then x = a else toward t L x (L a))"
proof (induction "length (L a)" arbitrary: a x rule: less_induct)
  case less
  note IH = less.hyps and pre = less.prems
  show ?case
  proof (cases "a = root_addr")
    case True
    then have "L x = []" using pre(3) tree_wfD(4)[OF wf] by simp
    then have "x = root_addr" using pre(2) registered_label[OF wf, of x] by (auto simp: live_def)
    then show ?thesis using True by simp
  next
    case False
    then have "registered t a" using pre(1) by (simp add: live_def)
    then obtain n p pn where n: "heap t a = Some n" "key n \<noteq> []" "live t p" "heap t p = Some pn"
      "map_of (children pn) (hd (key n)) = Some a" "L a = L p @ key n"
      using wf_registeredE[OF wf] by metis
    have lp: "length (L p) < length (L a)" and pp: "prefix (L p) (L a)" using n by auto
    note step = toward_parent_step[OF n(4,5,2,6), of "L a", simplified]
    show ?thesis
    proof (cases "length (L x) \<le> length (L p)")
      case True
      then have xp: "prefix (L x) (L p)" using pre(3) pp by (rule prefix_both[rotated 2])
      have "L x \<noteq> L a" using True lp by auto
      moreover have "toward t L x (L a)"
      proof (cases "L x = L p")
        case True
        then have "x = p" using IH[OF lp n(3) pre(2) xp] by simp
        then show ?thesis using step by simp
      next
        case False
        then have tw: "toward t L x (L p)" using IH[OF lp n(3) pre(2) xp] by simp
        have "length (L x) < length (L p)" using False xp True
          by (metis le_neq_implies_less prefix_len_eq)
        then show ?thesis using tw prefix_nth_same[OF pp, of "length (L x)"] pp
          unfolding toward_def by (metis prefix_order.trans)
      qed
      ultimately show ?thesis by simp
    next
      case False
      then have px: "prefix (L p) (L x)" using pp pre(3) prefix_both by force
      have xr: "registered t x" using False pre(2) tree_wfD(4)[OF wf] by (auto simp: live_def)
      show ?thesis
      proof (cases "L x = L a")
        case ne: False
        have lx: "length (L x) < length (L a)" using ne pre(3)
          by (metis prefix_length_le prefix_len_eq le_neq_implies_less)
        have "toward t L p (L x)" using IH[OF lx pre(2) n(3) px] False by (auto split: if_splits)
        from toward_child[OF this n(4) step(1) pre(3)] have "prefix (L a) (L x)" using False by simp
        then show ?thesis using lx by (auto dest: prefix_length_le)
      next
        case True
        obtain m q qn where m: "heap t x = Some m" "key m \<noteq> []" "live t q" "heap t q = Some qn"
          "map_of (children qn) (hd (key m)) = Some x" "L x = L q @ key m"
          using wf_registeredE[OF wf xr] by metis
        have lq: "length (L q) < length (L a)" and qa: "prefix (L q) (L a)" using m True by auto
        note stepx = toward_parent_step[OF m(4,5,2,6), of "L a", unfolded True, simplified]
        consider "L q = L p" | "length (L q) < length (L p)" | "length (L p) < length (L q)"
          using pp qa prefix_both by (metis nat_neq_iff le_refl prefix_len_eq)
        then have "x = a"
        proof cases
          case 1
          then have "q = p" using IH[OF lp n(3) m(3)] by simp
          with stepx(1) step(1) m(4) n(4) show ?thesis by simp
        next
          case 2
          have qp: "prefix (L q) (L p)" using 2 qa pp prefix_both by force
          have "toward t L q (L p)" using IH[OF lp n(3) m(3) qp] 2 by (auto split: if_splits)
          from toward_child[OF this m(4) stepx(1) pp 2] have "prefix (L x) (L p)" .
          then show ?thesis using lp True by (auto dest: prefix_length_le)
        next
          case 3
          have qp: "prefix (L p) (L q)" using 3 qa pp prefix_both by force
          have "toward t L p (L q)" using IH[OF lq m(3) n(3) qp] 3 by (auto split: if_splits)
          from toward_child[OF this n(4) step(1) qa 3] have "prefix (L a) (L q)" .
          then show ?thesis using lq by (auto dest: prefix_length_le)
        qed
        then show ?thesis by simp
      qed
    qed
  qed
qed

end
