(* ===== verification/Radix_Match.thy ===== *)
theory Radix_Match
  imports Radix_Invariant
begin

text \<open>
  Prefix matching: on a well-formed tree the walk terminates within the tokens it is given,
  changes nothing but time stamps, and stops at the longest cached prefix that ends at a
  node; the block lists it returns are those of the last node and of the whole path.
\<close>

section \<open>Common prefixes\<close>

lemma cp_len_le: "cp_len xs ys \<le> length xs" "cp_len xs ys \<le> length ys"
  by (induction xs ys rule: cp_len.induct) auto

lemma cp_len_full: "cp_len xs ys = length ys \<longleftrightarrow> prefix ys xs"
  by (induction xs ys rule: cp_len.induct) auto

lemma cp_len_take: "take (cp_len xs ys) xs = take (cp_len xs ys) ys"
  by (induction xs ys rule: cp_len.induct) auto

lemma cp_len_diff:
  "cp_len xs ys < length xs \<Longrightarrow> cp_len xs ys < length ys \<Longrightarrow> xs ! cp_len xs ys \<noteq> ys ! cp_len xs ys"
  by (induction xs ys rule: cp_len.induct) auto

lemma cp_len_pos: "xs \<noteq> [] \<Longrightarrow> ys \<noteq> [] \<Longrightarrow> hd xs = hd ys \<Longrightarrow> 0 < cp_len xs ys"
  by (cases xs; cases ys) auto

section \<open>Where a walk stops\<close>

lemma prefix_take_append: "prefix (take n xs @ ys) xs \<longleftrightarrow> prefix ys (drop n xs)"
  by (metis append_take_drop_id same_prefix_prefix)

lemma longest_stop:
  assumes wf: "tree_wf t L" and node: "live t node" "L node = take pos toks" "pos \<le> length toks"
    and stop: "\<And>n c cn. heap t node = Some n \<Longrightarrow> map_of (children n) (toks ! pos) = Some c \<Longrightarrow>
      heap t c = Some cn \<Longrightarrow> \<not> prefix (key cn) (drop pos toks)"
    and x: "live t x" "prefix (L x) toks"
  shows "length (L x) \<le> pos"
proof (rule ccontr)
  assume "\<not> ?thesis"
  then have gt: "pos < length (L x)" by simp
  have len: "length (L node) = pos" using node(2,3) by simp
  have nx: "prefix (L node) (L x)"
    using prefix_both[of "L node" toks "L x"] node(2) x(2) gt len by (simp add: take_is_prefix)
  then have "toward t L node (L x)"
    using labels_branch[OF wf x(1) node(1)] gt len by (auto split: if_splits)
  then obtain n c where nc: "heap t node = Some n" "map_of (children n) (L x ! pos) = Some c"
    "prefix (L c) (L x)" using len by (auto simp: toward_def)
  obtain cn where cn: "heap t c = Some cn" "L c = L node @ key cn"
    using wf_childE[OF wf node(1) nc(1,2)] by metis
  have "prefix (L node @ key cn) toks" using nc(3) cn(2) x(2) prefix_order.trans by metis
  then have "prefix (key cn) (drop pos toks)" unfolding node(2) by (simp only: prefix_take_append)
  moreover have "L x ! pos = toks ! pos" using prefix_nth_same[OF x(2) gt] .
  ultimately show False using stop[OF nc(1) _ cn(1)] nc(2) by simp
qed

lemma descend_label:
  assumes "L node = take pos toks" "pos \<le> length toks" "L c = L node @ key cn"
    "prefix (key cn) (drop pos toks)"
  shows "L c = take (pos + length (key cn)) toks" "pos + length (key cn) \<le> length toks"
proof -
  from assms(4) obtain zs where "drop pos toks = key cn @ zs" by (auto simp: prefix_def)
  then have "take (length (key cn)) (drop pos toks) = key cn" by simp
  then show "L c = take (pos + length (key cn)) toks"
    using assms(1,3) by (simp add: take_add)
  show "pos + length (key cn) \<le> length toks"
    using prefix_length_le[OF assms(4)] assms(2) by simp
qed

section \<open>The matching loop\<close>

lemma match_loop_spec:
  assumes wf: "tree_wf t L"
    and Q: "\<And>a n tok c cn ids. live t a \<Longrightarrow> heap t a = Some n \<Longrightarrow>
      map_of (children n) tok = Some c \<Longrightarrow> heap t c = Some cn \<Longrightarrow> Q a ids \<Longrightarrow> Q c (acc ids (block_ids cn))"
  shows "strip s = strip t \<Longrightarrow> live t node \<Longrightarrow> L node = take pos toks \<Longrightarrow> pos \<le> length toks \<Longrightarrow>
    Q node ids \<Longrightarrow> length toks - pos < fuel \<Longrightarrow>
    \<exists>pos' ids' s' a. match_loop fuel acc now toks node pos ids s = (Inr (pos', ids'), s') \<and>
      strip s' = strip t \<and> pos' \<le> length toks \<and> live t a \<and> L a = take pos' toks \<and> Q a ids' \<and>
      (\<forall>x. live t x \<longrightarrow> prefix (L x) toks \<longrightarrow> length (L x) \<le> pos')"
proof (induction fuel arbitrary: s node pos ids)
  case (Suc fuel)
  note pr = Suc.prems
  obtain n where n: "heap t node = Some n" using wf_live_heap[OF wf pr(2)] by blast
  obtain n' where n': "heap s node = Some n'" "children n' = children n"
    using shape_heap[OF pr(1) n] by metis
  have stop: ?case
    if res: "match_loop (Suc fuel) acc now toks node pos ids s = (Inr (pos, ids), s)"
      and no: "\<And>c cn. map_of (children n) (toks ! pos) = Some c \<Longrightarrow>
        heap t c = Some cn \<Longrightarrow> \<not> prefix (key cn) (drop pos toks)"
    using longest_stop[OF wf pr(2-4)] no n res pr by auto
  show ?case
  proof (cases "pos < length toks")
    case False
    then have "drop pos toks = []" by simp
    then show ?thesis
      using False wf_childE[OF wf pr(2) n] by (intro stop) (auto, metis option.inject)
  next
    case lt: True
    show ?thesis
    proof (cases "map_of (children n) (toks ! pos)")
      case None
      then show ?thesis using lt n' by (intro stop) auto
    next
      case (Some c)
      obtain cn where cn: "registered t c" "heap t c = Some cn" "key cn \<noteq> []" "L c = L node @ key cn"
        using wf_childE[OF wf pr(2) n Some] by metis
      obtain cn' where cn': "heap s c = Some cn'" "key cn' = key cn" "block_ids cn' = block_ids cn"
        using shape_heap[OF pr(1) cn(2)] by metis
      show ?thesis
      proof (cases "prefix (key cn) (drop pos toks)")
        case False
        then have "cp_len (drop pos toks) (key cn) < length (key cn)"
          using cp_len_full[of "drop pos toks" "key cn"] cp_len_le(2)[of "drop pos toks" "key cn"] by simp
        then show ?thesis using lt n' cn' Some cn(2) False by (intro stop) (auto simp: Let_def)
      next
        case True
        then have cp: "cp_len (drop pos toks) (key cn) = length (key cn)" by (simp add: cp_len_full)
        note d = descend_label[of L node pos toks c cn, OF pr(3,4) cn(4) True]
        have "strip (touch c now s) = strip t" using pr(1) by simp
        moreover have "length toks - (pos + length (key cn)) < fuel"
          using pr(6) lt cn(3) d(2) by (cases "key cn") auto
        ultimately obtain pos' ids' s' a where
          "match_loop fuel acc now toks c (pos + length (key cn)) (acc ids (block_ids cn)) (touch c now s)
             = (Inr (pos', ids'), s')" "strip s' = strip t" "pos' \<le> length toks" "live t a"
          "L a = take pos' toks" "Q a ids'" "\<forall>x. live t x \<longrightarrow> prefix (L x) toks \<longrightarrow> length (L x) \<le> pos'"
          using Suc.IH[OF _ registered_live[OF cn(1)] d Q[OF pr(2) n Some cn(2) pr(5)]] by blast
        then show ?thesis using lt n' cn' Some cp by (auto simp: Let_def)
      qed
    qed
  qed
qed simp

section \<open>The blocks along a path\<close>

inductive path_blocks :: "radix_tree \<Rightarrow> addr \<Rightarrow> bid list \<Rightarrow> bool" for t where
  pb_root: "path_blocks t root_addr []"
| pb_step: "path_blocks t a ids \<Longrightarrow> live t a \<Longrightarrow> heap t a = Some n \<Longrightarrow>
     map_of (children n) tok = Some c \<Longrightarrow> heap t c = Some cn \<Longrightarrow> path_blocks t c (ids @ block_ids cn)"

lemma path_blocks_owners:
  assumes wf: "tree_wf t L" and pb: "path_blocks t a ids"
  shows "live t a \<and> distinct ids \<and> length (L a) \<le> length ids * tree_block_size t \<and>
    (\<forall>b \<in> set ids. \<exists>x n. registered t x \<and> heap t x = Some n \<and> b \<in> set (block_ids n) \<and>
       length (L x) \<le> length (L a))"
  using pb
proof (induction rule: path_blocks.induct)
  case pb_root
  then show ?case using tree_wfD(4)[OF wf] by simp
next
  case (pb_step a ids n tok c cn)
  obtain cn' where c: "registered t c" "heap t c = Some cn'" "key cn' \<noteq> []" "L c = L a @ key cn'"
    using wf_childE[OF wf pb_step.hyps(2-4)] by metis
  then have cn: "cn' = cn" using pb_step.hyps(5) by simp
  have d: "distinct (block_ids cn)" and len: "length (block_ids cn) = n_blocks t (key cn)"
    using wf_registeredE[OF wf c(1)] pb_step.hyps(5) by (metis option.inject)+
  have sz: "length (key cn) \<le> length (block_ids cn) * tree_block_size t"
    using len ceil_div_bounds(1) tree_wfD(1)[OF wf] by (simp add: n_blocks_ceil)
  have own: "\<exists>x n. registered t x \<and> heap t x = Some n \<and> b \<in> set (block_ids n) \<and>
      length (L x) \<le> length (L a)" if "b \<in> set ids" for b
    using pb_step.IH that by blast
  have "b \<notin> set (block_ids cn)" if bi: "b \<in> set ids" for b
  proof
    assume b: "b \<in> set (block_ids cn)"
    obtain x m where x: "registered t x" "heap t x = Some m" "b \<in> set (block_ids m)"
      "length (L x) \<le> length (L a)" using own[OF bi] by blast
    then have "x \<noteq> c" using c(3,4) by auto
    then show False using tree_wfD(7)[OF wf] x c(1) pb_step.hyps(5) b unfolding owners_ok_def by blast
  qed
  moreover have "length (L c) \<le> length (ids @ block_ids cn) * tree_block_size t"
    using c(4) cn sz pb_step.IH by (simp add: add_mult_distrib)
  moreover have "\<exists>x n. registered t x \<and> heap t x = Some n \<and> b \<in> set (block_ids n) \<and>
      length (L x) \<le> length (L c)" if b: "b \<in> set (ids @ block_ids cn)" for b
  proof (cases "b \<in> set ids")
    case True
    then show ?thesis using own c(4) by (metis le_trans length_append le_add1)
  next
    case False
    then show ?thesis using b c(1) pb_step.hyps(5) by auto
  qed
  ultimately show ?case using pb_step.IH d registered_live[OF c(1)] by (auto simp: disjoint_iff)
qed

lemma path_blocks_facts:
  assumes "tree_wf t L" "path_blocks t a ids"
  shows "live t a" "distinct ids" "length (L a) \<le> length ids * tree_block_size t"
    "set ids \<subseteq> tree_blocks t"
  using path_blocks_owners[OF assms] by (fastforce simp: tree_blocks_def)+

text \<open>The blocks of the node at the end of a label.\<close>

definition last_blocks :: "radix_tree \<Rightarrow> addr \<Rightarrow> bid list" where
  "last_blocks t a = (case heap t a of None \<Rightarrow> [] | Some n \<Rightarrow> block_ids n)"

section \<open>The two matching operations\<close>

lemma match_prefix_spec:
  assumes wf: "tree_wf t L"
  obtains n ids t' a where "match_prefix now toks t = (Inr (n, ids), t')" "strip t' = strip t"
    "n \<le> length toks" "live t a" "L a = take n toks" "ids = last_blocks t a"
    "\<And>x. live t x \<Longrightarrow> prefix (L x) toks \<Longrightarrow> length (L x) \<le> n"
proof (cases "toks = []")
  case True
  show ?thesis
    by (rule that[of 0 "root_bids t" t root_addr])
      (use True tree_wfD(4)[OF wf] in \<open>auto simp: match_prefix_def root_bids_def last_blocks_def\<close>)
next
  case False
  have "\<exists>pos' ids' s' a. match_loop (Suc (length toks)) (\<lambda>_ bids. bids) now toks root_addr 0
        (root_bids t) t = (Inr (pos', ids'), s') \<and>
      strip s' = strip t \<and> pos' \<le> length toks \<and> live t a \<and> L a = take pos' toks \<and>
      ids' = last_blocks t a \<and> (\<forall>x. live t x \<longrightarrow> prefix (L x) toks \<longrightarrow> length (L x) \<le> pos')"
    by (rule match_loop_spec[OF wf, where Q = "\<lambda>a ids. ids = last_blocks t a"])
      (use tree_wfD(4)[OF wf] in \<open>auto simp: last_blocks_def root_bids_def\<close>)
  then show ?thesis using that False by (auto simp: match_prefix_def)
qed

lemma match_prefix_path_spec:
  assumes wf: "tree_wf t L"
  obtains n ids t' a where "match_prefix_path now toks t = (Inr (n, ids), t')" "strip t' = strip t"
    "n \<le> length toks" "live t a" "L a = take n toks" "path_blocks t a ids"
    "\<And>x. live t x \<Longrightarrow> prefix (L x) toks \<Longrightarrow> length (L x) \<le> n"
proof (cases "toks = []")
  case True
  show ?thesis
    by (rule that[of 0 "[]" t root_addr])
      (use True tree_wfD(4)[OF wf] in \<open>auto simp: match_prefix_path_def intro: path_blocks.pb_root\<close>)
next
  case False
  have "\<exists>pos' ids' s' a. match_loop (Suc (length toks)) (\<lambda>ids bids. ids @ bids) now toks root_addr 0
        [] t = (Inr (pos', ids'), s') \<and>
      strip s' = strip t \<and> pos' \<le> length toks \<and> live t a \<and> L a = take pos' toks \<and>
      path_blocks t a ids' \<and> (\<forall>x. live t x \<longrightarrow> prefix (L x) toks \<longrightarrow> length (L x) \<le> pos')"
    by (rule match_loop_spec[OF wf, where Q = "path_blocks t"])
      (use tree_wfD(4)[OF wf] in \<open>auto intro: path_blocks.intros\<close>)
  then show ?thesis using that False by (auto simp: match_prefix_path_def)
qed

end
