(* ===== verification/Radix_Update.thy ===== *)
theory Radix_Update
  imports Radix_Match
begin

text \<open>
  The three structural changes the operations of the tree are made of: hanging a new leaf
  under a node, splitting an edge at a new middle node, and detaching a childless node.
  Each keeps the representation invariant; the lemmas say which labels and which blocks
  the tree has afterwards.
\<close>

section \<open>Setup\<close>

lemma heap_upd [simp]:
  "heap (upd_node a f t) = (heap t)(a := map_option f (heap t a))"
  "nodes (upd_node a f t) = nodes t" "next_addr (upd_node a f t) = next_addr t"
  "tree_block_size (upd_node a f t) = tree_block_size t"
  by (simp_all add: upd_node_def)

lemma heap_new [simp]:
  "heap (new_node n t) = (heap t)(next_addr t \<mapsto> n)" "nodes (new_node n t) = nodes t"
  "next_addr (new_node n t) = Suc (next_addr t)" "tree_block_size (new_node n t) = tree_block_size t"
  by (simp_all add: new_node_def)

lemma heap_reg [simp]:
  "heap (set_reg b a t) = heap t" "nodes (set_reg b a t) = AList.update b a (nodes t)"
  "next_addr (set_reg b a t) = next_addr t" "tree_block_size (set_reg b a t) = tree_block_size t"
  "heap (del_reg b t) = heap t" "nodes (del_reg b t) = AList.delete b (nodes t)"
  "next_addr (del_reg b t) = next_addr t" "tree_block_size (del_reg b t) = tree_block_size t"
  by (simp_all add: set_reg_def del_reg_def)

lemma n_blocks_same: "tree_block_size t' = tree_block_size t \<Longrightarrow> n_blocks t' = n_blocks t"
  by (simp add: n_blocks_def fun_eq_iff)

lemma node_okI:
  assumes "heap t a = Some n" "key n \<noteq> []" "length (block_ids n) = n_blocks t (key n)"
    "distinct (block_ids n)" "hd (block_ids n) = b" "parent n = Some p" "live t p"
    "heap t p = Some pn" "map_of (children pn) (hd (key n)) = Some a" "L a = L p @ key n"
  shows "node_ok t L b a"
  using assms unfolding node_ok_def by blast

lemma kids_okI:
  assumes "heap t a = Some n" "distinct (map fst (children n))"
    "\<And>tok c. map_of (children n) tok = Some c \<Longrightarrow> registered t c \<and>
       (\<exists>cn. heap t c = Some cn \<and> parent cn = Some a \<and> hd (key cn) = tok)"
  shows "kids_ok t a"
  using assms unfolding kids_ok_def by blast

lemma tree_wfI:
  assumes "0 < tree_block_size t" "distinct (map fst (nodes t))" "root_ok t" "L root_addr = []"
    "\<And>b a. map_of (nodes t) b = Some a \<Longrightarrow> node_ok t L b a" "\<And>a. live t a \<Longrightarrow> kids_ok t a"
    "owners_ok t" "\<And>a n. heap t a = Some n \<Longrightarrow> a < next_addr t"
  shows "tree_wf t L"
  unfolding tree_wf_def using assms by auto

lemma wf_kids:
  assumes "tree_wf t L" "live t a" "heap t a = Some n"
  shows "distinct (map fst (children n))"
    "map_of (children n) tok = Some c \<Longrightarrow> registered t c \<and>
       (\<exists>cn. heap t c = Some cn \<and> parent cn = Some a \<and> hd (key cn) = tok)"
  using tree_wfD(6)[OF assms(1,2)] assms(3) unfolding kids_ok_def by auto

lemma wf_root:
  assumes "tree_wf t L"
  obtains r where "heap t root_addr = Some r" "key r = []" "block_ids r = []" "parent r = None"
    "\<not> registered t root_addr"
  using tree_wfD(3)[OF assms] unfolding root_ok_def by blast

lemma wf_registry_key:
  assumes "tree_wf t L" "map_of (nodes t) b = Some a"
  obtains n where "heap t a = Some n" "block_ids n \<noteq> []" "hd (block_ids n) = b" "b \<in> tree_blocks t"
proof -
  obtain n where n: "heap t a = Some n" "hd (block_ids n) = b"
    using tree_wfD(5)[OF assms] by (elim node_okE) blast
  have r: "registered t a" using assms(2) by (auto simp: registered_def)
  note ne = wf_block_ids_nonempty[OF assms(1) r n(1)]
  show ?thesis using that n ne r by (fastforce simp: tree_blocks_def intro: hd_in_set)
qed

lemma tree_blocksI: "registered t a \<Longrightarrow> heap t a = Some n \<Longrightarrow> b \<in> set (block_ids n) \<Longrightarrow> b \<in> tree_blocks t"
  by (auto simp: tree_blocks_def)

lemma wf_fresh_addr:
  assumes "tree_wf t L"
  shows "heap t (next_addr t) = None" "\<not> live t (next_addr t)" "live t a \<Longrightarrow> a \<noteq> next_addr t"
proof -
  show h: "heap t (next_addr t) = None"
    using tree_wfD(8)[OF assms, of "next_addr t"] by (cases "heap t (next_addr t)") auto
  then show "\<not> live t (next_addr t)" using wf_live_heap[OF assms] by fastforce
  then show "live t a \<Longrightarrow> a \<noteq> next_addr t" by auto
qed

lemma wf_same_owner:
  assumes "tree_wf t L" "registered t a" "registered t a'" "heap t a = Some n" "heap t a' = Some n'"
    "b \<in> set (block_ids n)" "b \<in> set (block_ids n')"
  shows "a = a'"
  using tree_wfD(7)[OF assms(1)] assms(2-) unfolding owners_ok_def by blast

lemma owners_okI:
  assumes "\<And>a a' n n' b. registered t a \<Longrightarrow> registered t a' \<Longrightarrow> heap t a = Some n \<Longrightarrow>
    heap t a' = Some n' \<Longrightarrow> b \<in> set (block_ids n) \<Longrightarrow> b \<in> set (block_ids n') \<Longrightarrow> a = a'"
  shows "owners_ok t"
  using assms unfolding owners_ok_def by blast

section \<open>A new leaf\<close>

definition add_leaf :: "time \<Rightarrow> addr \<Rightarrow> token list \<Rightarrow> bid list \<Rightarrow> radix_tree \<Rightarrow> radix_tree" where
  "add_leaf now node k bids t =
     set_reg (hd bids) (next_addr t)
       (set_child node (hd k) (next_addr t) (new_node (fresh_node k bids now node) t))"

text \<open>When a leaf may be added, and how every part of the tree is found afterwards.\<close>

definition leaf_pre :: "radix_tree \<Rightarrow> (addr \<Rightarrow> token list) \<Rightarrow> addr \<Rightarrow> radix_node \<Rightarrow> token list \<Rightarrow> bid list \<Rightarrow> bool" where
  "leaf_pre t L node n k bids \<longleftrightarrow> tree_wf t L \<and> live t node \<and> heap t node = Some n \<and> k \<noteq> [] \<and>
     map_of (children n) (hd k) = None \<and> length bids = n_blocks t k \<and> distinct bids \<and>
     set bids \<inter> tree_blocks t = {}"

lemma leaf_preD:
  assumes "leaf_pre t L node n k bids"
  shows "tree_wf t L" "live t node" "heap t node = Some n" "k \<noteq> []"
    "map_of (children n) (hd k) = None" "length bids = n_blocks t k" "distinct bids"
    "set bids \<inter> tree_blocks t = {}" "bids \<noteq> []" "node \<noteq> next_addr t"
  using assms n_blocks_pos[OF tree_wfD(1), of t L k] wf_fresh_addr(3)[of t L node]
  unfolding leaf_pre_def by auto

lemma add_leaf_sizes [simp]:
  "tree_block_size (add_leaf now node k bids t) = tree_block_size t"
  "next_addr (add_leaf now node k bids t) = Suc (next_addr t)"
  by (simp_all add: add_leaf_def set_child_def)

lemma add_leaf_heap:
  assumes "leaf_pre t L node n k bids"
  shows "heap (add_leaf now node k bids t) =
    (heap t)(next_addr t \<mapsto> fresh_node k bids now node,
             node \<mapsto> n\<lparr>children := AList.update (hd k) (next_addr t) (children n)\<rparr>)"
  using leaf_preD[OF assms] by (auto simp: add_leaf_def set_child_def)

lemma add_leaf_registry:
  assumes pre: "leaf_pre t L node n k bids"
  shows "map_of (nodes (add_leaf now node k bids t)) b =
      (if b = hd bids then Some (next_addr t) else map_of (nodes t) b)"
    and "map_of (nodes t) (hd bids) = None"
    and "registered (add_leaf now node k bids t) a \<longleftrightarrow> registered t a \<or> a = next_addr t"
    and "live (add_leaf now node k bids t) a \<longleftrightarrow> live t a \<or> a = next_addr t"
proof -
  note P = leaf_preD[OF pre]
  show mo: "map_of (nodes (add_leaf now node k bids t)) b =
      (if b = hd bids then Some (next_addr t) else map_of (nodes t) b)" for b
    by (simp add: add_leaf_def set_child_def update_conv')
  show newb: "map_of (nodes t) (hd bids) = None"
    using wf_registry_key[OF P(1)] P(8) hd_in_set[OF P(9)] by (metis disjoint_iff option.exhaust)
  then show "registered (add_leaf now node k bids t) a \<longleftrightarrow> registered t a \<or> a = next_addr t" for a
    unfolding registered_def mo by (metis option.distinct(1) option.inject)
  then show "live (add_leaf now node k bids t) a \<longleftrightarrow> live t a \<or> a = next_addr t"
    by (auto simp: live_def)
qed

lemma add_leaf_old:
  assumes pre: "leaf_pre t L node n k bids" and a: "live t a" "heap t a = Some m"
  obtains m' where "heap (add_leaf now node k bids t) a = Some m'" "key m' = key m"
    "block_ids m' = block_ids m" "parent m' = parent m"
    "\<And>tok. map_of (children m') tok =
       (if a = node \<and> tok = hd k then Some (next_addr t) else map_of (children m) tok)"
    "distinct (map fst (children m))  \<Longrightarrow> distinct (map fst (children m'))"
  using leaf_preD[OF pre] wf_fresh_addr(3)[OF leaf_preD(1)[OF pre] a(1)] a
  by (cases "a = node") (auto simp: add_leaf_heap[OF pre] update_conv' distinct_update)

lemma add_leaf_new:
  assumes "leaf_pre t L node n k bids"
  shows "heap (add_leaf now node k bids t) (next_addr t) = Some (fresh_node k bids now node)"
  using leaf_preD(10)[OF assms] by (simp add: add_leaf_heap[OF assms])

lemma add_leaf_blocks_of:
  assumes pre: "leaf_pre t L node n k bids"
    and m: "registered (add_leaf now node k bids t) a" "heap (add_leaf now node k bids t) a = Some m'"
  shows "(a = next_addr t \<and> block_ids m' = bids) \<or>
    (registered t a \<and> (\<exists>m. heap t a = Some m \<and> block_ids m' = block_ids m))"
proof (cases "a = next_addr t")
  case True
  then show ?thesis using m(2) add_leaf_new[OF pre] by (auto simp: fresh_node_def)
next
  case False
  then have r: "registered t a" using m(1) add_leaf_registry(3)[OF pre] by simp
  obtain m where "heap t a = Some m" using wf_live_heap[OF leaf_preD(1)[OF pre] registered_live[OF r]] by blast
  then show ?thesis using r m(2) add_leaf_old[OF pre registered_live[OF r]] by (metis option.inject)
qed

lemma add_leaf_tree_blocks:
  assumes pre: "leaf_pre t L node n k bids"
  shows "tree_blocks (add_leaf now node k bids t) = tree_blocks t \<union> set bids"
proof
  show "tree_blocks (add_leaf now node k bids t) \<subseteq> tree_blocks t \<union> set bids"
    using add_leaf_blocks_of[OF pre] unfolding tree_blocks_def by fastforce
  have "b \<in> tree_blocks (add_leaf now node k bids t)" if b: "b \<in> tree_blocks t" for b
  proof -
    obtain a m where a: "registered t a" "heap t a = Some m" "b \<in> set (block_ids m)"
      using b by (auto simp: tree_blocks_def)
    show ?thesis
      by (rule add_leaf_old[OF pre registered_live[OF a(1)] a(2), of now])
        (use a add_leaf_registry(3)[OF pre, of now] in \<open>auto intro: tree_blocksI\<close>)
  qed
  moreover have "b \<in> tree_blocks (add_leaf now node k bids t)" if "b \<in> set bids" for b
    using that add_leaf_new[OF pre] add_leaf_registry(3)[OF pre]
    by (intro tree_blocksI[of _ "next_addr t"]) (auto simp: fresh_node_def)
  ultimately show "tree_blocks t \<union> set bids \<subseteq> tree_blocks (add_leaf now node k bids t)" by blast
qed

lemma add_leaf_owners:
  assumes pre: "leaf_pre t L node n k bids"
  shows "owners_ok (add_leaf now node k bids t)"
proof (rule owners_okI)
  let ?t = "add_leaf now node k bids t"
  fix a a' m m' b
  assume A: "registered ?t a" "registered ?t a'" "heap ?t a = Some m" "heap ?t a' = Some m'"
    "b \<in> set (block_ids m)" "b \<in> set (block_ids m')"
  have old: "b \<notin> set bids" if "registered t x" "heap t x = Some y" "b \<in> set (block_ids y)" for x y
    using that leaf_preD(8)[OF pre] tree_blocksI by fastforce
  have same: "x = x'" if "registered t x" "registered t x'" "heap t x = Some y" "heap t x' = Some y'"
    "b \<in> set (block_ids y)" "b \<in> set (block_ids y')" for x x' y y'
    by (rule wf_same_owner[OF leaf_preD(1)[OF pre] that])
  show "a = a'"
    using add_leaf_blocks_of[OF pre A(1,3)] add_leaf_blocks_of[OF pre A(2,4)] A(5,6)
    by (elim disjE conjE exE) (auto dest: old intro: same)
qed

lemma add_leaf_node_ok:
  assumes pre: "leaf_pre t L node n k bids"
    and m: "map_of (nodes (add_leaf now node k bids t)) b = Some a"
  shows "node_ok (add_leaf now node k bids t) (L(next_addr t := L node @ k)) b a"
proof (cases "b = hd bids")
  case True
  note P = leaf_preD[OF pre]
  obtain n' where "heap (add_leaf now node k bids t) node = Some n'"
    "map_of (children n') (hd k) = Some (next_addr t)"
    using add_leaf_old[OF pre P(2,3)] by metis
  moreover have "a = next_addr t" using m True add_leaf_registry(1)[OF pre] by simp
  ultimately show ?thesis using True P add_leaf_new[OF pre] add_leaf_registry(4)[OF pre]
    by (intro node_okI) (auto simp: fresh_node_def n_blocks_def)
next
  case False
  note P = leaf_preD[OF pre]
  then have mb: "map_of (nodes t) b = Some a" using m False add_leaf_registry(1)[OF pre] by simp
  then have al: "live t a" by (auto simp: registered_def live_def)
  from tree_wfD(5)[OF P(1) mb] show ?thesis
  proof (elim node_okE)
    fix m p pn
    assume A: "heap t a = Some m" "key m \<noteq> []" "length (block_ids m) = n_blocks t (key m)"
      "distinct (block_ids m)" "hd (block_ids m) = b" "parent m = Some p" "live t p"
      "heap t p = Some pn" "map_of (children pn) (hd (key m)) = Some a" "L a = L p @ key m"
    obtain m' where m': "heap (add_leaf now node k bids t) a = Some m'" "key m' = key m"
      "block_ids m' = block_ids m" "parent m' = parent m" using add_leaf_old[OF pre al A(1)] by metis
    obtain pn' where pn': "heap (add_leaf now node k bids t) p = Some pn'"
      "map_of (children pn') (hd (key m)) = Some a"
      using add_leaf_old[OF pre A(7,8)] A(8,9) P(3,5) by (metis option.distinct(1) option.inject)
    show ?thesis
      using A m' pn' add_leaf_registry(4)[OF pre] wf_fresh_addr(3)[OF P(1)] al
      by (intro node_okI[where n = m' and p = p and pn = pn']) (auto simp: n_blocks_def)
  qed
qed

lemma add_leaf_kids_ok:
  assumes pre: "leaf_pre t L node n k bids" and a: "live (add_leaf now node k bids t) a"
  shows "kids_ok (add_leaf now node k bids t) a"
proof (cases "a = next_addr t")
  case True
  then show ?thesis using add_leaf_new[OF pre] by (intro kids_okI) (auto simp: fresh_node_def)
next
  case False
  let ?t = "add_leaf now node k bids t"
  note P = leaf_preD[OF pre]
  have la: "live t a" using a False add_leaf_registry(4)[OF pre] by simp
  then obtain m where m: "heap t a = Some m" using wf_live_heap[OF P(1)] by blast
  note kd = wf_kids[OF P(1) la m]
  obtain m' where m': "heap ?t a = Some m'" "distinct (map fst (children m'))"
    "\<And>tok. map_of (children m') tok =
       (if a = node \<and> tok = hd k then Some (next_addr t) else map_of (children m) tok)"
    using add_leaf_old[OF pre la m] kd(1) by metis
  have old: "registered ?t c \<and> (\<exists>cn. heap ?t c = Some cn \<and> parent cn = Some a \<and> hd (key cn) = tok)"
    if c: "map_of (children m) tok = Some c" for tok c
    using kd(2)[OF c] add_leaf_registry(3)[OF pre] add_leaf_old[OF pre registered_live] by metis
  have new: "registered ?t (next_addr t) \<and>
      (\<exists>cn. heap ?t (next_addr t) = Some cn \<and> parent cn = Some node \<and> hd (key cn) = hd k)"
    using add_leaf_new[OF pre] add_leaf_registry(3)[OF pre] by (simp add: fresh_node_def)
  show ?thesis
    using m'(1,2)
  proof (rule kids_okI)
    fix tok c assume "map_of (children m') tok = Some c"
    then show "registered ?t c \<and> (\<exists>cn. heap ?t c = Some cn \<and> parent cn = Some a \<and> hd (key cn) = tok)"
      using m'(3)[of tok] old[of tok c] new by (cases "a = node \<and> tok = hd k") auto
  qed
qed

lemma add_leaf_wf:
  assumes pre: "leaf_pre t L node n k bids"
  shows "tree_wf (add_leaf now node k bids t) (L(next_addr t := L node @ k))"
proof (rule tree_wfI)
  let ?t = "add_leaf now node k bids t"
  note P = leaf_preD[OF pre]
  have r: "next_addr t \<noteq> root_addr" using wf_fresh_addr(3)[OF P(1) live_root] by simp
  show "0 < tree_block_size ?t" using tree_wfD(1)[OF P(1)] by simp
  show "distinct (map fst (nodes ?t))"
    using tree_wfD(2)[OF P(1)] by (simp add: add_leaf_def set_child_def distinct_update)
  show "(L(next_addr t := L node @ k)) root_addr = []" using r tree_wfD(4)[OF P(1)] by simp
  show "root_ok ?t"
    using wf_root[OF P(1)] add_leaf_old[OF pre live_root] add_leaf_registry(3)[OF pre, of _ root_addr] r
    unfolding root_ok_def by metis
  show "\<And>a m. heap ?t a = Some m \<Longrightarrow> a < next_addr ?t"
    using tree_wfD(8)[OF P(1)] P(3) by (auto simp: add_leaf_heap[OF pre] less_Suc_eq split: if_splits)
  show "\<And>b a. map_of (nodes ?t) b = Some a \<Longrightarrow> node_ok ?t (L(next_addr t := L node @ k)) b a"
    using add_leaf_node_ok[OF pre] .
qed (use add_leaf_owners[OF pre] add_leaf_kids_ok[OF pre] in simp_all)

section \<open>Splitting an edge\<close>

definition split_mid_bids :: "radix_tree \<Rightarrow> radix_node \<Rightarrow> nat \<Rightarrow> bid list" where
  "split_mid_bids t child cp = take (ceil_div cp (tree_block_size t)) (block_ids child)"

definition split_child_bids :: "radix_tree \<Rightarrow> radix_node \<Rightarrow> nat \<Rightarrow> bid list \<Rightarrow> bid list" where
  "split_child_bids t child cp new_head =
     new_head @ drop (ceil_div cp (tree_block_size t)) (block_ids child)"

definition split_node ::
  "time \<Rightarrow> addr \<Rightarrow> token \<Rightarrow> addr \<Rightarrow> radix_node \<Rightarrow> nat \<Rightarrow> bid list \<Rightarrow> radix_tree \<Rightarrow> radix_tree" where
  "split_node now node first c child cp new_head t =
     set_reg (hd (split_child_bids t child cp new_head)) c
       (set_reg (hd (split_mid_bids t child cp)) (next_addr t)
         (do_split now node first c child cp new_head t))"

definition split_pre ::
  "radix_tree \<Rightarrow> (addr \<Rightarrow> token list) \<Rightarrow> addr \<Rightarrow> radix_node \<Rightarrow> addr \<Rightarrow> radix_node \<Rightarrow> nat \<Rightarrow> bid list \<Rightarrow> bool" where
  "split_pre t L node n c child cp new_head \<longleftrightarrow> tree_wf t L \<and> live t node \<and> heap t node = Some n \<and>
     map_of (children n) (hd (key child)) = Some c \<and> heap t c = Some child \<and>
     0 < cp \<and> cp < length (key child) \<and> distinct new_head \<and> set new_head \<inter> tree_blocks t = {} \<and>
     length new_head = (if ceil_div cp (tree_block_size t) +
        ceil_div (length (key child) - cp) (tree_block_size t) > length (block_ids child) then 1 else 0)"

lemma split_preD:
  assumes "split_pre t L node n c child cp new_head"
  shows "tree_wf t L" "live t node" "heap t node = Some n"
    "map_of (children n) (hd (key child)) = Some c" "heap t c = Some child" "0 < cp"
    "cp < length (key child)" "distinct new_head" "set new_head \<inter> tree_blocks t = {}"
    "length new_head = (if ceil_div cp (tree_block_size t) +
        ceil_div (length (key child) - cp) (tree_block_size t) > length (block_ids child) then 1 else 0)"
  using assms unfolding split_pre_def by blast+

lemma split_addrs:
  assumes pre: "split_pre t L node n c child cp new_head"
  shows "registered t c" "parent child = Some node" "L c = L node @ key child" "c \<noteq> node"
    "c \<noteq> next_addr t" "node \<noteq> next_addr t" "c \<noteq> root_addr" "next_addr t \<noteq> root_addr"
proof -
  note P = split_preD[OF pre]
  obtain cn where cn: "registered t c" "heap t c = Some cn" "parent cn = Some node"
    "L c = L node @ key cn" "key cn \<noteq> []" using wf_childE[OF P(1-4)] by metis
  then show "registered t c" "parent child = Some node" "L c = L node @ key child" "c \<noteq> node"
    using P(5) by auto
  show "c \<noteq> next_addr t" "node \<noteq> next_addr t" "next_addr t \<noteq> root_addr"
    using wf_fresh_addr(3)[OF P(1)] registered_live[OF cn(1)] P(2) live_root by metis+
  show "c \<noteq> root_addr" using cn(1) wf_root[OF P(1)] by metis
qed

text \<open>The two block lists have the right lengths and share nothing.\<close>

lemma split_bids:
  assumes pre: "split_pre t L node n c child cp new_head"
  shows "length (split_mid_bids t child cp) = ceil_div cp (tree_block_size t)"
    "length (split_child_bids t child cp new_head) = ceil_div (length (key child) - cp) (tree_block_size t)"
    "distinct (split_mid_bids t child cp)" "distinct (split_child_bids t child cp new_head)"
    "set (split_mid_bids t child cp) \<inter> set (split_child_bids t child cp new_head) = {}"
    "set (split_mid_bids t child cp) \<union> set (split_child_bids t child cp new_head) =
       set (block_ids child) \<union> set new_head"
    "split_mid_bids t child cp \<noteq> []" "split_child_bids t child cp new_head \<noteq> []"
    "hd (split_mid_bids t child cp) = hd (block_ids child)"
proof -
  note P = split_preD[OF pre] and A = split_addrs[OF pre]
  let ?bs = "tree_block_size t" and ?ids = "block_ids child"
  let ?a = "ceil_div cp ?bs" and ?b = "ceil_div (length (key child) - cp) ?bs"
  have bs: "0 < ?bs" using tree_wfD(1)[OF P(1)] .
  obtain ids: "length ?ids = ceil_div (length (key child)) ?bs" "distinct ?ids"
    using wf_registeredE[OF P(1) A(1)] P(5) n_blocks_ceil[OF bs] by (metis option.inject)
  have sum: "cp + (length (key child) - cp) = length (key child)" using P(7) by simp
  have ab: "length ?ids \<le> ?a + ?b" "?a + ?b \<le> length ?ids + 1"
    using ceil_div_add[OF bs, of cp "length (key child) - cp"] ids(1) unfolding sum by simp_all
  have le: "?a \<le> length ?ids" unfolding ids(1) using bs P(7) by (intro ceil_div_mono) simp_all
  show la: "length (split_mid_bids t child cp) = ?a" using le by (simp add: split_mid_bids_def)
  show lb: "length (split_child_bids t child cp new_head) = ?b"
    using P(10) ab le by (simp add: split_child_bids_def split: if_splits)
  have pos: "0 < ?a" "0 < ?b" using bs P(6,7) by (simp_all add: ceil_div_pos)
  then show ne: "split_mid_bids t child cp \<noteq> []" "split_child_bids t child cp new_head \<noteq> []"
    using la lb by force+
  have nh: "set new_head \<inter> set ?ids = {}" using P(9) tree_blocksI[OF A(1) P(5)] by blast
  have td: "set (take ?a ?ids) \<inter> set (drop ?a ?ids) = {}" "set (take ?a ?ids) \<union> set (drop ?a ?ids) = set ?ids"
    using set_take_disj_set_drop_if_distinct[OF ids(2) order_refl]
      set_append[of "take ?a ?ids" "drop ?a ?ids"] by simp_all
  have sub: "set (take ?a ?ids) \<subseteq> set ?ids" "set (drop ?a ?ids) \<subseteq> set ?ids" using td(2) by blast+
  show "distinct (split_mid_bids t child cp)" using ids(2) by (simp add: split_mid_bids_def)
  show "distinct (split_child_bids t child cp new_head)"
    using ids(2) P(8) nh sub(2) by (auto simp: split_child_bids_def)
  show "set (split_mid_bids t child cp) \<inter> set (split_child_bids t child cp new_head) = {}"
    using td(1) nh sub(1) by (auto simp: split_mid_bids_def split_child_bids_def)
  show "set (split_mid_bids t child cp) \<union> set (split_child_bids t child cp new_head) =
      set ?ids \<union> set new_head" using td(2) by (auto simp: split_mid_bids_def split_child_bids_def)
  show "hd (split_mid_bids t child cp) = hd ?ids" using pos(1) by (simp add: split_mid_bids_def)
qed

definition split_mid :: "time \<Rightarrow> addr \<Rightarrow> addr \<Rightarrow> radix_node \<Rightarrow> nat \<Rightarrow> radix_tree \<Rightarrow> radix_node" where
  "split_mid now node c child cp t =
     (fresh_node (take cp (key child)) (split_mid_bids t child cp) now node)
       \<lparr>children := [(hd (drop cp (key child)), c)]\<rparr>"

definition split_low :: "radix_node \<Rightarrow> nat \<Rightarrow> bid list \<Rightarrow> radix_tree \<Rightarrow> radix_node" where
  "split_low child cp new_head t =
     child\<lparr>key := drop cp (key child), block_ids := split_child_bids t child cp new_head,
           parent := Some (next_addr t)\<rparr>"

lemma split_node_sizes [simp]:
  "tree_block_size (split_node now node first c child cp nh t) = tree_block_size t"
  "next_addr (split_node now node first c child cp nh t) = Suc (next_addr t)"
  by (simp_all add: split_node_def do_split_def set_child_def Let_def)

lemma split_node_heap:
  assumes pre: "split_pre t L node n c child cp nh"
  shows "heap (split_node now node (hd (key child)) c child cp nh t) =
    (heap t)(next_addr t \<mapsto> split_mid now node c child cp t, c \<mapsto> split_low child cp nh t,
      node \<mapsto> n\<lparr>children := AList.update (hd (key child)) (next_addr t) (children n)\<rparr>)"
proof -
  note A = split_addrs[OF pre] and P = split_preD[OF pre]
  show ?thesis using A(4-6) P(3,5)
    by (intro ext) (simp add: split_node_def do_split_def set_child_def Let_def ceil_div_def fresh_node_def
        split_mid_def split_low_def split_mid_bids_def split_child_bids_def)
qed

lemma split_registry:
  fixes now :: time
  assumes pre: "split_pre t L node n c child cp nh"
  defines "t' \<equiv> split_node now node (hd (key child)) c child cp nh t"
  shows "map_of (nodes t') b = (if b = hd (split_child_bids t child cp nh) then Some c
      else if b = hd (block_ids child) then Some (next_addr t) else map_of (nodes t) b)"
    and "map_of (nodes t) (hd (block_ids child)) = Some c"
    and "registered t' a \<longleftrightarrow> registered t a \<or> a = next_addr t"
    and "live t' a \<longleftrightarrow> live t a \<or> a = next_addr t"
proof -
  note P = split_preD[OF pre] and A = split_addrs[OF pre] and B = split_bids[OF pre]
  let ?cb = "hd (split_child_bids t child cp nh)" and ?mb = "hd (block_ids child)"
  show mo: "map_of (nodes t') b = (if b = ?cb then Some c
      else if b = ?mb then Some (next_addr t) else map_of (nodes t) b)" for b
    by (simp add: t'_def split_node_def do_split_def set_child_def Let_def update_conv' B(9))
  show mb: "map_of (nodes t) ?mb = Some c"
    using wf_registeredE[OF P(1) A(1)] P(5) by (metis option.inject)
  have ne: "?cb \<noteq> ?mb" using B(5,7-9) hd_in_set by (metis disjoint_iff)
  have other: "map_of (nodes t) b = Some a \<Longrightarrow> a \<noteq> c \<Longrightarrow> b \<noteq> ?cb \<and> b \<noteq> ?mb" for a b
  proof
    assume ba: "map_of (nodes t) b = Some a" "a \<noteq> c"
    then show "b \<noteq> ?mb" using mb by auto
    obtain m where m: "heap t a = Some m" "hd (block_ids m) = b" "block_ids m \<noteq> []" "b \<in> tree_blocks t"
      using wf_registry_key[OF P(1) ba(1)] by metis
    have ra: "registered t a" using ba(1) by (auto simp: registered_def)
    have "b \<notin> set (block_ids child)"
      using wf_same_owner[OF P(1) ra A(1) m(1) P(5)] m(2,3) ba(2) hd_in_set by metis
    then show "b \<noteq> ?cb" using B(6,8) hd_in_set m(4) P(9) by (metis Un_iff disjoint_iff)
  qed
  show reg: "registered t' a \<longleftrightarrow> registered t a \<or> a = next_addr t" for a
  proof
    show "registered t' a \<Longrightarrow> registered t a \<or> a = next_addr t"
      using A(1) unfolding registered_def mo by (auto split: if_splits)
    show "registered t a \<or> a = next_addr t \<Longrightarrow> registered t' a"
      unfolding registered_def mo using ne other by (metis (full_types))
  qed
  then show "live t' a \<longleftrightarrow> live t a \<or> a = next_addr t" by (auto simp: live_def)
qed

text \<open>Every object of the old tree but the split child keeps its key, blocks and parent.\<close>

lemma split_old:
  assumes pre: "split_pre t L node n c child cp nh" and a: "live t a" "heap t a = Some m" "a \<noteq> c"
  obtains m' where "heap (split_node now node (hd (key child)) c child cp nh t) a = Some m'"
    "key m' = key m" "block_ids m' = block_ids m" "parent m' = parent m"
    "\<And>tok. map_of (children m') tok =
       (if a = node \<and> tok = hd (key child) then Some (next_addr t) else map_of (children m) tok)"
    "distinct (map fst (children m)) \<Longrightarrow> distinct (map fst (children m'))"
  using split_preD[OF pre] split_addrs[OF pre] wf_fresh_addr(3)[OF split_preD(1)[OF pre] a(1)] a
  by (cases "a = node") (auto simp: split_node_heap[OF pre] update_conv' distinct_update)

lemma split_new:
  assumes pre: "split_pre t L node n c child cp nh"
  shows "heap (split_node now node (hd (key child)) c child cp nh t) (next_addr t) =
      Some (split_mid now node c child cp t)"
    "heap (split_node now node (hd (key child)) c child cp nh t) c = Some (split_low child cp nh t)"
  using split_addrs[OF pre] by (simp_all add: split_node_heap[OF pre])

lemma split_mid_sel [simp]:
  "key (split_mid now node c child cp t) = take cp (key child)"
  "block_ids (split_mid now node c child cp t) = split_mid_bids t child cp"
  "children (split_mid now node c child cp t) = [(hd (drop cp (key child)), c)]"
  "parent (split_mid now node c child cp t) = Some node"
  by (simp_all add: split_mid_def fresh_node_def)

lemma split_low_sel [simp]:
  "key (split_low child cp nh t) = drop cp (key child)"
  "block_ids (split_low child cp nh t) = split_child_bids t child cp nh"
  "children (split_low child cp nh t) = children child"
  "parent (split_low child cp nh t) = Some (next_addr t)"
  by (simp_all add: split_low_def)

text \<open>Who owns a block afterwards: the middle node and the child share what the child had.\<close>

lemma split_blocks_of:
  assumes pre: "split_pre t L node n c child cp nh"
    and m: "registered (split_node now node (hd (key child)) c child cp nh t) a"
      "heap (split_node now node (hd (key child)) c child cp nh t) a = Some m'"
  obtains "a = next_addr t" "block_ids m' = split_mid_bids t child cp"
    | "a = c" "block_ids m' = split_child_bids t child cp nh"
    | m where "registered t a" "a \<noteq> c" "heap t a = Some m" "block_ids m' = block_ids m"
proof (cases "a = next_addr t \<or> a = c")
  case True
  then show ?thesis
    using m(2) split_new[OF pre, of now] that(1,2) split_mid_sel(2) split_low_sel(2)
    by (metis option.inject)
next
  case False
  then have r: "registered t a" using m(1) split_registry(3)[OF pre] by simp
  obtain m where "heap t a = Some m" using wf_live_heap[OF split_preD(1)[OF pre] registered_live[OF r]] by blast
  then show ?thesis using that(3) r m(2) False split_old[OF pre registered_live[OF r]]
    by (metis option.inject)
qed

lemma split_tree_blocks:
  assumes pre: "split_pre t L node n c child cp nh"
  shows "tree_blocks (split_node now node (hd (key child)) c child cp nh t) = tree_blocks t \<union> set nh"
proof
  let ?t = "split_node now node (hd (key child)) c child cp nh t"
  note P = split_preD[OF pre] and A = split_addrs[OF pre] and B = split_bids[OF pre]
  have cb: "set (block_ids child) \<subseteq> tree_blocks t" using tree_blocksI[OF A(1) P(5)] by blast
  show "tree_blocks ?t \<subseteq> tree_blocks t \<union> set nh"
  proof
    fix b assume "b \<in> tree_blocks ?t"
    then obtain a m' where a: "registered ?t a" "heap ?t a = Some m'" "b \<in> set (block_ids m')"
      by (auto simp: tree_blocks_def)
    show "b \<in> tree_blocks t \<union> set nh"
      by (rule split_blocks_of[OF pre a(1,2)]) (use a(3) B(6) cb in \<open>auto intro: tree_blocksI\<close>)
  qed
  have "b \<in> tree_blocks ?t" if b: "b \<in> set (block_ids child) \<union> set nh" for b
    using b B(6) split_new[OF pre, of now] A(1) split_registry(3)[OF pre, of now]
      tree_blocksI[of ?t "next_addr t"] tree_blocksI[of ?t c] by fastforce
  moreover have "b \<in> tree_blocks ?t" if b: "b \<in> tree_blocks t" "b \<notin> set (block_ids child)" for b
  proof -
    obtain a m where a: "registered t a" "heap t a = Some m" "b \<in> set (block_ids m)"
      using b by (auto simp: tree_blocks_def)
    then have "a \<noteq> c" using b(2) P(5) by auto
    show ?thesis
      by (rule split_old[OF pre registered_live[OF a(1)] a(2) \<open>a \<noteq> c\<close>, of now])
        (use a split_registry(3)[OF pre, of now] in \<open>auto intro: tree_blocksI\<close>)
  qed
  ultimately show "tree_blocks t \<union> set nh \<subseteq> tree_blocks ?t" by blast
qed

lemma split_owners:
  assumes pre: "split_pre t L node n c child cp nh"
  shows "owners_ok (split_node now node (hd (key child)) c child cp nh t)"
proof (rule owners_okI)
  let ?t = "split_node now node (hd (key child)) c child cp nh t"
  note P = split_preD[OF pre] and A = split_addrs[OF pre] and B = split_bids[OF pre]
  fix a a' m m' b
  assume R: "registered ?t a" "registered ?t a'" "heap ?t a = Some m" "heap ?t a' = Some m'"
    "b \<in> set (block_ids m)" "b \<in> set (block_ids m')"
  have old: "b \<notin> set (block_ids child) \<union> set nh"
    if "registered t x" "heap t x = Some y" "b \<in> set (block_ids y)" "x \<noteq> c" for x y
    using that P(9) tree_blocksI[OF that(1,2)] wf_same_owner[OF P(1) that(1) A(1) that(2) P(5)] by blast
  have same: "x = x'" if "registered t x" "registered t x'" "heap t x = Some y" "heap t x' = Some y'"
    "b \<in> set (block_ids y)" "b \<in> set (block_ids y')" for x x' y y'
    by (rule wf_same_owner[OF P(1) that])
  have mid: "b \<notin> set (split_mid_bids t child cp)" if "registered t x" "heap t x = Some y"
    "b \<in> set (block_ids y)" "x \<noteq> c" for x y using old[OF that] B(6) by blast
  have low: "b \<notin> set (split_child_bids t child cp nh)" if "registered t x" "heap t x = Some y"
    "b \<in> set (block_ids y)" "x \<noteq> c" for x y using old[OF that] B(6) by blast
  have ml: "\<not> (b \<in> set (split_mid_bids t child cp) \<and> b \<in> set (split_child_bids t child cp nh))"
    using B(5) by blast
  show "a = a'"
    by (rule split_blocks_of[OF pre R(1,3)]; rule split_blocks_of[OF pre R(2,4)])
      (use R(5,6) ml mid low same in \<open>(simp; fail) | (simp, blast)\<close>)+
qed

lemma split_kids_ok:
  assumes pre: "split_pre t L node n c child cp nh"
    and a: "live (split_node now node (hd (key child)) c child cp nh t) a"
  shows "kids_ok (split_node now node (hd (key child)) c child cp nh t) a"
proof -
  let ?t = "split_node now node (hd (key child)) c child cp nh t"
  note P = split_preD[OF pre] and A = split_addrs[OF pre] and N = split_new[OF pre, of now]
    and R = split_registry(3)[OF pre, of now]
  have old: "registered ?t d \<and> (\<exists>dn. heap ?t d = Some dn \<and> parent dn = Some x \<and> hd (key dn) = tok)"
    if d: "live t x" "heap t x = Some m" "map_of (children m) tok = Some d" "d \<noteq> c" for x m tok d
    using wf_kids(2)[OF P(1) d(1-3)] R split_old[OF pre registered_live, of d _ now] d(4) by metis
  have isc: "x = node \<and> tok = hd (key child)"
    if "live t x" "heap t x = Some m" "map_of (children m) tok = Some c" for x m tok
    using wf_kids(2)[OF P(1) that] P(5) A(2) by auto
  consider "a = next_addr t" | "a = c" | "live t a" "a \<noteq> c" using a split_registry(4)[OF pre] by blast
  then show ?thesis
  proof cases
    case 1
    show ?thesis unfolding 1 by (rule kids_okI[OF N(1)]) (use N(2) A(1) R in \<open>auto split: if_splits\<close>)
  next
    case 2
    note lc = registered_live[OF A(1)]
    show ?thesis unfolding 2
    proof (rule kids_okI[OF N(2)])
      show "distinct (map fst (children (split_low child cp nh t)))" using wf_kids(1)[OF P(1) lc P(5)] by simp
      fix tok d assume d: "map_of (children (split_low child cp nh t)) tok = Some d"
      then have "d \<noteq> c" using isc[OF lc P(5), of tok] A(4) by auto
      with d show "registered ?t d \<and> (\<exists>cn. heap ?t d = Some cn \<and> parent cn = Some c \<and> hd (key cn) = tok)"
        using old[OF lc P(5)] by simp
    qed
  next
    case 3
    obtain m where m: "heap t a = Some m" using wf_live_heap[OF P(1) 3(1)] by blast
    obtain m' where m': "heap ?t a = Some m'" "distinct (map fst (children m'))"
      "\<And>tok. map_of (children m') tok =
         (if a = node \<and> tok = hd (key child) then Some (next_addr t) else map_of (children m) tok)"
      using split_old[OF pre 3(1) m 3(2)] wf_kids(1)[OF P(1) 3(1) m] by metis
    from m'(1,2) show ?thesis
    proof (rule kids_okI)
      fix tok d assume d: "map_of (children m') tok = Some d"
      show "registered ?t d \<and> (\<exists>cn. heap ?t d = Some cn \<and> parent cn = Some a \<and> hd (key cn) = tok)"
      proof (cases "a = node \<and> tok = hd (key child)")
        case True
        moreover have "hd (take cp (key child)) = hd (key child)" using P(6) by simp
        ultimately show ?thesis using d m'(3)[of tok] N(1) R by auto
      next
        case False
        then have d': "map_of (children m) tok = Some d" using d m'(3)[of tok] by (auto split: if_splits)
        then have "d \<noteq> c" using isc[OF 3(1) m] False by blast
        then show ?thesis using old[OF 3(1) m d'] by blast
      qed
    qed
  qed
qed

lemma split_node_ok_new:
  fixes now :: time
  assumes pre: "split_pre t L node n c child cp nh"
  defines "t' \<equiv> split_node now node (hd (key child)) c child cp nh t"
    and "L' \<equiv> L(next_addr t := L node @ take cp (key child))"
  shows "node_ok t' L' (hd (block_ids child)) (next_addr t)"
    "node_ok t' L' (hd (split_child_bids t child cp nh)) c"
proof -
  note P = split_preD[OF pre] and A = split_addrs[OF pre] and B = split_bids[OF pre]
    and N = split_new[OF pre, of now, folded t'_def] and R = split_registry(4)[OF pre, of now, folded t'_def]
  have bs: "0 < tree_block_size t" using tree_wfD(1)[OF P(1)] .
  have nb: "n_blocks t' k = ceil_div (length k) (tree_block_size t)" for k
    using n_blocks_ceil[OF bs] n_blocks_same[of t' t] by (simp add: t'_def)
  obtain n' where n': "heap t' node = Some n'"
    "map_of (children n') (hd (key child)) = Some (next_addr t)"
    using split_old[OF pre P(2,3) A(4)[symmetric], of now] unfolding t'_def by metis
  show "node_ok t' L' (hd (block_ids child)) (next_addr t)"
    using n' N(1) B P A R
    by (intro node_okI[where p = node and pn = n' and n = "split_mid now node c child cp t"])
      (auto simp: nb L'_def)
  show "node_ok t' L' (hd (split_child_bids t child cp nh)) c"
    using N B P A R
    by (intro node_okI[where p = "next_addr t" and n = "split_low child cp nh t"
          and pn = "split_mid now node c child cp t"]) (auto simp: nb L'_def)
qed

lemma split_node_ok:
  assumes pre: "split_pre t L node n c child cp nh"
    and m: "map_of (nodes (split_node now node (hd (key child)) c child cp nh t)) b = Some a"
  shows "node_ok (split_node now node (hd (key child)) c child cp nh t)
    (L(next_addr t := L node @ take cp (key child))) b a"
proof -
  let ?t = "split_node now node (hd (key child)) c child cp nh t"
  note P = split_preD[OF pre] and A = split_addrs[OF pre]
    and R = split_registry(1,3,4)[where now = now, OF pre] and N = split_new[OF pre, of now]
  consider "b = hd (split_child_bids t child cp nh)" "a = c"
    | "b = hd (block_ids child)" "a = next_addr t"
    | "b \<noteq> hd (block_ids child)" "map_of (nodes t) b = Some a"
    using m R(1)[of b] by (metis option.inject)
  then show ?thesis
  proof cases
    case 3
    have al: "live t a" using 3(2) by (auto simp: registered_def live_def)
    from tree_wfD(5)[OF P(1) 3(2)] show ?thesis
    proof (elim node_okE)
      fix m p pn
      assume M: "heap t a = Some m" "key m \<noteq> []" "length (block_ids m) = n_blocks t (key m)"
        "distinct (block_ids m)" "hd (block_ids m) = b" "parent m = Some p" "live t p"
        "heap t p = Some pn" "map_of (children pn) (hd (key m)) = Some a" "L a = L p @ key m"
      have ac: "a \<noteq> c" using M(1,5) 3(1) P(5) by auto
      obtain m' where m': "heap ?t a = Some m'" "key m' = key m"
        "block_ids m' = block_ids m" "parent m' = parent m" using split_old[OF pre al M(1) ac] by metis
      obtain pn' where pn': "heap ?t p = Some pn'" "map_of (children pn') (hd (key m)) = Some a"
      proof (cases "p = c")
        case True
        then show ?thesis using that N(2) M(8,9) P(5) split_low_sel(3) by (metis option.inject)
      next
        case False
        have "\<not> (p = node \<and> hd (key m) = hd (key child))" using M(8,9) P(3,4) ac by auto
        then show ?thesis using that split_old[OF pre M(7,8) False] M(9) by metis
      qed
      show ?thesis
        using M m' pn' R(3) wf_fresh_addr(3)[OF P(1)] al
        by (intro node_okI[where n = m' and p = p and pn = pn']) (auto simp: n_blocks_def)
    qed
  qed (use split_node_ok_new[OF pre] in simp_all)
qed

lemma split_wf:
  assumes pre: "split_pre t L node n c child cp nh"
  shows "tree_wf (split_node now node (hd (key child)) c child cp nh t)
    (L(next_addr t := L node @ take cp (key child)))"
proof (rule tree_wfI)
  let ?t = "split_node now node (hd (key child)) c child cp nh t"
  note P = split_preD[OF pre] and A = split_addrs[OF pre]
  show "0 < tree_block_size ?t" using tree_wfD(1)[OF P(1)] by simp
  show "distinct (map fst (nodes ?t))"
    using tree_wfD(2)[OF P(1)] by (simp add: split_node_def do_split_def set_child_def Let_def distinct_update)
  show "(L(next_addr t := L node @ take cp (key child))) root_addr = []"
    using A(8) tree_wfD(4)[OF P(1)] by simp
  obtain r where r: "heap t root_addr = Some r" "key r = []" "block_ids r = []" "parent r = None"
    "\<not> registered t root_addr" using wf_root[OF P(1)] by metis
  show "root_ok ?t"
    using r A(7,8) split_old[OF pre live_root r(1), of now] split_registry(3)[OF pre, of now root_addr]
    unfolding root_ok_def by metis
  show "\<And>a m. heap ?t a = Some m \<Longrightarrow> a < next_addr ?t"
    using tree_wfD(8)[OF P(1)] P(3,5) by (auto simp: split_node_heap[OF pre] less_Suc_eq split: if_splits)
  show "\<And>b a. map_of (nodes ?t) b = Some a \<Longrightarrow>
      node_ok ?t (L(next_addr t := L node @ take cp (key child))) b a"
    using split_node_ok[OF pre] .
qed (use split_owners[OF pre] split_kids_ok[OF pre] in simp_all)

section \<open>Removing a childless node\<close>

definition cut_leaf :: "addr \<Rightarrow> addr \<Rightarrow> radix_node \<Rightarrow> radix_tree \<Rightarrow> radix_tree" where
  "cut_leaf a pa n t = del_reg (hd (block_ids n))
     (upd_node a (\<lambda>n. n\<lparr>parent := None\<rparr>) (del_child pa (hd (key n)) t))"

definition cut_pre :: "radix_tree \<Rightarrow> (addr \<Rightarrow> token list) \<Rightarrow> addr \<Rightarrow> addr \<Rightarrow> radix_node \<Rightarrow> bool" where
  "cut_pre t L a pa n \<longleftrightarrow> tree_wf t L \<and> registered t a \<and> heap t a = Some n \<and> children n = [] \<and>
     parent n = Some pa"

lemma cut_preD:
  assumes "cut_pre t L a pa n"
  shows "tree_wf t L" "registered t a" "heap t a = Some n" "children n = []" "parent n = Some pa"
    "live t pa" "pa \<noteq> a" "a \<noteq> root_addr" "L a = L pa @ key n" "key n \<noteq> []" "block_ids n \<noteq> []"
    "map_of (nodes t) (hd (block_ids n)) = Some a"
    "\<exists>pn. heap t pa = Some pn \<and> map_of (children pn) (hd (key n)) = Some a"
proof -
  show P: "tree_wf t L" "registered t a" "heap t a = Some n" "children n = []" "parent n = Some pa"
    using assms unfolding cut_pre_def by blast+
  then show Q: "live t pa" "L a = L pa @ key n" "key n \<noteq> []"
    "map_of (nodes t) (hd (block_ids n)) = Some a"
    "\<exists>pn. heap t pa = Some pn \<and> map_of (children pn) (hd (key n)) = Some a"
    using wf_registeredE[OF P(1,2)] by (metis option.inject)+
  show "pa \<noteq> a" using Q(2,3) by auto
  show "a \<noteq> root_addr" using P(2) wf_root[OF P(1)] by metis
  show "block_ids n \<noteq> []" using wf_block_ids_nonempty[OF P(1-3)] .
qed

lemma cut_leaf_sizes [simp]:
  "tree_block_size (cut_leaf a pa n t) = tree_block_size t" "next_addr (cut_leaf a pa n t) = next_addr t"
  "nodes (cut_leaf a pa n t) = AList.delete (hd (block_ids n)) (nodes t)"
  by (simp_all add: cut_leaf_def del_child_def)

lemma registered_unique:
  assumes "tree_wf t L" "map_of (nodes t) b = Some a" "map_of (nodes t) b' = Some a"
  shows "b = b'"
  using wf_registry_key[OF assms(1,2)] wf_registry_key[OF assms(1,3)] by (metis option.inject)

lemma cut_registry:
  assumes pre: "cut_pre t L a pa n"
  shows "map_of (nodes (cut_leaf a pa n t)) b = (if b = hd (block_ids n) then None else map_of (nodes t) b)"
    "registered (cut_leaf a pa n t) x \<longleftrightarrow> registered t x \<and> x \<noteq> a"
    "live (cut_leaf a pa n t) x \<longleftrightarrow> live t x \<and> x \<noteq> a"
proof -
  note P = cut_preD[OF pre]
  show mo: "map_of (nodes (cut_leaf a pa n t)) b =
      (if b = hd (block_ids n) then None else map_of (nodes t) b)" for b
    by (simp add: delete_conv')
  show reg: "registered (cut_leaf a pa n t) x \<longleftrightarrow> registered t x \<and> x \<noteq> a" for x
    unfolding registered_def mo using P(12) registered_unique[OF P(1)]
    by (metis option.distinct(1) option.inject)
  then show "live (cut_leaf a pa n t) x \<longleftrightarrow> live t x \<and> x \<noteq> a" using P(8) by (auto simp: live_def)
qed

lemma cut_old:
  assumes pre: "cut_pre t L a pa n" and x: "live t x" "heap t x = Some m" "x \<noteq> a"
  obtains m' where "heap (cut_leaf a pa n t) x = Some m'" "key m' = key m"
    "block_ids m' = block_ids m" "parent m' = parent m"
    "\<And>tok. map_of (children m') tok =
       (if x = pa \<and> tok = hd (key n) then None else map_of (children m) tok)"
    "distinct (map fst (children m)) \<Longrightarrow> distinct (map fst (children m'))"
  using cut_preD[OF pre] x
  by (cases "x = pa") (auto simp: cut_leaf_def del_child_def delete_conv' distinct_delete)

text \<open>Only the removed node was reached through the entry that is deleted.\<close>

lemma cut_entry:
  assumes pre: "cut_pre t L a pa n" and x: "live t x" "heap t x = Some m"
    and c: "map_of (children m) tok = Some c" "c \<noteq> a"
  shows "\<not> (x = pa \<and> tok = hd (key n))"
  using cut_preD(13)[OF pre] x c by auto

lemma cut_child:
  assumes pre: "cut_pre t L a pa n" and x: "live t x" "heap t x = Some m"
    and c: "map_of (children m) tok = Some a"
  shows "x = pa \<and> tok = hd (key n)"
  using wf_kids(2)[OF cut_preD(1)[OF pre] x c] cut_preD(3,5)[OF pre] by auto

lemma cut_blocks_of:
  assumes pre: "cut_pre t L a pa n"
    and m: "registered (cut_leaf a pa n t) x" "heap (cut_leaf a pa n t) x = Some m'"
  obtains m where "registered t x" "x \<noteq> a" "heap t x = Some m" "block_ids m' = block_ids m"
proof -
  have r: "registered t x" "x \<noteq> a" using m(1) cut_registry(2)[OF pre] by simp_all
  obtain m where "heap t x = Some m" using wf_live_heap[OF cut_preD(1)[OF pre] registered_live[OF r(1)]] by blast
  then show ?thesis using that r m(2) cut_old[OF pre registered_live[OF r(1)]] by (metis option.inject)
qed

lemma cut_tree_blocks:
  assumes pre: "cut_pre t L a pa n"
  shows "tree_blocks (cut_leaf a pa n t) = tree_blocks t - set (block_ids n)"
proof (rule set_eqI, rule iffI)
  let ?t = "cut_leaf a pa n t"
  note P = cut_preD[OF pre]
  fix b
  show "b \<in> tree_blocks t - set (block_ids n)" if "b \<in> tree_blocks ?t"
  proof -
    obtain x m' where x: "registered ?t x" "heap ?t x = Some m'" "b \<in> set (block_ids m')"
      using \<open>b \<in> tree_blocks ?t\<close> by (auto simp: tree_blocks_def)
    obtain m where m: "registered t x" "x \<noteq> a" "heap t x = Some m" "b \<in> set (block_ids m)"
      using cut_blocks_of[OF pre x(1,2)] x(3) by metis
    then show ?thesis using wf_same_owner[OF P(1) m(1) P(2) m(3) P(3)] tree_blocksI[OF m(1,3)] by blast
  qed
  show "b \<in> tree_blocks ?t" if "b \<in> tree_blocks t - set (block_ids n)"
  proof -
    obtain x m where x: "registered t x" "heap t x = Some m" "b \<in> set (block_ids m)" "x \<noteq> a"
      using \<open>b \<in> tree_blocks t - set (block_ids n)\<close> P(3) unfolding tree_blocks_def by force
    show ?thesis
      by (rule cut_old[OF pre registered_live[OF x(1)] x(2,4)])
        (use x cut_registry(2)[OF pre] in \<open>auto intro: tree_blocksI\<close>)
  qed
qed

lemma cut_node_ok:
  assumes pre: "cut_pre t L a pa n" and m: "map_of (nodes (cut_leaf a pa n t)) b = Some x"
  shows "node_ok (cut_leaf a pa n t) L b x"
proof -
  let ?t = "cut_leaf a pa n t"
  note P = cut_preD[OF pre]
  have mb: "map_of (nodes t) b = Some x" using m cut_registry(1)[OF pre, of b] by (simp split: if_splits)
  have xa: "x \<noteq> a" using m cut_registry(2)[OF pre, of x] by (auto simp: registered_def)
  have xl: "live t x" using mb by (auto simp: registered_def live_def)
  from tree_wfD(5)[OF P(1) mb] show ?thesis
  proof (elim node_okE)
    fix m p pn
    assume M: "heap t x = Some m" "key m \<noteq> []" "length (block_ids m) = n_blocks t (key m)"
      "distinct (block_ids m)" "hd (block_ids m) = b" "parent m = Some p" "live t p"
      "heap t p = Some pn" "map_of (children pn) (hd (key m)) = Some x" "L x = L p @ key m"
    have pa: "p \<noteq> a" using M(8,9) P(3,4) by auto
    obtain m' where m': "heap ?t x = Some m'" "key m' = key m"
      "block_ids m' = block_ids m" "parent m' = parent m" using cut_old[OF pre xl M(1) xa] by metis
    obtain pn' where pn': "heap ?t p = Some pn'" "map_of (children pn') (hd (key m)) = Some x"
      using cut_old[OF pre M(7,8) pa] cut_entry[OF pre M(7-9) xa] M(9) by metis
    show ?thesis
      using M m' pn' cut_registry(3)[OF pre] pa
      by (intro node_okI[where n = m' and p = p and pn = pn']) (auto simp: n_blocks_def)
  qed
qed

lemma cut_kids_ok:
  assumes pre: "cut_pre t L a pa n" and x: "live (cut_leaf a pa n t) x"
  shows "kids_ok (cut_leaf a pa n t) x"
proof -
  let ?t = "cut_leaf a pa n t"
  note P = cut_preD[OF pre]
  have xl: "live t x" "x \<noteq> a" using x cut_registry(3)[OF pre] by simp_all
  obtain m where m: "heap t x = Some m" using wf_live_heap[OF P(1) xl(1)] by blast
  note kd = wf_kids[OF P(1) xl(1) m]
  obtain m' where m': "heap ?t x = Some m'" "distinct (map fst (children m'))"
    "\<And>tok. map_of (children m') tok =
       (if x = pa \<and> tok = hd (key n) then None else map_of (children m) tok)"
    using cut_old[OF pre xl(1) m xl(2)] kd(1) by metis
  from m'(1,2) show ?thesis
  proof (rule kids_okI)
    fix tok c assume "map_of (children m') tok = Some c"
    then have c: "map_of (children m) tok = Some c" "\<not> (x = pa \<and> tok = hd (key n))"
      using m'(3)[of tok] by (auto split: if_splits)
    then have "c \<noteq> a" using cut_child[OF pre xl(1) m] by blast
    then show "registered ?t c \<and> (\<exists>cn. heap ?t c = Some cn \<and> parent cn = Some x \<and> hd (key cn) = tok)"
      using kd(2)[OF c(1)] cut_registry(2)[OF pre] cut_old[OF pre registered_live] by metis
  qed
qed

lemma cut_wf:
  assumes pre: "cut_pre t L a pa n"
  shows "tree_wf (cut_leaf a pa n t) L"
proof (rule tree_wfI)
  let ?t = "cut_leaf a pa n t"
  note P = cut_preD[OF pre]
  show "0 < tree_block_size ?t" "L root_addr = []" using tree_wfD(1,4)[OF P(1)] by simp_all
  show "distinct (map fst (nodes ?t))" using tree_wfD(2)[OF P(1)] by (simp add: distinct_delete)
  obtain r where r: "heap t root_addr = Some r" "key r = []" "block_ids r = []" "parent r = None"
    "\<not> registered t root_addr" using wf_root[OF P(1)] by metis
  show "root_ok ?t"
    using r P(8) cut_old[OF pre live_root r(1)] cut_registry(2)[OF pre, of root_addr]
    unfolding root_ok_def by metis
  show "\<And>x m. heap ?t x = Some m \<Longrightarrow> x < next_addr ?t"
    using tree_wfD(8)[OF P(1)] by (auto simp: cut_leaf_def del_child_def split: if_splits)
  show "owners_ok ?t"
  proof (rule owners_okI)
    fix x x' m m' b
    assume R: "registered ?t x" "registered ?t x'" "heap ?t x = Some m" "heap ?t x' = Some m'"
      "b \<in> set (block_ids m)" "b \<in> set (block_ids m')"
    then show "x = x'"
      using cut_blocks_of[OF pre R(1,3)] cut_blocks_of[OF pre R(2,4)] wf_same_owner[OF P(1)] by metis
  qed
  show "\<And>b x. map_of (nodes ?t) b = Some x \<Longrightarrow> node_ok ?t L b x" using cut_node_ok[OF pre] .
qed (use cut_kids_ok[OF pre] in simp)

end
