(* ===== verification/Radix_Insert.thy ===== *)
theory Radix_Insert
  imports Radix_Update
begin

text \<open>
  Insertion, proved once for any source of blocks that keeps the contract \<open>block_source\<close>:
  the loop ends, the tree stays well-formed also when the source runs dry in the middle,
  no block is lost or shared, everything that was cached stays cached, and afterwards the
  inserted sequence is.
\<close>

section \<open>What the structural changes do to the cached prefixes\<close>

lemma image_new_label: "\<not> P m \<Longrightarrow> (f(m := v)) ` {a. P a \<or> a = m} = insert v (f ` {a. P a})"
  by (force simp: image_iff)

lemma add_leaf_cached:
  assumes pre: "leaf_pre t L node n k bids"
  shows "cached (add_leaf now node k bids t) = insert (L node @ k) (cached t)"
  unfolding cached_labels[OF add_leaf_wf[OF pre, of now]] cached_labels[OF leaf_preD(1)[OF pre]]
    add_leaf_registry(4)[OF pre]
  by (rule image_new_label[where P = "live t", OF wf_fresh_addr(2)[OF leaf_preD(1)[OF pre]]])

lemma split_cached:
  assumes pre: "split_pre t L node n c child cp nh"
  shows "cached (split_node now node (hd (key child)) c child cp nh t) =
    insert (L node @ take cp (key child)) (cached t)"
  unfolding cached_labels[OF split_wf[OF pre, of now]] cached_labels[OF split_preD(1)[OF pre]]
    split_registry(4)[OF pre]
  by (rule image_new_label[where P = "live t", OF wf_fresh_addr(2)[OF split_preD(1)[OF pre]]])

lemma cut_cached:
  assumes pre: "cut_pre t L a pa n"
  shows "cached (cut_leaf a pa n t) = cached t - {L a}"
proof -
  note P = cut_preD[OF pre]
  have "x = a" if "live t x" "L x = L a" for x
    using labels_branch[OF P(1) registered_live[OF P(2)] that(1)] that(2) by simp
  then show ?thesis
    unfolding cached_labels[OF cut_wf[OF pre]] cached_labels[OF P(1)] cut_registry(3)[OF pre]
    using registered_live[OF P(2)] by (auto simp: image_iff)
qed

section \<open>Nodes by their labels\<close>

text \<open>Whatever its address: a node at label \<open>ts\<close> with edge \<open>k\<close> and blocks \<open>ids\<close>.\<close>

definition owns :: "radix_tree \<Rightarrow> token list \<Rightarrow> token list \<Rightarrow> bid list \<Rightarrow> bool" where
  "owns t ts k ids \<longleftrightarrow> (\<exists>a n. path_to t a ts \<and> heap t a = Some n \<and> key n = k \<and> block_ids n = ids)"

lemma owns_iff:
  "tree_wf t L \<Longrightarrow> owns t ts k ids \<longleftrightarrow>
     (\<exists>a n. live t a \<and> L a = ts \<and> heap t a = Some n \<and> key n = k \<and> block_ids n = ids)"
  unfolding owns_def by (auto simp: path_to_iff)

lemma owns_shape: "strip s = strip t \<Longrightarrow> owns s = owns t"
proof (intro ext)
  fix ts k ids
  assume sh: "strip s = strip t"
  have "owns s ts k ids" if "owns t ts k ids" and sh: "strip s = strip t" for s t
    using that(1) path_to_strip[of s] path_to_strip[of t] shape_heap[OF sh] sh unfolding owns_def by metis
  from this[of t s] this[of s t] sh show "owns s ts k ids = owns t ts k ids" by metis
qed

lemma add_leaf_owns:
  assumes pre: "leaf_pre t L node n k bids" and o: "owns t ts k' ids"
  shows "owns (add_leaf now node k bids t) ts k' ids"
proof -
  obtain a m where a: "live t a" "L a = ts" "heap t a = Some m" "key m = k'" "block_ids m = ids"
    using o owns_iff[OF leaf_preD(1)[OF pre]] by metis
  obtain m' where m': "heap (add_leaf now node k bids t) a = Some m'" "key m' = key m" "block_ids m' = block_ids m"
    using add_leaf_old[OF pre a(1,3)] by metis
  show ?thesis
    unfolding owns_iff[OF add_leaf_wf[OF pre, of now]]
    using a m' add_leaf_registry(4)[OF pre, of now a] wf_fresh_addr(3)[OF leaf_preD(1)[OF pre] a(1)]
    by (intro exI[of _ a] exI[of _ m']) auto
qed

lemma split_owns:
  assumes pre: "split_pre t L node n c child cp nh" and o: "owns t ts k' ids" and ts: "ts \<noteq> L c"
  shows "owns (split_node now node (hd (key child)) c child cp nh t) ts k' ids"
proof -
  let ?t = "split_node now node (hd (key child)) c child cp nh t"
  obtain a m where a: "live t a" "L a = ts" "heap t a = Some m" "key m = k'" "block_ids m = ids"
    using o owns_iff[OF split_preD(1)[OF pre]] by metis
  have ac: "a \<noteq> c" using a(2) ts by auto
  obtain m' where m': "heap ?t a = Some m'" "key m' = key m" "block_ids m' = block_ids m"
    using split_old[OF pre a(1,3) ac] by metis
  show ?thesis
    unfolding owns_iff[OF split_wf[OF pre, of now]]
    using a m' split_registry(4)[OF pre, of now a] wf_fresh_addr(3)[OF split_preD(1)[OF pre] a(1)]
    by (intro exI[of _ a] exI[of _ m']) auto
qed

lemma cut_owns:
  assumes pre: "cut_pre t L a pa n" and o: "owns t ts k ids" and ts: "ts \<noteq> L a"
  shows "owns (cut_leaf a pa n t) ts k ids"
proof -
  obtain x m where x: "live t x" "L x = ts" "heap t x = Some m" "key m = k" "block_ids m = ids"
    using o owns_iff[OF cut_preD(1)[OF pre]] by metis
  have xa: "x \<noteq> a" using x(2) ts by auto
  obtain m' where m': "heap (cut_leaf a pa n t) x = Some m'" "key m' = key m" "block_ids m' = block_ids m"
    using cut_old[OF pre x(1,3) xa] by metis
  show ?thesis
    unfolding owns_iff[OF cut_wf[OF pre]]
    using x m' xa cut_registry(3)[OF pre, of x] by (intro exI[of _ x] exI[of _ m']) auto
qed

lemma owns_label: "tree_wf t L \<Longrightarrow> live t a \<Longrightarrow> heap t a = Some n \<Longrightarrow> owns t (L a) k ids \<Longrightarrow> key n = k \<and> block_ids n = ids"
  unfolding owns_iff using labels_branch by (metis option.inject prefix_order.refl)

section \<open>The contract of insertion\<close>

text \<open>
  \<open>grows t iss toks t' iss'\<close>: the tree became \<open>t'\<close> while the source, which had issued the blocks
  \<open>iss\<close>, came to have issued \<open>iss'\<close>. The new blocks are exactly the ones the tree gained; new
  cached prefixes are the inserted sequence and at most points where it leaves an old edge; the
  nodes on the way to the sequence are as they were.
\<close>

definition grows :: "radix_tree \<Rightarrow> bid set \<Rightarrow> token list \<Rightarrow> radix_tree \<Rightarrow> bid set \<Rightarrow> bool" where
  "grows t iss toks t' iss' \<longleftrightarrow> tree_ok t' \<and> tree_block_size t' = tree_block_size t \<and> iss \<subseteq> iss' \<and>
     tree_blocks t' = tree_blocks t \<union> (iss' - iss) \<and> cached t \<subseteq> cached t' \<and>
     cached t' \<subseteq> cached t \<union> {toks} \<union> {ts. prefix ts toks \<and> (\<exists>x \<in> cached t. prefix ts x)} \<and>
     (\<forall>ts k ids. owns t ts k ids \<longrightarrow> prefix ts toks \<longrightarrow> owns t' ts k ids)"

definition holds :: "radix_tree \<Rightarrow> token list \<Rightarrow> bid list \<Rightarrow> bool" where
  "holds t toks ids \<longleftrightarrow> (\<exists>a n. path_to t a toks \<and> heap t a = Some n \<and> block_ids n = ids)"

lemma grows_refl: "tree_ok t \<Longrightarrow> grows t iss toks t iss"
  by (auto simp: grows_def)

lemma grows_shape:
  assumes "strip s = strip t"
  shows "grows s iss toks t' iss' \<longleftrightarrow> grows t iss toks t' iss'"
  using cached_shape[OF assms] tree_blocks_shape[OF assms] owns_shape[OF assms]
    arg_cong[OF assms, of tree_block_size] by (simp add: grows_def)

lemma add_leaf_grows:
  assumes pre: "leaf_pre t L node n k bids" and toks: "L node @ k = toks"
    and iss: "tree_blocks t \<subseteq> iss" "set bids \<inter> iss = {}"
  shows "grows t iss toks (add_leaf now node k bids t) (iss \<union> set bids)"
    "holds (add_leaf now node k bids t) toks bids"
proof -
  note wf = add_leaf_wf[OF pre, of now]
  show "grows t iss toks (add_leaf now node k bids t) (iss \<union> set bids)"
    using wf iss toks add_leaf_owns[OF pre]
    unfolding grows_def tree_ok_def add_leaf_cached[OF pre] add_leaf_tree_blocks[OF pre] by auto
  have "path_to (add_leaf now node k bids t) (next_addr t) toks"
    using path_to_iff[OF wf] toks add_leaf_registry(4)[OF pre] by simp
  then show "holds (add_leaf now node k bids t) toks bids"
    using add_leaf_new[OF pre, of now] unfolding holds_def by (auto simp: fresh_node_def)
qed

lemma split_grows:
  assumes pre: "split_pre t L node n c child cp nh" and toks: "prefix (L node @ take cp (key child)) toks"
    and off: "\<not> prefix (L c) toks" and iss: "tree_blocks t \<subseteq> iss" "set nh \<inter> iss = {}"
  shows "grows t iss toks (split_node now node (hd (key child)) c child cp nh t) (iss \<union> set nh)"
    "holds (split_node now node (hd (key child)) c child cp nh t) (L node @ take cp (key child))
       (split_mid_bids t child cp)"
proof -
  note P = split_preD[OF pre] and wf = split_wf[OF pre, of now] and A = split_addrs[OF pre]
  have "L c \<in> cached t" using cached_labels[OF P(1)] registered_live[OF A(1)] by blast
  moreover have "prefix (L node @ take cp (key child)) (L c)" using A(3) by (simp add: take_is_prefix)
  ultimately show "grows t iss toks (split_node now node (hd (key child)) c child cp nh t) (iss \<union> set nh)"
    using wf iss toks off split_owns[OF pre]
    unfolding grows_def tree_ok_def split_cached[OF pre] split_tree_blocks[OF pre] by auto
  have "path_to (split_node now node (hd (key child)) c child cp nh t) (next_addr t)
      (L node @ take cp (key child))"
    using path_to_iff[OF wf] split_registry(4)[OF pre] by simp
  then show "holds (split_node now node (hd (key child)) c child cp nh t) (L node @ take cp (key child))
      (split_mid_bids t child cp)" using split_new(1)[OF pre, of now] unfolding holds_def by auto
qed

text \<open>A split followed by a leaf below the middle node.\<close>

lemma grows_then_leaf:
  assumes g: "grows t iss toks t1 iss1" and pre: "leaf_pre t1 L node n k bids"
    and toks: "L node @ k = toks" and iss: "tree_blocks t1 \<subseteq> iss1" "set bids \<inter> iss1 = {}"
  shows "grows t iss toks (add_leaf now node k bids t1) (iss1 \<union> set bids)"
proof -
  have "set bids \<inter> iss = {}" using g iss(2) unfolding grows_def by blast
  then have "tree_blocks t \<union> (iss1 - iss) \<union> set bids = tree_blocks t \<union> (iss1 \<union> set bids - iss)" by blast
  then show ?thesis
    using g toks add_leaf_wf[OF pre, of now] add_leaf_owns[OF pre, of _ _ _ now]
    unfolding grows_def tree_ok_def add_leaf_cached[OF pre] add_leaf_tree_blocks[OF pre] by auto
qed

lemma grows_blocks: "grows t iss toks t' iss' \<Longrightarrow> tree_blocks t \<subseteq> iss \<Longrightarrow> tree_blocks t' \<subseteq> iss'"
  unfolding grows_def by blast

section \<open>Insertion against the contract\<close>

definition insert_post ::
  "('p \<Rightarrow> bid set) \<Rightarrow> ('p \<Rightarrow> int) \<Rightarrow> ('p \<Rightarrow> bool) \<Rightarrow> radix_tree \<Rightarrow> 'p \<Rightarrow> token list \<Rightarrow>
   bid list result \<times> radix_tree \<times> 'p \<Rightarrow> bool" where
  "insert_post issued room src_inv t p toks res \<longleftrightarrow> (case res of (r, t', p') \<Rightarrow>
     src_inv p' \<and> grows t (issued p) toks t' (issued p') \<and>
     room p - int (n_blocks t toks) - 1 \<le> room p' \<and>
     (case r of Inl e \<Rightarrow> e = MemoryError \<and> room p < int (n_blocks t toks) + 1
      | Inr ids \<Rightarrow> holds t' toks ids))"

lemma insert_post_shape:
  assumes "strip s = strip t"
  shows "insert_post issued room src_inv s p toks res = insert_post issued room src_inv t p toks res"
  using grows_shape[OF assms] n_blocks_same[OF arg_cong[OF assms, of tree_block_size, simplified]]
  by (simp add: insert_post_def split: prod.splits sum.splits)

lemma set_child_set_reg: "set_child a tok c (set_reg b l t) = set_reg b l (set_child a tok c t)"
  by (simp add: set_child_def upd_node_def set_reg_def)

lemma n_blocks_mono: "0 < tree_block_size t \<Longrightarrow> length k \<le> length k' \<Longrightarrow> n_blocks t k \<le> n_blocks t k'"
  by (simp add: n_blocks_ceil ceil_div_mono)

context block_source
begin

lemma insert_leaf_post:
  assumes wf: "tree_wf t L" and node: "live t node" "heap t node = Some n" and toks: "L node @ k = toks"
    and k: "k \<noteq> []" "map_of (children n) (hd k) = None"
    and p: "src_inv p" "tree_blocks t \<subseteq> issued p"
  shows "insert_post issued room src_inv t p toks (insert_leaf mint now node k (t, p))"
proof (cases "mint (n_blocks t k) p")
  case (Pair r p')
  have nb: "n_blocks t k \<le> n_blocks t toks" using toks tree_wfD(1)[OF wf] by (intro n_blocks_mono) auto
  show ?thesis
  proof (cases r)
    case (Inl e)
    then show ?thesis using mint_raises[OF p(1), of "n_blocks t k" e p'] Pair p(1) nb wf
        grows_refl[of t "issued p" toks]
      by (auto simp: insert_leaf_def py_bind_def call_mint_def insert_post_def tree_ok_def)
  next
    case (Inr bids)
    note m = Pair[unfolded Inr]
    note M = mint_length[OF p(1) m] mint_distinct[OF p(1) m] mint_fresh[OF p(1) m]
      mint_issued[OF p(1) m] mint_inv[OF p(1) m] mint_room[OF p(1) m]
    have pre: "leaf_pre t L node n k bids" using wf node k M(1-3) p(2) by (auto simp: leaf_pre_def)
    obtain b bs where b: "bids = b # bs" using leaf_preD(9)[OF pre] by (cases bids) auto
    have "insert_leaf mint now node k (t, p) = (Inr bids, (add_leaf now node k bids t, p'))"
      using m b by (simp add: insert_leaf_def py_bind_def call_mint_def Let_def add_leaf_def)
    then show ?thesis
      using add_leaf_grows[OF pre toks p(2) M(3), of now] M(4-6) nb by (simp add: insert_post_def)
  qed
qed

text \<open>The second half of a split: the leaf for the rest of the sequence, if there is a rest.\<close>

lemma split_rest_post:
  fixes now :: time
  assumes pre: "split_pre t L node n c child cp nh" and toks: "L node @ take cp (key child) @ tail = toks"
    and off: "\<not> prefix (L c) toks" and tail: "tail \<noteq> []" "hd tail \<noteq> hd (drop cp (key child))"
    and p: "tree_blocks t \<subseteq> issued p" "set nh \<inter> issued p = {}"
    and q: "src_inv q" "issued q = issued p \<union> set nh" "room q = room p - int (length nh)"
  defines "t1 \<equiv> split_node now node (hd (key child)) c child cp nh t"
  shows "insert_post issued room src_inv t p toks (insert_leaf mint now (next_addr t) tail (t1, q))"
proof (cases "mint (n_blocks t1 tail) q")
  case (Pair r p')
  note P = split_preD[OF pre] and wf1 = split_wf[OF pre, of now, folded t1_def]
    and N = split_new(1)[OF pre, of now, folded t1_def]
  have pf: "prefix (L node @ take cp (key child)) toks" using toks by auto
  have g: "grows t (issued p) toks t1 (issued q)"
    using split_grows(1)[OF pre pf off p, of now, folded t1_def] q(2) by simp
  have nb: "n_blocks t1 tail \<le> n_blocks t toks"
    using toks tree_wfD(1)[OF P(1)] n_blocks_mono[of t tail toks] by (auto simp: t1_def n_blocks_def)
  have nh: "length nh \<le> 1" using P(10) by simp
  show ?thesis
  proof (cases r)
    case (Inl e)
    then show ?thesis using mint_raises[OF q(1), of "n_blocks t1 tail" e p'] Pair q nb g nh
      by (auto simp: insert_leaf_def py_bind_def call_mint_def insert_post_def)
  next
    case (Inr bids)
    note m = Pair[unfolded Inr]
    note M = mint_length[OF q(1) m] mint_distinct[OF q(1) m] mint_fresh[OF q(1) m]
      mint_issued[OF q(1) m] mint_inv[OF q(1) m] mint_room[OF q(1) m]
    note tb = grows_blocks[OF g p(1)]
    have lt: "live t1 (next_addr t)" using split_registry(4)[OF pre, of now, folded t1_def] by simp
    have lpre: "leaf_pre t1 (L(next_addr t := L node @ take cp (key child))) (next_addr t)
        (split_mid now node c child cp t) tail bids"
      using wf1 N M(1-3) tb tail lt by (auto simp: leaf_pre_def)
    have tk: "(L(next_addr t := L node @ take cp (key child))) (next_addr t) @ tail = toks"
      using toks by simp
    obtain b bs where b: "bids = b # bs" using leaf_preD(9)[OF lpre] by (cases bids) auto
    have "insert_leaf mint now (next_addr t) tail (t1, q) =
        (Inr bids, (add_leaf now (next_addr t) tail bids t1, p'))"
      using m b by (simp add: insert_leaf_def py_bind_def call_mint_def Let_def add_leaf_def)
    then show ?thesis
      using grows_then_leaf[OF g lpre tk tb M(3), of now] add_leaf_grows(2)[OF lpre tk tb M(3), of now]
        M(4-6) q nb nh by (simp add: insert_post_def)
  qed
qed

end

text \<open>A split, once its first allocation has succeeded, is the structural change and then a leaf.\<close>

lemma split_edge_after_mint:
  assumes pre: "split_pre t L node n c child cp nh" and rem: "hd remaining = hd (key child)"
    and m: "(if ceil_div cp (tree_block_size t) + ceil_div (length (key child) - cp) (tree_block_size t)
        > length (block_ids child) then call_mint mint 1 else py_return []) (t, p) = (Inr nh, (t, q))"
    and ne: "drop cp remaining \<noteq> [] \<Longrightarrow> fst (mint (n_blocks t (drop cp remaining)) q) \<noteq> Inr []"
  shows "split_edge mint now node c child cp remaining (t, p) =
    (if drop cp remaining = []
     then (Inr (split_mid_bids t child cp), (split_node now node (hd (key child)) c child cp nh t, q))
     else insert_leaf mint now (next_addr t) (drop cp remaining)
            (split_node now node (hd (key child)) c child cp nh t, q))"
proof -
  note B = split_bids[OF pre]
  let ?bs = "tree_block_size t" and ?t1 = "split_node now node (hd (key child)) c child cp nh t"
  let ?tail = "drop cp remaining"
  obtain mb ms where mb: "split_mid_bids t child cp = mb # ms" using B(7) by (cases "split_mid_bids t child cp") auto
  obtain cb cs where cb: "split_child_bids t child cp nh = cb # cs"
    using B(8) by (cases "split_child_bids t child cp nh") auto
  have nb: "n_blocks ?t1 = n_blocks t" by (rule n_blocks_same) simp
  let ?M = "if ceil_div cp ?bs + ceil_div (length (key child) - cp) ?bs > length (block_ids child)
    then call_mint mint 1 else py_return []"
  have start: "split_edge mint now node c child cp remaining (t, p) =
    (if ?tail = [] then (Inr (split_mid_bids t child cp), (?t1, q))
     else py_bind (call_mint mint (n_blocks ?t1 ?tail)) (\<lambda>leaf_bids (t2, p).
       let leaf = next_addr t2; t3 = new_node (fresh_node ?tail leaf_bids now (next_addr t)) t2
       in case leaf_bids of [] \<Rightarrow> (Inl IndexError, (t3, p))
          | lb # _ \<Rightarrow> (Inr leaf_bids, (set_child (next_addr t) (hd ?tail) leaf (set_reg lb leaf t3), p)))
       (?t1, q))"
    unfolding split_edge_def fst_conv Let_def ceil_div_def[symmetric] split_mid_bids_def[symmetric]
      split_child_bids_def[symmetric] py_bind_Inr[of ?M "(t, p)" nh "(t, q)", OF m] mb cb split_node_def
    by (simp add: rem mb cb)
  show ?thesis
    using ne unfolding start insert_leaf_def
    by (auto simp: py_bind_def call_mint_def Let_def nb set_child_set_reg split: prod.splits sum.splits list.splits)
qed

text \<open>Where a sequence leaves the edge to a child before the edge ends.\<close>

lemma leaves_edge:
  assumes "xs \<noteq> []" "hd xs = hd ys" "ys \<noteq> []" "cp = cp_len xs ys" "cp \<noteq> length ys"
  shows "0 < cp" "cp < length ys" "take cp ys @ drop cp xs = xs"
    "drop cp xs \<noteq> [] \<Longrightarrow> hd (drop cp xs) \<noteq> hd (drop cp ys)"
proof -
  show "0 < cp" using assms(1-4) cp_len_pos by simp
  show lt: "cp < length ys" using assms(4,5) cp_len_le(2)[of xs ys] by simp
  show "take cp ys @ drop cp xs = xs" unfolding assms(4) cp_len_take[symmetric] by simp
  assume "drop cp xs \<noteq> []"
  then have "cp < length xs" by simp
  then show "hd (drop cp xs) \<noteq> hd (drop cp ys)"
    using cp_len_diff[of xs ys] lt assms(4) by (simp add: hd_drop_conv_nth)
qed

context block_source
begin

lemma split_edge_post:
  assumes wf: "tree_wf t L" and node: "live t node" "heap t node = Some n"
    and c: "map_of (children n) (hd remaining) = Some c" "heap t c = Some child"
    and toks: "L node @ remaining = toks" "remaining \<noteq> []"
    and cp: "cp = cp_len remaining (key child)" "cp \<noteq> length (key child)"
    and p: "src_inv p" "tree_blocks t \<subseteq> issued p"
  shows "insert_post issued room src_inv t p toks (split_edge mint now node c child cp remaining (t, p))"
proof -
  let ?bs = "tree_block_size t"
  let ?extra = "ceil_div cp ?bs + ceil_div (length (key child) - cp) ?bs > length (block_ids child)"
  obtain ch: "hd (key child) = hd remaining" "key child \<noteq> []"
    using wf_childE[OF wf node c(1)] c(2) by (metis option.inject)
  note E = leaves_edge[OF toks(2) ch(1)[symmetric] ch(2) cp]
  have "L c = L node @ key child" using wf_childE[OF wf node c(1)] c(2) by (metis option.inject)
  moreover have "\<not> prefix (key child) remaining" using cp cp_len_full by metis
  ultimately have off: "\<not> prefix (L c) toks" using toks(1) by auto
  have pre: "split_pre t L node n c child cp nh"
    if "distinct nh" "set nh \<inter> tree_blocks t = {}" "length nh = (if ?extra then 1 else 0)" for nh
    using that wf node c ch E(1,2) by (auto simp: split_pre_def)
  have after: ?thesis
    if m: "(if ?extra then call_mint mint 1 else py_return []) (t, p) = (Inr nh, (t, q))"
      and nh: "distinct nh" "set nh \<inter> issued p = {}" "length nh = (if ?extra then 1 else 0)"
      and q: "src_inv q" "issued q = issued p \<union> set nh" "room q = room p - int (length nh)" for nh q
  proof -
    have dj: "set nh \<inter> tree_blocks t = {}" using nh(2) p(2) by blast
    note pr = pre[OF nh(1) dj nh(3)]
    have ne: "fst (mint (n_blocks t (drop cp remaining)) q) \<noteq> Inr []" if "drop cp remaining \<noteq> []"
      using n_blocks_pos[OF tree_wfD(1)[OF wf] that] mint_length[OF q(1)] by (metis length_0_conv less_irrefl prod.collapse)
    have tk: "L node @ take cp (key child) @ drop cp remaining = toks" using E(3) toks(1) by simp
    show ?thesis
    proof (cases "drop cp remaining = []")
      case True
      then have tk': "L node @ take cp (key child) = toks" using tk by simp
      then have "prefix (L node @ take cp (key child)) toks" by simp
      from split_grows[OF pr this off p(2) nh(2), of now] show ?thesis
        using split_edge_after_mint[OF pr ch(1)[symmetric] m ne, of now] True q nh(3) tk'
        by (auto simp: insert_post_def split: if_splits)
    next
      case False
      show ?thesis
        using split_edge_after_mint[OF pr ch(1)[symmetric] m ne, of now] False
          split_rest_post[OF pr tk off False E(4)[OF False] p(2) nh(2) q, of now] by simp
    qed
  qed
  show ?thesis
  proof (cases ?extra)
    case False
    then show ?thesis using p(1) by (intro after[of "[]" p]) (auto simp: py_return_def)
  next
    case True
    show ?thesis
    proof (cases "mint 1 p")
      case (Pair r q)
      show ?thesis
      proof (cases r)
        case (Inr nh)
        note m = Pair[unfolded Inr]
        show ?thesis
          using True m mint_length[OF p(1) m] mint_distinct[OF p(1) m] mint_fresh[OF p(1) m]
            mint_issued[OF p(1) m] mint_inv[OF p(1) m] mint_room[OF p(1) m]
          by (intro after[of nh q]) (auto simp: call_mint_def)
      next
        case (Inl e)
        then have "split_edge mint now node c child cp remaining (t, p) = (Inl e, (t, q))"
          using Pair True by (simp add: split_edge_def py_bind_def call_mint_def Let_def ceil_div_def)
        then show ?thesis
          using mint_raises[OF p(1), of 1 e q] Pair Inl p(1) grows_refl[of t "issued p" toks] wf
          by (auto simp: insert_post_def tree_ok_def)
      qed
    qed
  qed
qed

lemma insert_loop_post:
  "tree_wf t L \<Longrightarrow> live t node \<Longrightarrow> L node = take pos toks \<Longrightarrow> pos \<le> length toks \<Longrightarrow>
   length toks - pos < fuel \<Longrightarrow> src_inv p \<Longrightarrow> tree_blocks t \<subseteq> issued p \<Longrightarrow>
   insert_post issued room src_inv t p toks (insert_loop fuel mint now toks node pos (t, p))"
proof (induction fuel arbitrary: t node pos)
  case (Suc fuel)
  note wf = Suc.prems(1) and pr = Suc.prems
  obtain n where n: "heap t node = Some n" using wf_live_heap[OF wf pr(2)] by blast
  have tk: "L node @ drop pos toks = toks" using pr(3) by simp
  show ?case
  proof (cases "pos < length toks")
    case False
    then have "path_to (touch node now t) node toks"
      using pr(2-4) path_to_iff[OF tree_wf_shape[OF strip_touch wf]] by (simp add: live_def registered_def touch_def)
    then have "holds (touch node now t) toks (block_ids n)" using n by (auto simp: holds_def touch_def)
    moreover have "grows t (issued p) toks (touch node now t) (issued p)"
      using grows_refl[of "touch node now t"] tree_wf_shape[OF strip_touch wf] grows_shape[OF strip_touch]
      unfolding tree_ok_def by blast
    ultimately show ?thesis using False n pr(6) by (simp add: insert_post_def)
  next
    case lt: True
    then have rem: "drop pos toks \<noteq> []" "hd (drop pos toks) = toks ! pos" by (simp_all add: hd_drop_conv_nth)
    show ?thesis
    proof (cases "map_of (children n) (toks ! pos)")
      case None
      then show ?thesis using insert_leaf_post[OF wf pr(2) n tk rem(1) _ pr(6,7)] lt n rem(2) by simp
    next
      case (Some c)
      obtain cn where cn: "registered t c" "heap t c = Some cn" "key cn \<noteq> []" "L c = L node @ key cn"
        using wf_childE[OF wf pr(2) n Some] by metis
      show ?thesis
      proof (cases "cp_len (drop pos toks) (key cn) = length (key cn)")
        case False
        then show ?thesis
          using split_edge_post[OF wf pr(2) n _ cn(2) tk rem(1) refl False pr(6,7)] lt n Some cn(2) rem(2)
          by (simp add: Let_def)
      next
        case True
        then have pf: "prefix (key cn) (drop pos toks)" by (simp add: cp_len_full)
        note d = descend_label[of L node pos toks c cn, OF pr(3,4) cn(4) pf]
        have wf': "tree_wf (touch c now t) L" by (rule tree_wf_shape[OF strip_touch wf])
        have "insert_post issued room src_inv (touch c now t) p toks
            (insert_loop fuel mint now toks c (pos + length (key cn)) (touch c now t, p))"
        proof (rule Suc.IH[OF wf' _ d])
          show "live (touch c now t) c" using cn(1) by (simp add: live_def registered_def touch_def)
          show "length toks - (pos + length (key cn)) < fuel" using pr(5) lt cn(3) d(2) by (cases "key cn") auto
          show "src_inv p" by (rule pr(6))
          show "tree_blocks (touch c now t) \<subseteq> issued p" using pr(7) tree_blocks_shape[OF strip_touch] by metis
        qed
        then show ?thesis
          using lt n Some cn(2) True by (simp add: Let_def insert_post_shape[OF strip_touch])
      qed
    qed
  qed
qed simp

lemma tree_insert_post:
  assumes "tree_wf t L" "src_inv p" "tree_blocks t \<subseteq> issued p" "toks \<noteq> []"
  shows "insert_post issued room src_inv t p toks (tree_insert mint now toks (t, p))"
  using insert_loop_post[OF assms(1) live_root, of 0 toks "Suc (length toks)" p now] tree_wfD(4)[OF assms(1)]
    assms by (simp add: tree_insert_def)

end

section \<open>Whatever the block source keeps\<close>

lemma call_mint_keeps:
  assumes "\<And>n. keeps I (mint n)" "I (snd s)"
  shows "I (snd (snd (call_mint mint n s)))"
  using assms unfolding keeps_def by (auto simp: call_mint_def split: prod.splits) (metis snd_conv)

lemma insert_leaf_keeps:
  assumes m: "\<And>n. keeps I (mint n)" and s: "I (snd s)"
  shows "I (snd (snd (insert_leaf mint now node k s)))"
  unfolding insert_leaf_def
  by (rule keeps_bindI[where I = "\<lambda>s. I (snd s)"], rule call_mint_keeps[where I = I, OF m s])
    (auto simp: Let_def split: list.splits)

lemma split_edge_keeps:
  assumes m: "\<And>n. keeps I (mint n)" and s: "I (snd s)"
  shows "I (snd (snd (split_edge mint now node c child cp remaining s)))"
proof -
  note cm = call_mint_keeps[where I = I, OF m]
  show ?thesis
    unfolding split_edge_def Let_def
    by (rule keeps_bindI[where I = "\<lambda>s. I (snd s)"])
      (use s cm in \<open>auto simp: py_return_def intro!: keeps_bindI[where I = "\<lambda>s. I (snd s)"] split: list.splits\<close>)
qed

lemma insert_loop_keeps:
  assumes m: "\<And>n. keeps I (mint n)"
  shows "I (snd s) \<Longrightarrow> I (snd (snd (insert_loop fuel mint now toks node pos s)))"
proof (induction fuel arbitrary: node pos s)
  case (Suc fuel)
  obtain t p where s: "s = (t, p)" by (cases s)
  note lf = insert_leaf_keeps[where I = I, OF m] and sp = split_edge_keeps[where I = I, OF m]
  show ?case using Suc lf sp by (auto simp: s Let_def split: option.splits)
qed simp

lemma tree_insert_keeps:
  assumes "\<And>n. keeps I (mint n)" "I (snd s)"
  shows "I (snd (snd (tree_insert mint now toks s)))"
  using insert_loop_keeps[where I = I, OF assms] assms(2) by (simp add: tree_insert_def del: insert_loop.simps)

end
