(* ===== verification/Radix_Evict.thy ===== *)
theory Radix_Evict
  imports Radix_Insert
begin

text \<open>
  The operations that remove nodes: LRU eviction, the selection of demotion candidates
  (which drops nodes all of whose blocks are gone), and the synchronous clean-up after a
  block was freed. All of them only ever detach childless nodes, so each is a sequence of
  \<open>cut_leaf\<close> steps; the assertion and the subscripts in the source cannot fail.
\<close>

section \<open>Scanning the registry\<close>

lemma registered_in_nodes: "tree_wf t L \<Longrightarrow> registered t a \<longleftrightarrow> a \<in> snd ` set (nodes t)"
  using tree_wfD(2)[of t L] by (force simp: registered_def)

lemma reg_nodes_iff:
  assumes "tree_wf t L"
  shows "(a, n) \<in> set (reg_nodes t) \<longleftrightarrow> registered t a \<and> heap t a = Some n"
  unfolding reg_nodes_def registered_in_nodes[OF assms]
  by (force simp: map_filter_def)

lemma registry_addrs_distinct:
  assumes wf: "tree_wf t L"
  shows "distinct (map snd (nodes t))"
proof -
  have "b = b'" if "(b, a) \<in> set (nodes t)" "(b', a) \<in> set (nodes t)" for a b b'
    using that registered_unique[OF wf] tree_wfD(2)[OF wf] by (metis map_of_is_SomeI)
  then have "inj_on snd (set (nodes t))" by (auto simp: inj_on_def)
  then show ?thesis using tree_wfD(2)[OF wf] by (simp add: distinct_map)
qed

lemma detach_cut:
  assumes wf: "tree_wf t L" and a: "registered t a" "heap t a = Some n" "children n = []"
  obtains pa where "cut_pre t L a pa n" "detach (a, n) t = (Inr (), cut_leaf a pa n t)"
proof -
  obtain pa where pa: "parent n = Some pa" using wf_registeredE[OF wf a(1)] a(2) by (metis option.inject)
  then have pre: "cut_pre t L a pa n" using wf a by (simp add: cut_pre_def)
  note P = cut_preD[OF pre]
  obtain pn where pn: "heap t pa = Some pn" "map_of (children pn) (hd (key n)) = Some a" using P(13) by blast
  obtain k ks b bs where kb: "key n = k # ks" "block_ids n = b # bs"
    using P(10,11) by (meson neq_Nil_conv)
  have "detach (a, n) t = (Inr (), cut_leaf a pa n t)"
    using pa pn kb P(12) by (simp add: detach_def cut_leaf_def Let_def del_child_def)
  then show ?thesis using that pre by blast
qed

section \<open>Shrinking\<close>

definition shrinks :: "(bid \<Rightarrow> tier option) \<Rightarrow> radix_tree \<Rightarrow> radix_tree \<Rightarrow> bool" where
  "shrinks tier_of t t' \<longleftrightarrow> tree_ok t' \<and> tree_block_size t' = tree_block_size t \<and>
     tree_blocks t' \<subseteq> tree_blocks t \<and> (\<forall>b \<in> tree_blocks t - tree_blocks t'. tier_of b = None) \<and>
     cached t' \<subseteq> cached t \<and>
     (\<forall>ts k ids. owns t ts k ids \<longrightarrow> (\<exists>b \<in> set ids. tier_of b \<noteq> None) \<longrightarrow> owns t' ts k ids)"

lemma shrinks_refl: "tree_ok t \<Longrightarrow> shrinks f t t"
  by (simp add: shrinks_def)

lemma shrinks_trans: "shrinks f t t1 \<Longrightarrow> shrinks f t1 t2 \<Longrightarrow> shrinks f t t2"
  unfolding shrinks_def by (metis DiffD1 DiffD2 DiffI subset_trans)

lemma shrinks_shape:
  assumes "strip s = strip t"
  shows "tree_ok t \<Longrightarrow> shrinks f t s"
  using cached_shape[OF assms] tree_blocks_shape[OF assms] tree_wf_shape[OF assms] owns_shape[OF assms]
    arg_cong[OF assms, of tree_block_size]
  by (auto simp: shrinks_def tree_ok_def)

lemma cut_shrinks:
  assumes pre: "cut_pre t L a pa n" and dead: "\<forall>b \<in> set (block_ids n). f b = None"
  shows "shrinks f t (cut_leaf a pa n t)"
proof -
  note P = cut_preD[OF pre]
  have "owns (cut_leaf a pa n t) ts k ids" if o: "owns t ts k ids" "\<exists>b \<in> set ids. f b \<noteq> None" for ts k ids
    using o dead owns_label[OF P(1) registered_live[OF P(2)] P(3), of k ids] by (intro cut_owns[OF pre]) auto
  then show ?thesis
    using cut_wf[OF pre] dead unfolding shrinks_def tree_ok_def cut_tree_blocks[OF pre] cut_cached[OF pre]
    by auto
qed

lemma cut_nodes_length:
  assumes "cut_pre t L a pa n"
  shows "Suc (length (nodes (cut_leaf a pa n t))) = length (nodes t)"
proof -
  note P = cut_preD[OF assms]
  let ?b = "hd (block_ids n)"
  have b: "?b \<in> set (map fst (nodes t))" using P(12) by (metis list.set_map map_of_eq_None_iff option.distinct(1))
  have "length (nodes (cut_leaf a pa n t)) = length (removeAll ?b (map fst (nodes t)))"
    by (metis cut_leaf_sizes(3) delete_keys length_map)
  also have "\<dots> = length (nodes t) - 1"
    using distinct_remove1_removeAll[OF tree_wfD(2)[OF P(1)], of ?b] length_remove1[of ?b "map fst (nodes t)"] b
    by simp
  finally show ?thesis using b by (cases "nodes t") auto
qed

section \<open>LRU eviction\<close>

text \<open>
  The specification: \<open>evictions t vs t'\<close> removes the nodes \<open>vs\<close> one after the other, each a
  childless unreferenced node that no other such node was used longer ago than.
\<close>

inductive evictions :: "radix_tree \<Rightarrow> (addr \<times> radix_node) list \<Rightarrow> radix_tree \<Rightarrow> bool" where
  ev_none: "evictions t [] t"
| ev_step: "(a, n) \<in> set (evictable t) \<Longrightarrow>
     \<forall>(a', n') \<in> set (evictable t). last_access_time n \<le> last_access_time n' \<Longrightarrow>
     parent n = Some pa \<Longrightarrow> evictions (cut_leaf a pa n t) vs t' \<Longrightarrow> evictions t ((a, n) # vs) t'"

lemma evictable_iff:
  assumes "tree_wf t L"
  shows "(a, n) \<in> set (evictable t) \<longleftrightarrow>
    registered t a \<and> heap t a = Some n \<and> children n = [] \<and> node_ref_count n = 0"
  using reg_nodes_iff[OF assms] by (auto simp: evictable_def)

lemma evictions_facts:
  "evictions t vs t' \<Longrightarrow> tree_wf t L \<Longrightarrow>
    tree_wf t' L \<and> tree_block_size t' = tree_block_size t \<and>
    tree_blocks t = tree_blocks t' \<union> (\<Union>(a, n) \<in> set vs. set (block_ids n)) \<and>
    tree_blocks t' \<inter> (\<Union>(a, n) \<in> set vs. set (block_ids n)) = {} \<and>
    distinct (concat (map (\<lambda>(a, n). block_ids n) vs)) \<and> cached t' = cached t - (L \<circ> fst) ` set vs"
proof (induction rule: evictions.induct)
  case (ev_step a n t pa vs t')
  have a: "registered t a" "heap t a = Some n" "children n = []"
    using ev_step.hyps(1) evictable_iff[OF ev_step.prems] by simp_all
  have pre: "cut_pre t L a pa n" using a ev_step.prems ev_step.hyps(3) by (simp add: cut_pre_def)
  note IH = ev_step.IH[OF cut_wf[OF pre], unfolded cut_tree_blocks[OF pre] cut_cached[OF pre]]
  have own: "set (block_ids n) \<subseteq> tree_blocks t" using tree_blocksI[OF a(1,2)] by blast
  have "distinct (block_ids n)" using wf_registeredE[OF ev_step.prems a(1)] a(2) by (metis option.inject)
  moreover have "set (block_ids n) \<inter> (\<Union>(a, n) \<in> set vs. set (block_ids n)) = {}"
    "set (block_ids n) \<inter> tree_blocks t' = {}" using IH by blast+
  moreover have "tree_blocks t = tree_blocks t' \<union> (\<Union>(a, n) \<in> set ((a, n) # vs). set (block_ids n))"
    using IH own by auto
  moreover have "distinct (concat (map (\<lambda>(a, n). block_ids n) vs))"
    "set (concat (map (\<lambda>(a, n). block_ids n) vs)) = (\<Union>(a, n) \<in> set vs. set (block_ids n))"
    using IH by (simp_all add: case_prod_unfold)
  ultimately show ?case using IH by (simp add: cut_leaf_sizes Int_Un_distrib Int_commute) blast
qed auto

lemma evict_loop_spec:
  assumes wf: "tree_wf t L"
  shows "\<exists>vs t'. evict_loop out k ev t = (Inr (ev @ map (out \<circ> snd) vs), t') \<and> evictions t vs t' \<and>
    length vs \<le> k \<and> (length vs < k \<longrightarrow> evictable t' = [])"
  using wf
proof (induction k arbitrary: ev t)
  case (Suc k)
  show ?case
  proof (cases "min_by (\<lambda>(a, n). last_access_time n) (evictable t)")
    case None
    then show ?thesis by (intro exI[of _ "[]"] exI[of _ t]) (auto intro: evictions.ev_none)
  next
    case (Some v)
    obtain a n where v: "v = (a, n)" by (cases v)
    have min: "(a, n) \<in> set (evictable t)"
      "\<forall>(a', n') \<in> set (evictable t). last_access_time n \<le> last_access_time n'"
      using min_by_in[OF Some] min_by_least[OF Some] v by auto
    then obtain pa where pa: "cut_pre t L a pa n" "detach (a, n) t = (Inr (), cut_leaf a pa n t)"
      using detach_cut[OF Suc.prems] evictable_iff[OF Suc.prems] by metis
    obtain vs t' where IH: "evict_loop out k (ev @ [out n]) (cut_leaf a pa n t) =
        (Inr ((ev @ [out n]) @ map (out \<circ> snd) vs), t')" "evictions (cut_leaf a pa n t) vs t'"
      "length vs \<le> k" "length vs < k \<longrightarrow> evictable t' = []"
      using Suc.IH[OF cut_wf[OF pa(1)]] by metis
    have "evictions t ((a, n) # vs) t'" using min cut_preD(5)[OF pa(1)] IH(2) by (rule evictions.ev_step)
    then show ?thesis
      using Some v pa(2) IH by (intro exI[of _ "(a, n) # vs"] exI[of _ t']) (simp add: py_bind_def)
  qed
qed (auto intro: evictions.ev_none)

section \<open>Demotion candidates\<close>

lemma demotable_iff:
  assumes "tree_wf t L"
  shows "(a, n) \<in> set (demotable (Some pinned) t) \<longleftrightarrow> registered t a \<and> heap t a = Some n \<and>
    children n = [] \<and> node_ref_count n = 0 \<and> (\<forall>b \<in> set (block_ids n). \<not> pinned b)"
  using reg_nodes_iff[OF assms] by (auto simp: demotable_def)

lemma alive_blocks_Nil: "alive_blocks f bids = [] \<longleftrightarrow> (\<forall>b \<in> set bids. f b = None)"
  by (auto simp: alive_blocks_def filter_empty_conv)

text \<open>
  What a returned block list is: the blocks of a childless, unpinned node that is still in
  the tree and has a block left in the pool.
\<close>

definition demotion_ok :: "(bid \<Rightarrow> tier option) \<Rightarrow> (bid \<Rightarrow> bool) \<Rightarrow> radix_tree \<Rightarrow> bid list \<Rightarrow> bool" where
  "demotion_ok tier_of pinned t bids \<longleftrightarrow> (\<exists>a n. registered t a \<and> heap t a = Some n \<and> block_ids n = bids \<and>
     children n = [] \<and> (\<exists>b \<in> set bids. tier_of b \<noteq> None) \<and> (\<forall>b \<in> set bids. \<not> pinned b))"

lemma demotion_ok_blocks: "demotion_ok f g t bids \<Longrightarrow> set bids \<subseteq> tree_blocks t"
  by (auto simp: demotion_ok_def tree_blocks_def)

lemma demotion_ok_shape:
  assumes "strip s = strip t"
  shows "demotion_ok f g t bids \<Longrightarrow> demotion_ok f g s bids"
proof -
  have r: "registered s = registered t" using assms by (metis strip_simps(4))
  show "demotion_ok f g t bids \<Longrightarrow> demotion_ok f g s bids"
    unfolding demotion_ok_def r using shape_heap[OF assms] by metis
qed

lemma demotion_ok_cut:
  assumes pre: "cut_pre t L a pa n" and dead: "\<forall>b \<in> set (block_ids n). f b = None"
    and d: "demotion_ok f g t bids"
  shows "demotion_ok f g (cut_leaf a pa n t) bids"
proof -
  obtain x m where x: "registered t x" "heap t x = Some m" "block_ids m = bids" "children m = []"
    "\<exists>b \<in> set bids. f b \<noteq> None" "\<forall>b \<in> set bids. \<not> g b"
    using d unfolding demotion_ok_def by blast
  have xa: "x \<noteq> a" using x(2,3,5) dead cut_preD(3)[OF pre] by auto
  have "x \<noteq> pa" using x(2,4) cut_preD(13)[OF pre] by auto
  then have "heap (cut_leaf a pa n t) x = Some m"
    using x(2) xa by (simp add: cut_leaf_def del_child_def)
  then show ?thesis using x xa cut_registry(2)[OF pre] unfolding demotion_ok_def by blast
qed

lemma demote_loop_spec:
  assumes wf: "tree_wf t L" and sc: "length (nodes t) + (n - length dem) < scans"
    and dem: "length dem \<le> n" "\<forall>bids \<in> set dem. demotion_ok f g t bids"
  shows "\<exists>dem' t'. demote_loop scans n (Some f) (Some g) now dem t = (Inr dem', t') \<and> shrinks f t t' \<and>
    length dem' \<le> n \<and> (\<forall>bids \<in> set dem'. demotion_ok f g t' bids) \<and>
    (length dem' < n \<longrightarrow> demotable (Some g) t' = [])"
  using assms
proof (induction scans arbitrary: t dem)
  case (Suc scans)
  note wf = Suc.prems(1)
  have ok: "tree_ok t" using wf by (auto simp: tree_ok_def)
  show ?case
  proof (cases "length dem < n")
    case False
    then show ?thesis using Suc.prems shrinks_refl[OF ok] by simp
  next
    case lt: True
    show ?thesis
    proof (cases "min_by (\<lambda>(a, n). last_access_time n) (demotable (Some g) t)")
      case None
      then show ?thesis using Suc.prems shrinks_refl[OF ok] lt by simp
    next
      case (Some v)
      obtain a m where v: "v = (a, m)" by (cases v)
      have m: "registered t a" "heap t a = Some m" "children m = []" "\<forall>b \<in> set (block_ids m). \<not> g b"
        using min_by_in[OF Some] demotable_iff[OF wf] v by auto
      show ?thesis
      proof (cases "alive_blocks f (block_ids m) = []")
        case True
        obtain pa where pa: "cut_pre t L a pa m" "detach (a, m) t = (Inr (), cut_leaf a pa m t)"
          using detach_cut[OF wf m(1-3)] by metis
        have dead: "\<forall>b \<in> set (block_ids m). f b = None" using True by (simp add: alive_blocks_Nil)
        have sc: "length (nodes (cut_leaf a pa m t)) + (n - length dem) < scans"
          using cut_nodes_length[OF pa(1)] Suc.prems(2) by linarith
        have d': "\<forall>bids \<in> set dem. demotion_ok f g (cut_leaf a pa m t) bids"
          using Suc.prems(4) demotion_ok_cut[OF pa(1) dead] by blast
        obtain dem' t' where "demote_loop scans n (Some f) (Some g) now dem (cut_leaf a pa m t) = (Inr dem', t')"
          "shrinks f (cut_leaf a pa m t) t'" "length dem' \<le> n" "\<forall>bids \<in> set dem'. demotion_ok f g t' bids"
          "length dem' < n \<longrightarrow> demotable (Some g) t' = []"
          using Suc.IH[OF cut_wf[OF pa(1)] sc Suc.prems(3) d'] by blast
        then show ?thesis using lt Some v True pa(2) shrinks_trans[OF cut_shrinks[OF pa(1) dead]]
          by (simp add: py_bind_def)
      next
        case False
        let ?t = "touch a (now + 1 / 1000000000) t"
        have sh: "strip ?t = strip t" by simp
        have nodes: "nodes ?t = nodes t" by (simp add: touch_def)
        have "demotion_ok f g t (block_ids m)" using m False unfolding demotion_ok_def alive_blocks_Nil by blast
        then have d': "\<forall>bids \<in> set (dem @ [block_ids m]). demotion_ok f g ?t bids"
          using Suc.prems(4) demotion_ok_shape[OF sh] by auto
        have sc: "length (nodes ?t) + (n - length (dem @ [block_ids m])) < scans"
          "length (dem @ [block_ids m]) \<le> n" using Suc.prems(2) lt nodes by simp_all
        obtain dem' t' where "demote_loop scans n (Some f) (Some g) now (dem @ [block_ids m]) ?t = (Inr dem', t')"
          "shrinks f ?t t'" "length dem' \<le> n" "\<forall>bids \<in> set dem'. demotion_ok f g t' bids"
          "length dem' < n \<longrightarrow> demotable (Some g) t' = []"
          using Suc.IH[OF tree_wf_shape[OF sh wf] sc d'] by blast
        then show ?thesis using lt Some v False shrinks_trans[OF shrinks_shape[OF sh ok]] by simp
      qed
    qed
  qed
qed simp

lemma demote_lru_spec:
  assumes "tree_ok t"
  obtains dem t' where "demote_lru n (Some f) (Some g) now t = (Inr dem, t')" "shrinks f t t'"
    "length dem \<le> n" "\<forall>bids \<in> set dem. demotion_ok f g t' bids"
    "length dem < n \<Longrightarrow> demotable (Some g) t' = []"
  using assms demote_loop_spec[of t _ n "[]" "length (nodes t) + n + 1" f g now] that
  unfolding tree_ok_def demote_lru_def by auto

section \<open>Cleaning up after a freed block\<close>

lemma purge_one_step:
  assumes wf: "tree_wf t L" and a: "registered t a"
  obtains "purge_one fr f a (t, k) = (t, k)"
    | pa n where "cut_pre t L a pa n" "\<forall>b \<in> set (block_ids n). f b = None"
        "purge_one fr f a (t, k) = (cut_leaf a pa n t, Suc k)"
proof -
  obtain n pa where n: "heap t a = Some n" "parent n = Some pa"
    using wf_registeredE[OF wf a] by metis
  show ?thesis
  proof (cases "children n = [] \<and> node_ref_count n = 0 \<and> (\<exists>b \<in> set (block_ids n). b \<in> fr) \<and>
      (\<forall>b \<in> set (block_ids n). f b = None)")
    case True
    have "cut_pre t L a pa n" using wf a n True by (simp add: cut_pre_def)
    moreover have "purge_one fr f a (t, k) = (cut_leaf a pa n t, Suc k)"
      using n True by (auto simp: purge_one_def cut_leaf_def)
    ultimately show ?thesis using that(2) True by blast
  next
    case False
    then have "purge_one fr f a (t, k) = (t, k)" using n by (auto simp: purge_one_def)
    then show ?thesis using that(1) by blast
  qed
qed

lemma purge_fold_shrinks:
  assumes "tree_wf t L" "\<forall>a \<in> set as. registered t a" "distinct as"
  shows "shrinks f t (fst (fold (purge_one fr f) as (t, k)))"
  using assms
proof (induction as arbitrary: t k)
  case Nil
  then show ?case using shrinks_refl by (auto simp: tree_ok_def)
next
  case (Cons a as)
  from Cons.prems have a: "registered t a" by simp
  show ?case
  proof (rule purge_one_step[OF Cons.prems(1) a, of fr f k])
    assume "purge_one fr f a (t, k) = (t, k)"
    then show ?thesis using Cons.IH[OF Cons.prems(1)] Cons.prems by simp
  next
    fix pa n
    assume c: "cut_pre t L a pa n" "\<forall>b \<in> set (block_ids n). f b = None"
      "purge_one fr f a (t, k) = (cut_leaf a pa n t, Suc k)"
    have "\<forall>x \<in> set as. registered (cut_leaf a pa n t) x"
      using Cons.prems(2,3) cut_registry(2)[OF c(1)] by auto
    from Cons.IH[OF cut_wf[OF c(1)] this] show ?thesis
      using Cons.prems(3) c(3) shrinks_trans[OF cut_shrinks[OF c(1,2)]] by simp
  qed
qed

lemma purge_block_ids_shrinks:
  assumes "tree_ok t"
  shows "shrinks f t (fst (purge_block_ids freed f t))"
proof -
  obtain L where wf: "tree_wf t L" using assms by (auto simp: tree_ok_def)
  have "\<forall>a \<in> set (map snd (nodes t)). registered t a" using registered_in_nodes[OF wf] by auto
  from purge_fold_shrinks[OF wf this registry_addrs_distinct[OF wf]] show ?thesis
    using shrinks_refl[OF assms] by (simp add: purge_block_ids_def)
qed

end
