(* ===== verification/Radix_Purge.thy ===== *)
theory Radix_Purge
  imports Radix_Evict
begin

text \<open>
  \<open>purge_path_with_any_dead\<close>: the walk along a prefix that removes the first node with a
  freed block together with everything below it, handing the blocks that are still
  allocated back to the pool. Proved for any pool that keeps the contract \<open>block_sink\<close>. The
  only exception it lets through is the pool's refusal to free a pinned block.
\<close>

section \<open>Subtrees\<close>

definition desc :: "radix_tree \<Rightarrow> (addr \<Rightarrow> token list) \<Rightarrow> addr \<Rightarrow> addr set" where
  "desc t L a = {x. registered t x \<and> prefix (L a) (L x)}"

definition blocks_in :: "radix_tree \<Rightarrow> addr set \<Rightarrow> bid set" where
  "blocks_in t D = {b. \<exists>x \<in> D. \<exists>n. heap t x = Some n \<and> b \<in> set (block_ids n)}"

lemma blocks_in_Un: "blocks_in t (A \<union> B) = blocks_in t A \<union> blocks_in t B"
  by (auto simp: blocks_in_def)

lemma blocks_in_single: "heap t a = Some n \<Longrightarrow> blocks_in t {a} = set (block_ids n)"
  by (auto simp: blocks_in_def)

lemma tree_blocks_in: "tree_blocks t = blocks_in t {a. registered t a}"
  by (auto simp: blocks_in_def tree_blocks_def)

lemma blocks_in_disjoint:
  assumes "tree_wf t L" "A \<subseteq> {a. registered t a}" "B \<subseteq> {a. registered t a}" "A \<inter> B = {}"
  shows "blocks_in t A \<inter> blocks_in t B = {}"
proof -
  have False if "x \<in> A" "y \<in> B" "heap t x = Some n" "heap t y = Some m" "b \<in> set (block_ids n)"
    "b \<in> set (block_ids m)" for b x y n m
    using wf_same_owner[OF assms(1) _ _ that(3-6)] that(1,2) assms(2-4) by blast
  then show ?thesis unfolding blocks_in_def by blast
qed

lemma finite_desc: "tree_wf t L \<Longrightarrow> finite (desc t L a)"
  by (rule finite_subset[of _ "snd ` set (nodes t)"]) (auto simp: desc_def registered_in_nodes)

lemma desc_card: "tree_wf t L \<Longrightarrow> card (desc t L a) \<le> length (nodes t)"
  using card_mono[of "snd ` set (nodes t)" "desc t L a"] card_length[of "map snd (nodes t)"]
  by (force simp: desc_def registered_in_nodes)

lemma desc_self: "registered t a \<Longrightarrow> a \<in> desc t L a"
  by (simp add: desc_def)

lemma desc_registered: "desc t L a \<subseteq> {x. registered t x}"
  by (auto simp: desc_def)

lemma desc_child_sub:
  assumes wf: "tree_wf t L" and a: "live t a" "heap t a = Some n" "map_of (children n) tok = Some c"
  shows "desc t L c \<subseteq> desc t L a - {a}" "registered t c"
proof -
  obtain cn where c: "registered t c" "L c = L a @ key cn" "key cn \<noteq> []" "heap t c = Some cn"
    using wf_childE[OF wf a] by metis
  then show "registered t c" by simp
  show "desc t L c \<subseteq> desc t L a - {a}"
    using c prefix_order.trans[of "L a" "L c"] by (auto simp: desc_def)
qed

lemma children_mem:
  assumes "tree_wf t L" "live t a" "heap t a = Some n" "c \<in> snd ` set (children n)"
  obtains tok where "map_of (children n) tok = Some c"
  using wf_kids(1)[OF assms(1-3)] assms(4) by force

lemma desc_children:
  assumes wf: "tree_wf t L" and a: "live t a" "heap t a = Some n"
  shows "desc t L a - {a} = (\<Union>c \<in> snd ` set (children n). desc t L c)"
proof
  show "(\<Union>c \<in> snd ` set (children n). desc t L c) \<subseteq> desc t L a - {a}"
    using children_mem[OF wf a] desc_child_sub(1)[OF wf a] by (metis UN_least)
  show "desc t L a - {a} \<subseteq> (\<Union>c \<in> snd ` set (children n). desc t L c)"
  proof
    fix x assume "x \<in> desc t L a - {a}"
    then have x: "registered t x" "prefix (L a) (L x)" "x \<noteq> a" by (auto simp: desc_def)
    then have "toward t L a (L x)"
      using labels_branch[OF wf registered_live[OF x(1)] a(1) x(2)] by (auto split: if_splits)
    then obtain c where c: "map_of (children n) (L x ! length (L a)) = Some c" "prefix (L c) (L x)"
      using a(2) by (auto simp: toward_def)
    then have "c \<in> snd ` set (children n)" by (force dest: map_of_SomeD)
    then show "x \<in> (\<Union>c \<in> snd ` set (children n). desc t L c)" using c(2) x(1) by (auto simp: desc_def)
  qed
qed

lemma children_addrs_distinct:
  assumes wf: "tree_wf t L" and a: "live t a" "heap t a = Some n"
  shows "distinct (map snd (children n))"
proof -
  have "tok = tok'" if "(tok, c) \<in> set (children n)" "(tok', c) \<in> set (children n)" for tok tok' c
    using that wf_kids[OF wf a] by (metis map_of_is_SomeI option.inject)
  then have "inj_on snd (set (children n))" by (auto simp: inj_on_def)
  then show ?thesis using wf_kids(1)[OF wf a] by (simp add: distinct_map)
qed

lemma desc_disjoint:
  assumes wf: "tree_wf t L" and a: "live t a" "heap t a = Some n"
    and c: "map_of (children n) tok = Some c" "map_of (children n) tok' = Some c'" "c \<noteq> c'"
  shows "desc t L c \<inter> desc t L c' = {}"
proof -
  have first: "L x ! length (L a) = tk" if dk: "map_of (children n) tk = Some d" "x \<in> desc t L d" for x d tk
  proof -
    obtain dn where d: "heap t d = Some dn" "hd (key dn) = tk" "key dn \<noteq> []" "L d = L a @ key dn"
      using wf_childE[OF wf a dk(1)] by metis
    then show ?thesis
      using prefix_nth_same[of "L d" "L x" "length (L a)"] dk(2) by (auto simp: desc_def hd_conv_nth nth_append)
  qed
  show ?thesis using first[OF c(1)] first[OF c(2)] c by fastforce
qed

section \<open>Pruning a subtree keeps the invariant\<close>

definition prune_pre ::
  "radix_tree \<Rightarrow> (addr \<Rightarrow> token list) \<Rightarrow> addr \<Rightarrow> radix_node \<Rightarrow> token \<Rightarrow> addr \<Rightarrow> radix_tree \<Rightarrow> bool" where
  "prune_pre t L node n tok c t' \<longleftrightarrow> tree_wf t L \<and> live t node \<and> heap t node = Some n \<and>
     map_of (children n) tok = Some c \<and>
     nodes t' = filter (\<lambda>(b, x). x \<notin> desc t L c) (nodes t) \<and> next_addr t' = next_addr t \<and>
     tree_block_size t' = tree_block_size t \<and>
     heap t' node = Some (n\<lparr>children := AList.delete tok (children n)\<rparr>) \<and>
     (\<forall>y. y \<notin> desc t L c \<longrightarrow> y \<noteq> node \<longrightarrow> heap t' y = heap t y) \<and>
     (\<forall>y. heap t' y \<noteq> None \<longrightarrow> heap t y \<noteq> None)"

lemma prune_preD:
  assumes "prune_pre t L node n tok c t'"
  shows "tree_wf t L" "live t node" "heap t node = Some n" "map_of (children n) tok = Some c"
    "nodes t' = filter (\<lambda>(b, x). x \<notin> desc t L c) (nodes t)" "next_addr t' = next_addr t"
    "tree_block_size t' = tree_block_size t"
    "heap t' node = Some (n\<lparr>children := AList.delete tok (children n)\<rparr>)"
    "\<And>y. y \<notin> desc t L c \<Longrightarrow> y \<noteq> node \<Longrightarrow> heap t' y = heap t y"
    "\<And>y. heap t' y \<noteq> None \<Longrightarrow> heap t y \<noteq> None" "node \<notin> desc t L c"
  using assms desc_child_sub(1)[of t L node n tok c] unfolding prune_pre_def by blast+

lemma map_of_filter_distinct:
  "distinct (map fst xs) \<Longrightarrow> map_of (filter P xs) b = Some a \<longleftrightarrow> map_of xs b = Some a \<and> P (b, a)"
  using distinct_map_filter[of fst xs P] by (auto simp: map_of_eq_Some_iff)

lemma prune_registry:
  assumes pre: "prune_pre t L node n tok c t'"
  shows "map_of (nodes t') b = Some a \<longleftrightarrow> map_of (nodes t) b = Some a \<and> a \<notin> desc t L c"
    "registered t' a \<longleftrightarrow> registered t a \<and> a \<notin> desc t L c"
    "live t' a \<longleftrightarrow> live t a \<and> a \<notin> desc t L c"
proof -
  note P = prune_preD[OF pre]
  show mo: "map_of (nodes t') b = Some a \<longleftrightarrow> map_of (nodes t) b = Some a \<and> a \<notin> desc t L c" for a b
    using map_of_filter_distinct[OF tree_wfD(2)[OF P(1)]] P(5) by simp
  show reg: "registered t' a \<longleftrightarrow> registered t a \<and> a \<notin> desc t L c" for a
    unfolding registered_def mo by blast
  have "root_addr \<notin> desc t L c" using wf_root[OF P(1)] desc_registered by blast
  then show "live t' a \<longleftrightarrow> live t a \<and> a \<notin> desc t L c" using reg by (auto simp: live_def)
qed

lemma prune_old:
  assumes pre: "prune_pre t L node n tok c t'" and x: "heap t x = Some m" "x \<notin> desc t L c"
  obtains m' where "heap t' x = Some m'" "key m' = key m" "block_ids m' = block_ids m"
    "parent m' = parent m" "\<And>tk. map_of (children m') tk =
       (if x = node \<and> tk = tok then None else map_of (children m) tk)"
    "distinct (map fst (children m)) \<Longrightarrow> distinct (map fst (children m'))"
  using prune_preD[OF pre] x by (cases "x = node") (auto simp: delete_conv' distinct_delete)

text \<open>The only way into the subtree is the edge that is cut.\<close>

lemma prune_entry:
  assumes pre: "prune_pre t L node n tok c t'" and x: "live t x" "heap t x = Some m" "x \<notin> desc t L c"
    and d: "map_of (children m) tk = Some d"
  shows "d \<in> desc t L c \<longleftrightarrow> x = node \<and> tk = tok"
proof
  note P = prune_preD[OF pre]
  show "x = node \<and> tk = tok \<Longrightarrow> d \<in> desc t L c"
    using P(3,4) x(2) d desc_self desc_child_sub(2)[OF P(1-4)] by fastforce
  assume dc: "d \<in> desc t L c"
  obtain dn where dn: "L d = L x @ key dn" "heap t d = Some dn" "parent dn = Some x" "hd (key dn) = tk"
    using wf_childE[OF P(1) x(1,2) d] by metis
  have rc: "registered t c" using desc_child_sub(2)[OF P(1-4)] .
  have "\<not> prefix (L c) (L x)" using x(1,3) registered_label[OF P(1) rc] tree_wfD(4)[OF P(1)]
    by (auto simp: live_def desc_def)
  then have "prefix (L x) (L c)" "L x \<noteq> L c"
    using prefix_same_cases[of "L c" "L d" "L x"] dc dn(1) by (auto simp: desc_def)
  then have "toward t L x (L c)"
    using labels_branch[OF P(1) registered_live[OF rc] x(1)] by simp
  moreover have "L c ! length (L x) = L d ! length (L x)"
    using prefix_nth_same[of "L c" "L d" "length (L x)"] dc \<open>prefix (L x) (L c)\<close> \<open>L x \<noteq> L c\<close>
    by (metis (no_types, lifting) desc_def mem_Collect_eq prefix_len_eq prefix_length_le le_neq_implies_less)
  moreover have "L d ! length (L x) = tk"
    using dn wf_childE[OF P(1) x(1,2) d] by (metis hd_conv_nth nth_append_length_plus add.right_neutral option.inject)
  ultimately have "prefix (L d) (L c)" using x(2) d by (auto simp: toward_def)
  then have "L d = L c" using dc by (auto simp: desc_def intro: prefix_order.antisym)
  then have "d = c"
    using labels_branch[OF P(1) registered_live[OF rc] registered_live, of d] dc by (auto simp: desc_def)
  then show "x = node \<and> tk = tok"
    using wf_kids(2)[OF P(1-4)] dn by auto
qed

lemma prune_node_ok:
  assumes pre: "prune_pre t L node n tok c t'" and m: "map_of (nodes t') b = Some x"
  shows "node_ok t' L b x"
proof -
  note P = prune_preD[OF pre]
  have mb: "map_of (nodes t) b = Some x" "x \<notin> desc t L c" using m prune_registry(1)[OF pre] by auto
  from tree_wfD(5)[OF P(1) mb(1)] show ?thesis
  proof (elim node_okE)
    fix m p pn
    assume M: "heap t x = Some m" "key m \<noteq> []" "length (block_ids m) = n_blocks t (key m)"
      "distinct (block_ids m)" "hd (block_ids m) = b" "parent m = Some p" "live t p"
      "heap t p = Some pn" "map_of (children pn) (hd (key m)) = Some x" "L x = L p @ key m"
    have rx: "registered t x" using mb(1) by (auto simp: registered_def)
    have pd: "p \<notin> desc t L c" using mb(2) rx M(10) by (auto simp: desc_def prefix_def)
    obtain m' where m': "heap t' x = Some m'" "key m' = key m"
      "block_ids m' = block_ids m" "parent m' = parent m" using prune_old[OF pre M(1) mb(2)] by metis
    have "\<not> (p = node \<and> hd (key m) = tok)" using prune_entry[OF pre M(7,8) pd M(9)] mb(2) by blast
    then obtain pn' where pn': "heap t' p = Some pn'" "map_of (children pn') (hd (key m)) = Some x"
      using prune_old[OF pre M(8) pd] M(9) by metis
    show ?thesis
      using M m' pn' prune_registry(3)[OF pre] pd
      by (intro node_okI[where n = m' and p = p and pn = pn']) (auto simp: n_blocks_same[OF P(7)])
  qed
qed

lemma prune_kids_ok:
  assumes pre: "prune_pre t L node n tok c t'" and x: "live t' x"
  shows "kids_ok t' x"
proof -
  note P = prune_preD[OF pre]
  have xl: "live t x" "x \<notin> desc t L c" using x prune_registry(3)[OF pre] by simp_all
  obtain m where m: "heap t x = Some m" using wf_live_heap[OF P(1) xl(1)] by blast
  note kd = wf_kids[OF P(1) xl(1) m]
  obtain m' where m': "heap t' x = Some m'" "distinct (map fst (children m'))"
    "\<And>tk. map_of (children m') tk = (if x = node \<and> tk = tok then None else map_of (children m) tk)"
    using prune_old[OF pre m xl(2)] kd(1) by metis
  from m'(1,2) show ?thesis
  proof (rule kids_okI)
    fix tk d assume "map_of (children m') tk = Some d"
    then have d: "map_of (children m) tk = Some d" "\<not> (x = node \<and> tk = tok)"
      using m'(3)[of tk] by (auto split: if_splits)
    then have "d \<notin> desc t L c" using prune_entry[OF pre xl(1) m xl(2)] by blast
    then show "registered t' d \<and> (\<exists>cn. heap t' d = Some cn \<and> parent cn = Some x \<and> hd (key cn) = tk)"
      using kd(2)[OF d(1)] prune_registry(2)[OF pre] prune_old[OF pre] by metis
  qed
qed

lemma prune_blocks_of:
  assumes pre: "prune_pre t L node n tok c t'" and m: "registered t' x" "heap t' x = Some m'"
  obtains m where "registered t x" "x \<notin> desc t L c" "heap t x = Some m" "block_ids m' = block_ids m"
proof -
  have r: "registered t x" "x \<notin> desc t L c" using m(1) prune_registry(2)[OF pre] by simp_all
  obtain m where "heap t x = Some m"
    using wf_live_heap[OF prune_preD(1)[OF pre] registered_live[OF r(1)]] by blast
  then show ?thesis using that r m(2) prune_old[OF pre] by (metis option.inject)
qed

lemma prune_tree_blocks:
  assumes pre: "prune_pre t L node n tok c t'"
  shows "tree_blocks t' = tree_blocks t - blocks_in t (desc t L c)"
proof -
  note P = prune_preD[OF pre]
  let ?D = "desc t L c" and ?R = "{a. registered t a}"
  have "tree_blocks t' = blocks_in t (?R - ?D)"
  proof (rule set_eqI, rule iffI)
    fix b assume "b \<in> tree_blocks t'"
    then obtain x m' where x: "registered t' x" "heap t' x = Some m'" "b \<in> set (block_ids m')"
      by (auto simp: tree_blocks_def)
    show "b \<in> blocks_in t (?R - ?D)"
      by (rule prune_blocks_of[OF pre x(1,2)]) (use x(3) in \<open>auto simp: blocks_in_def\<close>)
  next
    fix b assume "b \<in> blocks_in t (?R - ?D)"
    then obtain x m where x: "registered t x" "x \<notin> ?D" "heap t x = Some m" "b \<in> set (block_ids m)"
      by (auto simp: blocks_in_def)
    show "b \<in> tree_blocks t'"
      by (rule prune_old[OF pre x(3,2)])
        (use x prune_registry(2)[OF pre] in \<open>auto intro: tree_blocksI\<close>)
  qed
  moreover have "tree_blocks t = blocks_in t (?R - ?D) \<union> blocks_in t ?D"
    using desc_registered[of t L c] unfolding tree_blocks_in blocks_in_Un[symmetric]
    by (simp add: Un_absorb2)
  moreover have "blocks_in t (?R - ?D) \<inter> blocks_in t ?D = {}"
    using desc_registered[of t L c] by (intro blocks_in_disjoint[OF P(1)]) auto
  ultimately show ?thesis by blast
qed

lemma prune_wf:
  assumes pre: "prune_pre t L node n tok c t'"
  shows "tree_wf t' L"
proof (rule tree_wfI)
  note P = prune_preD[OF pre]
  show "0 < tree_block_size t'" "L root_addr = []" using tree_wfD(1,4)[OF P(1)] P(7) by simp_all
  show "distinct (map fst (nodes t'))" using tree_wfD(2)[OF P(1)] P(5) by (simp add: distinct_map_filter)
  obtain r where r: "heap t root_addr = Some r" "key r = []" "block_ids r = []" "parent r = None"
    "\<not> registered t root_addr" using wf_root[OF P(1)] by metis
  then have "root_addr \<notin> desc t L c" using desc_registered by blast
  then show "root_ok t'"
    using r prune_old[OF pre r(1)] prune_registry(2)[OF pre, of root_addr] unfolding root_ok_def by metis
  show "\<And>x m. heap t' x = Some m \<Longrightarrow> x < next_addr t'"
    using tree_wfD(8)[OF P(1)] P(6) P(10) by (metis option.distinct(1) option.exhaust)
  show "owners_ok t'"
  proof (rule owners_okI)
    fix x x' m m' b
    assume R: "registered t' x" "registered t' x'" "heap t' x = Some m" "heap t' x' = Some m'"
      "b \<in> set (block_ids m)" "b \<in> set (block_ids m')"
    then show "x = x'"
      using prune_blocks_of[OF pre R(1,3)] prune_blocks_of[OF pre R(2,4)] wf_same_owner[OF P(1)] by metis
  qed
  show "\<And>b x. map_of (nodes t') b = Some x \<Longrightarrow> node_ok t' L b x" using prune_node_ok[OF pre] .
qed (use prune_kids_ok[OF pre] in simp)

lemma prune_cached:
  assumes pre: "prune_pre t L node n tok c t'"
  shows "cached t' = cached t - {ts. prefix (L c) ts}"
proof -
  note P = prune_preD[OF pre]
  have ne: "L c \<noteq> []" using registered_label[OF P(1) desc_child_sub(2)[OF P(1-4)]] .
  have "a \<in> desc t L c \<longleftrightarrow> prefix (L c) (L a)" if "live t a" for a
    using that ne tree_wfD(4)[OF P(1)] by (auto simp: desc_def live_def)
  then show ?thesis
    unfolding cached_labels[OF prune_wf[OF pre]] cached_labels[OF P(1)] prune_registry(3)[OF pre] by auto
qed

lemma prune_owns:
  assumes pre: "prune_pre t L node n tok c t'" and o: "owns t ts k ids"
    and b: "\<exists>b \<in> set ids. b \<notin> blocks_in t (desc t L c)"
  shows "owns t' ts k ids"
proof -
  obtain x m where x: "live t x" "L x = ts" "heap t x = Some m" "key m = k" "block_ids m = ids"
    using o owns_iff[OF prune_preD(1)[OF pre]] by metis
  have xd: "x \<notin> desc t L c" using b x(3,5) by (auto simp: blocks_in_def)
  obtain m' where m': "heap t' x = Some m'" "key m' = key m" "block_ids m' = block_ids m"
    using prune_old[OF pre x(3) xd] by metis
  show ?thesis
    unfolding owns_iff[OF prune_wf[OF pre]]
    using x m' xd prune_registry(3)[OF pre, of x] by (intro exI[of _ x] exI[of _ m']) auto
qed

section \<open>Running the purge\<close>

text \<open>
  \<open>t0\<close> is the tree before the purge started. \<open>gone t0 R t\<close>: the registry of \<open>t\<close> lacks exactly
  the objects \<open>R\<close>. \<open>sees t0 t D\<close>: the objects \<open>D\<close> still have their children and blocks.
\<close>

definition gone :: "radix_tree \<Rightarrow> addr set \<Rightarrow> radix_tree \<Rightarrow> bool" where
  "gone t0 R t \<longleftrightarrow> nodes t = filter (\<lambda>(b, x). x \<notin> R) (nodes t0) \<and> next_addr t = next_addr t0 \<and>
     tree_block_size t = tree_block_size t0"

definition sees :: "radix_tree \<Rightarrow> radix_tree \<Rightarrow> addr set \<Rightarrow> bool" where
  "sees t0 t D \<longleftrightarrow> (\<forall>x \<in> D. \<exists>n0 n. heap t0 x = Some n0 \<and> heap t x = Some n \<and>
     children n = children n0 \<and> block_ids n = block_ids n0)"

definition same_outside :: "addr set \<Rightarrow> radix_tree \<Rightarrow> radix_tree \<Rightarrow> bool" where
  "same_outside D t t' \<longleftrightarrow> (\<forall>y. y \<notin> D \<longrightarrow> heap t' y = heap t y) \<and> (\<forall>y. heap t' y = None \<longleftrightarrow> heap t y = None)"

lemma same_outside_trans:
  "same_outside A t t1 \<Longrightarrow> same_outside B t1 t2 \<Longrightarrow> same_outside (A \<union> B) t t2"
  by (simp add: same_outside_def)

lemma sees_outside: "sees t0 t E \<Longrightarrow> same_outside D t t' \<Longrightarrow> D \<inter> E = {} \<Longrightarrow> sees t0 t' E"
  unfolding sees_def same_outside_def by (metis disjoint_iff)

lemma heap_drop_reg [simp]:
  "heap (drop_reg bids t) = heap t" "next_addr (drop_reg bids t) = next_addr t"
  "tree_block_size (drop_reg bids t) = tree_block_size t"
  by (simp_all add: drop_reg_def split: list.splits)

lemma gone_drop_reg:
  assumes wf: "tree_wf t0 L" and g: "gone t0 R t" and c: "registered t0 c" "heap t0 c = Some n"
  shows "gone t0 (insert c R) (upd_node c (\<lambda>n. n\<lparr>parent := None\<rparr>) (drop_reg (block_ids n) t))"
proof -
  obtain b bs where b: "block_ids n = b # bs"
    using wf_block_ids_nonempty[OF wf c] by (cases "block_ids n") auto
  have mb: "map_of (nodes t0) b = Some c"
    using wf_registeredE[OF wf c(1)] c(2) b by (metis list.sel(1) option.inject)
  have "b' = b \<longleftrightarrow> x = c" if "(b', x) \<in> set (nodes t0)" for b' x
    using map_of_is_SomeI[OF tree_wfD(2)[OF wf] that] mb registered_unique[OF wf] by auto
  then have "filter (\<lambda>(k, v). b \<noteq> k) (filter (\<lambda>(b, x). x \<notin> R) (nodes t0)) =
      filter (\<lambda>(b, x). x \<notin> insert c R) (nodes t0)"
    unfolding filter_filter by (intro filter_cong) auto
  then show ?thesis using g b by (simp add: gone_def drop_reg_def AList.delete_eq)
qed

text \<open>
  The outcome of a purge of the objects \<open>D\<close> from state \<open>s\<close>, with \<open>R\<close> already removed and \<open>k\<close>
  counted: either all of \<open>D\<close> and exactly their blocks are gone, and no object outside \<open>W\<close> was
  written, or one of the blocks is held.
\<close>

definition purge_done ::
  "('p \<Rightarrow> bid \<Rightarrow> tier option) \<Rightarrow> ('p \<Rightarrow> bid \<Rightarrow> bool) \<Rightarrow> ('p \<Rightarrow> bool) \<Rightarrow>
   radix_tree \<Rightarrow> addr set \<Rightarrow> addr set \<Rightarrow> addr set \<Rightarrow> nat \<Rightarrow> radix_tree \<times> 'p \<Rightarrow> nat result \<times> radix_tree \<times> 'p \<Rightarrow> bool" where
  "purge_done tier_lookup held sink_inv t0 R D W k s res \<longleftrightarrow> (case (s, res) of ((t, p), (r, t', p')) \<Rightarrow>
     sink_inv p' \<and>
     (case r of Inl e \<Rightarrow> e = RuntimeError \<and> (\<exists>b \<in> blocks_in t0 D. held p b)
      | Inr k' \<Rightarrow> k' = k + card D \<and> gone t0 (R \<union> D) t' \<and> same_outside W t t' \<and>
          (\<forall>b. held p' b \<longrightarrow> held p b) \<and>
          tier_lookup p' = (\<lambda>b. if b \<in> blocks_in t0 D then None else tier_lookup p b)))"

lemma purge_done_cases:
  assumes "purge_done tier_lookup held sink_inv t0 R D W k (t, p) res"
  obtains p' t' e where "res = (Inl e, t', p')" "e = RuntimeError" "sink_inv p'" "\<exists>b \<in> blocks_in t0 D. held p b"
    | p' t' where "res = (Inr (k + card D), t', p')" "sink_inv p'" "gone t0 (R \<union> D) t'"
      "same_outside W t t'" "\<And>b. held p' b \<Longrightarrow> held p b"
      "tier_lookup p' = (\<lambda>b. if b \<in> blocks_in t0 D then None else tier_lookup p b)"
  using assms by (cases res; cases "fst res") (auto simp: purge_done_def)

context block_sink
begin

lemma call_free_alive:
  assumes p: "sink_inv p" and d: "distinct bids"
    and r: "call_free release (alive_blocks (tier_lookup p) bids) (t, p) = (r, (t', p'))"
  shows "t' = t" "sink_inv p'"
    "r = Inr u \<Longrightarrow> tier_lookup p' = (\<lambda>b. if b \<in> set bids then None else tier_lookup p b)"
    "r = Inr u \<Longrightarrow> held p' b \<Longrightarrow> held p b"
    "r = Inl e \<Longrightarrow> e = RuntimeError \<and> p' = p \<and> (\<exists>b \<in> set bids. held p b)"
proof -
  let ?al = "alive_blocks (tier_lookup p) bids"
  have al: "distinct ?al" "\<And>b. b \<in> set ?al \<Longrightarrow> tier_lookup p b \<noteq> None"
    "b \<in> set ?al \<longleftrightarrow> b \<in> set bids \<and> tier_lookup p b \<noteq> None" for b
    using d by (auto simp: alive_blocks_def)
  show "t' = t" using r by (auto simp: call_free_def split: if_splits prod.splits)
  have cs: "(?al = [] \<and> r = Inr () \<and> p' = p) \<or> (?al \<noteq> [] \<and> release ?al p = (r, p'))"
    using r by (auto simp: call_free_def split: if_splits prod.splits)
  show "sink_inv p'" using cs p release_inv[OF p] release_raises[OF p al(1,2)] by (cases r) auto
  show "r = Inl e \<Longrightarrow> e = RuntimeError \<and> p' = p \<and> (\<exists>b \<in> set bids. held p b)"
    using cs release_raises[OF p al(1,2)] al(3) by auto
  show "r = Inr u \<Longrightarrow> held p' b \<Longrightarrow> held p b" using cs release_held[OF p] by auto
  show "tier_lookup p' = (\<lambda>b. if b \<in> set bids then None else tier_lookup p b)" if "r = Inr u"
  proof
    fix b
    show "tier_lookup p' b = (if b \<in> set bids then None else tier_lookup p b)"
    proof (cases "?al = []")
      case True
      then show ?thesis using cs al(3)[of b] by auto
    next
      case False
      then have rel: "release ?al p = (Inr u, p')" using cs that by blast
      show ?thesis
        using release_dead[OF p rel, of b] release_frame[OF p rel, of b] al(3)[of b]
        by (cases "tier_lookup p b") auto
    qed
  qed
qed

text \<open>One child: its own blocks and entry, then everything below it.\<close>

lemma purge_child_step:
  assumes wf: "tree_wf t0 L" and c: "registered t0 c" and g: "gone t0 R t"
    and s: "sees t0 t (desc t0 L c)" and p: "sink_inv p"
    and sub: "\<And>t p. gone t0 (insert c R) t \<Longrightarrow> sees t0 t (desc t0 L c) \<Longrightarrow> sink_inv p \<Longrightarrow>
      purge_done tier_lookup held sink_inv t0 (insert c R) (desc t0 L c - {c}) (desc t0 L c) 0 (t, p)
        (purge_subtree_alive fuel tier_lookup release c (t, p))"
    and cont: "\<And>t' p' k'. k' = k + card (desc t0 L c) \<Longrightarrow> gone t0 (R \<union> desc t0 L c) t' \<Longrightarrow>
      same_outside (desc t0 L c) t t' \<Longrightarrow> sink_inv p' \<Longrightarrow> (\<forall>b. held p' b \<longrightarrow> held p b) \<Longrightarrow>
      tier_lookup p' = (\<lambda>b. if b \<in> blocks_in t0 (desc t0 L c) then None else tier_lookup p b) \<Longrightarrow> Q (next k' (t', p'))"
    and fail: "\<And>s'. sink_inv (snd s') \<Longrightarrow> \<exists>b \<in> blocks_in t0 (desc t0 L c). held p b \<Longrightarrow> Q (Inl RuntimeError, s')"
    and child: "heap t c = Some child"
  shows "Q (py_bind (call_free release (alive_blocks (tier_lookup p) (block_ids child))) (\<lambda>_ (t, p).
         py_bind (purge_subtree_alive fuel tier_lookup release c) (\<lambda>j. next (k + 1 + j))
           (upd_node c (\<lambda>n. n\<lparr>parent := None\<rparr>) (drop_reg (block_ids child) t), p)) (t, p))"
proof -
  let ?D = "desc t0 L c"
  have cD: "c \<in> ?D" "insert c (?D - {c}) = ?D" using desc_self[OF c] by auto
  obtain n0 where n0: "heap t0 c = Some n0" "block_ids child = block_ids n0"
    using s cD(1) child unfolding sees_def by fastforce
  have dist: "distinct (block_ids child)" using wf_registeredE[OF wf c] n0 by (metis option.inject)
  have bD: "blocks_in t0 ?D = set (block_ids child) \<union> blocks_in t0 (?D - {c})"
    using blocks_in_Un[of t0 "{c}" "?D - {c}"] blocks_in_single[OF n0(1)] cD(2) n0(2) by simp
  have cardD: "card ?D = 1 + card (?D - {c})"
    using card_Suc_Diff1[OF finite_desc[OF wf] cD(1)] by simp
  show ?thesis
  proof (cases "call_free release (alive_blocks (tier_lookup p) (block_ids child)) (t, p)")
    case (fields r t1 p1)
    note F = call_free_alive[OF p dist fields]
    show ?thesis
    proof (cases r)
      case (Inl e)
      then show ?thesis using F(2,5) fail[of "(t1, p1)"] fields bD by (auto simp: py_bind_def)
    next
      case (Inr u)
      let ?t2 = "upd_node c (\<lambda>n. n\<lparr>parent := None\<rparr>) (drop_reg (block_ids child) t)"
      have g2: "gone t0 (insert c R) ?t2" using gone_drop_reg[OF wf g c n0(1)] n0(2) by simp
      have h2: "heap ?t2 = (heap t)(c \<mapsto> child\<lparr>parent := None\<rparr>)"
        using child by simp
      have so: "same_outside {c} t ?t2" unfolding same_outside_def h2 using child by auto
      have s2: "sees t0 ?t2 ?D" using s child unfolding sees_def h2 by fastforce
      from sub[OF g2 s2 F(2)] show ?thesis
      proof (cases rule: purge_done_cases)
        case (1 p' t' e)
        then show ?thesis using fail[of "(t', p')"] F(1,4) fields Inr bD by (auto simp: py_bind_def)
      next
        case (2 p' t')
        have "R \<union> ?D = insert c R \<union> (?D - {c})" "?D = {c} \<union> ?D" using cD by auto
        then have "gone t0 (R \<union> ?D) t'" "same_outside ?D t t'"
          using 2(3) same_outside_trans[OF so 2(4)] by metis+
        moreover have "tier_lookup p' = (\<lambda>b. if b \<in> blocks_in t0 ?D then None else tier_lookup p b)"
          unfolding 2(6) bD F(3)[OF Inr] by auto
        ultimately have "Q (next (k + 1 + card (?D - {c})) (t', p'))"
          using cont[of "k + 1 + card (?D - {c})" t' p'] 2(2,5) F(4)[OF Inr] cardD by simp
        then show ?thesis using fields Inr F(1) 2(1) by (simp add: py_bind_def)
      qed
    qed
  qed
qed

lemma purge_children_done:
  assumes wf: "tree_wf t0 L"
    and sub: "\<And>c R t p. c \<in> set cs0 \<Longrightarrow> gone t0 (insert c R) t \<Longrightarrow> sees t0 t (desc t0 L c) \<Longrightarrow>
      sink_inv p \<Longrightarrow> purge_done tier_lookup held sink_inv t0 (insert c R) (desc t0 L c - {c}) (desc t0 L c) 0 (t, p)
        (purge_subtree_alive fuel tier_lookup release c (t, p))"
  shows "set cs \<subseteq> set cs0 \<Longrightarrow> distinct cs \<Longrightarrow> \<forall>c \<in> set cs. registered t0 c \<Longrightarrow>
    (\<And>c c'. c \<in> set cs \<Longrightarrow> c' \<in> set cs \<Longrightarrow> c \<noteq> c' \<Longrightarrow> desc t0 L c \<inter> desc t0 L c' = {}) \<Longrightarrow>
    gone t0 R t \<Longrightarrow> sees t0 t (\<Union>c \<in> set cs. desc t0 L c) \<Longrightarrow> sink_inv p \<Longrightarrow>
    purge_done tier_lookup held sink_inv t0 R (\<Union>c \<in> set cs. desc t0 L c) (\<Union>c \<in> set cs. desc t0 L c) k (t, p)
      (purge_children fuel tier_lookup release cs k (t, p))"
proof (induction cs arbitrary: R t p k)
  case Nil
  then show ?case by (auto simp: purge_done_def same_outside_def blocks_in_def)
next
  case (Cons c cs)
  let ?D = "desc t0 L c" and ?E = "\<Union>c \<in> set cs. desc t0 L c"
  have DE: "?D \<inter> ?E = {}" using Cons.prems(2,4) by fastforce
  have fin: "finite ?D" "finite ?E" using finite_desc[OF wf] by auto
  have c: "registered t0 c" "c \<in> set cs0" using Cons.prems(1,3) by auto
  have sD: "sees t0 t ?D" using Cons.prems(6) by (auto simp: sees_def)
  obtain child where child: "heap t c = Some child"
    using sD desc_self[OF c(1)] unfolding sees_def by blast
  have bDE: "blocks_in t0 (?D \<union> ?E) = blocks_in t0 ?D \<union> blocks_in t0 ?E" by (rule blocks_in_Un)
  have "purge_done tier_lookup held sink_inv t0 R (?D \<union> ?E) (?D \<union> ?E) k (t, p)
      (py_bind (call_free release (alive_blocks (tier_lookup p) (block_ids child))) (\<lambda>_ (t, p).
         py_bind (purge_subtree_alive fuel tier_lookup release c)
           (\<lambda>j. purge_children fuel tier_lookup release cs (k + 1 + j))
           (upd_node c (\<lambda>n. n\<lparr>parent := None\<rparr>) (drop_reg (block_ids child) t), p)) (t, p))"
  proof (rule purge_child_step[OF wf c(1) Cons.prems(5) sD Cons.prems(7) sub[OF c(2)] _ _ child])
    show "purge_done tier_lookup held sink_inv t0 R (?D \<union> ?E) (?D \<union> ?E) k (t, p) (Inl RuntimeError, s')"
      if "sink_inv (snd s')" "\<exists>b \<in> blocks_in t0 ?D. held p b" for s'
      using that bDE by (cases s') (auto simp: purge_done_def)
    fix t' p' k'
    assume A: "k' = k + card ?D" "gone t0 (R \<union> ?D) t'" "same_outside ?D t t'" "sink_inv p'"
      "\<forall>b. held p' b \<longrightarrow> held p b"
      "tier_lookup p' = (\<lambda>b. if b \<in> blocks_in t0 ?D then None else tier_lookup p b)"
    have sE: "sees t0 t' ?E" using Cons.prems(6) by (intro sees_outside[OF _ A(3) DE]) (auto simp: sees_def)
    have IH: "purge_done tier_lookup held sink_inv t0 (R \<union> ?D) ?E ?E k' (t', p')
        (purge_children fuel tier_lookup release cs k' (t', p'))"
      by (rule Cons.IH[OF _ _ _ _ A(2) sE A(4)]) (use Cons.prems in auto)
    from IH show "purge_done tier_lookup held sink_inv t0 R (?D \<union> ?E) (?D \<union> ?E) k (t, p)
        (purge_children fuel tier_lookup release cs k' (t', p'))"
    proof (cases rule: purge_done_cases)
      case (1 p2 t2 e)
      then show ?thesis using A(5) bDE by (auto simp: purge_done_def)
    next
      case (2 p2 t2)
      have "tier_lookup p2 = (\<lambda>b. if b \<in> blocks_in t0 (?D \<union> ?E) then None else tier_lookup p b)"
        unfolding 2(6) A(6) bDE by auto
      then show ?thesis
        using 2 A(1,5) same_outside_trans[OF A(3) 2(4)] card_Un_disjoint[OF fin DE]
        by (simp add: purge_done_def Un_assoc)
    qed
  qed
  then show ?case using child by simp
qed

lemma purge_subtree_done:
  assumes wf: "tree_wf t0 L"
  shows "registered t0 a \<Longrightarrow> card (desc t0 L a) \<le> fuel \<Longrightarrow> gone t0 R t \<Longrightarrow>
    sees t0 t (desc t0 L a) \<Longrightarrow> sink_inv p \<Longrightarrow>
    purge_done tier_lookup held sink_inv t0 R (desc t0 L a - {a}) (desc t0 L a) 0 (t, p)
      (purge_subtree_alive fuel tier_lookup release a (t, p))"
proof (induction fuel arbitrary: a R t p)
  case 0
  then have "desc t0 L a = {}" using finite_desc[OF wf] by simp
  then show ?case using desc_self[OF 0(1)] by blast
next
  case (Suc fuel)
  let ?D = "desc t0 L a - {a}"
  have la: "live t0 a" by (rule registered_live[OF Suc.prems(1)])
  obtain n0 n where n: "heap t0 a = Some n0" "heap t a = Some n" "children n = children n0"
    using Suc.prems(4) desc_self[OF Suc.prems(1)] unfolding sees_def by blast
  have D: "?D = (\<Union>c \<in> set (map snd (children n)). desc t0 L c)"
    using desc_children[OF wf la n(1)] n(3) by simp
  have card: "card (desc t0 L c) \<le> fuel" "registered t0 c" if c: "c \<in> set (map snd (children n))" for c
  proof -
    obtain tok where tok: "map_of (children n0) tok = Some c"
      using children_mem[OF wf la n(1)] c n(3) by auto
    have "card (desc t0 L c) \<le> card ?D"
      using card_mono[OF finite_Diff[OF finite_desc[OF wf]] desc_child_sub(1)[OF wf la n(1) tok]] .
    also have "Suc (card ?D) = card (desc t0 L a)"
      by (rule card_Suc_Diff1[OF finite_desc[OF wf] desc_self[OF Suc.prems(1)]])
    then have "card ?D \<le> fuel" using Suc.prems(2) by simp
    finally show "card (desc t0 L c) \<le> fuel" .
    show "registered t0 c" using desc_child_sub(2)[OF wf la n(1) tok] .
  qed
  have dj: "desc t0 L c \<inter> desc t0 L c' = {}"
    if cc: "c \<in> set (map snd (children n))" "c' \<in> set (map snd (children n))" "c \<noteq> c'" for c c'
  proof -
    obtain tok where "map_of (children n0) tok = Some c"
      using children_mem[OF wf la n(1)] cc(1) n(3) by auto
    moreover obtain tok' where "map_of (children n0) tok' = Some c'"
      using children_mem[OF wf la n(1)] cc(2) n(3) by auto
    ultimately show ?thesis using desc_disjoint[OF wf la n(1)] cc(3) by blast
  qed
  have dist: "distinct (map snd (children n))"
    unfolding n(3) by (rule children_addrs_distinct[OF wf la n(1)])
  have seesD: "sees t0 t ?D" using Suc.prems(4) by (auto simp: sees_def)
  have "purge_done tier_lookup held sink_inv t0 R ?D ?D 0 (t, p)
      (purge_children fuel tier_lookup release (map snd (children n)) 0 (t, p))"
    unfolding D
  proof (rule purge_children_done[OF wf, of "map snd (children n)"])
    fix c R t p
    assume "c \<in> set (map snd (children n))" "gone t0 (insert c R) t" "sees t0 t (desc t0 L c)" "sink_inv p"
    then show "purge_done tier_lookup held sink_inv t0 (insert c R) (desc t0 L c - {c}) (desc t0 L c) 0 (t, p)
        (purge_subtree_alive fuel tier_lookup release c (t, p))" using Suc.IH card by blast
  qed (use card(2) dj dist Suc.prems(3,5) seesD[unfolded D] in auto)
  then show ?case
  proof (cases rule: purge_done_cases)
    case (1 p' t' e)
    then show ?thesis using n(2) by (auto simp: purge_done_def py_bind_def)
  next
    case (2 p' t')
    have "same_outside {a} t' (upd_node a (\<lambda>n. n\<lparr>children := []\<rparr>) t')"
      by (auto simp: same_outside_def)
    moreover have "desc t0 L a = ?D \<union> {a}" using desc_self[OF Suc.prems(1)] by auto
    ultimately have "same_outside (desc t0 L a) t (upd_node a (\<lambda>n. n\<lparr>children := []\<rparr>) t')"
      using same_outside_trans[OF 2(4)] by metis
    then show ?thesis using 2 n(2) by (auto simp: purge_done_def py_bind_def gone_def)
  qed
qed

end

text \<open>Whatever every call of \<open>free_blocks\<close> preserves, a purge preserves, also when it raises.\<close>

lemma call_free_keeps:
  assumes "\<And>bs. keeps I (release bs)" "I (snd s)"
  shows "I (snd (snd (call_free release bids s)))"
  using assms unfolding keeps_def by (auto simp: call_free_def split: prod.splits) (metis snd_conv)

lemma purge_children_keeps:
  assumes rel: "\<And>bs. keeps I (release bs)"
    and sub: "\<And>a s. I (snd s) \<Longrightarrow> I (snd (snd (purge_subtree_alive fuel tier_of release a s)))"
  shows "I (snd s) \<Longrightarrow> I (snd (snd (purge_children fuel tier_of release cs k s)))"
proof (induction cs arbitrary: k s)
  case (Cons c cs)
  obtain t p where s: "s = (t, p)" by (cases s)
  show ?case
  proof (cases "heap t c")
    case (Some child)
    show ?thesis
      unfolding s purge_children.simps Some option.case
    proof (rule keeps_bindI[where I = "\<lambda>s. I (snd s)"])
      show "I (snd (snd (call_free release (alive_blocks (tier_of p) (block_ids child)) (t, p))))"
        using call_free_keeps[of I release, OF rel] Cons.prems s by simp
      fix x :: unit and s' assume I: "I (snd (s' :: radix_tree \<times> 'a))"
      obtain t1 p1 where s': "s' = (t1, p1)" by (cases s')
      show "I (snd (snd (case s' of (t, p) \<Rightarrow> py_bind (purge_subtree_alive fuel tier_of release c)
          (\<lambda>j. purge_children fuel tier_of release cs (k + 1 + j))
          (upd_node c (\<lambda>n. n\<lparr>parent := None\<rparr>) (drop_reg (block_ids child) t), p))))"
        unfolding s' prod.case
        by (rule keeps_bindI[where I = "\<lambda>s. I (snd s)"]) (use sub I s' Cons.IH in simp_all)
    qed
  qed (use Cons.prems s in simp)
qed simp

lemma purge_subtree_keeps:
  assumes rel: "\<And>bs. keeps I (release bs)"
  shows "I (snd s) \<Longrightarrow> I (snd (snd (purge_subtree_alive fuel tier_of release a s)))"
proof (induction fuel arbitrary: a s)
  case (Suc fuel)
  obtain t p where s: "s = (t, p)" by (cases s)
  show ?case
  proof (cases "heap t a")
    case (Some n)
    show ?thesis
      unfolding s purge_subtree_alive.simps Some option.case
    proof (rule keeps_bindI[where I = "\<lambda>s. I (snd s)"])
      show "I (snd (snd (purge_children fuel tier_of release (map snd (children n)) 0 (t, p))))"
        using purge_children_keeps[of I release, OF rel Suc.IH] Suc.prems s by simp
    qed auto
  qed (use Suc.prems s in simp)
qed simp

lemma purge_path_keeps:
  assumes rel: "\<And>bs. keeps I (release bs)" and s: "I (snd s)"
  shows "I (snd (snd (purge_path_with_any_dead tier_of release toks s)))"
proof -
  have "I (snd (snd (purge_path_loop fuel tier_of release toks node pos s)))" for fuel node pos
    using s
  proof (induction fuel arbitrary: node pos s)
    case (Suc fuel)
    obtain t p where s: "s = (t, p)" by (cases s)
    have "I (snd (snd (py_bind (call_free release (alive_blocks (tier_of p) (block_ids child))) (\<lambda>_ (t, p).
        py_bind (purge_subtree_alive (Suc (length (nodes t))) tier_of release c) (\<lambda>k. py_return (1 + k))
          (upd_node c (\<lambda>n. n\<lparr>parent := None\<rparr>)
             (drop_reg (block_ids child) (del_child node (toks ! pos) t)), p)) (t, p))))" for child c
      using Suc.prems s call_free_keeps[of I release, OF rel]
      by (auto intro!: keeps_bindI[where I = "\<lambda>s. I (snd s)"] purge_subtree_keeps[OF rel]
          simp: py_return_def simp del: purge_subtree_alive.simps split: prod.splits)
    then show ?case
      using Suc s by (auto simp: Let_def simp del: purge_subtree_alive.simps split: option.splits)
  qed simp
  then show ?thesis using s by (simp add: purge_path_with_any_dead_def del: purge_path_loop.simps)
qed

text \<open>
  The outcome of the walk. When it returns, the tree is well-formed, the blocks that left
  the tree are exactly the blocks whose allocation may have ended. When it raises, the exception
  is the pool's and a block of the tree is held.
\<close>

definition purge_post ::
  "('p \<Rightarrow> bid \<Rightarrow> tier option) \<Rightarrow> ('p \<Rightarrow> bid \<Rightarrow> bool) \<Rightarrow> ('p \<Rightarrow> bool) \<Rightarrow> radix_tree \<Rightarrow> 'p \<Rightarrow>
   nat result \<times> radix_tree \<times> 'p \<Rightarrow> bool" where
  "purge_post tier_lookup held sink_inv t p res \<longleftrightarrow> (case res of (r, t', p') \<Rightarrow> sink_inv p' \<and>
     (case r of Inl e \<Rightarrow> e = RuntimeError \<and> (\<exists>b \<in> tree_blocks t. held p b)
      | Inr k \<Rightarrow> shrinks (tier_lookup p') t t' \<and> (\<forall>b. held p' b \<longrightarrow> held p b) \<and>
          tier_lookup p' = (\<lambda>b. if b \<in> tree_blocks t - tree_blocks t' then None else tier_lookup p b)))"

lemma prune_shrinks:
  assumes pre: "prune_pre t L node n tok c t'"
    and f: "f = (\<lambda>b. if b \<in> blocks_in t (desc t L c) then None else g b)"
  shows "shrinks f t t'" "tree_blocks t - tree_blocks t' = blocks_in t (desc t L c)"
proof -
  have sub: "blocks_in t (desc t L c) \<subseteq> tree_blocks t"
    using desc_registered[of t L c] unfolding tree_blocks_in blocks_in_def by blast
  then show "tree_blocks t - tree_blocks t' = blocks_in t (desc t L c)"
    unfolding prune_tree_blocks[OF pre] by blast
  moreover have "owns t' ts k ids" if "owns t ts k ids" "\<exists>b \<in> set ids. f b \<noteq> None" for ts k ids
    using prune_owns[OF pre that(1)] that(2) f by (auto split: if_splits)
  ultimately show "shrinks f t t'"
    using prune_wf[OF pre] prune_preD(7)[OF pre] prune_tree_blocks[OF pre] prune_cached[OF pre] f
    unfolding shrinks_def tree_ok_def by auto
qed

context block_sink
begin

text \<open>Removing the node found by the walk and everything below it.\<close>

lemma purge_found:
  assumes wf: "tree_wf t L" and node: "live t node" "heap t node = Some n"
    and c: "map_of (children n) tok = Some c" "heap t c = Some child" and p: "sink_inv p"
  shows "purge_post tier_lookup held sink_inv t p
    (py_bind (call_free release (alive_blocks (tier_lookup p) (block_ids child))) (\<lambda>_ (t, p).
       py_bind (purge_subtree_alive (Suc (length (nodes t))) tier_lookup release c) (\<lambda>k. py_return (1 + k))
         (upd_node c (\<lambda>n. n\<lparr>parent := None\<rparr>) (drop_reg (block_ids child) (del_child node tok t)), p)) (t, p))"
proof -
  let ?D = "desc t L c"
  have rc: "registered t c" and sub: "?D \<subseteq> desc t L node - {node}"
    using desc_child_sub[OF wf node c(1)] by auto
  have cD: "c \<in> ?D" "node \<notin> ?D" "c \<noteq> node" using desc_self[OF rc] sub by auto
  have bD: "blocks_in t ?D = set (block_ids child) \<union> blocks_in t (?D - {c})"
    using blocks_in_Un[of t "{c}" "?D - {c}"] blocks_in_single[OF c(2)] cD(1) by (simp add: insert_absorb)
  have bT: "blocks_in t ?D \<subseteq> tree_blocks t"
    using desc_registered[of t L c] unfolding tree_blocks_in blocks_in_def by blast
  have dist: "distinct (block_ids child)" using wf_registeredE[OF wf rc] c(2) by (metis option.inject)
  show ?thesis
  proof (cases "call_free release (alive_blocks (tier_lookup p) (block_ids child)) (t, p)")
    case (fields r t1 p1)
    note F = call_free_alive[OF p dist fields]
    show ?thesis
    proof (cases r)
      case (Inl e)
      then show ?thesis using F(2,5) fields bD bT by (auto simp: py_bind_def purge_post_def)
    next
      case (Inr u)
      let ?t2 = "upd_node c (\<lambda>n. n\<lparr>parent := None\<rparr>) (drop_reg (block_ids child) (del_child node tok t))"
      have "gone t {} (del_child node tok t)" by (simp add: gone_def del_child_def)
      from gone_drop_reg[OF wf this rc c(2)] have g: "gone t {c} ?t2" .
      have h2: "heap ?t2 = (heap t)(node \<mapsto> n\<lparr>children := AList.delete tok (children n)\<rparr>,
          c \<mapsto> child\<lparr>parent := None\<rparr>)"
        using node(2) c(2) cD(3) by (simp add: del_child_def)
      have s: "sees t ?t2 ?D"
        unfolding sees_def h2 using c(2) cD wf_live_heap[OF wf registered_live] desc_registered[of t L c]
        by fastforce
      have fuel: "card ?D \<le> Suc (length (nodes t))" using desc_card[OF wf, of c] by simp
      from purge_subtree_done[OF wf rc fuel g s F(2)] show ?thesis
      proof (cases rule: purge_done_cases)
        case (1 p' t' e)
        have "\<exists>b \<in> tree_blocks t. held p b" using 1(4) F(4)[OF Inr] bD bT by blast
        then show ?thesis using 1(1-3) F(1) fields Inr
          by (simp add: py_bind_def purge_post_def del: purge_subtree_alive.simps)
      next
        case (2 p' t')
        have "{c} \<union> (?D - {c}) = ?D" using cD by auto
        then have g': "gone t ?D t'" using 2(3) by simp
        have o: "heap t' y = heap ?t2 y" if "y \<notin> ?D" for y using 2(4) that by (simp add: same_outside_def)
        have pre: "prune_pre t L node n tok c t'"
          unfolding prune_pre_def
        proof (intro conjI allI impI)
          show "heap t' node = Some (n\<lparr>children := AList.delete tok (children n)\<rparr>)"
            using o[OF cD(2)] cD(3) unfolding h2 by simp
          show "heap t' y = heap t y" if "y \<notin> ?D" "y \<noteq> node" for y
            using o[OF that(1)] that cD(1) unfolding h2 by auto
          show "heap t y \<noteq> None" if "heap t' y \<noteq> None" for y
            using 2(4) that node(2) c(2) unfolding same_outside_def h2 by (auto split: if_splits)
        qed (use wf node c(1) g' in \<open>auto simp: gone_def\<close>)
        have f: "tier_lookup p' = (\<lambda>b. if b \<in> blocks_in t ?D then None else tier_lookup p b)"
          unfolding 2(6) bD F(3)[OF Inr] by auto
        note S = prune_shrinks[OF pre f]
        have "tier_lookup p' = (\<lambda>b. if b \<in> tree_blocks t - tree_blocks t' then None else tier_lookup p b)"
          unfolding S(2) by (rule f)
        then show ?thesis
          using S(1) 2(1,2,5) F(1) F(4)[OF Inr] fields Inr
          by (simp add: py_bind_def py_return_def purge_post_def del: purge_subtree_alive.simps)
      qed
    qed
  qed
qed

lemma purge_path_loop_post:
  assumes wf: "tree_wf t L" and p: "sink_inv p"
  shows "live t node \<Longrightarrow> L node = take pos toks \<Longrightarrow> pos \<le> length toks \<Longrightarrow> length toks - pos < fuel \<Longrightarrow>
    purge_post tier_lookup held sink_inv t p (purge_path_loop fuel tier_lookup release toks node pos (t, p))"
proof (induction fuel arbitrary: node pos)
  case (Suc fuel)
  have stay: "purge_post tier_lookup held sink_inv t p (Inr 0, (t, p))"
    using wf p shrinks_refl[of t] by (auto simp: purge_post_def tree_ok_def)
  obtain n where n: "heap t node = Some n" using wf_live_heap[OF wf Suc.prems(1)] by blast
  show ?case
  proof (cases "pos < length toks \<and> map_of (children n) (toks ! pos) \<noteq> None")
    case False
    then show ?thesis using n stay by auto
  next
    case True
    then obtain c where c: "map_of (children n) (toks ! pos) = Some c" by blast
    obtain cn where cn: "registered t c" "heap t c = Some cn" "key cn \<noteq> []" "L c = L node @ key cn"
      using wf_childE[OF wf Suc.prems(1) n c] by metis
    have step: "purge_post tier_lookup held sink_inv t p
        (purge_path_loop fuel tier_lookup release toks c (pos + length (key cn)) (t, p))"
      if pf: "cp_len (drop pos toks) (key cn) = length (key cn)"
    proof -
      note d = descend_label[of L node pos toks c cn, OF Suc.prems(2,3) cn(4), unfolded cp_len_full[symmetric], OF pf]
      show ?thesis
        by (rule Suc.IH[OF registered_live[OF cn(1)] d]) (use Suc.prems(4) True cn(3) d(2) in \<open>cases "key cn"; auto\<close>)
    qed
    show ?thesis
      using True c cn(2) n stay step purge_found[OF wf Suc.prems(1) n c cn(2) p]
        cp_len_le(2)[of "drop pos toks" "key cn"]
      by (auto simp: Let_def)
  qed
qed simp

lemma purge_path_post:
  assumes "tree_ok t" "sink_inv p"
  shows "purge_post tier_lookup held sink_inv t p (purge_path_with_any_dead tier_lookup release toks (t, p))"
proof -
  obtain L where wf: "tree_wf t L" using assms(1) by (auto simp: tree_ok_def)
  have "purge_post tier_lookup held sink_inv t p (Inr 0, (t, p))"
    using assms shrinks_refl[of t] by (auto simp: purge_post_def)
  then show ?thesis
    using purge_path_loop_post[OF wf assms(2) live_root, of 0 toks "Suc (length toks)"] tree_wfD(4)[OF wf]
    unfolding purge_path_with_any_dead_def by (simp del: purge_path_loop.simps)
qed

end

end
