(* ===== verification/Node_Cache.thy ===== *)
theory Node_Cache
  imports Request_Types Block_Pool Radix_Purge
begin

text \<open>
  The part of \<open>kv_cache/cache_manager.py\<close> that works on one node: a \<open>RadixTree\<close> and the
  \<open>BlockPool\<close> it is wired to. The state is the pair of the two; \<open>now\<close> is the simulated clock
  the trees are constructed with, which does not advance within an operation.
\<close>

type_synonym node_cache = "radix_tree \<times> block_pool"

section \<open>The wiring\<close>

text \<open>
  \<open>CacheManager.__init__\<close> hands each tree its pool's operations as callbacks; the pool keeps
  the contracts the tree was verified against.
\<close>

interpretation gpu_source: block_source pool_mint pool_issued gpu_room pool_inv
proof
  fix p n ids p'
  assume p: "pool_inv p" and m: "pool_mint n p = (Inr ids, p')"
  note a = m[unfolded pool_mint_def]
  note F = allocate_fresh[OF p a]
  show "length ids = n" "distinct ids" "set ids \<inter> pool_issued p = {}" using F by (simp_all add: pool_issued_def)
  show "pool_issued p' = pool_issued p \<union> set ids" by (rule pool_mint_issued[OF m])
  show "pool_inv p'" by (rule allocate_inv[OF p a])
  show "gpu_room p' = gpu_room p - int n" using allocate_gpu_room[OF p a] by simp
next
  fix p n e p'
  assume p: "pool_inv p" and m: "pool_mint n p = (Inl e, p')"
  show "p' = p \<and> e = MemoryError \<and> gpu_room p < int n"
    using allocate_gpu_raises[OF p m[unfolded pool_mint_def]] by simp
qed

interpretation pool_sink: block_sink tier_of pool_held free pool_inv
proof
  fix p bs u p' b
  assume p: "pool_inv p" and f: "free bs p = (Inr u, p')"
  show "b \<in> set bs \<Longrightarrow> tier_of p' b = None" "b \<notin> set bs \<Longrightarrow> tier_of p' b = tier_of p b"
    using free_Inr(3)[OF f] by (simp_all add: tier_of_def)
  show "pool_held p' b \<Longrightarrow> pool_held p b" by (rule free_held[OF f])
  show "pool_inv p'" by (rule free_inv[OF p f])
next
  fix p bs e p'
  assume "pool_inv p" "distinct bs" "\<And>b. b \<in> set bs \<Longrightarrow> tier_of p b \<noteq> None" "free bs p = (Inl e, p')"
  then show "p' = p \<and> e = RuntimeError \<and> (\<exists>b \<in> set bs. pool_held p b)"
    using free_raises[of p bs e p'] by (simp add: tier_of_def)
qed

section \<open>Demotion\<close>

definition stat_free :: "block_pool \<Rightarrow> tier \<Rightarrow> int" where
  "stat_free p t = (case stats p t of None \<Rightarrow> 0 | Some s \<Rightarrow> st_free s)"

text \<open>\<open>pool.free([bid])\<close> followed by \<open>tree.purge_block_ids([bid], pool.tier_of)\<close>.\<close>

definition free_and_purge :: "bid \<Rightarrow> (node_cache, unit) py" where
  "free_and_purge b s = (case s of (t, p) \<Rightarrow>
     (case free [b] p of (Inl e, p') \<Rightarrow> (Inl e, (t, p'))
      | (Inr _, p') \<Rightarrow> (Inr (), (fst (purge_block_ids [b] (tier_of p') t), p'))))"

definition pool_move :: "bid \<Rightarrow> tier \<Rightarrow> tier \<Rightarrow> (node_cache, unit) py" where
  "pool_move b src dst s = (case s of (t, p) \<Rightarrow> (case move b src dst p of (r, p') \<Rightarrow> (r, (t, p'))))"

definition demote_block :: "bid \<Rightarrow> (node_cache, unit) py" where
  "demote_block b s = (case s of (t, p) \<Rightarrow>
     (case tier_of p b of None \<Rightarrow> (Inr (), s)
      | Some current \<Rightarrow>
          if pin_count p b > 0 then (Inl MemoryError, s)
          else if current = gpu then
            (if stat_free p cpu > 0 then pool_move b gpu cpu s
             else if stat_free p disk > 0 then pool_move b gpu disk s
             else free_and_purge b s)
          else if current = cpu then
            (if stat_free p disk > 0 then pool_move b cpu disk s else free_and_purge b s)
          else if current = disk then free_and_purge b s
          else (Inr (), s)))"

fun demote_blocks :: "bid list \<Rightarrow> (node_cache, unit) py" where
  "demote_blocks [] s = (Inr (), s)"
| "demote_blocks (b # bs) s = py_bind (demote_block b) (\<lambda>_. demote_blocks bs) s"

fun demote_all :: "bid list list \<Rightarrow> (node_cache, unit) py" where
  "demote_all [] s = (Inr (), s)"
| "demote_all (bs # bss) s = py_bind (demote_blocks bs) (\<lambda>_. demote_all bss) s"

section \<open>Lookup\<close>

definition call_match_path :: "time \<Rightarrow> token list \<Rightarrow> (node_cache, nat \<times> bid list) py" where
  "call_match_path now toks s =
     (case match_prefix_path now toks (fst s) of (r, t') \<Rightarrow> (r, (t', snd s)))"

fun count_tiers :: "(bid \<times> tier) list \<Rightarrow> bid list \<Rightarrow> (tier \<times> nat) list \<Rightarrow> (tier \<times> nat) list" where
  "count_tiers found [] acc = acc"
| "count_tiers found (b # bs) acc =
     (case map_of found b of None \<Rightarrow> count_tiers found bs acc
      | Some t \<Rightarrow> count_tiers found bs
          (AList.update t ((case map_of acc t of None \<Rightarrow> 0 | Some k \<Rightarrow> k) + 1) acc))"

definition count_of :: "(tier \<times> nat) list \<Rightarrow> tier \<Rightarrow> nat" where
  "count_of tc t = (case map_of tc t of None \<Rightarrow> 0 | Some k \<Rightarrow> k)"

definition cpu_load_ms :: "bandwidth_config \<Rightarrow> nat \<Rightarrow> nat \<Rightarrow> rat" where
  "cpu_load_ms bw bytes cpu_n =
     (if cpu_n > 0 then of_nat cpu_n * of_nat bytes / gpu_to_cpu bw * 1000 else 0)"

definition disk_load_ms :: "bandwidth_config \<Rightarrow> nat \<Rightarrow> nat \<Rightarrow> rat" where
  "disk_load_ms bw bytes disk_n =
     (if disk_n > 0
      then of_nat disk_n * of_nat bytes * (1 / cpu_to_disk bw + 1 / gpu_to_cpu bw) * 1000 else 0)"

definition summarise :: "model_config \<Rightarrow> bandwidth_config \<Rightarrow> nat \<Rightarrow> bid list \<Rightarrow> block_pool \<Rightarrow> cache_lookup" where
  "summarise mc bw matched_raw path p =
     (let bs = block_size mc;
          n = matched_raw div bs
      in if n = 0 then no_hit
         else let relevant = take n path;
                  tc = count_tiers (tiers_of p relevant) relevant [];
                  n_live = sum_list (map snd tc)
              in if n_live = 0 then no_hit
                 else let bytes = bs * kv_bytes_per_token mc
                      in \<lparr>matched_tokens = n_live * bs, matched_blocks_by_tier = tc,
                          transfer_cost_ms = cpu_load_ms bw bytes (count_of tc cpu) +
                                             disk_load_ms bw bytes (count_of tc disk)\<rparr>)"

definition lookup_node ::
  "model_config \<Rightarrow> bandwidth_config \<Rightarrow> time \<Rightarrow> token list \<Rightarrow> (node_cache, cache_lookup) py" where
  "lookup_node mc bw now toks =
     py_bind (call_match_path now toks)
       (\<lambda>(matched_raw, path) s. (Inr (summarise mc bw matched_raw path (snd s)), s))"

section \<open>Admission\<close>

definition call_purge_path :: "token list \<Rightarrow> (node_cache, nat) py" where
  "call_purge_path toks = purge_path_with_any_dead tier_of free toks"

definition tier_size :: "block_pool \<Rightarrow> tier \<Rightarrow> nat" where
  "tier_size p t = (case tiers p t of None \<Rightarrow> 0 | Some st \<Rightarrow> tier_used st)"

text \<open>
  The measure of the eviction loop: every round moves a block to a slower tier or frees it.
\<close>

definition pool_weight :: "block_pool \<Rightarrow> nat" where
  "pool_weight p = 3 * tier_size p gpu + 2 * tier_size p cpu + tier_size p disk"

definition gpu_used :: "block_pool \<Rightarrow> nat" where
  "gpu_used p = (case used gpu p of Inl _ \<Rightarrow> 0 | Inr n \<Rightarrow> n)"

fun make_room :: "nat \<Rightarrow> nat \<Rightarrow> nat \<Rightarrow> time \<Rightarrow> (node_cache, unit) py" where
  "make_room 0 cap need now s = (Inl OutOfFuel, s)"
| "make_room (Suc fuel) cap need now (t, p) =
     (if gpu_used p + need > cap then
        (case demote_lru 1 (Some (tier_of p)) (Some (\<lambda>b. pin_count p b > 0)) now t of
           (Inl e, t') \<Rightarrow> (Inl e, (t', p))
         | (Inr demoted, t') \<Rightarrow>
             if demoted = [] then (Inl MemoryError, (t', p))
             else py_bind (demote_all demoted) (\<lambda>_. make_room fuel cap need now) (t', p))
      else (Inr (), (t, p)))"

definition aligned_tokens :: "nat \<Rightarrow> token list \<Rightarrow> token list \<times> nat" where
  "aligned_tokens bs toks = (take (length toks div bs * bs) toks, length toks div bs)"

text \<open>After the fast path: capacity check, eviction, insertion.\<close>

definition admit_slow :: "nat \<Rightarrow> time \<Rightarrow> token list \<Rightarrow> nat \<Rightarrow> (node_cache, unit) py" where
  "admit_slow cap now aligned total_blocks s =
     (if total_blocks > cap then (Inl MemoryError, s)
      else let worst_case_new = min (total_blocks + 1) cap
           in py_bind (\<lambda>s. make_room (Suc (pool_weight (snd s))) cap worst_case_new now s)
                (\<lambda>_. py_bind (tree_insert pool_mint now aligned) (\<lambda>_. py_return ())) s)"

definition admit_node :: "nat \<Rightarrow> nat \<Rightarrow> time \<Rightarrow> token list \<Rightarrow> (node_cache, unit) py" where
  "admit_node bs cap now toks s =
     (let total_blocks = length toks div bs
      in if total_blocks = 0 then (Inr (), s)
         else let aligned = take (total_blocks * bs) toks
              in py_bind (call_match_path now aligned) (\<lambda>(matched_raw, path) s.
                   if matched_raw div bs \<ge> total_blocks then
                     (if length (tiers_of (snd s) (take total_blocks path)) = total_blocks then (Inr (), s)
                      else py_bind (call_purge_path aligned) (\<lambda>_. admit_slow cap now aligned total_blocks) s)
                   else admit_slow cap now aligned total_blocks s) s)"

section \<open>Block tables of active requests\<close>

definition live_prefix_block_ids :: "nat \<Rightarrow> time \<Rightarrow> token list \<Rightarrow> nat \<Rightarrow> (node_cache, bid list) py" where
  "live_prefix_block_ids bs now toks total_blocks =
     py_bind (call_match_path now toks) (\<lambda>(matched_raw, path) s.
       (Inr (takeWhile (\<lambda>b. tier_of (snd s) b \<noteq> None) (take (min (matched_raw div bs) total_blocks) path)), s))"

definition retain_blocks :: "bid list \<Rightarrow> (node_cache, unit) py" where
  "retain_blocks bids s =
     (if bids = [] then (Inr (), s) else case pin bids (snd s) of (r, p') \<Rightarrow> (r, (fst s, p')))"

definition release_blocks :: "bid list \<Rightarrow> (node_cache, unit) py" where
  "release_blocks bids s =
     (if bids = [] then (Inr (), s) else case unpin bids (snd s) of (r, p') \<Rightarrow> (r, (fst s, p')))"

text \<open>The body of the \<open>try\<close> after the prefix was retained; it returns the block list of the table.\<close>

definition materialize_rest ::
  "nat \<Rightarrow> nat \<Rightarrow> time \<Rightarrow> token list \<Rightarrow> nat \<Rightarrow> bid list \<Rightarrow> (node_cache, bid list) py" where
  "materialize_rest bs cap now aligned total_blocks prefix_bids =
     py_bind (if length prefix_bids < total_blocks then admit_node bs cap now aligned else py_return ()) (\<lambda>_.
     py_bind (call_match_path now aligned) (\<lambda>(matched_after, path) s.
       if matched_after div bs < total_blocks then (Inl MemoryError, s)
       else let bids = take total_blocks path
            in if length (tiers_of (snd s) bids) \<noteq> total_blocks then (Inl MemoryError, s)
               else py_bind (retain_blocks (filter (\<lambda>b. b \<notin> set prefix_bids) bids))
                      (\<lambda>_. py_return bids) s))"

text \<open>The \<open>try\<close> statement: its handler releases what was retained and re-raises.\<close>

definition materialize_node ::
  "nat \<Rightarrow> nat \<Rightarrow> time \<Rightarrow> token list \<Rightarrow> nat \<Rightarrow> (node_cache, bid list \<times> nat) py" where
  "materialize_node bs cap now aligned total_blocks =
     py_bind (live_prefix_block_ids bs now aligned total_blocks) (\<lambda>prefix_bids.
     py_bind (retain_blocks prefix_bids) (\<lambda>_ s.
       case materialize_rest bs cap now aligned total_blocks prefix_bids s of
         (Inr bids, s') \<Rightarrow> (Inr (bids, length prefix_bids), s')
       | (Inl e, s') \<Rightarrow>
           (case release_blocks prefix_bids s' of
              (Inl e', s'') \<Rightarrow> (Inl e', s'') | (Inr _, s'') \<Rightarrow> (Inl e, s''))))"

end
