(* ===== verification/Admission.thy ===== *)
theory Admission
  imports Node_Cache
begin

text \<open>
  Admission on one node: the invariant that ties a tree to its pool (every allocated block
  is owned by exactly one tree node, every block a node owns was issued by the pool), what
  demotion and eviction may and may not touch, that the eviction loop ends, and what
  \<open>admit\<close> achieves.
\<close>

section \<open>The invariant of a node\<close>

definition node_inv :: "node_cache \<Rightarrow> bool" where
  "node_inv s \<longleftrightarrow> tree_ok (fst s) \<and> pool_inv (snd s) \<and> tree_blocks (fst s) \<subseteq> pool_issued (snd s) \<and>
     dom (block_tier (snd s)) \<subseteq> tree_blocks (fst s)"

lemma node_invD:
  assumes "node_inv (t, p)"
  shows "tree_ok t" "pool_inv p" "tree_blocks t \<subseteq> pool_issued p" "dom (block_tier p) \<subseteq> tree_blocks t"
  using assms by (simp_all add: node_inv_def)

lemma node_inv_init: "inj src \<Longrightarrow> node_inv (tree_init bs t0, pool_init cfg src)"
proof -
  assume "inj src"
  have "tree_wf (tree_init bs t0) (\<lambda>_. [])"
    by (rule tree_wfI) (auto simp: tree_init_def root_ok_def registered_def live_def kids_ok_def owners_ok_def
        split: if_splits)
  moreover have "tree_blocks (tree_init bs t0) = {}" by (simp add: tree_blocks_def registered_def tree_init_def)
  ultimately show ?thesis
    using pool_init_inv[OF \<open>inj src\<close>] by (auto simp: node_inv_def tree_ok_def pool_init_def)
qed

text \<open>What no operation but \<open>pin\<close> and \<open>unpin\<close> changes: pin counts, pinned blocks, capacities.\<close>

definition pool_frame :: "block_pool \<Rightarrow> block_pool \<Rightarrow> bool" where
  "pool_frame p p' \<longleftrightarrow> pool_inv p' \<and> (\<forall>b. pin_count p' b = pin_count p b) \<and>
     (\<forall>b. pin_count p b > 0 \<longrightarrow> block_tier p' b = block_tier p b) \<and>
     (\<forall>t. map_option tier_capacity (tiers p' t) = map_option tier_capacity (tiers p t))"

lemma pool_frame_refl: "pool_inv p \<Longrightarrow> pool_frame p p"
  by (simp add: pool_frame_def)

lemma pool_frame_trans: "pool_frame p q \<Longrightarrow> pool_frame q r \<Longrightarrow> pool_frame p r"
  unfolding pool_frame_def by metis

lemma allocate_frame:
  assumes inv: "pool_inv p" and a: "allocate n t p = (Inr ids, p')"
  shows "pool_frame p p'"
proof -
  note A = allocate_Inr[OF a] and F = allocate_fresh[OF inv a]
  have none: "pin_counts p b = None" if "b \<in> set ids" for b
    using F(4) that pool_inv_counts(2)[OF inv] by (metis disjoint_iff domIff)
  have "pin_count p' b = pin_count p b" for b using none by (simp add: pin_count_def A(4))
  moreover have "block_tier p' b = block_tier p b" if "pin_count p b > 0" for b
    using that none A(3) by (auto simp: pin_count_def)
  moreover have "map_option tier_capacity (tiers p' t') = map_option tier_capacity (tiers p t')" for t'
    using A(2,8) by auto
  ultimately show ?thesis using allocate_inv[OF inv a] by (simp add: pool_frame_def)
qed

lemma free_frame:
  assumes inv: "pool_inv p" and f: "free bs p = (Inr u, p')"
  shows "pool_frame p p'"
proof -
  note F = free_Inr[OF f]
  have "pin_count p' b = pin_count p b" for b
    using F(2,4) pin_count_nonneg[OF inv, of b] by (auto simp: pin_count_def split: option.splits)
  moreover have "block_tier p' b = block_tier p b" if "pin_count p b > 0" for b
    using F(2,3) that by auto
  moreover have "map_option tier_capacity (tiers p' t) = map_option tier_capacity (tiers p t)" for t
    using F(8)[of t] by (cases "tiers p t") auto
  ultimately show ?thesis using free_inv[OF inv f] by (simp add: pool_frame_def)
qed

lemma free_keeps_frame: "pool_frame p0 p \<Longrightarrow> free bs p = (r, p') \<Longrightarrow> pool_frame p0 p'"
  using free_frame[of p bs _ p'] free_Inl[of bs p _ p'] pool_frame_trans[of p0 p p']
  by (cases r) (auto simp: pool_frame_def)

lemma move_frame:
  assumes inv: "pool_inv p" and m: "move_raw b s d p = (Inr u, p')"
  shows "pool_frame p p'"
proof -
  note M = move_Inr[OF m]
  have "map_option tier_capacity (tiers p' t) = map_option tier_capacity (tiers p t)" for t
    using M(9) by (auto simp: option.map_comp comp_def)
  moreover have "block_tier p' x = block_tier p x" if "pin_count p x > 0" for x using M(2,4) that by auto
  ultimately show ?thesis using move_inv[OF inv m] M(5) by (simp add: pool_frame_def pin_count_def)
qed

section \<open>Demotion\<close>

text \<open>What any number of demotions amounts to.\<close>

definition demoted :: "node_cache \<Rightarrow> node_cache \<Rightarrow> bool" where
  "demoted s s' \<longleftrightarrow> node_inv s' \<and> pool_frame (snd s) (snd s') \<and>
     dom (block_tier (snd s')) \<subseteq> dom (block_tier (snd s)) \<and> pool_issued (snd s') = pool_issued (snd s) \<and>
     shrinks (tier_of (snd s')) (fst s) (fst s') \<and> pool_weight (snd s') \<le> pool_weight (snd s)"

lemma demoted_refl: "node_inv s \<Longrightarrow> demoted s s"
  by (auto simp: demoted_def node_inv_def pool_frame_refl shrinks_refl)

lemma shrinks_mono:
  "shrinks f t t' \<Longrightarrow> (\<And>b. f b = None \<Longrightarrow> g b = None) \<Longrightarrow> shrinks g t t'"
  unfolding shrinks_def by (metis option.distinct(1))

lemma demotedD:
  assumes "demoted s s'"
  shows "node_inv s'" "pool_frame (snd s) (snd s')" "dom (block_tier (snd s')) \<subseteq> dom (block_tier (snd s))"
    "pool_issued (snd s') = pool_issued (snd s)" "shrinks (tier_of (snd s')) (fst s) (fst s')"
    "pool_weight (snd s') \<le> pool_weight (snd s)"
  using assms unfolding demoted_def by blast+

lemma demoted_trans:
  assumes "demoted s s1" "demoted s1 s2"
  shows "demoted s s2"
proof -
  note A = demotedD[OF assms(1)] and B = demotedD[OF assms(2)]
  have "tier_of (snd s2) b = None" if "tier_of (snd s1) b = None" for b
    using that B(3) by (auto simp: tier_of_def)
  then have "shrinks (tier_of (snd s2)) (fst s) (fst s1)" by (rule shrinks_mono[OF A(5)])
  then have "shrinks (tier_of (snd s2)) (fst s) (fst s2)"
    using B(5) shrinks_trans by blast
  then show ?thesis
    unfolding demoted_def
    using B(1) pool_frame_trans[OF A(2) B(2)] subset_trans[OF B(3) A(3)] A(4,6) B(4,6) by simp
qed

lemma shrinks_blocks: "shrinks f t t' \<Longrightarrow> b \<in> tree_blocks t \<Longrightarrow> f b \<noteq> None \<Longrightarrow> b \<in> tree_blocks t'"
  unfolding shrinks_def by (metis DiffI)

text \<open>Replacing the pool by one with fewer blocks, and the tree by one without the dead ones.\<close>

lemma node_inv_shrinks:
  assumes "node_inv (t, p)" "pool_inv p'" "pool_issued p' = pool_issued p"
    "dom (block_tier p') \<subseteq> dom (block_tier p)" "shrinks (tier_of p') t t'"
  shows "node_inv (t', p')"
proof -
  note I = node_invD[OF assms(1)]
  have "b \<in> tree_blocks t'" if "b \<in> dom (block_tier p')" for b
    using shrinks_blocks[OF assms(5)] that assms(4) I(4) by (auto simp: tier_of_def)
  then show ?thesis
    using assms(2,3,5) I(3) unfolding node_inv_def shrinks_def by auto
qed

lemma pool_weight_blocks:
  assumes "pool_inv p"
  shows "pool_weight p = 3 * card (blocks_on p gpu) + 2 * card (blocks_on p cpu) + card (blocks_on p disk)"
proof -
  have "tier_size p t = card (blocks_on p t)" if "t \<in> {gpu, cpu, disk}" for t
    using pool_inv_tiers[OF assms that] pool_inv_allocated[OF assms, of t]
    by (auto simp: tier_size_def tier_used_def)
  then show ?thesis by (simp add: pool_weight_def)
qed

lemma card_blocks_remove:
  "pool_inv p \<Longrightarrow> block_tier p b = Some t \<Longrightarrow> card (blocks_on p t) = Suc (card (blocks_on p t - {b}))"
  using card_Suc_Diff1[OF finite_blocks_on, of p b t] by (simp add: blocks_on_def)

lemma free_one_weight:
  assumes "pool_inv p" "free [b] p = (Inr u, p')"
  shows "pool_weight p' < pool_weight p"
proof -
  obtain t where t: "block_tier p b = Some t" "t \<in> {gpu, cpu, disk}"
    using free_Inr(2)[OF assms(2)] pool_inv_block_tier[OF assms(1)] by force
  have other: "blocks_on p t' - {b} = blocks_on p t'" if "t' \<noteq> t" for t'
    using t(1) that by (auto simp: blocks_on_def)
  have on: "blocks_on p' t' = blocks_on p t' - {b}" for t' using free_blocks_on[OF assms(2)] by simp
  from t(2) consider "t = gpu" | "t = cpu" | "t = disk" by blast
  then show ?thesis
    by cases (use card_blocks_remove[OF assms(1) t(1)] other[of gpu] other[of cpu] other[of disk] in
        \<open>simp_all add: pool_weight_blocks[OF assms(1)] pool_weight_blocks[OF free_inv[OF assms]] on\<close>)
qed

lemma move_down_weight:
  assumes inv: "pool_inv p" and m: "move_raw b s d p = (Inr u, p')"
    and sd: "(s, d) \<in> {(gpu, cpu), (gpu, disk), (cpu, disk)}"
  shows "pool_weight p' < pool_weight p"
proof -
  note B = move_blocks_on[OF m] and b = move_Inr(1)[OF m]
  have other: "blocks_on p t' - {b} = blocks_on p t'" "b \<notin> blocks_on p t'" if "t' \<noteq> s" for t'
    using b that by (auto simp: blocks_on_def)
  from sd consider "s = gpu" "d = cpu" | "s = gpu" "d = disk" | "s = cpu" "d = disk" by auto
  then show ?thesis
    by cases (use card_blocks_remove[OF inv b] other[of gpu] other[of cpu] other[of disk]
        finite_blocks_on[OF inv] in
        \<open>simp_all add: pool_weight_blocks[OF inv] pool_weight_blocks[OF move_inv[OF inv m]] B\<close>)
qed

lemma stat_free_pos:
  assumes "pool_inv p" "stat_free p t > 0"
  obtains st where "tiers p t = Some st" "1 \<le> tier_free st"
  using assms(2) by (auto simp: stat_free_def stats_def split: option.splits)

lemma pool_move_demotes:
  assumes inv: "node_inv (t, p)" and b: "block_tier p b = Some s" "pin_count p b \<le> 0"
    and sd: "(s, d) \<in> {(gpu, cpu), (gpu, disk), (cpu, disk)}" and room: "stat_free p d > 0"
  shows "\<exists>p'. pool_move b s d (t, p) = (Inr (), (t, p')) \<and> demoted (t, p) (t, p') \<and> pool_weight p' < pool_weight p"
proof -
  note I = node_invD[OF inv]
  obtain dst where dst: "tiers p d = Some dst" "1 \<le> tier_free dst" by (rule stat_free_pos[OF I(2) room])
  obtain src where src: "tiers p s = Some src" using pool_inv_tiers[OF I(2)] sd by blast
  obtain p' where m: "move_raw b s d p = (Inr (), p')" using move_succeeds[OF b src dst] by blast
  note M = move_Inr[OF m]
  have dom: "dom (block_tier p') = dom (block_tier p)" "pool_issued p' = pool_issued p"
    using M(1,4,7,8) by (auto simp: pool_issued_def)
  have sh: "shrinks (tier_of p') t t" using I(1) by (rule shrinks_refl)
  have "demoted (t, p) (t, p')"
    using node_inv_shrinks[OF inv move_inv[OF I(2) m] dom(2) _ sh] dom move_frame[OF I(2) m] sh
      move_down_weight[OF I(2) m sd] by (simp add: demoted_def)
  then show ?thesis
    using m move_down_weight[OF I(2) m sd] by (simp add: pool_move_def move_def)
qed

lemma free_and_purge_demotes:
  assumes inv: "node_inv (t, p)" and b: "block_tier p b \<noteq> None" "pin_count p b \<le> 0"
  shows "\<exists>t' p'. free_and_purge b (t, p) = (Inr (), (t', p')) \<and> demoted (t, p) (t', p') \<and>
    pool_weight p' < pool_weight p"
proof -
  note I = node_invD[OF inv]
  obtain p' where f: "free [b] p = (Inr (), p')" using free_succeeds[of "[b]" p] b by auto
  note F = free_Inr[OF f]
  let ?t = "fst (purge_block_ids [b] (tier_of p') t)"
  have sh: "shrinks (tier_of p') t ?t" by (rule purge_block_ids_shrinks[OF I(1)])
  have dom: "dom (block_tier p') \<subseteq> dom (block_tier p)" "pool_issued p' = pool_issued p"
    using F(3,6,7) by (auto simp: pool_issued_def split: if_splits)
  have "demoted (t, p) (?t, p')"
    using node_inv_shrinks[OF inv free_inv[OF I(2) f] dom(2,1) sh] dom free_frame[OF I(2) f] sh
      free_one_weight[OF I(2) f] by (simp add: demoted_def)
  then show ?thesis using f free_one_weight[OF I(2) f] by (simp add: free_and_purge_def)
qed

lemma demote_block_demotes:
  assumes inv: "node_inv (t, p)" and b: "block_tier p b \<noteq> None" "pin_count p b \<le> 0"
  shows "\<exists>s'. demote_block b (t, p) = (Inr (), s') \<and> demoted (t, p) s' \<and> pool_weight (snd s') < pool_weight p"
proof -
  note I = node_invD[OF inv]
  obtain cur where cur: "block_tier p b = Some cur" "cur \<in> {gpu, cpu, disk}"
    using b(1) pool_inv_block_tier[OF I(2)] by blast
  note mv = pool_move_demotes[OF inv cur(1) b(2)] and fp = free_and_purge_demotes[OF inv b]
  have gc: "stat_free p cpu > 0 \<Longrightarrow> cur = gpu \<Longrightarrow> ?thesis"
    using mv[of cpu] cur b(2) by (fastforce simp: demote_block_def tier_of_def)
  have gd: "\<not> stat_free p cpu > 0 \<Longrightarrow> stat_free p disk > 0 \<Longrightarrow> cur = gpu \<Longrightarrow> ?thesis"
    using mv[of disk] cur b(2) by (fastforce simp: demote_block_def tier_of_def)
  have cd: "stat_free p disk > 0 \<Longrightarrow> cur = cpu \<Longrightarrow> ?thesis"
    using mv[of disk] cur b(2) by (fastforce simp: demote_block_def tier_of_def)
  have rest: "\<not> stat_free p disk > 0 \<or> cur = disk \<Longrightarrow> \<not> (cur = gpu \<and> stat_free p cpu > 0) \<Longrightarrow> ?thesis"
    using fp cur b(2) by (fastforce simp: demote_block_def tier_of_def)
  show ?thesis using gc gd cd rest cur(2) by blast
qed

lemma demote_block_total:
  assumes inv: "node_inv (t, p)" and b: "pin_count p b \<le> 0"
  shows "\<exists>s'. demote_block b (t, p) = (Inr (), s') \<and> demoted (t, p) s' \<and>
    (block_tier p b \<noteq> None \<longrightarrow> pool_weight (snd s') < pool_weight p)"
proof (cases "block_tier p b")
  case None
  then show ?thesis using demoted_refl[OF inv] by (simp add: demote_block_def tier_of_def)
next
  case (Some c)
  then show ?thesis using demote_block_demotes[OF inv _ b] by auto
qed

lemma demote_blocks_total:
  assumes "node_inv s" "\<forall>b \<in> set bs. pin_count (snd s) b \<le> 0"
  shows "\<exists>s'. demote_blocks bs s = (Inr (), s') \<and> demoted s s' \<and>
    ((\<exists>b \<in> set bs. block_tier (snd s) b \<noteq> None) \<longrightarrow> pool_weight (snd s') < pool_weight (snd s))"
  using assms
proof (induction bs arbitrary: s)
  case Nil
  then show ?case using demoted_refl by simp
next
  case (Cons b bs)
  obtain t p where s: "s = (t, p)" by (cases s)
  obtain s1 where s1: "demote_block b s = (Inr (), s1)" "demoted s s1"
    "block_tier p b \<noteq> None \<longrightarrow> pool_weight (snd s1) < pool_weight p"
    using demote_block_total[of t p b] Cons.prems s by auto
  have pins: "\<forall>b \<in> set bs. pin_count (snd s1) b \<le> 0" and inv: "node_inv s1"
    using Cons.prems(2) s1(2) by (auto simp: demoted_def pool_frame_def)
  obtain s2 where s2: "demote_blocks bs s1 = (Inr (), s2)" "demoted s1 s2"
    "(\<exists>b \<in> set bs. block_tier (snd s1) b \<noteq> None) \<longrightarrow> pool_weight (snd s2) < pool_weight (snd s1)"
    using Cons.IH[OF inv pins] by blast
  have w: "pool_weight (snd s1) \<le> pool_weight p" "pool_weight (snd s2) \<le> pool_weight (snd s1)"
    using s1(2) s2(2) s by (auto simp: demoted_def)
  have "pool_weight (snd s2) < pool_weight p" if "\<exists>b \<in> set bs. block_tier p b \<noteq> None" "block_tier p b = None"
    using that s1(1) s2(3) s w by (auto simp: demote_block_def tier_of_def)
  then show ?case
    using s1 s2 demoted_trans[OF s1(2) s2(2)] w s by (auto simp: py_bind_def)
qed

section \<open>Making room\<close>

lemma gpu_used_card: "pool_inv p \<Longrightarrow> gpu_used p = card (blocks_on p gpu)"
  using pool_inv_tiers[of p gpu] pool_inv_allocated[of p gpu]
  by (auto simp: gpu_used_def used_def require_tier_def tier_used_def)

lemma demote_lru_demoted:
  assumes inv: "node_inv (t, p)"
  obtains dem t' where
    "demote_lru n (Some (tier_of p)) (Some (\<lambda>b. pin_count p b > 0)) now t = (Inr dem, t')"
    "demoted (t, p) (t', p)" "length dem \<le> n"
    "\<forall>bids \<in> set dem. (\<forall>b \<in> set bids. pin_count p b \<le> 0) \<and> (\<exists>b \<in> set bids. block_tier p b \<noteq> None)"
    "length dem < n \<Longrightarrow> demotable (Some (\<lambda>b. pin_count p b > 0)) t' = []"
proof (rule demote_lru_spec[OF node_invD(1)[OF inv], where f = "tier_of p" and n = n and now = now
      and g = "\<lambda>b. pin_count p b > 0"])
  fix dem t'
  assume D: "demote_lru n (Some (tier_of p)) (Some (\<lambda>b. pin_count p b > 0)) now t = (Inr dem, t')"
    "shrinks (tier_of p) t t'" "length dem \<le> n"
    "\<forall>bids \<in> set dem. demotion_ok (tier_of p) (\<lambda>b. pin_count p b > 0) t' bids"
    "length dem < n \<Longrightarrow> demotable (Some (\<lambda>b. pin_count p b > 0)) t' = []"
  note I = node_invD[OF inv]
  have "demoted (t, p) (t', p)"
    using node_inv_shrinks[OF inv I(2) refl _ D(2)] D(2) pool_frame_refl[OF I(2)] by (simp add: demoted_def)
  moreover have "\<forall>bids \<in> set dem. (\<forall>b \<in> set bids. pin_count p b \<le> 0) \<and>
      (\<exists>b \<in> set bids. block_tier p b \<noteq> None)"
    using D(4) unfolding demotion_ok_def tier_of_def by (meson not_le)
  ultimately show thesis using that D(1,3,5) by blast
qed

text \<open>
  The eviction loop ends, because each round demotes a block. It fails only when every
  childless node of the tree has a pinned block; otherwise the room asked for is there.
\<close>

lemma make_room_spec:
  assumes "node_inv s" "pool_weight (snd s) < fuel"
  shows "\<exists>r s'. make_room fuel cap need now s = (r, s') \<and> demoted s s' \<and>
    (case r of Inl e \<Rightarrow> e = MemoryError \<and> demotable (Some (\<lambda>b. pin_count (snd s') b > 0)) (fst s') = []
     | Inr _ \<Rightarrow> gpu_used (snd s') + need \<le> cap)"
  using assms
proof (induction fuel arbitrary: s)
  case (Suc fuel)
  obtain t p where s: "s = (t, p)" by (cases s)
  show ?case
  proof (cases "gpu_used p + need > cap")
    case False
    then show ?thesis using s demoted_refl[OF Suc.prems(1)] by simp
  next
    case True
    note inv = Suc.prems(1)[unfolded s]
    obtain dem t' where D: "demote_lru 1 (Some (tier_of p)) (Some (\<lambda>b. pin_count p b > 0)) now t = (Inr dem, t')"
      "demoted (t, p) (t', p)" "length dem \<le> 1"
      "\<forall>bids \<in> set dem. (\<forall>b \<in> set bids. pin_count p b \<le> 0) \<and> (\<exists>b \<in> set bids. block_tier p b \<noteq> None)"
      "length dem < 1 \<Longrightarrow> demotable (Some (\<lambda>b. pin_count p b > 0)) t' = []"
      by (rule demote_lru_demoted[OF inv, where n = 1 and now = now]) blast
    show ?thesis
    proof (cases dem)
      case Nil
      then show ?thesis using D True s by simp
    next
      case (Cons bs rest)
      then have dem: "dem = [bs]" using D(3) by simp
      obtain s1 where s1: "demote_blocks bs (t', p) = (Inr (), s1)" "demoted (t', p) s1"
        "pool_weight (snd s1) < pool_weight p"
        using demote_blocks_total[OF demotedD(1)[OF D(2)], of bs] D(4) dem by auto
      obtain r s' where IH: "make_room fuel cap need now s1 = (r, s')" "demoted s1 s'"
        "case r of Inl e \<Rightarrow> e = MemoryError \<and> demotable (Some (\<lambda>b. pin_count (snd s') b > 0)) (fst s') = []
         | Inr _ \<Rightarrow> gpu_used (snd s') + need \<le> cap"
        using Suc.IH[OF demotedD(1)[OF s1(2)]] s1(3) Suc.prems(2) s by fastforce
      have "make_room (Suc fuel) cap need now s = (r, s')"
        using True D(1) dem s1(1) IH(1) s by (simp add: py_bind_def)
      then show ?thesis
        using IH(3) demoted_trans[OF D(2) demoted_trans[OF s1(2) IH(2)]] s by blast
    qed
  qed
qed simp

section \<open>Insertion into a node\<close>

lemma pool_mint_frame:
  assumes "pool_inv p0"
  shows "keeps (\<lambda>q. pool_frame p0 q \<and> pool_issued p0 \<subseteq> pool_issued q \<and>
      dom (block_tier q) \<subseteq> dom (block_tier p0) \<union> (pool_issued q - pool_issued p0)) (pool_mint n)"
  unfolding keeps_def
proof (intro allI impI)
  fix q
  assume I: "pool_frame p0 q \<and> pool_issued p0 \<subseteq> pool_issued q \<and>
      dom (block_tier q) \<subseteq> dom (block_tier p0) \<union> (pool_issued q - pool_issued p0)"
  then have q: "pool_inv q" by (simp add: pool_frame_def)
  show "pool_frame p0 (snd (pool_mint n q)) \<and> pool_issued p0 \<subseteq> pool_issued (snd (pool_mint n q)) \<and>
      dom (block_tier (snd (pool_mint n q))) \<subseteq> dom (block_tier p0) \<union> (pool_issued (snd (pool_mint n q)) - pool_issued p0)"
  proof (cases "pool_mint n q")
    case (Pair r q')
    show ?thesis
    proof (cases r)
      case (Inl e)
      then show ?thesis using gpu_source.mint_raises[OF q, of n e q'] Pair I by simp
    next
      case (Inr ids)
      note m = Pair[unfolded Inr]
      note iss = gpu_source.mint_issued[OF q m] and fr = gpu_source.mint_fresh[OF q m]
      have "dom (block_tier q') = dom (block_tier q) \<union> set ids"
        using allocate_Inr(3)[OF m[unfolded pool_mint_def]] by (auto split: if_splits)
      moreover have "pool_frame p0 q'"
        using I pool_frame_trans allocate_frame[OF q m[unfolded pool_mint_def]] by blast
      ultimately show ?thesis using I Pair iss fr by auto
    qed
  qed
qed

lemma node_insert:
  assumes inv: "node_inv (t, p)" and ne: "toks \<noteq> []"
    and r: "tree_insert pool_mint now toks (t, p) = (r, (t', p'))"
  shows "node_inv (t', p')" "pool_frame p p'" "grows t (pool_issued p) toks t' (pool_issued p')"
    "r = Inl e \<Longrightarrow> e = MemoryError \<and> gpu_room p < int (n_blocks t toks) + 1"
    "r = Inr ids \<Longrightarrow> holds t' toks ids"
proof -
  note I = node_invD[OF inv]
  obtain L where L: "tree_wf t L" using I(1) by (auto simp: tree_ok_def)
  have post: "insert_post pool_issued gpu_room pool_inv t p toks (r, (t', p'))"
    using gpu_source.tree_insert_post[OF L I(2,3) ne] r by metis
  then show g: "grows t (pool_issued p) toks t' (pool_issued p')" and
    "r = Inl e \<Longrightarrow> e = MemoryError \<and> gpu_room p < int (n_blocks t toks) + 1"
    "r = Inr ids \<Longrightarrow> holds t' toks ids" by (auto simp: insert_post_def)
  have K: "pool_frame p p' \<and> pool_issued p \<subseteq> pool_issued p' \<and>
      dom (block_tier p') \<subseteq> dom (block_tier p) \<union> (pool_issued p' - pool_issued p)"
    using tree_insert_keeps[where mint = pool_mint and now = now and toks = toks and s = "(t, p)",
        OF pool_mint_frame[OF I(2)]] pool_frame_refl[OF I(2)] r
    by (simp del: insert_loop.simps)
  then show "pool_frame p p'" by blast
  have tb: "tree_ok t'" "tree_blocks t' = tree_blocks t \<union> (pool_issued p' - pool_issued p)"
    using g unfolding grows_def by blast+
  have "tree_blocks t' \<subseteq> pool_issued p'" "dom (block_tier p') \<subseteq> tree_blocks t'"
    unfolding tb(2) using K I(3,4) by blast+
  then show "node_inv (t', p')"
    using K tb(1) unfolding node_inv_def pool_frame_def by simp
qed

section \<open>Admission\<close>

text \<open>
  The outcome of an admission of the aligned prompt \<open>toks\<close>. In every case no pin count and
  no pinned block changes. A \<open>MemoryError\<close> leaves a consistent node; \<open>RuntimeError\<close> can only
  come out of the clean-up of a path with freed blocks, when a block of it is pinned.
\<close>

abbreviation (input) same_size :: "node_cache \<Rightarrow> node_cache \<Rightarrow> bool" where
  "same_size s s' \<equiv> tree_block_size (fst s') = tree_block_size (fst s)"

definition admit_post :: "token list \<Rightarrow> node_cache \<Rightarrow> unit result \<times> node_cache \<Rightarrow> bool" where
  "admit_post toks s res \<longleftrightarrow> (case res of (r, s') \<Rightarrow> pool_frame (snd s) (snd s') \<and>
     (case r of
        Inl e \<Rightarrow> (e = MemoryError \<and> node_inv s' \<and> same_size s s') \<or>
                 (e = RuntimeError \<and> (\<exists>b \<in> tree_blocks (fst s). pin_count (snd s) b > 0))
      | Inr _ \<Rightarrow> node_inv s' \<and> same_size s s' \<and> toks \<in> cached (fst s') \<and>
          (\<forall>ts k ids. owns (fst s) ts k ids \<longrightarrow> prefix ts toks \<longrightarrow>
             (\<exists>b \<in> set ids. pin_count (snd s) b > 0) \<longrightarrow> owns (fst s') ts k ids)))"

lemma pinned_alive: "pool_frame p p' \<Longrightarrow> pool_inv p \<Longrightarrow> pin_count p b > 0 \<Longrightarrow> tier_of p' b \<noteq> None"
  using pin_count_allocated[of p b] by (auto simp: pool_frame_def tier_of_def)

lemma demoted_owns:
  "demoted s s' \<Longrightarrow> node_inv s \<Longrightarrow> owns (fst s) ts k ids \<Longrightarrow> \<exists>b \<in> set ids. pin_count (snd s) b > 0 \<Longrightarrow>
   owns (fst s') ts k ids"
  using demotedD(5)[of s s'] pinned_alive[OF demotedD(2)[of s s']]
  unfolding shrinks_def node_inv_def by blast

text \<open>Composing a demotion in front of an admission.\<close>

lemma admit_post_demoted:
  assumes d: "demoted s s1" and inv: "node_inv s" and a: "admit_post toks s1 res"
  shows "admit_post toks s res"
proof -
  obtain r s' where res: "res = (r, s')" by (cases res)
  note D = demotedD[OF d]
  have pins: "pin_count (snd s1) b = pin_count (snd s) b" for b using D(2) by (simp add: pool_frame_def)
  have fr: "pool_frame (snd s) (snd s')"
    using a res pool_frame_trans[OF D(2)] by (simp add: admit_post_def)
  have sub: "tree_blocks (fst s1) \<subseteq> tree_blocks (fst s)" "same_size s s1" using D(5) by (simp_all add: shrinks_def)
  show ?thesis
    using a fr sub demoted_owns[OF d inv] unfolding admit_post_def res
    by (cases r) (auto simp: pins)
qed

lemma admit_slow_post:
  assumes inv: "node_inv s" and ne: "aligned \<noteq> []"
  shows "admit_post aligned s (admit_slow cap now aligned total_blocks s)"
proof (cases "total_blocks > cap")
  case True
  then show ?thesis using inv pool_frame_refl by (auto simp: admit_slow_def admit_post_def node_inv_def)
next
  case False
  let ?need = "min (total_blocks + 1) cap"
  obtain r s1 where m: "make_room (Suc (pool_weight (snd s))) cap ?need now s = (r, s1)" "demoted s s1"
    "case r of Inl e \<Rightarrow> e = MemoryError \<and> demotable (Some (\<lambda>b. pin_count (snd s1) b > 0)) (fst s1) = []
     | Inr _ \<Rightarrow> gpu_used (snd s1) + ?need \<le> cap"
    using make_room_spec[OF inv, of "Suc (pool_weight (snd s))" cap ?need now] by auto
  note D = demotedD[OF m(2)]
  show ?thesis
  proof (cases r)
    case (Inl e)
    have "same_size s s1" using D(5) by (simp add: shrinks_def)
    then show ?thesis using m False D(1,2) Inl
      by (simp add: admit_slow_def admit_post_def py_bind_def del: make_room.simps)
  next
    case (Inr u)
    obtain t1 p1 where s1: "s1 = (t1, p1)" by (cases s1)
    obtain r2 t2 p2 where ins: "tree_insert pool_mint now aligned (t1, p1) = (r2, (t2, p2))"
      by (cases "tree_insert pool_mint now aligned (t1, p1)") auto
    note N = node_insert[OF D(1)[unfolded s1] ne ins]
    have res: "admit_slow cap now aligned total_blocks s =
        (case r2 of Inl e \<Rightarrow> Inl e | Inr _ \<Rightarrow> Inr (), (t2, p2))"
      using m(1) Inr False ins s1
      by (simp add: admit_slow_def py_bind_def py_return_def del: make_room.simps split: sum.splits)
    have "admit_post aligned s1 (admit_slow cap now aligned total_blocks s)"
    proof (cases r2)
      case (Inl e)
      then show ?thesis using N(1-4) res s1 by (simp add: admit_post_def grows_def)
    next
      case (Inr ids)
      have "aligned \<in> cached t2" using N(5)[OF Inr] by (auto simp: holds_def cached_def)
      then show ?thesis using N(1-3) Inr res s1 by (simp add: admit_post_def grows_def)
    qed
    then show ?thesis by (rule admit_post_demoted[OF m(2) inv])
  qed
qed

section \<open>The admission of a prompt\<close>

lemma call_match_path_spec:
  assumes inv: "node_inv (t, p)"
  obtains n ids t' a L where "call_match_path now toks (t, p) = (Inr (n, ids), (t', p))"
    "strip t' = strip t" "demoted (t, p) (t', p)" "tree_wf t L" "n \<le> length toks" "live t a"
    "L a = take n toks" "path_blocks t a ids"
    "\<And>x. live t x \<Longrightarrow> prefix (L x) toks \<Longrightarrow> length (L x) \<le> n"
proof -
  note I = node_invD[OF inv]
  obtain L where wf: "tree_wf t L" using I(1) by (auto simp: tree_ok_def)
  show thesis
  proof (rule match_prefix_path_spec[OF wf, of now toks])
    fix n ids t' a
    assume M: "match_prefix_path now toks t = (Inr (n, ids), t')" "strip t' = strip t" "n \<le> length toks"
      "live t a" "L a = take n toks" "path_blocks t a ids"
      "\<And>x. live t x \<Longrightarrow> prefix (L x) toks \<Longrightarrow> length (L x) \<le> n"
    have sh: "shrinks (tier_of p) t t'" by (rule shrinks_shape[OF M(2) I(1)])
    have "demoted (t, p) (t', p)"
      using node_inv_shrinks[OF inv I(2) refl order_refl sh] pool_frame_refl[OF I(2)] sh
      by (simp add: demoted_def)
    then show thesis
      using M(1) by (intro that[OF _ M(2) _ wf M(3-7)]) (simp_all add: call_match_path_def)
  qed
qed

text \<open>The clean-up of a path with freed blocks, at one node.\<close>

lemma call_purge_path_spec:
  assumes inv: "node_inv (t, p)" and r: "call_purge_path toks (t, p) = (r, (t', p'))"
  shows "pool_frame p p'"
    "r = Inl e \<Longrightarrow> e = RuntimeError \<and> (\<exists>b \<in> tree_blocks t. pin_count p b > 0)"
    "r = Inr k \<Longrightarrow> node_inv (t', p') \<and> shrinks (tier_of p') t t' \<and> dom (block_tier p') \<subseteq> dom (block_tier p)"
proof -
  note I = node_invD[OF inv]
  have K: "keeps (\<lambda>q. pool_frame p q \<and> pool_issued q = pool_issued p) (free bs)" for bs
    unfolding keeps_def
  proof (intro allI impI)
    fix q assume q: "pool_frame p q \<and> pool_issued q = pool_issued p"
    obtain r q' where f: "free bs q = (r, q')" by (cases "free bs q")
    have "pool_issued q' = pool_issued q"
      using f free_Inl[of bs q _ q'] free_Inr(6,7)[of bs q _ q'] by (cases r) (auto simp: pool_issued_def)
    then show "pool_frame p (snd (free bs q)) \<and> pool_issued (snd (free bs q)) = pool_issued p"
      using free_keeps_frame[of p q bs r q'] f q by simp
  qed
  have fr: "pool_frame p p' \<and> pool_issued p' = pool_issued p"
    using purge_path_keeps[where release = free and tier_of = tier_of and toks = toks and s = "(t, p)", OF K]
      pool_frame_refl[OF I(2)] r by (simp add: call_purge_path_def)
  then show "pool_frame p p'" by blast
  have post: "purge_post tier_of pool_held pool_inv t p (r, (t', p'))"
    using pool_sink.purge_path_post[OF I(1,2), of toks] r by (simp add: call_purge_path_def)
  then show "r = Inl e \<Longrightarrow> e = RuntimeError \<and> (\<exists>b \<in> tree_blocks t. pin_count p b > 0)"
    by (auto simp: purge_post_def pool_held_def)
  assume "r = Inr k"
  then have sh: "shrinks (tier_of p') t t'" and
    tl: "tier_of p' = (\<lambda>b. if b \<in> tree_blocks t - tree_blocks t' then None else tier_of p b)"
    using post by (auto simp: purge_post_def)
  have dom: "dom (block_tier p') \<subseteq> dom (block_tier p)"
  proof
    fix b assume "b \<in> dom (block_tier p')"
    then show "b \<in> dom (block_tier p)" using fun_cong[OF tl, of b] unfolding tier_of_def domIff by (metis (full_types))
  qed
  show "node_inv (t', p') \<and> shrinks (tier_of p') t t' \<and> dom (block_tier p') \<subseteq> dom (block_tier p)"
    using node_inv_shrinks[OF inv _ _ dom sh] fr sh dom by (simp add: pool_frame_def)
qed

lemma purged_admit_post:
  assumes inv: "node_inv (t, p)" and r: "call_purge_path toks (t, p) = (Inr k, s1)"
    and a: "admit_post toks s1 res"
  shows "admit_post toks (t, p) res"
proof -
  obtain t1 p1 where s1: "s1 = (t1, p1)" by (cases s1)
  obtain r2 s2 where res: "res = (r2, s2)" by (cases res)
  note P = call_purge_path_spec[OF inv r[unfolded s1]]
  have Q: "node_inv (t1, p1)" "shrinks (tier_of p1) t t1" using P(3) by auto
  have pins: "pin_count p1 b = pin_count p b" for b using P(1) by (simp add: pool_frame_def)
  have fr: "pool_frame p (snd s2)" using a res s1 pool_frame_trans[OF P(1)] by (simp add: admit_post_def)
  have sub: "tree_blocks t1 \<subseteq> tree_blocks t" "tree_block_size t1 = tree_block_size t"
    using Q(2) by (simp_all add: shrinks_def)
  have ow: "owns t1 ts k ids" if "owns t ts k ids" "\<exists>b \<in> set ids. pin_count p b > 0" for ts k ids
    using that Q(2) pinned_alive[OF P(1) node_invD(2)[OF inv]] unfolding shrinks_def by blast
  show ?thesis
    using a fr sub ow unfolding admit_post_def res s1 by (cases r2) (auto simp: pins)
qed

lemma admit_node_post:
  assumes inv: "node_inv s" and bs: "0 < bs" and tot: "0 < length toks div bs"
  defines "aligned \<equiv> take (length toks div bs * bs) toks"
  shows "admit_post aligned s (admit_node bs cap now toks s)"
proof -
  let ?n = "length toks div bs"
  have len: "length aligned = ?n * bs" unfolding aligned_def by (simp add: min_absorb2 div_times_less_eq_dividend)
  then have ne: "aligned \<noteq> []" using bs tot by auto
  obtain t p where s: "s = (t, p)" by (cases s)
  obtain m ids t1 a L where M: "call_match_path now aligned (t, p) = (Inr (m, ids), (t1, p))"
    "strip t1 = strip t" "demoted (t, p) (t1, p)" "tree_wf t L" "m \<le> length aligned" "live t a"
    "L a = take m aligned"
    using call_match_path_spec[OF inv[unfolded s], of now aligned thesis] by blast
  note inv1 = demotedD(1)[OF M(3)]
  have slow: "admit_post aligned s (admit_slow cap now aligned ?n (t1, p))"
    using admit_post_demoted[OF M(3) inv[unfolded s] admit_slow_post[OF inv1 ne]] s by simp
  have hit: "admit_post aligned s (Inr (), (t1, p))" if "?n \<le> m div bs"
  proof -
    have "?n * bs \<le> m" using that bs by (metis mult_le_mono1 div_times_less_eq_dividend le_trans)
    then have "L a = aligned" using M(5,7) len by simp
    then have "aligned \<in> cached t1"
      using M(4,6) cached_labels cached_shape[OF M(2)] by (metis (mono_tags) image_eqI mem_Collect_eq)
    then show ?thesis
      using inv1 demotedD(2)[OF M(3)] owns_shape[OF M(2)] s arg_cong[OF M(2), of tree_block_size]
      by (simp add: admit_post_def)
  qed
  have purge: "admit_post aligned s
      (py_bind (call_purge_path aligned) (\<lambda>_. admit_slow cap now aligned ?n) (t1, p))"
  proof -
    obtain r t2 p2 where P: "call_purge_path aligned (t1, p) = (r, (t2, p2))"
      by (cases "call_purge_path aligned (t1, p)") auto
    note Q = call_purge_path_spec[OF inv1 P]
    have "admit_post aligned (t1, p)
        (py_bind (call_purge_path aligned) (\<lambda>_. admit_slow cap now aligned ?n) (t1, p))"
    proof (cases r)
      case (Inl e)
      then show ?thesis using P Q(1,2) by (simp add: py_bind_def admit_post_def)
    next
      case (Inr k)
      then have "node_inv (t2, p2)" using Q(3) by blast
      from purged_admit_post[OF inv1 P[unfolded Inr] admit_slow_post[OF this ne]] show ?thesis
        using P Inr by (simp add: py_bind_def)
    qed
    then show ?thesis using admit_post_demoted[OF M(3) inv[unfolded s]] s by blast
  qed
  have "admit_node bs cap now toks s =
     (if m div bs \<ge> ?n then
        (if length (tiers_of p (take ?n ids)) = ?n then (Inr (), (t1, p))
         else py_bind (call_purge_path aligned) (\<lambda>_. admit_slow cap now aligned ?n) (t1, p))
      else admit_slow cap now aligned ?n (t1, p))"
    using M(1) tot s unfolding admit_node_def Let_def aligned_def[symmetric] py_bind_def by simp
  then show ?thesis using slow hit purge by simp
qed

end
