(* ===== verification/Block_Tables.thy ===== *)
theory Block_Tables
  imports Admission
begin

text \<open>
  The block tables of active requests on one node: \<open>materialize_request\<close> pins exactly the
  blocks of the table it returns, or pins nothing when it raises. The core is that the
  prefix pinned before the admission is still the beginning of the path afterwards,
  whatever was demoted, purged, split or inserted in between.
\<close>

section \<open>Tier snapshots\<close>

lemma tiers_of_map:
  "distinct (map fst (tiers_of p bs))"
  "map_of (tiers_of p bs) b = (if b \<in> set bs then block_tier p b else None)"
proof -
  let ?f = "\<lambda>b d. case block_tier p b of None \<Rightarrow> d | Some t \<Rightarrow> AList.update b t d"
  have d: "distinct (map fst acc) \<Longrightarrow> distinct (map fst (fold ?f bs acc))" for acc
    by (induction bs arbitrary: acc) (auto simp: distinct_update split: option.splits)
  have m: "map_of (fold ?f bs acc) b = (if b \<in> set bs \<and> block_tier p b \<noteq> None then block_tier p b else map_of acc b)"
    for acc by (induction bs arbitrary: acc) (auto simp: update_conv' split: option.splits)
  show "distinct (map fst (tiers_of p bs))" using d[of "[]"] by (simp add: tiers_of_def)
  show "map_of (tiers_of p bs) b = (if b \<in> set bs then block_tier p b else None)"
    using m[of "[]"] by (auto simp: tiers_of_def)
qed

lemma tiers_of_length: "length (tiers_of p bs) = card {b \<in> set bs. block_tier p b \<noteq> None}"
proof -
  have "fst ` set (tiers_of p bs) = dom (map_of (tiers_of p bs))" by (rule dom_map_of_conv_image_fst[symmetric])
  also have "\<dots> = {b \<in> set bs. block_tier p b \<noteq> None}" by (auto simp: tiers_of_map(2) split: if_splits)
  finally show ?thesis using distinct_card[OF tiers_of_map(1), of p bs] by simp
qed

lemma tiers_of_all:
  assumes "length (tiers_of p bs) = n" "length bs \<le> n"
  shows "length bs = n" "\<forall>b \<in> set bs. block_tier p b \<noteq> None"
proof -
  let ?A = "{b \<in> set bs. block_tier p b \<noteq> None}"
  have "card ?A \<le> card (set bs)" by (intro card_mono) auto
  then have c: "card ?A = n" "card (set bs) = n" "length bs = n"
    using assms card_length[of bs] by (simp_all add: tiers_of_length)
  then have "?A = set bs" by (intro card_subset_eq) auto
  then show "length bs = n" "\<forall>b \<in> set bs. block_tier p b \<noteq> None" using c(3) by blast+
qed

section \<open>Paths by labels\<close>

inductive path_ids :: "radix_tree \<Rightarrow> token list \<Rightarrow> bid list \<Rightarrow> bool" for t where
  pi_root: "path_ids t [] []"
| pi_step: "path_ids t ts ids \<Longrightarrow> k \<noteq> [] \<Longrightarrow> owns t (ts @ k) k bids \<Longrightarrow> path_ids t (ts @ k) (ids @ bids)"

inductive_cases path_ids_nilE: "path_ids t [] ids"

lemma path_ids_nil: "path_ids t [] ids \<Longrightarrow> ids = []"
  by (erule path_ids_nilE) auto

lemma path_blocks_ids:
  assumes wf: "tree_wf t L" and pb: "path_blocks t a ids"
  shows "path_ids t (L a) ids"
  using pb
proof (induction rule: path_blocks.induct)
  case pb_root
  then show ?case using tree_wfD(4)[OF wf] by (simp add: path_ids.pi_root)
next
  case (pb_step a ids n tok c cn)
  obtain cn' where c: "registered t c" "heap t c = Some cn'" "key cn' \<noteq> []" "L c = L a @ key cn'"
    using wf_childE[OF wf pb_step.hyps(2-4)] by metis
  then have cn: "cn' = cn" using pb_step.hyps(5) by simp
  have "owns t (L a @ key cn) (key cn) (block_ids cn)"
    using c cn registered_live[OF c(1)] unfolding owns_iff[OF wf] by metis
  then show ?case using path_ids.pi_step[OF pb_step.IH] c cn by metis
qed

lemma label_gap:
  assumes wf: "tree_wf t L" and a: "registered t a" "heap t a = Some n" "L a = ts @ key n"
    and x: "live t x" "prefix (L x) (L a)" "L x \<noteq> L a"
  shows "prefix (L x) ts"
proof -
  obtain p pn where p: "live t p" "heap t p = Some pn" "map_of (children pn) (hd (key n)) = Some a"
    "L a = L p @ key n" "key n \<noteq> []" using wf_registeredE[OF wf a(1)] a(2) by (metis option.inject)
  have Lp: "L p = ts" using p(4) a(3) by simp
  have "length (L x) \<le> length (L p)"
  proof (rule ccontr)
    assume "\<not> length (L x) \<le> length (L p)"
    then have gt: "length (L p) < length (L x)" by simp
    have px: "prefix (L p) (L x)" using prefix_both[of "L p" "L a" "L x"] p(4) x(2) gt by simp
    then have "toward t L p (L x)" using labels_branch[OF wf x(1) p(1)] gt by (metis less_irrefl)
    from toward_child[OF this p(2) toward_parent_step(1)[OF p(2,3,5,4), of "L a"] x(2) gt]
    have "prefix (L a) (L x)" by simp
    then show False using x(2,3) prefix_order.antisym by blast
  qed
  then show ?thesis using prefix_both[of "L x" "L a" ts] x(2) a(3) Lp by simp
qed

lemma owns_nodeE:
  assumes wf: "tree_wf t L" and o: "owns t (ts @ k) k bids" and k: "k \<noteq> []"
  obtains a n where "registered t a" "L a = ts @ k" "heap t a = Some n" "key n = k" "block_ids n = bids"
proof -
  obtain a n where a: "live t a" "L a = ts @ k" "heap t a = Some n" "key n = k" "block_ids n = bids"
    using o owns_iff[OF wf] by metis
  then have "a \<noteq> root_addr" using k tree_wfD(4)[OF wf] by (metis append_is_Nil_conv)
  then show thesis using that a by (auto simp: live_def)
qed

lemma path_ids_prefix:
  assumes wf: "tree_wf t L"
  shows "path_ids t toks path \<Longrightarrow> path_ids t ts ids \<Longrightarrow> prefix ts toks \<Longrightarrow> prefix ids path"
proof (induction "length toks" arbitrary: toks path ts ids rule: less_induct)
  case less
  show ?case
  proof (cases "ts = []")
    case True
    then show ?thesis using path_ids_nil[of t ids] less.prems(2) by simp
  next
    case False
    from less.prems(2) False obtain ts2 k2 ids2 bids2 where s: "ts = ts2 @ k2" "ids = ids2 @ bids2"
      "path_ids t ts2 ids2" "k2 \<noteq> []" "owns t ts k2 bids2" by cases auto
    have "toks \<noteq> []" using False less.prems(3) by auto
    with less.prems(1) obtain ts1 k ids1 bids where q: "toks = ts1 @ k" "path = ids1 @ bids"
      "path_ids t ts1 ids1" "k \<noteq> []" "owns t toks k bids" by cases auto
    have l1: "length ts1 < length toks" using q(1,4) by simp
    obtain a n where a: "registered t a" "L a = toks" "heap t a = Some n" "key n = k" "block_ids n = bids"
      using owns_nodeE[OF wf q(5)[unfolded q(1)] q(4)] q(1) by metis
    obtain x m where x: "registered t x" "L x = ts" "heap t x = Some m" "key m = k2" "block_ids m = bids2"
      using owns_nodeE[OF wf s(5)[unfolded s(1)] s(4)] s(1) by metis
    show ?thesis
    proof (cases "ts = toks")
      case True
      then have kb: "k2 = k" "bids2 = bids"
        using owns_label[OF wf registered_live[OF a(1)] a(3), of k2 bids2] s(5) a by auto
      then have "ts2 = ts1" using True s(1) q(1) by simp
      then have "prefix ids2 ids1" "prefix ids1 ids2"
        using less.hyps[OF l1 q(3) _ prefix_order.refl] less.hyps[of ts2 ids2 ts1 ids1] s(3) q(3) l1 by auto
      then show ?thesis using s(2) q(2) kb prefix_order.antisym by blast
    next
      case ne: False
      have "prefix ts ts1"
        using label_gap[OF wf a(1,3) _ registered_live[OF x(1)]] a(2,4) q(1) x(2) ne less.prems(3) by simp
      from less.hyps[OF l1 q(3) less.prems(2) this] show ?thesis using q(2) by (simp add: prefix_prefix)
    qed
  qed
qed

text \<open>
  If a change keeps every node on the way to \<open>toks\<close> that has a block satisfying \<open>P\<close>, the
  beginning of a path whose blocks all satisfy \<open>P\<close> survives it.
\<close>

lemma path_ids_survives:
  assumes wf: "tree_wf t L"
    and pres: "\<And>ts k ids. owns t ts k ids \<Longrightarrow> prefix ts toks \<Longrightarrow> \<exists>b \<in> set ids. P b \<Longrightarrow> owns t' ts k ids"
  shows "path_ids t ts ids \<Longrightarrow> prefix ts toks \<Longrightarrow> \<forall>b \<in> set ids. P b \<Longrightarrow> path_ids t' ts ids"
proof (induction rule: path_ids.induct)
  case (pi_step ts ids k bids)
  obtain a n where a: "registered t a" "heap t a = Some n" "block_ids n = bids"
    using owns_nodeE[OF wf pi_step.hyps(3,2)] by metis
  then have "bids \<noteq> []" using wf_block_ids_nonempty[OF wf] by blast
  then have "owns t' (ts @ k) k bids" using pres[OF pi_step.hyps(3)] pi_step.prems by (cases bids) auto
  moreover have "path_ids t' ts ids" using pi_step.IH pi_step.prems append_prefixD[of ts k toks] by auto
  ultimately show ?case using pi_step.hyps(2) by (auto intro: path_ids.pi_step)
qed (rule path_ids.pi_root)

lemma path_start_survives:
  assumes wf: "tree_wf t L"
    and pres: "\<And>ts k ids. owns t ts k ids \<Longrightarrow> prefix ts toks \<Longrightarrow> \<exists>b \<in> set ids. P b \<Longrightarrow> owns t' ts k ids"
  shows "path_ids t ts ids \<Longrightarrow> prefix ts toks \<Longrightarrow> n \<le> length ids \<Longrightarrow> \<forall>b \<in> set (take n ids). P b \<Longrightarrow>
    \<exists>ts' ids'. prefix ts' toks \<and> path_ids t' ts' ids' \<and> n \<le> length ids' \<and> take n ids' = take n ids"
proof (induction rule: path_ids.induct)
  case pi_root
  then show ?case by (intro exI[of _ "[]"]) (auto intro: path_ids.pi_root)
next
  case (pi_step ts ids k bids)
  have ts: "prefix ts toks" using pi_step.prems(1) append_prefixD by blast
  show ?case
  proof (cases "n \<le> length ids")
    case True
    then show ?thesis using pi_step.IH[OF ts True] pi_step.prems(3) by simp
  next
    case False
    then have all: "\<forall>b \<in> set ids. P b" and some: "\<exists>b \<in> set bids. P b"
      using pi_step.prems(2,3) by (auto simp: take_Cons' split: if_splits) (cases bids; auto simp: take_Cons')+
    have "path_ids t' ts ids" by (rule path_ids_survives[OF wf pres pi_step.hyps(1) ts all])
    moreover have "owns t' (ts @ k) k bids" by (rule pres[OF pi_step.hyps(3) pi_step.prems(1) some])
    ultimately have "path_ids t' (ts @ k) (ids @ bids)" using pi_step.hyps(2) by (auto intro: path_ids.pi_step)
    then show ?thesis using pi_step.prems by blast
  qed
qed

section \<open>Pinning and unpinning\<close>

text \<open>\<open>p'\<close> is \<open>p\<close> with the pin counts of the blocks \<open>A\<close> changed by \<open>d\<close>.\<close>

definition repinned :: "block_pool \<Rightarrow> bid set \<Rightarrow> int \<Rightarrow> block_pool \<Rightarrow> bool" where
  "repinned p A d p' \<longleftrightarrow> pool_inv p' \<and> block_tier p' = block_tier p \<and> tiers p' = tiers p \<and>
     pool_issued p' = pool_issued p \<and> (\<forall>b. pin_count p' b = pin_count p b + (if b \<in> A then d else 0))"

lemma fold_bump_repinned:
  "pool_inv (fold (bump d) bs p) \<Longrightarrow> distinct bs \<Longrightarrow> repinned p (set bs) d (fold (bump d) bs p)"
  by (simp add: repinned_def pool_issued_def count_list_distinct)

lemma retain_blocks_spec:
  assumes inv: "pool_inv p" and b: "distinct bids" "\<forall>b \<in> set bids. block_tier p b \<noteq> None"
  obtains p' where "retain_blocks bids (t, p) = (Inr (), (t, p'))" "repinned p (set bids) 1 p'"
proof -
  have pin: "pin bids p = (Inr (), fold (bump 1) bids p)" using b(2) by (auto simp: pin_def)
  have "repinned p (set bids) 1 (fold (bump 1) bids p)"
    using fold_bump_repinned[OF pin_inv[OF inv pin] b(1)] .
  moreover have "retain_blocks bids (t, p) = (Inr (), (t, fold (bump 1) bids p))"
    using pin by (auto simp: retain_blocks_def)
  ultimately show ?thesis using that by blast
qed

lemma release_blocks_spec:
  assumes inv: "pool_inv p" and b: "distinct bids" "\<forall>b \<in> set bids. pin_count p b > 0"
  obtains p' where "release_blocks bids (t, p) = (Inr (), (t, p'))" "repinned p (set bids) (- 1) p'"
proof -
  have "\<forall>b \<in> set bids. block_tier p b \<noteq> None \<and> 0 < pin_count p b \<and> 0 < ref_count p b"
    using b(2) pin_count_allocated[OF inv] ref_count_pin_count[OF inv] by simp
  then have un: "unpin bids p = (Inr (), fold (bump (- 1)) bids p)"
    using unpin_check_Inr[of p bids "()"] by (simp add: unpin_def)
  have "repinned p (set bids) (- 1) (fold (bump (- 1)) bids p)"
    using fold_bump_repinned[OF unpin_inv[OF inv b(1) un] b(1)] .
  moreover have "release_blocks bids (t, p) = (Inr (), (t, fold (bump (- 1)) bids p))"
    using un by (auto simp: release_blocks_def)
  ultimately show ?thesis using that by blast
qed

lemma repinned_node_inv: "repinned p A d p' \<Longrightarrow> node_inv (t, p) \<Longrightarrow> node_inv (t, p')"
  by (simp add: repinned_def node_inv_def)

text \<open>Pin, change nothing pinned, unpin: together they change nothing pinned.\<close>

lemma repinned_frame_repinned:
  assumes "pool_inv p" "repinned p A 1 p1" "pool_frame p1 p2" "repinned p2 A (- 1) p3"
  shows "pool_frame p p3"
  using assms pin_count_nonneg[OF assms(1)]
  by (auto simp: repinned_def pool_frame_def)

section \<open>Materialising a block table\<close>

text \<open>
  The outcome: either a list of \<open>total\<close> distinct allocated blocks, each pinned once more than
  before and no other block's pin count changed, or an exception and no pin changed at all.
\<close>

definition table_post :: "nat \<Rightarrow> node_cache \<Rightarrow> (bid list \<times> nat) result \<times> node_cache \<Rightarrow> bool" where
  "table_post total_blocks s res \<longleftrightarrow> (case res of (r, s') \<Rightarrow>
     (\<forall>b. pin_count (snd s) b > 0 \<longrightarrow> block_tier (snd s') b = block_tier (snd s) b) \<and> pool_inv (snd s') \<and>
     (\<forall>t. map_option tier_capacity (tiers (snd s') t) = map_option tier_capacity (tiers (snd s) t)) \<and>
     (case r of
        Inl e \<Rightarrow> (\<forall>b. pin_count (snd s') b = pin_count (snd s) b) \<and>
          (e = MemoryError \<and> node_inv s' \<and> same_size s s' \<or> e = RuntimeError)
      | Inr (ids, m) \<Rightarrow> node_inv s' \<and> same_size s s' \<and> length ids = total_blocks \<and> distinct ids \<and> m \<le> total_blocks \<and>
          (\<forall>b \<in> set ids. block_tier (snd s') b \<noteq> None) \<and>
          (\<forall>b. pin_count (snd s') b = pin_count (snd s) b + (if b \<in> set ids then 1 else 0))))"

lemma path_blocks_length:
  assumes "tree_wf t L" "path_blocks t a ids" "tree_block_size t = bs" "length (L a) = m"
  shows "m div bs \<le> length ids"
  using path_blocks_facts(3)[OF assms(1,2)] assms(3,4)
  by (metis div_le_mono div_mult_self_is_m tree_wfD(1)[OF assms(1)])

lemma live_prefix_spec:
  assumes inv: "node_inv (t, p)" and bs: "tree_block_size t = bs"
  obtains pre t' ts path n where "live_prefix_block_ids bs now toks total_blocks (t, p) = (Inr pre, (t', p))"
    "demoted (t, p) (t', p)" "strip t' = strip t" "path_ids t' ts path" "prefix ts toks"
    "pre = take n path" "n \<le> length path" "n \<le> total_blocks" "distinct pre"
    "\<forall>b \<in> set pre. block_tier p b \<noteq> None"
proof (rule call_match_path_spec[OF inv, of now toks])
  fix m path t' a L
  assume M: "call_match_path now toks (t, p) = (Inr (m, path), (t', p))" "strip t' = strip t"
    "demoted (t, p) (t', p)" "tree_wf t L" "m \<le> length toks" "live t a" "L a = take m toks"
    "path_blocks t a path"
  let ?k = "min (m div bs) total_blocks"
  let ?pre = "takeWhile (\<lambda>b. tier_of p b \<noteq> None) (take ?k path)"
  have k: "length ?pre \<le> ?k"
    by (rule order_trans[OF length_takeWhile_le]) (unfold length_take, rule min.cobounded2)
  have l: "length ?pre \<le> length path" by (rule order_trans[OF length_takeWhile_le]) simp
  have "?pre = take (length ?pre) (take ?k path)" by (rule takeWhile_eq_take)
  then have tw: "?pre = take (length ?pre) path" using k by (simp add: min_absorb1)
  have "path_ids t' (L a) path"
  proof -
    have "path_ids t (L a) path" by (rule path_blocks_ids[OF M(4,8)])
    then show ?thesis
      by (induction rule: path_ids.induct) (auto intro: path_ids.intros simp: owns_shape[OF M(2)])
  qed
  moreover have "distinct ?pre"
    using path_blocks_facts(2)[OF M(4,8)] tw by (metis distinct_take)
  moreover have "\<forall>b \<in> set ?pre. block_tier p b \<noteq> None" by (auto simp: tier_of_def dest: set_takeWhileD)
  moreover have "prefix (L a) toks" using M(7) by (simp add: take_is_prefix)
  moreover have "live_prefix_block_ids bs now toks total_blocks (t, p) = (Inr ?pre, (t', p))"
    using M(1) by (simp add: live_prefix_block_ids_def py_bind_def)
  ultimately show thesis using that[OF _ M(3,2) _ _ tw l] k by simp
qed

text \<open>After the admission: the path of the prompt starts with what was pinned before.\<close>

lemma pinned_prefix_survives:
  assumes wf: "tree_wf t L" and wf': "tree_wf t' L'"
    and pre: "path_ids t ts path" "prefix ts toks" "n \<le> length path" "n \<le> k"
      "\<forall>b \<in> set (take n path). P b"
    and pres: "\<And>ts k ids. owns t ts k ids \<Longrightarrow> prefix ts toks \<Longrightarrow> \<exists>b \<in> set ids. P b \<Longrightarrow> owns t' ts k ids"
    and path': "path_ids t' toks path'"
  shows "set (take n path) \<subseteq> set (take k path')"
proof -
  obtain ts' ids' where s: "prefix ts' toks" "path_ids t' ts' ids'" "n \<le> length ids'" "take n ids' = take n path"
    using path_start_survives[OF wf pres pre(1-3,5)] by blast
  have "prefix ids' path'" by (rule path_ids_prefix[OF wf' path' s(2,1)])
  then have "take n path' = take n path" using s(3,4) by (auto simp: prefix_def)
  then show ?thesis using pre(4) by (metis set_take_subset_set_take)
qed

text \<open>The second match and the checks: with the prompt cached, they only fail on freed blocks.\<close>

lemma materialize_rest_post:
  assumes inv: "node_inv (t, p)" and bs: "tree_block_size t = bs" "0 < bs"
    and al: "length aligned = total_blocks * bs" "0 < total_blocks"
    and pre: "path_ids t ts path" "prefix ts aligned" "n \<le> length path" "n \<le> total_blocks"
      "\<forall>b \<in> set (take n path). pin_count p b > 0"
    and r: "materialize_rest bs cap now aligned total_blocks (take n path) (t, p) = (r, s')"
  shows "(case r of Inl e \<Rightarrow> pool_frame p (snd s') \<and> (e = MemoryError \<and> node_inv s' \<and> same_size (t, p) s' \<or> e = RuntimeError)
     | Inr ids \<Rightarrow> node_inv s' \<and> same_size (t, p) s' \<and> length ids = total_blocks \<and> distinct ids \<and> set (take n path) \<subseteq> set ids \<and>
         (\<exists>p2. pool_frame p p2 \<and> repinned p2 (set ids - set (take n path)) 1 (snd s') \<and>
           (\<forall>b \<in> set ids. block_tier p2 b \<noteq> None)))"
proof -
  have div: "length aligned div bs = total_blocks" "take (total_blocks * bs) aligned = aligned"
    using al bs(2) by simp_all
  obtain r1 s1 where A: "(if length (take n path) < total_blocks then admit_node bs cap now aligned else py_return ())
      (t, p) = (r1, s1)" by (cases "(if length (take n path) < total_blocks then admit_node bs cap now aligned
      else py_return ()) (t, p)") auto
  have post: "pool_frame p (snd s1) \<and> (case r1 of
        Inl e \<Rightarrow> e = MemoryError \<and> node_inv s1 \<and> same_size (t, p) s1 \<or> e = RuntimeError
      | Inr _ \<Rightarrow> node_inv s1 \<and> same_size (t, p) s1 \<and> (\<forall>ts k ids. owns t ts k ids \<longrightarrow> prefix ts aligned \<longrightarrow>
             (\<exists>b \<in> set ids. pin_count p b > 0) \<longrightarrow> owns (fst s1) ts k ids))"
  proof (cases "length (take n path) < total_blocks")
    case True
    have "admit_post aligned (t, p) (admit_node bs cap now aligned (t, p))"
      using admit_node_post[OF inv bs(2), of aligned cap now] div al(2) by simp
    then show ?thesis using A True by (cases r1) (auto simp: admit_post_def)
  next
    case False
    then show ?thesis using A inv pool_frame_refl[OF node_invD(2)[OF inv]] by (auto simp: py_return_def)
  qed
  show ?thesis
  proof (cases r1)
    case (Inl e)
    then have "r = Inl e" "s' = s1"
      using r A unfolding materialize_rest_def py_bind_def by (auto split: if_splits)
    then show ?thesis using post Inl by simp
  next
    case (Inr u)
    obtain t1 p1 where s1: "s1 = (t1, p1)" by (cases s1)
    have inv1: "node_inv (t1, p1)" "tree_block_size t1 = tree_block_size t" and fr: "pool_frame p p1" and ow: "\<And>ts k ids. owns t ts k ids \<Longrightarrow>
        prefix ts aligned \<Longrightarrow> \<exists>b \<in> set ids. pin_count p b > 0 \<Longrightarrow> owns t1 ts k ids"
      using post Inr s1 by auto
    show ?thesis
    proof (rule call_match_path_spec[OF inv1(1), of now aligned])
      fix m path1 t2 a L1
      assume M: "call_match_path now aligned (t1, p1) = (Inr (m, path1), (t2, p1))" "strip t2 = strip t1"
        "demoted (t1, p1) (t2, p1)" "tree_wf t1 L1" "m \<le> length aligned" "live t1 a"
        "L1 a = take m aligned" "path_blocks t1 a path1"
      let ?bids = "take total_blocks path1"
      have rest: "(r, s') = (if m div bs < total_blocks then (Inl MemoryError, (t2, p1))
          else if length (tiers_of p1 ?bids) \<noteq> total_blocks then (Inl MemoryError, (t2, p1))
          else py_bind (retain_blocks (filter (\<lambda>b. b \<notin> set (take n path)) ?bids)) (\<lambda>_. py_return ?bids) (t2, p1))"
        using r A Inr M(1) s1 unfolding materialize_rest_def py_bind_def
        by (auto simp: Let_def py_return_def split: if_splits prod.splits sum.splits)
      have inv2: "node_inv (t2, p1)" by (rule demotedD(1)[OF M(3)])
      have sz: "tree_block_size t2 = tree_block_size t"
        using arg_cong[OF M(2), of tree_block_size] inv1(2) by simp
      show ?thesis
      proof (cases "m div bs < total_blocks \<or> length (tiers_of p1 ?bids) \<noteq> total_blocks")
        case True
        then have "r = Inl MemoryError" "s' = (t2, p1)" using rest by (auto split: if_splits)
        then show ?thesis using fr inv2 sz by simp
      next
        case False
        then have ge: "total_blocks \<le> m div bs" and live: "length (tiers_of p1 ?bids) = total_blocks" by auto
        have "total_blocks * bs \<le> m" using ge by (metis mult_le_mono1 div_times_less_eq_dividend le_trans)
        then have "L1 a = aligned" using M(5,7) al(1) by simp
        then have p1: "path_ids t1 aligned path1" using path_blocks_ids[OF M(4,8)] by simp
        obtain L where wf: "tree_wf t L" using node_invD(1)[OF inv] by (auto simp: tree_ok_def)
        have sub: "set (take n path) \<subseteq> set ?bids"
          by (rule pinned_prefix_survives[OF wf M(4) pre ow p1])
        have dist: "distinct ?bids" using path_blocks_facts(2)[OF M(4,8)] by simp
        note T = tiers_of_all[OF live, simplified]
        let ?new = "filter (\<lambda>b. b \<notin> set (take n path)) ?bids"
        have new: "distinct ?new" "\<forall>b \<in> set ?new. block_tier p1 b \<noteq> None" using dist T(2) by auto
        obtain p3 where R: "retain_blocks ?new (t2, p1) = (Inr (), (t2, p3))" "repinned p1 (set ?new) 1 p3"
          using retain_blocks_spec[OF node_invD(2)[OF inv2] new] by metis
        have "set ?new = set ?bids - set (take n path)" by auto
        moreover have "r = Inr ?bids" "s' = (t2, p3)"
          using rest False R(1) by (auto simp: py_bind_def py_return_def)
        moreover have "length ?bids = total_blocks" using T(1) by simp
        ultimately show ?thesis
          using repinned_node_inv[OF R(2) inv2] sz dist sub fr R(2) T(2) by auto
      qed
    qed
  qed
qed

lemma repinned_split:
  assumes "pool_inv p" "repinned p A 1 p1" "pool_frame p1 p2" "A \<subseteq> B" "repinned p2 (B - A) 1 p3"
  shows "\<forall>b. pin_count p3 b = pin_count p b + (if b \<in> B then 1 else 0)"
    "\<forall>b. pin_count p b > 0 \<longrightarrow> block_tier p3 b = block_tier p b"
    "\<forall>t. map_option tier_capacity (tiers p3 t) = map_option tier_capacity (tiers p t)"
  using assms by (auto simp: repinned_def pool_frame_def)

lemma materialize_node_post:
  assumes inv: "node_inv (t, p)" and bs: "tree_block_size t = bs" "0 < bs"
    and al: "length aligned = total_blocks * bs" "0 < total_blocks"
  shows "table_post total_blocks (t, p) (materialize_node bs cap now aligned total_blocks (t, p))"
proof (rule live_prefix_spec[OF inv bs(1), of now aligned total_blocks])
  fix pre t1 ts path n
  assume P: "live_prefix_block_ids bs now aligned total_blocks (t, p) = (Inr pre, (t1, p))"
    "demoted (t, p) (t1, p)" "strip t1 = strip t" "path_ids t1 ts path" "prefix ts aligned"
    "pre = take n path" "n \<le> length path" "n \<le> total_blocks" "distinct pre"
    "\<forall>b \<in> set pre. block_tier p b \<noteq> None"
  have pinv: "pool_inv p" by (rule node_invD(2)[OF inv])
  obtain p1 where R: "retain_blocks pre (t1, p) = (Inr (), (t1, p1))" "repinned p (set pre) 1 p1"
    using retain_blocks_spec[OF pinv P(9,10)] by metis
  have inv1: "node_inv (t1, p1)" by (rule repinned_node_inv[OF R(2) demotedD(1)[OF P(2)]])
  have bs1: "tree_block_size t1 = bs" using arg_cong[OF P(3), of tree_block_size] bs(1) by simp
  have pins: "\<forall>b \<in> set pre. pin_count p1 b > 0"
    using R(2) pin_count_nonneg[OF pinv] by (auto simp: repinned_def add.commute add_pos_nonneg)
  obtain r s2 where M: "materialize_rest bs cap now aligned total_blocks pre (t1, p1) = (r, s2)"
    by (cases "materialize_rest bs cap now aligned total_blocks pre (t1, p1)")
  have post: "(case r of Inl e \<Rightarrow> pool_frame p1 (snd s2) \<and> (e = MemoryError \<and> node_inv s2 \<and> same_size (t1, p1) s2 \<or> e = RuntimeError)
     | Inr ids \<Rightarrow> node_inv s2 \<and> same_size (t1, p1) s2 \<and> length ids = total_blocks \<and> distinct ids \<and> set pre \<subseteq> set ids \<and>
         (\<exists>p2. pool_frame p1 p2 \<and> repinned p2 (set ids - set pre) 1 (snd s2) \<and>
           (\<forall>b \<in> set ids. block_tier p2 b \<noteq> None)))"
    using materialize_rest_post[OF inv1 bs1 bs(2) al P(4,5,7,8), of cap now r s2] pins M unfolding P(6) by blast
  obtain t2 p2 where s2: "s2 = (t2, p2)" by (cases s2)
  show ?thesis
  proof (cases r)
    case (Inr ids)
    then obtain q where Q: "pool_frame p1 q" "repinned q (set ids - set pre) 1 p2"
      "\<forall>b \<in> set ids. block_tier q b \<noteq> None" "set pre \<subseteq> set ids" "node_inv s2"
      "length ids = total_blocks" "distinct ids" "tree_block_size t2 = tree_block_size t1" using post s2 by auto
    have res: "materialize_node bs cap now aligned total_blocks (t, p) = (Inr (ids, length pre), (t2, p2))"
      using P(1) R(1) M Inr s2 by (simp add: materialize_node_def py_bind_def)
    have "\<forall>b \<in> set ids. block_tier p2 b \<noteq> None" using Q(2,3) by (simp add: repinned_def)
    moreover have "length pre \<le> total_blocks" using P(6,8) by simp
    ultimately show ?thesis
      using res repinned_split[OF pinv R(2) Q(1,4,2)] Q(2,5-8) s2 bs(1) bs1
      unfolding table_post_def by (simp add: repinned_def)
  next
    case (Inl e)
    then have fr: "pool_frame p1 p2" and er: "e = MemoryError \<and> node_inv s2 \<and> tree_block_size t2 = tree_block_size t \<or> e = RuntimeError"
      using post s2 bs(1) bs1 by auto
    have "\<forall>b \<in> set pre. pin_count p2 b > 0" using fr pins by (simp add: pool_frame_def)
    moreover have "pool_inv p2" using fr by (simp add: pool_frame_def)
    ultimately obtain p3 where U: "release_blocks pre (t2, p2) = (Inr (), (t2, p3))" "repinned p2 (set pre) (- 1) p3"
      using release_blocks_spec[OF _ P(9)] by metis
    have res: "materialize_node bs cap now aligned total_blocks (t, p) = (Inl e, (t2, p3))"
      using P(1) R(1) M Inl s2 U(1) by (simp add: materialize_node_def py_bind_def)
    have "pool_frame p p3" by (rule repinned_frame_repinned[OF pinv R(2) fr U(2)])
    then show ?thesis
      using res er repinned_node_inv[OF U(2), of t2] s2 by (auto simp: table_post_def pool_frame_def)
  qed
qed

end
