(* ===== verification/Cache_Manager.thy ===== *)
theory Cache_Manager
  imports Block_Tables
begin

text \<open>
  \<open>CacheManager\<close> of \<open>kv_cache/cache_manager.py\<close>: one radix tree and one block pool per node and
  the block tables of the requests that are active on them. The invariant says that the
  pin count of every block is the number of active tables that contain it; it holds in
  every state the public operations can reach as long as none of them raised
  \<open>RuntimeError\<close>, which the simulator does not survive.
\<close>

section \<open>State\<close>

record cache_manager =
  model_cfg :: model_config
  bw_cfg :: bandwidth_config
  cm_capacity :: "node_id \<rightharpoonup> (tier \<rightharpoonup> nat)"
  pools :: "node_id \<rightharpoonup> block_pool"
  trees :: "(node_id \<times> radix_tree) list"
  block_tables :: "node_id \<times> req_id \<rightharpoonup> request_block_table"

definition cm_init ::
  "node_id list \<Rightarrow> model_config \<Rightarrow> node_config \<Rightarrow> bandwidth_config \<Rightarrow> time \<Rightarrow> (node_id \<Rightarrow> nat \<Rightarrow> bid) \<Rightarrow>
   cache_manager" where
  "cm_init node_ids mc nc bw t0 src =
     \<lparr>model_cfg = mc, bw_cfg = bw,
      cm_capacity = (\<lambda>nid. if nid \<in> set node_ids
        then Some [gpu \<mapsto> gpu_blocks nc, cpu \<mapsto> cpu_blocks nc, disk \<mapsto> disk_blocks nc] else None),
      pools = (\<lambda>nid. if nid \<in> set node_ids then Some (pool_init nc (src nid)) else None),
      trees = fold (\<lambda>nid. AList.update nid (tree_init (block_size mc) t0)) node_ids [],
      block_tables = Map.empty\<rparr>"

text \<open>An operation on the tree and the pool of one node; an unknown node is a \<open>KeyError\<close>.\<close>

definition on_node :: "node_id \<Rightarrow> (node_cache, 'a) py \<Rightarrow> (cache_manager, 'a) py" where
  "on_node nid m s =
     (case map_of (trees s) nid of None \<Rightarrow> (Inl KeyError, s) | Some t \<Rightarrow>
      (case pools s nid of None \<Rightarrow> (Inl KeyError, s) | Some p \<Rightarrow>
        (case m (t, p) of (r, (t', p')) \<Rightarrow>
          (r, s\<lparr>trees := AList.update nid t' (trees s), pools := (pools s)(nid \<mapsto> p')\<rparr>))))"

definition gpu_capacity :: "cache_manager \<Rightarrow> node_id \<Rightarrow> nat" where
  "gpu_capacity s nid = (case cm_capacity s nid of None \<Rightarrow> 0
     | Some c \<Rightarrow> (case c gpu of None \<Rightarrow> 0 | Some n \<Rightarrow> n))"

section \<open>Read operations\<close>

definition lookup :: "time \<Rightarrow> request \<Rightarrow> node_id \<Rightarrow> (cache_manager, cache_lookup) py" where
  "lookup now req nid s = on_node nid (lookup_node (model_cfg s) (bw_cfg s) now (token_ids req)) s"

fun lookup_each :: "time \<Rightarrow> request \<Rightarrow> node_id list \<Rightarrow> (cache_manager, (node_id \<times> cache_lookup) list) py" where
  "lookup_each now req [] s = (Inr [], s)"
| "lookup_each now req (nid # nids) s =
     py_bind (lookup now req nid) (\<lambda>c. py_bind (lookup_each now req nids) (\<lambda>cs. py_return ((nid, c) # cs))) s"

definition lookup_all :: "time \<Rightarrow> request \<Rightarrow> (cache_manager, (node_id \<times> cache_lookup) list) py" where
  "lookup_all now req s = lookup_each now req (map fst (trees s)) s"

definition free_blocks :: "node_id \<Rightarrow> tier \<Rightarrow> cache_manager \<Rightarrow> int result" where
  "free_blocks nid tr s =
     (case pools s nid of None \<Rightarrow> Inl KeyError | Some p \<Rightarrow>
      (case tiers p tr of None \<Rightarrow> Inl KeyError | Some st \<Rightarrow> Inr (tier_free st)))"

section \<open>Write operations\<close>

definition admit :: "time \<Rightarrow> token list \<Rightarrow> node_id \<Rightarrow> (cache_manager, unit) py" where
  "admit now toks nid s =
     on_node nid (admit_node (block_size (model_cfg s)) (gpu_capacity s nid) now toks) s"

definition materialize_request ::
  "time \<Rightarrow> req_id \<Rightarrow> token list \<Rightarrow> node_id \<Rightarrow> (cache_manager, request_block_table) py" where
  "materialize_request now rid toks nid s =
     (if map_of (trees s) nid = None then (Inl KeyError, s)
      else if block_tables s (nid, rid) \<noteq> None then (Inl ValueError, s)
      else case aligned_tokens (block_size (model_cfg s)) toks of (aligned, total_blocks) \<Rightarrow>
        if total_blocks = 0 then
          (let tb = \<lparr>bt_request_id = rid, bt_node_id = nid, bt_block_ids = [], matched_blocks = 0, new_blocks = 0\<rparr>
           in (Inr tb, s\<lparr>block_tables := (block_tables s)((nid, rid) \<mapsto> tb)\<rparr>))
        else
          (case on_node nid (materialize_node (block_size (model_cfg s)) (gpu_capacity s nid) now aligned total_blocks) s of
             (Inl e, s') \<Rightarrow> (Inl e, s')
           | (Inr (bids, matched), s') \<Rightarrow>
               (let tb = \<lparr>bt_request_id = rid, bt_node_id = nid, bt_block_ids = bids, matched_blocks = matched,
                          new_blocks = total_blocks - matched\<rparr>
                in (Inr tb, s'\<lparr>block_tables := (block_tables s')((nid, rid) \<mapsto> tb)\<rparr>))))"

definition release_request :: "req_id \<Rightarrow> node_id \<Rightarrow> (cache_manager, unit) py" where
  "release_request rid nid s =
     (if map_of (trees s) nid = None then (Inl KeyError, s)
      else case block_tables s (nid, rid) of None \<Rightarrow> (Inl KeyError, s)
      | Some tb \<Rightarrow> on_node nid (release_blocks (bt_block_ids tb))
                     (s\<lparr>block_tables := (block_tables s)((nid, rid) := None)\<rparr>))"

section \<open>The invariant\<close>

definition holders :: "cache_manager \<Rightarrow> node_id \<Rightarrow> bid \<Rightarrow> req_id set" where
  "holders s nid b = {rid. \<exists>tb. block_tables s (nid, rid) = Some tb \<and> b \<in> set (bt_block_ids tb)}"

definition node_ready :: "cache_manager \<Rightarrow> node_id \<Rightarrow> radix_tree \<Rightarrow> block_pool \<Rightarrow> bool" where
  "node_ready s nid t p \<longleftrightarrow> node_inv (t, p) \<and> tree_block_size t = block_size (model_cfg s) \<and>
     (\<forall>b. pin_count p b = int (card (holders s nid b)))"

definition cm_inv :: "cache_manager \<Rightarrow> bool" where
  "cm_inv s \<longleftrightarrow> 0 < block_size (model_cfg s) \<and> finite (dom (block_tables s)) \<and>
     (\<forall>nid. map_of (trees s) nid = None \<longleftrightarrow> pools s nid = None) \<and>
     (\<forall>nid t p. map_of (trees s) nid = Some t \<longrightarrow> pools s nid = Some p \<longrightarrow> node_ready s nid t p) \<and>
     (\<forall>nid rid tb. block_tables s (nid, rid) = Some tb \<longrightarrow>
        map_of (trees s) nid \<noteq> None \<and> distinct (bt_block_ids tb))"

lemma cm_invD:
  assumes "cm_inv s"
  shows "0 < block_size (model_cfg s)" "finite (dom (block_tables s))"
    "map_of (trees s) nid = None \<longleftrightarrow> pools s nid = None"
    "map_of (trees s) nid = Some t \<Longrightarrow> pools s nid = Some p \<Longrightarrow> node_ready s nid t p"
    "block_tables s (nid, rid) = Some tb \<Longrightarrow> map_of (trees s) nid \<noteq> None"
    "block_tables s (nid, rid) = Some tb \<Longrightarrow> distinct (bt_block_ids tb)"
  using assms unfolding cm_inv_def by blast+

lemma cm_nodeE:
  assumes "cm_inv s" "map_of (trees s) nid \<noteq> None"
  obtains t p where "map_of (trees s) nid = Some t" "pools s nid = Some p" "node_ready s nid t p"
  using cm_invD(3,4)[OF assms(1), of nid] assms(2) by (metis option.exhaust)

lemma finite_holders: "cm_inv s \<Longrightarrow> finite (holders s nid b)"
  by (rule finite_subset[of _ "snd ` dom (block_tables s)"]) (force simp: holders_def dest: cm_invD(2))+

lemma cm_init_trees:
  "map_of (trees (cm_init ns mc nc bw t0 src)) n = (if n \<in> set ns then Some (tree_init (block_size mc) t0) else None)"
proof -
  have "map_of (fold (\<lambda>nid. AList.update nid x) ns acc) n = (if n \<in> set ns then Some x else map_of acc n)"
    for x :: radix_tree and acc
    by (induction ns arbitrary: acc) (auto simp: update_conv')
  then show ?thesis by (simp add: cm_init_def)
qed

lemma cm_init_inv:
  assumes "model_config_ok mc" "\<And>nid. inj (src nid)"
  shows "cm_inv (cm_init node_ids mc nc bw t0 src)"
proof -
  let ?s = "cm_init node_ids mc nc bw t0 src"
  note mt = cm_init_trees[of node_ids mc nc bw t0 src]
  have "tree_block_size (tree_init (block_size mc) t0) = block_size mc"
    using assms(1) by (simp add: tree_init_def model_config_ok_def max_def)
  moreover have "pin_count (pool_init nc (src nid)) b = 0" for nid b by (simp add: pin_count_def pool_init_def)
  ultimately have "node_ready ?s nid t p" if "map_of (trees ?s) nid = Some t" "pools ?s nid = Some p" for nid t p
    using that node_inv_init[OF assms(2)] unfolding mt
    by (auto simp: cm_init_def node_ready_def holders_def split: if_splits)
  moreover have "0 < block_size (model_cfg ?s)" using assms(1) by (simp add: cm_init_def model_config_ok_def)
  ultimately show ?thesis unfolding cm_inv_def mt by (auto simp: cm_init_def)
qed

text \<open>Running an operation on one node and putting its result back.\<close>

lemma on_node_run:
  assumes "map_of (trees s) nid = Some t" "pools s nid = Some p"
  shows "on_node nid m s = (case m (t, p) of (r, (t', p')) \<Rightarrow>
    (r, s\<lparr>trees := AList.update nid t' (trees s), pools := (pools s)(nid \<mapsto> p')\<rparr>))"
  using assms by (simp add: on_node_def)

lemma holders_other [simp]: "holders (s\<lparr>trees := x, pools := y\<rparr>) = holders s"
  by (simp add: holders_def fun_eq_iff)

lemma cm_inv_update:
  assumes inv: "cm_inv s" and n: "map_of (trees s) nid = Some t"
    and inv': "node_inv (t', p')" "tree_block_size t' = block_size (model_cfg s)"
    and bt: "finite (dom bt)" "\<And>n' r. n' \<noteq> nid \<Longrightarrow> bt (n', r) = block_tables s (n', r)"
      "\<And>r tb. bt (nid, r) = Some tb \<Longrightarrow> distinct (bt_block_ids tb)"
    and pins: "\<And>b. pin_count p' b = int (card {rid. \<exists>tb. bt (nid, rid) = Some tb \<and> b \<in> set (bt_block_ids tb)})"
  shows "cm_inv (s\<lparr>trees := AList.update nid t' (trees s), pools := (pools s)(nid \<mapsto> p'), block_tables := bt\<rparr>)"
proof -
  let ?s = "s\<lparr>trees := AList.update nid t' (trees s), pools := (pools s)(nid \<mapsto> p'), block_tables := bt\<rparr>"
  note I = cm_invD[OF inv]
  have h: "holders ?s n' b = holders s n' b" if "n' \<noteq> nid" for n' b using bt(2)[OF that] by (simp add: holders_def)
  have "node_ready ?s n' t0 p0" if "map_of (trees ?s) n' = Some t0" "pools ?s n' = Some p0" for n' t0 p0
  proof (cases "n' = nid")
    case True
    then show ?thesis using that inv' pins by (auto simp: node_ready_def holders_def update_conv')
  next
    case False
    then show ?thesis using that I(4)[of n' t0 p0] h[OF False] by (simp add: node_ready_def update_conv')
  qed
  moreover have "map_of (trees ?s) n' \<noteq> None \<and> distinct (bt_block_ids tb)" if "bt (n', r) = Some tb" for n' r tb
    using that bt(2,3) I(5,6)[of n' r tb] by (cases "n' = nid") (auto simp: update_conv')
  ultimately show ?thesis using I(1,3) bt(1) unfolding cm_inv_def by (auto simp: update_conv')
qed

lemma cm_inv_frame:
  assumes inv: "cm_inv s" and n: "map_of (trees s) nid = Some t" "pools s nid = Some p"
    and inv': "node_inv (t', p')" "tree_block_size t' = tree_block_size t" "\<And>b. pin_count p' b = pin_count p b"
  shows "cm_inv (s\<lparr>trees := AList.update nid t' (trees s), pools := (pools s)(nid \<mapsto> p')\<rparr>)"
proof -
  have "node_ready s nid t p" by (rule cm_invD(4)[OF inv n])
  then have R: "tree_block_size t = block_size (model_cfg s)" "\<And>b. pin_count p b = int (card (holders s nid b))"
    by (auto simp: node_ready_def)
  have "cm_inv (s\<lparr>trees := AList.update nid t' (trees s), pools := (pools s)(nid \<mapsto> p'),
      block_tables := block_tables s\<rparr>)"
    using inv' R cm_invD[OF inv] by (intro cm_inv_update[OF inv n(1)]) (auto simp: holders_def)
  then show ?thesis by simp
qed

section \<open>Operations keep the invariant\<close>

lemma lookup_node_run:
  assumes "node_inv (t, p)"
  obtains m path t' a L where
    "lookup_node mc bw now toks (t, p) = (Inr (summarise mc bw m path p), (t', p))" "strip t' = strip t"
    "node_inv (t', p)" "tree_wf t L" "m \<le> length toks" "live t a" "L a = take m toks" "path_blocks t a path"
    "\<And>x. live t x \<Longrightarrow> prefix (L x) toks \<Longrightarrow> length (L x) \<le> m"
proof (rule call_match_path_spec[OF assms, of now toks])
  fix m path t' a L
  assume M: "call_match_path now toks (t, p) = (Inr (m, path), (t', p))" "strip t' = strip t"
    "demoted (t, p) (t', p)" "tree_wf t L" "m \<le> length toks" "live t a" "L a = take m toks"
    "path_blocks t a path" "\<And>x. live t x \<Longrightarrow> prefix (L x) toks \<Longrightarrow> length (L x) \<le> m"
  then show thesis
    by (intro that[OF _ M(2) demotedD(1)[OF M(3)] M(4-9)]) (simp_all add: lookup_node_def py_bind_def)
qed

lemma lookup_run:
  assumes inv: "cm_inv s" and n: "map_of (trees s) nid = Some t" "pools s nid = Some p"
  obtains m path t' a L where
    "lookup now req nid s = (Inr (summarise (model_cfg s) (bw_cfg s) m path p),
       s\<lparr>trees := AList.update nid t' (trees s), pools := (pools s)(nid \<mapsto> p)\<rparr>)"
    "strip t' = strip t" "cm_inv (s\<lparr>trees := AList.update nid t' (trees s), pools := (pools s)(nid \<mapsto> p)\<rparr>)"
    "tree_wf t L" "m \<le> length (token_ids req)" "live t a" "L a = take m (token_ids req)" "path_blocks t a path"
    "\<And>x. live t x \<Longrightarrow> prefix (L x) (token_ids req) \<Longrightarrow> length (L x) \<le> m"
proof -
  have nd: "node_inv (t, p)" using cm_invD(4)[OF inv n] by (simp add: node_ready_def)
  show thesis
  proof (rule lookup_node_run[OF nd, of "model_cfg s" "bw_cfg s" now "token_ids req"])
    fix m path t' a L
    assume M: "lookup_node (model_cfg s) (bw_cfg s) now (token_ids req) (t, p) =
        (Inr (summarise (model_cfg s) (bw_cfg s) m path p), (t', p))" "strip t' = strip t" "node_inv (t', p)"
      "tree_wf t L" "m \<le> length (token_ids req)" "live t a" "L a = take m (token_ids req)"
      "path_blocks t a path" "\<And>x. live t x \<Longrightarrow> prefix (L x) (token_ids req) \<Longrightarrow> length (L x) \<le> m"
    have sz: "tree_block_size t' = tree_block_size t" using arg_cong[OF M(2), of tree_block_size] by simp
    show thesis
      by (rule that[OF _ M(2) cm_inv_frame[OF inv n M(3) sz refl] M(4-9)])
        (simp_all add: lookup_def on_node_run[OF n] M(1))
  qed
qed

lemma lookup_keeps_inv: "cm_inv s \<Longrightarrow> lookup now req nid s = (r, s') \<Longrightarrow> cm_inv s'"
proof -
  assume inv: "cm_inv s" and l: "lookup now req nid s = (r, s')"
  show "cm_inv s'"
  proof (cases "map_of (trees s) nid = None")
    case True
    then show ?thesis using l inv by (simp add: lookup_def on_node_def)
  next
    case False
    obtain t p where n: "map_of (trees s) nid = Some t" "pools s nid = Some p" by (rule cm_nodeE[OF inv False])
    show ?thesis by (rule lookup_run[OF inv n, of now req]) (use l in simp)
  qed
qed

lemma lookup_each_keeps_inv: "cm_inv s \<Longrightarrow> lookup_each now req nids s = (r, s') \<Longrightarrow> cm_inv s'"
proof (induction nids arbitrary: s r s')
  case (Cons nid nids)
  obtain r1 s1 where l: "lookup now req nid s = (r1, s1)" by (cases "lookup now req nid s")
  have inv1: "cm_inv s1" by (rule lookup_keeps_inv[OF Cons.prems(1) l])
  obtain r2 s2 where e: "lookup_each now req nids s1 = (r2, s2)" by (cases "lookup_each now req nids s1")
  have "cm_inv s2" by (rule Cons.IH[OF inv1 e])
  then show ?case using Cons.prems(2) l e inv1 by (cases r1; cases r2) (auto simp: py_bind_def py_return_def)
qed simp

lemma admit_keeps_inv:
  assumes inv: "cm_inv s" and a: "admit now toks nid s = (r, s')" and r: "r \<noteq> Inl RuntimeError"
  shows "cm_inv s'"
proof (cases "map_of (trees s) nid = None")
  case True
  then show ?thesis using a inv by (simp add: admit_def on_node_def)
next
  case False
  obtain t p where n: "map_of (trees s) nid = Some t" "pools s nid = Some p" and rd: "node_ready s nid t p"
    by (rule cm_nodeE[OF inv False])
  let ?bs = "block_size (model_cfg s)"
  obtain r' t' p' where m: "admit_node ?bs (gpu_capacity s nid) now toks (t, p) = (r', (t', p'))"
    by (cases "admit_node ?bs (gpu_capacity s nid) now toks (t, p)") auto
  have res: "r' = r" "s' = s\<lparr>trees := AList.update nid t' (trees s), pools := (pools s)(nid \<mapsto> p')\<rparr>"
    using a m by (simp_all add: admit_def on_node_run[OF n])
  have nd: "node_inv (t, p)" using rd by (simp add: node_ready_def)
  have "node_inv (t', p') \<and> tree_block_size t' = tree_block_size t \<and> (\<forall>b. pin_count p' b = pin_count p b)"
  proof (cases "length toks div ?bs = 0")
    case True
    then show ?thesis using m nd by (simp add: admit_node_def)
  next
    case pos: False
    have "admit_post (take (length toks div ?bs * ?bs) toks) (t, p) (r, (t', p'))"
      using admit_node_post[OF nd cm_invD(1)[OF inv], of toks "gpu_capacity s nid" now] pos m res(1) by simp
    then show ?thesis using r by (cases r) (auto simp: admit_post_def pool_frame_def)
  qed
  then show ?thesis unfolding res(2) by (intro cm_inv_frame[OF inv n]) auto
qed

text \<open>Adding and removing one table shifts the number of holders by one.\<close>

lemma holders_add:
  assumes "cm_inv s" "block_tables s (nid, rid) = None"
  shows "card {r. \<exists>t. ((block_tables s)((nid, rid) \<mapsto> tb)) (nid, r) = Some t \<and> b \<in> set (bt_block_ids t)} =
    card (holders s nid b) + (if b \<in> set (bt_block_ids tb) then 1 else 0)"
proof -
  have "{r. \<exists>t. ((block_tables s)((nid, rid) \<mapsto> tb)) (nid, r) = Some t \<and> b \<in> set (bt_block_ids t)} =
      (if b \<in> set (bt_block_ids tb) then insert rid (holders s nid b) else holders s nid b)"
    using assms(2) by (auto simp: holders_def)
  moreover have "rid \<notin> holders s nid b" using assms(2) by (simp add: holders_def)
  ultimately show ?thesis using finite_holders[OF assms(1)] by simp
qed

lemma holders_remove:
  assumes "cm_inv s" "block_tables s (nid, rid) = Some tb"
  shows "int (card {r. \<exists>t. ((block_tables s)((nid, rid) := None)) (nid, r) = Some t \<and> b \<in> set (bt_block_ids t)}) =
    int (card (holders s nid b)) + (if b \<in> set (bt_block_ids tb) then - 1 else 0)"
proof -
  have "{r. \<exists>t. ((block_tables s)((nid, rid) := None)) (nid, r) = Some t \<and> b \<in> set (bt_block_ids t)} =
      holders s nid b - {rid}" by (auto simp: holders_def)
  moreover have "rid \<in> holders s nid b \<longleftrightarrow> b \<in> set (bt_block_ids tb)" using assms(2) by (simp add: holders_def)
  ultimately show ?thesis
    using finite_holders[OF assms(1), of nid b] card_Suc_Diff1[of "holders s nid b" rid] by auto
qed

lemma materialize_keeps_inv:
  assumes inv: "cm_inv s" and a: "materialize_request now rid toks nid s = (r, s')" and r: "r \<noteq> Inl RuntimeError"
  shows "cm_inv s'"
proof (cases "map_of (trees s) nid = None \<or> block_tables s (nid, rid) \<noteq> None")
  case True
  then show ?thesis using a inv by (auto simp: materialize_request_def split: if_splits)
next
  case False
  then have key: "block_tables s (nid, rid) = None" and kn: "map_of (trees s) nid \<noteq> None" by auto
  obtain t p where n: "map_of (trees s) nid = Some t" "pools s nid = Some p" and rd: "node_ready s nid t p"
    by (rule cm_nodeE[OF inv kn])
  let ?bs = "block_size (model_cfg s)" and ?n = "length toks div block_size (model_cfg s)"
  let ?al = "take (?n * ?bs) toks"
  have nd: "node_inv (t, p)" "tree_block_size t = ?bs" and pins: "\<And>b. pin_count p b = int (card (holders s nid b))"
    using rd by (auto simp: node_ready_def)
  have upd: "cm_inv (s\<lparr>trees := AList.update nid t' (trees s), pools := (pools s)(nid \<mapsto> p'),
      block_tables := (block_tables s)((nid, rid) \<mapsto> tb)\<rparr>)"
    if "node_inv (t', p')" "tree_block_size t' = ?bs" "distinct (bt_block_ids tb)"
      "\<And>b. pin_count p' b = pin_count p b + (if b \<in> set (bt_block_ids tb) then 1 else 0)" for t' p' tb
    using that cm_invD(2,6)[OF inv] holders_add[OF inv key, of tb] pins
    by (intro cm_inv_update[OF inv n(1)]) (auto split: if_splits)
  show ?thesis
  proof (cases "?n = 0")
    case True
    let ?tb = "\<lparr>bt_request_id = rid, bt_node_id = nid, bt_block_ids = [], matched_blocks = 0, new_blocks = 0\<rparr>"
    have "AList.update nid t (trees s) = trees s" "(pools s)(nid \<mapsto> p) = pools s"
      using n by (simp_all add: update_triv fun_upd_idem)
    moreover have "s' = s\<lparr>block_tables := (block_tables s)((nid, rid) \<mapsto> ?tb)\<rparr>"
      using a key n True by (auto simp: materialize_request_def aligned_tokens_def Let_def)
    ultimately show ?thesis using upd[OF nd, of ?tb] by simp
  next
    case pos: False
    have len: "length ?al = ?n * ?bs" by (simp add: min_absorb2 div_times_less_eq_dividend)
    obtain r' t' p' where m: "materialize_node ?bs (gpu_capacity s nid) now ?al ?n (t, p) = (r', (t', p'))"
      by (cases "materialize_node ?bs (gpu_capacity s nid) now ?al ?n (t, p)") auto
    have post: "table_post ?n (t, p) (r', (t', p'))"
      using materialize_node_post[OF nd cm_invD(1)[OF inv] len, of "gpu_capacity s nid" now] pos m by simp
    show ?thesis
    proof (cases r')
      case (Inl e)
      then have "e \<noteq> RuntimeError" "s' = s\<lparr>trees := AList.update nid t' (trees s), pools := (pools s)(nid \<mapsto> p')\<rparr>"
        using a r m key n pos by (auto simp: materialize_request_def aligned_tokens_def on_node_run[OF n])
      moreover have "node_inv (t', p')" "tree_block_size t' = tree_block_size t" "\<And>b. pin_count p' b = pin_count p b"
        using post Inl calculation(1) by (auto simp: table_post_def)
      ultimately show ?thesis using cm_inv_frame[OF inv n] by simp
    next
      case (Inr x)
      obtain bids k where x: "x = (bids, k)" by (cases x)
      have "node_inv (t', p')" "tree_block_size t' = ?bs" "distinct bids"
        "\<And>b. pin_count p' b = pin_count p b + (if b \<in> set bids then 1 else 0)"
        using post Inr x nd(2) by (auto simp: table_post_def)
      from upd[OF this(1,2)] this(3,4) show ?thesis
        using a m Inr x key n pos by (auto simp: materialize_request_def aligned_tokens_def on_node_run[OF n] Let_def)
    qed
  qed
qed

lemma release_run:
  assumes inv: "cm_inv s" and tb: "block_tables s (nid, rid) = Some tb"
  obtains s' where "release_request rid nid s = (Inr (), s')" "cm_inv s'"
    "block_tables s' = (block_tables s)((nid, rid) := None)"
proof -
  obtain t p where n: "map_of (trees s) nid = Some t" "pools s nid = Some p" and rd: "node_ready s nid t p"
    by (rule cm_nodeE[OF inv cm_invD(5)[OF inv tb]])
  have nd: "node_inv (t, p)" "tree_block_size t = block_size (model_cfg s)"
    and pins: "\<And>b. pin_count p b = int (card (holders s nid b))" using rd by (auto simp: node_ready_def)
  have "pin_count p b > 0" if "b \<in> set (bt_block_ids tb)" for b
  proof -
    have "rid \<in> holders s nid b" using tb that by (simp add: holders_def)
    then show ?thesis using pins finite_holders[OF inv] by (simp add: card_gt_0_iff) blast
  qed
  then obtain p' where R: "release_blocks (bt_block_ids tb) (t, p) = (Inr (), (t, p'))"
    "repinned p (set (bt_block_ids tb)) (- 1) p'"
    using release_blocks_spec[OF node_invD(2)[OF nd(1)] cm_invD(6)[OF inv tb]] by blast
  let ?s = "s\<lparr>trees := AList.update nid t (trees s), pools := (pools s)(nid \<mapsto> p'),
    block_tables := (block_tables s)((nid, rid) := None)\<rparr>"
  have "cm_inv ?s"
    using repinned_node_inv[OF R(2) nd(1)] nd(2) R(2) pins holders_remove[OF inv tb] cm_invD(2,6)[OF inv]
    by (intro cm_inv_update[OF inv n(1)]) (auto simp: repinned_def split: if_splits)
  moreover have "release_request rid nid s = (Inr (), ?s)"
    using n tb R(1) by (simp add: release_request_def on_node_def)
  ultimately show ?thesis using that by simp
qed

lemma release_keeps_inv:
  assumes inv: "cm_inv s" and a: "release_request rid nid s = (r, s')"
  shows "cm_inv s'"
proof (cases "block_tables s (nid, rid)")
  case None
  then show ?thesis using a inv by (auto simp: release_request_def split: if_splits)
next
  case (Some tb)
  then show ?thesis using release_run[OF inv Some] a by (metis snd_conv)
qed

end
