(* ===== verification/Pool_Properties.thy ===== *)
theory Pool_Properties
  imports Block_Pool
begin

text \<open>
  What the block pool promises its users: conservation and capacity in every reachable
  state, the exact behaviour of allocation, release, pinning and tier moves on every
  branch, and that a raised exception leaves the pool as it was.
\<close>

section \<open>A concrete pool for the witnesses\<close>

definition demo_src :: "nat \<Rightarrow> bid" where
  "demo_src i = replicate i CHR ''x''"

lemma inj_demo_src: "inj demo_src"
  by (rule injI) (metis demo_src_def length_replicate)

definition demo_cfg :: node_config where
  "demo_cfg = \<lparr>gpu_blocks = 2, cpu_blocks = 1, disk_blocks = 0, capacity = 4\<rparr>"

definition demo_pool :: block_pool where
  "demo_pool = snd (allocate 2 gpu (pool_init demo_cfg demo_src))"

lemma demo_pool_reach: "pool_reach demo_cfg demo_src demo_pool"
  unfolding demo_pool_def
  by (rule pool_reach.step_allocate[OF pool_reach.init prod.collapse[symmetric]])

lemma demo_pool_inv: "pool_inv demo_pool"
  by (rule pool_reach_pool_inv[OF demo_pool_reach inj_demo_src])

lemma demo_pool_block_tier:
  "block_tier demo_pool = (\<lambda>b. if b = '''' \<or> b = ''x'' then Some gpu else None)"
  by (auto simp: demo_pool_def allocate_def require_tier_def pool_init_def demo_cfg_def tier_free_def
      tier_used_def Let_def demo_src_def upt_rec register_block_def on_tier_def fun_eq_iff)

lemma demo_pool_tier_of: "tier_of demo_pool b = (if b = '''' \<or> b = ''x'' then Some gpu else None)"
  by (simp add: tier_of_def demo_pool_block_tier)

lemma demo_pool_pins: "pin_count demo_pool b = 0"
  by (auto simp: demo_pool_def allocate_def require_tier_def pool_init_def demo_cfg_def tier_free_def
      tier_used_def Let_def demo_src_def upt_rec register_block_def on_tier_def pin_count_def)

lemma demo_pool_tiers:
  "tiers demo_pool gpu = Some \<lparr>tier_capacity = 2, allocated = {'''', ''x''}\<rparr>"
  "tiers demo_pool cpu = Some \<lparr>tier_capacity = 1, allocated = {}\<rparr>"
  "tiers demo_pool disk = Some \<lparr>tier_capacity = 0, allocated = {}\<rparr>"
  by (auto simp: demo_pool_def allocate_def require_tier_def pool_init_def demo_cfg_def tier_free_def
      tier_used_def Let_def demo_src_def upt_rec register_block_def on_tier_def)

section \<open>Properties\<close>





text \<open>C17. \<open>allocate\<close> on a known tier: it raises \<open>MemoryError\<close> and changes nothing exactly when more
  blocks are asked for than the tier has free slots; otherwise it returns that many distinct
  identifiers no allocated block has, puts them on that tier unpinned, and touches no other tier.\<close>

theorem allocate_spec:
  assumes "pool_inv p" "tiers p t = Some st" "allocate n t p = (r, p')"
  shows "(case r of
      Inl e \<Rightarrow> e = MemoryError \<and> tier_free st < n \<and> p' = p
    | Inr ids \<Rightarrow> n \<le> tier_free st \<and> length ids = nat n \<and> distinct ids \<and> set ids \<inter> dom (block_tier p) = {} \<and>
        blocks_on p' t = blocks_on p t \<union> set ids \<and> (\<forall>t'. t' \<noteq> t \<longrightarrow> blocks_on p' t' = blocks_on p t') \<and>
        (\<forall>b. pin_count p' b = (if b \<in> set ids then 0 else pin_count p b)) \<and> pool_inv p')"
proof (cases r)
  case (Inl e)
  then show ?thesis
    using assms by (auto simp: allocate_def require_tier_def Let_def split: if_splits)
next
  case (Inr ids)
  note a = assms(3)[unfolded Inr]
  have "n \<le> tier_free st" using allocate_Inr(8)[OF a] assms(2) by simp
  moreover have "pin_count p' b = (if b \<in> set ids then 0 else pin_count p b)" for b
    using allocate_Inr(4)[OF a] by (simp add: pin_count_def)
  ultimately show ?thesis
    using Inr allocate_fresh[OF assms(1) a] allocate_blocks_on[OF assms(1) a] allocate_inv[OF assms(1) a] by simp
qed

theorem allocate_spec_witness:
  "fst (allocate 1 gpu demo_pool) = Inl MemoryError \<and> length (projr (fst (allocate 1 cpu demo_pool))) = 1"
proof -
  obtain r p' where a: "allocate 1 gpu demo_pool = (r, p')" by (cases "allocate 1 gpu demo_pool")
  obtain r2 p2 where b: "allocate 1 cpu demo_pool = (r2, p2)" by (cases "allocate 1 cpu demo_pool")
  show ?thesis
    using allocate_spec[OF demo_pool_inv demo_pool_tiers(1) a] allocate_spec[OF demo_pool_inv demo_pool_tiers(2) b] a b
    by (auto simp: tier_free_def tier_used_def split: sum.splits)
qed

text \<open>\<open>free\<close> is all or nothing. It succeeds exactly when the argument has no duplicates and
  every block in it is allocated and unpinned; then precisely these blocks leave their tiers and
  every other block keeps its tier and its pin count. Otherwise it raises and the pool is unchanged.\<close>

theorem free_all_or_nothing:
  assumes "pool_inv p" "free bs p = (r, p')"
  shows "(r = Inr () \<longleftrightarrow> distinct bs \<and> (\<forall>b \<in> set bs. tier_of p b \<noteq> None \<and> pin_count p b \<le> 0)) \<and>
    (case r of
       Inl e \<Rightarrow> p' = p \<and> e \<in> {ValueError, KeyError, RuntimeError}
     | Inr _ \<Rightarrow> pool_inv p' \<and> (\<forall>b. tier_of p' b = (if b \<in> set bs then None else tier_of p b)) \<and>
         (\<forall>b. pin_count p' b = (if b \<in> set bs then 0 else pin_count p b)))"
proof (cases r)
  case (Inl e)
  have "free_check p [] bs = Inl e" using assms(2) Inl by (auto simp: free_def split: sum.splits)
  moreover have "free_check p seen bs = Inl e \<Longrightarrow> e \<in> {ValueError, KeyError, RuntimeError}" for seen
    by (induction p seen bs rule: free_check.induct) (auto split: if_splits option.splits)
  moreover have "\<not> (distinct bs \<and> (\<forall>b \<in> set bs. block_tier p b \<noteq> None \<and> pin_count p b \<le> 0))"
    using Inl free_succeeds[of bs p] assms(2) by (metis old.sum.distinct(2) prod.inject)
  ultimately show ?thesis
    using Inl free_Inl[of bs p e p'] assms(2) by (auto simp: tier_of_def)
next
  case (Inr u)
  note f = assms(2)[unfolded Inr]
  have "pin_count p' b = (if b \<in> set bs then 0 else pin_count p b)" for b
    using free_Inr(4)[OF f] by (simp add: pin_count_def)
  then show ?thesis
    using Inr free_Inr(1-3)[OF f] free_inv[OF assms(1) f] by (simp add: tier_of_def)
qed

theorem free_all_or_nothing_witness:
  "(\<exists>p'. free [''x''] demo_pool = (Inr (), p') \<and> tier_of p' ''x'' = None \<and> tier_of p' '''' = Some gpu) \<and>
   (\<exists>e. free [''x'', ''x''] demo_pool = (Inl e, demo_pool))"
proof -
  obtain r p' where a: "free [''x''] demo_pool = (r, p')" by (cases "free [''x''] demo_pool")
  obtain r2 p2 where b: "free [''x'', ''x''] demo_pool = (r2, p2)" by (cases "free [''x'', ''x''] demo_pool")
  show ?thesis
    using free_all_or_nothing[OF demo_pool_inv a] free_all_or_nothing[OF demo_pool_inv b] a b
    by (auto simp: demo_pool_tier_of demo_pool_pins split: sum.splits)
qed

text \<open>Pinning a list of distinct allocated blocks succeeds; while they are pinned none of
  them can be freed or moved to another tier (both raise and change nothing); and unpinning the
  same list brings back exactly the pool from before.\<close>

theorem pin_protects_unpin_restores:
  assumes "pool_inv p" "distinct bs" "\<forall>b \<in> set bs. tier_of p b \<noteq> None"
  shows "\<exists>p1. pin bs p = (Inr (), p1) \<and> unpin bs p1 = (Inr (), p) \<and>
    (\<forall>b. pin_count p1 b = pin_count p b + (if b \<in> set bs then 1 else 0)) \<and>
    (\<forall>b cs. b \<in> set bs \<longrightarrow> b \<in> set cs \<longrightarrow> (\<exists>e. free cs p1 = (Inl e, p1))) \<and>
    (\<forall>b s d. b \<in> set bs \<longrightarrow> (\<exists>e. move b s d p1 = (Inl e, p1)))"
proof (rule exI[of _ "fold (bump 1) bs p"], intro conjI allI impI)
  let ?p1 = "fold (bump 1) bs p" and ?p2 = "fold (bump (- 1)) bs (fold (bump 1) bs p)"
  have al: "\<forall>b \<in> set bs. block_tier p b \<noteq> None" using assms(3) by (simp add: tier_of_def)
  show pin: "pin bs p = (Inr (), ?p1)" using al by (auto simp: pin_def)
  have pc: "pin_count ?p1 b = pin_count p b + (if b \<in> set bs then 1 else 0)" for b
    using assms(2) by (simp add: count_list_distinct)
  show "pin_count ?p1 b = pin_count p b + (if b \<in> set bs then 1 else 0)" for b by (rule pc)
  have inv1: "pool_inv ?p1" by (rule pin_inv[OF assms(1) pin])
  have pos: "pin_count ?p1 b > 0" if "b \<in> set bs" for b using pc[of b] that pin_count_nonneg[OF assms(1), of b] by simp
  have un: "unpin bs ?p1 = (Inr (), ?p2)"
    using unpin_check_Inr[of ?p1 bs "()"] pos al ref_count_pin_count[OF inv1] by (simp add: unpin_def)
  have C: "dom (pin_counts p) = dom (block_tier p)" "dom (ref_counts p) = dom (block_tier p)"
    using pool_inv_counts[OF assms(1)] by simp_all
  have sub: "set bs \<subseteq> dom (block_tier p)" using al by blast
  have "pin_counts ?p2 = pin_counts p"
    using C sub fold_bump(5)[of "- 1" bs ?p1] by (intro counts_eqI) (auto simp: pin_count_def[symmetric])
  moreover have "ref_counts ?p2 = ref_counts p"
    using C sub fold_bump(6)[of "- 1" bs ?p1] by (intro counts_eqI) (auto simp: ref_count_def[symmetric])
  ultimately have "?p2 = p" by (intro block_pool.equality) simp_all
  then show "unpin bs ?p1 = (Inr (), p)" using un by simp
  show "\<exists>e. free cs ?p1 = (Inl e, ?p1)" if "b \<in> set bs" "b \<in> set cs" for b cs
    using free_Inr(2)[of cs ?p1] free_Inl[of cs ?p1] pos[OF that(1)] that(2)
    by (cases "free cs ?p1"; cases "fst (free cs ?p1)") force+
  show "\<exists>e. move b s d ?p1 = (Inl e, ?p1)" if "b \<in> set bs" for b s d
    using move_Inr(2)[of b s d ?p1] move_Inl[of b s d ?p1] pos[OF that] unfolding move_def
    by (cases "move_raw b s d ?p1"; cases "fst (move_raw b s d ?p1)") force+
qed

theorem pin_protects_unpin_restores_witness:
  "\<exists>p1. pin [''x''] demo_pool = (Inr (), p1) \<and> unpin [''x''] p1 = (Inr (), demo_pool) \<and>
     (\<exists>e. free [''x''] p1 = (Inl e, p1))"
  using pin_protects_unpin_restores[OF demo_pool_inv, of "[''x'']"]
  by (auto simp: demo_pool_block_tier tier_of_def)

text \<open>Moving a block between tiers succeeds exactly when both tiers exist, the block is on the
  source tier, unpinned, and the destination has a free slot; then only this block's tier changes
  and both tiers' sets are adjusted. Otherwise it raises and changes nothing.\<close>

theorem move_spec:
  assumes "pool_inv p" "move b s d p = (r, p')"
  shows "(r = Inr () \<longleftrightarrow> tier_of p b = Some s \<and> pin_count p b \<le> 0 \<and>
      (\<exists>st. tiers p d = Some st \<and> 1 \<le> tier_free st)) \<and>
    (case r of
       Inl e \<Rightarrow> p' = p \<and> e \<in> {ValueError, KeyError, RuntimeError, MemoryError}
     | Inr _ \<Rightarrow> pool_inv p' \<and> tier_of p' = (tier_of p)(b \<mapsto> d) \<and> (\<forall>x. pin_count p' x = pin_count p x) \<and>
         (\<forall>t. blocks_on p' t = (if t = d then insert b (blocks_on p t) else blocks_on p t - {b})))"
proof (cases r)
  case (Inl e)
  have m: "move_raw b s d p = (Inl e, p')" using assms(2) Inl by (simp add: move_def)
  have "\<not> (block_tier p b = Some s \<and> pin_count p b \<le> 0 \<and> (\<exists>st. tiers p d = Some st \<and> 1 \<le> tier_free st))"
    using move_succeeds[of p b s _ d] m pool_inv_tiers[OF assms(1)] pool_inv_block_tier[OF assms(1), of b s]
    by (metis old.sum.distinct(2) prod.inject)
  moreover have "e \<in> {ValueError, KeyError, RuntimeError, MemoryError}"
    using m by (auto simp: move_raw_def require_tier_def Let_def split: if_splits option.splits sum.splits)
  ultimately show ?thesis using Inl move_Inl[OF m] by (simp add: tier_of_def)
next
  case (Inr u)
  have m: "move_raw b s d p = (Inr u, p')" using assms(2) Inr by (simp add: move_def)
  have "tier_of p' = (tier_of p)(b \<mapsto> d)" using move_Inr(4)[OF m] by (simp add: tier_of_def fun_eq_iff)
  moreover have "pin_count p' x = pin_count p x" for x using move_Inr(5)[OF m] by (simp add: pin_count_def)
  moreover have "blocks_on p' t = (if t = d then insert b (blocks_on p t) else blocks_on p t - {b})" for t
    using move_blocks_on[OF m, of t] by simp
  ultimately show ?thesis
    using Inr move_Inr(1-3)[OF m] move_inv[OF assms(1) m] by (simp add: tier_of_def)
qed

theorem move_spec_witness:
  "(\<exists>p'. move ''x'' gpu cpu demo_pool = (Inr (), p') \<and> tier_of p' ''x'' = Some cpu) \<and>
   (\<exists>e. move ''x'' gpu disk demo_pool = (Inl e, demo_pool))"
proof -
  obtain r p' where a: "move ''x'' gpu cpu demo_pool = (r, p')" by (cases "move ''x'' gpu cpu demo_pool")
  obtain r2 p2 where b: "move ''x'' gpu disk demo_pool = (r2, p2)" by (cases "move ''x'' gpu disk demo_pool")
  show ?thesis
    using move_spec[OF demo_pool_inv a] move_spec[OF demo_pool_inv b] a b
    by (auto simp: demo_pool_tier_of demo_pool_pins demo_pool_tiers tier_free_def tier_used_def split: sum.splits)
qed

text \<open>Unlike \<open>free\<close>, \<open>unpin\<close> does not reject duplicates and checks each occurrence against the
  counter it started with: on a pool where a block is pinned once, unpinning the list with that
  block twice succeeds and leaves a negative pin count.\<close>

theorem unpin_duplicates_go_negative:
  "\<exists>p b p'. pool_inv p \<and> pin_count p b = 1 \<and> unpin [b, b] p = (Inr (), p') \<and> pin_count p' b = - 1"
proof -
  let ?p = "fold (bump 1) [''x''] demo_pool"
  have pin: "pin [''x''] demo_pool = (Inr (), ?p)" by (simp add: pin_def demo_pool_block_tier)
  have inv: "pool_inv ?p" by (rule pin_inv[OF demo_pool_inv pin])
  have one: "pin_count ?p ''x'' = 1" using demo_pool_pins[of "''x''"] by simp
  have un: "unpin [''x'', ''x''] ?p = (Inr (), fold (bump (- 1)) [''x'', ''x''] ?p)"
    using one ref_count_pin_count[OF inv, of "''x''"] by (simp add: unpin_def demo_pool_block_tier)
  have "pin_count (fold (bump (- 1)) [''x'', ''x''] ?p) ''x'' = - 1" using one by simp
  then show ?thesis using inv one un by blast
qed

end
