(* ===== verification/Radix_Properties.thy ===== *)
theory Radix_Properties
  imports Block_Tables Pool_Properties
begin

text \<open>
  What the radix tree promises: matching finds the longest cached prefix and changes only
  LRU time stamps, insertion is transactional and never loses a block, what was inserted
  is found again, and eviction takes the least recently used leaves.
\<close>

section \<open>A concrete node for the witnesses\<close>

definition demo_node :: node_cache where
  "demo_node = (tree_init 2 0, pool_init demo_cfg demo_src)"

lemma demo_node_inv: "node_inv (tree_init 2 0, pool_init demo_cfg demo_src)"
  by (rule node_inv_init[OF inj_demo_src])

lemma demo_tree_ok: "tree_ok (tree_init 2 0)"
  by (rule node_invD(1)[OF demo_node_inv])

text \<open>The node after inserting the four tokens 1, 2, 3, 4 at time 5.\<close>

definition demo_filled :: node_cache where
  "demo_filled = snd (tree_insert pool_mint 5 [1, 2, 3, 4] demo_node)"

lemma demo_filled_inv: "node_inv (fst demo_filled, snd demo_filled)"
proof -
  obtain r t' p' where r: "tree_insert pool_mint 5 [1, 2, 3, 4] demo_node = (r, (t', p'))"
    by (cases "tree_insert pool_mint 5 [1, 2, 3, 4] demo_node") auto
  have "node_inv (t', p')"
    by (rule node_insert(1)[OF demo_node_inv _ r[unfolded demo_node_def]]) simp
  then show ?thesis by (simp add: demo_filled_def r)
qed

section \<open>Matching\<close>

text \<open>C14. On any well-formed tree \<open>match_prefix\<close> returns (it needs no more rounds than tokens), and
  the result is the longest prefix of the query that ends at a node of the tree, together with
  that node's blocks. The tree differs afterwards at most in its LRU time stamps.\<close>

theorem match_prefix_longest:
  assumes "tree_ok t" "match_prefix now toks t = (r, t')"
  shows "\<exists>n ids. r = Inr (n, ids) \<and> n \<le> length toks \<and> holds t (take n toks) ids \<and>
    (\<forall>ts \<in> cached t. prefix ts toks \<longrightarrow> length ts \<le> n) \<and> strip t' = strip t"
proof -
  obtain L where wf: "tree_wf t L" using assms(1) by (auto simp: tree_ok_def)
  show ?thesis
  proof (rule match_prefix_spec[OF wf, of now toks])
    fix n ids t1 a
    assume M: "match_prefix now toks t = (Inr (n, ids), t1)" "strip t1 = strip t" "n \<le> length toks" "live t a"
      "L a = take n toks" "ids = last_blocks t a" "\<And>x. live t x \<Longrightarrow> prefix (L x) toks \<Longrightarrow> length (L x) \<le> n"
    obtain m where m: "heap t a = Some m" using wf_live_heap[OF wf M(4)] by blast
    have "holds t (take n toks) ids"
      using M(4-6) m path_to_iff[OF wf] by (auto simp: holds_def last_blocks_def)
    moreover have "\<forall>ts \<in> cached t. prefix ts toks \<longrightarrow> length ts \<le> n"
      unfolding cached_labels[OF wf] using M(7) by blast
    ultimately show ?thesis using M(1-3) assms(2) by auto
  qed
qed

theorem match_prefix_longest_witness:
  "\<exists>n ids t'. match_prefix 7 [1, 2] (tree_init 2 0) = (Inr (n, ids), t') \<and> n \<le> 2 \<and>
     holds (tree_init 2 0) (take n [1, 2]) ids"
proof -
  obtain r t' where r: "match_prefix 7 [1, 2] (tree_init 2 0) = (r, t')"
    by (cases "match_prefix 7 [1, 2] (tree_init 2 0)")
  show ?thesis using match_prefix_longest[OF demo_tree_ok r] r by auto
qed

text \<open>\<open>match_prefix_path\<close> matches the same longest prefix and returns the blocks of all nodes on
  the way to it: they are pairwise different, all owned by the tree, at least as many as the
  matched tokens fill, and the list is the same however the path is reached.\<close>

theorem match_prefix_path_blocks:
  assumes "tree_ok t" "match_prefix_path now toks t = (r, t')"
  shows "\<exists>n ids. r = Inr (n, ids) \<and> n \<le> length toks \<and> take n toks \<in> cached t \<and>
    (\<forall>ts \<in> cached t. prefix ts toks \<longrightarrow> length ts \<le> n) \<and> path_ids t (take n toks) ids \<and>
    (\<forall>ids'. path_ids t (take n toks) ids' \<longrightarrow> ids' = ids) \<and>
    distinct ids \<and> set ids \<subseteq> tree_blocks t \<and> n \<le> length ids * tree_block_size t \<and> strip t' = strip t"
proof -
  obtain L where wf: "tree_wf t L" using assms(1) by (auto simp: tree_ok_def)
  show ?thesis
  proof (rule match_prefix_path_spec[OF wf, of now toks])
    fix n ids t1 a
    assume M: "match_prefix_path now toks t = (Inr (n, ids), t1)" "strip t1 = strip t" "n \<le> length toks" "live t a"
      "L a = take n toks" "path_blocks t a ids" "\<And>x. live t x \<Longrightarrow> prefix (L x) toks \<Longrightarrow> length (L x) \<le> n"
    have p: "path_ids t (take n toks) ids" using path_blocks_ids[OF wf M(6)] M(5) by simp
    have uniq: "\<forall>ids'. path_ids t (take n toks) ids' \<longrightarrow> ids' = ids"
      using path_ids_prefix[OF wf p] path_ids_prefix[OF wf _ p] prefix_order.antisym by blast
    have c: "take n toks \<in> cached t" "\<forall>ts \<in> cached t. prefix ts toks \<longrightarrow> length ts \<le> n"
      unfolding cached_labels[OF wf] using M(4,5,7) by (auto simp: image_iff)
    have r: "r = Inr (n, ids)" "t' = t1" using M(1) assms(2) by simp_all
    have "n \<le> length ids * tree_block_size t" using path_blocks_facts(3)[OF wf M(6)] M(3,5) by simp
    then show ?thesis unfolding r using M(2,3) p uniq c path_blocks_facts(2,4)[OF wf M(6)] by blast
  qed
qed

theorem match_prefix_path_blocks_witness:
  "\<exists>n ids t'. match_prefix_path 7 [1, 2, 3, 4, 5] (fst demo_filled) = (Inr (n, ids), t') \<and> distinct ids \<and>
     set ids \<subseteq> tree_blocks (fst demo_filled)"
proof -
  obtain r t' where r: "match_prefix_path 7 [1, 2, 3, 4, 5] (fst demo_filled) = (r, t')"
    by (cases "match_prefix_path 7 [1, 2, 3, 4, 5] (fst demo_filled)")
  show ?thesis using match_prefix_path_blocks[OF node_invD(1)[OF demo_filled_inv] r] r by auto
qed

section \<open>Insertion\<close>

lemma pool_mint_only_adds:
  "keeps (\<lambda>q. pool_inv q \<and> (\<forall>b. block_tier p b \<noteq> None \<longrightarrow> block_tier q b = block_tier p b)) (pool_mint n)"
  unfolding keeps_def
proof (intro allI impI)
  fix q assume q: "pool_inv q \<and> (\<forall>b. block_tier p b \<noteq> None \<longrightarrow> block_tier q b = block_tier p b)"
  obtain r q' where m: "pool_mint n q = (r, q')" by (cases "pool_mint n q")
  show "pool_inv (snd (pool_mint n q)) \<and>
      (\<forall>b. block_tier p b \<noteq> None \<longrightarrow> block_tier (snd (pool_mint n q)) b = block_tier p b)"
  proof (cases r)
    case (Inl e)
    then show ?thesis using gpu_source.mint_raises[of q n e q'] q m by simp
  next
    case (Inr ids)
    have a: "allocate (int n) gpu q = (Inr ids, q')" using m Inr by (simp add: pool_mint_def)
    have "block_tier q' b = block_tier p b" if "block_tier p b \<noteq> None" for b
      using allocate_Inr(3)[OF a] allocate_fresh(4)[of q "int n" gpu ids q'] a q that by (auto simp: disjoint_iff)
    then show ?thesis using allocate_inv[of q "int n" gpu ids q'] a q m by simp
  qed
qed

text \<open>C12. Inserting a non-empty token sequence into a consistent node, wherever it branches off:
  the node stays consistent also when the pool runs out of GPU blocks in the middle; the only
  exception is \<open>MemoryError\<close>, raised only when the GPU has at most \<open>ceil(len/block_size)\<close> free slots;
  no block changes tier, is freed or shared: the tree gains exactly the blocks the pool issued;
  every cached prefix stays cached, and on success the sequence is cached and its node's blocks
  are returned.\<close>

theorem insert_transactional:
  assumes "node_inv (t, p)" "toks \<noteq> []" "tree_insert pool_mint now toks (t, p) = (r, (t', p'))"
  shows "node_inv (t', p') \<and> tree_blocks t' = tree_blocks t \<union> (pool_issued p' - pool_issued p) \<and>
    cached t \<subseteq> cached t' \<and> (\<forall>b. tier_of p b \<noteq> None \<longrightarrow> tier_of p' b = tier_of p b) \<and>
    (case r of
       Inl e \<Rightarrow> e = MemoryError \<and> gpu_room p \<le> int (n_blocks t toks)
     | Inr ids \<Rightarrow> toks \<in> cached t' \<and> holds t' toks ids)"
proof -
  note N = node_insert[OF assms]
  have "pool_inv p' \<and> (\<forall>b. block_tier p b \<noteq> None \<longrightarrow> block_tier p' b = block_tier p b)"
    using tree_insert_keeps[where mint = pool_mint and now = now and toks = toks and s = "(t, p)",
        OF pool_mint_only_adds[of p]] node_invD(2)[OF assms(1)] assms(3) by simp
  moreover have "tree_blocks t' = tree_blocks t \<union> (pool_issued p' - pool_issued p)" "cached t \<subseteq> cached t'"
    using N(3) unfolding grows_def by blast+
  moreover have "holds t' toks ids \<Longrightarrow> toks \<in> cached t'" for ids by (auto simp: holds_def cached_def)
  ultimately show ?thesis using N(1,4,5) by (cases r) (auto simp: tier_of_def)
qed

theorem insert_transactional_witness:
  "\<exists>r t' p'. tree_insert pool_mint 5 [1, 2, 3] demo_node = (r, (t', p')) \<and> node_inv (t', p') \<and>
     (case r of Inl e \<Rightarrow> e = MemoryError | Inr ids \<Rightarrow> [1, 2, 3] \<in> cached t')"
proof -
  obtain r t' p' where r: "tree_insert pool_mint 5 [1, 2, 3] demo_node = (r, (t', p'))"
    by (cases "tree_insert pool_mint 5 [1, 2, 3] demo_node") auto
  show ?thesis
    using insert_transactional[OF demo_node_inv _ r[unfolded demo_node_def]] r by (auto split: sum.splits)
qed

text \<open>C13. Round trip: a sequence whose insertion returned is found again in full, with the blocks
  the insertion returned.\<close>

theorem insert_then_match:
  assumes "node_inv (t, p)" "toks \<noteq> []" "tree_insert pool_mint now toks (t, p) = (Inr ids, (t', p'))"
  shows "fst (match_prefix now' toks t') = Inr (length toks, ids)"
proof -
  note N = node_insert[OF assms]
  obtain L where wf: "tree_wf t' L" using node_invD(1)[OF N(1)] by (auto simp: tree_ok_def)
  obtain a n where a: "path_to t' a toks" "heap t' a = Some n" "block_ids n = ids"
    using N(5)[OF refl] by (auto simp: holds_def)
  have La: "live t' a" "L a = toks" using path_to_label[OF a(1) wf] by auto
  show ?thesis
  proof (rule match_prefix_spec[OF wf, of now' toks])
    fix m ids' t1 x
    assume M: "match_prefix now' toks t' = (Inr (m, ids'), t1)" "m \<le> length toks" "live t' x"
      "L x = take m toks" "ids' = last_blocks t' x" "\<And>x. live t' x \<Longrightarrow> prefix (L x) toks \<Longrightarrow> length (L x) \<le> m"
    have "m = length toks" using M(2) M(6)[OF La(1)] La(2) by simp
    then have "x = a" using labels_branch[OF wf La(1) M(3)] M(4) La(2) by simp
    then show ?thesis using M(1,5) a \<open>m = length toks\<close> by (simp add: last_blocks_def)
  qed
qed

theorem insert_then_match_witness:
  "fst (match_prefix 9 [1, 2, 3] (fst (snd (tree_insert pool_mint 5 [1, 2, 3] demo_node)))) = Inr (3, ['''', ''x''])"
proof -
  have r: "fst (tree_insert pool_mint 5 [1, 2, 3] demo_node) = Inr ['''', ''x'']" by code_simp
  obtain t' p' where s: "tree_insert pool_mint 5 [1, 2, 3] demo_node = (Inr ['''', ''x''], (t', p'))"
    using r by (cases "tree_insert pool_mint 5 [1, 2, 3] demo_node") auto
  show ?thesis using insert_then_match[OF demo_node_inv _ s[unfolded demo_node_def], of 9] s by simp
qed

section \<open>Eviction\<close>

text \<open>C15. \<open>evict_lru(n)\<close> on a well-formed tree never trips its assertion or a missing key. It removes
  at most \<open>n\<close> nodes, fewer only when no unreferenced leaf is left; each removed node is a leaf
  that no other leaf was used longer ago than when it is taken. The returned block lists are
  exactly the blocks the tree gave up, without repetition, and only the evicted nodes' prefixes
  stop being cached.\<close>

theorem evict_lru_spec:
  assumes "tree_ok t" "evict_lru n t = (r, t')"
  shows "\<exists>vs. r = Inr (map (block_ids \<circ> snd) vs) \<and> evictions t vs t' \<and> tree_ok t' \<and> length vs \<le> n \<and>
    (length vs < n \<longrightarrow> evictable t' = []) \<and> distinct (concat (map (block_ids \<circ> snd) vs)) \<and>
    tree_blocks t' = tree_blocks t - set (concat (map (block_ids \<circ> snd) vs)) \<and>
    cached t' \<subseteq> cached t \<and> card (cached t - cached t') \<le> length vs"
proof -
  obtain L where wf: "tree_wf t L" using assms(1) by (auto simp: tree_ok_def)
  obtain vs where V: "r = Inr (map (block_ids \<circ> snd) vs)" "evictions t vs t'" "length vs \<le> n"
    "length vs < n \<longrightarrow> evictable t' = []"
    using evict_loop_spec[OF wf, of block_ids n "[]"] assms(2) by (auto simp: evict_lru_def)
  note F = evictions_facts[OF V(2) wf]
  have un: "(\<Union>(a, n) \<in> set vs. set (block_ids n)) = set (concat (map (block_ids \<circ> snd) vs))"
    by (auto simp: case_prod_unfold)
  have eq: "map (\<lambda>(a, n). block_ids n) vs = map (block_ids \<circ> snd) vs" by (auto simp: case_prod_unfold)
  have c: "cached t - cached t' \<subseteq> (L \<circ> fst) ` set vs" using F by blast
  have "card (cached t - cached t') \<le> card ((L \<circ> fst) ` set vs)" by (rule card_mono[OF _ c]) simp
  also have "\<dots> \<le> length vs" using card_image_le[of "set vs" "L \<circ> fst"] card_length[of vs] by simp
  finally show ?thesis
    using V F unfolding un eq tree_ok_def by (intro exI[of _ vs]) auto
qed

theorem evict_lru_spec_witness:
  "\<exists>r t'. evict_lru 1 (fst demo_filled) = (Inr r, t') \<and> length r \<le> 1 \<and> tree_ok t'"
proof -
  obtain r t' where r: "evict_lru 1 (fst demo_filled) = (r, t')" by (cases "evict_lru 1 (fst demo_filled)")
  show ?thesis using evict_lru_spec[OF node_invD(1)[OF demo_filled_inv] r] r by auto
qed

end
