(* ===== verification/Cache_Properties.thy ===== *)
theory Cache_Properties
  imports Cache_Manager Radix_Properties
begin

text \<open>
  What the cache manager promises: exact pin accounting in every reachable state, pinned
  blocks that no admission can touch, block tables that are complete or not created at all,
  the content of a lookup, and the one way it fails to keep its word.
\<close>

section \<open>What a lookup reports\<close>

lemma count_tiers_of:
  "count_of (count_tiers found bs acc) t = count_of acc t + length (filter (\<lambda>b. map_of found b = Some t) bs)"
  by (induction found bs acc rule: count_tiers.induct) (auto simp: count_of_def update_conv' split: option.splits)

lemma sum_update:
  "distinct (map fst acc) \<Longrightarrow>
   sum_list (map snd (AList.update t v acc)) = sum_list (map snd acc) + v - count_of acc t"
proof (induction acc)
  case (Cons a acc)
  have "count_of acc t \<le> sum_list (map snd acc)"
    using member_le_sum_list[of _ "map snd acc"] by (force simp: count_of_def split: option.splits dest!: map_of_SomeD)
  then show ?case using Cons by (cases a) (auto simp: count_of_def)
qed (simp add: count_of_def)

lemma count_tiers_sum:
  "distinct (map fst acc) \<Longrightarrow> sum_list (map snd (count_tiers found bs acc)) =
     sum_list (map snd acc) + length (filter (\<lambda>b. map_of found b \<noteq> None) bs)"
proof (induction found bs acc rule: count_tiers.induct)
  case (2 found b bs acc)
  then show ?case
    by (cases "map_of found b") (auto simp: sum_update distinct_update count_of_def[symmetric])
qed simp

definition live_blocks :: "block_pool \<Rightarrow> bid list \<Rightarrow> bid list" where
  "live_blocks p bs = filter (\<lambda>b. tier_of p b \<noteq> None) bs"

definition blocks_in_tier :: "block_pool \<Rightarrow> bid list \<Rightarrow> tier \<Rightarrow> nat" where
  "blocks_in_tier p bs t = length (filter (\<lambda>b. tier_of p b = Some t) bs)"

lemma tiers_of_mem: "b \<in> set bs \<Longrightarrow> map_of (tiers_of p bs) b = tier_of p b"
  by (simp add: tiers_of_map(2) tier_of_def)

lemma summarise_spec:
  fixes mc :: model_config and bw :: bandwidth_config
  defines "bs \<equiv> block_size mc"
  shows "matched_tokens (summarise mc bw m path p) = length (live_blocks p (take (m div bs) path)) * bs"
    "count_of (matched_blocks_by_tier (summarise mc bw m path p)) t = blocks_in_tier p (take (m div bs) path) t"
    "transfer_cost_ms (summarise mc bw m path p) =
       of_nat (blocks_in_tier p (take (m div bs) path) cpu) * of_nat (bs * kv_bytes_per_token mc) / gpu_to_cpu bw * 1000 +
       of_nat (blocks_in_tier p (take (m div bs) path) disk) * of_nat (bs * kv_bytes_per_token mc) *
         (1 / cpu_to_disk bw + 1 / gpu_to_cpu bw) * 1000"
proof -
  let ?rel = "take (m div bs) path"
  let ?tc = "count_tiers (tiers_of p ?rel) ?rel []"
  have cnt: "count_of ?tc t = blocks_in_tier p ?rel t" for t
    unfolding count_tiers_of blocks_in_tier_def
    by (simp add: count_of_def tiers_of_mem cong: filter_cong)
  have sm: "sum_list (map snd ?tc) = length (live_blocks p ?rel)"
    unfolding live_blocks_def using count_tiers_sum[of "[]" "tiers_of p ?rel" ?rel]
    by (simp add: tiers_of_mem cong: filter_cong)
  have zero: "blocks_in_tier p ?rel t = 0" if "length (live_blocks p ?rel) = 0" for t
    using that by (auto simp: live_blocks_def blocks_in_tier_def filter_empty_conv)
  have ld: "cpu_load_ms bw k c = of_nat c * of_nat k / gpu_to_cpu bw * 1000"
    "disk_load_ms bw k c = of_nat c * of_nat k * (1 / cpu_to_disk bw + 1 / gpu_to_cpu bw) * 1000" for k c
    by (simp_all add: cpu_load_ms_def disk_load_ms_def)
  have res: "summarise mc bw m path p = (if length (live_blocks p ?rel) = 0 then no_hit
      else \<lparr>matched_tokens = length (live_blocks p ?rel) * bs, matched_blocks_by_tier = ?tc,
            transfer_cost_ms = cpu_load_ms bw (bs * kv_bytes_per_token mc) (blocks_in_tier p ?rel cpu) +
              disk_load_ms bw (bs * kv_bytes_per_token mc) (blocks_in_tier p ?rel disk)\<rparr>)"
    unfolding summarise_def Let_def bs_def[symmetric] sm cnt by (simp add: live_blocks_def)
  have nh: "matched_tokens no_hit = 0" "count_of (matched_blocks_by_tier no_hit) t = 0" "transfer_cost_ms no_hit = 0"
    by (simp_all add: no_hit_def count_of_def)
  show "matched_tokens (summarise mc bw m path p) = length (live_blocks p ?rel) * bs"
    unfolding res by (simp add: nh)
  show "count_of (matched_blocks_by_tier (summarise mc bw m path p)) t = blocks_in_tier p ?rel t"
    unfolding res by (simp add: nh zero cnt del: length_0_conv)
  show "transfer_cost_ms (summarise mc bw m path p) =
       of_nat (blocks_in_tier p ?rel cpu) * of_nat (bs * kv_bytes_per_token mc) / gpu_to_cpu bw * 1000 +
       of_nat (blocks_in_tier p ?rel disk) * of_nat (bs * kv_bytes_per_token mc) *
         (1 / cpu_to_disk bw + 1 / gpu_to_cpu bw) * 1000"
    unfolding res by (simp add: nh zero ld del: length_0_conv)
qed

lemma summarise_bounds:
  assumes "bandwidth_config_ok bw"
  shows "matched_tokens (summarise mc bw m path p) \<le> m" "0 \<le> transfer_cost_ms (summarise mc bw m path p)"
proof -
  have pos: "0 < gpu_to_cpu bw" "0 < cpu_to_disk bw" using assms by (simp_all add: bandwidth_config_ok_def)
  have "length (live_blocks p (take (m div block_size mc) path)) \<le> m div block_size mc"
    unfolding live_blocks_def by (rule le_trans[OF length_filter_le]) simp
  then have "matched_tokens (summarise mc bw m path p) \<le> m div block_size mc * block_size mc"
    unfolding summarise_spec(1) by (rule mult_le_mono1)
  then show "matched_tokens (summarise mc bw m path p) \<le> m"
    using div_times_less_eq_dividend[of m "block_size mc"] by linarith
  show "0 \<le> transfer_cost_ms (summarise mc bw m path p)" unfolding summarise_spec(3) using pos
    by (intro add_nonneg_nonneg mult_nonneg_nonneg divide_nonneg_nonneg) simp_all
qed

section \<open>Reachable cache managers\<close>

text \<open>
  Every state the public operations lead to, whatever they return or raise, except that
  nothing is said after a \<open>RuntimeError\<close>, which ends a simulation.
\<close>

inductive cm_reach ::
  "node_id list \<Rightarrow> model_config \<Rightarrow> node_config \<Rightarrow> bandwidth_config \<Rightarrow> time \<Rightarrow> (node_id \<Rightarrow> nat \<Rightarrow> bid) \<Rightarrow>
   cache_manager \<Rightarrow> bool" for node_ids mc nc bw t0 src where
  cm_start: "cm_reach node_ids mc nc bw t0 src (cm_init node_ids mc nc bw t0 src)"
| cm_lookup: "cm_reach node_ids mc nc bw t0 src s \<Longrightarrow> lookup now req nid s = (r1, s') \<Longrightarrow>
    cm_reach node_ids mc nc bw t0 src s'"
| cm_lookup_all: "cm_reach node_ids mc nc bw t0 src s \<Longrightarrow> lookup_all now req s = (r2, s') \<Longrightarrow>
    cm_reach node_ids mc nc bw t0 src s'"
| cm_admit: "cm_reach node_ids mc nc bw t0 src s \<Longrightarrow> admit now toks nid s = (r, s') \<Longrightarrow>
    r \<noteq> Inl RuntimeError \<Longrightarrow> cm_reach node_ids mc nc bw t0 src s'"
| cm_materialize: "cm_reach node_ids mc nc bw t0 src s \<Longrightarrow> materialize_request now rid toks nid s = (r4, s') \<Longrightarrow>
    r4 \<noteq> Inl RuntimeError \<Longrightarrow> cm_reach node_ids mc nc bw t0 src s'"
| cm_release: "cm_reach node_ids mc nc bw t0 src s \<Longrightarrow> release_request rid nid s = (r, s') \<Longrightarrow>
    cm_reach node_ids mc nc bw t0 src s'"

lemma cm_reach_inv:
  assumes "cm_reach node_ids mc nc bw t0 src s" "model_config_ok mc" "\<forall>nid. inj (src nid)"
  shows "cm_inv s"
  using assms
proof (induction rule: cm_reach.induct)
  case cm_start
  then show ?case by (intro cm_init_inv) auto
next
  case (cm_lookup_all s now req r2 s')
  then show ?case using lookup_each_keeps_inv by (metis lookup_all_def)
qed (blast intro: lookup_keeps_inv admit_keeps_inv materialize_keeps_inv release_keeps_inv)+

section \<open>A concrete cache manager for the witnesses\<close>

definition demo_model :: model_config where
  "demo_model = \<lparr>block_size = 1, kv_bytes_per_token = 512, prefill_cost_per_token_ms = 33 / 1000,
     decode_base_ms = 5, marginal_decode_ms = 1 / 2, prefill_chunk_size = 512\<rparr>"

definition demo_node_cfg :: node_config where
  "demo_node_cfg = \<lparr>gpu_blocks = 3, cpu_blocks = 1, disk_blocks = 0, capacity = 4\<rparr>"

definition demo_cm :: cache_manager where
  "demo_cm = cm_init [''n''] demo_model demo_node_cfg bandwidth_config_default 0 (\<lambda>_. demo_src)"

lemma demo_model_ok: "model_config_ok demo_model"
  by (simp add: model_config_ok_def demo_model_def)

lemma demo_srcs: "\<forall>nid :: node_id. inj ((\<lambda>_. demo_src) nid)"
  using inj_demo_src by simp

lemma demo_cm_reach: "cm_reach [''n''] demo_model demo_node_cfg bandwidth_config_default 0 (\<lambda>_. demo_src) demo_cm"
  unfolding demo_cm_def by (rule cm_reach.cm_start)

lemma demo_cm_inv: "cm_inv demo_cm"
  by (rule cm_reach_inv[OF demo_cm_reach demo_model_ok demo_srcs])

definition demo_active :: cache_manager where
  "demo_active = snd (materialize_request 1 ''r'' [1, 2] ''n'' demo_cm)"

lemma demo_active_reach:
  "cm_reach [''n''] demo_model demo_node_cfg bandwidth_config_default 0 (\<lambda>_. demo_src) demo_active"
proof -
  have "fst (materialize_request 1 ''r'' [1, 2] ''n'' demo_cm) \<noteq> Inl RuntimeError" by code_simp
  then show ?thesis
    unfolding demo_active_def by (intro cm_reach.cm_materialize[OF demo_cm_reach prod.collapse[symmetric]])
qed

lemma demo_active_inv: "cm_inv demo_active"
  by (rule cm_reach_inv[OF demo_active_reach demo_model_ok demo_srcs])

section \<open>Properties\<close>

text \<open>C5. In every reachable state of the cache manager and on every node: the pin count of a
  block is exactly the number of active block tables that contain it; every block of an active
  table is still allocated; every allocated block is owned by a node of the radix tree, so no
  block leaks; and every tier is within its capacity.\<close>

theorem reachable_pins_exact:
  assumes "cm_reach node_ids mc nc bw t0 src s" "model_config_ok mc" "\<forall>nid. inj (src nid)"
    "map_of (trees s) nid = Some t" "pools s nid = Some p"
  shows "(\<forall>b. pin_count p b =
        int (card {rid. \<exists>tb. block_tables s (nid, rid) = Some tb \<and> b \<in> set (bt_block_ids tb)})) \<and>
    (\<forall>rid tb b. block_tables s (nid, rid) = Some tb \<longrightarrow> b \<in> set (bt_block_ids tb) \<longrightarrow> tier_of p b \<noteq> None) \<and>
    {b. tier_of p b \<noteq> None} \<subseteq> tree_blocks t \<and> tree_ok t \<and>
    (\<forall>tr st. tiers p tr = Some st \<longrightarrow> card (allocated st) \<le> tier_capacity st)"
proof -
  have inv: "cm_inv s" by (rule cm_reach_inv[OF assms(1-3)])
  have R: "node_inv (t, p)" "\<And>b. pin_count p b = int (card (holders s nid b))"
    using cm_invD(4)[OF inv assms(4,5)] by (auto simp: node_ready_def)
  note I = node_invD[OF R(1)]
  have alive: "tier_of p b \<noteq> None" if "block_tables s (nid, rid) = Some tb" "b \<in> set (bt_block_ids tb)" for rid tb b
  proof -
    have "rid \<in> holders s nid b" using that by (simp add: holders_def)
    then have "pin_count p b > 0" using R(2) finite_holders[OF inv] by (simp add: card_gt_0_iff) blast
    then show ?thesis using pin_count_allocated[OF I(2)] by (simp add: tier_of_def)
  qed
  have "{b. tier_of p b \<noteq> None} \<subseteq> tree_blocks t" using I(4) by (auto simp: tier_of_def)
  moreover have "\<forall>tr st. tiers p tr = Some st \<longrightarrow> card (allocated st) \<le> tier_capacity st"
    using pool_inv_capacity[OF I(2)] pool_inv_allocated[OF I(2)] by simp
  ultimately show ?thesis using alive I(1) R(2) unfolding holders_def by blast
qed

theorem reachable_pins_exact_witness:
  "\<exists>t p. map_of (trees demo_active) ''n'' = Some t \<and> pools demo_active ''n'' = Some p \<and> tree_ok t \<and>
     {b. tier_of p b \<noteq> None} \<subseteq> tree_blocks t"
proof -
  have "map_of (trees demo_active) ''n'' \<noteq> None" by code_simp
  then obtain t p where n: "map_of (trees demo_active) ''n'' = Some t" "pools demo_active ''n'' = Some p"
    by (rule cm_nodeE[OF demo_active_inv])
  show ?thesis
    using reachable_pins_exact[OF demo_active_reach demo_model_ok demo_srcs n] n by blast
qed

text \<open>C8. An admission, however it ends (also with \<open>RuntimeError\<close>), changes no pin count, moves or
  frees no pinned block, and does not touch the pool of any other node or any block table.\<close>

theorem admit_protects_active:
  assumes "cm_inv s" "pools s nid = Some p" "admit now toks nid s = (r, s')"
  shows "\<exists>p'. pools s' nid = Some p' \<and> (\<forall>b. pin_count p' b = pin_count p b) \<and>
    (\<forall>b. pin_count p b > 0 \<longrightarrow> tier_of p' b = tier_of p b) \<and>
    (\<forall>n'. n' \<noteq> nid \<longrightarrow> pools s' n' = pools s n') \<and> block_tables s' = block_tables s"
proof -
  have "map_of (trees s) nid \<noteq> None" using cm_invD(3)[OF assms(1), of nid] assms(2) by simp
  then obtain t where n: "map_of (trees s) nid = Some t" and rd: "node_ready s nid t p"
    using cm_nodeE[OF assms(1)] assms(2) by (metis option.inject)
  have nd: "node_inv (t, p)" using rd by (simp add: node_ready_def)
  let ?bs = "block_size (model_cfg s)"
  obtain r' t' p' where m: "admit_node ?bs (gpu_capacity s nid) now toks (t, p) = (r', (t', p'))"
    by (cases "admit_node ?bs (gpu_capacity s nid) now toks (t, p)") auto
  have s': "s' = s\<lparr>trees := AList.update nid t' (trees s), pools := (pools s)(nid \<mapsto> p')\<rparr>"
    using assms(3) m by (simp add: admit_def on_node_run[OF n assms(2)])
  have "pool_frame p p'"
  proof (cases "length toks div ?bs = 0")
    case True
    then show ?thesis using m pool_frame_refl[OF node_invD(2)[OF nd]] by (simp add: admit_node_def)
  next
    case False
    then show ?thesis
      using admit_node_post[OF nd cm_invD(1)[OF assms(1)], of toks "gpu_capacity s nid" now] m
      by (simp add: admit_post_def)
  qed
  then show ?thesis using s' by (simp add: pool_frame_def tier_of_def)
qed

theorem admit_protects_active_witness:
  "\<exists>p p'. pools demo_active ''n'' = Some p \<and> pools (snd (admit 2 [7, 8] ''n'' demo_active)) ''n'' = Some p' \<and>
     (\<forall>b. pin_count p b > 0 \<longrightarrow> tier_of p' b = tier_of p b)"
proof -
  have "pools demo_active ''n'' \<noteq> None" by code_simp
  then obtain p where p: "pools demo_active ''n'' = Some p" by blast
  show ?thesis
    using admit_protects_active[OF demo_active_inv p prod.collapse[symmetric], of 2 "[7, 8]"] p by blast
qed

text \<open>What a materialisation does, at the level of the manager.\<close>

lemma materialize_run:
  assumes inv: "cm_inv s" and n: "map_of (trees s) nid = Some t" "pools s nid = Some p"
    and key: "block_tables s (nid, rid) = None"
    and a: "materialize_request now rid toks nid s = (r, s')"
  obtains e p' where "r = Inl e" "e \<in> {MemoryError, RuntimeError}" "pools s' nid = Some p'"
      "block_tables s' = block_tables s" "\<And>b. pin_count p' b = pin_count p b"
    | tb t' p' where "r = Inr tb" "pools s' nid = Some p'" "map_of (trees s') nid = Some t'"
      "block_tables s' = (block_tables s)((nid, rid) \<mapsto> tb)" "bt_request_id tb = rid" "bt_node_id tb = nid"
      "length (bt_block_ids tb) = length toks div block_size (model_cfg s)" "distinct (bt_block_ids tb)"
      "matched_blocks tb + new_blocks tb = length (bt_block_ids tb)"
      "\<forall>b \<in> set (bt_block_ids tb). tier_of p' b \<noteq> None"
      "\<And>b. pin_count p' b = pin_count p b + (if b \<in> set (bt_block_ids tb) then 1 else 0)"
proof -
  let ?bs = "block_size (model_cfg s)" and ?n = "length toks div block_size (model_cfg s)"
  let ?al = "take (?n * ?bs) toks"
  have nd: "node_inv (t, p)" "tree_block_size t = ?bs" using cm_invD(4)[OF inv n] by (auto simp: node_ready_def)
  show thesis
  proof (cases "?n = 0")
    case True
    then show thesis
      using a key n by (intro that(2)[of _ p t]) (auto simp: materialize_request_def aligned_tokens_def Let_def)
  next
    case pos: False
    have len: "length ?al = ?n * ?bs" by (simp add: min_absorb2 div_times_less_eq_dividend)
    obtain r' t' p' where m: "materialize_node ?bs (gpu_capacity s nid) now ?al ?n (t, p) = (r', (t', p'))"
      by (cases "materialize_node ?bs (gpu_capacity s nid) now ?al ?n (t, p)") auto
    have post: "table_post ?n (t, p) (r', (t', p'))"
      using materialize_node_post[OF nd cm_invD(1)[OF inv] len, of "gpu_capacity s nid" now] pos m by simp
    show thesis
    proof (cases r')
      case (Inl e)
      then have "r = Inl e" "s' = s\<lparr>trees := AList.update nid t' (trees s), pools := (pools s)(nid \<mapsto> p')\<rparr>"
        using a m key n pos by (simp_all add: materialize_request_def aligned_tokens_def on_node_run[OF n])
      moreover have "e \<in> {MemoryError, RuntimeError}" "\<And>b. pin_count p' b = pin_count p b"
        using post Inl by (auto simp: table_post_def)
      ultimately show thesis by (intro that(1)[of e p']) auto
    next
      case (Inr x)
      obtain bids k where x: "x = (bids, k)" by (cases x)
      let ?tb = "\<lparr>bt_request_id = rid, bt_node_id = nid, bt_block_ids = bids, matched_blocks = k, new_blocks = ?n - k\<rparr>"
      have "r = Inr ?tb" "s' = s\<lparr>trees := AList.update nid t' (trees s), pools := (pools s)(nid \<mapsto> p'),
          block_tables := (block_tables s)((nid, rid) \<mapsto> ?tb)\<rparr>"
        using a m Inr x key n pos
        by (simp_all add: materialize_request_def aligned_tokens_def on_node_run[OF n] Let_def)
      moreover have "length bids = ?n" "distinct bids" "k \<le> ?n" "\<forall>b \<in> set bids. block_tier p' b \<noteq> None"
        "\<And>b. pin_count p' b = pin_count p b + (if b \<in> set bids then 1 else 0)"
        using post Inr x by (auto simp: table_post_def)
      ultimately show thesis
        by (intro that(2)[of ?tb p' t']) (auto simp: update_conv' tier_of_def)
    qed
  qed
qed

text \<open>C6. \<open>materialize_request\<close> for a request that has no table on a known node either returns a
  complete table, or raises \<open>MemoryError\<close> or \<open>RuntimeError\<close> and leaves every pin count and every
  table as it was. A complete table has one block per full block of the prompt, all different,
  all allocated, each pinned exactly once more than before, and no other pin count changed:
  the prefix pinned before the eviction is part of it, whatever the eviction did.\<close>

theorem materialize_complete_or_nothing:
  assumes "cm_inv s" "pools s nid = Some p" "block_tables s (nid, rid) = None"
    "materialize_request now rid toks nid s = (r, s')"
  shows "\<exists>p'. pools s' nid = Some p' \<and> (case r of
      Inl e \<Rightarrow> e \<in> {MemoryError, RuntimeError} \<and> block_tables s' = block_tables s \<and>
        (\<forall>b. pin_count p' b = pin_count p b)
    | Inr tb \<Rightarrow> block_tables s' = (block_tables s)((nid, rid) \<mapsto> tb) \<and>
        length (bt_block_ids tb) = length toks div block_size (model_cfg s) \<and> distinct (bt_block_ids tb) \<and>
        matched_blocks tb + new_blocks tb = length (bt_block_ids tb) \<and>
        (\<forall>b \<in> set (bt_block_ids tb). tier_of p' b \<noteq> None) \<and>
        (\<forall>b. pin_count p' b = pin_count p b + (if b \<in> set (bt_block_ids tb) then 1 else 0)))"
proof -
  obtain t where n: "map_of (trees s) nid = Some t"
    using cm_invD(3)[OF assms(1), of nid] assms(2) by (cases "map_of (trees s) nid") auto
  show ?thesis by (rule materialize_run[OF assms(1) n assms(2-4)]) auto
qed

theorem materialize_complete_or_nothing_witness:
  "\<exists>p' tb. pools demo_active ''n'' = Some p' \<and> block_tables demo_active (''n'', ''r'') = Some tb \<and>
     length (bt_block_ids tb) = 2 \<and> (\<forall>b \<in> set (bt_block_ids tb). tier_of p' b \<noteq> None \<and> pin_count p' b > 0)"
proof -
  obtain p where p: "pools demo_cm ''n'' = Some p" by (simp add: demo_cm_def cm_init_def)
  have k: "block_tables demo_cm (''n'', ''r'') = None" by (simp add: demo_cm_def cm_init_def)
  have bs: "block_size (model_cfg demo_cm) = 1" by (simp add: demo_cm_def cm_init_def demo_model_def)
  obtain r where r: "materialize_request 1 ''r'' [1, 2] ''n'' demo_cm = (r, demo_active)"
    unfolding demo_active_def by (metis prod.collapse)
  have "\<not> isl (fst (materialize_request 1 ''r'' [1, 2] ''n'' demo_cm))" by code_simp
  then obtain tb where tb: "r = Inr tb" using r by (cases r) auto
  have "pin_count p b \<ge> 0" for b
    using cm_nodeE[OF demo_cm_inv, of "''n''"] p pin_count_nonneg node_invD(2)
    by (metis cm_invD(3)[OF demo_cm_inv] node_ready_def option.distinct(1) option.inject)
  then show ?thesis
    using materialize_complete_or_nothing[OF demo_cm_inv p k r] tb bs
    by (auto simp: add_pos_nonneg add.commute zless_add1_eq)
qed

text \<open>C7. Round trip of a request: after a successful \<open>materialize_request\<close>, \<open>release_request\<close>
  succeeds, removes the table and returns every pin count of the node to what it was; releasing
  once more raises \<open>KeyError\<close> and changes nothing.\<close>

theorem materialize_then_release:
  assumes "cm_inv s" "pools s nid = Some p" "materialize_request now rid toks nid s = (Inr tb, s1)"
  shows "\<exists>s2 p2. release_request rid nid s1 = (Inr (), s2) \<and> pools s2 nid = Some p2 \<and> cm_inv s2 \<and>
    block_tables s2 = block_tables s \<and> (\<forall>b. pin_count p2 b = pin_count p b) \<and>
    release_request rid nid s2 = (Inl KeyError, s2)"
proof -
  obtain t where n: "map_of (trees s) nid = Some t"
    using cm_invD(3)[OF assms(1), of nid] assms(2) by (cases "map_of (trees s) nid") auto
  have key: "block_tables s (nid, rid) = None"
    using assms(3) n by (auto simp: materialize_request_def split: if_splits)
  have inv1: "cm_inv s1" by (rule materialize_keeps_inv[OF assms(1,3)]) simp
  obtain p1 where M: "pools s1 nid = Some p1" "block_tables s1 = (block_tables s)((nid, rid) \<mapsto> tb)"
    by (rule materialize_run[OF assms(1) n assms(2) key assms(3)]) auto
  obtain s2 where R: "release_request rid nid s1 = (Inr (), s2)" "cm_inv s2"
    "block_tables s2 = (block_tables s1)((nid, rid) := None)"
    using release_run[OF inv1, of nid rid tb] M(2) by auto
  have bt: "block_tables s2 = block_tables s" using R(3) M(2) key by auto
  have "map_of (trees s1) nid \<noteq> None" using cm_invD(3)[OF inv1, of nid] M(1) by simp
  then have "map_of (trees s2) nid \<noteq> None"
    using R(1) M(2) by (auto simp: release_request_def on_node_def update_conv' split: option.splits prod.splits)
  then obtain t2 p2 where n2: "map_of (trees s2) nid = Some t2" "pools s2 nid = Some p2" "node_ready s2 nid t2 p2"
    by (rule cm_nodeE[OF R(2)])
  have "pin_count p2 b = pin_count p b" for b
    using n2(3) cm_invD(4)[OF assms(1) n assms(2)] bt by (simp add: node_ready_def holders_def)
  moreover have "release_request rid nid s2 = (Inl KeyError, s2)" using n2(1) bt key by (simp add: release_request_def)
  ultimately show ?thesis using R(1,2) n2(2) bt by blast
qed

theorem materialize_then_release_witness:
  "\<exists>s2. release_request ''r'' ''n'' demo_active = (Inr (), s2) \<and> block_tables s2 = Map.empty"
proof -
  obtain p where p: "pools demo_cm ''n'' = Some p" by (simp add: demo_cm_def cm_init_def)
  obtain r where r: "materialize_request 1 ''r'' [1, 2] ''n'' demo_cm = (r, demo_active)"
    unfolding demo_active_def by (metis prod.collapse)
  have "\<not> isl (fst (materialize_request 1 ''r'' [1, 2] ''n'' demo_cm))" by code_simp
  then obtain tb where tb: "r = Inr tb" using r by (cases r) auto
  show ?thesis
    using materialize_then_release[OF demo_cm_inv p r[unfolded tb]] by (auto simp: demo_cm_def cm_init_def)
qed

text \<open>C11. A lookup on a known node always returns. It counts, among the blocks that fill the longest
  cached prefix of the prompt, those still allocated: \<open>matched_tokens\<close> is that number of blocks
  in tokens, never more than the prompt; the per-tier counts are exact; the transfer cost charges
  a CPU block one hop and a disk block both hops, is never negative, and is zero when every
  matched block is on the GPU. The pool is unchanged and the tree only in its time stamps.\<close>

theorem lookup_reports:
  assumes "cm_inv s" "map_of (trees s) nid = Some t" "pools s nid = Some p"
    "bandwidth_config_ok (bw_cfg s)" "lookup now req nid s = (r, s')"
  shows "\<exists>c m path t'. r = Inr c \<and> m \<le> length (token_ids req) \<and> take m (token_ids req) \<in> cached t \<and>
    (\<forall>ts \<in> cached t. prefix ts (token_ids req) \<longrightarrow> length ts \<le> m) \<and> path_ids t (take m (token_ids req)) path \<and>
    (let full = take (m div block_size (model_cfg s)) path;
         bytes = of_nat (block_size (model_cfg s) * kv_bytes_per_token (model_cfg s))
     in length full = m div block_size (model_cfg s) \<and>
        matched_tokens c = length (live_blocks p full) * block_size (model_cfg s) \<and>
        (\<forall>tr. count_of (matched_blocks_by_tier c) tr = blocks_in_tier p full tr) \<and>
        transfer_cost_ms c = of_nat (blocks_in_tier p full cpu) * bytes / gpu_to_cpu (bw_cfg s) * 1000 +
          of_nat (blocks_in_tier p full disk) * bytes *
            (1 / cpu_to_disk (bw_cfg s) + 1 / gpu_to_cpu (bw_cfg s)) * 1000) \<and>
    matched_tokens c \<le> length (token_ids req) \<and> block_size (model_cfg s) dvd matched_tokens c \<and>
    0 \<le> transfer_cost_ms c \<and> pools s' = pools s \<and> map_of (trees s') nid = Some t' \<and> strip t' = strip t"
proof (rule lookup_run[OF assms(1-3), of now req])
  fix m path t' a L
  assume M: "lookup now req nid s = (Inr (summarise (model_cfg s) (bw_cfg s) m path p),
       s\<lparr>trees := AList.update nid t' (trees s), pools := (pools s)(nid \<mapsto> p)\<rparr>)"
    "strip t' = strip t" "tree_wf t L" "m \<le> length (token_ids req)" "live t a" "L a = take m (token_ids req)"
    "path_blocks t a path" "\<And>x. live t x \<Longrightarrow> prefix (L x) (token_ids req) \<Longrightarrow> length (L x) \<le> m"
  let ?mc = "model_cfg s" and ?bw = "bw_cfg s" and ?bs = "block_size (model_cfg s)"
  let ?c = "summarise ?mc ?bw m path p" and ?full = "take (m div ?bs) path"
  note S = summarise_spec[of ?mc ?bw m path p]
  have sz: "tree_block_size t = ?bs" using cm_invD(4)[OF assms(1-3)] by (simp add: node_ready_def)
  have len: "length ?full = m div ?bs" using path_blocks_length[OF M(3,7) sz, of m] M(4,6) by simp
  have le: "matched_tokens ?c \<le> length (token_ids req)" and cost: "0 \<le> transfer_cost_ms ?c"
    using summarise_bounds[OF assms(4), of ?mc m path p] M(4) by simp_all
  have cc: "take m (token_ids req) \<in> cached t" "\<forall>ts \<in> cached t. prefix ts (token_ids req) \<longrightarrow> length ts \<le> m"
    unfolding cached_labels[OF M(3)] using M(5,6,8) by (auto simp: image_iff)
  have pi: "path_ids t (take m (token_ids req)) path" using path_blocks_ids[OF M(3,7)] M(6) by simp
  have r: "r = Inr ?c" "pools s' = pools s" "map_of (trees s') nid = Some t'"
    using M(1) assms(3,5) by (auto simp: update_conv' fun_upd_idem)
  have dv: "?bs dvd matched_tokens ?c" unfolding S(1) by simp
  show ?thesis
    unfolding Let_def
    by (rule exI[of _ ?c], rule exI[of _ m], rule exI[of _ path], rule exI[of _ t'])
      (use r M(2,4) cc pi len S le dv cost in simp)
qed

theorem lookup_reports_witness:
  "\<exists>c. fst (lookup 4 \<lparr>request_id = ''q'', token_ids = [1, 2, 9], prefix_hash = ''h'', expected_output_len = 4,
       arrival_time = 0, slo_ttft = 2000, slo_tbt = 100, priority = 0\<rparr> ''n'' demo_active) = Inr c \<and>
     matched_tokens c \<le> 3 \<and> 0 \<le> transfer_cost_ms c"
proof -
  let ?q = "\<lparr>request_id = ''q'', token_ids = [1, 2, 9], prefix_hash = ''h'', expected_output_len = 4,
       arrival_time = 0, slo_ttft = 2000, slo_tbt = 100, priority = 0\<rparr> :: request"
  have "map_of (trees demo_active) ''n'' \<noteq> None" by code_simp
  then obtain t p where n: "map_of (trees demo_active) ''n'' = Some t" "pools demo_active ''n'' = Some p"
    by (rule cm_nodeE[OF demo_active_inv])
  have "bandwidth_config_ok (bw_cfg demo_active)" by code_simp
  from lookup_reports[OF demo_active_inv n this prod.collapse[symmetric], of 4 ?q]
  obtain c where "fst (lookup 4 ?q ''n'' demo_active) = Inr c" "matched_tokens c \<le> length (token_ids ?q)"
    "0 \<le> transfer_cost_ms c" by blast
  then show ?thesis by (intro exI[of _ c]) simp
qed

text \<open>C10. The eviction loop of \<open>admit\<close> ends on every consistent node, with as many rounds as three
  times the GPU, twice the CPU and once the disk blocks in use. It either reports that the
  requested room is there, or raises \<open>MemoryError\<close>, and then every leaf of the tree has a pinned
  block (or is referenced). Pin counts and pinned blocks are untouched, and a node that still
  has an allocated block stays in the tree.\<close>

theorem eviction_terminates:
  assumes "node_inv (t, p)"
  shows "\<exists>r t' p'. make_room (Suc (pool_weight p)) cap need now (t, p) = (r, (t', p')) \<and> node_inv (t', p') \<and>
    (\<forall>b. pin_count p' b = pin_count p b) \<and> (\<forall>b. pin_count p b > 0 \<longrightarrow> tier_of p' b = tier_of p b) \<and>
    (\<forall>b. tier_of p' b \<noteq> None \<longrightarrow> tier_of p b \<noteq> None) \<and>
    (\<forall>ts k ids. owns t ts k ids \<longrightarrow> (\<exists>b \<in> set ids. tier_of p' b \<noteq> None) \<longrightarrow> owns t' ts k ids) \<and>
    (case r of
       Inl e \<Rightarrow> e = MemoryError \<and> (\<forall>a n. registered t' a \<longrightarrow> heap t' a = Some n \<longrightarrow> children n = [] \<longrightarrow>
         node_ref_count n = 0 \<longrightarrow> (\<exists>b \<in> set (block_ids n). pin_count p' b > 0))
     | Inr _ \<Rightarrow> gpu_used p' + need \<le> cap)"
proof -
  obtain r s' where m0: "make_room (Suc (pool_weight p)) cap need now (t, p) = (r, s')" "demoted (t, p) s'"
    "case r of Inl e \<Rightarrow> e = MemoryError \<and> demotable (Some (\<lambda>b. pin_count (snd s') b > 0)) (fst s') = []
     | Inr _ \<Rightarrow> gpu_used (snd s') + need \<le> cap"
    using make_room_spec[OF assms, of "Suc (pool_weight p)" cap need now] unfolding snd_conv by blast
  obtain t' p' where s': "s' = (t', p')" by (cases s')
  note m = m0[unfolded s' fst_conv snd_conv]
  note D = demotedD[OF m(2), simplified]
  obtain L where wf: "tree_wf t' L" using node_invD(1)[OF D(1)] by (auto simp: tree_ok_def)
  have leaf: "\<exists>b \<in> set (block_ids n). pin_count p' b > 0"
    if "demotable (Some (\<lambda>b. pin_count p' b > 0)) t' = []" "registered t' a" "heap t' a = Some n"
      "children n = []" "node_ref_count n = 0" for a n
    using demotable_iff[OF wf, of a n "\<lambda>b. pin_count p' b > 0"] that by auto
  have tiers: "\<forall>b. tier_of p' b \<noteq> None \<longrightarrow> tier_of p b \<noteq> None" using D(3) by (auto simp: tier_of_def)
  have own: "\<forall>ts k ids. owns t ts k ids \<longrightarrow> (\<exists>b \<in> set ids. tier_of p' b \<noteq> None) \<longrightarrow> owns t' ts k ids"
    using D(5) unfolding shrinks_def by blast
  have fr: "\<forall>b. pin_count p' b = pin_count p b" "\<forall>b. pin_count p b > 0 \<longrightarrow> tier_of p' b = tier_of p b"
    using D(2) by (simp_all add: pool_frame_def tier_of_def)
  show ?thesis
  proof (cases r)
    case (Inl e)
    then show ?thesis using m(1,3) D(1) fr tiers own leaf by (intro exI[of _ r] exI[of _ t'] exI[of _ p']) auto
  next
    case (Inr u)
    then show ?thesis using m(1,3) D(1) fr tiers own by (intro exI[of _ r] exI[of _ t'] exI[of _ p']) auto
  qed
qed

theorem eviction_terminates_witness:
  "\<exists>r t' p'. make_room (Suc (pool_weight (snd demo_filled))) 2 2 6 demo_filled = (r, (t', p')) \<and> node_inv (t', p') \<and>
     r \<noteq> Inl OutOfFuel"
proof -
  obtain r t' p' where "make_room (Suc (pool_weight (snd demo_filled))) 2 2 6 (fst demo_filled, snd demo_filled) =
      (r, (t', p'))" "node_inv (t', p')" "case r of Inl e \<Rightarrow> e = MemoryError | Inr _ \<Rightarrow> True"
    using eviction_terminates[OF demo_filled_inv, of 2 2 6] by (fastforce split: sum.splits)
  then show ?thesis by (intro exI[of _ r] exI[of _ t'] exI[of _ p']) (auto simp del: make_room.simps)
qed

section \<open>Error paths the callers do not expect\<close>

text \<open>
  A node of three GPU blocks and one CPU block whose first prompt was partly evicted: after
  \<open>[1, 2]\<close> and then \<open>[5, 6]\<close> were served and released, the radix node of \<open>[1, 2]\<close> holds one live
  and one dead block.
\<close>

definition serve :: "req_id \<Rightarrow> token list \<Rightarrow> time \<Rightarrow> cache_manager \<Rightarrow> cache_manager" where
  "serve rid toks now s =
     snd (release_request rid ''n'' (snd (materialize_request now rid toks ''n'' s)))"

definition demo_mixed :: cache_manager where
  "demo_mixed = serve ''r2'' [5, 6] 2 (serve ''r1'' [1, 2] 1 demo_cm)"

lemma serve_reach:
  assumes "cm_reach [''n''] demo_model nc bw 0 src s"
    and "fst (materialize_request now rid toks ''n'' s) \<noteq> Inl RuntimeError"
  shows "cm_reach [''n''] demo_model nc bw 0 src (serve rid toks now s)"
  unfolding serve_def
  by (rule cm_reach.cm_release[OF cm_reach.cm_materialize[OF assms(1) prod.collapse[symmetric] assms(2)]
        prod.collapse[symmetric]])

text \<open>
  A reachable cache manager in which no request is active can make
  \<open>materialize_request\<close> raise \<open>RuntimeError\<close> for a prompt that fits the node: the live prefix is
  pinned first, and \<open>admit\<close> then asks the pool to free the same radix node because its tail is
  dead. The simulator handles only \<open>MemoryError\<close>.
\<close>

theorem materialize_pins_block_own_purge:
  "cm_reach [''n''] demo_model demo_node_cfg bandwidth_config_default 0 (\<lambda>_. demo_src) demo_mixed \<and>
   block_tables demo_mixed (''n'', ''r1'') = None \<and> block_tables demo_mixed (''n'', ''r2'') = None \<and>
   length [1, 2 :: token] div block_size demo_model \<le> gpu_blocks demo_node_cfg \<and>
   fst (materialize_request 3 ''r3'' [1, 2] ''n'' demo_mixed) = Inl RuntimeError"
proof -
  have m1: "fst (materialize_request 1 ''r1'' [1, 2] ''n'' demo_cm) \<noteq> Inl RuntimeError" by code_simp
  have m2: "fst (materialize_request 2 ''r2'' [5, 6] ''n'' (serve ''r1'' [1, 2] 1 demo_cm)) \<noteq> Inl RuntimeError"
    by code_simp
  have "cm_reach [''n''] demo_model demo_node_cfg bandwidth_config_default 0 (\<lambda>_. demo_src) demo_mixed"
    unfolding demo_mixed_def by (rule serve_reach[OF serve_reach[OF demo_cm_reach m1] m2])
  moreover have "block_tables demo_mixed (''n'', ''r1'') = None" "block_tables demo_mixed (''n'', ''r2'') = None"
    by code_simp+
  moreover have "length [1, 2 :: token] div block_size demo_model \<le> gpu_blocks demo_node_cfg" by code_simp
  moreover have "fst (materialize_request 3 ''r3'' [1, 2] ''n'' demo_mixed) = Inl RuntimeError" by code_simp
  ultimately show ?thesis by blast
qed

definition demo_tight :: cache_manager where
  "demo_tight = cm_init [''n''] (demo_model\<lparr>block_size := 2\<rparr>)
     \<lparr>gpu_blocks = 1, cpu_blocks = 1, disk_blocks = 0, capacity = 4\<rparr> bandwidth_config_default 0 (\<lambda>_. demo_src)"

text \<open>
  A prompt of exactly the node's GPU capacity can be refused although nothing is pinned and
  eviction succeeds: \<open>admit\<close> reserves \<open>min(total_blocks + 1, capacity)\<close> blocks, and an insertion
  that splits a radix node inside a block needs the extra one that the minimum cut off.
\<close>

theorem admit_at_capacity_may_fail:
  "fst (admit 1 [1, 2] ''n'' demo_tight) = Inr () \<and>
   fst (admit 2 [1, 9] ''n'' (snd (admit 1 [1, 2] ''n'' demo_tight))) = Inl MemoryError \<and>
   length [1, 9 :: token] div 2 \<le> gpu_capacity demo_tight ''n''"
proof -
  have "fst (admit 1 [1, 2] ''n'' demo_tight) = Inr ()" by code_simp
  moreover have "fst (admit 2 [1, 9] ''n'' (snd (admit 1 [1, 2] ''n'' demo_tight))) = Inl MemoryError" by code_simp
  moreover have "length [1, 9 :: token] div 2 \<le> gpu_capacity demo_tight ''n''" by code_simp
  ultimately show ?thesis by blast
qed

section \<open>When admission may refuse\<close>

definition all_leaves_pinned :: "radix_tree \<Rightarrow> block_pool \<Rightarrow> bool" where
  "all_leaves_pinned t p \<longleftrightarrow> (\<forall>a n. registered t a \<longrightarrow> heap t a = Some n \<longrightarrow> children n = [] \<longrightarrow>
     node_ref_count n = 0 \<longrightarrow> (\<exists>b \<in> set (block_ids n). pin_count p b > 0))"

lemma no_victim_all_pinned:
  assumes "node_inv (t, p)" "demotable (Some (\<lambda>b. pin_count p b > 0)) t = []"
  shows "all_leaves_pinned t p"
proof -
  obtain L where wf: "tree_wf t L" using node_invD(1)[OF assms(1)] by (auto simp: tree_ok_def)
  have "\<exists>b \<in> set (block_ids n). pin_count p b > 0"
    if "registered t a" "heap t a = Some n" "children n = []" "node_ref_count n = 0" for a n
    using demotable_iff[OF wf, of a n "\<lambda>b. pin_count p b > 0"] assms(2) that by auto
  then show ?thesis by (simp add: all_leaves_pinned_def)
qed

lemma gpu_room_used:
  assumes "pool_inv p" "caps p gpu = Some cap"
  shows "gpu_room p = int cap - int (gpu_used p)"
  using assms(2) by (auto simp: caps_def gpu_room_def gpu_used_def used_def require_tier_def tier_free_def tier_used_def)

lemma caps_frame: "pool_frame p p' \<Longrightarrow> caps p' = caps p"
  by (simp add: pool_frame_def caps_def fun_eq_iff)

lemma admit_slow_refusal:
  assumes inv: "node_inv s" and sz: "tree_block_size (fst s) = bs" "0 < bs" "length aligned = n * bs" "0 < n"
    and cap: "caps (snd s) gpu = Some cap" "n < cap"
    and r: "admit_slow cap now aligned n s = (Inl e, (t', p'))"
  shows "all_leaves_pinned t' p'"
proof -
  let ?need = "min (n + 1) cap"
  obtain r0 s1 where m: "make_room (Suc (pool_weight (snd s))) cap ?need now s = (r0, s1)" "demoted s s1"
    "case r0 of Inl e \<Rightarrow> e = MemoryError \<and> demotable (Some (\<lambda>b. pin_count (snd s1) b > 0)) (fst s1) = []
     | Inr _ \<Rightarrow> gpu_used (snd s1) + ?need \<le> cap"
    using make_room_spec[OF inv, of "Suc (pool_weight (snd s))" cap ?need now] by blast
  obtain t1 p1 where s1: "s1 = (t1, p1)" by (cases s1)
  note D = demotedD[OF m(2), unfolded s1 fst_conv snd_conv]
  show ?thesis
  proof (cases r0)
    case (Inl e0)
    then have "(t', p') = (t1, p1)" using r m(1) cap(2) s1
      by (simp add: admit_slow_def py_bind_def del: make_room.simps)
    then show ?thesis using no_victim_all_pinned[OF D(1)] m(3) Inl s1 by simp
  next
    case (Inr u)
    have "gpu_room p1 \<ge> int n + 1"
      using gpu_room_used[OF node_invD(2)[OF D(1)]] caps_frame[OF D(2)] cap m(3) Inr s1 by simp
    moreover have "n_blocks t1 aligned = n"
      using D(5) sz by (simp add: shrinks_def n_blocks_ceil)
    moreover have ins: "tree_insert pool_mint now aligned (t1, p1) = (Inl e, (t', p'))"
      using r m(1) cap(2) s1 Inr
      by (auto simp: admit_slow_def py_bind_def py_return_def simp del: make_room.simps insert_loop.simps
          split: prod.splits sum.splits)
    have "aligned \<noteq> []" using sz by auto
    from node_insert(4)[OF D(1) this ins refl] calculation show ?thesis by simp
  qed
qed

text \<open>
  C9. \<open>admit\<close> of a prompt that needs fewer blocks than the GPU tier has raises \<open>MemoryError\<close>
  only when eviction has nothing left to take: every childless, unreferenced radix node of the
  resulting tree holds a pinned block. In particular such a prompt is never refused in the
  middle of the insertion.
\<close>

theorem admit_refuses_only_when_pinned:
  assumes "node_inv (t, p)" "tree_block_size t = bs" "0 < bs" "caps p gpu = Some cap" "length toks div bs < cap"
    and "admit_node bs cap now toks (t, p) = (Inl MemoryError, (t', p'))"
  shows "\<forall>a n. registered t' a \<longrightarrow> heap t' a = Some n \<longrightarrow> children n = [] \<longrightarrow> node_ref_count n = 0 \<longrightarrow>
    (\<exists>b \<in> set (block_ids n). pin_count p' b > 0)"
proof -
  let ?n = "length toks div bs" and ?al = "take (length toks div bs * bs) toks"
  have pos: "?n \<noteq> 0" using assms(6) by (cases "?n = 0") (simp_all add: admit_node_def)
  have len: "length ?al = ?n * bs" by (simp add: min_absorb2 div_times_less_eq_dividend)
  obtain m ids t1 where M: "call_match_path now ?al (t, p) = (Inr (m, ids), (t1, p))" "strip t1 = strip t"
    "demoted (t, p) (t1, p)"
    using call_match_path_spec[OF assms(1), of now ?al thesis] by blast
  note inv1 = demotedD(1)[OF M(3)]
  have sz1: "tree_block_size t1 = bs" using arg_cong[OF M(2), of tree_block_size] assms(2) by simp
  consider "admit_slow cap now ?al ?n (t1, p) = (Inl MemoryError, (t', p'))"
    | "py_bind (call_purge_path ?al) (\<lambda>_. admit_slow cap now ?al ?n) (t1, p) = (Inl MemoryError, (t', p'))"
    using assms(6) pos M(1) unfolding admit_node_def Let_def py_bind_def by (auto split: if_splits)
  then have "all_leaves_pinned t' p'"
  proof cases
    case 1
    then show ?thesis using admit_slow_refusal[OF inv1 _ assms(3) len _ _ assms(5)] sz1 pos assms(4) by simp
  next
    case 2
    obtain r2 t2 p2 where P: "call_purge_path ?al (t1, p) = (r2, (t2, p2))"
      by (cases "call_purge_path ?al (t1, p)") auto
    note Q = call_purge_path_spec[OF inv1 P]
    show ?thesis
    proof (cases r2)
      case (Inl e)
      then show ?thesis using 2 P Q(2) by (simp add: py_bind_def)
    next
      case (Inr k)
      then have "node_inv (t2, p2)" "tree_block_size t2 = bs" "caps p2 gpu = Some cap"
        using Q(1,3) sz1 assms(4) caps_frame by (auto simp: shrinks_def)
      moreover have "admit_slow cap now ?al ?n (t2, p2) = (Inl MemoryError, (t', p'))"
        using 2 P Inr by (simp add: py_bind_def)
      ultimately show ?thesis using admit_slow_refusal[OF _ _ assms(3) len _ _ assms(5)] pos by simp
    qed
  qed
  then show ?thesis by (simp add: all_leaves_pinned_def)
qed

theorem admit_refuses_only_when_pinned_witness:
  "\<exists>t p t' p'. map_of (trees demo_active) ''n'' = Some t \<and> pools demo_active ''n'' = Some p \<and>
     admit_node 1 3 2 [7, 8] (t, p) = (Inl MemoryError, (t', p')) \<and>
     (\<forall>a n. registered t' a \<longrightarrow> heap t' a = Some n \<longrightarrow> children n = [] \<longrightarrow> node_ref_count n = 0 \<longrightarrow>
       (\<exists>b \<in> set (block_ids n). pin_count p' b > 0))"
proof -
  let ?t = "the (map_of (trees demo_active) ''n'')" and ?p = "the (pools demo_active ''n'')"
  have some: "map_of (trees demo_active) ''n'' \<noteq> None" "pools demo_active ''n'' \<noteq> None" by code_simp+
  then have n: "map_of (trees demo_active) ''n'' = Some ?t" "pools demo_active ''n'' = Some ?p" by auto
  have "node_inv (?t, ?p)" using cm_invD(4)[OF demo_active_inv n] by (simp add: node_ready_def)
  moreover have "tree_block_size ?t = 1" "caps ?p gpu = Some 3" by code_simp+
  moreover have "length [7, 8 :: token] div 1 < 3" by simp
  moreover have "fst (admit_node 1 3 2 [7, 8] (?t, ?p)) = Inl MemoryError" by code_simp
  then obtain t' p' where a: "admit_node 1 3 2 [7, 8] (?t, ?p) = (Inl MemoryError, (t', p'))"
    by (metis prod.collapse)
  ultimately show ?thesis
    using admit_refuses_only_when_pinned[of ?t ?p 1 3 "[7, 8]" 2 t' p'] n by (metis zero_less_one)
qed

end
