(* ===== verification/Mock_Node.thy ===== *)
theory Mock_Node
  imports Request_Types
begin

text \<open>
  \<open>engine/mock_node.py\<close>: the latency model of one inference node. A node has a bounded list of
  running requests, a FIFO queue of waiting ones, a FIFO pipeline of chunked prefills and the
  set of requests that take part in every batch decode step. Token counts are Python integers
  (\<open>int\<close>), times are milliseconds. The set \<open>decoding\<close> is iterated in sorted order only.
\<close>

section \<open>State\<close>

datatype phase = Queued | Admitted | Prefilling | Prefill_done | Decoding

record node_request_state =
  ns_request_id :: req_id
  ns_prompt_len :: int
  ns_expected_output_len :: int
  ns_phase :: phase
  uncached_total :: "int option"
  uncached_remaining :: int
  generated_tokens :: int
  has_prompt_len :: bool
  blocks_prefill_slot :: bool

record mock_node =
  mn_node_id :: node_id
  mn_model :: model_config
  mn_config :: node_config
  running_requests :: "req_id list"
  queue :: "req_id list"
  decoding :: "req_id set"
  output_tokens :: "req_id \<rightharpoonup> int"
  expected_output :: "req_id \<rightharpoonup> int"
  batch_step_in_flight :: bool
  prefill_remaining :: "(req_id \<times> int) list"
  states :: "req_id \<rightharpoonup> node_request_state"

definition mn_init :: "node_id \<Rightarrow> model_config \<Rightarrow> node_config \<Rightarrow> mock_node" where
  "mn_init nid mc nc =
     \<lparr>mn_node_id = nid, mn_model = mc, mn_config = nc, running_requests = [], queue = [], decoding = {},
      output_tokens = Map.empty, expected_output = Map.empty, batch_step_in_flight = False,
      prefill_remaining = [], states = Map.empty\<rparr>"

text \<open>\<open>state = self._states.get(rid); if state is not None: ...\<close>\<close>

definition upd_state :: "req_id \<Rightarrow> (node_request_state \<Rightarrow> node_request_state) \<Rightarrow> mock_node \<Rightarrow> mock_node" where
  "upd_state rid f s = s\<lparr>states := (states s)(rid := map_option f (states s rid))\<rparr>"

section \<open>Latency estimation\<close>

definition uncached_of :: "int \<Rightarrow> int \<Rightarrow> nat" where
  "uncached_of prompt_len cached_tokens = nat (max 0 (prompt_len - cached_tokens))"

definition step_per_chunk :: "model_config \<Rightarrow> nat \<Rightarrow> rat" where
  "step_per_chunk mc bs = of_nat (prefill_chunk_size mc) * prefill_cost_per_token_ms mc + decode_base_ms mc +
     of_nat bs * marginal_decode_ms mc"

definition estimate_prefill_time :: "int \<Rightarrow> int \<Rightarrow> nat option \<Rightarrow> mock_node \<Rightarrow> rat" where
  "estimate_prefill_time prompt_len cached_tokens batch_size_hint s =
     (let uncached = uncached_of prompt_len cached_tokens
      in case batch_size_hint of
           None \<Rightarrow> of_nat uncached * prefill_cost_per_token_ms (mn_model s)
         | Some bs \<Rightarrow>
             (let n_chunks = (if uncached > 0 then ceil_div uncached (prefill_chunk_size (mn_model s)) else 0)
              in of_nat n_chunks * step_per_chunk (mn_model s) bs))"

definition estimate_decode_time :: "nat \<Rightarrow> mock_node \<Rightarrow> rat" where
  "estimate_decode_time batch_size s = decode_base_ms (mn_model s) + of_nat batch_size * marginal_decode_ms (mn_model s)"

section \<open>Load metrics\<close>

definition current_load :: "mock_node \<Rightarrow> rat" where
  "current_load s = of_nat (length (running_requests s)) / of_nat (capacity (mn_config s))"

definition wait_decode_step_ms :: "mock_node \<Rightarrow> rat" where
  "wait_decode_step_ms s =
     (let bs = max (max (card (decoding s)) (length (running_requests s))) 1
      in decode_base_ms (mn_model s) + of_nat bs * marginal_decode_ms (mn_model s))"

definition wait_prefill_tokens :: "node_request_state \<Rightarrow> int option \<Rightarrow> int" where
  "wait_prefill_tokens st fallback_prompt_len =
     (if ns_phase st = Prefilling then max 0 (uncached_remaining st)
      else case uncached_total st of
        Some u \<Rightarrow> max 0 u
      | None \<Rightarrow> max 0 (if has_prompt_len st then ns_prompt_len st
                       else (case fallback_prompt_len of None \<Rightarrow> 0 | Some n \<Rightarrow> n)))"

definition remaining_lifecycle_ms :: "mock_node \<Rightarrow> int option \<Rightarrow> int option \<Rightarrow> node_request_state \<Rightarrow> rat" where
  "remaining_lifecycle_ms s fallback_prompt_len fallback_output_len st =
     (let expected = (if ns_expected_output_len st = 0 \<and> \<not> has_prompt_len st
            then (case fallback_output_len of None \<Rightarrow> ns_expected_output_len st | Some n \<Rightarrow> n)
            else ns_expected_output_len st);
          decode_tokens = max 0 (expected - generated_tokens st);
          decode_step = wait_decode_step_ms s
      in if ns_phase st = Prefill_done \<and> \<not> blocks_prefill_slot st then 0
         else if ns_phase st \<in> {Prefill_done, Decoding} then of_int decode_tokens * decode_step
         else of_int (wait_prefill_tokens st fallback_prompt_len) * prefill_cost_per_token_ms (mn_model s) +
              of_int decode_tokens * decode_step)"

definition state_for_wait :: "mock_node \<Rightarrow> req_id \<Rightarrow> node_request_state" where
  "state_for_wait s rid =
     (case states s rid of Some st \<Rightarrow> st
      | None \<Rightarrow> \<lparr>ns_request_id = rid, ns_prompt_len = 0, ns_expected_output_len = 0,
                 ns_phase = (if rid \<in> set (queue s) then Queued else Admitted), uncached_total = None,
                 uncached_remaining = 0, generated_tokens = 0, has_prompt_len = False, blocks_prefill_slot = True\<rparr>)"

fun no_metadata :: "mock_node \<Rightarrow> req_id list \<Rightarrow> bool" where
  "no_metadata s [] = True"
| "no_metadata s (rid # rids) =
     (case states s rid of None \<Rightarrow> True
      | Some st \<Rightarrow> if has_prompt_len st \<or> ns_expected_output_len st > 0 then False else no_metadata s rids)"

definition uses_legacy_wait_fallback :: "mock_node \<Rightarrow> req_id list \<Rightarrow> int option \<Rightarrow> int option \<Rightarrow> bool" where
  "uses_legacy_wait_fallback s blocker_ids prompt_len expected_out =
     (if prompt_len \<noteq> None \<or> expected_out \<noteq> None then False else no_metadata s blocker_ids)"

text \<open>The FIFO multi-server estimate: every queued request takes the earliest released slot.\<close>

fun fifo_slots :: "rat list \<Rightarrow> rat list \<Rightarrow> rat list result" where
  "fifo_slots slots [] = Inr slots"
| "fifo_slots [] (d # ds) = Inl IndexError"
| "fifo_slots (earliest # slots) (d # ds) = fifo_slots (sort (slots @ [earliest + d])) ds"

definition queue_wait_time :: "mock_node \<Rightarrow> int option \<Rightarrow> int option \<Rightarrow> rat result" where
  "queue_wait_time s prompt_len expected_out =
     (if length (running_requests s) < capacity (mn_config s) then Inr 0
      else if uses_legacy_wait_fallback s (running_requests s @ queue s) prompt_len expected_out
      then Inr (of_nat (length (queue s) + 1) * decode_base_ms (mn_model s))
      else let life = (\<lambda>rid. remaining_lifecycle_ms s prompt_len expected_out (state_for_wait s rid));
               running_remaining = map life (running_requests s)
           in if running_remaining = [] then Inr 0
              else (case fifo_slots (sort running_remaining) (map life (queue s)) of
                      Inl e \<Rightarrow> Inl e
                    | Inr slots \<Rightarrow> (case slots of [] \<Rightarrow> Inl IndexError | w # _ \<Rightarrow> Inr w)))"

section \<open>Request lifecycle\<close>

definition mn_admit :: "req_id \<Rightarrow> int \<Rightarrow> int option \<Rightarrow> int option \<Rightarrow> (mock_node, bool) py" where
  "mn_admit rid expected_out prompt_len uncached_tokens s =
     (let room = length (running_requests s) < capacity (mn_config s);
          utotal = map_option (max 0) uncached_tokens;
          st = \<lparr>ns_request_id = rid, ns_prompt_len = (case prompt_len of None \<Rightarrow> 0 | Some n \<Rightarrow> n),
                ns_expected_output_len = expected_out, ns_phase = (if room then Admitted else Queued),
                uncached_total = utotal, uncached_remaining = (case utotal of None \<Rightarrow> 0 | Some u \<Rightarrow> u),
                generated_tokens = 0, has_prompt_len = prompt_len \<noteq> None, blocks_prefill_slot = True\<rparr>;
          s = s\<lparr>states := (states s)(rid \<mapsto> st)\<rparr>
      in if room then
           (Inr True, s\<lparr>running_requests := running_requests s @ [rid],
                        output_tokens := (output_tokens s)(rid \<mapsto> 0),
                        expected_output := (expected_output s)(rid \<mapsto> expected_out)\<rparr>)
         else (Inr False, s\<lparr>queue := queue s @ [rid]\<rparr>))"

definition mark_batch_step_scheduled :: "(mock_node, unit) py" where
  "mark_batch_step_scheduled s =
     (if batch_step_in_flight s then (Inl RuntimeError, s) else (Inr (), s\<lparr>batch_step_in_flight := True\<rparr>))"

definition mark_batch_step_completed :: "(mock_node, unit) py" where
  "mark_batch_step_completed s = (Inr (), s\<lparr>batch_step_in_flight := False\<rparr>)"

definition is_batch_step_in_flight :: "mock_node \<Rightarrow> bool" where
  "is_batch_step_in_flight s = batch_step_in_flight s"

definition start_decode :: "req_id \<Rightarrow> (mock_node, unit) py" where
  "start_decode rid s =
     (if rid \<notin> set (running_requests s) then (Inl RuntimeError, s)
      else let out = (case output_tokens s rid of None \<Rightarrow> 0 | Some n \<Rightarrow> n);
               s = upd_state rid (\<lambda>st. st\<lparr>ns_phase := Decoding,
                     uncached_total := (case uncached_total st of None \<Rightarrow> Some 0 | Some u \<Rightarrow> Some u),
                     uncached_remaining := 0, generated_tokens := out, blocks_prefill_slot := True\<rparr>) s
           in (Inr (), s\<lparr>decoding := insert rid (decoding s)\<rparr>))"

definition promoted_state ::
  "req_id \<Rightarrow> int \<Rightarrow> int option \<Rightarrow> int option \<Rightarrow> node_request_state option \<Rightarrow> node_request_state" where
  "promoted_state rid expected_out prompt_len utotal old =
     (case old of
        None \<Rightarrow> \<lparr>ns_request_id = rid, ns_prompt_len = (case prompt_len of None \<Rightarrow> 0 | Some n \<Rightarrow> n),
                 ns_expected_output_len = expected_out, ns_phase = Admitted, uncached_total = utotal,
                 uncached_remaining = (case utotal of None \<Rightarrow> 0 | Some u \<Rightarrow> u), generated_tokens = 0,
                 has_prompt_len = prompt_len \<noteq> None, blocks_prefill_slot = True\<rparr>
      | Some st \<Rightarrow>
          (let st = st\<lparr>ns_phase := Admitted, ns_expected_output_len := expected_out, generated_tokens := 0\<rparr>;
               st = (case prompt_len of None \<Rightarrow> st | Some n \<Rightarrow> st\<lparr>ns_prompt_len := n, has_prompt_len := True\<rparr>)
           in (case utotal of None \<Rightarrow> st | Some u \<Rightarrow> st\<lparr>uncached_total := Some u, uncached_remaining := u\<rparr>)))"

definition init_promoted :: "req_id \<Rightarrow> int \<Rightarrow> int option \<Rightarrow> int option \<Rightarrow> (mock_node, unit) py" where
  "init_promoted rid expected_out prompt_len uncached_tokens s =
     (if rid \<notin> set (running_requests s) then (Inl RuntimeError, s)
      else (Inr (), s\<lparr>output_tokens := (output_tokens s)(rid \<mapsto> 0),
                      expected_output := (expected_output s)(rid \<mapsto> expected_out),
                      states := (states s)(rid \<mapsto> promoted_state rid expected_out prompt_len
                                  (map_option (max 0) uncached_tokens) (states s rid))\<rparr>))"

definition enter_prefill :: "req_id \<Rightarrow> int \<Rightarrow> (mock_node, unit) py" where
  "enter_prefill rid uncached_tokens s =
     (if rid \<notin> set (running_requests s) then (Inl RuntimeError, s)
      else (Inr (), upd_state rid (\<lambda>st. st\<lparr>ns_phase := Prefilling, uncached_total := Some (max 0 uncached_tokens),
                      uncached_remaining := uncached_tokens, blocks_prefill_slot := True\<rparr>)
                    (s\<lparr>prefill_remaining := AList.update rid uncached_tokens (prefill_remaining s)\<rparr>)))"

definition prefill_done_state :: "node_request_state \<Rightarrow> node_request_state" where
  "prefill_done_state st =
     st\<lparr>ns_phase := Prefill_done, uncached_total := Some 0, uncached_remaining := 0, blocks_prefill_slot := False\<rparr>"

definition mark_prefill_done :: "req_id \<Rightarrow> (mock_node, unit) py" where
  "mark_prefill_done rid s =
     (if rid \<notin> set (running_requests s) then (Inl RuntimeError, s)
      else (Inr (), upd_state rid prefill_done_state s))"

section \<open>The batch step\<close>

text \<open>The prefill chunk: the oldest entry of the pipeline, by at most one chunk.\<close>

definition chunk_this_step :: "mock_node \<Rightarrow> int" where
  "chunk_this_step s =
     (case prefill_remaining s of [] \<Rightarrow> 0 | (_, remaining) # _ \<Rightarrow> min remaining (int (prefill_chunk_size (mn_model s))))"

definition consume_chunk :: "mock_node \<Rightarrow> mock_node" where
  "consume_chunk s =
     (case prefill_remaining s of [] \<Rightarrow> s
      | (pid, remaining) # rest \<Rightarrow>
          (let left = remaining - chunk_this_step s
           in upd_state pid (\<lambda>st. st\<lparr>uncached_remaining := left\<rparr>) (s\<lparr>prefill_remaining := (pid, left) # rest\<rparr>)))"

definition decode_cost :: "mock_node \<Rightarrow> rat" where
  "decode_cost s = (if card (decoding s) > 0 then estimate_decode_time (card (decoding s)) s else 0)"

definition step_time :: "mock_node \<Rightarrow> rat" where
  "step_time s = of_int (chunk_this_step s) * prefill_cost_per_token_ms (mn_model s) + decode_cost s"

fun advance_streams :: "req_id list \<Rightarrow> (mock_node, req_id list) py" where
  "advance_streams [] s = (Inr [], s)"
| "advance_streams (rid # rids) s =
     (case output_tokens s rid of None \<Rightarrow> (Inl KeyError, s)
      | Some n \<Rightarrow>
          (let s' = upd_state rid (\<lambda>st. st\<lparr>generated_tokens := n + 1\<rparr>)
                      (s\<lparr>output_tokens := (output_tokens s)(rid \<mapsto> n + 1)\<rparr>)
           in case expected_output s rid of None \<Rightarrow> (Inl KeyError, s')
              | Some m \<Rightarrow> py_bind (advance_streams rids)
                            (\<lambda>done. py_return (if n + 1 \<ge> m then rid # done else done)) s'))"

definition finish_prefill :: "mock_node \<Rightarrow> req_id option \<times> mock_node" where
  "finish_prefill s =
     (case prefill_remaining s of [] \<Rightarrow> (None, s)
      | (pid, left) # rest \<Rightarrow>
          if left = 0 then (Some pid, upd_state pid prefill_done_state (s\<lparr>prefill_remaining := rest\<rparr>))
          else (None, s))"

definition tick_batch_step :: "time \<Rightarrow> (mock_node, time \<times> req_id list \<times> req_id option) py" where
  "tick_batch_step now s =
     (if decoding s = {} \<and> prefill_remaining s = [] then (Inl RuntimeError, s)
      else py_bind (advance_streams (sorted_list_of_set (decoding s))) (\<lambda>completed s'.
             let (pdone, s'') = finish_prefill (s'\<lparr>decoding := decoding s' - set completed\<rparr>)
             in (Inr (now + step_time s, completed, pdone), s''))
           (consume_chunk s))"

section \<open>Completion\<close>

definition forget :: "req_id \<Rightarrow> mock_node \<Rightarrow> mock_node" where
  "forget rid s =
     s\<lparr>output_tokens := (output_tokens s)(rid := None), expected_output := (expected_output s)(rid := None),
       decoding := decoding s - {rid}, prefill_remaining := AList.delete rid (prefill_remaining s),
       states := (states s)(rid := None)\<rparr>"

definition promote_next :: "mock_node \<Rightarrow> req_id option \<times> mock_node" where
  "promote_next s =
     (case queue s of [] \<Rightarrow> (None, s)
      | rid # rest \<Rightarrow>
          if length (running_requests s) < capacity (mn_config s) then
            (Some rid, upd_state rid (\<lambda>st. st\<lparr>ns_phase := Admitted, blocks_prefill_slot := True\<rparr>)
                         (s\<lparr>queue := rest, running_requests := running_requests s @ [rid]\<rparr>))
          else (None, s))"

definition complete :: "req_id \<Rightarrow> (mock_node, req_id option) py" where
  "complete rid s =
     (if rid \<in> set (running_requests s) then
        (let (p, s') = promote_next (forget rid (s\<lparr>running_requests := remove1 rid (running_requests s)\<rparr>)) in (Inr p, s'))
      else if rid \<in> set (queue s) then
        (let (p, s') = promote_next (forget rid (s\<lparr>queue := remove1 rid (queue s)\<rparr>)) in (Inr p, s'))
      else (Inl ValueError, s))"

end
