(* ===== verification/Node_Invariant.thy ===== *)
theory Node_Invariant
  imports Mock_Node
begin

text \<open>
  The invariant of a mock node and its preservation: the capacity bound, no request is lost or
  duplicated, the node is work conserving (nobody waits while a slot is free), and the decode
  batch and the prefill pipeline hold running requests only.
\<close>

section \<open>Record facts\<close>

lemma upd_state_simps [simp]:
  "mn_node_id (upd_state r f s) = mn_node_id s" "mn_model (upd_state r f s) = mn_model s"
  "mn_config (upd_state r f s) = mn_config s" "running_requests (upd_state r f s) = running_requests s"
  "queue (upd_state r f s) = queue s" "decoding (upd_state r f s) = decoding s"
  "output_tokens (upd_state r f s) = output_tokens s" "expected_output (upd_state r f s) = expected_output s"
  "batch_step_in_flight (upd_state r f s) = batch_step_in_flight s"
  "prefill_remaining (upd_state r f s) = prefill_remaining s" "dom (states (upd_state r f s)) = dom (states s)"
  by (auto simp: upd_state_def dom_def)

section \<open>The invariant\<close>

definition slots_ok :: "mock_node \<Rightarrow> bool" where
  "slots_ok s \<longleftrightarrow> length (running_requests s) \<le> capacity (mn_config s) \<and>
     distinct (running_requests s @ queue s) \<and>
     (queue s \<noteq> [] \<longrightarrow> length (running_requests s) = capacity (mn_config s))"

definition tracking_ok :: "mock_node \<Rightarrow> bool" where
  "tracking_ok s \<longleftrightarrow> dom (expected_output s) = dom (output_tokens s) \<and>
     dom (output_tokens s) \<subseteq> set (running_requests s) \<and> decoding s \<subseteq> dom (output_tokens s) \<and>
     distinct (map fst (prefill_remaining s)) \<and> fst ` set (prefill_remaining s) \<subseteq> set (running_requests s) \<and>
     dom (states s) = set (running_requests s) \<union> set (queue s)"

definition mn_inv :: "mock_node \<Rightarrow> bool" where
  "mn_inv s \<longleftrightarrow> slots_ok s \<and> tracking_ok s"

lemmas mn_inv_defs = mn_inv_def slots_ok_def tracking_ok_def

lemma mn_init_inv: "mn_inv (mn_init nid mc nc)"
  by (simp add: mn_inv_defs mn_init_def)

lemma mn_invD:
  assumes "mn_inv s"
  shows "length (running_requests s) \<le> capacity (mn_config s)" "distinct (running_requests s)" "distinct (queue s)"
    "set (running_requests s) \<inter> set (queue s) = {}"
    "queue s \<noteq> [] \<Longrightarrow> length (running_requests s) = capacity (mn_config s)"
    "dom (expected_output s) = dom (output_tokens s)" "dom (output_tokens s) \<subseteq> set (running_requests s)"
    "decoding s \<subseteq> dom (output_tokens s)" "distinct (map fst (prefill_remaining s))"
    "fst ` set (prefill_remaining s) \<subseteq> set (running_requests s)"
    "dom (states s) = set (running_requests s) \<union> set (queue s)" "finite (decoding s)"
proof -
  show f: "dom (output_tokens s) \<subseteq> set (running_requests s)" "decoding s \<subseteq> dom (output_tokens s)"
    using assms by (simp_all add: mn_inv_defs)
  show "finite (decoding s)" using finite_subset[OF subset_trans[OF f(2,1)]] by simp
qed (use assms in \<open>simp_all add: mn_inv_defs\<close>)

text \<open>A step that keeps the slots and only touches the bookkeeping of running requests.\<close>

lemma mn_inv_frame:
  assumes "mn_inv s" "running_requests s' = running_requests s" "queue s' = queue s" "mn_config s' = mn_config s"
    "dom (expected_output s') = dom (output_tokens s')" "dom (output_tokens s') \<subseteq> set (running_requests s)"
    "decoding s' \<subseteq> dom (output_tokens s')" "distinct (map fst (prefill_remaining s'))"
    "fst ` set (prefill_remaining s') \<subseteq> set (running_requests s)" "dom (states s') = dom (states s)"
  shows "mn_inv s'"
  using assms by (simp add: mn_inv_defs)

lemma mn_admit_inv:
  assumes "mn_inv s" "rid \<notin> set (running_requests s @ queue s)" "mn_admit rid n pl ut s = (r, s')"
  shows "mn_inv s'"
proof (cases "length (running_requests s) < capacity (mn_config s)")
  case True
  have s': "running_requests s' = running_requests s @ [rid]" "queue s' = queue s" "mn_config s' = mn_config s"
    "dom (output_tokens s') = insert rid (dom (output_tokens s))"
    "dom (expected_output s') = insert rid (dom (expected_output s))"
    "decoding s' = decoding s" "prefill_remaining s' = prefill_remaining s"
    "dom (states s') = insert rid (dom (states s))"
    using assms(3) True by (auto simp: mn_admit_def Let_def)
  show ?thesis using assms(1,2) True unfolding mn_inv_defs s' by auto
next
  case False
  have s': "running_requests s' = running_requests s" "queue s' = queue s @ [rid]" "mn_config s' = mn_config s"
    "output_tokens s' = output_tokens s" "expected_output s' = expected_output s"
    "decoding s' = decoding s" "prefill_remaining s' = prefill_remaining s"
    "dom (states s') = insert rid (dom (states s))"
    using assms(3) False by (auto simp: mn_admit_def Let_def)
  show ?thesis using assms(1,2) False unfolding mn_inv_defs s' by auto
qed

text \<open>The operations on a running request leave the slots alone.\<close>

lemma start_decode_inv:
  assumes "mn_inv s" "output_tokens s rid \<noteq> None" "start_decode rid s = (r, s')"
  shows "mn_inv s'"
proof (cases "rid \<in> set (running_requests s)")
  case True
  have "rid \<in> dom (output_tokens s)" using assms(2) by auto
  moreover have "dom (states s') = dom (states s)" "running_requests s' = running_requests s"
    "output_tokens s' = output_tokens s" "expected_output s' = expected_output s" "queue s' = queue s"
    "mn_config s' = mn_config s" "decoding s' = insert rid (decoding s)" "prefill_remaining s' = prefill_remaining s"
    using assms(3) True unfolding start_decode_def Let_def by (simp, elim conjE, hypsubst, simp)+
  ultimately show ?thesis using mn_invD(6-10)[OF assms(1)] by (intro mn_inv_frame[OF assms(1)]) simp_all
next
  case False
  then show ?thesis using assms by (simp add: start_decode_def)
qed

lemma init_promoted_inv:
  assumes "mn_inv s" "init_promoted rid n pl ut s = (r, s')"
  shows "mn_inv s'"
proof (cases "rid \<in> set (running_requests s)")
  case True
  then have s': "s' = s\<lparr>output_tokens := (output_tokens s)(rid \<mapsto> 0), expected_output := (expected_output s)(rid \<mapsto> n),
      states := (states s)(rid \<mapsto> promoted_state rid n pl (map_option (max 0) ut) (states s rid))\<rparr>"
    using assms(2) by (simp add: init_promoted_def)
  have "rid \<in> dom (states s)" using mn_invD(11)[OF assms(1)] True by simp
  then show ?thesis unfolding s' using True mn_invD(6-10)[OF assms(1)]
    by (intro mn_inv_frame[OF assms(1)]) (simp_all add: subset_insertI2 insert_absorb)
next
  case False
  then show ?thesis using assms by (simp add: init_promoted_def)
qed

lemma enter_prefill_inv:
  assumes "mn_inv s" "enter_prefill rid n s = (r, s')"
  shows "mn_inv s'"
proof (cases "rid \<in> set (running_requests s)")
  case True
  have keys: "fst ` set (AList.update rid n (prefill_remaining s)) = insert rid (fst ` set (prefill_remaining s))"
    using dom_update[of rid n "prefill_remaining s"] by simp
  have "distinct (map fst (AList.update rid n (prefill_remaining s)))"
    using mn_invD(9)[OF assms(1)] by (simp add: distinct_update)
  moreover obtain f where s': "s' = upd_state rid f (s\<lparr>prefill_remaining := AList.update rid n (prefill_remaining s)\<rparr>)"
    using assms(2) True by (auto simp: enter_prefill_def)
  ultimately show ?thesis unfolding s' using True keys mn_invD(6-10)[OF assms(1)]
    by (intro mn_inv_frame[OF assms(1)]) simp_all
next
  case False
  then show ?thesis using assms by (simp add: enter_prefill_def)
qed

lemma mark_prefill_done_inv:
  assumes "mn_inv s" "mark_prefill_done rid s = (r, s')"
  shows "mn_inv s'"
proof (cases "rid \<in> set (running_requests s)")
  case True
  then have s': "s' = upd_state rid prefill_done_state s" using assms(2) by (simp add: mark_prefill_done_def)
  show ?thesis unfolding s' using mn_invD(6-10)[OF assms(1)] by (intro mn_inv_frame[OF assms(1)]) simp_all
next
  case False
  then show ?thesis using assms by (simp add: mark_prefill_done_def)
qed

lemma mark_batch_step_inv:
  assumes "mn_inv s"
  shows "mark_batch_step_scheduled s = (r, s') \<Longrightarrow> mn_inv s'" "mark_batch_step_completed s = (r, s') \<Longrightarrow> mn_inv s'"
proof -
  have "mn_inv (s\<lparr>batch_step_in_flight := b\<rparr>)" for b
    using mn_invD(6-10)[OF assms] by (intro mn_inv_frame[OF assms]) simp_all
  then show "mark_batch_step_scheduled s = (r, s') \<Longrightarrow> mn_inv s'" "mark_batch_step_completed s = (r, s') \<Longrightarrow> mn_inv s'"
    using assms by (auto simp: mark_batch_step_scheduled_def mark_batch_step_completed_def split: if_splits)
qed

section \<open>The decode streams\<close>

definition advanced :: "req_id set \<Rightarrow> mock_node \<Rightarrow> mock_node" where
  "advanced R s = s\<lparr>
     output_tokens := (\<lambda>r. if r \<in> R then Some (the (output_tokens s r) + 1) else output_tokens s r),
     states := (\<lambda>r. if r \<in> R then map_option (\<lambda>st. st\<lparr>generated_tokens := the (output_tokens s r) + 1\<rparr>) (states s r)
                    else states s r)\<rparr>"

definition at_end :: "mock_node \<Rightarrow> req_id \<Rightarrow> bool" where
  "at_end s r \<longleftrightarrow> the (expected_output s r) \<le> the (output_tokens s r) + 1"

lemma advance_streams_spec:
  assumes "set rids \<subseteq> dom (output_tokens s)" "dom (expected_output s) = dom (output_tokens s)" "distinct rids"
  shows "advance_streams rids s = (Inr (filter (at_end s) rids), advanced (set rids) s)"
  using assms
proof (induction rids arbitrary: s)
  case Nil
  then show ?case by (simp add: advanced_def)
next
  case (Cons rid rids)
  obtain n m where nm: "output_tokens s rid = Some n" "expected_output s rid = Some m"
    using Cons.prems(1,2) by (metis domD list.set_intros(1) subsetD)
  let ?s1 = "upd_state rid (\<lambda>st. st\<lparr>generated_tokens := n + 1\<rparr>) (s\<lparr>output_tokens := (output_tokens s)(rid \<mapsto> n + 1)\<rparr>)"
  have nin: "rid \<notin> set rids" using Cons.prems(3) by simp
  have "set rids \<subseteq> dom (output_tokens ?s1)" "dom (expected_output ?s1) = dom (output_tokens ?s1)" "distinct rids"
    using Cons.prems nm(1) by (simp_all add: insert_absorb domI subset_insertI2)
  from Cons.IH[OF this] have IH: "advance_streams rids ?s1 = (Inr (filter (at_end ?s1) rids), advanced (set rids) ?s1)" .
  have flt: "filter (at_end ?s1) rids = filter (at_end s) rids"
    using nin by (intro filter_cong) (auto simp: at_end_def)
  have adv: "advanced (set rids) ?s1 = advanced (set (rid # rids)) s"
    using nin nm unfolding advanced_def upd_state_def by (auto simp: fun_eq_iff intro!: mock_node.equality)
  have "at_end s rid \<longleftrightarrow> m \<le> n + 1" using nm by (simp add: at_end_def)
  then show ?case using nm IH flt adv by (simp add: py_bind_def py_return_def Let_def)
qed

section \<open>The batch step\<close>

lemma consume_chunk_simps [simp]:
  "mn_node_id (consume_chunk s) = mn_node_id s" "mn_model (consume_chunk s) = mn_model s"
  "mn_config (consume_chunk s) = mn_config s" "running_requests (consume_chunk s) = running_requests s"
  "queue (consume_chunk s) = queue s" "decoding (consume_chunk s) = decoding s"
  "output_tokens (consume_chunk s) = output_tokens s" "expected_output (consume_chunk s) = expected_output s"
  "batch_step_in_flight (consume_chunk s) = batch_step_in_flight s"
  "prefill_remaining (consume_chunk s) = (case prefill_remaining s of [] \<Rightarrow> []
     | (pid, u) # rest \<Rightarrow> (pid, u - min u (int (prefill_chunk_size (mn_model s)))) # rest)"
  "dom (states (consume_chunk s)) = dom (states s)"
  by (auto simp: consume_chunk_def chunk_this_step_def Let_def split: list.splits)

lemma advanced_simps [simp]:
  "mn_node_id (advanced R s) = mn_node_id s" "mn_model (advanced R s) = mn_model s"
  "mn_config (advanced R s) = mn_config s" "running_requests (advanced R s) = running_requests s"
  "queue (advanced R s) = queue s" "decoding (advanced R s) = decoding s"
  "expected_output (advanced R s) = expected_output s" "prefill_remaining (advanced R s) = prefill_remaining s"
  "batch_step_in_flight (advanced R s) = batch_step_in_flight s"
  "output_tokens (advanced R s) r = (if r \<in> R then Some (the (output_tokens s r) + 1) else output_tokens s r)"
  "dom (states (advanced R s)) = dom (states s)"
  by (auto simp: advanced_def split: if_splits)

lemma finish_prefill_simps [simp]:
  "mn_node_id (snd (finish_prefill s)) = mn_node_id s" "mn_model (snd (finish_prefill s)) = mn_model s"
  "mn_config (snd (finish_prefill s)) = mn_config s"
  "running_requests (snd (finish_prefill s)) = running_requests s" "queue (snd (finish_prefill s)) = queue s"
  "decoding (snd (finish_prefill s)) = decoding s" "output_tokens (snd (finish_prefill s)) = output_tokens s"
  "expected_output (snd (finish_prefill s)) = expected_output s"
  "batch_step_in_flight (snd (finish_prefill s)) = batch_step_in_flight s"
  "prefill_remaining (snd (finish_prefill s)) = (case prefill_remaining s of [] \<Rightarrow> []
     | (pid, u) # rest \<Rightarrow> if u = 0 then rest else (pid, u) # rest)"
  "fst (finish_prefill s) = (case prefill_remaining s of [] \<Rightarrow> None | (pid, u) # rest \<Rightarrow> if u = 0 then Some pid else None)"
  "dom (states (snd (finish_prefill s))) = dom (states s)"
  by (auto simp: finish_prefill_def split: list.splits)

definition finished :: "mock_node \<Rightarrow> req_id set" where
  "finished s = {r \<in> decoding s. at_end s r}"

definition ticked :: "mock_node \<Rightarrow> mock_node" where
  "ticked s = snd (finish_prefill ((advanced (decoding s) (consume_chunk s))\<lparr>decoding := decoding s - finished s\<rparr>))"

definition prefill_left :: "mock_node \<Rightarrow> (req_id \<times> int) list" where
  "prefill_left s = (case prefill_remaining s of [] \<Rightarrow> []
     | (pid, u) # rest \<Rightarrow> if u \<le> int (prefill_chunk_size (mn_model s)) then rest
         else (pid, u - int (prefill_chunk_size (mn_model s))) # rest)"

definition prefill_completed :: "mock_node \<Rightarrow> req_id option" where
  "prefill_completed s = (case prefill_remaining s of [] \<Rightarrow> None
     | (pid, u) # rest \<Rightarrow> if u \<le> int (prefill_chunk_size (mn_model s)) then Some pid else None)"

lemma ticked_simps [simp]:
  "mn_node_id (ticked s) = mn_node_id s" "mn_model (ticked s) = mn_model s" "mn_config (ticked s) = mn_config s"
  "running_requests (ticked s) = running_requests s" "queue (ticked s) = queue s"
  "expected_output (ticked s) = expected_output s" "batch_step_in_flight (ticked s) = batch_step_in_flight s"
  "decoding (ticked s) = decoding s - finished s" "prefill_remaining (ticked s) = prefill_left s"
  "output_tokens (ticked s) r = (if r \<in> decoding s then Some (the (output_tokens s r) + 1) else output_tokens s r)"
  "dom (states (ticked s)) = dom (states s)"
  by (auto simp: ticked_def prefill_left_def split: list.splits)

lemma tick_idle: "decoding s = {} \<Longrightarrow> prefill_remaining s = [] \<Longrightarrow> tick_batch_step now s = (Inl RuntimeError, s)"
  by (simp add: tick_batch_step_def)

lemma tick_run:
  assumes inv: "mn_inv s" and busy: "decoding s \<noteq> {} \<or> prefill_remaining s \<noteq> []"
  shows "tick_batch_step now s =
    (Inr (now + step_time s, filter (at_end s) (sorted_list_of_set (decoding s)), prefill_completed s), ticked s)"
proof -
  note I = mn_invD(6-8,12)[OF inv]
  let ?c = "consume_chunk s" and ?l = "sorted_list_of_set (decoding s)"
  have l: "set ?l = decoding s" "distinct ?l" using I(4) by simp_all
  have ae: "at_end ?c = at_end s" by (simp add: at_end_def fun_eq_iff)
  have run: "advance_streams ?l ?c = (Inr (filter (at_end s) ?l), advanced (decoding s) ?c)"
    using advance_streams_spec[of ?l ?c] l I by (simp add: ae)
  have dec: "decoding s - set (filter (at_end s) ?l) = decoding s - finished s" using l by (auto simp: finished_def)
  have pc: "fst (finish_prefill ((advanced (decoding s) ?c)\<lparr>decoding := d\<rparr>)) = prefill_completed s" for d
    by (auto simp: prefill_completed_def split: list.splits)
  show ?thesis
    using busy run pc dec unfolding tick_batch_step_def ticked_def
    by (auto simp: py_bind_def case_prod_unfold)
qed

lemma ticked_inv:
  assumes inv: "mn_inv s"
  shows "mn_inv (ticked s)"
proof (rule mn_inv_frame[OF inv])
  note I = mn_invD[OF inv]
  have out: "dom (output_tokens (ticked s)) = dom (output_tokens s)" using I(8) by (auto split: if_splits)
  show "dom (expected_output (ticked s)) = dom (output_tokens (ticked s))"
    "dom (output_tokens (ticked s)) \<subseteq> set (running_requests s)" "decoding (ticked s) \<subseteq> dom (output_tokens (ticked s))"
    unfolding out using I(6-8) by auto
  have "distinct (map fst (prefill_left s)) \<and> fst ` set (prefill_left s) \<subseteq> fst ` set (prefill_remaining s)"
    using I(9) by (cases "prefill_remaining s") (auto simp: prefill_left_def)
  then show "distinct (map fst (prefill_remaining (ticked s)))"
    "fst ` set (prefill_remaining (ticked s)) \<subseteq> set (running_requests s)"
    unfolding ticked_simps using I(10) by blast+
qed simp_all

lemma tick_inv: "mn_inv s \<Longrightarrow> tick_batch_step now s = (r, s') \<Longrightarrow> mn_inv s'"
  using tick_idle[of s now] tick_run[of s now] ticked_inv[of s] by (cases "decoding s = {} \<and> prefill_remaining s = []") auto

section \<open>Completion\<close>

lemma forget_simps [simp]:
  "mn_node_id (forget rid s) = mn_node_id s" "mn_model (forget rid s) = mn_model s" "mn_config (forget rid s) = mn_config s"
  "running_requests (forget rid s) = running_requests s" "queue (forget rid s) = queue s"
  "decoding (forget rid s) = decoding s - {rid}" "output_tokens (forget rid s) = (output_tokens s)(rid := None)"
  "expected_output (forget rid s) = (expected_output s)(rid := None)"
  "prefill_remaining (forget rid s) = AList.delete rid (prefill_remaining s)"
  "states (forget rid s) = (states s)(rid := None)" "batch_step_in_flight (forget rid s) = batch_step_in_flight s"
  by (simp_all add: forget_def)

text \<open>The state after a removal, before anybody is promoted: the slots may have one free place.\<close>

definition vacated :: "mock_node \<Rightarrow> bool" where
  "vacated s \<longleftrightarrow> length (running_requests s) \<le> capacity (mn_config s) \<and>
     distinct (running_requests s @ queue s) \<and>
     (queue s \<noteq> [] \<longrightarrow> capacity (mn_config s) \<le> Suc (length (running_requests s))) \<and> tracking_ok s"

lemma promote_next_inv:
  assumes v: "vacated s" and p: "promote_next s = (r, s')"
  shows "mn_inv s'" "mn_config s' = mn_config s"
    "r = (if length (running_requests s) < capacity (mn_config s) then (case queue s of [] \<Rightarrow> None | q # _ \<Rightarrow> Some q) else None)"
    "running_requests s' = running_requests s @ (case r of None \<Rightarrow> [] | Some q \<Rightarrow> [q])"
    "running_requests s' @ queue s' = running_requests s @ queue s"
proof -
  have *: "mn_inv s' \<and> mn_config s' = mn_config s \<and>
    r = (if length (running_requests s) < capacity (mn_config s) then (case queue s of [] \<Rightarrow> None | q # _ \<Rightarrow> Some q) else None) \<and>
    running_requests s' = running_requests s @ (case r of None \<Rightarrow> [] | Some q \<Rightarrow> [q]) \<and>
    running_requests s' @ queue s' = running_requests s @ queue s"
  proof (cases "queue s \<noteq> [] \<and> length (running_requests s) < capacity (mn_config s)")
    case False
    then have "r = None" "s' = s" using p by (auto simp: promote_next_def split: list.splits)
    then show ?thesis using v False by (auto simp: vacated_def mn_inv_def slots_ok_def split: list.splits)
  next
    case True
    then obtain q rest where q: "queue s = q # rest" by (cases "queue s") auto
    then have s': "r = Some q" "s' = upd_state q (\<lambda>st. st\<lparr>ns_phase := Admitted, blocks_prefill_slot := True\<rparr>)
        (s\<lparr>queue := rest, running_requests := running_requests s @ [q]\<rparr>)"
      using p True by (auto simp: promote_next_def)
    have "slots_ok s'" using v True q unfolding s' vacated_def slots_ok_def by auto
    moreover have "tracking_ok s'" using v q unfolding s' vacated_def tracking_ok_def
      by (simp add: subset_insertI2 insert_commute)
    ultimately show ?thesis using s' q True by (simp add: mn_inv_def)
  qed
  then show "mn_inv s'" "mn_config s' = mn_config s"
    "r = (if length (running_requests s) < capacity (mn_config s) then (case queue s of [] \<Rightarrow> None | q # _ \<Rightarrow> Some q) else None)"
    "running_requests s' = running_requests s @ (case r of None \<Rightarrow> [] | Some q \<Rightarrow> [q])"
    "running_requests s' @ queue s' = running_requests s @ queue s" by blast+
qed

lemma delete_keyset: "fst ` set (AList.delete k al) = fst ` set al - {k}"
  by (induction al) auto

lemma tracking_forget:
  assumes "tracking_ok s" "set R = set (running_requests s) - {rid}" "set Q = set (queue s) - {rid}"
  shows "tracking_ok (forget rid (s\<lparr>running_requests := R, queue := Q\<rparr>))"
  using assms unfolding tracking_ok_def by (auto simp: delete_keyset distinct_delete)

lemma complete_run:
  assumes inv: "mn_inv s" and rid: "rid \<in> set (running_requests s @ queue s)"
  obtains s1 r s' where "complete rid s = (Inr r, s')" "promote_next s1 = (r, s')" "vacated s1"
    "s1 = forget rid (s\<lparr>running_requests := remove1 rid (running_requests s), queue := remove1 rid (queue s)\<rparr>)"
proof -
  note I = mn_invD[OF inv]
  let ?R = "remove1 rid (running_requests s)" and ?Q = "remove1 rid (queue s)"
  let ?s1 = "forget rid (s\<lparr>running_requests := ?R, queue := ?Q\<rparr>)"
  have sets: "set ?R = set (running_requests s) - {rid}" "set ?Q = set (queue s) - {rid}"
    using I(2,3) by simp_all
  have tr: "tracking_ok ?s1" by (rule tracking_forget[OF _ sets]) (use inv in \<open>simp add: mn_inv_def\<close>)
  have "length ?R \<le> capacity (mn_config s)" "queue s \<noteq> [] \<Longrightarrow> capacity (mn_config s) \<le> Suc (length ?R)"
    using I(1,5) by (auto simp: length_remove1)
  moreover have "distinct (?R @ ?Q)" using I(2-4) sets by auto
  moreover have "?Q \<noteq> [] \<Longrightarrow> queue s \<noteq> []" by auto
  ultimately have v: "vacated ?s1" using tr by (auto simp: vacated_def)
  obtain r s' where p: "promote_next ?s1 = (r, s')" by (cases "promote_next ?s1")
  have "complete rid s = (Inr r, s')"
  proof (cases "rid \<in> set (running_requests s)")
    case True
    then have "rid \<notin> set (queue s)" using I(4) by auto
    then have "?Q = queue s" by (rule remove1_idem)
    then show ?thesis using True p by (simp add: complete_def)
  next
    case False
    then have "?R = running_requests s" by (simp add: remove1_idem)
    then show ?thesis using False rid p by (simp add: complete_def)
  qed
  then show thesis by (rule that[OF _ p v refl])
qed

lemma complete_inv: "mn_inv s \<Longrightarrow> complete rid s = (r, s') \<Longrightarrow> mn_inv s'"
proof (cases "rid \<in> set (running_requests s @ queue s)")
  case True
  assume inv: "mn_inv s" and c: "complete rid s = (r, s')"
  show ?thesis by (rule complete_run[OF inv True]) (use c promote_next_inv(1) in force)
next
  case False
  assume "mn_inv s" "complete rid s = (r, s')"
  then show ?thesis using False by (simp add: complete_def)
qed

end
