(* ===== verification/Node_Properties.thy ===== *)
theory Node_Properties
  imports Node_Invariant "HOL-Library.Multiset"
begin

text \<open>
  The promises of a mock node: its slots in every reachable state, the effect of a batch step and of
  a completion, how many steps a prefill and a decode stream take, and the meaning of the
  waiting-time estimate.
\<close>

section \<open>Reachable nodes\<close>

text \<open>
  The simulator's protocol: a request is admitted once, a promoted request is initialised
  (\<open>init_promoted\<close>) before its decode starts; everything else may come in any order.
\<close>

inductive mn_reach :: "node_id \<Rightarrow> model_config \<Rightarrow> node_config \<Rightarrow> mock_node \<Rightarrow> bool" for nid mc nc where
  mn_start: "mn_reach nid mc nc (mn_init nid mc nc)"
| mn_admit_step: "mn_reach nid mc nc s \<Longrightarrow> rid \<notin> set (running_requests s @ queue s) \<Longrightarrow>
    mn_admit rid n pl ut s = (r1, s') \<Longrightarrow> mn_reach nid mc nc s'"
| mn_start_decode: "mn_reach nid mc nc s \<Longrightarrow> output_tokens s rid \<noteq> None \<Longrightarrow> start_decode rid s = (r2, s') \<Longrightarrow>
    mn_reach nid mc nc s'"
| mn_init_promoted: "mn_reach nid mc nc s \<Longrightarrow> init_promoted rid n pl ut s = (r3, s') \<Longrightarrow> mn_reach nid mc nc s'"
| mn_enter_prefill: "mn_reach nid mc nc s \<Longrightarrow> enter_prefill rid u s = (r4, s') \<Longrightarrow> mn_reach nid mc nc s'"
| mn_prefill_done: "mn_reach nid mc nc s \<Longrightarrow> mark_prefill_done rid s = (r5, s') \<Longrightarrow> mn_reach nid mc nc s'"
| mn_tick: "mn_reach nid mc nc s \<Longrightarrow> tick_batch_step now s = (r6, s') \<Longrightarrow> mn_reach nid mc nc s'"
| mn_complete: "mn_reach nid mc nc s \<Longrightarrow> complete rid s = (r7, s') \<Longrightarrow> mn_reach nid mc nc s'"
| mn_scheduled: "mn_reach nid mc nc s \<Longrightarrow> mark_batch_step_scheduled s = (r8, s') \<Longrightarrow> mn_reach nid mc nc s'"
| mn_stepped: "mn_reach nid mc nc s \<Longrightarrow> mark_batch_step_completed s = (r9, s') \<Longrightarrow> mn_reach nid mc nc s'"

lemma mn_reach_inv: "mn_reach nid mc nc s \<Longrightarrow> mn_inv s"
  by (induction rule: mn_reach.induct)
    (blast intro: mn_init_inv mn_admit_inv start_decode_inv init_promoted_inv enter_prefill_inv
      mark_prefill_done_inv tick_inv complete_inv mark_batch_step_inv)+

lemma tick_config: "mn_inv s \<Longrightarrow> tick_batch_step now s = (r, s') \<Longrightarrow> mn_config s' = mn_config s"
  using tick_idle[of s now] tick_run[of s now] by (cases "decoding s = {} \<and> prefill_remaining s = []") auto

lemma complete_config: "mn_inv s \<Longrightarrow> complete rid s = (r, s') \<Longrightarrow> mn_config s' = mn_config s"
proof (cases "rid \<in> set (running_requests s @ queue s)")
  case True
  assume "mn_inv s" "complete rid s = (r, s')"
  then show ?thesis using complete_run[OF _ True] promote_next_inv(2)
    by (metis (no_types, lifting) forget_simps(3) mock_node.select_convs(3) mock_node.surjective mock_node.update_convs(4,5) snd_conv)
qed (simp add: complete_def)

lemma mn_reach_config: "mn_reach nid mc nc s \<Longrightarrow> mn_config s = nc"
proof (induction rule: mn_reach.induct)
  case (mn_tick s now r6 s')
  then show ?case using tick_config mn_reach_inv by metis
next
  case (mn_complete s rid r7 s')
  then show ?case using complete_config mn_reach_inv by metis
qed (auto simp: mn_init_def mn_admit_def start_decode_def init_promoted_def enter_prefill_def mark_prefill_done_def
    mark_batch_step_scheduled_def mark_batch_step_completed_def Let_def split: if_splits)

definition demo_mn :: mock_node where
  "demo_mn = snd (enter_prefill ''b'' 1000 (snd (start_decode ''a'' (snd (mn_admit ''b'' 4 (Some 1000) None
     (snd (mn_admit ''a'' 2 (Some 10) None
       (mn_init ''n'' model_config_default \<lparr>gpu_blocks = 8, cpu_blocks = 0, disk_blocks = 0, capacity = 2\<rparr>))))))))"

lemma demo_mn_reach:
  "mn_reach ''n'' model_config_default \<lparr>gpu_blocks = 8, cpu_blocks = 0, disk_blocks = 0, capacity = 2\<rparr> demo_mn"
  unfolding demo_mn_def
  by (rule mn_enter_prefill[OF mn_start_decode[OF mn_admit_step[OF mn_admit_step[OF mn_start _ prod.collapse[symmetric]] _
        prod.collapse[symmetric]] _ prod.collapse[symmetric]] prod.collapse[symmetric]])
    (simp_all add: mn_init_def mn_admit_def Let_def)

lemma demo_mn_inv: "mn_inv demo_mn"
  by (rule mn_reach_inv[OF demo_mn_reach])

text \<open>
  C18. In every state a mock node can reach, at most \<open>capacity\<close> requests run, no request is in two
  places, a request waits only while every slot is taken, and the decode batch, the prefill
  pipeline and the output counters concern running requests only.
\<close>

theorem node_reachable_safe:
  assumes "mn_reach nid mc nc s"
  shows "length (running_requests s) \<le> capacity nc \<and> distinct (running_requests s @ queue s) \<and>
    (queue s \<noteq> [] \<longrightarrow> length (running_requests s) = capacity nc) \<and>
    decoding s \<subseteq> dom (output_tokens s) \<and> dom (output_tokens s) \<subseteq> set (running_requests s) \<and>
    fst ` set (prefill_remaining s) \<subseteq> set (running_requests s) \<and>
    dom (states s) = set (running_requests s @ queue s)"
  using mn_invD[OF mn_reach_inv[OF assms]] mn_reach_config[OF assms] by auto

theorem node_reachable_safe_witness:
  "length (running_requests demo_mn) \<le> 2 \<and> decoding demo_mn \<subseteq> set (running_requests demo_mn)"
proof -
  have "length (running_requests demo_mn) \<le> 2" "decoding demo_mn \<subseteq> dom (output_tokens demo_mn)"
    "dom (output_tokens demo_mn) \<subseteq> set (running_requests demo_mn)"
    using node_reachable_safe[OF demo_mn_reach] by simp_all
  then show ?thesis by (simp add: subset_trans)
qed

section \<open>One batch step\<close>

text \<open>
  C34. A batch step of a node with work advances simulated time by the cost of one prefill chunk plus
  one decode step of the whole batch, gives every decode stream exactly one token, reports and
  removes exactly the streams that reached their expected length (in sorted order), and takes at
  most one chunk from the oldest prefill only, reporting it when it is drained. An idle node
  raises \<open>RuntimeError\<close> and is unchanged.
\<close>

theorem batch_step_spec:
  assumes "mn_inv s"
  shows "if decoding s = {} \<and> prefill_remaining s = [] then tick_batch_step now s = (Inl RuntimeError, s)
    else \<exists>completed pdone s'. tick_batch_step now s = (Inr (now + step_time s, completed, pdone), s') \<and>
      sorted completed \<and> distinct completed \<and>
      set completed = {r \<in> decoding s. the (expected_output s r) \<le> the (output_tokens s r) + 1} \<and>
      decoding s' = decoding s - set completed \<and>
      (\<forall>r. output_tokens s' r = (if r \<in> decoding s then Some (the (output_tokens s r) + 1) else output_tokens s r)) \<and>
      running_requests s' = running_requests s \<and> queue s' = queue s \<and>
      (case prefill_remaining s of [] \<Rightarrow> pdone = None \<and> prefill_remaining s' = []
       | (pid, u) # rest \<Rightarrow>
           if u \<le> int (prefill_chunk_size (mn_model s)) then pdone = Some pid \<and> prefill_remaining s' = rest
           else pdone = None \<and> prefill_remaining s' = (pid, u - int (prefill_chunk_size (mn_model s))) # rest)"
proof (cases "decoding s = {} \<and> prefill_remaining s = []")
  case True
  then show ?thesis using tick_idle by simp
next
  case False
  let ?l = "filter (at_end s) (sorted_list_of_set (decoding s))"
  have l: "set ?l = finished s" "sorted ?l" "distinct ?l"
    using mn_invD(12)[OF assms] by (auto simp: finished_def sorted_wrt_filter)
  have run: "tick_batch_step now s = (Inr (now + step_time s, ?l, prefill_completed s), ticked s)"
    using tick_run[OF assms] False by blast
  have pf: "case prefill_remaining s of [] \<Rightarrow> prefill_completed s = None \<and> prefill_remaining (ticked s) = []
     | (pid, u) # rest \<Rightarrow>
         if u \<le> int (prefill_chunk_size (mn_model s)) then prefill_completed s = Some pid \<and> prefill_remaining (ticked s) = rest
         else prefill_completed s = None \<and> prefill_remaining (ticked s) = (pid, u - int (prefill_chunk_size (mn_model s))) # rest"
    by (auto simp: prefill_completed_def prefill_left_def split: list.splits)
  have st: "set ?l = {r \<in> decoding s. the (expected_output s r) \<le> the (output_tokens s r) + 1}"
    using l(1) by (simp add: finished_def at_end_def)
  have dec: "decoding (ticked s) = decoding s - set ?l" using l(1) by simp
  from False have "\<exists>completed pdone s'. tick_batch_step now s = (Inr (now + step_time s, completed, pdone), s') \<and>
      sorted completed \<and> distinct completed \<and>
      set completed = {r \<in> decoding s. the (expected_output s r) \<le> the (output_tokens s r) + 1} \<and>
      decoding s' = decoding s - set completed \<and>
      (\<forall>r. output_tokens s' r = (if r \<in> decoding s then Some (the (output_tokens s r) + 1) else output_tokens s r)) \<and>
      running_requests s' = running_requests s \<and> queue s' = queue s \<and>
      (case prefill_remaining s of [] \<Rightarrow> pdone = None \<and> prefill_remaining s' = []
       | (pid, u) # rest \<Rightarrow>
           if u \<le> int (prefill_chunk_size (mn_model s)) then pdone = Some pid \<and> prefill_remaining s' = rest
           else pdone = None \<and> prefill_remaining s' = (pid, u - int (prefill_chunk_size (mn_model s))) # rest)"
    by (intro exI[of _ ?l] exI[of _ "prefill_completed s"] exI[of _ "ticked s"] conjI run l(2,3) st dec pf) simp_all
  then show ?thesis using False by presburger
qed

theorem batch_step_spec_witness:
  "\<exists>completed pdone s'. tick_batch_step 0 demo_mn = (Inr (0 + step_time demo_mn, completed, pdone), s') \<and>
     ''a'' \<notin> set completed \<and> pdone = None \<and> prefill_remaining s' = [(''b'', 488)]"
proof -
  have v: "prefill_remaining demo_mn = [(''b'', 1000)]" "prefill_chunk_size (mn_model demo_mn) = 512"
    "the (expected_output demo_mn ''a'') = 2" "the (output_tokens demo_mn ''a'') = 0" by code_simp+
  have "\<not> (decoding demo_mn = {} \<and> prefill_remaining demo_mn = [])" using v(1) by simp
  from batch_step_spec[OF demo_mn_inv, of 0, unfolded if_not_P[OF this]] obtain completed pdone s' where
    B: "tick_batch_step 0 demo_mn = (Inr (0 + step_time demo_mn, completed, pdone), s')"
    "set completed = {r \<in> decoding demo_mn. the (expected_output demo_mn r) \<le> the (output_tokens demo_mn r) + 1}"
    "case prefill_remaining demo_mn of [] \<Rightarrow> pdone = None \<and> prefill_remaining s' = []
       | (pid, u) # rest \<Rightarrow>
           if u \<le> int (prefill_chunk_size (mn_model demo_mn)) then pdone = Some pid \<and> prefill_remaining s' = rest
           else pdone = None \<and> prefill_remaining s' = (pid, u - int (prefill_chunk_size (mn_model demo_mn))) # rest"
    by blast
  have "''a'' \<notin> set completed" unfolding B(2) using v(3,4) by simp
  moreover have "pdone = None" "prefill_remaining s' = [(''b'', 488)]" using B(3) unfolding v(1,2) by simp_all
  ultimately show ?thesis using B(1) by blast
qed

section \<open>Completion and promotion\<close>

text \<open>
  C35. \<open>complete\<close> of a known request never raises. It removes exactly that request and keeps the others
  and their FIFO order; when the request was running and somebody waits, the first of the queue
  takes the free slot and is reported; when the request was still queued nobody is promoted. For
  an unknown request it raises \<open>ValueError\<close> and changes nothing.
\<close>

theorem complete_spec:
  assumes "mn_inv s"
  shows "if rid \<in> set (running_requests s @ queue s)
    then \<exists>promoted s'. complete rid s = (Inr promoted, s') \<and>
      running_requests s' @ queue s' = remove1 rid (running_requests s @ queue s) \<and>
      promoted = (if rid \<in> set (running_requests s) then (case queue s of [] \<Rightarrow> None | q # _ \<Rightarrow> Some q) else None) \<and>
      running_requests s' = remove1 rid (running_requests s) @ (case promoted of None \<Rightarrow> [] | Some q \<Rightarrow> [q]) \<and>
      rid \<notin> decoding s' \<and> output_tokens s' rid = None \<and> states s' rid = None
    else complete rid s = (Inl ValueError, s)"
proof (cases "rid \<in> set (running_requests s @ queue s)")
  case False
  then show ?thesis by (simp add: complete_def)
next
  case True
  note I = mn_invD[OF assms]
  obtain s1 r s' where c: "complete rid s = (Inr r, s')" "promote_next s1 = (r, s')" "vacated s1"
    "s1 = forget rid (s\<lparr>running_requests := remove1 rid (running_requests s), queue := remove1 rid (queue s)\<rparr>)"
    by (rule complete_run[OF assms True])
  note P = promote_next_inv[OF c(3,2)]
  note J = mn_invD[OF P(1)]
  have s1: "running_requests s1 = remove1 rid (running_requests s)" "queue s1 = remove1 rid (queue s)"
    "mn_config s1 = mn_config s" using c(4) by simp_all
  have mem: "running_requests s' @ queue s' = remove1 rid (running_requests s @ queue s)"
  proof (cases "rid \<in> set (running_requests s)")
    case True
    then have "rid \<notin> set (queue s)" using I(4) by blast
    then show ?thesis using True P(5) s1 by (simp add: remove1_append remove1_idem)
  next
    case False
    then show ?thesis using P(5) s1 by (simp add: remove1_append remove1_idem)
  qed
  have r: "r = (if rid \<in> set (running_requests s) then (case queue s of [] \<Rightarrow> None | q # _ \<Rightarrow> Some q) else None)"
  proof (cases "rid \<in> set (running_requests s)")
    case T: True
    then have "queue s1 = queue s" using I(4) s1 by (simp add: remove1_idem disjoint_iff)
    moreover have "length (running_requests s1) < capacity (mn_config s)"
      using T I(1) length_pos_if_in_set[OF T] unfolding s1 by (simp add: length_remove1 del: length_greater_0_conv)
    ultimately show ?thesis using P(3) s1 T by simp
  next
    case F: False
    then have "queue s \<noteq> []" "running_requests s1 = running_requests s" using True s1 by (auto simp: remove1_idem)
    then show ?thesis using P(3) s1 F I(5) by simp
  qed
  have "distinct (running_requests s @ queue s)" using I(2-4) by simp
  then have out: "rid \<notin> set (running_requests s') \<union> set (queue s')"
    using mem by (metis set_append set_remove1_eq Diff_iff insertI1)
  then have "rid \<notin> decoding s'" "rid \<notin> dom (output_tokens s')" "rid \<notin> dom (states s')" using J(7,8,11) by blast+
  then show ?thesis using True c(1) mem r P(4) s1(1) by (simp add: domIff)
qed

text \<open>A node of one slot with one request waiting.\<close>

definition demo_waiting :: mock_node where
  "demo_waiting = snd (mn_admit ''b'' 1 (Some 4) None (snd (mn_admit ''a'' 1 (Some 4) None
     (mn_init ''n'' model_config_default \<lparr>gpu_blocks = 8, cpu_blocks = 0, disk_blocks = 0, capacity = 1\<rparr>))))"

lemma demo_waiting_inv: "mn_inv demo_waiting"
  unfolding demo_waiting_def
  by (intro mn_admit_inv[OF _ _ prod.collapse[symmetric]] mn_init_inv) (simp_all add: mn_init_def mn_admit_def Let_def)

theorem complete_spec_witness:
  "\<exists>s'. complete ''a'' demo_waiting = (Inr (Some ''b''), s') \<and> running_requests s' = [''b''] \<and> queue s' = []"
proof -
  have "running_requests demo_waiting = [''a'']" "queue demo_waiting = [''b'']" by code_simp+
  then show ?thesis using complete_spec[OF demo_waiting_inv, of "''a''"] by auto
qed

section \<open>Batch steps in sequence\<close>

text \<open>
  The node under a sequence of batch steps, each starting when the previous one ends and none joining
  or leaving in between; the list records what each step reported.
\<close>

fun run_ticks :: "nat \<Rightarrow> time \<Rightarrow> (mock_node, time \<times> (req_id list \<times> req_id option) list) py" where
  "run_ticks 0 now s = (Inr (now, []), s)"
| "run_ticks (Suc k) now s =
     py_bind (tick_batch_step now) (\<lambda>(next, reported).
       py_bind (run_ticks k next) (\<lambda>(final, evs). py_return (final, reported # evs))) s"

lemma run_ticks_Suc:
  assumes "mn_inv s" "decoding s \<noteq> {} \<or> prefill_remaining s \<noteq> []"
    and "run_ticks k (now + step_time s) (ticked s) = (Inr (final, evs), s')"
  shows "run_ticks (Suc k) now s =
    (Inr (final, (filter (at_end s) (sorted_list_of_set (decoding s)), prefill_completed s) # evs), s')"
  using tick_run[OF assms(1,2), of now] assms(3) by (simp add: py_bind_def py_return_def)

lemma model_ok_pos:
  "model_config_ok mc \<Longrightarrow> 0 < prefill_chunk_size mc" "model_config_ok mc \<Longrightarrow> 0 \<le> prefill_cost_per_token_ms mc"
  "model_config_ok mc \<Longrightarrow> 0 \<le> decode_base_ms mc" "model_config_ok mc \<Longrightarrow> 0 \<le> marginal_decode_ms mc"
  by (simp_all add: model_config_ok_def)

lemma step_time_bounds:
  assumes mc: "model_config_ok (mn_model s)" and pr: "prefill_remaining s = (rid, int u) # rest"
    and bs: "card (decoding s) \<le> bs"
  shows "step_time s \<le> step_per_chunk (mn_model s) bs"
    and "of_nat (min u (prefill_chunk_size (mn_model s))) * prefill_cost_per_token_ms (mn_model s) \<le> step_time s"
proof -
  let ?m = "mn_model s"
  note pos = model_ok_pos[OF mc]
  let ?q = "min u (prefill_chunk_size ?m)"
  have c: "chunk_this_step s = int ?q" using pr by (simp add: chunk_this_step_def)
  have "(of_nat ?q :: rat) * prefill_cost_per_token_ms ?m \<le> of_nat (prefill_chunk_size ?m) * prefill_cost_per_token_ms ?m"
    using pos(2) by (intro mult_right_mono) simp_all
  moreover have "(of_nat (card (decoding s)) :: rat) * marginal_decode_ms ?m \<le> of_nat bs * marginal_decode_ms ?m"
    using pos(4) bs by (intro mult_right_mono) simp_all
  moreover have "0 \<le> decode_cost s"
    using pos by (simp add: decode_cost_def estimate_decode_time_def)
  moreover have "decode_cost s \<le> decode_base_ms ?m + of_nat bs * marginal_decode_ms ?m"
    using calculation(2) pos by (simp add: decode_cost_def estimate_decode_time_def)
  ultimately show "step_time s \<le> step_per_chunk ?m bs"
    "of_nat ?q * prefill_cost_per_token_ms ?m \<le> step_time s"
    by (simp_all add: step_time_def step_per_chunk_def c)
qed

lemma ceil_div_small: "0 < u \<Longrightarrow> u \<le> c \<Longrightarrow> ceil_div u c = 1"
  by (rule ceil_div_unique) auto

lemma ceil_div_step: "0 < c \<Longrightarrow> c < u \<Longrightarrow> ceil_div u c = Suc (ceil_div (u - c) c)"
proof -
  assume a: "0 < c" "c < u"
  note b = ceil_div_bounds[OF a(1), of "u - c"]
  show ?thesis using a b by (intro ceil_div_unique) auto
qed

definition prefill_drained ::
  "req_id \<Rightarrow> nat \<Rightarrow> (req_id \<times> int) list \<Rightarrow> nat \<Rightarrow> time \<Rightarrow> mock_node \<Rightarrow> bool" where
  "prefill_drained rid u rest bs now s \<longleftrightarrow> (\<exists>final evs s'.
     run_ticks (ceil_div u (prefill_chunk_size (mn_model s))) now s = (Inr (final, evs), s') \<and>
     map snd evs = replicate (ceil_div u (prefill_chunk_size (mn_model s)) - 1) None @ [Some rid] \<and>
     prefill_remaining s' = rest \<and>
     now + of_nat u * prefill_cost_per_token_ms (mn_model s) \<le> final \<and>
     final \<le> now + of_nat (ceil_div u (prefill_chunk_size (mn_model s))) * step_per_chunk (mn_model s) bs)"

lemma prefill_last_step:
  assumes inv: "mn_inv s" and mc: "model_config_ok (mn_model s)"
    and pr: "prefill_remaining s = (rid, int u) # rest" "0 < u" and bs: "card (decoding s) \<le> bs"
    and le: "u \<le> prefill_chunk_size (mn_model s)"
  shows "prefill_drained rid u rest bs now s"
proof -
  have k: "ceil_div u (prefill_chunk_size (mn_model s)) = Suc 0" using ceil_div_small[OF pr(2) le] by simp
  let ?evs = "[(filter (at_end s) (sorted_list_of_set (decoding s)), prefill_completed s)]"
  have run: "run_ticks (Suc 0) now s = (Inr (now + step_time s, ?evs), ticked s)"
    using pr(1) by (intro run_ticks_Suc[OF inv]) simp_all
  have pc: "map snd ?evs = replicate (Suc 0 - 1) None @ [Some rid]" and rem: "prefill_remaining (ticked s) = rest"
    using pr(1) le by (simp_all add: prefill_completed_def prefill_left_def)
  have "min u (prefill_chunk_size (mn_model s)) = u" using le by simp
  then have b: "now + of_nat u * prefill_cost_per_token_ms (mn_model s) \<le> now + step_time s"
    "now + step_time s \<le> now + of_nat (Suc 0) * step_per_chunk (mn_model s) bs"
    using step_time_bounds[OF mc pr(1) bs] by simp_all
  show ?thesis unfolding prefill_drained_def k
    by (rule exI[of _ "now + step_time s"], rule exI[of _ ?evs], rule exI[of _ "ticked s"]) (intro conjI run pc rem b)
qed

lemma prefill_more_steps:
  assumes inv: "mn_inv s" and mc: "model_config_ok (mn_model s)"
    and pr: "prefill_remaining s = (rid, int u) # rest" and bs: "card (decoding s) \<le> bs"
    and more: "prefill_chunk_size (mn_model s) < u"
    and IH: "prefill_drained rid (u - prefill_chunk_size (mn_model s)) rest bs (now + step_time s) (ticked s)"
  shows "prefill_drained rid u rest bs now s"
proof -
  let ?c = "prefill_chunk_size (mn_model s)" and ?m = "mn_model s"
  let ?k = "ceil_div (u - ?c) ?c"
  have c: "0 < ?c" by (rule model_ok_pos(1)[OF mc])
  have k: "ceil_div u ?c = Suc ?k" by (rule ceil_div_step[OF c more])
  have k0: "?k \<noteq> 0" using ceil_div_pos[of "u - ?c" ?c] more c by simp
  obtain final evs s' where I: "run_ticks ?k (now + step_time s) (ticked s) = (Inr (final, evs), s')"
    "map snd evs = replicate (?k - 1) None @ [Some rid]" "prefill_remaining s' = rest"
    "now + step_time s + of_nat (u - ?c) * prefill_cost_per_token_ms ?m \<le> final"
    "final \<le> now + step_time s + of_nat ?k * step_per_chunk ?m bs"
    using IH unfolding prefill_drained_def by (auto simp del: run_ticks.simps)
  have pc: "prefill_completed s = None" using pr more by (simp add: prefill_completed_def)
  have rep: "None # replicate (?k - 1) None @ [Some rid] = replicate ?k None @ [Some rid]"
    using k0 by (cases ?k) (simp_all only: replicate.simps append_Cons diff_Suc_1)
  let ?evs = "(filter (at_end s) (sorted_list_of_set (decoding s)), prefill_completed s) # evs"
  have run: "run_ticks (Suc ?k) now s = (Inr (final, ?evs), s')"
    using pr I(1) by (intro run_ticks_Suc[OF inv]) simp_all
  have evs: "map snd ?evs = replicate (Suc ?k - 1) None @ [Some rid]"
    using pc I(2) rep by (simp del: replicate.simps)
  have "(of_nat ?c + of_nat (u - ?c) :: rat) = of_nat u" using more by (simp add: of_nat_diff)
  then have "(of_nat u :: rat) * prefill_cost_per_token_ms ?m =
      of_nat ?c * prefill_cost_per_token_ms ?m + of_nat (u - ?c) * prefill_cost_per_token_ms ?m"
    by (metis distrib_right)
  moreover have mn: "min u ?c = ?c" using more by simp
  ultimately have lo: "now + of_nat u * prefill_cost_per_token_ms ?m \<le> final"
    using step_time_bounds(2)[OF mc pr bs] I(4) unfolding mn by linarith
  have "of_nat (Suc ?k) * step_per_chunk ?m bs = step_per_chunk ?m bs + of_nat ?k * step_per_chunk ?m bs"
    by (simp add: distrib_right)
  then have hi: "final \<le> now + of_nat (Suc ?k) * step_per_chunk ?m bs"
    using step_time_bounds(1)[OF mc pr bs] I(5) by linarith
  show ?thesis unfolding prefill_drained_def k
    by (rule exI[of _ final], rule exI[of _ ?evs], rule exI[of _ s']) (intro conjI run evs I(3) lo hi)
qed

lemma prefill_runs:
  assumes "mn_inv s" "model_config_ok (mn_model s)" "prefill_remaining s = (rid, int u) # rest" "0 < u"
    "card (decoding s) \<le> bs"
  shows "prefill_drained rid u rest bs now s"
  using assms
proof (induction u arbitrary: s now rule: less_induct)
  case (less u)
  let ?c = "prefill_chunk_size (mn_model s)"
  show ?case
  proof (cases "u \<le> ?c")
    case True
    then show ?thesis using less.prems by (intro prefill_last_step)
  next
    case False
    have c: "0 < ?c" by (rule model_ok_pos(1)[OF less.prems(2)])
    have pr: "prefill_remaining (ticked s) = (rid, int (u - ?c)) # rest"
      using less.prems(3) False by (simp add: prefill_left_def of_nat_diff)
    have "card (decoding (ticked s)) \<le> card (decoding s)"
      using mn_invD(12)[OF less.prems(1)] by (simp add: card_mono)
    then have cd: "card (decoding (ticked s)) \<le> bs" using less.prems(5) by (rule le_trans)
    have lt: "u - ?c < u" "0 < u - ?c" and mc: "model_config_ok (mn_model (ticked s))" and more: "?c < u"
      using less.prems(2,4) c False by simp_all
    have "prefill_drained rid (u - ?c) rest bs (now + step_time s) (ticked s)"
      by (rule less.IH[OF lt(1) ticked_inv[OF less.prems(1)] mc pr lt(2) cd])
    then show ?thesis by (rule prefill_more_steps[OF less.prems(1,2,3,5) more])
  qed
qed

text \<open>
  The oldest prefill of the pipeline is finished by exactly \<open>ceil(uncached / chunk_size)\<close> batch
  steps: the last one reports it, the others report no finished prefill, and the entries behind it
  are untouched. The time these steps take is at least the pure prefill cost and at most what
  \<open>estimate_prefill_time\<close> answers for a batch-size hint that bounds the decode streams at the
  start: the estimate really is the upper bound its documentation promises.
\<close>

theorem prefill_takes_estimated_time:
  assumes "mn_inv s" "model_config_ok (mn_model s)" "prefill_remaining s = (rid, int u) # rest" "0 < u"
    and "card (decoding s) \<le> bs"
  shows "\<exists>final evs s'.
    run_ticks (ceil_div u (prefill_chunk_size (mn_model s))) now s = (Inr (final, evs), s') \<and>
    map snd evs = replicate (ceil_div u (prefill_chunk_size (mn_model s)) - 1) None @ [Some rid] \<and>
    prefill_remaining s' = rest \<and>
    estimate_prefill_time (int u) 0 None s \<le> final - now \<and>
    final - now \<le> estimate_prefill_time (int u) 0 (Some bs) s"
proof -
  have est: "estimate_prefill_time (int u) 0 None s = of_nat u * prefill_cost_per_token_ms (mn_model s)"
    "estimate_prefill_time (int u) 0 (Some bs) s =
      of_nat (ceil_div u (prefill_chunk_size (mn_model s))) * step_per_chunk (mn_model s) bs"
    using assms(4) by (simp_all add: estimate_prefill_time_def uncached_of_def)
  obtain final evs s' where R:
    "run_ticks (ceil_div u (prefill_chunk_size (mn_model s))) now s = (Inr (final, evs), s')"
    "map snd evs = replicate (ceil_div u (prefill_chunk_size (mn_model s)) - 1) None @ [Some rid]"
    "prefill_remaining s' = rest"
    "now + of_nat u * prefill_cost_per_token_ms (mn_model s) \<le> final"
    "final \<le> now + of_nat (ceil_div u (prefill_chunk_size (mn_model s))) * step_per_chunk (mn_model s) bs"
    using prefill_runs[OF assms, of now] unfolding prefill_drained_def by blast
  have "estimate_prefill_time (int u) 0 None s \<le> final - now" "final - now \<le> estimate_prefill_time (int u) 0 (Some bs) s"
    using R(4,5) unfolding est by linarith+
  then show ?thesis using R(1-3) by blast
qed

theorem prefill_takes_estimated_time_witness:
  "\<exists>final evs s'. run_ticks 2 0 demo_mn = (Inr (final, evs), s') \<and> map snd evs = [None, Some ''b''] \<and>
     final \<le> estimate_prefill_time 1000 0 (Some 1) demo_mn"
proof -
  have v: "prefill_remaining demo_mn = [(''b'', int 1000)]" "card (decoding demo_mn) \<le> 1"
    "mn_model demo_mn = model_config_default" by code_simp+
  have ok: "model_config_ok (mn_model demo_mn)" unfolding v(3) by (rule config_defaults_ok(2))
  have k: "ceil_div 1000 (prefill_chunk_size (mn_model demo_mn)) = 2" unfolding v(3) by code_simp
  obtain final evs s' where R: "run_ticks 2 0 demo_mn = (Inr (final, evs), s')"
    "map snd evs = replicate (2 - 1) None @ [Some ''b'']" "final - 0 \<le> estimate_prefill_time (int 1000) 0 (Some 1) demo_mn"
    using prefill_takes_estimated_time[OF demo_mn_inv ok v(1) _ v(2), of 0, unfolded k] by auto
  moreover have "replicate (2 - 1) None @ [Some ''b''] = [None, Some ''b'']" by (simp add: numeral_2_eq_2)
  moreover have "final \<le> estimate_prefill_time 1000 0 (Some 1) demo_mn" using R(3) by simp
  ultimately show ?thesis by metis
qed

section \<open>A decode stream to its end\<close>

definition stream_ends :: "req_id \<Rightarrow> int \<Rightarrow> nat \<Rightarrow> time \<Rightarrow> mock_node \<Rightarrow> bool" where
  "stream_ends rid n k now s \<longleftrightarrow> (\<exists>final evs s'. run_ticks k now s = (Inr (final, evs), s') \<and> length evs = k \<and>
     (\<forall>i < k - 1. rid \<notin> set (fst (evs ! i))) \<and> rid \<in> set (fst (evs ! (k - 1))) \<and>
     rid \<notin> decoding s' \<and> output_tokens s' rid = Some (n + int k))"

lemma stream_end_step:
  assumes inv: "mn_inv s" and d: "rid \<in> decoding s" and o: "output_tokens s rid = Some n" "expected_output s rid = Some m"
    and le: "m \<le> n + 1"
  shows "stream_ends rid n 1 now s"
proof -
  let ?e = "(filter (at_end s) (sorted_list_of_set (decoding s)), prefill_completed s)"
  have "run_ticks (Suc 0) now s = (Inr (now + step_time s, [?e]), ticked s)"
    using d by (intro run_ticks_Suc[OF inv]) auto
  moreover have "rid \<in> set (fst ?e)" "rid \<notin> decoding (ticked s)" "output_tokens (ticked s) rid = Some (n + 1)"
    using d o le mn_invD(12)[OF inv] by (simp_all add: at_end_def finished_def)
  ultimately show ?thesis unfolding stream_ends_def by fastforce
qed

lemma stream_more_steps:
  assumes inv: "mn_inv s" and d: "rid \<in> decoding s" and o: "output_tokens s rid = Some n" "expected_output s rid = Some m"
    and gt: "n + 1 < m" and IH: "stream_ends rid (n + 1) (Suc k) (now + step_time s) (ticked s)"
  shows "stream_ends rid n (Suc (Suc k)) now s"
proof -
  let ?e = "(filter (at_end s) (sorted_list_of_set (decoding s)), prefill_completed s)"
  obtain final evs s' where I: "run_ticks (Suc k) (now + step_time s) (ticked s) = (Inr (final, evs), s')"
    "length evs = Suc k" "\<forall>i < k. rid \<notin> set (fst (evs ! i))" "rid \<in> set (fst (evs ! k))"
    "rid \<notin> decoding s'" "output_tokens s' rid = Some (n + 1 + int (Suc k))"
    using IH unfolding stream_ends_def by (auto simp del: run_ticks.simps)
  have run: "run_ticks (Suc (Suc k)) now s = (Inr (final, ?e # evs), s')"
    using d by (intro run_ticks_Suc[OF inv _ I(1)]) auto
  have no: "rid \<notin> set (fst ?e)" using o gt by (simp add: at_end_def)
  have "\<forall>i < Suc (Suc k) - 1. rid \<notin> set (fst ((?e # evs) ! i))"
  proof (intro allI impI)
    fix i assume "i < Suc (Suc k) - 1"
    then show "rid \<notin> set (fst ((?e # evs) ! i))" using no I(3) by (cases i) auto
  qed
  moreover have "rid \<in> set (fst ((?e # evs) ! (Suc (Suc k) - 1)))" using I(4) by simp
  moreover have "length (?e # evs) = Suc (Suc k)" using I(2) by simp
  moreover have "output_tokens s' rid = Some (n + int (Suc (Suc k)))" using I(6) by simp
  ultimately show ?thesis unfolding stream_ends_def
    by (intro exI[of _ final] exI[of _ "?e # evs"] exI[of _ s'] conjI run I(5))
qed

lemma stream_runs:
  assumes "mn_inv s" "rid \<in> decoding s" "output_tokens s rid = Some n" "expected_output s rid = Some m"
    "k = nat (max 1 (m - n))"
  shows "stream_ends rid n k now s"
  using assms
proof (induction k arbitrary: s n now)
  case 0
  then show ?case by simp
next
  case (Suc k)
  show ?case
  proof (cases "m \<le> n + 1")
    case True
    then have "Suc k = 1" using Suc.prems(5) by simp
    then show ?thesis using stream_end_step[OF Suc.prems(1-4) True] by simp
  next
    case False
    have k: "k = nat (max 1 (m - (n + 1)))" using Suc.prems(5) False by simp
    then have "k \<noteq> 0" by simp
    then obtain k' where k': "k = Suc k'" using not0_implies_Suc by blast
    have "rid \<in> decoding (ticked s)" "output_tokens (ticked s) rid = Some (n + 1)" "expected_output (ticked s) rid = Some m"
      using Suc.prems(2-4) False by (simp_all add: finished_def at_end_def)
    from Suc.IH[OF ticked_inv[OF Suc.prems(1)] this k] have "stream_ends rid (n + 1) (Suc k') (now + step_time s) (ticked s)"
      unfolding k' .
    then show ?thesis using stream_more_steps[OF Suc.prems(1-4)] False k' by simp
  qed
qed

text \<open>
  C36. A stream in the decode batch that has produced \<open>n\<close> of \<open>m\<close> expected tokens is reported as
  completed by exactly the \<open>max(1, m - n)\<close>-th batch step from now and by no earlier one; it has then
  left the batch and produced one token per step, one token at least even when nothing was missing.
\<close>

theorem decode_ends_on_time:
  assumes "mn_inv s" "rid \<in> decoding s" "output_tokens s rid = Some n" "expected_output s rid = Some m"
    and "k = nat (max 1 (m - n))"
  shows "\<exists>final evs s'. run_ticks k now s = (Inr (final, evs), s') \<and> length evs = k \<and>
    (\<forall>i < k - 1. rid \<notin> set (fst (evs ! i))) \<and> rid \<in> set (fst (evs ! (k - 1))) \<and>
    rid \<notin> decoding s' \<and> output_tokens s' rid = Some (n + int k)"
  using stream_runs[OF assms, of now] unfolding stream_ends_def .

theorem decode_ends_on_time_witness:
  "\<exists>final evs s'. run_ticks 2 0 demo_mn = (Inr (final, evs), s') \<and> ''a'' \<in> set (fst (evs ! 1)) \<and>
     output_tokens s' ''a'' = Some 2"
proof -
  have v: "''a'' \<in> decoding demo_mn" "output_tokens demo_mn ''a'' = Some 0" "expected_output demo_mn ''a'' = Some 2"
    by code_simp+
  have k: "2 = nat (max 1 (2 - 0))" by simp
  show ?thesis using decode_ends_on_time[OF demo_mn_inv v k, of 0] by (auto simp del: run_ticks.simps)
qed

section \<open>The waiting-time estimate\<close>

text \<open>
  The reference for the FIFO estimate keeps the slots as a multiset: each waiting request adds its
  own lifetime to the earliest release time.
\<close>

fun take_slots :: "rat multiset \<Rightarrow> rat list \<Rightarrow> rat multiset" where
  "take_slots M [] = M"
| "take_slots M (d # ds) = take_slots (add_mset (Min_mset M + d) (M - {#Min_mset M#})) ds"

lemma Min_mset_sorted: "sorted (x # xs) \<Longrightarrow> Min_mset (mset (x # xs)) = x"
  by (simp add: Min_insert2)

lemma fifo_slots_take:
  assumes "sorted slots" "slots \<noteq> []"
  shows "\<exists>slots'. fifo_slots slots ds = Inr slots' \<and> sorted slots' \<and> length slots' = length slots \<and>
    mset slots' = take_slots (mset slots) ds"
  using assms
proof (induction ds arbitrary: slots)
  case (Cons d ds)
  obtain x xs where s: "slots = x # xs" using Cons.prems(2) by (cases slots) auto
  let ?s1 = "sort (xs @ [x + d])"
  have ne: "?s1 \<noteq> []" by (metis length_0_conv length_append_singleton length_sort nat.distinct(1))
  have m: "mset ?s1 = add_mset (Min_mset (mset slots) + d) (mset slots - {#Min_mset (mset slots)#})"
    using Min_mset_sorted[of x xs] Cons.prems(1) s by simp
  have "length ?s1 = length slots" using s by simp
  then show ?case using Cons.IH[OF sorted_sort ne] s m by simp
qed simp

lemma sum_mset_add: "sum_mset (add_mset x A) = (x :: rat) + sum_mset A"
  by simp

lemma take_slots_sum: "M \<noteq> {#} \<Longrightarrow> sum_mset (take_slots M ds) = sum_mset M + sum_list ds"
proof (induction ds arbitrary: M)
  case (Cons d ds)
  have "Min_mset M \<in># M" using Cons.prems by simp
  then have "add_mset (Min_mset M) (M - {#Min_mset M#}) = M" by (rule insert_DiffM)
  then have s: "sum_mset M = Min_mset M + sum_mset (M - {#Min_mset M#})" using sum_mset_add by metis
  show ?case using Cons.IH[of "add_mset (Min_mset M + d) (M - {#Min_mset M#})"] by (simp add: s)
qed simp

lemma take_slots_nonneg:
  "M \<noteq> {#} \<Longrightarrow> \<forall>x \<in># M. l \<le> x \<Longrightarrow> \<forall>d \<in> set ds. 0 \<le> d \<Longrightarrow> \<forall>x \<in># take_slots M ds. l \<le> x"
proof (induction ds arbitrary: M)
  case (Cons d ds)
  have "l \<le> Min_mset M" using Cons.prems(1,2) by (metis Min_in finite_set_mset set_mset_eq_empty_iff)
  then have a: "\<forall>x \<in># add_mset (Min_mset M + d) (M - {#Min_mset M#}). l \<le> x"
    using Cons.prems(2,3) by (auto dest: in_diffD)
  have b: "\<forall>d \<in> set ds. 0 \<le> d" using Cons.prems(3) by simp
  show ?case unfolding take_slots.simps by (rule Cons.IH[OF _ a b]) simp
qed simp

lemma sum_list_head: "sorted (x # xs) \<Longrightarrow> of_nat (length (x # xs)) * (x :: rat) \<le> sum_list (x # xs)"
proof (induction xs)
  case (Cons y ys)
  then show ?case by (simp add: algebra_simps)
qed simp

abbreviation (input) lifetime :: "mock_node \<Rightarrow> int option \<Rightarrow> int option \<Rightarrow> req_id \<Rightarrow> rat" where
  "lifetime s pl ol rid \<equiv> remaining_lifecycle_ms s pl ol (state_for_wait s rid)"

lemma lifetime_nonneg:
  assumes "model_config_ok (mn_model s)"
  shows "0 \<le> remaining_lifecycle_ms s pl ol st"
proof -
  note p = model_ok_pos[OF assms]
  have d: "0 \<le> wait_decode_step_ms s" using p by (simp add: wait_decode_step_ms_def)
  have t: "0 \<le> (of_int (max 0 x) :: rat)" for x by simp
  have w: "0 \<le> (of_int (wait_prefill_tokens st pl) :: rat)"
    by (auto simp: wait_prefill_tokens_def split: option.splits)
  show ?thesis unfolding remaining_lifecycle_ms_def Let_def
    using mult_nonneg_nonneg[OF t d] mult_nonneg_nonneg[OF w p(2)] by (auto intro: add_nonneg_nonneg)
qed

text \<open>
  C37. The waiting-time estimate. With a free slot it is 0. With every slot taken and request metadata
  at hand it never fails, and it is the smallest release time that the multiset reference leaves
  after each queued request has taken the earliest slot in turn; so it is at least the shortest
  remaining life of a running request and at most the average: the total remaining work of all
  running and queued requests divided by the number of slots.
\<close>

theorem queue_wait_is_fifo:
  assumes "mn_inv s" "model_config_ok (mn_model s)" "1 \<le> capacity (mn_config s)" "pl \<noteq> None \<or> ol \<noteq> None"
  shows "\<exists>w. queue_wait_time s pl ol = Inr w \<and> 0 \<le> w \<and>
    (if length (running_requests s) < capacity (mn_config s) then w = 0
     else w = Min_mset (take_slots (mset (map (lifetime s pl ol) (running_requests s)))
                          (map (lifetime s pl ol) (queue s))) \<and>
       Min (lifetime s pl ol ` set (running_requests s)) \<le> w \<and>
       of_nat (capacity (mn_config s)) * w \<le>
         sum_list (map (lifetime s pl ol) (running_requests s @ queue s)))"
proof (cases "length (running_requests s) < capacity (mn_config s)")
  case True
  then show ?thesis by (simp add: queue_wait_time_def)
next
  case False
  let ?f = "lifetime s pl ol" and ?R = "running_requests s"
  have len: "length ?R = capacity (mn_config s)" using False mn_invD(1)[OF assms(1)] by simp
  then have ne: "map ?f ?R \<noteq> []" "sort (map ?f ?R) \<noteq> []" using assms(3)
    by (auto dest: arg_cong[of _ _ length])
  have nol: "\<not> uses_legacy_wait_fallback s (?R @ queue s) pl ol"
    using assms(4) by (auto simp: uses_legacy_wait_fallback_def)
  obtain slots where sl: "fifo_slots (sort (map ?f ?R)) (map ?f (queue s)) = Inr slots" "sorted slots"
    "length slots = length ?R" "mset slots = take_slots (mset (map ?f ?R)) (map ?f (queue s))"
    using fifo_slots_take[OF sorted_sort ne(2), of "map ?f (queue s)"] by auto
  obtain w ws where w: "slots = w # ws" using sl(3) len assms(3) by (cases slots) auto
  have q: "queue_wait_time s pl ol = Inr w"
    using False nol ne(1) sl(1) w by (simp add: queue_wait_time_def Let_def)
  have M: "mset (map ?f ?R) \<noteq> {#}" using ne(1) by simp
  have mn: "w = Min_mset (take_slots (mset (map ?f ?R)) (map ?f (queue s)))"
    unfolding sl(4)[symmetric] w by (rule Min_mset_sorted[symmetric]) (use sl(2) w in simp)
  have low: "\<forall>x \<in># take_slots (mset (map ?f ?R)) (map ?f (queue s)). Min (?f ` set ?R) \<le> x"
    using lifetime_nonneg[OF assms(2)] by (intro take_slots_nonneg[OF M]) auto
  have wm: "w \<in># take_slots (mset (map ?f ?R)) (map ?f (queue s))" unfolding sl(4)[symmetric] w by simp
  have lo: "Min (?f ` set ?R) \<le> w" using low wm by blast
  have pos: "0 \<le> Min (?f ` set ?R)" using ne(1) lifetime_nonneg[OF assms(2)] by simp
  have "sum_list slots = sum_list (map ?f (?R @ queue s))"
    using take_slots_sum[OF M, of "map ?f (queue s)"] sl(4) by (metis map_append sum_list_append sum_mset_sum_list)
  then have "of_nat (length (w # ws)) * w \<le> sum_list (map ?f (?R @ queue s))"
    using sum_list_head[of w ws] sl(2) w by simp
  moreover have "length (w # ws) = capacity (mn_config s)" using sl(3) w len by simp
  ultimately have "of_nat (capacity (mn_config s)) * w \<le> sum_list (map ?f (?R @ queue s))" by metis
  then show ?thesis using False q mn lo pos by auto
qed

theorem queue_wait_is_fifo_witness:
  "\<exists>w. queue_wait_time demo_waiting (Some 8) (Some 1) = Inr w \<and> 0 \<le> w \<and>
     w \<le> lifetime demo_waiting (Some 8) (Some 1) ''a'' + lifetime demo_waiting (Some 8) (Some 1) ''b''"
proof -
  have v: "running_requests demo_waiting = [''a'']" "queue demo_waiting = [''b'']" "capacity (mn_config demo_waiting) = 1"
    "mn_model demo_waiting = model_config_default" by code_simp+
  have ok: "model_config_ok (mn_model demo_waiting)" unfolding v(4) by (rule config_defaults_ok(2))
  show ?thesis
    using queue_wait_is_fifo[OF demo_waiting_inv ok, of "Some 8" "Some 1"] by (simp add: v(1-3))
qed

end
