(* ===== verification/Transfer_Model.thy ===== *)
theory Transfer_Model
  imports Config
begin

text \<open>
  \<open>simulator/transfer_model.py\<close>: what a KV transfer between two nodes costs in time. The two classes are
  the constructors of \<open>transfer_model\<close>; \<open>cli.py\<close> selects one from \<open>bandwidth.contention_model\<close>. The
  contract both satisfy is a locale, so that its clients need not know which one runs.
\<close>

section \<open>State and operations\<close>

record lane_backlog =
  egress :: rat
  ingress :: rat

record lane_model =
  egress_available_at :: "node_id \<rightharpoonup> rat"
  ingress_available_at :: "node_id \<rightharpoonup> rat"

definition lane_init :: lane_model where
  "lane_init = \<lparr>egress_available_at = Map.empty, ingress_available_at = Map.empty\<rparr>"

definition available :: "(node_id \<rightharpoonup> rat) \<Rightarrow> node_id \<Rightarrow> rat" where
  "available m n = (case m n of None \<Rightarrow> 0 | Some x \<Rightarrow> x)"

definition lane_request_transfer ::
  "node_id \<Rightarrow> node_id \<Rightarrow> time \<Rightarrow> rat \<Rightarrow> lane_model \<Rightarrow> (time \<times> time) \<times> lane_model" where
  "lane_request_transfer src dst now cost_ms s =
     (let start = max (max now (available (egress_available_at s) src)) (available (ingress_available_at s) dst);
          finish = start + cost_ms
      in ((start, finish), s\<lparr>egress_available_at := (egress_available_at s)(src \<mapsto> finish),
                             ingress_available_at := (ingress_available_at s)(dst \<mapsto> finish)\<rparr>))"

definition lane_peek_backlog :: "lane_model \<Rightarrow> node_id \<Rightarrow> lane_backlog" where
  "lane_peek_backlog s n =
     \<lparr>egress = available (egress_available_at s) n, ingress = available (ingress_available_at s) n\<rparr>"

definition noop_request_transfer :: "node_id \<Rightarrow> node_id \<Rightarrow> time \<Rightarrow> rat \<Rightarrow> time \<times> time" where
  "noop_request_transfer src dst now cost_ms = (now, now + cost_ms)"

definition noop_peek_backlog :: "node_id \<Rightarrow> lane_backlog" where
  "noop_peek_backlog n = \<lparr>egress = 0, ingress = 0\<rparr>"

text \<open>The object behind the \<open>TransferModel\<close> protocol.\<close>

datatype transfer_model = Noop_transfer | Per_node_lane lane_model

definition request_transfer ::
  "node_id \<Rightarrow> node_id \<Rightarrow> time \<Rightarrow> rat \<Rightarrow> transfer_model \<Rightarrow> (time \<times> time) \<times> transfer_model" where
  "request_transfer src dst now cost_ms m =
     (case m of Noop_transfer \<Rightarrow> (noop_request_transfer src dst now cost_ms, Noop_transfer)
      | Per_node_lane s \<Rightarrow>
          (case lane_request_transfer src dst now cost_ms s of (r, s') \<Rightarrow> (r, Per_node_lane s')))"

definition peek_backlog :: "transfer_model \<Rightarrow> node_id \<Rightarrow> lane_backlog" where
  "peek_backlog m n = (case m of Noop_transfer \<Rightarrow> noop_peek_backlog n | Per_node_lane s \<Rightarrow> lane_peek_backlog s n)"

definition build_transfer_model :: "bandwidth_config \<Rightarrow> transfer_model" where
  "build_transfer_model bw =
     (case contention_model bw of Contention_none \<Rightarrow> Noop_transfer | Contention_per_node_lane \<Rightarrow> Per_node_lane lane_init)"

section \<open>The contract\<close>

text \<open>
  A transfer never starts before it is asked for nor before the lanes it uses are free, lasts as long
  as it costs, and reservations never move a lane's free time back.
\<close>

locale transfer_contract =
  fixes transfer :: "node_id \<Rightarrow> node_id \<Rightarrow> time \<Rightarrow> rat \<Rightarrow> 's \<Rightarrow> (time \<times> time) \<times> 's"
    and backlog :: "'s \<Rightarrow> node_id \<Rightarrow> lane_backlog"
  assumes transfer_start: "transfer src dst now cost s = ((start, finish), s') \<Longrightarrow>
      now \<le> start \<and> finish = start + cost"
    and transfer_waits: "transfer src dst now cost s = ((start, finish), s') \<Longrightarrow> 0 \<le> now \<Longrightarrow>
      egress (backlog s src) \<le> start \<and> ingress (backlog s dst) \<le> start"
    and transfer_lanes: "transfer src dst now cost s = ((start, finish), s') \<Longrightarrow> 0 \<le> cost \<Longrightarrow>
      egress (backlog s n) \<le> egress (backlog s' n) \<and> ingress (backlog s n) \<le> ingress (backlog s' n)"
begin

fun transfer_all :: "(node_id \<times> node_id \<times> time \<times> rat) list \<Rightarrow> 's \<Rightarrow> (time \<times> time) list \<times> 's" where
  "transfer_all [] s = ([], s)"
| "transfer_all ((src, dst, now, cost) # rs) s =
     (case transfer src dst now cost s of (r, s') \<Rightarrow>
      (case transfer_all rs s' of (out, s'') \<Rightarrow> (r # out, s'')))"

lemma transfer_all_length: "length (fst (transfer_all rs s)) = length rs"
  by (induction rs arbitrary: s) (auto split: prod.splits, metis fst_conv)

lemma transfer_all_backlog:
  assumes "\<forall>(src, dst, now, cost) \<in> set rs. 0 \<le> cost"
  shows "egress (backlog s n) \<le> egress (backlog (snd (transfer_all rs s)) n) \<and>
    ingress (backlog s n) \<le> ingress (backlog (snd (transfer_all rs s)) n)"
  using assms
proof (induction rs arbitrary: s)
  case (Cons r rs)
  obtain src dst now cost where r: "r = (src, dst, now, cost)" by (cases r)
  obtain st fi s1 where t: "transfer src dst now cost s = ((st, fi), s1)"
    by (metis prod.collapse)
  have "egress (backlog s n) \<le> egress (backlog s1 n)" "ingress (backlog s n) \<le> ingress (backlog s1 n)"
    using transfer_lanes[OF t] Cons.prems r by auto
  moreover have "snd (transfer_all (r # rs) s) = snd (transfer_all rs s1)"
    using r t by (simp split: prod.splits)
  ultimately show ?case using Cons.IH[of s1] Cons.prems by fastforce
qed simp

lemma transfer_all_durations:
  assumes "i < length rs" "rs ! i = (src, dst, now, cost)"
  shows "now \<le> fst (fst (transfer_all rs s) ! i) \<and>
    snd (fst (transfer_all rs s) ! i) = fst (fst (transfer_all rs s) ! i) + cost"
  using assms
proof (induction rs arbitrary: s i)
  case (Cons r rs)
  obtain src' dst' now' cost' where r: "r = (src', dst', now', cost')" by (cases r)
  obtain st fi s1 where t: "transfer src' dst' now' cost' s = ((st, fi), s1)"
    by (metis prod.collapse)
  have "fst (transfer_all (r # rs) s) = (st, fi) # fst (transfer_all rs s1)"
    using r t by (simp split: prod.splits)
  then show ?case using Cons.IH Cons.prems r transfer_start[OF t] by (cases i) auto
qed simp

end

lemma lane_request_run:
  assumes "lane_request_transfer src dst now cost s = ((start, finish), s')"
  shows "start = max (max now (egress (lane_peek_backlog s src))) (ingress (lane_peek_backlog s dst))"
    "finish = start + cost"
    "lane_peek_backlog s' n = \<lparr>egress = (if n = src then finish else egress (lane_peek_backlog s n)),
       ingress = (if n = dst then finish else ingress (lane_peek_backlog s n))\<rparr>"
  using assms by (auto simp: lane_request_transfer_def lane_peek_backlog_def available_def Let_def)

interpretation lanes: transfer_contract lane_request_transfer lane_peek_backlog
proof
  fix src dst now cost s start finish s' n
  assume t: "lane_request_transfer src dst now cost s = ((start, finish), s')"
  note R = lane_request_run[OF t]
  show "now \<le> start \<and> finish = start + cost" using R(1,2) by simp
  show "egress (lane_peek_backlog s src) \<le> start \<and> ingress (lane_peek_backlog s dst) \<le> start"
    using R(1) by simp
  assume "0 \<le> cost"
  then have "start \<le> finish" using R(2) by simp
  then show "egress (lane_peek_backlog s n) \<le> egress (lane_peek_backlog s' n) \<and>
      ingress (lane_peek_backlog s n) \<le> ingress (lane_peek_backlog s' n)"
    using R(1) R(3)[of n] by (auto simp: max_def split: if_splits)
qed

interpretation transfers: transfer_contract request_transfer peek_backlog
proof
  fix src dst now cost m start finish m' n
  assume t: "request_transfer src dst now cost m = ((start, finish), m')"
  show "now \<le> start \<and> finish = start + cost"
    using t lanes.transfer_start
    by (fastforce simp: request_transfer_def noop_request_transfer_def split: transfer_model.splits prod.splits)
  show "egress (peek_backlog m src) \<le> start \<and> ingress (peek_backlog m dst) \<le> start" if "0 \<le> now"
    using t lanes.transfer_waits[OF _ that] that
    by (fastforce simp: request_transfer_def noop_request_transfer_def peek_backlog_def noop_peek_backlog_def
        split: transfer_model.splits prod.splits)
  assume "0 \<le> cost"
  then show "egress (peek_backlog m n) \<le> egress (peek_backlog m' n) \<and>
      ingress (peek_backlog m n) \<le> ingress (peek_backlog m' n)"
    using t lanes.transfer_lanes
    by (fastforce simp: request_transfer_def peek_backlog_def noop_peek_backlog_def split: transfer_model.splits prod.splits)
qed

section \<open>Transfers that share a lane\<close>

text \<open>A sequence of requests served by one lane model: the start and finish time of each.\<close>

fun run_transfers :: "(node_id \<times> node_id \<times> time \<times> rat) list \<Rightarrow> lane_model \<Rightarrow> (time \<times> time) list" where
  "run_transfers [] s = []"
| "run_transfers ((src, dst, now, cost) # rs) s =
     (case lane_request_transfer src dst now cost s of (r, s') \<Rightarrow> r # run_transfers rs s')"

lemma run_transfers_lanes: "run_transfers rs s = fst (lanes.transfer_all rs s)"
proof (induction rs arbitrary: s)
  case (Cons r rs)
  obtain src dst now cost where r: "r = (src, dst, now, cost)" by (cases r)
  obtain x s1 where t: "lane_request_transfer src dst now cost s = (x, s1)" by (metis prod.collapse)
  show ?case using Cons.IH[of s1] r t by (simp split: prod.splits)
qed simp




lemma start_is_now_or_finish:
  assumes "j < length rs"
  shows "fst (run_transfers rs s ! j) = fst (snd (snd (rs ! j))) \<or>
    fst (run_transfers rs s ! j) = egress (lane_peek_backlog s (fst (rs ! j))) \<or>
    fst (run_transfers rs s ! j) = ingress (lane_peek_backlog s (fst (snd (rs ! j)))) \<or>
    (\<exists>i < j. (fst (rs ! i) = fst (rs ! j) \<or> fst (snd (rs ! i)) = fst (snd (rs ! j))) \<and>
       fst (run_transfers rs s ! j) = snd (run_transfers rs s ! i))"
  using assms
proof (induction rs arbitrary: s j)
  case (Cons r rs)
  obtain src dst now cost where r: "r = (src, dst, now, cost)" by (cases r)
  obtain st fi s1 where t: "lane_request_transfer src dst now cost s = ((st, fi), s1)" by (metis prod.collapse)
  have run: "run_transfers (r # rs) s = (st, fi) # run_transfers rs s1" using r t by simp
  show ?case
  proof (cases j)
    case 0
    then show ?thesis using lane_request_run(1)[OF t] run r by (auto simp: max_def)
  next
    case (Suc k)
    have head: "egress (lane_peek_backlog s1 n) = (if n = src then fi else egress (lane_peek_backlog s n))"
      "ingress (lane_peek_backlog s1 n) = (if n = dst then fi else ingress (lane_peek_backlog s n))" for n
      using lane_request_run(3)[OF t, of n] by simp_all
    consider "fst (run_transfers rs s1 ! k) = fst (snd (snd (rs ! k)))"
      | "fst (run_transfers rs s1 ! k) = egress (lane_peek_backlog s1 (fst (rs ! k)))"
      | "fst (run_transfers rs s1 ! k) = ingress (lane_peek_backlog s1 (fst (snd (rs ! k))))"
      | i where "i < k" "fst (rs ! i) = fst (rs ! k) \<or> fst (snd (rs ! i)) = fst (snd (rs ! k))"
        "fst (run_transfers rs s1 ! k) = snd (run_transfers rs s1 ! i)"
      using Cons.IH[of k s1] Cons.prems Suc by auto
    then show ?thesis
    proof cases
      case 1
      then show ?thesis using run Suc by simp
    next
      case 2
      then show ?thesis using run Suc r head(1)[of "fst (rs ! k)"] by (cases "fst (rs ! k) = src") (auto intro!: exI[of _ 0])
    next
      case 3
      then show ?thesis using run Suc r head(2)[of "fst (snd (rs ! k))"]
        by (cases "fst (snd (rs ! k)) = dst") (auto intro!: exI[of _ 0])
    next
      case (4 i)
      then show ?thesis using run Suc by (auto intro!: exI[of _ "Suc i"])
    qed
  qed
qed simp

text \<open>
  The lane model never delays a transfer without cause: on lanes that were idle at the beginning
  each transfer starts at the moment it is requested, or exactly when an earlier transfer that
  shares one of its lanes finishes; it lasts exactly its cost.
\<close>

theorem lanes_start_as_early_as_possible:
  assumes "j < length rs" "0 \<le> fst (snd (snd (rs ! j)))"
  shows "fst (snd (snd (rs ! j))) \<le> fst (run_transfers rs lane_init ! j) \<and>
    snd (run_transfers rs lane_init ! j) = fst (run_transfers rs lane_init ! j) + snd (snd (snd (rs ! j))) \<and>
    (fst (run_transfers rs lane_init ! j) = fst (snd (snd (rs ! j))) \<or>
     (\<exists>i < j. (fst (rs ! i) = fst (rs ! j) \<or> fst (snd (rs ! i)) = fst (snd (rs ! j))) \<and>
        fst (run_transfers rs lane_init ! j) = snd (run_transfers rs lane_init ! i)))"
proof -
  obtain src dst now cost where r: "rs ! j = (src, dst, now, cost)" by (cases "rs ! j")
  have D: "now \<le> fst (run_transfers rs lane_init ! j)"
    "snd (run_transfers rs lane_init ! j) = fst (run_transfers rs lane_init ! j) + cost"
    using lanes.transfer_all_durations[OF assms(1) r, of lane_init] by (simp_all add: run_transfers_lanes)
  have z: "lane_peek_backlog lane_init n = \<lparr>egress = 0, ingress = 0\<rparr>" for n
    by (simp add: lane_peek_backlog_def lane_init_def available_def)
  have "fst (run_transfers rs lane_init ! j) = 0 \<Longrightarrow> fst (run_transfers rs lane_init ! j) = now"
    using D(1) assms(2) r by simp
  then show ?thesis using start_is_now_or_finish[OF assms(1), of lane_init] D r z by auto
qed

theorem lanes_start_as_early_as_possible_witness:
  "2 \<le> fst (run_transfers [(''a'', ''b'', 0, 5), (''c'', ''d'', 1, 2), (''a'', ''d'', 2, 1)] lane_init ! 2)"
  using lanes_start_as_early_as_possible[of 2 "[(''a'', ''b'', 0, 5), (''c'', ''d'', 1, 2), (''a'', ''d'', 2, 1)]"]
  by simp

end
