(* ===== verification/Sim_Engine.thy ===== *)
theory Sim_Engine
  imports KV_Prelude "HOL-Library.Multiset"
begin

text \<open>
  \<open>simulator/event.py\<close> and \<open>simulator/engine.py\<close>: the discrete-event core. Payloads have a type of
  their own. Handlers are Python callables that act on the simulated world and on the engine; the
  engine stores names of handlers and \<open>call\<close> says what a name does. The list behind \<open>heapq\<close> is
  observable only through \<open>heappush\<close> and \<open>heappop\<close>, which return the least event in the order of
  \<open>Event\<close> (time, then sequence number); the model keeps the pending events in a list and takes the
  first least one.
\<close>

section \<open>Events\<close>

datatype event_type =
    REQUEST_ARRIVE | SCHEDULED | PREFILL_START | PREFILL_COMPLETE | KV_TRANSFER_START
  | KV_TRANSFER_COMPLETE | TOKEN_GENERATED | DECODE_BATCH_STEP | DECODE_COMPLETE | REQUEST_REJECTED

record 'p event =
  ev_time :: time
  ev_seq :: nat
  ev_type :: event_type
  ev_payload :: 'p

text \<open>\<open>@dataclass(order=True)\<close> over the two compared fields.\<close>

definition ev_key :: "'p event \<Rightarrow> time \<times> nat" where
  "ev_key e = (ev_time e, ev_seq e)"

section \<open>Pending events\<close>

definition heappush :: "'p event \<Rightarrow> 'p event list \<Rightarrow> 'p event list" where
  "heappush e q = q @ [e]"

definition heappop :: "'p event list \<Rightarrow> ('p event \<times> 'p event list) option" where
  "heappop q = (case min_by ev_key q of None \<Rightarrow> None | Some e \<Rightarrow> Some (e, remove1 e q))"

text \<open>What the engine relies on: a queue of which every \<open>pop\<close> removes a least element.\<close>

locale event_queue =
  fixes push :: "'e \<Rightarrow> 'q \<Rightarrow> 'q"
    and pop :: "'q \<Rightarrow> ('e \<times> 'q) option"
    and events :: "'q \<Rightarrow> 'e multiset"
    and key :: "'e \<Rightarrow> 'k::linorder"
  assumes push_events: "events (push e q) = add_mset e (events q)"
    and pop_None: "pop q = None \<longleftrightarrow> events q = {#}"
    and pop_events: "pop q = Some (e, q') \<Longrightarrow> events q = add_mset e (events q')"
    and pop_least: "pop q = Some (e, q') \<Longrightarrow> x \<in># events q' \<Longrightarrow> key e \<le> key x"
begin

fun drain :: "nat \<Rightarrow> 'q \<Rightarrow> 'e list" where
  "drain 0 q = []"
| "drain (Suc n) q = (case pop q of None \<Rightarrow> [] | Some (e, q') \<Rightarrow> e # drain n q')"

lemma drain_events: "size (events q) \<le> n \<Longrightarrow> mset (drain n q) = events q"
proof (induction n arbitrary: q)
  case (Suc n)
  show ?case
  proof (cases "pop q")
    case None
    then show ?thesis using pop_None[THEN iffD1, OF None] by simp
  next
    case (Some p)
    obtain e q' where p: "p = (e, q')" by (cases p)
    have "events q = add_mset e (events q')" using pop_events Some p by simp
    then show ?thesis using Suc Some p by simp
  qed
qed simp

lemma drain_sorted: "size (events q) \<le> n \<Longrightarrow> sorted (map key (drain n q))"
proof (induction n arbitrary: q)
  case (Suc n)
  show ?case
  proof (cases "pop q")
    case (Some p)
    obtain e q' where p: "p = (e, q')" by (cases p)
    have e: "events q = add_mset e (events q')" using pop_events Some p by simp
    then have "size (events q') \<le> n" using Suc.prems by simp
    moreover have "\<forall>x \<in> set (drain n q'). key e \<le> key x"
      using pop_least Some p drain_events[OF calculation] by (metis set_mset_mset)
    ultimately show ?thesis using Suc.IH Some p by simp
  qed simp
qed simp

end

interpretation heap: event_queue heappush heappop mset ev_key
proof
  fix e :: "'p event" and q
  show "mset (heappush e q) = add_mset e (mset q)" by (simp add: heappush_def)
next
  fix q :: "'p event list"
  show "heappop q = None \<longleftrightarrow> mset q = {#}" by (cases "min_by ev_key q") (auto simp: heappop_def)
next
  fix q q' :: "'p event list" and e
  assume p: "heappop q = Some (e, q')"
  then have m: "min_by ev_key q = Some e" "q' = remove1 e q" by (auto simp: heappop_def split: option.splits)
  show "mset q = add_mset e (mset q')" using m min_by_in by fastforce
  fix x assume "x \<in># mset q'"
  then have "x \<in> set q'" by (simp only: set_mset_mset)
  then have "x \<in> set q" unfolding m(2) using set_remove1_subset by fast
  then show "ev_key e \<le> ev_key x" using min_by_least[OF m(1)] by blast
qed

section \<open>The engine\<close>

record ('p, 'h) sim_engine =
  ev_queue :: "'p event list"
  current_time :: time
  seq_counter :: nat
  handlers :: "event_type \<rightharpoonup> 'h list"
  stopped :: bool

definition engine_init :: "('p, 'h) sim_engine" where
  "engine_init = \<lparr>ev_queue = [], current_time = 0, seq_counter = 0, handlers = Map.empty, stopped = False\<rparr>"

definition now :: "('p, 'h) sim_engine \<Rightarrow> time" where
  "now e = current_time e"

definition schedule :: "'p event \<Rightarrow> (('p, 'h) sim_engine, unit) py" where
  "schedule ev e =
     (if ev_time ev < current_time e then (Inl ValueError, e)
      else (Inr (), e\<lparr>ev_queue := heappush (ev\<lparr>ev_seq := seq_counter e\<rparr>) (ev_queue e),
                      seq_counter := seq_counter e + 1\<rparr>))"

definition on :: "event_type \<Rightarrow> 'h \<Rightarrow> (('p, 'h) sim_engine, unit) py" where
  "on ty h e = (Inr (), e\<lparr>handlers := (handlers e)(ty \<mapsto>
     (case handlers e ty of None \<Rightarrow> [] | Some hs \<Rightarrow> hs) @ [h])\<rparr>)"

definition stop :: "(('p, 'h) sim_engine, unit) py" where
  "stop e = (Inr (), e\<lparr>stopped := True\<rparr>)"

text \<open>
  The handler loop iterates over the registered list itself, so a handler that is registered for the
  same type while the loop runs is called too; a type without any handler at the start has no list
  to iterate. The world and the engine are the state.
\<close>

fun call_handlers ::
  "nat \<Rightarrow> ('h \<Rightarrow> 'p event \<Rightarrow> ('w \<times> ('p, 'h) sim_engine, unit) py) \<Rightarrow> 'p event \<Rightarrow> nat \<Rightarrow>
   ('w \<times> ('p, 'h) sim_engine, unit) py" where
  "call_handlers 0 call ev i s = (Inl OutOfFuel, s)"
| "call_handlers (Suc fuel) call ev i s =
     (case handlers (snd s) (ev_type ev) of None \<Rightarrow> (Inr (), s)
      | Some hs \<Rightarrow>
          if i < length hs then py_bind (call (hs ! i) ev) (\<lambda>_. call_handlers fuel call ev (Suc i)) s
          else (Inr (), s))"

text \<open>
  \<open>run\<close>. The result lists the processed events, which is what the debug log of the source records;
  it is kept when a handler raises.
\<close>

fun run_loop ::
  "nat \<Rightarrow> ('h \<Rightarrow> 'p event \<Rightarrow> ('w \<times> ('p, 'h) sim_engine, unit) py) \<Rightarrow> 'w \<times> ('p, 'h) sim_engine \<Rightarrow>
   unit result \<times> 'p event list \<times> 'w \<times> ('p, 'h) sim_engine" where
  "run_loop 0 call s = (Inl OutOfFuel, [], s)"
| "run_loop (Suc fuel) call (w, e) =
     (if ev_queue e = [] \<or> stopped e then (Inr (), [], (w, e))
      else case heappop (ev_queue e) of None \<Rightarrow> (Inr (), [], (w, e))
      | Some (ev, q) \<Rightarrow>
          (case call_handlers fuel call ev 0 (w, e\<lparr>ev_queue := q, current_time := ev_time ev\<rparr>) of
             (Inl err, s') \<Rightarrow> (Inl err, [ev], s')
           | (Inr _, s') \<Rightarrow>
               (case run_loop fuel call s' of (r, evs, s'') \<Rightarrow> (r, ev # evs, s''))))"

section \<open>What handlers may do to the engine\<close>

text \<open>A handler that uses the public interface only: it schedules, registers and stops.\<close>

inductive engine_use :: "('p, 'h) sim_engine \<Rightarrow> ('p, 'h) sim_engine \<Rightarrow> bool" where
  use_none: "engine_use e e"
| use_schedule: "engine_use e e1 \<Longrightarrow> schedule ev e1 = (r, e2) \<Longrightarrow> engine_use e e2"
| use_on: "engine_use e e1 \<Longrightarrow> on ty h e1 = (r, e2) \<Longrightarrow> engine_use e e2"
| use_stop: "engine_use e e1 \<Longrightarrow> stop e1 = (r, e2) \<Longrightarrow> engine_use e e2"

lemma engine_use_trans: "engine_use e1 e2 \<Longrightarrow> engine_use e0 e1 \<Longrightarrow> engine_use e0 e2"
  by (induction rule: engine_use.induct) (auto intro: engine_use.intros)

definition uses_interface :: "('h \<Rightarrow> 'p event \<Rightarrow> ('w \<times> ('p, 'h) sim_engine, unit) py) \<Rightarrow> bool" where
  "uses_interface call \<longleftrightarrow> (\<forall>h ev w e r w' e'. call h ev (w, e) = (r, (w', e')) \<longrightarrow> engine_use e e')"

text \<open>
  Pending events lie in the future, carry distinct numbers below the counter, and \<open>past\<close> is the list of
  events processed so far: in order, and all before every pending one.
\<close>

definition engine_inv :: "'p event list \<Rightarrow> ('p, 'h) sim_engine \<Rightarrow> bool" where
  "engine_inv past e \<longleftrightarrow>
     (\<forall>x \<in> set (ev_queue e). current_time e \<le> ev_time x) \<and> sorted_wrt (<) (map ev_key past) \<and>
     (\<forall>d \<in> set past. ev_time d \<le> current_time e) \<and>
     (\<forall>d \<in> set past. \<forall>x \<in> set (ev_queue e). ev_key d < ev_key x) \<and>
     (\<forall>d \<in> set past. ev_seq d < seq_counter e) \<and>
     distinct (map ev_seq (past @ ev_queue e)) \<and> ev_seq ` (set past \<union> set (ev_queue e)) = {0..<seq_counter e}"

lemma engine_init_inv: "engine_inv [] engine_init"
  by (simp add: engine_inv_def engine_init_def)

lemma engine_invD:
  assumes "engine_inv past e"
  shows "\<And>x. x \<in> set (ev_queue e) \<Longrightarrow> current_time e \<le> ev_time x" "sorted_wrt (<) (map ev_key past)"
    "\<And>d. d \<in> set past \<Longrightarrow> ev_time d \<le> current_time e"
    "\<And>d x. d \<in> set past \<Longrightarrow> x \<in> set (ev_queue e) \<Longrightarrow> ev_key d < ev_key x"
    "\<And>d. d \<in> set past \<Longrightarrow> ev_seq d < seq_counter e"
    "distinct (map ev_seq (past @ ev_queue e))" "ev_seq ` (set past \<union> set (ev_queue e)) = {0..<seq_counter e}"
  using assms unfolding engine_inv_def by blast+

lemma schedule_inv:
  assumes inv: "engine_inv past e" and s: "schedule ev e = (r, e')"
  shows "engine_inv past e'"
proof (cases "ev_time ev < current_time e")
  case True
  then show ?thesis using inv s by (simp add: schedule_def)
next
  case False
  let ?x = "ev\<lparr>ev_seq := seq_counter e\<rparr>"
  have e': "e' = e\<lparr>ev_queue := ev_queue e @ [?x], seq_counter := seq_counter e + 1\<rparr>"
    using s False by (simp add: schedule_def heappush_def)
  note I = engine_invD[OF inv]
  have q: "ev_seq x < seq_counter e" if "x \<in> set past \<union> set (ev_queue e)" for x
    using I(7) that by (metis atLeastLessThan_iff image_eqI)
  have lt: "ev_key d < ev_key ?x" if "d \<in> set past" for d
    using I(3)[OF that] I(5)[OF that] False by (auto simp: ev_key_def)
  have "distinct (map ev_seq (past @ ev_queue e @ [?x]))"
    using I(6) q by (auto simp: image_iff) (metis Un_iff less_irrefl)+
  moreover have "ev_seq ` (set past \<union> set (ev_queue e @ [?x])) = {0..<seq_counter e + 1}"
    using I(7) by (auto simp: image_Un)
  ultimately show ?thesis using I(1-5) lt False unfolding engine_inv_def e' by (auto simp: less_SucI)
qed

lemma engine_use_inv: "engine_use e e' \<Longrightarrow> engine_inv past e \<Longrightarrow> engine_inv past e'"
proof (induction rule: engine_use.induct)
  case (use_schedule e e1 ev r e2)
  then show ?case using schedule_inv by blast
qed (auto simp: on_def stop_def engine_inv_def)

lemma engine_use_time: "engine_use e e' \<Longrightarrow> current_time e' = current_time e"
  by (induction rule: engine_use.induct) (auto simp: schedule_def on_def stop_def split: if_splits)

section \<open>Runs\<close>

lemma call_handlers_use:
  assumes u: "uses_interface call"
  shows "call_handlers fuel call ev i (w, e) = (r, (w', e')) \<Longrightarrow> engine_use e e'"
proof (induction fuel arbitrary: i w e)
  case (Suc fuel)
  show ?case
  proof (cases "\<exists>hs. handlers e (ev_type ev) = Some hs \<and> i < length hs")
    case False
    then have "e' = e" using Suc.prems by (auto split: option.splits if_splits)
    then show ?thesis by (simp add: use_none)
  next
    case True
    then obtain hs where hs: "handlers e (ev_type ev) = Some hs" "i < length hs" by blast
    obtain r1 w1 e1 where c: "call (hs ! i) ev (w, e) = (r1, (w1, e1))" by (metis prod.collapse)
    have u1: "engine_use e e1" using u c unfolding uses_interface_def by blast
    show ?thesis
    proof (cases r1)
      case (Inl x)
      then show ?thesis using Suc.prems hs c u1 by (simp add: py_bind_def)
    next
      case (Inr x)
      then have "call_handlers fuel call ev (Suc i) (w1, e1) = (r, (w', e'))"
        using Suc.prems hs c by (simp add: py_bind_def)
      then show ?thesis using Suc.IH engine_use_trans u1 by blast
    qed
  qed
qed (simp add: use_none)

text \<open>Taking the next event: it is the least pending one, and time advances to it.\<close>

lemma pop_inv:
  assumes inv: "engine_inv past e" and p: "heappop (ev_queue e) = Some (ev, q)"
  shows "engine_inv (past @ [ev]) (e\<lparr>ev_queue := q, current_time := ev_time ev\<rparr>)" "current_time e \<le> ev_time ev"
proof -
  note I = engine_invD[OF inv]
  have m: "mset (ev_queue e) = add_mset ev (mset q)" by (rule heap.pop_events[OF p])
  then have s: "set (ev_queue e) = insert ev (set q)" by (metis set_mset_mset set_mset_add_mset_insert)
  have ms: "mset (map ev_seq ((past @ [ev]) @ q)) = mset (map ev_seq (past @ ev_queue e))" using m by simp
  have dist: "distinct (map ev_seq ((past @ [ev]) @ q))" using I(6) mset_eq_imp_distinct_iff[OF ms] by blast
  have lt: "ev_key ev < ev_key x" if "x \<in> set q" for x
  proof -
    have "ev_key ev \<le> ev_key x" using heap.pop_least[OF p] that by simp
    moreover have "ev_seq ev \<noteq> ev_seq x" using dist that by (auto simp: image_iff)
    ultimately show ?thesis by (auto simp: ev_key_def)
  qed
  show "current_time e \<le> ev_time ev" using I(1) s by simp
  have "sorted_wrt (<) (map ev_key (past @ [ev]))" using I(2,4) s by (auto simp: sorted_wrt_append)
  moreover have "ev_time d \<le> ev_time ev" if "d \<in> set (past @ [ev])" for d
    using that I(3)[of d] I(1)[of ev] s by (auto intro: order_trans)
  moreover have "ev_key d < ev_key x" if "d \<in> set (past @ [ev])" "x \<in> set q" for d x
    using that I(4)[of d x] lt s by auto
  moreover have "ev_seq d < seq_counter e" if "d \<in> set (past @ [ev])" for d
    using that I(5)[of d] I(7) s by (auto simp: set_eq_iff image_iff)
  moreover have "ev_time ev \<le> ev_time x" if "x \<in> set q" for x using lt[OF that] by (auto simp: ev_key_def)
  moreover have "set (past @ [ev]) \<union> set q = set past \<union> set (ev_queue e)" using s by auto
  ultimately show "engine_inv (past @ [ev]) (e\<lparr>ev_queue := q, current_time := ev_time ev\<rparr>)"
    using dist I(7) unfolding engine_inv_def by simp
qed

lemma run_loop_inv:
  assumes u: "uses_interface call"
  shows "run_loop fuel call (w, e) = (r, evs, (w', e')) \<Longrightarrow> engine_inv past e \<Longrightarrow>
    engine_inv (past @ evs) e' \<and> current_time e \<le> current_time e' \<and> (\<forall>x \<in> set evs. current_time e \<le> ev_time x) \<and>
    (r = Inr () \<longrightarrow> ev_queue e' = [] \<or> stopped e')"
proof (induction fuel arbitrary: w e evs past)
  case (Suc fuel)
  show ?case
  proof (cases "ev_queue e = [] \<or> stopped e")
    case True
    then show ?thesis using Suc.prems by auto
  next
    case False
    then obtain ev q where p: "heappop (ev_queue e) = Some (ev, q)"
      using heap.pop_None[of "ev_queue e"] by (cases "heappop (ev_queue e)") auto
    let ?e0 = "e\<lparr>ev_queue := q, current_time := ev_time ev\<rparr>"
    note P = pop_inv[OF Suc.prems(2) p]
    obtain r1 w1 e1 where c: "call_handlers fuel call ev 0 (w, ?e0) = (r1, (w1, e1))" by (metis prod.collapse)
    have use: "engine_use ?e0 e1" by (rule call_handlers_use[OF u c])
    have inv1: "engine_inv (past @ [ev]) e1" by (rule engine_use_inv[OF use P(1)])
    have t1: "current_time e1 = ev_time ev" using engine_use_time[OF use] by simp
    show ?thesis
    proof (cases r1)
      case (Inl x)
      then show ?thesis using Suc.prems(1) False p c inv1 t1 P(2) by auto
    next
      case (Inr x)
      obtain r2 evs2 w2 e2 where l: "run_loop fuel call (w1, e1) = (r2, evs2, (w2, e2))" by (metis prod.collapse)
      have res: "evs = ev # evs2" "run_loop fuel call (w1, e1) = (r, evs2, (w', e'))"
        using Suc.prems(1) False p c Inr l by auto
      have "engine_inv ((past @ [ev]) @ evs2) e' \<and> current_time e1 \<le> current_time e' \<and>
          (\<forall>x \<in> set evs2. current_time e1 \<le> ev_time x) \<and> (r = Inr () \<longrightarrow> ev_queue e' = [] \<or> stopped e')"
        by (rule Suc.IH[OF res(2) inv1])
      then show ?thesis using res(1) t1 P(2) by auto
    qed
  qed
qed auto

text \<open>
  C39. Whatever handlers are registered, as long as they use the engine through \<open>schedule\<close>, \<open>on\<close> and
  \<open>stop\<close> only, and however \<open>run\<close> ends: events are processed in strictly increasing order of (time,
  insertion number), so ties fire in the order they were scheduled; simulated time never goes
  back; every event ever scheduled was processed once or is still pending, never both; and a run
  that returns without having been stopped has emptied the queue.
\<close>

theorem run_in_order:
  assumes "engine_use engine_init e" "uses_interface call" "run_loop fuel call (w, e) = (r, evs, (w', e'))"
  shows "sorted_wrt (<) (map (\<lambda>x. (ev_time x, ev_seq x)) evs) \<and>
    current_time e \<le> current_time e' \<and> (\<forall>x \<in> set evs. current_time e \<le> ev_time x \<and> ev_time x \<le> current_time e') \<and>
    distinct (map ev_seq (evs @ ev_queue e')) \<and> ev_seq ` (set evs \<union> set (ev_queue e')) = {0..<seq_counter e'} \<and>
    (r = Inr () \<longrightarrow> ev_queue e' = [] \<or> stopped e')"
proof -
  have k: "ev_key = (\<lambda>x. (ev_time x, ev_seq x))" by (simp add: ev_key_def fun_eq_iff)
  have "engine_inv [] e" by (rule engine_use_inv[OF assms(1) engine_init_inv])
  from run_loop_inv[OF assms(2,3) this] show ?thesis using engine_invD[of evs e'] unfolding k[symmetric] by auto
qed

text \<open>A chain of events: an arrival schedules a token one millisecond later, tokens stop the engine.\<close>

definition demo_call :: "nat \<Rightarrow> nat event \<Rightarrow> (nat \<times> (nat, nat) sim_engine, unit) py" where
  "demo_call h ev s = (case s of (w, e) \<Rightarrow>
     (if ev_type ev = REQUEST_ARRIVE then
        (case schedule \<lparr>ev_time = ev_time ev + 1, ev_seq = 0, ev_type = TOKEN_GENERATED, ev_payload = w\<rparr> e of
           (r, e') \<Rightarrow> (r, (w + 1, e')))
      else (case stop e of (r, e') \<Rightarrow> (r, (w, e')))))"

lemma demo_call_uses: "uses_interface demo_call"
  unfolding uses_interface_def demo_call_def
  by (auto split: prod.splits if_splits intro: use_schedule[OF use_none] use_stop[OF use_none])

definition demo_engine :: "(nat, nat) sim_engine" where
  "demo_engine = snd (schedule \<lparr>ev_time = 3, ev_seq = 0, ev_type = REQUEST_ARRIVE, ev_payload = 0\<rparr>
     (snd (schedule \<lparr>ev_time = 5, ev_seq = 0, ev_type = DECODE_COMPLETE, ev_payload = 0\<rparr>
       (snd (on TOKEN_GENERATED 1 (snd (on REQUEST_ARRIVE 1 engine_init)))))))"

lemma demo_engine_use: "engine_use engine_init demo_engine"
  unfolding demo_engine_def
  by (rule use_schedule[OF use_schedule[OF use_on[OF use_on[OF use_none prod.collapse[symmetric]]
    prod.collapse[symmetric]] prod.collapse[symmetric]] prod.collapse[symmetric]])

theorem run_in_order_witness:
  "\<exists>r evs w' e'. run_loop 9 demo_call (0, demo_engine) = (r, evs, (w', e')) \<and> length evs = 2 \<and>
     sorted_wrt (<) (map (\<lambda>x. (ev_time x, ev_seq x)) evs)"
proof -
  obtain r evs w' e' where R: "run_loop 9 demo_call (0, demo_engine) = (r, evs, (w', e'))" by (metis prod.collapse)
  have "length (fst (snd (run_loop 9 demo_call (0, demo_engine)))) = 2" by code_simp
  then have "length evs = 2" unfolding R by simp
  then show ?thesis using R run_in_order[OF demo_engine_use demo_call_uses R] by blast
qed

section \<open>Runs that end\<close>

text \<open>Handlers that only look at the engine: the world may change, nothing is scheduled.\<close>

definition observes :: "('h \<Rightarrow> 'p event \<Rightarrow> ('w \<times> ('p, 'h) sim_engine, unit) py) \<Rightarrow> bool" where
  "observes call \<longleftrightarrow> (\<forall>h ev w e. \<exists>w'. call h ev (w, e) = (Inr (), (w', e)))"

lemma call_handlers_observe:
  assumes "observes call" "\<And>hs. handlers e (ev_type ev) = Some hs \<Longrightarrow> length hs < i + fuel" "0 < fuel"
  shows "\<exists>w'. call_handlers fuel call ev i (w, e) = (Inr (), (w', e))"
  using assms(2,3)
proof (induction fuel arbitrary: i w)
  case (Suc fuel)
  show ?case
  proof (cases "\<exists>hs. handlers e (ev_type ev) = Some hs \<and> i < length hs")
    case True
    then obtain hs where hs: "handlers e (ev_type ev) = Some hs" "i < length hs" by blast
    obtain w1 where c: "call (hs ! i) ev (w, e) = (Inr (), (w1, e))" using assms(1) unfolding observes_def by blast
    have "0 < fuel" using Suc.prems(1)[OF hs(1)] hs(2) by linarith
    then obtain w' where "call_handlers fuel call ev (Suc i) (w1, e) = (Inr (), (w', e))"
      using Suc.IH[of "Suc i" w1] Suc.prems(1) by auto
    then show ?thesis using hs c by (simp add: py_bind_def)
  qed (auto split: option.splits if_splits)
qed simp

lemma run_loop_drains:
  assumes o: "observes call" and k: "\<And>ty hs. handlers e ty = Some hs \<Longrightarrow> length hs \<le> k" and s: "\<not> stopped e"
    and f: "length (ev_queue e) + k + 2 \<le> fuel"
  shows "\<exists>w' t. run_loop fuel call (w, e) =
    (Inr (), heap.drain (length (ev_queue e)) (ev_queue e), (w', e\<lparr>ev_queue := [], current_time := t\<rparr>))"
  using k s f
proof (induction "length (ev_queue e)" arbitrary: e w fuel)
  case 0
  have e: "e = e\<lparr>ev_queue := [], current_time := current_time e\<rparr>" using 0(1) by simp
  show ?case using 0 e by (cases fuel) (auto intro!: exI[of _ w] exI[of _ "current_time e"])
next
  case (Suc n)
  obtain fl where fl: "fuel = Suc fl" using Suc.prems(3) by (cases fuel) auto
  have ne: "ev_queue e \<noteq> []" using Suc.hyps(2) by auto
  then obtain ev q where p: "heappop (ev_queue e) = Some (ev, q)"
    using heap.pop_None[of "ev_queue e"] by (cases "heappop (ev_queue e)") auto
  have n: "length q = n"
    using arg_cong[OF heap.pop_events[OF p], of size] Suc.hyps(2) by simp
  let ?e = "e\<lparr>ev_queue := q, current_time := ev_time ev\<rparr>"
  have hk: "length hs < 0 + fl" if "handlers ?e (ev_type ev) = Some hs" for hs
    using Suc.prems(1)[of "ev_type ev" hs] Suc.prems(3) that fl by simp
  have "\<exists>w'. call_handlers fl call ev 0 (w, ?e) = (Inr (), (w', ?e))"
    by (rule call_handlers_observe[OF o]) (use hk Suc.prems(3) fl in simp_all)
  then obtain w1 where c: "call_handlers fl call ev 0 (w, ?e) = (Inr (), (w1, ?e))" by blast
  have "\<exists>w' t. run_loop fl call (w1, ?e) =
      (Inr (), heap.drain (length (ev_queue ?e)) (ev_queue ?e), (w', ?e\<lparr>ev_queue := [], current_time := t\<rparr>))"
    using Suc.prems fl n Suc.hyps(2) by (intro Suc.hyps(1)) simp_all
  then obtain w' t where l: "run_loop fl call (w1, ?e) = (Inr (), heap.drain n q, (w', ?e\<lparr>ev_queue := [], current_time := t\<rparr>))"
    using n by auto
  have "heap.drain (length (ev_queue e)) (ev_queue e) = ev # heap.drain n q" using p by (simp add: Suc.hyps(2)[symmetric])
  then show ?case using fl ne Suc.prems(2) p c l by auto
qed

text \<open>
  When the registered handlers schedule nothing more, \<open>run\<close> ends after one round per pending event
  and processes exactly the pending events, sorted by (time, insertion number); the queue is empty
  afterwards.
\<close>

theorem run_drains_sorted:
  assumes "observes call" "\<forall>ty hs. handlers e ty = Some hs \<longrightarrow> length hs \<le> k" "\<not> stopped e"
    and "length (ev_queue e) + k + 2 \<le> fuel"
  shows "\<exists>evs w' e'. run_loop fuel call (w, e) = (Inr (), evs, (w', e')) \<and> ev_queue e' = [] \<and>
    mset evs = mset (ev_queue e) \<and> sorted (map ev_key evs)"
proof -
  have "\<exists>w' t. run_loop fuel call (w, e) =
      (Inr (), heap.drain (length (ev_queue e)) (ev_queue e), (w', e\<lparr>ev_queue := [], current_time := t\<rparr>))"
    by (rule run_loop_drains[OF assms(1) _ assms(3,4)]) (use assms(2) in blast)
  then obtain w' t where
    "run_loop fuel call (w, e) = (Inr (), heap.drain (length (ev_queue e)) (ev_queue e), (w', e\<lparr>ev_queue := [], current_time := t\<rparr>))"
    by blast
  then show ?thesis using heap.drain_events[of "ev_queue e"] heap.drain_sorted[of "ev_queue e"] by auto
qed

theorem run_drains_sorted_witness:
  "\<exists>evs w' e'. run_loop 5 (\<lambda>h ev (w, e). (Inr (), (w + h, e))) (0 :: nat, demo_engine) = (Inr (), evs, (w', e')) \<and>
     mset evs = mset (ev_queue demo_engine) \<and> sorted (map ev_key evs)"
proof -
  have "observes (\<lambda>h ev (w :: nat, e :: (nat, nat) sim_engine). (Inr (), (w + h, e)))" by (simp add: observes_def)
  moreover have "\<forall>ty hs. handlers demo_engine ty = Some hs \<longrightarrow> length hs \<le> 1" "\<not> stopped demo_engine"
    "length (ev_queue demo_engine) + 1 + 2 \<le> 5"
    by (simp_all add: demo_engine_def schedule_def on_def engine_init_def heappush_def)
  ultimately show ?thesis
    using run_drains_sorted[of "\<lambda>h ev (w, e). (Inr (), (w + h, e))" demo_engine 1 5 "0 :: nat"] by blast
qed



end
