(* ===== verification/Scheduler_Base.thy ===== *)
theory Scheduler_Base
  imports Mock_Node Transfer_Model
begin

text \<open>
  \<open>scheduler/base.py\<close>: what a scheduling policy sees and answers. The cache is reached through the
  operations of the \<open>CacheQuery\<close> protocol, given as a record of functions on the cache's own state
  (a lookup touches LRU time stamps); the transfer model through \<open>peek_backlog\<close>. The contract of
  \<open>CacheQuery\<close> is a locale; the policies are proved against it.
\<close>

section \<open>Interfaces\<close>

record 'c cache_query =
  cq_lookup :: "request \<Rightarrow> node_id \<Rightarrow> ('c, cache_lookup) py"
  cq_lookup_all :: "request \<Rightarrow> ('c, (node_id \<times> cache_lookup) list) py"
  cq_free_blocks :: "node_id \<Rightarrow> tier \<Rightarrow> 'c \<Rightarrow> int result"

type_synonym backlog_view = "node_id \<Rightarrow> lane_backlog"

record scheduling_decision =
  prefill_node :: "node_id option"
  decode_node :: "node_id option"
  estimated_ttft_ms :: rat
  estimated_tbt_ms :: rat
  reject_reason :: "string option"

definition is_rejected :: "scheduling_decision \<Rightarrow> bool" where
  "is_rejected d \<longleftrightarrow> prefill_node d = None"

text \<open>The configuration a policy object keeps.\<close>

record policy_env =
  pe_model :: model_config
  pe_bw :: bandwidth_config

section \<open>Cost estimates\<close>

definition lane_queue_wait :: "backlog_view \<Rightarrow> node_id \<Rightarrow> node_id \<Rightarrow> time \<Rightarrow> rat" where
  "lane_queue_wait backlog src dst now =
     max (max 0 (egress (backlog src) - now)) (max 0 (ingress (backlog dst) - now))"

definition kv_service_ms :: "nat \<Rightarrow> nat \<Rightarrow> rat \<Rightarrow> rat" where
  "kv_service_ms prompt_len kv_bytes bandwidth = of_nat (prompt_len * kv_bytes) / bandwidth * 1000"

definition compute_est_ttft ::
  "mock_node \<Rightarrow> mock_node \<Rightarrow> request \<Rightarrow> cache_lookup \<Rightarrow> nat \<Rightarrow> rat \<Rightarrow> backlog_view \<Rightarrow> time \<Rightarrow> rat result" where
  "compute_est_ttft prefill decode req match kv_bytes bandwidth backlog now =
     (let prompt_len = length (token_ids req);
          prefill_bs = card (decoding prefill) + 1;
          decoding_bs = card (decoding decode) + 1;
          prefill_phase = estimate_prefill_time (int prompt_len) (int (matched_tokens match)) (Some prefill_bs) prefill
      in case queue_wait_time prefill (Some (int prompt_len)) (Some (int (expected_output_len req))) of
           Inl e \<Rightarrow> Inl e
         | Inr queue_wait \<Rightarrow>
             (let kv_transfer = kv_service_ms prompt_len kv_bytes bandwidth +
                    lane_queue_wait backlog (mn_node_id prefill) (mn_node_id decode) now;
                  cache_load_ms = transfer_cost_ms match;
                  first_decode_tick = estimate_decode_time decoding_bs decode
              in Inr (prefill_phase + queue_wait + kv_transfer + cache_load_ms + first_decode_tick)))"

definition compute_est_tbt :: "mock_node \<Rightarrow> rat" where
  "compute_est_tbt decode = estimate_decode_time (card (decoding decode) + 1) decode"

section \<open>What the policies share\<close>

definition no_nodes_available :: scheduling_decision where
  "no_nodes_available = \<lparr>prefill_node = None, decode_node = None, estimated_ttft_ms = 0, estimated_tbt_ms = 0,
     reject_reason = Some ''no_nodes_available''\<rparr>"

definition accept :: "mock_node \<Rightarrow> mock_node \<Rightarrow> rat \<Rightarrow> rat \<Rightarrow> scheduling_decision" where
  "accept prefill decode ttft tbt =
     \<lparr>prefill_node = Some (mn_node_id prefill), decode_node = Some (mn_node_id decode), estimated_ttft_ms = ttft,
      estimated_tbt_ms = tbt, reject_reason = None\<rparr>"

text \<open>\<open>key=lambda n: (n.current_load(), n.node_id)\<close>\<close>

definition load_key :: "mock_node \<Rightarrow> rat \<times> node_id" where
  "load_key n = (current_load n, mn_node_id n)"

text \<open>\<open>lookups.get(node_id, CacheLookup(0, {}, 0.0))\<close>\<close>

definition get_match :: "(node_id \<times> cache_lookup) list \<Rightarrow> node_id \<Rightarrow> cache_lookup" where
  "get_match lookups n = (case map_of lookups n of None \<Rightarrow> no_hit | Some m \<Rightarrow> m)"

text \<open>\<open>compute_est_ttft(...)\<close> as the policies call it, with their own configuration.\<close>

definition est_ttft ::
  "policy_env \<Rightarrow> backlog_view \<Rightarrow> time \<Rightarrow> mock_node \<Rightarrow> mock_node \<Rightarrow> request \<Rightarrow> cache_lookup \<Rightarrow> rat result" where
  "est_ttft env backlog now prefill decode req match =
     compute_est_ttft prefill decode req match (kv_bytes_per_token (pe_model env)) (gpu_to_gpu (pe_bw env)) backlog now"

text \<open>\<open>min(nodes, key=f)\<close> for a key that may raise: the keys are computed from the left.\<close>

fun keyed :: "('a \<Rightarrow> 'k result) \<Rightarrow> 'a list \<Rightarrow> ('k \<times> 'a) list result" where
  "keyed f [] = Inr []"
| "keyed f (x # xs) = (case f x of Inl e \<Rightarrow> Inl e | Inr k \<Rightarrow>
     (case keyed f xs of Inl e \<Rightarrow> Inl e | Inr ks \<Rightarrow> Inr ((k, x) # ks)))"

definition min_by_py :: "('a \<Rightarrow> 'k::linorder result) \<Rightarrow> 'a list \<Rightarrow> 'a result" where
  "min_by_py f xs = (case keyed f xs of Inl e \<Rightarrow> Inl e | Inr ks \<Rightarrow>
     (case min_by fst ks of None \<Rightarrow> Inl ValueError | Some kx \<Rightarrow> Inr (snd kx)))"

lemma keyed_total:
  "(\<And>x. x \<in> set xs \<Longrightarrow> f x = Inr (g x)) \<Longrightarrow> keyed f xs = Inr (map (\<lambda>x. (g x, x)) xs)"
  by (induction xs) auto

lemma min_from_map: "min_from fst (g b, b) (map (\<lambda>x. (g x, x)) xs) = (g (min_from g b xs), min_from g b xs)"
  by (induction xs arbitrary: b) auto

lemma min_by_py_total:
  assumes "\<And>x. x \<in> set xs \<Longrightarrow> f x = Inr (g x)" "xs \<noteq> []"
  shows "min_by_py f xs = Inr (the (min_by g xs))"
proof -
  obtain y ys where xs: "xs = y # ys" using assms(2) by (cases xs) auto
  have "keyed f xs = Inr (map (\<lambda>x. (g x, x)) xs)" by (rule keyed_total[OF assms(1)])
  then show ?thesis by (simp add: min_by_py_def min_by_def xs min_from_map)
qed

lemma min_by_py_in: "min_by_py f xs = Inr x \<Longrightarrow> x \<in> set xs"
proof -
  assume m: "min_by_py f xs = Inr x"
  have sub: "keyed f ys = Inr ks \<Longrightarrow> map snd ks = ys" for ys ks
    by (induction ys arbitrary: ks) (auto split: sum.splits)
  from m obtain ks k where k: "keyed f xs = Inr ks" "min_by fst ks = Some (k, x)"
    by (auto simp: min_by_py_def split: sum.splits option.splits)
  have "x \<in> snd ` set ks" using min_by_in[OF k(2)] by force
  then show ?thesis using sub[OF k(1)] by (metis set_map)
qed

lemma min_by_the:
  assumes "xs \<noteq> []"
  shows "the (min_by g xs) \<in> set xs" "y \<in> set xs \<Longrightarrow> g (the (min_by g xs)) \<le> g y"
proof -
  obtain x where x: "min_by g xs = Some x" using min_by_Some[OF assms] by blast
  then show "the (min_by g xs) \<in> set xs" "y \<in> set xs \<Longrightarrow> g (the (min_by g xs)) \<le> g y"
    using min_by_in min_by_least by fastforce+
qed

section \<open>The contract of the cache\<close>

definition match_ok :: "request \<Rightarrow> cache_lookup \<Rightarrow> bool" where
  "match_ok req m \<longleftrightarrow> matched_tokens m \<le> length (token_ids req) \<and> 0 \<le> transfer_cost_ms m"

locale cache_query_contract =
  fixes cq :: "'c cache_query"
    and cq_inv :: "'c \<Rightarrow> bool"
    and known :: "'c \<Rightarrow> node_id set"
  assumes lookup_known: "cq_inv c \<Longrightarrow> n \<in> known c \<Longrightarrow>
      \<exists>m c'. cq_lookup cq req n c = (Inr m, c') \<and> match_ok req m \<and> cq_inv c' \<and> known c' = known c"
    and lookup_unknown: "cq_inv c \<Longrightarrow> n \<notin> known c \<Longrightarrow> cq_lookup cq req n c = (Inl KeyError, c)"
    and lookup_every: "cq_inv c \<Longrightarrow> \<exists>ls c'. cq_lookup_all cq req c = (Inr ls, c') \<and> cq_inv c' \<and> known c' = known c \<and>
      dom (map_of ls) = known c \<and> (\<forall>n m. map_of ls n = Some m \<longrightarrow> match_ok req m)"
    and free_known: "cq_inv c \<Longrightarrow> n \<in> known c \<Longrightarrow> \<exists>k \<ge> 0. cq_free_blocks cq n gpu c = Inr k"
    and free_unknown: "cq_inv c \<Longrightarrow> n \<notin> known c \<Longrightarrow> cq_free_blocks cq n gpu c = Inl KeyError"

lemma no_hit_ok: "match_ok req no_hit"
  by (simp add: match_ok_def no_hit_def)

lemma get_match_ok: "(\<And>n m. map_of ls n = Some m \<Longrightarrow> match_ok req m) \<Longrightarrow> match_ok req (get_match ls n)"
  by (simp add: get_match_def no_hit_ok split: option.splits)

text \<open>Nodes the estimates are defined on.\<close>

definition node_usable :: "mock_node \<Rightarrow> bool" where
  "node_usable n \<longleftrightarrow> length (running_requests n) \<le> capacity (mn_config n) \<and> 1 \<le> capacity (mn_config n)"

lemma queue_wait_total:
  assumes "node_usable n" "pl \<noteq> None \<or> ol \<noteq> None"
  shows "\<exists>w. queue_wait_time n pl ol = Inr w"
proof (cases "length (running_requests n) < capacity (mn_config n)")
  case False
  have fifo: "slots \<noteq> [] \<Longrightarrow> \<exists>slots'. fifo_slots slots ds = Inr slots' \<and> slots' \<noteq> []" for slots ds
  proof (induction slots ds rule: fifo_slots.induct)
    case (3 x xs d ds)
    have "sort (xs @ [x + d]) \<noteq> []" by (metis length_0_conv length_append_singleton length_sort nat.distinct(1))
    then show ?case using 3 by simp
  qed auto
  let ?f = "\<lambda>rid. remaining_lifecycle_ms n pl ol (state_for_wait n rid)"
  have "length (sort (map ?f (running_requests n))) \<noteq> 0" "length (map ?f (running_requests n)) \<noteq> 0"
    using assms(1) False by (simp_all add: node_usable_def)
  then have ne: "sort (map ?f (running_requests n)) \<noteq> []" "map ?f (running_requests n) \<noteq> []"
    by (metis list.size(3))+
  obtain slots where "fifo_slots (sort (map ?f (running_requests n))) (map ?f (queue n)) = Inr slots" "slots \<noteq> []"
    using fifo[OF ne(1)] by blast
  then obtain w ws where "fifo_slots (sort (map ?f (running_requests n))) (map ?f (queue n)) = Inr (w # ws)"
    by (cases slots) auto
  then have "queue_wait_time n pl ol = Inr w"
    using False assms(2) ne(2) by (simp add: queue_wait_time_def Let_def uses_legacy_wait_fallback_def)
  then show ?thesis by blast
qed (simp add: queue_wait_time_def)

lemma est_ttft_total: "node_usable prefill \<Longrightarrow> \<exists>x. est_ttft env backlog now prefill decode req m = Inr x"
proof -
  assume "node_usable prefill"
  then obtain w where
    "queue_wait_time prefill (Some (int (length (token_ids req)))) (Some (int (expected_output_len req))) = Inr w"
    using queue_wait_total[of prefill "Some (int (length (token_ids req)))"] by blast
  then show ?thesis by (simp add: est_ttft_def compute_est_ttft_def Let_def)
qed

end
