(* ===== verification/Policies.thy ===== *)
theory Policies
  imports Scheduler_Base
begin

text \<open>
  The five scheduling policies: \<open>round_robin.py\<close>, \<open>least_loaded.py\<close>, \<open>prefix_greedy.py\<close>, \<open>e2_policy.py\<close> and
  \<open>conductor.py\<close>. Each \<open>schedule\<close> method is one definition over the cache's state; the round-robin
  policy keeps two cursors of its own. \<open>policy\<close> and \<open>policy_schedule\<close> are the objects behind the
  \<open>SchedulingPolicy\<close> protocol.
\<close>

section \<open>Round robin\<close>

record rr_state =
  prefill_cursor :: nat
  decode_cursor :: nat

definition rr_init :: rr_state where
  "rr_init = \<lparr>prefill_cursor = 0, decode_cursor = 0\<rparr>"

text \<open>\<open>try: cache.lookup(...) except KeyError: CacheLookup(0, {}, 0.0)\<close>\<close>

definition lookup_or_cold :: "'c cache_query \<Rightarrow> request \<Rightarrow> node_id \<Rightarrow> ('c, cache_lookup) py" where
  "lookup_or_cold cq req n c =
     (case cq_lookup cq req n c of
        (Inl e, c') \<Rightarrow> if e = KeyError then (Inr no_hit, c') else (Inl e, c')
      | (Inr m, c') \<Rightarrow> (Inr m, c'))"

text \<open>The estimates of the chosen pair and the answer that accepts the request.\<close>

definition place ::
  "policy_env \<Rightarrow> backlog_view \<Rightarrow> time \<Rightarrow> request \<Rightarrow> mock_node \<Rightarrow> mock_node \<Rightarrow> cache_lookup \<Rightarrow>
   scheduling_decision result" where
  "place env backlog now req prefill decode match =
     (case est_ttft env backlog now prefill decode req match of
        Inl e \<Rightarrow> Inl e | Inr ttft \<Rightarrow> Inr (accept prefill decode ttft (compute_est_tbt decode)))"

definition rr_schedule ::
  "policy_env \<Rightarrow> 'c cache_query \<Rightarrow> backlog_view \<Rightarrow> time \<Rightarrow> request \<Rightarrow> mock_node list \<Rightarrow> mock_node list \<Rightarrow>
   (rr_state \<times> 'c, scheduling_decision) py" where
  "rr_schedule env cq backlog now req prefill_nodes decode_nodes s =
     (if prefill_nodes = [] \<or> decode_nodes = [] then (Inr no_nodes_available, s)
      else case s of (st, c) \<Rightarrow>
        (let prefill = prefill_nodes ! (prefill_cursor st mod length prefill_nodes);
             decode = decode_nodes ! (decode_cursor st mod length decode_nodes);
             st' = \<lparr>prefill_cursor = prefill_cursor st + 1, decode_cursor = decode_cursor st + 1\<rparr>
         in case lookup_or_cold cq req (mn_node_id decode) c of
              (Inl e, c') \<Rightarrow> (Inl e, (st', c'))
            | (Inr m, c') \<Rightarrow> (place env backlog now req prefill decode m, (st', c'))))"

section \<open>Least loaded\<close>

definition least_loaded :: "mock_node list \<Rightarrow> mock_node" where
  "least_loaded ns = the (min_by load_key ns)"

definition ll_schedule ::
  "policy_env \<Rightarrow> 'c cache_query \<Rightarrow> backlog_view \<Rightarrow> time \<Rightarrow> request \<Rightarrow> mock_node list \<Rightarrow> mock_node list \<Rightarrow>
   ('c, scheduling_decision) py" where
  "ll_schedule env cq backlog now req prefill_nodes decode_nodes c =
     (if prefill_nodes = [] \<or> decode_nodes = [] then (Inr no_nodes_available, c)
      else let prefill = least_loaded prefill_nodes;
               decode = least_loaded decode_nodes
           in case lookup_or_cold cq req (mn_node_id decode) c of
                (Inl e, c') \<Rightarrow> (Inl e, c')
              | (Inr m, c') \<Rightarrow> (place env backlog now req prefill decode m, c'))"

section \<open>Prefix greedy\<close>

definition pg_init :: "rat \<Rightarrow> rat result" where
  "pg_init min_hit_ratio = (if \<not> (0 \<le> min_hit_ratio \<and> min_hit_ratio \<le> 1) then Inl ValueError else Inr min_hit_ratio)"

definition hit_of :: "(node_id \<times> cache_lookup) list \<Rightarrow> mock_node \<Rightarrow> nat" where
  "hit_of lookups n = matched_tokens (get_match lookups (mn_node_id n))"

definition max_hit :: "(node_id \<times> cache_lookup) list \<Rightarrow> mock_node list \<Rightarrow> nat" where
  "max_hit lookups ns = fold max (map (hit_of lookups) ns) 0"

definition use_fallback :: "rat \<Rightarrow> nat \<Rightarrow> nat \<Rightarrow> bool" where
  "use_fallback min_hit_ratio best prompt_len \<longleftrightarrow>
     prompt_len = 0 \<or> of_nat best / of_nat prompt_len < min_hit_ratio"

definition pg_decode :: "rat \<Rightarrow> request \<Rightarrow> (node_id \<times> cache_lookup) list \<Rightarrow> mock_node list \<Rightarrow> mock_node" where
  "pg_decode min_hit_ratio req lookups decode_nodes =
     (let best = max_hit lookups decode_nodes
      in if use_fallback min_hit_ratio best (length (token_ids req)) then least_loaded decode_nodes
         else least_loaded (filter (\<lambda>n. hit_of lookups n = best) decode_nodes))"

definition pg_schedule ::
  "policy_env \<Rightarrow> rat \<Rightarrow> 'c cache_query \<Rightarrow> backlog_view \<Rightarrow> time \<Rightarrow> request \<Rightarrow> mock_node list \<Rightarrow> mock_node list \<Rightarrow>
   ('c, scheduling_decision) py" where
  "pg_schedule env min_hit_ratio cq backlog now req prefill_nodes decode_nodes c =
     (if prefill_nodes = [] \<or> decode_nodes = [] then (Inr no_nodes_available, c)
      else case cq_lookup_all cq req c of
        (Inl e, c') \<Rightarrow> (Inl e, c')
      | (Inr lookups, c') \<Rightarrow>
          (let decode = pg_decode min_hit_ratio req lookups decode_nodes;
               prefill = least_loaded prefill_nodes
           in (place env backlog now req prefill decode (get_match lookups (mn_node_id decode)), c')))"

section \<open>E2\<close>

record e2_weights =
  w_historical :: rat
  w_eviction :: rat
  w_run :: rat

definition e2_init :: "e2_weights \<Rightarrow> e2_weights result" where
  "e2_init w = (if w_historical w < 0 \<or> w_eviction w < 0 \<or> w_run w < 0 then Inl ValueError else Inr w)"

definition e2_score ::
  "policy_env \<Rightarrow> e2_weights \<Rightarrow> 'c cache_query \<Rightarrow> 'c \<Rightarrow> backlog_view \<Rightarrow> time \<Rightarrow> request \<Rightarrow>
   (node_id \<times> cache_lookup) list \<Rightarrow> mock_node \<Rightarrow> mock_node \<Rightarrow> (rat \<times> node_id) result" where
  "e2_score env w cq c backlog now req lookups prefill decode =
     (let prompt_len = length (token_ids req);
          bs = block_size (pe_model env);
          ppt = prefill_cost_per_token_ms (pe_model env);
          total_blocks = prompt_len div bs;
          match = get_match lookups (mn_node_id decode);
          new_blocks = max 0 (int total_blocks - int (matched_tokens match div bs));
          hist = current_load decode * of_nat prompt_len * ppt
      in case cq_free_blocks cq (mn_node_id decode) gpu c of Inl e \<Rightarrow> Inl e | Inr free_gpu \<Rightarrow>
        (let shortage = max 0 (new_blocks - free_gpu);
             evict = of_int shortage * of_nat bs * ppt
         in case est_ttft env backlog now prefill decode req match of Inl e \<Rightarrow> Inl e | Inr run \<Rightarrow>
              Inr (w_historical w * hist + w_eviction w * evict + w_run w * run, mn_node_id decode)))"

definition e2_schedule ::
  "policy_env \<Rightarrow> e2_weights \<Rightarrow> 'c cache_query \<Rightarrow> backlog_view \<Rightarrow> time \<Rightarrow> request \<Rightarrow> mock_node list \<Rightarrow>
   mock_node list \<Rightarrow> ('c, scheduling_decision) py" where
  "e2_schedule env w cq backlog now req prefill_nodes decode_nodes c =
     (if prefill_nodes = [] \<or> decode_nodes = [] then (Inr no_nodes_available, c)
      else case cq_lookup_all cq req c of
        (Inl e, c') \<Rightarrow> (Inl e, c')
      | (Inr lookups, c') \<Rightarrow>
          (let prefill = least_loaded prefill_nodes
           in case min_by_py (e2_score env w cq c' backlog now req lookups prefill) decode_nodes of
                Inl e \<Rightarrow> (Inl e, c')
              | Inr decode \<Rightarrow>
                  (place env backlog now req prefill decode (get_match lookups (mn_node_id decode)), c')))"

section \<open>Conductor\<close>

record conductor_weights =
  alpha :: rat
  beta :: rat
  gamma :: rat

definition conductor_init :: "conductor_weights \<Rightarrow> conductor_weights result" where
  "conductor_init w = (if alpha w < 0 \<or> beta w < 0 \<or> gamma w < 0 then Inl ValueError else Inr w)"

definition conductor_score ::
  "policy_env \<Rightarrow> conductor_weights \<Rightarrow> request \<Rightarrow> (node_id \<times> cache_lookup) list \<Rightarrow> mock_node \<Rightarrow> rat result" where
  "conductor_score env w req lookups decode =
     (let prompt_len = length (token_ids req);
          ppt = prefill_cost_per_token_ms (pe_model env);
          match = get_match lookups (mn_node_id decode);
          cache_benefit = of_nat (matched_tokens match) * ppt
      in case queue_wait_time decode (Some (int prompt_len)) (Some (int (expected_output_len req))) of
           Inl e \<Rightarrow> Inl e
         | Inr wait \<Rightarrow>
             (let load_penalty = current_load decode * of_nat prompt_len * ppt + wait
              in Inr (alpha w * cache_benefit - beta w * load_penalty - gamma w * transfer_cost_ms match)))"

definition conductor_key ::
  "policy_env \<Rightarrow> conductor_weights \<Rightarrow> request \<Rightarrow> (node_id \<times> cache_lookup) list \<Rightarrow> mock_node \<Rightarrow>
   (rat \<times> node_id) result" where
  "conductor_key env w req lookups decode =
     (case conductor_score env w req lookups decode of Inl e \<Rightarrow> Inl e | Inr score \<Rightarrow> Inr (- score, mn_node_id decode))"

definition slo_reject :: "rat \<Rightarrow> rat \<Rightarrow> string \<Rightarrow> scheduling_decision" where
  "slo_reject ttft tbt reason = \<lparr>prefill_node = None, decode_node = None, estimated_ttft_ms = ttft,
     estimated_tbt_ms = tbt, reject_reason = Some reason\<rparr>"

definition slo_gate :: "request \<Rightarrow> mock_node \<Rightarrow> mock_node \<Rightarrow> rat \<Rightarrow> scheduling_decision" where
  "slo_gate req prefill decode ttft =
     (let tbt = compute_est_tbt decode
      in if ttft > slo_ttft req then slo_reject ttft tbt ''ttft_slo_exceeded''
         else if tbt > slo_tbt req then slo_reject ttft tbt ''tbt_slo_exceeded''
         else accept prefill decode ttft tbt)"

definition conductor_schedule ::
  "policy_env \<Rightarrow> conductor_weights \<Rightarrow> 'c cache_query \<Rightarrow> backlog_view \<Rightarrow> time \<Rightarrow> request \<Rightarrow> mock_node list \<Rightarrow>
   mock_node list \<Rightarrow> ('c, scheduling_decision) py" where
  "conductor_schedule env w cq backlog now req prefill_nodes decode_nodes c =
     (if prefill_nodes = [] \<or> decode_nodes = [] then (Inr no_nodes_available, c)
      else case cq_lookup_all cq req c of
        (Inl e, c') \<Rightarrow> (Inl e, c')
      | (Inr lookups, c') \<Rightarrow>
          (let prefill = least_loaded prefill_nodes
           in case min_by_py (conductor_key env w req lookups) decode_nodes of
                Inl e \<Rightarrow> (Inl e, c')
              | Inr decode \<Rightarrow>
                  (case est_ttft env backlog now prefill decode req (get_match lookups (mn_node_id decode)) of
                     Inl e \<Rightarrow> (Inl e, c')
                   | Inr ttft \<Rightarrow> (Inr (slo_gate req prefill decode ttft), c'))))"

section \<open>The policy objects\<close>

datatype policy =
    Round_robin rr_state
  | Least_loaded
  | Prefix_greedy rat
  | E2 e2_weights
  | Conductor conductor_weights

definition keep_policy :: "policy \<Rightarrow> ('c, 'a) py \<Rightarrow> (policy \<times> 'c, 'a) py" where
  "keep_policy pol m s = (case m (snd s) of (r, c') \<Rightarrow> (r, (pol, c')))"

definition policy_schedule ::
  "policy_env \<Rightarrow> 'c cache_query \<Rightarrow> backlog_view \<Rightarrow> time \<Rightarrow> request \<Rightarrow> mock_node list \<Rightarrow> mock_node list \<Rightarrow>
   (policy \<times> 'c, scheduling_decision) py" where
  "policy_schedule env cq backlog now req ps ds s =
     (case fst s of
        Round_robin st \<Rightarrow>
          (case rr_schedule env cq backlog now req ps ds (st, snd s) of (r, (st', c')) \<Rightarrow> (r, (Round_robin st', c')))
      | Least_loaded \<Rightarrow> keep_policy Least_loaded (ll_schedule env cq backlog now req ps ds) s
      | Prefix_greedy h \<Rightarrow> keep_policy (Prefix_greedy h) (pg_schedule env h cq backlog now req ps ds) s
      | E2 w \<Rightarrow> keep_policy (E2 w) (e2_schedule env w cq backlog now req ps ds) s
      | Conductor w \<Rightarrow> keep_policy (Conductor w) (conductor_schedule env w cq backlog now req ps ds) s)"

section \<open>The contract of a policy\<close>

definition decision_for :: "mock_node list \<Rightarrow> mock_node list \<Rightarrow> scheduling_decision \<Rightarrow> bool" where
  "decision_for ps ds d \<longleftrightarrow>
     (case prefill_node d of
        None \<Rightarrow> decode_node d = None \<and> reject_reason d \<noteq> None
      | Some p \<Rightarrow> p \<in> mn_node_id ` set ps \<and> reject_reason d = None \<and> (\<exists>q \<in> mn_node_id ` set ds. decode_node d = Some q))"

definition pools_ok :: "node_id set \<Rightarrow> mock_node list \<Rightarrow> mock_node list \<Rightarrow> bool" where
  "pools_ok K ps ds \<longleftrightarrow> (\<forall>n \<in> set ps. node_usable n) \<and> (\<forall>n \<in> set ds. node_usable n \<and> mn_node_id n \<in> K)"

locale scheduling_policy =
  fixes schedule :: "time \<Rightarrow> request \<Rightarrow> mock_node list \<Rightarrow> mock_node list \<Rightarrow> ('s, scheduling_decision) py"
    and pol_inv :: "'s \<Rightarrow> bool"
    and known :: "'s \<Rightarrow> node_id set"
  assumes empty_pool: "ps = [] \<or> ds = [] \<Longrightarrow> schedule now req ps ds s = (Inr no_nodes_available, s)"
    and decides: "pol_inv s \<Longrightarrow> pools_ok (known s) ps ds \<Longrightarrow> ps \<noteq> [] \<Longrightarrow> ds \<noteq> [] \<Longrightarrow>
      \<exists>d s'. schedule now req ps ds s = (Inr d, s') \<and> decision_for ps ds d \<and> pol_inv s' \<and> known s' = known s"
begin

lemma always_decides:
  assumes "pol_inv s" "pools_ok (known s) ps ds"
  shows "\<exists>d s'. schedule now req ps ds s = (Inr d, s') \<and> decision_for ps ds d \<and> pol_inv s' \<and> known s' = known s"
proof (cases "ps = [] \<or> ds = []")
  case True
  then show ?thesis using empty_pool[OF True] assms(1) by (simp add: decision_for_def no_nodes_available_def)
next
  case False
  then show ?thesis using decides[OF assms] by blast
qed

text \<open>A stream of requests against pools that may change between the calls.\<close>

fun schedule_each :: "(time \<times> request \<times> mock_node list \<times> mock_node list) list \<Rightarrow> ('s, scheduling_decision list) py" where
  "schedule_each [] s = (Inr [], s)"
| "schedule_each ((now, req, ps, ds) # rs) s =
     py_bind (schedule now req ps ds) (\<lambda>d. py_bind (schedule_each rs) (\<lambda>out. py_return (d # out))) s"

lemma schedule_each_total:
  assumes "pol_inv s" "\<And>now req ps ds. (now, req, ps, ds) \<in> set rs \<Longrightarrow> pools_ok (known s) ps ds"
  shows "\<exists>out s'. schedule_each rs s = (Inr out, s') \<and> pol_inv s' \<and>
    list_all2 (\<lambda>(_, _, ps, ds) d. decision_for ps ds d) rs out"
  using assms
proof (induction rs arbitrary: s)
  case (Cons r rs)
  obtain now req ps ds where r: "r = (now, req, ps, ds)" by (cases r)
  obtain d s1 where d: "schedule now req ps ds s = (Inr d, s1)" "decision_for ps ds d" "pol_inv s1" "known s1 = known s"
    using always_decides[OF Cons.prems(1), of ps ds now req] Cons.prems(2)[of now req ps ds] r by auto
  have "\<exists>out s'. schedule_each rs s1 = (Inr out, s') \<and> pol_inv s' \<and>
    list_all2 (\<lambda>(_, _, ps, ds) d. decision_for ps ds d) rs out"
    using Cons.prems(2) d(3,4) by (intro Cons.IH) auto
  then show ?case using r d by (auto simp: py_bind_def py_return_def)
qed simp

end

end
