(* ===== verification/Cache_Query.thy ===== *)
theory Cache_Query
  imports Cache_Properties Policies
begin

text \<open>
  The cache manager as the \<open>CacheQuery\<close> of the policies: it keeps the contract the policies are
  proved against, and every policy over it keeps the contract of a policy.
\<close>

section \<open>The cache manager is a cache query\<close>

definition cm_query :: "time \<Rightarrow> cache_manager cache_query" where
  "cm_query now = \<lparr>cq_lookup = lookup now, cq_lookup_all = lookup_all now, cq_free_blocks = free_blocks\<rparr>"

definition cm_ready :: "cache_manager \<Rightarrow> bool" where
  "cm_ready s \<longleftrightarrow> cm_inv s \<and> bandwidth_config_ok (bw_cfg s)"

definition cm_nodes :: "cache_manager \<Rightarrow> node_id set" where
  "cm_nodes s = dom (map_of (trees s))"

lemma lookup_ready:
  assumes "cm_ready s" "nid \<in> cm_nodes s"
  shows "\<exists>m s'. lookup now req nid s = (Inr m, s') \<and> match_ok req m \<and> cm_ready s' \<and> cm_nodes s' = cm_nodes s \<and>
    block_tables s' = block_tables s"
proof -
  have inv: "cm_inv s" and bw: "bandwidth_config_ok (bw_cfg s)" using assms(1) by (simp_all add: cm_ready_def)
  obtain t p where n: "map_of (trees s) nid = Some t" "pools s nid = Some p"
    by (rule cm_nodeE[OF inv]) (use assms(2) in \<open>auto simp: cm_nodes_def\<close>)
  show ?thesis
  proof (rule lookup_run[OF inv n, of now req])
    fix m path t' a L
    let ?s = "s\<lparr>trees := AList.update nid t' (trees s), pools := (pools s)(nid \<mapsto> p)\<rparr>"
    assume M: "lookup now req nid s = (Inr (summarise (model_cfg s) (bw_cfg s) m path p), ?s)" "cm_inv ?s"
      "m \<le> length (token_ids req)"
    have "match_ok req (summarise (model_cfg s) (bw_cfg s) m path p)"
      using summarise_bounds[OF bw, of "model_cfg s" m path p] M(3) by (simp add: match_ok_def)
    moreover have "dom (map_of (AList.update nid t' (trees s))) = dom (map_of (trees s))"
      using n(1) by (auto simp: update_conv')
    ultimately show ?thesis using M(1,2) bw by (simp add: cm_ready_def cm_nodes_def)
  qed
qed

lemma lookup_each_ready:
  assumes "cm_ready s" "set nids \<subseteq> cm_nodes s"
  shows "\<exists>ls s'. lookup_each now req nids s = (Inr ls, s') \<and> cm_ready s' \<and> cm_nodes s' = cm_nodes s \<and>
    block_tables s' = block_tables s \<and> map fst ls = nids \<and> (\<forall>m \<in> snd ` set ls. match_ok req m)"
  using assms
proof (induction nids arbitrary: s)
  case (Cons nid nids)
  obtain m s1 where l: "lookup now req nid s = (Inr m, s1)" "match_ok req m" "cm_ready s1" "cm_nodes s1 = cm_nodes s"
    "block_tables s1 = block_tables s"
    using lookup_ready[OF Cons.prems(1), of nid now req] Cons.prems(2) by auto
  obtain ls s2 where "lookup_each now req nids s1 = (Inr ls, s2)" "cm_ready s2" "cm_nodes s2 = cm_nodes s1"
    "block_tables s2 = block_tables s1" "map fst ls = nids" "\<forall>m \<in> snd ` set ls. match_ok req m"
    using Cons.IH[OF l(3)] l(4) Cons.prems(2) by auto
  then show ?case using l by (auto simp: py_bind_def py_return_def)
qed simp

lemma free_blocks_ready:
  assumes "cm_ready s" "nid \<in> cm_nodes s"
  shows "\<exists>k \<ge> 0. free_blocks nid gpu s = Inr k"
proof -
  have inv: "cm_inv s" using assms(1) by (simp add: cm_ready_def)
  obtain t p where n: "pools s nid = Some p" "node_ready s nid t p"
    by (rule cm_nodeE[OF inv]) (use assms(2) in \<open>auto simp: cm_nodes_def\<close>)
  have "node_inv (t, p)" using n(2) by (simp add: node_ready_def)
  then have P: "pool_inv p" by (rule node_invD(2))
  obtain st where st: "tiers p gpu = Some st" using pool_inv_tiers[OF P, of gpu] by blast
  have "0 \<le> tier_free st"
    using pool_inv_allocated[OF P st] pool_inv_capacity[OF P st] by (simp add: tier_free_def tier_used_def)
  then show ?thesis using n(1) st by (simp add: free_blocks_def)
qed

text \<open>Queries keep the tables of the active requests as well; \<open>T\<close> is any value they have.\<close>

interpretation cmt: cache_query_contract "cm_query now" "\<lambda>c. cm_ready c \<and> block_tables c = T" cm_nodes for now T
proof
  fix c n and req :: request
  assume cT: "cm_ready c \<and> block_tables c = T"
  then have c: "cm_ready c" and T: "block_tables c = T" by simp_all
  then have inv: "cm_inv c" by (simp add: cm_ready_def)
  show "n \<in> cm_nodes c \<Longrightarrow> \<exists>m c'. cq_lookup (cm_query now) req n c = (Inr m, c') \<and> match_ok req m \<and>
      (cm_ready c' \<and> block_tables c' = T) \<and> cm_nodes c' = cm_nodes c"
    using lookup_ready[OF c, of n now req] T by (auto simp: cm_query_def)
  show "n \<notin> cm_nodes c \<Longrightarrow> cq_lookup (cm_query now) req n c = (Inl KeyError, c)"
    by (auto simp: cm_query_def cm_nodes_def lookup_def on_node_def split: option.splits)
  have ns: "dom (map_of (trees c)) = set (map fst (trees c))" by (simp add: dom_map_of_conv_image_fst)
  have sub: "set (map fst (trees c)) \<subseteq> cm_nodes c" unfolding cm_nodes_def ns ..
  obtain ls c' where L: "lookup_each now req (map fst (trees c)) c = (Inr ls, c')" "cm_ready c'" "cm_nodes c' = cm_nodes c"
    "block_tables c' = block_tables c" "map fst ls = map fst (trees c)" "\<forall>m \<in> snd ` set ls. match_ok req m"
    using lookup_each_ready[OF c sub] by blast
  have "dom (map_of ls) = set (map fst ls)" by (simp add: dom_map_of_conv_image_fst)
  then have "dom (map_of ls) = cm_nodes c" unfolding L(5) cm_nodes_def ns .
  moreover have "match_ok req m" if "map_of ls n = Some m" for n m using map_of_SomeD[OF that] L(6) by force
  ultimately show "\<exists>ls c'. cq_lookup_all (cm_query now) req c = (Inr ls, c') \<and> (cm_ready c' \<and> block_tables c' = T) \<and>
      cm_nodes c' = cm_nodes c \<and> dom (map_of ls) = cm_nodes c \<and> (\<forall>n m. map_of ls n = Some m \<longrightarrow> match_ok req m)"
    using L(1-4) T by (auto simp: cm_query_def lookup_all_def)
  show "n \<in> cm_nodes c \<Longrightarrow> \<exists>k \<ge> 0. cq_free_blocks (cm_query now) n gpu c = Inr k"
    using free_blocks_ready[OF c] by (simp add: cm_query_def)
  show "n \<notin> cm_nodes c \<Longrightarrow> cq_free_blocks (cm_query now) n gpu c = Inl KeyError"
    using cm_invD(3)[OF inv, of n] by (auto simp: cm_query_def cm_nodes_def free_blocks_def split: option.splits)
qed

interpretation cmq: cache_query_contract "cm_query now" cm_ready cm_nodes for now
proof
  fix c n and req :: request
  assume c: "cm_ready c"
  show "n \<in> cm_nodes c \<Longrightarrow> \<exists>m c'. cq_lookup (cm_query now) req n c = (Inr m, c') \<and> match_ok req m \<and> cm_ready c' \<and>
      cm_nodes c' = cm_nodes c"
    using cmt.lookup_known[of c "block_tables c" n now req] c by blast
  show "n \<notin> cm_nodes c \<Longrightarrow> cq_lookup (cm_query now) req n c = (Inl KeyError, c)"
    using cmt.lookup_unknown[of c "block_tables c"] c by simp
  show "\<exists>ls c'. cq_lookup_all (cm_query now) req c = (Inr ls, c') \<and> cm_ready c' \<and> cm_nodes c' = cm_nodes c \<and>
      dom (map_of ls) = cm_nodes c \<and> (\<forall>n m. map_of ls n = Some m \<longrightarrow> match_ok req m)"
    using cmt.lookup_every[of c "block_tables c" now req] c by blast
  show "n \<in> cm_nodes c \<Longrightarrow> \<exists>k \<ge> 0. cq_free_blocks (cm_query now) n gpu c = Inr k"
    using cmt.free_known[of c "block_tables c"] c by simp
  show "n \<notin> cm_nodes c \<Longrightarrow> cq_free_blocks (cm_query now) n gpu c = Inl KeyError"
    using cmt.free_unknown[of c "block_tables c"] c by simp
qed

end
