(* ===== verification/Policy_Contracts.thy ===== *)
theory Policy_Contracts
  imports Cache_Query
begin

text \<open>
  Every policy keeps the contract of a scheduling policy over any cache that keeps its own; the
  contract is then instantiated for the cache manager.
\<close>

lemma least_loaded_in: "ns \<noteq> [] \<Longrightarrow> least_loaded ns \<in> set ns"
  unfolding least_loaded_def by (rule min_by_the(1))

lemma least_loaded_least: "n \<in> set ns \<Longrightarrow> load_key (least_loaded ns) \<le> load_key n"
  unfolding least_loaded_def by (rule min_by_the(2)) auto

lemma place_total:
  assumes "node_usable prefill"
  shows "\<exists>t. est_ttft env backlog now prefill decode req m = Inr t \<and>
    place env backlog now req prefill decode m = Inr (accept prefill decode t (compute_est_tbt decode))"
  using est_ttft_total[OF assms, of env backlog now decode req m] by (auto simp: place_def)

lemma accept_decision:
  "prefill \<in> set ps \<Longrightarrow> decode \<in> set ds \<Longrightarrow> decision_for ps ds (accept prefill decode t u)"
  by (auto simp: decision_for_def accept_def)

lemma place_decides:
  assumes "node_usable prefill" "prefill \<in> set ps" "decode \<in> set ds"
  shows "\<exists>d. place env backlog now req prefill decode m = Inr d \<and> decision_for ps ds d"
  using place_total[OF assms(1), of env backlog now decode req m] accept_decision[OF assms(2,3)] by auto

lemma pools_okD:
  assumes "pools_ok K ps ds"
  shows "n \<in> set ps \<Longrightarrow> node_usable n" "n \<in> set ds \<Longrightarrow> node_usable n" "n \<in> set ds \<Longrightarrow> mn_node_id n \<in> K"
  using assms by (auto simp: pools_ok_def)

lemma max_fold: "fold max xs (a :: nat) = Max (insert a (set xs))"
  using Max.set_eq_fold[of a xs] by simp

lemma max_hit_spec:
  assumes "ns \<noteq> []"
  shows "\<exists>n \<in> set ns. hit_of lookups n = max_hit lookups ns" "n \<in> set ns \<Longrightarrow> hit_of lookups n \<le> max_hit lookups ns"
proof -
  let ?H = "hit_of lookups ` set ns"
  have m: "max_hit lookups ns = Max (insert 0 ?H)" by (simp add: max_hit_def max_fold)
  have ne: "?H \<noteq> {}" "finite ?H" using assms by auto
  have "max_hit lookups ns = Max ?H" unfolding m using ne by simp
  moreover have "Max ?H \<in> ?H" using Max_in ne by blast
  ultimately show "\<exists>n \<in> set ns. hit_of lookups n = max_hit lookups ns" by force
  show "n \<in> set ns \<Longrightarrow> hit_of lookups n \<le> max_hit lookups ns" unfolding m by simp
qed

lemma pg_decode_in:
  assumes "ds \<noteq> []"
  shows "pg_decode h req lookups ds \<in> set ds"
proof -
  let ?best = "filter (\<lambda>n. hit_of lookups n = max_hit lookups ds) ds"
  have "?best \<noteq> []" using max_hit_spec(1)[OF assms, of lookups] by (auto simp: filter_empty_conv)
  then have "least_loaded ?best \<in> set ?best" by (rule least_loaded_in)
  then show ?thesis using least_loaded_in[OF assms] by (auto simp: pg_decode_def Let_def)
qed

text \<open>The two scores are defined on usable nodes the cache knows.\<close>

lemma conductor_score_total:
  assumes "node_usable d"
  shows "\<exists>x. conductor_score env w req lookups d = Inr x"
  using queue_wait_total[OF assms, of "Some (int (length (token_ids req)))" "Some (int (expected_output_len req))"]
  by (auto simp: conductor_score_def Let_def)

definition score_of :: "policy_env \<Rightarrow> conductor_weights \<Rightarrow> request \<Rightarrow> (node_id \<times> cache_lookup) list \<Rightarrow> mock_node \<Rightarrow> rat" where
  "score_of env w req lookups d = (case conductor_score env w req lookups d of Inl _ \<Rightarrow> 0 | Inr x \<Rightarrow> x)"

lemma conductor_key_total:
  assumes "node_usable d"
  shows "conductor_key env w req lookups d = Inr (- score_of env w req lookups d, mn_node_id d)"
  using conductor_score_total[OF assms, of env w req lookups] by (auto simp: conductor_key_def score_of_def)

lemma conductor_choice:
  assumes "\<And>n. n \<in> set ds \<Longrightarrow> node_usable n" "ds \<noteq> []"
  shows "\<exists>d. min_by_py (conductor_key env w req lookups) ds = Inr d \<and> d \<in> set ds \<and>
    (\<forall>n \<in> set ds. (- score_of env w req lookups d, mn_node_id d) \<le> (- score_of env w req lookups n, mn_node_id n))"
proof -
  let ?g = "\<lambda>n. (- score_of env w req lookups n, mn_node_id n)"
  have "min_by_py (conductor_key env w req lookups) ds = Inr (the (min_by ?g ds))"
    by (rule min_by_py_total[OF conductor_key_total[OF assms(1)] assms(2)])
  then show ?thesis using min_by_the[OF assms(2), where g = ?g] by blast
qed

lemma slo_gate_decides:
  "prefill \<in> set ps \<Longrightarrow> decode \<in> set ds \<Longrightarrow> decision_for ps ds (slo_gate req prefill decode t)"
  by (auto simp: slo_gate_def Let_def slo_reject_def accept_def decision_for_def)

context cache_query_contract
begin

lemma lookup_or_cold_total:
  assumes "cq_inv c"
  shows "\<exists>m c'. lookup_or_cold cq req n c = (Inr m, c') \<and> match_ok req m \<and> cq_inv c' \<and> known c' = known c"
proof (cases "n \<in> known c")
  case True
  then show ?thesis using lookup_known[OF assms True, of req] by (auto simp: lookup_or_cold_def)
next
  case False
  then show ?thesis using lookup_unknown[OF assms False, of req] assms by (simp add: lookup_or_cold_def no_hit_ok)
qed

lemma rr_decides:
  assumes c: "cq_inv c" and ok: "pools_ok (known c) ps ds" and ne: "ps \<noteq> []" "ds \<noteq> []"
  shows "\<exists>d c'. rr_schedule env cq backlog now req ps ds (st, c) =
      (Inr d, (\<lparr>prefill_cursor = prefill_cursor st + 1, decode_cursor = decode_cursor st + 1\<rparr>, c')) \<and>
    decision_for ps ds d \<and> cq_inv c' \<and> known c' = known c \<and>
    prefill_node d = Some (mn_node_id (ps ! (prefill_cursor st mod length ps))) \<and>
    decode_node d = Some (mn_node_id (ds ! (decode_cursor st mod length ds)))"
proof -
  let ?p = "ps ! (prefill_cursor st mod length ps)" and ?d = "ds ! (decode_cursor st mod length ds)"
  have mem: "?p \<in> set ps" "?d \<in> set ds" using ne by simp_all
  obtain m c' where l: "lookup_or_cold cq req (mn_node_id ?d) c = (Inr m, c')" "cq_inv c'" "known c' = known c"
    using lookup_or_cold_total[OF c] by blast
  obtain t where "place env backlog now req ?p ?d m = Inr (accept ?p ?d t (compute_est_tbt ?d))"
    using place_total[OF pools_okD(1)[OF ok mem(1)]] by blast
  then have "rr_schedule env cq backlog now req ps ds (st, c) = (Inr (accept ?p ?d t (compute_est_tbt ?d)),
      (\<lparr>prefill_cursor = prefill_cursor st + 1, decode_cursor = decode_cursor st + 1\<rparr>, c'))"
    using ne l(1) by (simp add: rr_schedule_def Let_def)
  then show ?thesis using l(2,3) accept_decision[OF mem]
    by (intro exI[of _ "accept ?p ?d t (compute_est_tbt ?d)"] exI[of _ c']) (simp add: accept_def)
qed

lemma ll_decides:
  assumes c: "cq_inv c" and ok: "pools_ok (known c) ps ds" and ne: "ps \<noteq> []" "ds \<noteq> []"
  shows "\<exists>t c'. ll_schedule env cq backlog now req ps ds c =
      (Inr (accept (least_loaded ps) (least_loaded ds) t (compute_est_tbt (least_loaded ds))), c') \<and>
    cq_inv c' \<and> known c' = known c"
proof -
  obtain m c' where l: "lookup_or_cold cq req (mn_node_id (least_loaded ds)) c = (Inr m, c')" "cq_inv c'" "known c' = known c"
    using lookup_or_cold_total[OF c] by blast
  obtain t where "place env backlog now req (least_loaded ps) (least_loaded ds) m =
      Inr (accept (least_loaded ps) (least_loaded ds) t (compute_est_tbt (least_loaded ds)))"
    using place_total[OF pools_okD(1)[OF ok least_loaded_in[OF ne(1)]]] by blast
  then have "ll_schedule env cq backlog now req ps ds c =
      (Inr (accept (least_loaded ps) (least_loaded ds) t (compute_est_tbt (least_loaded ds))), c')"
    using ne l by (simp add: ll_schedule_def Let_def)
  then show ?thesis using l(2,3) by blast
qed

lemma pg_decides:
  assumes c: "cq_inv c" and ok: "pools_ok (known c) ps ds" and ne: "ps \<noteq> []" "ds \<noteq> []"
  shows "\<exists>lookups t c'. cq_lookup_all cq req c = (Inr lookups, c') \<and> cq_inv c' \<and> known c' = known c \<and>
    pg_schedule env h cq backlog now req ps ds c =
      (Inr (accept (least_loaded ps) (pg_decode h req lookups ds) t (compute_est_tbt (pg_decode h req lookups ds))), c')"
proof -
  obtain lookups c' where l: "cq_lookup_all cq req c = (Inr lookups, c')" "cq_inv c'" "known c' = known c"
    using lookup_every[OF c, of req] by blast
  let ?d = "pg_decode h req lookups ds"
  obtain t where "place env backlog now req (least_loaded ps) ?d (get_match lookups (mn_node_id ?d)) =
      Inr (accept (least_loaded ps) ?d t (compute_est_tbt ?d))"
    using place_total[OF pools_okD(1)[OF ok least_loaded_in[OF ne(1)]]] by blast
  then have "pg_schedule env h cq backlog now req ps ds c = (Inr (accept (least_loaded ps) ?d t (compute_est_tbt ?d)), c')"
    using ne l by (simp add: pg_schedule_def Let_def)
  then show ?thesis using l by blast
qed

definition e2_score_of ::
  "policy_env \<Rightarrow> e2_weights \<Rightarrow> 'c \<Rightarrow> backlog_view \<Rightarrow> time \<Rightarrow> request \<Rightarrow> (node_id \<times> cache_lookup) list \<Rightarrow>
   mock_node \<Rightarrow> mock_node \<Rightarrow> rat \<times> node_id" where
  "e2_score_of env w c backlog now req lookups prefill d =
     (case e2_score env w cq c backlog now req lookups prefill d of Inl _ \<Rightarrow> (0, []) | Inr x \<Rightarrow> x)"

lemma e2_score_total:
  assumes "cq_inv c" "mn_node_id d \<in> known c" "node_usable prefill"
  shows "e2_score env w cq c backlog now req lookups prefill d =
    Inr (e2_score_of env w c backlog now req lookups prefill d)"
  using free_known[OF assms(1,2)] est_ttft_total[OF assms(3), of env backlog now d req "get_match lookups (mn_node_id d)"]
  by (auto simp: e2_score_of_def e2_score_def Let_def)

lemma e2_decides:
  assumes c: "cq_inv c" and ok: "pools_ok (known c) ps ds" and ne: "ps \<noteq> []" "ds \<noteq> []"
  shows "\<exists>lookups d t c'. cq_lookup_all cq req c = (Inr lookups, c') \<and> cq_inv c' \<and> known c' = known c \<and> d \<in> set ds \<and>
    (\<forall>n \<in> set ds. e2_score_of env w c' backlog now req lookups (least_loaded ps) d \<le>
       e2_score_of env w c' backlog now req lookups (least_loaded ps) n) \<and>
    e2_schedule env w cq backlog now req ps ds c = (Inr (accept (least_loaded ps) d t (compute_est_tbt d)), c')"
proof -
  obtain lookups c' where l: "cq_lookup_all cq req c = (Inr lookups, c')" "cq_inv c'" "known c' = known c"
    using lookup_every[OF c, of req] by blast
  let ?p = "least_loaded ps" and ?g = "e2_score_of env w c' backlog now req lookups (least_loaded ps)"
  have p: "node_usable ?p" by (rule pools_okD(1)[OF ok least_loaded_in[OF ne(1)]])
  let ?d = "the (min_by ?g ds)"
  have "e2_score env w cq c' backlog now req lookups ?p n = Inr (?g n)" if "n \<in> set ds" for n
    using pools_okD(3)[OF ok that] l(3) by (intro e2_score_total[OF l(2) _ p]) simp
  from min_by_py_total[OF this ne(2)]
  have m: "min_by_py (e2_score env w cq c' backlog now req lookups ?p) ds = Inr ?d" .
  obtain t where "place env backlog now req ?p ?d (get_match lookups (mn_node_id ?d)) =
      Inr (accept ?p ?d t (compute_est_tbt ?d))"
    using place_total[OF p] by blast
  then have "e2_schedule env w cq backlog now req ps ds c = (Inr (accept ?p ?d t (compute_est_tbt ?d)), c')"
    using ne l m by (simp add: e2_schedule_def Let_def)
  then show ?thesis using l min_by_the[OF ne(2), where g = ?g] by blast
qed

lemma conductor_decides:
  assumes c: "cq_inv c" and ok: "pools_ok (known c) ps ds" and ne: "ps \<noteq> []" "ds \<noteq> []"
  shows "\<exists>lookups d t c'. cq_lookup_all cq req c = (Inr lookups, c') \<and> cq_inv c' \<and> known c' = known c \<and> d \<in> set ds \<and>
    (\<forall>n \<in> set ds. (- score_of env w req lookups d, mn_node_id d) \<le> (- score_of env w req lookups n, mn_node_id n)) \<and>
    est_ttft env backlog now (least_loaded ps) d req (get_match lookups (mn_node_id d)) = Inr t \<and>
    conductor_schedule env w cq backlog now req ps ds c = (Inr (slo_gate req (least_loaded ps) d t), c')"
proof -
  obtain lookups c' where l: "cq_lookup_all cq req c = (Inr lookups, c')" "cq_inv c'" "known c' = known c"
    using lookup_every[OF c, of req] by blast
  let ?p = "least_loaded ps"
  have p: "node_usable ?p" by (rule pools_okD(1)[OF ok least_loaded_in[OF ne(1)]])
  obtain d where d: "min_by_py (conductor_key env w req lookups) ds = Inr d" "d \<in> set ds"
    "\<forall>n \<in> set ds. (- score_of env w req lookups d, mn_node_id d) \<le> (- score_of env w req lookups n, mn_node_id n)"
    using conductor_choice[OF pools_okD(2)[OF ok] ne(2)] by blast
  obtain t where t: "est_ttft env backlog now ?p d req (get_match lookups (mn_node_id d)) = Inr t"
    using est_ttft_total[OF p] by blast
  have "conductor_schedule env w cq backlog now req ps ds c = (Inr (slo_gate req ?p d t), c')"
    using ne l d(1) t by (simp add: conductor_schedule_def Let_def)
  then show ?thesis using l d(2,3) t by blast
qed

lemma policy_decides:
  assumes c: "cq_inv (snd s)" and ok: "pools_ok (known (snd s)) ps ds" and ne: "ps \<noteq> []" "ds \<noteq> []"
  shows "\<exists>d s'. policy_schedule env cq backlog now req ps ds s = (Inr d, s') \<and> decision_for ps ds d \<and>
    cq_inv (snd s') \<and> known (snd s') = known (snd s)"
proof (cases "fst s")
  case (Round_robin st)
  then show ?thesis using rr_decides[OF c ok ne, of env backlog now req st] by (auto simp: policy_schedule_def)
next
  case Least_loaded
  then show ?thesis
    using ll_decides[OF c ok ne, of env backlog now req] accept_decision[OF least_loaded_in[OF ne(1)] least_loaded_in[OF ne(2)]]
    by (auto simp: policy_schedule_def keep_policy_def)
next
  case (Prefix_greedy h)
  then show ?thesis
    using pg_decides[OF c ok ne, of req env h backlog now] accept_decision[OF least_loaded_in[OF ne(1)] pg_decode_in[OF ne(2)]]
    by (auto simp: policy_schedule_def keep_policy_def)
next
  case (E2 w)
  then show ?thesis
    using e2_decides[OF c ok ne, of req env w backlog now] accept_decision[OF least_loaded_in[OF ne(1)]]
    by (fastforce simp: policy_schedule_def keep_policy_def)
next
  case (Conductor w)
  then show ?thesis
    using conductor_decides[OF c ok ne, of req env w backlog now] slo_gate_decides[OF least_loaded_in[OF ne(1)]]
    by (fastforce simp: policy_schedule_def keep_policy_def)
qed

lemma policy_empty_pool:
  "ps = [] \<or> ds = [] \<Longrightarrow> policy_schedule env cq backlog now req ps ds s = (Inr no_nodes_available, s)"
  by (cases s) (auto simp: policy_schedule_def keep_policy_def rr_schedule_def ll_schedule_def pg_schedule_def
      e2_schedule_def conductor_schedule_def split: policy.splits)

end

sublocale cache_query_contract \<subseteq> policies: scheduling_policy "policy_schedule env cq backlog"
  "\<lambda>s. cq_inv (snd s)" "\<lambda>s. known (snd s)" for env backlog
  by unfold_locales (blast intro: policy_empty_pool policy_decides)+

text \<open>With the cache manager, whose clock is the time of the call.\<close>

definition cm_schedule ::
  "policy_env \<Rightarrow> backlog_view \<Rightarrow> time \<Rightarrow> request \<Rightarrow> mock_node list \<Rightarrow> mock_node list \<Rightarrow>
   (policy \<times> cache_manager, scheduling_decision) py" where
  "cm_schedule env backlog now = policy_schedule env (cm_query now) backlog now"

interpretation cm_policies: scheduling_policy "cm_schedule env backlog" "\<lambda>s. cm_ready (snd s)" "\<lambda>s. cm_nodes (snd s)"
  for env backlog
  unfolding cm_schedule_def by unfold_locales (blast intro: cmq.policies.empty_pool cmq.policies.decides)+

end
