(* ===== verification/Policy_Properties.thy ===== *)
theory Policy_Properties
  imports Policy_Contracts
begin

text \<open>
  What the policies promise over the cache manager: decisions name nodes of the offered pools, round
  robin is fair, and each of the other policies chooses the optimum of its own criterion; the
  conductor admits a request only when its own predictions meet the request's objectives.
\<close>

section \<open>A cluster for the witnesses\<close>

definition demo_prefill :: "mock_node list" where
  "demo_prefill = map (\<lambda>i. mn_init i demo_model demo_node_cfg) [''p0'', ''p1'']"

definition demo_decode :: "mock_node list" where
  "demo_decode = [mn_init ''n'' demo_model demo_node_cfg]"

definition demo_request :: request where
  "demo_request = \<lparr>request_id = ''r9'', token_ids = [1, 2, 3], prefix_hash = ''h'', expected_output_len = 4,
     arrival_time = 0, slo_ttft = 2000, slo_tbt = 100, priority = 0\<rparr>"

definition demo_env :: policy_env where
  "demo_env = \<lparr>pe_model = demo_model, pe_bw = bandwidth_config_default\<rparr>"

lemma demo_ready: "cm_ready demo_active" "cm_nodes demo_active = {''n''}"
proof -
  have "bw_cfg demo_active = bandwidth_config_default" by code_simp
  then show "cm_ready demo_active" using demo_active_inv config_defaults_ok(3) by (simp add: cm_ready_def)
  have "map fst (trees demo_active) = [''n'']" by code_simp
  then have "set (map fst (trees demo_active)) = {''n''}" by simp
  then show "cm_nodes demo_active = {''n''}" by (simp add: cm_nodes_def dom_map_of_conv_image_fst)
qed

lemma demo_pools: "pools_ok (cm_nodes demo_active) demo_prefill demo_decode" "demo_prefill \<noteq> []" "demo_decode \<noteq> []"
  unfolding demo_ready(2)
  by (auto simp: pools_ok_def demo_prefill_def demo_decode_def node_usable_def mn_init_def demo_node_cfg_def)

section \<open>All policies\<close>

text \<open>
  C29. Each of the five policies, over a consistent cache manager and pools of usable nodes whose decode
  nodes the cache knows, answers every request: it either accepts and names a prefill node of the
  prefill pool and a decode node of the decode pool, or rejects with a reason and names no node.
  An empty pool is rejected without touching the cache. The cache stays consistent.
\<close>

theorem every_policy_decides:
  assumes "cm_ready c" "pools_ok (cm_nodes c) ps ds"
  shows "\<exists>d pol' c'. policy_schedule env (cm_query now) backlog now req ps ds (pol, c) = (Inr d, (pol', c')) \<and>
    cm_ready c' \<and> cm_nodes c' = cm_nodes c \<and>
    (if is_rejected d then decode_node d = None \<and> reject_reason d \<noteq> None
     else (\<exists>p \<in> set ps. \<exists>q \<in> set ds. prefill_node d = Some (mn_node_id p) \<and> decode_node d = Some (mn_node_id q) \<and>
       reject_reason d = None)) \<and>
    (ps = [] \<or> ds = [] \<longrightarrow> is_rejected d \<and> c' = c)"
proof -
  have "cm_ready (snd (pol, c))" "pools_ok (cm_nodes (snd (pol, c))) ps ds" using assms by simp_all
  then obtain d s' where D: "policy_schedule env (cm_query now) backlog now req ps ds (pol, c) = (Inr d, s')"
    "decision_for ps ds d" "cm_ready (snd s')" "cm_nodes (snd s') = cm_nodes c"
    using cmq.policies.always_decides by fastforce
  obtain pol' c' where s': "s' = (pol', c')" by (cases s')
  have dec: "if is_rejected d then decode_node d = None \<and> reject_reason d \<noteq> None
     else (\<exists>p \<in> set ps. \<exists>q \<in> set ds. prefill_node d = Some (mn_node_id p) \<and> decode_node d = Some (mn_node_id q) \<and>
       reject_reason d = None)"
    using D(2) by (auto simp: decision_for_def is_rejected_def split: option.splits)
  have em: "is_rejected d \<and> c' = c" if "ps = [] \<or> ds = []"
    using cmq.policies.empty_pool[OF that, of env now backlog now req "(pol, c)"] D(1) s'
    by (auto simp: is_rejected_def no_nodes_available_def)
  show ?thesis using D(1,3,4) dec em unfolding s' by auto
qed

theorem every_policy_decides_witness:
  "\<exists>d s'. policy_schedule demo_env (cm_query 3) (\<lambda>_. \<lparr>egress = 0, ingress = 0\<rparr>) 3 demo_request demo_prefill demo_decode
     (E2 \<lparr>w_historical = 1, w_eviction = 1, w_run = 1\<rparr>, demo_active) = (Inr d, s') \<and> cm_ready (snd s')"
  using every_policy_decides[OF demo_ready(1) demo_pools(1)] by fastforce

section \<open>Round robin\<close>

fun rr_run ::
  "policy_env \<Rightarrow> backlog_view \<Rightarrow> mock_node list \<Rightarrow> mock_node list \<Rightarrow> (time \<times> request) list \<Rightarrow>
   (rr_state \<times> cache_manager, scheduling_decision list) py" where
  "rr_run env backlog ps ds [] s = (Inr [], s)"
| "rr_run env backlog ps ds ((now, req) # rs) s =
     py_bind (rr_schedule env (cm_query now) backlog now req ps ds)
       (\<lambda>d. py_bind (rr_run env backlog ps ds rs) (\<lambda>out. py_return (d # out))) s"

lemma rr_run_nodes:
  assumes "cm_ready c" "pools_ok (cm_nodes c) ps ds" "ps \<noteq> []" "ds \<noteq> []"
  shows "\<exists>out s'. rr_run env backlog ps ds rs (st, c) = (Inr out, s') \<and>
    map prefill_node out = map (\<lambda>i. Some (mn_node_id (ps ! ((prefill_cursor st + i) mod length ps)))) [0..<length rs] \<and>
    map decode_node out = map (\<lambda>i. Some (mn_node_id (ds ! ((decode_cursor st + i) mod length ds)))) [0..<length rs]"
  using assms(1,2)
proof (induction rs arbitrary: st c)
  case (Cons r rs)
  obtain now req where r: "r = (now, req)" by (cases r)
  let ?st = "\<lparr>prefill_cursor = prefill_cursor st + 1, decode_cursor = decode_cursor st + 1\<rparr>"
  obtain d c' where D: "rr_schedule env (cm_query now) backlog now req ps ds (st, c) = (Inr d, (?st, c'))"
    "cm_ready c'" "cm_nodes c' = cm_nodes c"
    "prefill_node d = Some (mn_node_id (ps ! (prefill_cursor st mod length ps)))"
    "decode_node d = Some (mn_node_id (ds ! (decode_cursor st mod length ds)))"
    using cmq.rr_decides[OF Cons.prems assms(3,4), of env now backlog now req st] by blast
  obtain out s' where O: "rr_run env backlog ps ds rs (?st, c') = (Inr out, s')"
    "map prefill_node out = map (\<lambda>i. Some (mn_node_id (ps ! ((prefill_cursor ?st + i) mod length ps)))) [0..<length rs]"
    "map decode_node out = map (\<lambda>i. Some (mn_node_id (ds ! ((decode_cursor ?st + i) mod length ds)))) [0..<length rs]"
    using Cons.IH[OF D(2), of ?st] Cons.prems(2) D(3) by auto
  have up: "map f [0..<length (r # rs)] = f 0 # map (\<lambda>i. f (Suc i)) [0..<length rs]" for f :: "nat \<Rightarrow> node_id option"
    by (simp add: upt_rec[of 0] map_Suc_upt[symmetric] comp_def del: upt_Suc)
  show ?case using r D(1,4,5) O unfolding up by (simp add: py_bind_def py_return_def)
qed simp

text \<open>How often a residue occurs among consecutive numbers.\<close>

definition hits :: "nat \<Rightarrow> nat \<Rightarrow> nat \<Rightarrow> nat \<Rightarrow> nat" where
  "hits c n j k = length (filter (\<lambda>i. (c + i) mod n = j) [0..<k])"

lemma mod_eq_close:
  assumes "a \<le> b" "b < a + n" "(c + a) mod n = (c + b) mod (n :: nat)"
  shows "a = b"
proof -
  have "n dvd (c + b) - (c + a)" using assms(1,3) mod_eq_dvd_iff_nat[of "c + a" "c + b" n] by simp
  then show ?thesis using assms(1,2) by (cases "b - a = 0") (auto dest: dvd_imp_le)
qed

lemma residues_round:
  assumes "0 < (n :: nat)"
  shows "inj_on (\<lambda>i. (c + i) mod n) {k..<k + n}" "(\<lambda>i. (c + i) mod n) ` {k..<k + n} = {..<n}"
proof -
  show inj: "inj_on (\<lambda>i. (c + i) mod n) {k..<k + n}"
  proof (rule inj_onI)
    fix x y assume xy: "x \<in> {k..<k + n}" "y \<in> {k..<k + n}" "(c + x) mod n = (c + y) mod n"
    then have "y < x + n" "x < y + n" by auto
    then show "x = y" using mod_eq_close[of x y n c] mod_eq_close[of y x n c] xy(3) by (cases "x \<le> y") simp_all
  qed
  have "(\<lambda>i. (c + i) mod n) ` {k..<k + n} \<subseteq> {..<n}" using assms by auto
  then show "(\<lambda>i. (c + i) mod n) ` {k..<k + n} = {..<n}" using card_image[OF inj] by (intro card_subset_eq) simp_all
qed

lemma hits_round:
  assumes "j < n"
  shows "hits c n j (k + n) = hits c n j k + 1"
proof -
  have n: "0 < n" using assms by simp
  have "j \<in> (\<lambda>i. (c + i) mod n) ` {k..<k + n}" unfolding residues_round(2)[OF n] using assms by simp
  then obtain i where i: "i \<in> {k..<k + n}" "(c + i) mod n = j" by blast
  have "{x. (c + x) mod n = j} \<inter> {k..<k + n} = {i}"
    using i inj_onD[OF residues_round(1)[OF n, of c k]] by blast
  then have "length (filter (\<lambda>x. (c + x) mod n = j) [k..<k + n]) = 1"
    using distinct_length_filter[of "[k..<k + n]" "\<lambda>x. (c + x) mod n = j"] by simp
  moreover have "[0..<k + n] = [0..<k] @ [k..<k + n]" by (rule upt_add_eq_append) simp
  ultimately show ?thesis by (simp add: hits_def del: upt_Suc)
qed

lemma hits_mono: "k \<le> m \<Longrightarrow> hits c n j k \<le> hits c n j m"
proof -
  assume "k \<le> m"
  then obtain d where d: "m = k + d" using le_Suc_ex by blast
  have "[0..<k + d] = [0..<k] @ [k..<k + d]" by (rule upt_add_eq_append) simp
  then show ?thesis by (simp add: hits_def d)
qed

lemma hits_bounds:
  assumes "j < n"
  shows "k div n \<le> hits c n j k \<and> hits c n j k \<le> ceil_div k n"
proof (induction k rule: less_induct)
  case (less k)
  have n: "0 < n" using assms by simp
  show ?case
  proof (cases "k < n")
    case True
    have "hits c n j k \<le> hits c n j (0 + n)" using True by (intro hits_mono) simp
    also have "\<dots> = 1" using hits_round[OF assms, of c 0] by (simp add: hits_def)
    finally have "hits c n j k \<le> 1" .
    moreover have "k = 0 \<Longrightarrow> hits c n j k = 0" by (simp add: hits_def)
    moreover have "0 < k \<Longrightarrow> 1 \<le> ceil_div k n" using ceil_div_pos[OF _ n, of k] by linarith
    ultimately show ?thesis using True by (cases "k = 0") auto
  next
    case False
    then obtain m where k: "k = m + n" by (metis add.commute le_Suc_ex not_less)
    have ih: "m div n \<le> hits c n j m \<and> hits c n j m \<le> ceil_div m n"
      using k n by (intro less.IH) simp
    have shift: "m + n + n - 1 = (m + n - 1) + n" using n by linarith
    have "ceil_div k n = ceil_div m n + 1"
      unfolding ceil_div_def k shift by (rule div_add_self2) (use n in simp)
    moreover have "hits c n j k = hits c n j m + 1" unfolding k by (rule hits_round[OF assms])
    moreover have "k div n = m div n + 1" using n by (simp add: k)
    ultimately show ?thesis using ih by simp
  qed
qed

lemma hits_as_count:
  assumes "distinct (map f xs)" "j < length xs" "map g out = map (\<lambda>i. Some (f (xs ! ((c + i) mod length xs)))) [0..<k]"
  shows "length (filter (\<lambda>d. g d = Some (f (xs ! j))) out) = hits c (length xs) j k"
proof -
  have pos: "0 < length xs" using assms(2) by linarith
  have eq: "f (xs ! ((c + i) mod length xs)) = f (xs ! j) \<longleftrightarrow> (c + i) mod length xs = j" for i
    using nth_eq_iff_index_eq[OF assms(1), of "(c + i) mod length xs" j] assms(2) pos by simp
  have "length (filter (\<lambda>d. g d = Some (f (xs ! j))) out) = length (filter (\<lambda>x. x = Some (f (xs ! j))) (map g out))"
    by (simp add: filter_map comp_def)
  also have "\<dots> = hits c (length xs) j k"
    unfolding assms(3) by (simp add: hits_def filter_map comp_def eq)
  finally show ?thesis .
qed

text \<open>
  C31. Round robin is fair: whatever the requests, the loads and the cursors it starts from, after $k$
  requests every one of the $n$ prefill nodes has been given at least $\lfloor k/n \rfloor$ and at most
  $\lceil k/n \rceil$ of them, and likewise for the decode nodes; no request is rejected.
\<close>

theorem round_robin_fair:
  assumes "cm_ready c" "pools_ok (cm_nodes c) ps ds"
    and "distinct (map mn_node_id ps)" "distinct (map mn_node_id ds)" "p \<in> set ps" "q \<in> set ds"
  shows "\<exists>out s'. rr_run env backlog ps ds rs (st, c) = (Inr out, s') \<and> length out = length rs \<and>
    (let share = (\<lambda>ns k. length rs div length ns \<le> k \<and> k \<le> ceil_div (length rs) (length ns))
     in share ps (length (filter (\<lambda>d. prefill_node d = Some (mn_node_id p)) out)) \<and>
        share ds (length (filter (\<lambda>d. decode_node d = Some (mn_node_id q)) out)))"
proof -
  have ne: "ps \<noteq> []" "ds \<noteq> []" using assms(5,6) by auto
  obtain i j where i: "i < length ps" "p = ps ! i" and j: "j < length ds" "q = ds ! j"
    using assms(5,6) by (metis in_set_conv_nth)
  obtain out s' where O: "rr_run env backlog ps ds rs (st, c) = (Inr out, s')"
    "map prefill_node out = map (\<lambda>i. Some (mn_node_id (ps ! ((prefill_cursor st + i) mod length ps)))) [0..<length rs]"
    "map decode_node out = map (\<lambda>i. Some (mn_node_id (ds ! ((decode_cursor st + i) mod length ds)))) [0..<length rs]"
    using rr_run_nodes[OF assms(1,2) ne] by blast
  have "length out = length rs" using arg_cong[OF O(2), of length] by simp
  then show ?thesis
    using O(1) hits_as_count[OF assms(3) i(1) O(2)] hits_as_count[OF assms(4) j(1) O(3)]
      hits_bounds[OF i(1), of "length rs" "prefill_cursor st"] hits_bounds[OF j(1), of "length rs" "decode_cursor st"]
    unfolding i(2) j(2) Let_def by (intro exI[of _ out] exI[of _ s']) simp
qed

theorem round_robin_fair_witness:
  "\<exists>out s'. rr_run demo_env (\<lambda>_. \<lparr>egress = 0, ingress = 0\<rparr>) demo_prefill demo_decode
      [(1, demo_request), (2, demo_request), (3, demo_request)] (rr_init, demo_active) = (Inr out, s') \<and> length out = 3 \<and>
    length (filter (\<lambda>d. prefill_node d = Some ''p1'') out) \<in> {1, 2}"
proof -
  let ?p = "mn_init ''p1'' demo_model demo_node_cfg" and ?q = "mn_init ''n'' demo_model demo_node_cfg"
  have D: "distinct (map mn_node_id demo_prefill)" "distinct (map mn_node_id demo_decode)" "?p \<in> set demo_prefill"
    "?q \<in> set demo_decode" "mn_node_id ?p = ''p1''" "length demo_prefill = 2"
    by (simp_all add: demo_prefill_def demo_decode_def mn_init_def)
  show ?thesis
    using round_robin_fair[OF demo_ready(1) demo_pools(1) D(1-4),
        of demo_env "\<lambda>_. \<lparr>egress = 0, ingress = 0\<rparr>" "[(1, demo_request), (2, demo_request), (3, demo_request)]" rr_init]
    unfolding Let_def D(5,6) by (auto simp: ceil_div_def)
qed

section \<open>The criteria of the other policies\<close>

definition is_least :: "mock_node \<Rightarrow> mock_node list \<Rightarrow> bool" where
  "is_least n ns \<longleftrightarrow> n \<in> set ns \<and> (\<forall>k \<in> set ns. load_key n \<le> load_key k)"

lemma least_loaded_is_least: "ns \<noteq> [] \<Longrightarrow> is_least (least_loaded ns) ns"
  by (simp add: is_least_def least_loaded_in least_loaded_least)

text \<open>The decode node \<open>prefix_greedy\<close> is looking for.\<close>

definition greedy_choice :: "rat \<Rightarrow> request \<Rightarrow> (node_id \<times> cache_lookup) list \<Rightarrow> mock_node list \<Rightarrow> mock_node \<Rightarrow> bool" where
  "greedy_choice h req lookups ds q \<longleftrightarrow>
     (if token_ids req \<noteq> [] \<and> (\<exists>n \<in> set ds. h * of_nat (length (token_ids req)) \<le> of_nat (hit_of lookups n))
      then (\<forall>n \<in> set ds. hit_of lookups n \<le> hit_of lookups q) \<and> is_least q (filter (\<lambda>n. hit_of lookups n = hit_of lookups q) ds)
      else is_least q ds)"

lemma pg_decode_greedy:
  assumes "ds \<noteq> []"
  shows "greedy_choice h req lookups ds (pg_decode h req lookups ds)"
proof -
  let ?best = "max_hit lookups ds" and ?L = "length (token_ids req)"
  let ?F = "filter (\<lambda>n. hit_of lookups n = ?best) ds"
  obtain b where b: "b \<in> set ds" "hit_of lookups b = ?best" using max_hit_spec(1)[OF assms, of lookups] by blast
  have F: "is_least (least_loaded ?F) ?F" using b by (intro least_loaded_is_least) (auto simp: filter_empty_conv)
  have hit: "hit_of lookups (least_loaded ?F) = ?best" using F by (simp add: is_least_def)
  have enough: "(\<exists>n \<in> set ds. h * of_nat ?L \<le> of_nat (hit_of lookups n)) \<longleftrightarrow> h * of_nat ?L \<le> of_nat ?best"
    using b max_hit_spec(2)[OF assms, of _ lookups] by (metis of_nat_mono order_trans)
  have "use_fallback h ?best ?L \<longleftrightarrow> token_ids req = [] \<or> \<not> h * of_nat ?L \<le> of_nat ?best"
    by (cases "token_ids req = []") (auto simp: use_fallback_def field_simps not_le)
  then show ?thesis
    using F hit least_loaded_is_least[OF assms] max_hit_spec(2)[OF assms, of _ lookups] enough
    by (auto simp: greedy_choice_def pg_decode_def Let_def)
qed

text \<open>
  C32. Prefix greedy keeps its promise: the prefill node is the least loaded one (ties by name); the decode
  node is one with the longest cached prefix, the least loaded of those, as soon as some decode node
  has at least the required share of the prompt, and otherwise simply the least loaded decode node.
\<close>

theorem prefix_greedy_affinity:
  assumes "cm_ready c" "pools_ok (cm_nodes c) ps ds" "ps \<noteq> []" "ds \<noteq> []"
  shows "\<exists>lookups d c' p q. lookup_all now req c = (Inr lookups, c') \<and>
    pg_schedule env h (cm_query now) backlog now req ps ds c = (Inr d, c') \<and>
    prefill_node d = Some (mn_node_id p) \<and> is_least p ps \<and>
    decode_node d = Some (mn_node_id q) \<and> q \<in> set ds \<and> greedy_choice h req lookups ds q"
proof -
  obtain lookups t c' where D: "cq_lookup_all (cm_query now) req c = (Inr lookups, c')"
    "pg_schedule env h (cm_query now) backlog now req ps ds c =
      (Inr (accept (least_loaded ps) (pg_decode h req lookups ds) t (compute_est_tbt (pg_decode h req lookups ds))), c')"
    using cmq.pg_decides[OF assms, of now req env h backlog now] by blast
  have "lookup_all now req c = (Inr lookups, c')" using D(1) by (simp add: cm_query_def)
  then show ?thesis
    using D(2) least_loaded_is_least[OF assms(3)] pg_decode_in[OF assms(4), of h req lookups] pg_decode_greedy[OF assms(4), of h req lookups]
    by (auto simp: accept_def)
qed

theorem prefix_greedy_affinity_witness:
  "\<exists>lookups d c' q. lookup_all 3 demo_request demo_active = (Inr lookups, c') \<and>
    pg_schedule demo_env (1/2) (cm_query 3) (\<lambda>_. \<lparr>egress = 0, ingress = 0\<rparr>) 3 demo_request demo_prefill demo_decode demo_active = (Inr d, c') \<and>
    greedy_choice (1/2) demo_request lookups demo_decode q"
  using prefix_greedy_affinity[OF demo_ready(1) demo_pools] by blast

text \<open>
  C33. E2 minimises its cost: every decode node gets a score, the weighted sum of its historical load, the
  prefill time of what it would have to evict and the estimated time to first token, and the chosen
  decode node has the least score, ties going to the smaller name; the prefill node is the least
  loaded one.
\<close>

theorem e2_minimises_cost:
  assumes "cm_ready c" "pools_ok (cm_nodes c) ps ds" "ps \<noteq> []" "ds \<noteq> []"
  shows "\<exists>lookups d c' p q score. lookup_all now req c = (Inr lookups, c') \<and>
    e2_schedule env w (cm_query now) backlog now req ps ds c = (Inr d, c') \<and>
    prefill_node d = Some (mn_node_id p) \<and> is_least p ps \<and> decode_node d = Some (mn_node_id q) \<and> q \<in> set ds \<and>
    (\<forall>n \<in> set ds. e2_score env w (cm_query now) c' backlog now req lookups p n = Inr (score n) \<and> score q \<le> score n)"
proof -
  obtain lookups q t c' where D: "cq_lookup_all (cm_query now) req c = (Inr lookups, c')" "cm_ready c'" "cm_nodes c' = cm_nodes c"
    "q \<in> set ds" "\<forall>n \<in> set ds. cmq.e2_score_of now env w c' backlog now req lookups (least_loaded ps) q \<le>
       cmq.e2_score_of now env w c' backlog now req lookups (least_loaded ps) n"
    "e2_schedule env w (cm_query now) backlog now req ps ds c = (Inr (accept (least_loaded ps) q t (compute_est_tbt q)), c')"
    using cmq.e2_decides[OF assms, of now req env w backlog now] by blast
  have la: "lookup_all now req c = (Inr lookups, c')" using D(1) by (simp add: cm_query_def)
  let ?g = "cmq.e2_score_of now env w c' backlog now req lookups (least_loaded ps)"
  have sc: "e2_score env w (cm_query now) c' backlog now req lookups (least_loaded ps) n = Inr (?g n)" if "n \<in> set ds" for n
    using pools_okD[OF assms(2)] least_loaded_in[OF assms(3)] that D(3) by (intro cmq.e2_score_total[OF D(2)]) auto
  show ?thesis
    by (rule exI[of _ lookups], rule exI[of _ "accept (least_loaded ps) q t (compute_est_tbt q)"], rule exI[of _ c'],
        rule exI[of _ "least_loaded ps"], rule exI[of _ q], rule exI[of _ ?g])
      (use la D(4-6) sc least_loaded_is_least[OF assms(3)] in \<open>simp add: accept_def\<close>)
qed

theorem e2_minimises_cost_witness:
  "\<exists>lookups d c' p q score. lookup_all 3 demo_request demo_active = (Inr lookups, c') \<and>
    e2_schedule demo_env \<lparr>w_historical = 1, w_eviction = 1, w_run = 1\<rparr> (cm_query 3) (\<lambda>_. \<lparr>egress = 0, ingress = 0\<rparr>) 3
      demo_request demo_prefill demo_decode demo_active = (Inr d, c') \<and> q \<in> set demo_decode \<and>
    (\<forall>n \<in> set demo_decode. e2_score demo_env \<lparr>w_historical = 1, w_eviction = 1, w_run = 1\<rparr> (cm_query 3) c'
       (\<lambda>_. \<lparr>egress = 0, ingress = 0\<rparr>) 3 demo_request lookups p n = Inr (score n) \<and> score q \<le> (score n :: rat \<times> node_id))"
  using e2_minimises_cost[OF demo_ready(1) demo_pools] by blast

text \<open>
  C30. The conductor keeps its objectives: it picks a decode node of greatest score (ties by name); it
  accepts exactly when the predicted time to first token and the predicted time between tokens of the
  chosen pair both meet the request's objectives, and otherwise rejects with the reason that names the
  objective missed, the first token's before the other; either way it reports the two predictions.
\<close>

theorem conductor_keeps_objectives:
  assumes "cm_ready c" "pools_ok (cm_nodes c) ps ds" "ps \<noteq> []" "ds \<noteq> []"
  shows "\<exists>lookups d c' p q ttft tbt. lookup_all now req c = (Inr lookups, c') \<and>
    conductor_schedule env w (cm_query now) backlog now req ps ds c = (Inr d, c') \<and>
    is_least p ps \<and> q \<in> set ds \<and> est_ttft env backlog now p q req (get_match lookups (mn_node_id q)) = Inr ttft \<and>
    tbt = compute_est_tbt q \<and> estimated_ttft_ms d = ttft \<and> estimated_tbt_ms d = tbt \<and>
    (\<forall>n \<in> set ds. \<exists>x y. conductor_score env w req lookups q = Inr x \<and> conductor_score env w req lookups n = Inr y \<and>
       (y < x \<or> y = x \<and> mn_node_id q \<le> mn_node_id n)) \<and>
    (if ttft \<le> slo_ttft req \<and> tbt \<le> slo_tbt req
     then prefill_node d = Some (mn_node_id p) \<and> decode_node d = Some (mn_node_id q) \<and> reject_reason d = None
     else is_rejected d \<and> reject_reason d =
       Some (if slo_ttft req < ttft then ''ttft_slo_exceeded'' else ''tbt_slo_exceeded''))"
proof -
  let ?p = "least_loaded ps" and ?s = "\<lambda>lookups. score_of env w req lookups"
  obtain lookups q t c' where D: "cq_lookup_all (cm_query now) req c = (Inr lookups, c')" "q \<in> set ds"
    "\<forall>n \<in> set ds. (- ?s lookups q, mn_node_id q) \<le> (- ?s lookups n, mn_node_id n)"
    "est_ttft env backlog now ?p q req (get_match lookups (mn_node_id q)) = Inr t"
    "conductor_schedule env w (cm_query now) backlog now req ps ds c = (Inr (slo_gate req ?p q t), c')"
    using cmq.conductor_decides[OF assms, of now req env w backlog now] by blast
  have la: "lookup_all now req c = (Inr lookups, c')" using D(1) by (simp add: cm_query_def)
  have sc: "conductor_score env w req lookups n = Inr (?s lookups n)" if n: "n \<in> set ds" for n
    using conductor_score_total[OF pools_okD(2)[OF assms(2) n], of env w req lookups] by (auto simp: score_of_def)
  have best: "\<forall>n \<in> set ds. \<exists>x y. conductor_score env w req lookups q = Inr x \<and> conductor_score env w req lookups n = Inr y \<and>
       (y < x \<or> y = x \<and> mn_node_id q \<le> mn_node_id n)"
    using sc D(2,3) by (auto simp: less_eq_prod_def)
  have gate: "estimated_ttft_ms (slo_gate req ?p q t) = t" "estimated_tbt_ms (slo_gate req ?p q t) = compute_est_tbt q"
    "if t \<le> slo_ttft req \<and> compute_est_tbt q \<le> slo_tbt req
     then prefill_node (slo_gate req ?p q t) = Some (mn_node_id ?p) \<and> decode_node (slo_gate req ?p q t) = Some (mn_node_id q) \<and>
       reject_reason (slo_gate req ?p q t) = None
     else is_rejected (slo_gate req ?p q t) \<and> reject_reason (slo_gate req ?p q t) =
       Some (if slo_ttft req < t then ''ttft_slo_exceeded'' else ''tbt_slo_exceeded'')"
    by (auto simp: slo_gate_def Let_def slo_reject_def accept_def is_rejected_def)
  show ?thesis
    by (rule exI[of _ lookups], rule exI[of _ "slo_gate req ?p q t"], rule exI[of _ c'], rule exI[of _ ?p], rule exI[of _ q],
        rule exI[of _ t], rule exI[of _ "compute_est_tbt q"])
      (intro conjI la D(5) least_loaded_is_least[OF assms(3)] D(2) D(4) refl gate(1,2) best gate(3))
qed

theorem conductor_keeps_objectives_witness:
  "\<exists>d c'. conductor_schedule demo_env \<lparr>alpha = 1, beta = 1, gamma = 1\<rparr> (cm_query 3) (\<lambda>_. \<lparr>egress = 0, ingress = 0\<rparr>) 3
      demo_request demo_prefill demo_decode demo_active = (Inr d, c') \<and>
    (is_rejected d \<longrightarrow> slo_ttft demo_request < estimated_ttft_ms d \<or> slo_tbt demo_request < estimated_tbt_ms d)"
proof -
  obtain d c' ttft tbt where D: "conductor_schedule demo_env \<lparr>alpha = 1, beta = 1, gamma = 1\<rparr> (cm_query 3)
      (\<lambda>_. \<lparr>egress = 0, ingress = 0\<rparr>) 3 demo_request demo_prefill demo_decode demo_active = (Inr d, c')"
    "estimated_ttft_ms d = ttft" "estimated_tbt_ms d = tbt"
    "if ttft \<le> slo_ttft demo_request \<and> tbt \<le> slo_tbt demo_request then reject_reason d = None
     else is_rejected d \<and> reject_reason d =
       Some (if slo_ttft demo_request < ttft then ''ttft_slo_exceeded'' else ''tbt_slo_exceeded'')"
    "ttft \<le> slo_ttft demo_request \<and> tbt \<le> slo_tbt demo_request \<Longrightarrow> prefill_node d \<noteq> None"
    using conductor_keeps_objectives[OF demo_ready(1) demo_pools, of 3 demo_request demo_env "\<lparr>alpha = 1, beta = 1, gamma = 1\<rparr>"
        "\<lambda>_. \<lparr>egress = 0, ingress = 0\<rparr>"] by (smt (verit) option.distinct(1))
  have "slo_ttft demo_request < ttft \<or> slo_tbt demo_request < tbt" if "is_rejected d"
    using D(5) that by (metis is_rejected_def not_le)
  then show ?thesis using D(1-3) by blast
qed

end
