(* ===== verification/Null_Cache.thy ===== *)
theory Null_Cache
  imports Policy_Contracts
begin

text \<open>
  \<open>scheduler/_testing.py\<close>: the cache query that knows a fixed list of nodes and never hits. It keeps the
  contract the policies are proved against, so every policy decides over it as well.
\<close>

record null_cache_query =
  node_ids :: "node_id list"
  free_blocks_count :: int

definition null_lookup :: "request \<Rightarrow> node_id \<Rightarrow> (null_cache_query, cache_lookup) py" where
  "null_lookup req n q = (if n \<notin> set (node_ids q) then (Inl KeyError, q) else (Inr no_hit, q))"

definition null_lookup_all :: "request \<Rightarrow> (null_cache_query, (node_id \<times> cache_lookup) list) py" where
  "null_lookup_all req q = (Inr (map (\<lambda>n. (n, no_hit)) (rev (remdups (rev (node_ids q))))), q)"

definition null_free_blocks :: "node_id \<Rightarrow> tier \<Rightarrow> null_cache_query \<Rightarrow> int result" where
  "null_free_blocks n tr q = (if n \<notin> set (node_ids q) then Inl KeyError else Inr (free_blocks_count q))"

definition null_query :: "null_cache_query cache_query" where
  "null_query = \<lparr>cq_lookup = null_lookup, cq_lookup_all = null_lookup_all, cq_free_blocks = null_free_blocks\<rparr>"

lemma map_of_const: "map_of (map (\<lambda>n. (n, x)) ns) m = (if m \<in> set ns then Some x else None)"
  by (induction ns) auto

interpretation nullq: cache_query_contract null_query "\<lambda>q. 0 \<le> free_blocks_count q" "\<lambda>q. set (node_ids q)"
proof
  fix q :: null_cache_query and n and req :: request
  let ?ns = "rev (remdups (rev (node_ids q)))"
  have ls: "map_of (map (\<lambda>n. (n, no_hit)) ?ns) m = (if m \<in> set (node_ids q) then Some no_hit else None)" for m
    unfolding map_of_const by simp
  then have dm: "dom (map_of (map (\<lambda>n. (n, no_hit)) ?ns)) = set (node_ids q)"
    by (auto simp: dom_def)
  assume "0 \<le> free_blocks_count q"
  then show "\<exists>ls c'. cq_lookup_all null_query req q = (Inr ls, c') \<and> 0 \<le> free_blocks_count c' \<and> set (node_ids c') = set (node_ids q) \<and>
      dom (map_of ls) = set (node_ids q) \<and> (\<forall>n m. map_of ls n = Some m \<longrightarrow> match_ok req m)"
    using dm ls by (auto simp: null_query_def null_lookup_all_def no_hit_ok split: if_splits)
qed (auto simp: null_query_def null_lookup_def null_free_blocks_def no_hit_ok)

text \<open>For instance E2, the policy that asks for free blocks, chooses a decode node of least score.\<close>

lemma e2_over_null_cache:
  assumes "0 \<le> free_blocks_count q" "pools_ok (set (node_ids q)) ps ds" "ps \<noteq> []" "ds \<noteq> []"
  shows "\<exists>d t. d \<in> set ds \<and>
    e2_schedule env w null_query backlog t0 req ps ds q = (Inr (accept (least_loaded ps) d t (compute_est_tbt d)), q)"
proof -
  obtain lookups d t q' where D: "cq_lookup_all null_query req q = (Inr lookups, q')" "d \<in> set ds"
    "e2_schedule env w null_query backlog t0 req ps ds q = (Inr (accept (least_loaded ps) d t (compute_est_tbt d)), q')"
    using nullq.e2_decides[OF assms, of req env w backlog t0] by blast
  have "q' = q" using D(1) by (simp add: null_query_def null_lookup_all_def)
  then show ?thesis using D(2,3) by blast
qed

end
