(* ===== verification/Event_Payload.thy ===== *)
theory Event_Payload
  imports Sim_Engine Scheduler_Base
begin

text \<open>
  The payload of the simulator's events. The source uses a \<open>dict\<close> with conventional keys; the record
  has one optional field per key, and a key that is absent is \<open>None\<close> (the readers use \<open>.get\<close>, or \<open>[]\<close>,
  which raises \<open>KeyError\<close>).
\<close>

record payload =
  pl_request :: "request option"
  pl_request_id :: "req_id option"
  pl_node_id :: "node_id option"
  pl_reason :: "string option"
  pl_decision :: "scheduling_decision option"
  pl_matched_tokens :: "nat option"
  pl_matched_blocks_by_tier :: "(tier \<times> nat) list option"
  pl_n_chunks :: "int option"
  pl_transfer_id :: "string option"
  pl_src_node_id :: "node_id option"
  pl_dst_node_id :: "node_id option"
  pl_service_cost_ms :: "rat option"
  pl_queued_cost_ms :: "rat option"
  pl_cost_ms :: "rat option"
  pl_step_index :: "int option"
  pl_batch_size :: "nat option"

definition no_keys :: payload where
  "no_keys = \<lparr>pl_request = None, pl_request_id = None, pl_node_id = None, pl_reason = None, pl_decision = None,
     pl_matched_tokens = None, pl_matched_blocks_by_tier = None, pl_n_chunks = None, pl_transfer_id = None,
     pl_src_node_id = None, pl_dst_node_id = None, pl_service_cost_ms = None, pl_queued_cost_ms = None,
     pl_cost_ms = None, pl_step_index = None, pl_batch_size = None\<rparr>"

definition mk_event :: "time \<Rightarrow> event_type \<Rightarrow> payload \<Rightarrow> payload event" where
  "mk_event t ty pl = \<lparr>ev_time = t, ev_seq = 0, ev_type = ty, ev_payload = pl\<rparr>"

end
