(* ===== verification/Metrics.thy ===== *)
theory Metrics
  imports Event_Payload
begin

text \<open>
  \<open>metrics/collector.py\<close>: the passive observer. Its handlers change only the collector and never raise,
  so each is a function of the event and the collector. \<open>_nodes\<close>, the registry used when a batch event
  carries no batch size, is read through a function from node names to the current size of their decode
  batch. Sets and the per-request dictionaries that are only looked up are HOL sets and maps; those that
  \<open>summary\<close> iterates keep their insertion order.
\<close>

section \<open>State\<close>

record request_record =
  rec_arrival_time :: time
  rec_token_count :: nat
  rec_slo_ttft :: rat
  rec_slo_tbt :: rat
  rec_matched_tokens :: "nat option"
  rec_prefill_node :: "node_id option"
  rec_decode_node :: "node_id option"
  rec_ttft :: "rat option"

record collector =
  col_requests :: "(req_id \<times> request_record) list"
  ttft_per_request :: "rat list"
  tbt_per_request :: "rat list"
  e2e_per_request :: "rat list"
  rejected_count :: nat
  total_arrived :: nat
  completed_count :: nat
  start_time :: "time option"
  end_time :: "time option"
  last_decode_step_time :: "req_id \<rightharpoonup> time"
  tbt_samples :: "(req_id \<times> rat list) list"
  batch_size_samples :: "nat list"
  total_decode_tokens :: nat
  chunked_prefill_steps :: "int list"
  request_n_chunks :: "req_id \<rightharpoonup> int"
  kv_transfer_cost_samples :: "rat list"
  kv_transfer_queued_samples :: "rat list"
  cache_hit_by_tier :: "(tier \<times> nat) list"
  seen_transfer_ids :: "string set"
  active_prefills :: "req_id set"
  active_decodes :: "req_id set"
  dual_phase_tick_count :: nat

definition collector_init :: collector where
  "collector_init =
     \<lparr>col_requests = [], ttft_per_request = [], tbt_per_request = [], e2e_per_request = [], rejected_count = 0,
      total_arrived = 0, completed_count = 0, start_time = None, end_time = None, last_decode_step_time = Map.empty,
      tbt_samples = [], batch_size_samples = [], total_decode_tokens = 0, chunked_prefill_steps = [],
      request_n_chunks = Map.empty, kv_transfer_cost_samples = [], kv_transfer_queued_samples = [],
      cache_hit_by_tier = [(gpu, 0), (cpu, 0), (disk, 0)], seen_transfer_ids = {}, active_prefills = {},
      active_decodes = {}, dual_phase_tick_count = 0\<rparr>"

section \<open>Handlers\<close>

definition upd_record :: "req_id \<Rightarrow> (request_record \<Rightarrow> request_record) \<Rightarrow> collector \<Rightarrow> collector" where
  "upd_record rid f s =
     (case map_of (col_requests s) rid of None \<Rightarrow> s
      | Some r \<Rightarrow> s\<lparr>col_requests := AList.update rid (f r) (col_requests s)\<rparr>)"

definition m_on_arrive :: "payload event \<Rightarrow> collector \<Rightarrow> collector" where
  "m_on_arrive ev s =
     (case pl_request (ev_payload ev) of None \<Rightarrow> s
      | Some req \<Rightarrow>
          (let s1 = s\<lparr>total_arrived := total_arrived s + 1\<rparr>;
               s2 = (if start_time s1 = None then s1\<lparr>start_time := Some (ev_time ev)\<rparr> else s1)
           in s2\<lparr>col_requests := AList.update (request_id req)
                  \<lparr>rec_arrival_time = ev_time ev, rec_token_count = length (token_ids req), rec_slo_ttft = slo_ttft req,
                   rec_slo_tbt = slo_tbt req, rec_matched_tokens = None, rec_prefill_node = None, rec_decode_node = None,
                   rec_ttft = None\<rparr> (col_requests s2)\<rparr>))"

fun add_hits :: "(tier \<times> nat) list \<Rightarrow> (tier \<times> nat) list \<Rightarrow> (tier \<times> nat) list" where
  "add_hits [] hits = hits"
| "add_hits ((t, n) # by_tier) hits =
     add_hits by_tier (case map_of hits t of None \<Rightarrow> hits | Some k \<Rightarrow> AList.update t (k + n) hits)"

definition m_on_scheduled :: "payload event \<Rightarrow> collector \<Rightarrow> collector" where
  "m_on_scheduled ev s =
     (let pl = ev_payload ev
      in case pl_request_id pl of None \<Rightarrow> s | Some rid \<Rightarrow>
         (case map_of (col_requests s) rid of None \<Rightarrow> s | Some _ \<Rightarrow>
           (let s1 = upd_record rid (\<lambda>r. r\<lparr>rec_matched_tokens :=
                       Some (case pl_matched_tokens pl of None \<Rightarrow> 0 | Some m \<Rightarrow> m)\<rparr>) s;
                s2 = (case pl_decision pl of None \<Rightarrow> s1
                      | Some d \<Rightarrow> upd_record rid (\<lambda>r. r\<lparr>rec_prefill_node := prefill_node d,
                                                        rec_decode_node := decode_node d\<rparr>) s1);
                by_tier = (case pl_matched_blocks_by_tier pl of None \<Rightarrow> [] | Some b \<Rightarrow> b)
            in s2\<lparr>cache_hit_by_tier := add_hits by_tier (cache_hit_by_tier s2)\<rparr>)))"

definition m_on_rejected :: "payload event \<Rightarrow> collector \<Rightarrow> collector" where
  "m_on_rejected ev s =
     (case pl_request_id (ev_payload ev) of None \<Rightarrow> s
      | Some rid \<Rightarrow> s\<lparr>rejected_count := rejected_count s + 1, request_n_chunks := (request_n_chunks s)(rid := None),
                     active_prefills := active_prefills s - {rid}\<rparr>)"

definition m_on_prefill_start :: "payload event \<Rightarrow> collector \<Rightarrow> collector" where
  "m_on_prefill_start ev s =
     (case pl_request_id (ev_payload ev) of None \<Rightarrow> s
      | Some rid \<Rightarrow>
          s\<lparr>request_n_chunks := (request_n_chunks s)(rid \<mapsto> (case pl_n_chunks (ev_payload ev) of None \<Rightarrow> 0 | Some k \<Rightarrow> k)),
            active_prefills := insert rid (active_prefills s)\<rparr>)"

definition m_on_prefill_complete :: "payload event \<Rightarrow> collector \<Rightarrow> collector" where
  "m_on_prefill_complete ev s =
     (case pl_request_id (ev_payload ev) of None \<Rightarrow> s
      | Some rid \<Rightarrow> s\<lparr>active_prefills := active_prefills s - {rid}\<rparr>)"

definition m_on_kv_transfer_start :: "payload event \<Rightarrow> collector \<Rightarrow> collector" where
  "m_on_kv_transfer_start ev s =
     (case pl_transfer_id (ev_payload ev) of None \<Rightarrow> s
      | Some tid \<Rightarrow> s\<lparr>seen_transfer_ids := insert tid (seen_transfer_ids s)\<rparr>)"

definition m_on_kv_transfer_complete :: "payload event \<Rightarrow> collector \<Rightarrow> collector" where
  "m_on_kv_transfer_complete ev s =
     (case pl_transfer_id (ev_payload ev) of None \<Rightarrow> s
      | Some tid \<Rightarrow>
          if tid \<notin> seen_transfer_ids s then s
          else (let s1 = s\<lparr>seen_transfer_ids := seen_transfer_ids s - {tid}\<rparr>
                in case pl_cost_ms (ev_payload ev) of None \<Rightarrow> s1
                   | Some cost \<Rightarrow>
                       s1\<lparr>kv_transfer_cost_samples := kv_transfer_cost_samples s1 @ [cost],
                          kv_transfer_queued_samples := kv_transfer_queued_samples s1 @
                            [case pl_queued_cost_ms (ev_payload ev) of None \<Rightarrow> 0 | Some q \<Rightarrow> q]\<rparr>))"

text \<open>\<open>self._tbt_samples.setdefault(request_id, [])\<close>, and the same with \<open>append\<close>.\<close>

definition tbt_default :: "req_id \<Rightarrow> (req_id \<times> rat list) list \<Rightarrow> (req_id \<times> rat list) list" where
  "tbt_default rid ts = (case map_of ts rid of None \<Rightarrow> ts @ [(rid, [])] | Some _ \<Rightarrow> ts)"

definition tbt_append :: "req_id \<Rightarrow> rat \<Rightarrow> (req_id \<times> rat list) list \<Rightarrow> (req_id \<times> rat list) list" where
  "tbt_append rid x ts = (case map_of ts rid of None \<Rightarrow> ts @ [(rid, [x])] | Some xs \<Rightarrow> AList.update rid (xs @ [x]) ts)"

definition m_on_decode_step :: "payload event \<Rightarrow> collector \<Rightarrow> collector" where
  "m_on_decode_step ev s =
     (case pl_request_id (ev_payload ev) of None \<Rightarrow> s | Some rid \<Rightarrow>
      (case map_of (col_requests s) rid of None \<Rightarrow> s | Some r \<Rightarrow>
       (case pl_step_index (ev_payload ev) of None \<Rightarrow> s | Some i \<Rightarrow>
         if i = 0 then
           (if rec_ttft r \<noteq> None then s
            else (let ttft = ev_time ev - rec_arrival_time r;
                      s1 = upd_record rid (\<lambda>r. r\<lparr>rec_ttft := Some ttft\<rparr>) s
                  in s1\<lparr>ttft_per_request := ttft_per_request s1 @ [ttft],
                        last_decode_step_time := (last_decode_step_time s1)(rid \<mapsto> ev_time ev),
                        tbt_samples := tbt_default rid (tbt_samples s1),
                        active_decodes := insert rid (active_decodes s1)\<rparr>))
         else (case last_decode_step_time s rid of
                 None \<Rightarrow> s\<lparr>last_decode_step_time := (last_decode_step_time s)(rid \<mapsto> ev_time ev)\<rparr>
               | Some prev \<Rightarrow> s\<lparr>tbt_samples := tbt_append rid (ev_time ev - prev) (tbt_samples s),
                                last_decode_step_time := (last_decode_step_time s)(rid \<mapsto> ev_time ev)\<rparr>))))"

definition m_on_decode_batch_step :: "(node_id \<rightharpoonup> nat) \<Rightarrow> payload event \<Rightarrow> collector \<Rightarrow> collector" where
  "m_on_decode_batch_step decoding_of ev s =
     (let pl = ev_payload ev;
          fallback = (case pl_node_id pl of None \<Rightarrow> None | Some n \<Rightarrow> if n = [] then None else decoding_of n)
      in case (case pl_batch_size pl of Some b \<Rightarrow> Some b | None \<Rightarrow> fallback) of
           None \<Rightarrow> s
         | Some b \<Rightarrow>
             (let s1 = s\<lparr>batch_size_samples := batch_size_samples s @ [b], total_decode_tokens := total_decode_tokens s + b\<rparr>
              in if active_prefills s1 \<noteq> {} \<and> active_decodes s1 \<noteq> {}
                 then s1\<lparr>dual_phase_tick_count := dual_phase_tick_count s1 + 1\<rparr> else s1))"

definition m_on_decode_complete :: "payload event \<Rightarrow> collector \<Rightarrow> collector" where
  "m_on_decode_complete ev s =
     (case pl_request_id (ev_payload ev) of None \<Rightarrow> s | Some rid \<Rightarrow>
      (case map_of (col_requests s) rid of None \<Rightarrow> s | Some r \<Rightarrow>
        (let s1 = s\<lparr>completed_count := completed_count s + 1, end_time := Some (ev_time ev),
                    e2e_per_request := e2e_per_request s @ [ev_time ev - rec_arrival_time r]\<rparr>;
             s2 = (case request_n_chunks s1 rid of None \<Rightarrow> s1
                   | Some k \<Rightarrow> s1\<lparr>request_n_chunks := (request_n_chunks s1)(rid := None),
                                 chunked_prefill_steps := chunked_prefill_steps s1 @ [k]\<rparr>)
         in s2\<lparr>active_decodes := active_decodes s2 - {rid}\<rparr>)))"

text \<open>\<open>attach\<close>: the handler of each event type the collector subscribes to.\<close>

definition observe :: "(node_id \<rightharpoonup> nat) \<Rightarrow> payload event \<Rightarrow> collector \<Rightarrow> collector" where
  "observe decoding_of ev =
     (case ev_type ev of
        REQUEST_ARRIVE \<Rightarrow> m_on_arrive ev
      | SCHEDULED \<Rightarrow> m_on_scheduled ev
      | REQUEST_REJECTED \<Rightarrow> m_on_rejected ev
      | PREFILL_START \<Rightarrow> m_on_prefill_start ev
      | PREFILL_COMPLETE \<Rightarrow> m_on_prefill_complete ev
      | KV_TRANSFER_START \<Rightarrow> m_on_kv_transfer_start ev
      | KV_TRANSFER_COMPLETE \<Rightarrow> m_on_kv_transfer_complete ev
      | TOKEN_GENERATED \<Rightarrow> m_on_decode_step ev
      | DECODE_BATCH_STEP \<Rightarrow> m_on_decode_batch_step decoding_of ev
      | DECODE_COMPLETE \<Rightarrow> m_on_decode_complete ev)"

section \<open>Statistics\<close>

definition mean :: "rat list \<Rightarrow> rat option" where
  "mean xs = (if xs = [] then None else Some (sum_list xs / of_nat (length xs)))"

text \<open>\<open>statistics.median\<close>\<close>

definition median :: "rat list \<Rightarrow> rat option" where
  "median xs =
     (if xs = [] then None
      else let d = sort xs; n = length d
           in if odd n then Some (d ! (n div 2)) else Some ((d ! (n div 2 - 1) + d ! (n div 2)) / 2))"

text \<open>
  \<open>statistics.quantiles(data, n=100)[i - 1]\<close> for at least two values, with the default exclusive method:
  the position is scaled to one more than the number of values and clamped, the offset is not.
\<close>

definition quantile :: "nat \<Rightarrow> nat \<Rightarrow> rat list \<Rightarrow> rat" where
  "quantile i n xs =
     (let d = sort xs; ld = length d; m = ld + 1;
          j0 = i * m div n;
          j = (if j0 < 1 then 1 else if j0 > ld - 1 then ld - 1 else j0);
          delta = int (i * m) - int (j * n)
      in (d ! (j - 1) * of_int (int n - delta) + d ! j * of_int delta) / of_nat n)"

definition p99 :: "rat list \<Rightarrow> rat option" where
  "p99 xs = (if xs = [] then None else if length xs < 2 then Some (hd xs) else Some (quantile 99 100 xs))"

definition flat_tbt :: "collector \<Rightarrow> rat list" where
  "flat_tbt s = concat (map snd (tbt_samples s))"

definition slo_ttft_hit_rate :: "collector \<Rightarrow> rat option" where
  "slo_ttft_hit_rate s =
     (let eligible = concat (map (\<lambda>(_, r). case rec_ttft r of None \<Rightarrow> [] | Some t \<Rightarrow> [(t, rec_slo_ttft r)]) (col_requests s))
      in if eligible = [] then None
         else Some (of_nat (length (filter (\<lambda>(t, slo). t \<le> slo) eligible)) / of_nat (length eligible)))"

definition cache_hit_ratio :: "collector \<Rightarrow> rat option" where
  "cache_hit_ratio s =
     (let scheduled = filter (\<lambda>(_, r). rec_matched_tokens r \<noteq> None) (col_requests s);
          total = sum_list (map (\<lambda>(_, r). rec_token_count r) scheduled);
          matched = sum_list (map (\<lambda>(_, r). the (rec_matched_tokens r)) scheduled)
      in if total = 0 then None else Some (of_nat matched / of_nat total))"

definition per_second :: "nat \<Rightarrow> collector \<Rightarrow> rat option" where
  "per_second k s =
     (case (start_time s, end_time s) of
        (Some t0, Some t1) \<Rightarrow>
          (let duration_s = (t1 - t0) / 1000 in if duration_s \<le> 0 then None else Some (of_nat k / duration_s))
      | _ \<Rightarrow> None)"

definition throughput :: "collector \<Rightarrow> rat option" where
  "throughput s = per_second (completed_count s) s"

definition decode_throughput :: "collector \<Rightarrow> rat option" where
  "decode_throughput s = per_second (total_decode_tokens s) s"

definition avg_batch_size :: "collector \<Rightarrow> rat option" where
  "avg_batch_size s = mean (map of_nat (batch_size_samples s))"

definition cache_hit_by_tier_ratio :: "collector \<Rightarrow> (tier \<times> rat) list option" where
  "cache_hit_by_tier_ratio s =
     (let total = sum_list (map snd (cache_hit_by_tier s))
      in if total = 0 then None
         else Some (map (\<lambda>(t, n). (t, of_nat n / of_nat total)) (filter (\<lambda>(t, n). n > 0) (cache_hit_by_tier s))))"

record summary =
  sm_total_arrived :: nat
  sm_completed :: nat
  sm_rejected :: nat
  sm_rejection_rate :: "rat option"
  sm_ttft_p50_ms :: "rat option"
  sm_ttft_p99_ms :: "rat option"
  sm_ttft_avg_ms :: "rat option"
  sm_tbt_p50_ms :: "rat option"
  sm_tbt_avg_ms :: "rat option"
  sm_e2e_p50_ms :: "rat option"
  sm_e2e_avg_ms :: "rat option"
  sm_slo_ttft_hit_rate :: "rat option"
  sm_cache_hit_ratio :: "rat option"
  sm_throughput_req_per_s :: "rat option"
  sm_avg_batch_size :: "rat option"
  sm_decode_throughput_tokens_per_s :: "rat option"
  sm_avg_chunked_prefill_steps_per_request :: "rat option"
  sm_kv_transfer_time_avg_ms :: "rat option"
  sm_dual_phase_tick_count :: nat
  sm_kv_transfer_queued_avg_ms :: rat
  sm_cache_hit_by_tier_blocks :: "(tier \<times> nat) list"
  sm_cache_hit_by_tier_ratio :: "(tier \<times> rat) list option"

definition summary_of :: "collector \<Rightarrow> summary" where
  "summary_of s =
     \<lparr>sm_total_arrived = total_arrived s, sm_completed = completed_count s, sm_rejected = rejected_count s,
      sm_rejection_rate = (if total_arrived s > 0 then Some (of_nat (rejected_count s) / of_nat (total_arrived s)) else None),
      sm_ttft_p50_ms = median (ttft_per_request s), sm_ttft_p99_ms = p99 (ttft_per_request s),
      sm_ttft_avg_ms = mean (ttft_per_request s), sm_tbt_p50_ms = median (flat_tbt s), sm_tbt_avg_ms = mean (flat_tbt s),
      sm_e2e_p50_ms = median (e2e_per_request s), sm_e2e_avg_ms = mean (e2e_per_request s),
      sm_slo_ttft_hit_rate = slo_ttft_hit_rate s, sm_cache_hit_ratio = cache_hit_ratio s,
      sm_throughput_req_per_s = throughput s, sm_avg_batch_size = avg_batch_size s,
      sm_decode_throughput_tokens_per_s = decode_throughput s,
      sm_avg_chunked_prefill_steps_per_request = mean (map of_int (chunked_prefill_steps s)),
      sm_kv_transfer_time_avg_ms = mean (kv_transfer_cost_samples s),
      sm_dual_phase_tick_count = dual_phase_tick_count s,
      sm_kv_transfer_queued_avg_ms = (case mean (kv_transfer_queued_samples s) of None \<Rightarrow> 0 | Some x \<Rightarrow> x),
      sm_cache_hit_by_tier_blocks = cache_hit_by_tier s, sm_cache_hit_by_tier_ratio = cache_hit_by_tier_ratio s\<rparr>"

end
