(* ===== verification/Metric_Properties.thy ===== *)
theory Metric_Properties
  imports Metrics
begin

text \<open>What the percentiles of the summary say about the samples they are taken from.\<close>

lemma hundredth_position:
  assumes "2 \<le> ld" "ld < 99"
  shows "99 * (ld + 1) div 100 = (ld :: nat)"
  by (rule div_nat_eqI) (use assms in simp_all)

lemma p99_few:
  fixes xs :: "rat list"
  assumes n: "2 \<le> length xs" "length xs < 99"
  defines "d \<equiv> sort xs" and "k \<equiv> length xs"
  shows "p99 xs = Some (d ! (k - 1) + (99 - of_nat k) / 100 * (d ! (k - 1) - d ! (k - 2)))"
proof -
  have len: "length d = k" by (simp add: d_def k_def)
  have j0: "99 * (k + 1) div 100 = k" by (rule hundredth_position) (use n in \<open>simp_all add: k_def\<close>)
  have k: "2 \<le> k" "k < 99" using n by (simp_all add: k_def)
  obtain m where m: "k = Suc (Suc m)" using k(1) by (metis add_2_eq_Suc le_Suc_ex)
  have "p99 xs = Some (quantile 99 100 xs)" using n by (auto simp: p99_def)
  also have "quantile 99 100 xs = (d ! m * of_int (100 - (int (99 * (k + 1)) - int ((k - 1) * 100))) +
      d ! (k - 1) * of_int (int (99 * (k + 1)) - int ((k - 1) * 100))) / of_nat 100"
    using j0 k by (simp add: quantile_def Let_def d_def[symmetric] len m)
  also have "int (99 * (k + 1)) - int ((k - 1) * 100) = 199 - int k" using m by simp
  also have "(d ! m * of_int (100 - (199 - int k)) + d ! (k - 1) * of_int (199 - int k)) / of_nat 100 =
      d ! (k - 1) + (99 - of_nat k) / 100 * (d ! (k - 1) - d ! m)"
    by (simp add: field_simps)
  finally show ?thesis by (simp add: m)
qed

text \<open>
  C19. The P99 of the summary is not an observed latency when there are few samples: from two to ninety-eight
  samples the exclusive method of \<open>statistics.quantiles\<close> extrapolates, and the reported value is the
  maximum plus \<open>(99 - n)\<close> hundredths of the gap between the two largest samples, so above every sample
  as soon as those two differ.
\<close>

theorem p99_extrapolates:
  assumes "2 \<le> length xs" "length xs < 99"
  shows "p99 xs = Some (Max (set xs) + (99 - of_nat (length xs)) / 100 * (Max (set xs) - sort xs ! (length xs - 2))) \<and>
    (sort xs ! (length xs - 2) < Max (set xs) \<longrightarrow> (\<forall>x \<in> set xs. x < the (p99 xs)))"
proof -
  let ?d = "sort xs" and ?k = "length xs"
  have top: "?d ! (?k - 1) = Max (set xs)"
  proof (rule Max_eqI[symmetric])
    show "?d ! (?k - 1) \<in> set xs" using assms(1) nth_mem[of "?k - 1" ?d] by simp
    fix y assume "y \<in> set xs"
    then obtain i where "i < ?k" "y = ?d ! i" by (metis in_set_conv_nth length_sort set_sort)
    then show "y \<le> ?d ! (?k - 1)" using sorted_nth_mono[OF sorted_sort, of i "?k - 1" xs] by simp
  qed simp
  have p: "p99 xs = Some (Max (set xs) + (99 - of_nat ?k) / 100 * (Max (set xs) - ?d ! (?k - 2)))"
    using p99_few[OF assms] unfolding top .
  have gap: "0 < (99 - of_nat ?k) / 100 * (Max (set xs) - ?d ! (?k - 2))" if "?d ! (?k - 2) < Max (set xs)"
    using that assms(2) by (intro mult_pos_pos) simp_all
  have "x < the (p99 xs)" if "?d ! (?k - 2) < Max (set xs)" "x \<in> set xs" for x
    using gap[OF that(1)] Max_ge[OF _ that(2)] unfolding p by simp
  then show ?thesis using p by blast
qed

theorem p99_extrapolates_witness: "p99 [10, 20] = Some (297 / 10) \<and> 20 < the (p99 [10, 20])"
proof -
  have "2 \<le> length [10, 20 :: rat]" "length [10, 20 :: rat] < 99" by simp_all
  from p99_extrapolates[OF this] show ?thesis by simp
qed

end
