(* ===== verification/Workload_Config.thy ===== *)
theory Workload_Config
  imports Request_Types
begin

text \<open>
  The rest of \<open>config.py\<close> and the configuration of \<open>simulator/prefix_synthesis.py\<close>: the sections that
  describe the cluster, the workload, the scheduler and the trace, their defaults, their field
  constraints (\<open>*_ok\<close>) and the custom validator of the sharing layers. \<open>*_ok\<close>
  is what a loaded configuration satisfies; the loading itself is the theory \<open>Config_Loader\<close>.
\<close>

record cluster_config =
  cl_prefill_nodes :: nat
  cl_decode_nodes :: nat

definition cluster_config_default :: cluster_config where
  "cluster_config_default = \<lparr>cl_prefill_nodes = 4, cl_decode_nodes = 4\<rparr>"

definition cluster_config_ok :: "cluster_config \<Rightarrow> bool" where
  "cluster_config_ok c \<longleftrightarrow> 1 \<le> cl_prefill_nodes c \<and> 1 \<le> cl_decode_nodes c"

record workload_config =
  request_rate :: rat
  duration_s :: rat
  prefix_sharing_ratio :: rat
  avg_prompt_len :: nat
  avg_output_len :: nat

definition workload_config_default :: workload_config where
  "workload_config_default =
     \<lparr>request_rate = 50, duration_s = 60, prefix_sharing_ratio = 6 / 10, avg_prompt_len = 1024, avg_output_len = 256\<rparr>"

definition workload_config_ok :: "workload_config \<Rightarrow> bool" where
  "workload_config_ok c \<longleftrightarrow> 0 < request_rate c \<and> 0 < duration_s c \<and> 0 \<le> prefix_sharing_ratio c \<and>
     prefix_sharing_ratio c \<le> 1 \<and> 1 \<le> avg_prompt_len c \<and> 1 \<le> avg_output_len c"

text \<open>The open \<open>params\<close> dictionary: the keys the command line reads, as numbers.\<close>

record scheduler_config =
  sc_name :: string
  sc_params :: "string \<rightharpoonup> rat"

definition scheduler_config_default :: scheduler_config where
  "scheduler_config_default = \<lparr>sc_name = ''round_robin'', sc_params = Map.empty\<rparr>"

record generator_config =
  gen_num_buckets :: nat
  vocab_size :: nat
  gen_seed :: int

definition generator_config_default :: generator_config where
  "generator_config_default = \<lparr>gen_num_buckets = 10, vocab_size = 32000, gen_seed = 42\<rparr>"

definition generator_config_ok :: "generator_config \<Rightarrow> bool" where
  "generator_config_ok c \<longleftrightarrow> 1 \<le> gen_num_buckets c \<and> 1 \<le> vocab_size c"

record prefix_synthesis_config =
  num_buckets :: nat
  zipf_alpha :: rat
  p_local :: rat
  local_window_s :: rat
  sharing_layers :: "(rat \<times> rat) list"
  ps_seed :: int

definition prefix_synthesis_config_default :: prefix_synthesis_config where
  "prefix_synthesis_config_default =
     \<lparr>num_buckets = 64, zipf_alpha = 1, p_local = 6 / 10, local_window_s = 60,
      sharing_layers = [(2 / 10, 5 / 10), (5 / 10, 25 / 100), (3 / 10, 0)], ps_seed = 42\<rparr>"

text \<open>\<open>_validate_sharing_layers\<close>, with the layer checks in the order of the list.\<close>

definition validate_sharing_layers :: "(rat \<times> rat) list \<Rightarrow> (rat \<times> rat) list result" where
  "validate_sharing_layers v =
     (if v = [] then Inl ValueError
      else if \<exists>(p, r) \<in> set v. p < 0 \<or> \<not> (0 \<le> r \<and> r \<le> 1) then Inl ValueError
      else let total = sum_list (map fst v)
           in if \<not> (99 / 100 \<le> total \<and> total \<le> 101 / 100) then Inl ValueError else Inr v)"

definition prefix_synthesis_config_ok :: "prefix_synthesis_config \<Rightarrow> bool" where
  "prefix_synthesis_config_ok c \<longleftrightarrow> 1 \<le> num_buckets c \<and> 0 < zipf_alpha c \<and> 0 \<le> p_local c \<and> p_local c \<le> 1 \<and>
     0 < local_window_s c \<and> validate_sharing_layers (sharing_layers c) = Inr (sharing_layers c)"

datatype prefix_mode = Mode_none | Mode_hash_ids | Mode_synthesis

record trace_config =
  tr_path :: string
  speedup :: rat
  max_requests :: "nat option"
  tr_prefix_mode :: prefix_mode
  prefix_synthesis :: "prefix_synthesis_config option"

text \<open>\<open>path\<close> is the one required field.\<close>

definition trace_config_default :: "string \<Rightarrow> trace_config" where
  "trace_config_default path =
     \<lparr>tr_path = path, speedup = 1, max_requests = None, tr_prefix_mode = Mode_hash_ids, prefix_synthesis = None\<rparr>"

definition trace_config_ok :: "trace_config \<Rightarrow> bool" where
  "trace_config_ok c \<longleftrightarrow> tr_path c \<noteq> [] \<and> 0 < speedup c \<and> max_requests c \<noteq> Some 0 \<and>
     (case prefix_synthesis c of None \<Rightarrow> True | Some p \<Rightarrow> prefix_synthesis_config_ok p)"

record nano_kv_config =
  cfg_cluster :: cluster_config
  cfg_node :: node_config
  cfg_model :: model_config
  cfg_bandwidth :: bandwidth_config
  cfg_slo :: slo_config
  cfg_workload :: workload_config
  cfg_scheduler :: scheduler_config
  cfg_generator :: generator_config
  cfg_trace :: "trace_config option"

definition nano_kv_config_default :: nano_kv_config where
  "nano_kv_config_default =
     \<lparr>cfg_cluster = cluster_config_default, cfg_node = node_config_default, cfg_model = model_config_default,
      cfg_bandwidth = bandwidth_config_default, cfg_slo = slo_config_default, cfg_workload = workload_config_default,
      cfg_scheduler = scheduler_config_default, cfg_generator = generator_config_default, cfg_trace = None\<rparr>"

definition nano_kv_config_ok :: "nano_kv_config \<Rightarrow> bool" where
  "nano_kv_config_ok c \<longleftrightarrow> cluster_config_ok (cfg_cluster c) \<and> node_config_ok (cfg_node c) \<and>
     model_config_ok (cfg_model c) \<and> bandwidth_config_ok (cfg_bandwidth c) \<and> slo_config_ok (cfg_slo c) \<and>
     workload_config_ok (cfg_workload c) \<and> generator_config_ok (cfg_generator c) \<and>
     (case cfg_trace c of None \<Rightarrow> True | Some t \<Rightarrow> trace_config_ok t)"

text \<open>One experiment of a sensitivity configuration.\<close>

record sensitivity_experiment =
  ex_field :: string
  ex_base_config :: string
  ex_scheduler :: string
  ex_values :: "rat list"
  ex_primary_metrics :: "string list"
  ex_note :: "string option"

lemma validate_layersD:
  assumes "validate_sharing_layers v = Inr u"
  shows "u = v" "v \<noteq> []" "\<And>p r. (p, r) \<in> set v \<Longrightarrow> 0 \<le> p \<and> 0 \<le> r \<and> r \<le> 1" "0 < sum_list (map fst v)"
  using assms by (force simp: validate_sharing_layers_def Let_def split: if_splits)+

lemma nano_kv_config_default_ok: "nano_kv_config_ok nano_kv_config_default"
  by (simp add: nano_kv_config_ok_def nano_kv_config_default_def cluster_config_ok_def cluster_config_default_def
      config_defaults_ok workload_config_ok_def workload_config_default_def generator_config_ok_def
      generator_config_default_def)

lemma prefix_synthesis_default_ok: "prefix_synthesis_config_ok prefix_synthesis_config_default"
  by (simp add: prefix_synthesis_config_ok_def prefix_synthesis_config_default_def validate_sharing_layers_def)

end
