(* ===== verification/Workload.thy ===== *)
theory Workload
  imports Workload_Config Event_Payload
begin

text \<open>
  Where requests come from: \<open>make_request\<close> of \<open>request.py\<close>, the Poisson generator of
  \<open>simulator/generator.py\<close>, the prefix synthesis of \<open>simulator/prefix_synthesis.py\<close> and the trace
  replay of \<open>simulator/trace_generator.py\<close>.

  \<open>random.Random\<close> is a stream of raw draws with a cursor; its methods reduce a raw draw to their range
  the way the library does (\<open>random()\<close> has 53 bits). The logarithm behind \<open>expovariate\<close> and the power
  behind the Zipf weights are not rational functions and are fields of the model, as is the SHA-256
  hash of the prefix bytes. A trace file is the list of its lines after \<open>json.loads\<close>; its lengths are
  natural numbers.
\<close>

section \<open>Random numbers\<close>

record rng =
  raw_draw :: "nat \<Rightarrow> nat"
  neg_log :: "rat \<Rightarrow> rat"
  n_drawn :: nat

definition next_raw :: "rng \<Rightarrow> nat \<times> rng" where
  "next_raw g = (raw_draw g (n_drawn g), g\<lparr>n_drawn := n_drawn g + 1\<rparr>)"

definition randint :: "int \<Rightarrow> int \<Rightarrow> rng \<Rightarrow> int \<times> rng" where
  "randint lo hi g = (case next_raw g of (x, g') \<Rightarrow> (lo + int x mod (hi - lo + 1), g'))"

definition random_unit :: "rng \<Rightarrow> rat \<times> rng" where
  "random_unit g = (case next_raw g of (x, g') \<Rightarrow> (of_nat (x mod 2 ^ 53) / 2 ^ 53, g'))"

definition expovariate :: "rat \<Rightarrow> rng \<Rightarrow> rat \<times> rng" where
  "expovariate lambd g = (case random_unit g of (u, g') \<Rightarrow> (neg_log g' (1 - u) / lambd, g'))"

definition choice :: "'a list \<Rightarrow> rng \<Rightarrow> 'a \<times> rng" where
  "choice xs g = (case next_raw g of (x, g') \<Rightarrow> (xs ! (x mod length xs), g'))"

text \<open>\<open>choices(population, weights, k=1)[0]\<close>: bisection in the cumulative weights, over all but the last.\<close>

fun cum_weights :: "rat \<Rightarrow> rat list \<Rightarrow> rat list" where
  "cum_weights acc [] = []"
| "cum_weights acc (w # ws) = (acc + w) # cum_weights (acc + w) ws"

definition choices :: "'a list \<Rightarrow> rat list \<Rightarrow> rng \<Rightarrow> 'a result \<times> rng" where
  "choices xs ws g =
     (let cum = cum_weights 0 ws; total = sum_list ws
      in if length ws \<noteq> length xs \<or> total \<le> 0 then (Inl ValueError, g)
         else case random_unit g of (u, g') \<Rightarrow>
           (Inr (xs ! length (takeWhile (\<lambda>c. c \<le> u * total) (take (length xs - 1) cum))), g'))"

fun randints :: "nat \<Rightarrow> nat \<Rightarrow> rng \<Rightarrow> token list \<times> rng" where
  "randints 0 vocab g = ([], g)"
| "randints (Suc k) vocab g =
     (case randint 0 (int vocab - 1) g of (x, g') \<Rightarrow> (case randints k vocab g' of (xs, g'') \<Rightarrow> (x # xs, g'')))"

fun randint_lists :: "nat \<Rightarrow> nat \<Rightarrow> nat \<Rightarrow> rng \<Rightarrow> token list list \<times> rng" where
  "randint_lists 0 k vocab g = ([], g)"
| "randint_lists (Suc m) k vocab g =
     (case randints k vocab g of (xs, g') \<Rightarrow> (case randint_lists m k vocab g' of (xss, g'') \<Rightarrow> (xs # xss, g'')))"

section \<open>Requests\<close>

text \<open>\<open>struct.pack\<close> with big-endian unsigned 32-bit integers.\<close>

definition pack_token :: "token \<Rightarrow> nat list" where
  "pack_token x = map (\<lambda>i. nat x div 256 ^ i mod 256) [3, 2, 1, 0]"

definition hash_prefix :: "(nat list \<Rightarrow> string) \<Rightarrow> token list \<Rightarrow> nat \<Rightarrow> string result" where
  "hash_prefix sha256 toks prefix_len =
     (let prefix = take prefix_len toks
      in if \<exists>x \<in> set prefix. x < 0 \<or> x \<ge> 2 ^ 32 then Inl StructError
         else Inr (take 8 (sha256 (concat (map pack_token prefix)))))"

definition make_request ::
  "(nat list \<Rightarrow> string) \<Rightarrow> string \<Rightarrow> token list \<Rightarrow> time \<Rightarrow> nano_kv_config \<Rightarrow> int \<Rightarrow> nat option \<Rightarrow> request result" where
  "make_request sha256 uuid toks arrival cfg prio out_len =
     (case hash_prefix sha256 toks (block_size (cfg_model cfg)) of Inl e \<Rightarrow> Inl e
      | Inr h \<Rightarrow> Inr \<lparr>request_id = uuid, token_ids = toks, prefix_hash = h,
          expected_output_len = (case out_len of None \<Rightarrow> avg_output_len (cfg_workload cfg) | Some n \<Rightarrow> n),
          arrival_time = arrival, slo_ttft = ttft_target_ms (cfg_slo cfg), slo_tbt = tbt_target_ms (cfg_slo cfg),
          priority = prio\<rparr>)"

text \<open>The decimal digits of the sequential names the generators and the simulator build.\<close>

fun digits :: "nat \<Rightarrow> string" where
  "digits n = (if n < 10 then [char_of (48 + n)] else digits (n div 10) @ [char_of (48 + n mod 10)])"

section \<open>The Poisson generator\<close>

record request_generator =
  rg_config :: nano_kv_config
  rg_sha :: "nat list \<Rightarrow> string"
  rg_rng :: rng
  mean_interarrival_ms :: rat
  end_time_ms :: rat
  prefix_len :: nat
  suffix_len :: nat
  rg_bucket_prefixes :: "token list list"
  next_request_id :: nat
  rg_attached :: bool

definition rg_init :: "(nat list \<Rightarrow> string) \<Rightarrow> rng \<Rightarrow> nano_kv_config \<Rightarrow> request_generator" where
  "rg_init sha256 g cfg =
     (let wl = cfg_workload cfg; bs = block_size (cfg_model cfg);
          raw_prefix = nat \<lfloor>prefix_sharing_ratio wl * of_nat (avg_prompt_len wl)\<rfloor>;
          plen = raw_prefix div bs * bs
      in case randint_lists (gen_num_buckets (cfg_generator cfg)) plen (vocab_size (cfg_generator cfg)) g of
           (buckets, g') \<Rightarrow>
             \<lparr>rg_config = cfg, rg_sha = sha256, rg_rng = g', mean_interarrival_ms = 1000 / request_rate wl,
              end_time_ms = duration_s wl * 1000, prefix_len = plen, suffix_len = avg_prompt_len wl - plen,
              rg_bucket_prefixes = buckets, next_request_id = 0, rg_attached = False\<rparr>)"

definition sample_interarrival :: "request_generator \<Rightarrow> rat \<times> request_generator" where
  "sample_interarrival s =
     (case expovariate (1 / mean_interarrival_ms s) (rg_rng s) of (x, g') \<Rightarrow> (x, s\<lparr>rg_rng := g'\<rparr>))"

definition build_request :: "time \<Rightarrow> (request_generator, request) py" where
  "build_request arrival s =
     (case randint 0 (int (gen_num_buckets (cfg_generator (rg_config s))) - 1) (rg_rng s) of (i, g1) \<Rightarrow>
      (case randints (suffix_len s) (vocab_size (cfg_generator (rg_config s))) g1 of (suffix, g2) \<Rightarrow>
        (let s1 = s\<lparr>rg_rng := g2\<rparr>
         in case make_request (rg_sha s) '''' (rg_bucket_prefixes s ! nat i @ suffix) arrival (rg_config s) 0 None of
              Inl e \<Rightarrow> (Inl e, s1)
            | Inr req \<Rightarrow> (Inr (req\<lparr>request_id := ''req-'' @ digits (next_request_id s1)\<rparr>),
                         s1\<lparr>next_request_id := next_request_id s1 + 1\<rparr>))))"

text \<open>The arrival the generator enqueues after a moment, if the run has not ended by then.\<close>

definition next_arrival :: "time \<Rightarrow> (request_generator, (time \<times> request) option) py" where
  "next_arrival base s =
     (case sample_interarrival s of (x, s1) \<Rightarrow>
       (if base + x < end_time_ms s1
        then py_bind (build_request (base + x)) (\<lambda>req. py_return (Some (base + x, req))) s1
        else (Inr None, s1)))"

section \<open>Prefix synthesis\<close>

record prefix_synthesis_model =
  ps_cfg :: prefix_synthesis_config
  ps_block_size :: nat
  ps_vocab_size :: nat
  ps_rng :: rng
  zipf_weights :: "rat list"
  ps_bucket_prefixes :: "token list list"
  recent :: "(nat \<times> time) list"
  local_window_ms :: rat

definition ps_init ::
  "(rat \<Rightarrow> rat \<Rightarrow> rat) \<Rightarrow> rng \<Rightarrow> prefix_synthesis_config \<Rightarrow> nat \<Rightarrow> nat \<Rightarrow> nat \<Rightarrow> prefix_synthesis_model" where
  "ps_init pow g cfg bs vocab initial_prompt_len =
     (let initial_blocks = max 1 ((initial_prompt_len + bs - 1) div bs)
      in case randint_lists (num_buckets cfg) (initial_blocks * bs) vocab g of (buckets, g') \<Rightarrow>
           \<lparr>ps_cfg = cfg, ps_block_size = bs, ps_vocab_size = vocab, ps_rng = g',
            zipf_weights = map (\<lambda>i. 1 / pow (of_nat (i + 1)) (zipf_alpha cfg)) [0..<num_buckets cfg],
            ps_bucket_prefixes = buckets, recent = [], local_window_ms = local_window_s cfg * 1000\<rparr>)"

definition purge_expired :: "time \<Rightarrow> prefix_synthesis_model \<Rightarrow> prefix_synthesis_model" where
  "purge_expired t s = s\<lparr>recent := dropWhile (\<lambda>(_, a). a < t - local_window_ms s) (recent s)\<rparr>"

text \<open>Stage 2: a recently active bucket, or one by the Zipf weights.\<close>

definition pick_bucket :: "(prefix_synthesis_model, nat) py" where
  "pick_bucket s =
     (case random_unit (ps_rng s) of (u, g1) \<Rightarrow>
       (if u < p_local (ps_cfg s) \<and> length (recent s) > 0
        then (case choice (map fst (recent s)) g1 of (i, g2) \<Rightarrow> (Inr i, s\<lparr>ps_rng := g2\<rparr>))
        else (case choices [0..<num_buckets (ps_cfg s)] (zipf_weights s) g1 of (r, g2) \<Rightarrow> (r, s\<lparr>ps_rng := g2\<rparr>))))"

text \<open>Stage 3: the bucket grows as far as needed.\<close>

definition extend_bucket :: "nat \<Rightarrow> nat \<Rightarrow> prefix_synthesis_model \<Rightarrow> prefix_synthesis_model" where
  "extend_bucket i n s =
     (let b = ps_bucket_prefixes s ! i
      in if length b < n then
           (case randints (n - length b) (ps_vocab_size s) (ps_rng s) of (xs, g') \<Rightarrow>
              s\<lparr>ps_rng := g', ps_bucket_prefixes := (ps_bucket_prefixes s)[i := b @ xs]\<rparr>)
         else s)"

definition assign_prefix_tokens :: "time \<Rightarrow> nat \<Rightarrow> (prefix_synthesis_model, token list) py" where
  "assign_prefix_tokens arrival prompt_len s =
     (let layers = sharing_layers (ps_cfg s)
      in case choices [0..<length layers] (map fst layers) (ps_rng s) of
           (Inl e, g1) \<Rightarrow> (Inl e, s\<lparr>ps_rng := g1\<rparr>)
         | (Inr li, g1) \<Rightarrow>
             (let s1 = s\<lparr>ps_rng := g1\<rparr>;
                  raw_prefix_len = nat \<lfloor>snd (layers ! li) * of_nat prompt_len\<rfloor>;
                  aligned = raw_prefix_len div ps_block_size s * ps_block_size s
              in if aligned = 0 then (Inr [], s1)
                 else py_bind pick_bucket (\<lambda>i s2.
                        let s3 = extend_bucket i aligned s2
                        in (Inr (take aligned (ps_bucket_prefixes s3 ! i)), s3\<lparr>recent := recent s3 @ [(i, arrival)]\<rparr>))
                      (purge_expired arrival s1)))"

section \<open>Trace replay\<close>

record trace_record =
  tl_arrival_ms :: "rat option"
  tl_timestamp :: "rat option"
  input_length :: "nat option"
  output_length :: "nat option"
  hash_ids :: "int list option"

datatype trace_line = Malformed | Record_line trace_record

record trace_generator =
  tg_config :: nano_kv_config
  tg_trace :: trace_config
  tg_sha :: "nat list \<Rightarrow> string"
  tg_rng :: rng
  tg_synthesis :: "prefix_synthesis_model option"
  tg_idx :: nat
  tg_path :: "trace_line list"
  tg_file :: "trace_line list option"
  tg_attached :: bool

definition tg_init ::
  "(nat list \<Rightarrow> string) \<Rightarrow> rng \<Rightarrow> nano_kv_config \<Rightarrow> trace_config \<Rightarrow> trace_line list \<Rightarrow> prefix_synthesis_model option \<Rightarrow>
   trace_generator result" where
  "tg_init sha256 g cfg tc file synth =
     (if tr_prefix_mode tc = Mode_synthesis \<and> synth = None then Inl ValueError
      else Inr \<lparr>tg_config = cfg, tg_trace = tc, tg_sha = sha256, tg_rng = g, tg_synthesis = synth, tg_idx = 0,
                tg_path = file, tg_file = None, tg_attached = False\<rparr>)"

text \<open>\<open>_build_token_ids\<close>: hash identifiers expand to blocks, the rest is random.\<close>

definition expand_hash :: "nat \<Rightarrow> int \<Rightarrow> token list" where
  "expand_hash bs hid = map (\<lambda>i. hid * int bs + int i) [0..<bs]"

definition build_token_ids :: "int list \<Rightarrow> nat \<Rightarrow> nat \<Rightarrow> rng \<Rightarrow> nat \<Rightarrow> token list result \<times> rng" where
  "build_token_ids hids input_len bs g vocab =
     (let full_blocks = input_len div bs;
          tail_len = input_len - full_blocks * bs;
          n_to_expand = min (length hids) full_blocks;
          expanded = concat (map (expand_hash bs) (take n_to_expand hids))
      in case randint_lists (full_blocks - n_to_expand) bs vocab g of (blocks, g1) \<Rightarrow>
         (case randints tail_len vocab g1 of (tail, g2) \<Rightarrow>
           (let tokens = expanded @ concat blocks @ tail
            in (if length tokens \<noteq> input_len then Inl AssertionError else Inr tokens, g2))))"

text \<open>\<open>record.get("arrival_ms", record.get("timestamp", 0))\<close>\<close>

definition raw_arrival_ms :: "trace_record \<Rightarrow> rat" where
  "raw_arrival_ms r = (case tl_arrival_ms r of Some x \<Rightarrow> x
     | None \<Rightarrow> (case tl_timestamp r of Some x \<Rightarrow> x | None \<Rightarrow> 0))"

definition build_token_ids_from_record :: "trace_record \<Rightarrow> (trace_generator, token list) py" where
  "build_token_ids_from_record r s =
     (case input_length r of None \<Rightarrow> (Inl KeyError, s)
      | Some n \<Rightarrow>
         (let bs = block_size (cfg_model (tg_config s)); vocab = vocab_size (cfg_generator (tg_config s))
          in case tr_prefix_mode (tg_trace s) of
               Mode_none \<Rightarrow> (case randints n vocab (tg_rng s) of (toks, g') \<Rightarrow>
                 (if length toks \<noteq> n then Inl AssertionError else Inr toks, s\<lparr>tg_rng := g'\<rparr>))
             | Mode_hash_ids \<Rightarrow> (case hash_ids r of None \<Rightarrow> (Inl ValueError, s)
                 | Some hids \<Rightarrow> (case build_token_ids hids n bs (tg_rng s) vocab of (res, g') \<Rightarrow> (res, s\<lparr>tg_rng := g'\<rparr>)))
             | Mode_synthesis \<Rightarrow> (case tg_synthesis s of None \<Rightarrow> (Inl AttributeError, s)
                 | Some m \<Rightarrow> (case assign_prefix_tokens (raw_arrival_ms r) n m of
                     (Inl e, m') \<Rightarrow> (Inl e, s\<lparr>tg_synthesis := Some m'\<rparr>)
                   | (Inr prefix, m') \<Rightarrow>
                       (let s1 = s\<lparr>tg_synthesis := Some m'\<rparr>
                        in case randints (n - length prefix) vocab (tg_rng s1) of (suffix, g') \<Rightarrow>
                             (let toks = prefix @ suffix
                              in (if length toks \<noteq> n then Inl AssertionError else Inr toks, s1\<lparr>tg_rng := g'\<rparr>)))))))"

text \<open>The body of \<open>_schedule_next\<close> for one decoded line: a request, or an exception with the file closed.\<close>

definition replay_record :: "trace_record \<Rightarrow> (trace_generator, time \<times> request) py" where
  "replay_record r s =
     (let arrival = raw_arrival_ms r / speedup (tg_trace s)
      in case build_token_ids_from_record r s of
           (Inl e, s1) \<Rightarrow> (Inl e, s1\<lparr>tg_file := None\<rparr>)
         | (Inr toks, s1) \<Rightarrow>
             (case output_length r of None \<Rightarrow> (Inl KeyError, s1\<lparr>tg_file := None\<rparr>)
              | Some n \<Rightarrow>
                 (case make_request (tg_sha s1) '''' toks arrival (tg_config s1) 0 (Some n) of
                    Inl e \<Rightarrow> (Inl e, s1\<lparr>tg_file := None\<rparr>)
                  | Inr req \<Rightarrow> (Inr (arrival, req\<lparr>request_id := ''trace-'' @ digits (tg_idx s1)\<rparr>),
                               s1\<lparr>tg_idx := tg_idx s1 + 1\<rparr>))))"

definition limit_reached :: "trace_generator \<Rightarrow> bool" where
  "limit_reached s = (case max_requests (tg_trace s) of None \<Rightarrow> False | Some k \<Rightarrow> k \<le> tg_idx s)"

fun schedule_next_lines :: "trace_line list \<Rightarrow> (trace_generator, (time \<times> request) option) py" where
  "schedule_next_lines [] s = (Inr None, s\<lparr>tg_file := None\<rparr>)"
| "schedule_next_lines (l # ls) s =
     (if limit_reached s then (Inr None, s\<lparr>tg_file := None\<rparr>)
      else case l of
        Malformed \<Rightarrow> schedule_next_lines ls (s\<lparr>tg_file := Some ls\<rparr>)
      | Record_line r \<Rightarrow> py_bind (replay_record r) (\<lambda>x. py_return (Some x)) (s\<lparr>tg_file := Some ls\<rparr>))"

definition schedule_next :: "(trace_generator, (time \<times> request) option) py" where
  "schedule_next s = (case tg_file s of None \<Rightarrow> (Inr None, s) | Some ls \<Rightarrow> schedule_next_lines ls s)"

section \<open>Arrival sources\<close>

text \<open>
  The object behind \<open>gen.attach(eng)\<close>. \<open>first_arrival\<close> is what \<open>attach\<close> enqueues, \<open>chain_arrival\<close> what
  the chain handler enqueues after an arrival at a given time.
\<close>

datatype arrivals = Poisson request_generator | Trace trace_generator

definition lift_gen :: "('g \<Rightarrow> arrivals) \<Rightarrow> ('g, 'a) py \<Rightarrow> 'g \<Rightarrow> 'a result \<times> arrivals" where
  "lift_gen C m g = (case m g of (r, g') \<Rightarrow> (r, C g'))"

definition first_arrival :: "(arrivals, (time \<times> request) option) py" where
  "first_arrival a =
     (case a of
        Poisson s \<Rightarrow> if rg_attached s then (Inl RuntimeError, a)
                     else lift_gen Poisson (next_arrival 0) (s\<lparr>rg_attached := True\<rparr>)
      | Trace s \<Rightarrow> if tg_attached s then (Inl RuntimeError, a)
                   else lift_gen Trace schedule_next (s\<lparr>tg_attached := True, tg_file := Some (tg_path s)\<rparr>))"

definition chain_arrival :: "time \<Rightarrow> (arrivals, (time \<times> request) option) py" where
  "chain_arrival t a =
     (case a of Poisson s \<Rightarrow> lift_gen Poisson (next_arrival t) s | Trace s \<Rightarrow> lift_gen Trace schedule_next s)"

section \<open>Sequential names\<close>

declare digits.simps [simp del]

lemma digit_char: "x < 10 \<Longrightarrow> of_char (char_of (48 + x :: nat)) = (48 + x :: nat)"
  by simp

lemma digit_inj: "x < 10 \<Longrightarrow> y < 10 \<Longrightarrow> char_of (48 + x :: nat) = char_of (48 + y :: nat) \<Longrightarrow> x = y"
  using digit_char[of x] digit_char[of y] by simp

lemma digits_last: "digits n \<noteq> [] \<and> last (digits n) = char_of (48 + n mod 10) \<and> butlast (digits n) = (if n < 10 then [] else digits (n div 10))"
  by (subst (1 2 3) digits.simps) simp

lemma digits_inj: "digits m = digits n \<Longrightarrow> m = n"
proof (induction m arbitrary: n rule: digits.induct)
  case (1 m)
  have "last (digits m) = last (digits n)" using 1(2) by simp
  then have md: "m mod 10 = n mod 10"
    using digits_last[of m] digits_last[of n] digit_inj[of "m mod 10" "n mod 10"] by simp
  have bl: "butlast (digits m) = butlast (digits n)" using 1(2) by simp
  have "m div 10 = n div 10"
  proof (cases "m < 10")
    case True
    then have "digits (n div 10) = [] \<or> n < 10" using bl digits_last[of m] digits_last[of n] by (auto split: if_splits)
    then show ?thesis using True digits_last[of "n div 10"] by simp
  next
    case False
    then have "\<not> n < 10" using bl digits_last[of m] digits_last[of n] digits_last[of "m div 10"] by (auto split: if_splits)
    then show ?thesis using 1(1)[OF False, of "n div 10"] bl False digits_last[of m] digits_last[of n] by simp
  qed
  then show ?case using md by (metis div_mult_mod_eq)
qed

lemma digits_chars: "c \<in> set (digits n) \<Longrightarrow> c \<noteq> CHR ''-''"
proof (induction n rule: digits.induct)
  case (1 n)
  have d: "char_of (48 + x :: nat) \<noteq> CHR ''-''" if "x < 10" for x
  proof
    assume "char_of (48 + x :: nat) = CHR ''-''"
    then have "of_char (char_of (48 + x :: nat)) = (of_char CHR ''-'' :: nat)" by simp
    then show False unfolding digit_char[OF that] by simp
  qed
  have "c \<in> set (if n < 10 then [char_of (48 + n)] else digits (n div 10) @ [char_of (48 + n mod 10)])"
    using 1(2) by (subst (asm) digits.simps)
  then show ?case using 1(1) d[of n] d[of "n mod 10"] by (auto split: if_splits)
qed

end
