(* ===== verification/Simulator.thy ===== *)
theory Simulator
  imports Metrics Workload Cache_Manager Policies
begin

text \<open>
  The event handlers of \<open>_wire_simulator\<close> in \<open>cli.py\<close>, which connect the engine, the scheduler, the cache
  manager, the two pools of nodes, the transfer model and the collector.

  The closures of the source share the objects of one run; they are the fields of \<open>world\<close>. Nodes are
  objects reached by name (\<open>all_nodes_by_id\<close>); the two pools are lists of names. The clock of the cache
  manager is the engine's. \<open>on_decode_batch_step\<close> adds a key to the payload of the event it handles, which
  the collector's handler of the same event reads afterwards: \<open>late_batch\<close> records the added value by the
  event's sequence number, its identity. A branch that would read the node names of a decision without
  nodes raises \<open>KeyError\<close>; such a decision is never stored.
\<close>

section \<open>State\<close>

record pending_transfer =
  pt_request_id :: req_id
  pt_src :: node_id
  pt_dst :: node_id
  pt_cost_ms :: rat
  pt_request :: request

record world =
  w_sched :: policy
  w_env :: policy_env
  w_cm :: cache_manager
  w_nodes :: "node_id \<rightharpoonup> mock_node"
  prefill_ids :: "node_id list"
  decode_ids :: "node_id list"
  w_transfer :: transfer_model
  decisions :: "req_id \<rightharpoonup> scheduling_decision"
  w_requests :: "req_id \<rightharpoonup> request"
  pending_transfers :: "string \<rightharpoonup> pending_transfer"
  transfer_counter :: "req_id \<rightharpoonup> nat"
  w_model :: model_config
  w_bw :: bandwidth_config
  late_batch :: "nat \<rightharpoonup> nat"
  w_metrics :: collector
  w_gen :: arrivals

datatype handler =
    Sim_on_arrive | Sim_on_prefill_start | Sim_on_prefill_complete | Sim_on_kv_transfer_start
  | Sim_on_kv_transfer_complete | Sim_on_decode_batch_step | Sim_on_decode_complete
  | Metrics_handler | Arrival_chain

type_synonym engine = "(payload, handler) sim_engine"
type_synonym 'a sim = "(world \<times> engine, 'a) py"

section \<open>Access to the shared objects\<close>

definition emit :: "time \<Rightarrow> event_type \<Rightarrow> payload \<Rightarrow> unit sim" where
  "emit t ty pl s = (case schedule (mk_event t ty pl) (snd s) of (r, e') \<Rightarrow> (r, (fst s, e')))"

definition upd_w :: "(world \<Rightarrow> world) \<Rightarrow> unit sim" where
  "upd_w f s = (Inr (), (f (fst s), snd s))"

definition get_w :: "(world \<Rightarrow> 'a) \<Rightarrow> 'a sim" where
  "get_w f s = (Inr (f (fst s)), s)"

definition clock :: "time sim" where
  "clock s = (Inr (now (snd s)), s)"

definition with_cm :: "(time \<Rightarrow> (cache_manager, 'a) py) \<Rightarrow> 'a sim" where
  "with_cm m s = (case m (now (snd s)) (w_cm (fst s)) of (r, c') \<Rightarrow> (r, (fst s\<lparr>w_cm := c'\<rparr>, snd s)))"

text \<open>An operation of the node with a name, which has been looked up before.\<close>

definition with_node :: "node_id \<Rightarrow> (mock_node, 'a) py \<Rightarrow> 'a sim" where
  "with_node n m s =
     (case w_nodes (fst s) n of None \<Rightarrow> (Inl KeyError, s)
      | Some nd \<Rightarrow> (case m nd of (r, nd') \<Rightarrow> (r, (fst s\<lparr>w_nodes := (w_nodes (fst s))(n \<mapsto> nd')\<rparr>, snd s))))"

definition the_key :: "'a option \<Rightarrow> 'a sim" where
  "the_key x = (case x of None \<Rightarrow> py_raise KeyError | Some v \<Rightarrow> py_return v)"

definition assert_in :: "node_id \<Rightarrow> (world \<Rightarrow> node_id list) \<Rightarrow> unit sim" where
  "assert_in n ids s = (if n \<in> set (ids (fst s)) then (Inr (), s) else (Inl KeyError, s))"

definition node_list :: "world \<Rightarrow> node_id list \<Rightarrow> mock_node list" where
  "node_list w ids = map (\<lambda>n. the (w_nodes w n)) ids"

text \<open>\<open>try: m except err: h\<close>\<close>

definition py_except :: "('s, 'a) py \<Rightarrow> py_error \<Rightarrow> 'a \<Rightarrow> ('s, 'a) py" where
  "py_except m err x s = (case m s of (Inl e, s') \<Rightarrow> if e = err then (Inr x, s') else (Inl e, s') | r \<Rightarrow> r)"

section \<open>Helpers of the handlers\<close>

definition transfer_name :: "req_id \<Rightarrow> nat \<Rightarrow> string" where
  "transfer_name rid n = rid @ ''-xfer-'' @ digits n"

definition next_transfer_id :: "req_id \<Rightarrow> string sim" where
  "next_transfer_id rid s =
     (let n = (case transfer_counter (fst s) rid of None \<Rightarrow> 0 | Some n \<Rightarrow> n)
      in (Inr (transfer_name rid n), (fst s\<lparr>transfer_counter := (transfer_counter (fst s))(rid \<mapsto> n + 1)\<rparr>, snd s)))"

definition compute_uncached_tokens :: "request \<Rightarrow> node_id \<Rightarrow> int sim" where
  "compute_uncached_tokens req n =
     py_bind (py_except (py_bind (with_cm (\<lambda>t. lookup t req n)) (\<lambda>m. py_return (matched_tokens m))) KeyError 0)
       (\<lambda>matched. py_return (max 0 (int (length (token_ids req)) - int matched)))"

definition compute_n_chunks :: "request \<Rightarrow> node_id \<Rightarrow> nat \<Rightarrow> int sim" where
  "compute_n_chunks req n chunk_size =
     py_bind (compute_uncached_tokens req n)
       (\<lambda>uncached. py_return (if uncached > 0 then (uncached + int chunk_size - 1) div int chunk_size else 0))"

definition has_work :: "mock_node \<Rightarrow> bool" where
  "has_work nd \<longleftrightarrow> decoding nd \<noteq> {} \<or> prefill_remaining nd \<noteq> []"

definition wake_batch_step :: "node_id \<Rightarrow> time \<Rightarrow> unit sim" where
  "wake_batch_step n t =
     py_bind (get_w w_nodes) (\<lambda>nodes. py_bind (the_key (nodes n)) (\<lambda>nd.
       if has_work nd \<and> \<not> is_batch_step_in_flight nd
       then py_bind (emit t DECODE_BATCH_STEP (no_keys\<lparr>pl_node_id := Some n\<rparr>))
              (\<lambda>_. with_node n mark_batch_step_scheduled)
       else py_return ()))"

text \<open>\<open>sched.schedule(req, prefill_nodes, decode_nodes, cm, now=engine.now())\<close>\<close>

definition run_scheduler :: "request \<Rightarrow> scheduling_decision sim" where
  "run_scheduler req s =
     (case s of (w, e) \<Rightarrow>
       (case policy_schedule (w_env w) \<lparr>cq_lookup = lookup (now e), cq_lookup_all = lookup_all (now e), cq_free_blocks = free_blocks\<rparr>
               (peek_backlog (w_transfer w)) (now e) req (node_list w (prefill_ids w)) (node_list w (decode_ids w))
               (w_sched w, w_cm w)
        of (r, (pol', c')) \<Rightarrow> (r, (w\<lparr>w_sched := pol', w_cm := c'\<rparr>, e))))"

section \<open>Handlers\<close>

definition start_prefill_event :: "req_id \<Rightarrow> node_id \<Rightarrow> request \<Rightarrow> node_id \<Rightarrow> unit sim" where
  "start_prefill_event rid n req decode_n =
     py_bind (get_w w_nodes) (\<lambda>nodes. py_bind (the_key (nodes n)) (\<lambda>nd.
     py_bind clock (\<lambda>t.
     py_bind (compute_n_chunks req decode_n (prefill_chunk_size (mn_model nd))) (\<lambda>k.
       emit t PREFILL_START (no_keys\<lparr>pl_request_id := Some rid, pl_node_id := Some n, pl_request := Some req,
                                     pl_n_chunks := Some k\<rparr>)))))"

definition on_arrive :: "payload event \<Rightarrow> unit sim" where
  "on_arrive ev =
     py_bind (the_key (pl_request (ev_payload ev))) (\<lambda>req.
     py_bind (run_scheduler req) (\<lambda>d.
     py_bind clock (\<lambda>t.
       if is_rejected d then
         emit t REQUEST_REJECTED (no_keys\<lparr>pl_request_id := Some (request_id req), pl_reason := reject_reason d\<rparr>)
       else
         py_bind (the_key (decode_node d)) (\<lambda>dn.
         py_bind (with_cm (\<lambda>t. lookup t req dn)) (\<lambda>m.
         py_bind (emit t SCHEDULED (no_keys\<lparr>pl_request_id := Some (request_id req), pl_decision := Some d,
                    pl_matched_tokens := Some (matched_tokens m),
                    pl_matched_blocks_by_tier := Some (matched_blocks_by_tier m)\<rparr>)) (\<lambda>_.
         py_bind (upd_w (\<lambda>w. w\<lparr>decisions := (decisions w)(request_id req \<mapsto> d),
                               w_requests := (w_requests w)(request_id req \<mapsto> req)\<rparr>)) (\<lambda>_.
         py_bind (the_key (prefill_node d)) (\<lambda>pn.
         py_bind (assert_in pn prefill_ids) (\<lambda>_.
         py_bind (with_node pn (mn_admit (request_id req) (int (expected_output_len req))
                    (Some (int (length (token_ids req))))
                    (Some (max 0 (int (length (token_ids req)) - int (matched_tokens m)))))) (\<lambda>running.
           if running then start_prefill_event (request_id req) pn req dn else py_return ()))))))))))"

definition on_prefill_start :: "payload event \<Rightarrow> unit sim" where
  "on_prefill_start ev =
     py_bind (the_key (pl_request (ev_payload ev))) (\<lambda>req.
     py_bind (the_key (pl_node_id (ev_payload ev))) (\<lambda>n.
     py_bind (the_key (pl_request_id (ev_payload ev))) (\<lambda>rid.
     py_bind (assert_in n prefill_ids) (\<lambda>_.
     py_bind (get_w decisions) (\<lambda>ds.
     py_bind (case ds rid of None \<Rightarrow> py_return n | Some d \<Rightarrow> the_key (decode_node d)) (\<lambda>dn.
     py_bind (compute_uncached_tokens req dn) (\<lambda>uncached.
     py_bind clock (\<lambda>t.
       if uncached = 0 then
         py_bind (with_node n (mark_prefill_done rid)) (\<lambda>_.
           emit t PREFILL_COMPLETE (no_keys\<lparr>pl_request_id := Some rid, pl_node_id := Some n, pl_request := Some req\<rparr>))
       else
         py_bind (with_node n (enter_prefill rid uncached)) (\<lambda>_. wake_batch_step n t)))))))))"

text \<open>The second half of \<open>on_prefill_complete\<close>: the pair of transfer events.\<close>

definition start_transfer :: "req_id \<Rightarrow> request \<Rightarrow> scheduling_decision \<Rightarrow> unit sim" where
  "start_transfer rid req d =
     py_bind (the_key (prefill_node d)) (\<lambda>src. py_bind (the_key (decode_node d)) (\<lambda>dst.
     py_bind clock (\<lambda>t.
     py_bind (get_w (\<lambda>w. w)) (\<lambda>w.
       let service = of_nat (length (token_ids req) * kv_bytes_per_token (w_model w)) / gpu_to_gpu (w_bw w) * 1000
       in case request_transfer src dst t service (w_transfer w) of ((start_t, finish_t), tm') \<Rightarrow>
         py_bind (upd_w (\<lambda>w. w\<lparr>w_transfer := tm'\<rparr>)) (\<lambda>_.
         py_bind (next_transfer_id rid) (\<lambda>tid.
         let pl = no_keys\<lparr>pl_request_id := Some rid, pl_transfer_id := Some tid, pl_src_node_id := Some src,
                    pl_dst_node_id := Some dst, pl_service_cost_ms := Some service,
                    pl_queued_cost_ms := Some (start_t - t), pl_cost_ms := Some (finish_t - t)\<rparr>
         in py_bind (upd_w (\<lambda>w. w\<lparr>pending_transfers := (pending_transfers w)(tid \<mapsto>
                     \<lparr>pt_request_id = rid, pt_src = src, pt_dst = dst, pt_cost_ms = finish_t - t, pt_request = req\<rparr>)\<rparr>)) (\<lambda>_.
            py_bind (emit start_t KV_TRANSFER_START pl) (\<lambda>_.
              emit finish_t KV_TRANSFER_COMPLETE (pl\<lparr>pl_request := Some req\<rparr>)))))))))"

text \<open>The branch that starts the request the finished one made room for.\<close>

definition start_promoted :: "node_id \<Rightarrow> req_id \<Rightarrow> unit sim" where
  "start_promoted n pid =
     py_bind (get_w (\<lambda>w. (w_requests w pid, decisions w pid))) (\<lambda>known.
       case known of (Some preq, Some pd) \<Rightarrow>
         py_bind (the_key (decode_node pd)) (\<lambda>dn.
         py_bind (compute_uncached_tokens preq dn) (\<lambda>uncached.
         py_bind (with_node n (init_promoted pid (int (expected_output_len preq))
                    (Some (int (length (token_ids preq)))) (Some uncached))) (\<lambda>_.
           start_prefill_event pid n preq dn)))
       | _ \<Rightarrow> py_return ())"

definition on_prefill_complete :: "payload event \<Rightarrow> unit sim" where
  "on_prefill_complete ev =
     py_bind (the_key (pl_request (ev_payload ev))) (\<lambda>req.
     py_bind (the_key (pl_node_id (ev_payload ev))) (\<lambda>n.
     py_bind (the_key (pl_request_id (ev_payload ev))) (\<lambda>rid.
     py_bind (assert_in n prefill_ids) (\<lambda>_.
     py_bind (get_w decisions) (\<lambda>ds.
       case ds rid of None \<Rightarrow> py_return ()
       | Some d \<Rightarrow>
           py_bind (py_except (with_node n (complete rid)) ValueError None) (\<lambda>promoted.
           py_bind (case promoted of None \<Rightarrow> py_return () | Some pid \<Rightarrow> start_promoted n pid) (\<lambda>_.
             start_transfer rid req d)))))))"

definition on_kv_transfer_start :: "payload event \<Rightarrow> unit sim" where
  "on_kv_transfer_start ev = py_return ()"

definition drop_request :: "req_id \<Rightarrow> world \<Rightarrow> world" where
  "drop_request rid w = w\<lparr>decisions := (decisions w)(rid := None), w_requests := (w_requests w)(rid := None)\<rparr>"

definition on_kv_transfer_complete :: "payload event \<Rightarrow> unit sim" where
  "on_kv_transfer_complete ev =
     py_bind (get_w pending_transfers) (\<lambda>pend.
       case pl_transfer_id (ev_payload ev) of None \<Rightarrow> py_return () | Some tid \<Rightarrow>
       (case pend tid of None \<Rightarrow> py_return () | Some info \<Rightarrow>
         (let rid = pt_request_id info; req = pt_request info in
          py_bind (upd_w (\<lambda>w. w\<lparr>pending_transfers := (pending_transfers w)(tid := None)\<rparr>)) (\<lambda>_.
          py_bind (get_w decisions) (\<lambda>ds.
            case ds rid of None \<Rightarrow> py_return () | Some d \<Rightarrow>
              py_bind (the_key (decode_node d)) (\<lambda>dn.
              py_bind (assert_in dn decode_ids) (\<lambda>_.
              py_bind (get_w w_nodes) (\<lambda>nodes. py_bind (the_key (nodes dn)) (\<lambda>nd.
              py_bind clock (\<lambda>t.
                if length (running_requests nd) \<ge> capacity (mn_config nd) then
                  py_bind (emit t REQUEST_REJECTED (no_keys\<lparr>pl_request_id := Some rid,
                             pl_reason := Some ''decode_capacity_exhausted''\<rparr>))
                    (\<lambda>_. upd_w (drop_request rid))
                else
                  py_bind (py_except (py_bind (with_cm (\<lambda>t. materialize_request t rid (token_ids req) dn))
                             (\<lambda>_. py_return ())) MemoryError ()) (\<lambda>_.
                  py_bind (with_node dn (mn_admit rid (int (expected_output_len req))
                             (Some (int (length (token_ids req)))) (Some 0))) (\<lambda>_.
                  py_bind (with_node dn (start_decode rid)) (\<lambda>_.
                    wake_batch_step dn t)))))))))))))"

text \<open>Tokens and completions of one batch step.\<close>

fun emit_tokens :: "node_id \<Rightarrow> time \<Rightarrow> req_id list \<Rightarrow> unit sim" where
  "emit_tokens n t [] = py_return ()"
| "emit_tokens n t (rid # rids) =
     py_bind (get_w w_nodes) (\<lambda>nodes. py_bind (the_key (nodes n)) (\<lambda>nd.
     py_bind (the_key (output_tokens nd rid)) (\<lambda>k.
     py_bind (emit t TOKEN_GENERATED (no_keys\<lparr>pl_request_id := Some rid, pl_step_index := Some (k - 1)\<rparr>)) (\<lambda>_.
       emit_tokens n t rids))))"

fun emit_completions :: "node_id \<Rightarrow> time \<Rightarrow> req_id list \<Rightarrow> unit sim" where
  "emit_completions n t [] = py_return ()"
| "emit_completions n t (rid # rids) =
     py_bind (emit t DECODE_COMPLETE (no_keys\<lparr>pl_request_id := Some rid, pl_node_id := Some n\<rparr>))
       (\<lambda>_. emit_completions n t rids)"

definition finish_prefill_event :: "node_id \<Rightarrow> time \<Rightarrow> req_id option \<Rightarrow> unit sim" where
  "finish_prefill_event n t pdone =
     (case pdone of None \<Rightarrow> py_return ()
      | Some rid \<Rightarrow> py_bind (get_w w_requests) (\<lambda>rs.
          case rs rid of None \<Rightarrow> py_return ()
          | Some req \<Rightarrow> emit t PREFILL_COMPLETE (no_keys\<lparr>pl_request_id := Some rid, pl_node_id := Some n,
                                                        pl_request := Some req\<rparr>)))"

definition on_decode_batch_step :: "payload event \<Rightarrow> unit sim" where
  "on_decode_batch_step ev =
     py_bind (the_key (pl_node_id (ev_payload ev))) (\<lambda>n.
     py_bind (with_node n mark_batch_step_completed) (\<lambda>_.
     py_bind (get_w w_nodes) (\<lambda>nodes. py_bind (the_key (nodes n)) (\<lambda>nd.
       if \<not> has_work nd then py_return ()
       else
         py_bind (upd_w (\<lambda>w. w\<lparr>late_batch := (late_batch w)(ev_seq ev \<mapsto> card (decoding nd))\<rparr>)) (\<lambda>_.
         py_bind clock (\<lambda>t.
         py_bind (with_node n (tick_batch_step t)) (\<lambda>(next_time, completed, pdone).
         py_bind (finish_prefill_event n next_time pdone) (\<lambda>_.
         py_bind (get_w w_nodes) (\<lambda>nodes. py_bind (the_key (nodes n)) (\<lambda>nd.
         py_bind (emit_tokens n next_time (sorted_list_of_set (decoding nd \<union> set completed))) (\<lambda>_.
         py_bind (emit_completions n next_time completed) (\<lambda>_.
           if has_work nd then wake_batch_step n next_time else py_return ()))))))))))))"

definition on_decode_complete :: "payload event \<Rightarrow> unit sim" where
  "on_decode_complete ev =
     py_bind (the_key (pl_request_id (ev_payload ev))) (\<lambda>rid.
     py_bind (the_key (pl_node_id (ev_payload ev))) (\<lambda>n.
     py_bind (assert_in n decode_ids) (\<lambda>_.
     py_bind (py_except (with_node n (complete rid)) ValueError None) (\<lambda>promoted.
     py_bind (py_except (with_cm (\<lambda>_. release_request rid n)) KeyError ()) (\<lambda>_.
     py_bind (upd_w (drop_request rid)) (\<lambda>_.
     py_bind clock (\<lambda>t. wake_batch_step n t)))))))"

section \<open>The collector as a handler\<close>

definition merged :: "world \<Rightarrow> payload event \<Rightarrow> payload event" where
  "merged w ev = (case late_batch w (ev_seq ev) of None \<Rightarrow> ev
     | Some b \<Rightarrow> ev\<lparr>ev_payload := (ev_payload ev)\<lparr>pl_batch_size := Some b\<rparr>\<rparr>)"

definition metrics_handler :: "payload event \<Rightarrow> unit sim" where
  "metrics_handler ev = upd_w (\<lambda>w. w\<lparr>w_metrics :=
     observe (\<lambda>n. map_option (\<lambda>nd. card (decoding nd)) (w_nodes w n)) (merged w ev) (w_metrics w)\<rparr>)"

section \<open>The arrival chain\<close>

definition emit_arrival :: "(time \<times> request) option \<Rightarrow> unit sim" where
  "emit_arrival a = (case a of None \<Rightarrow> py_return ()
     | Some (t, req) \<Rightarrow> emit t REQUEST_ARRIVE (no_keys\<lparr>pl_request := Some req\<rparr>))"

definition with_gen :: "(arrivals, 'a) py \<Rightarrow> 'a sim" where
  "with_gen m s = (case m (w_gen (fst s)) of (r, g') \<Rightarrow> (r, (fst s\<lparr>w_gen := g'\<rparr>, snd s)))"

definition on_arrive_chain :: "payload event \<Rightarrow> unit sim" where
  "on_arrive_chain ev = py_bind clock (\<lambda>t. py_bind (with_gen (chain_arrival t)) emit_arrival)"

section \<open>Wiring\<close>

definition handle :: "handler \<Rightarrow> payload event \<Rightarrow> unit sim" where
  "handle h = (case h of
      Sim_on_arrive \<Rightarrow> on_arrive
    | Sim_on_prefill_start \<Rightarrow> on_prefill_start
    | Sim_on_prefill_complete \<Rightarrow> on_prefill_complete
    | Sim_on_kv_transfer_start \<Rightarrow> on_kv_transfer_start
    | Sim_on_kv_transfer_complete \<Rightarrow> on_kv_transfer_complete
    | Sim_on_decode_batch_step \<Rightarrow> on_decode_batch_step
    | Sim_on_decode_complete \<Rightarrow> on_decode_complete
    | Metrics_handler \<Rightarrow> metrics_handler
    | Arrival_chain \<Rightarrow> on_arrive_chain)"

fun register :: "(event_type \<times> handler) list \<Rightarrow> (engine, unit) py" where
  "register [] = py_return ()"
| "register ((ty, h) # hs) = py_bind (on ty h) (\<lambda>_. register hs)"

definition wire_simulator :: "(engine, unit) py" where
  "wire_simulator = register
     [(REQUEST_ARRIVE, Sim_on_arrive), (PREFILL_START, Sim_on_prefill_start), (PREFILL_COMPLETE, Sim_on_prefill_complete),
      (KV_TRANSFER_START, Sim_on_kv_transfer_start), (KV_TRANSFER_COMPLETE, Sim_on_kv_transfer_complete),
      (DECODE_BATCH_STEP, Sim_on_decode_batch_step), (DECODE_COMPLETE, Sim_on_decode_complete)]"

definition metrics_attach :: "(engine, unit) py" where
  "metrics_attach = register (map (\<lambda>ty. (ty, Metrics_handler))
     [REQUEST_ARRIVE, SCHEDULED, REQUEST_REJECTED, PREFILL_START, PREFILL_COMPLETE, KV_TRANSFER_START,
      KV_TRANSFER_COMPLETE, TOKEN_GENERATED, DECODE_BATCH_STEP, DECODE_COMPLETE])"

definition gen_attach :: "unit sim" where
  "gen_attach =
     py_bind (\<lambda>s. case on REQUEST_ARRIVE Arrival_chain (snd s) of (r, e') \<Rightarrow> (r, (fst s, e')))
       (\<lambda>_. py_bind (with_gen first_arrival) emit_arrival)"

section \<open>The scheduler factory\<close>

definition param :: "(string \<rightharpoonup> rat) \<Rightarrow> string \<Rightarrow> rat \<Rightarrow> rat" where
  "param ps k d = (case ps k of None \<Rightarrow> d | Some x \<Rightarrow> x)"

definition build_scheduler :: "string \<Rightarrow> (string \<rightharpoonup> rat) \<Rightarrow> policy result" where
  "build_scheduler name ps =
     (if name = ''round_robin'' then Inr (Round_robin rr_init)
      else if name = ''least_loaded'' then Inr Least_loaded
      else if name = ''prefix_greedy'' then map_sum id Prefix_greedy (pg_init (param ps ''min_hit_ratio'' (1 / 4)))
      else if name = ''e2_policy'' then
        map_sum id E2 (e2_init \<lparr>w_historical = param ps ''w_historical'' 1, w_eviction = param ps ''w_eviction'' 1,
                                w_run = param ps ''w_run'' 1\<rparr>)
      else if name = ''conductor'' then
        map_sum id Conductor (conductor_init \<lparr>alpha = param ps ''alpha'' 1, beta = param ps ''beta'' 1,
                                              gamma = param ps ''gamma'' 1\<rparr>)
      else Inl ValueError)"

section \<open>One run\<close>

text \<open>
  What a run takes from outside the repository: the hash of \<open>hashlib\<close>, the power function, the random
  streams, the identifiers \<open>uuid4\<close> returns in each pool, and the lines of the trace file.
\<close>

record outside =
  out_sha256 :: "nat list \<Rightarrow> string"
  out_pow :: "rat \<Rightarrow> rat \<Rightarrow> rat"
  out_rng :: rng
  out_synthesis_rng :: rng
  out_uuids :: "node_id \<Rightarrow> nat \<Rightarrow> bid"
  out_trace :: "trace_line list"

definition pool_names :: "char \<Rightarrow> nat \<Rightarrow> node_id list" where
  "pool_names c k = map (\<lambda>i. c # digits i) [0..<k]"

definition build_arrivals :: "outside \<Rightarrow> nano_kv_config \<Rightarrow> arrivals result" where
  "build_arrivals out cfg =
     (case cfg_trace cfg of
        None \<Rightarrow> Inr (Poisson (rg_init (out_sha256 out) (out_rng out) cfg))
      | Some tc \<Rightarrow>
          (let trace = (\<lambda>synth. map_sum id Trace (tg_init (out_sha256 out) (out_rng out) cfg tc (out_trace out) synth))
           in if tr_prefix_mode tc = Mode_synthesis then
                (case prefix_synthesis tc of None \<Rightarrow> Inl ValueError
                 | Some ps \<Rightarrow> trace (Some (ps_init (out_pow out) (out_synthesis_rng out) ps (block_size (cfg_model cfg))
                                (vocab_size (cfg_generator cfg)) (avg_prompt_len (cfg_workload cfg)))))
              else trace None))"

definition world_init :: "outside \<Rightarrow> nano_kv_config \<Rightarrow> policy \<Rightarrow> arrivals \<Rightarrow> world" where
  "world_init out cfg pol gen =
     (let ps = pool_names CHR ''p'' (cl_prefill_nodes (cfg_cluster cfg));
          ds = pool_names CHR ''d'' (cl_decode_nodes (cfg_cluster cfg))
      in \<lparr>w_sched = pol, w_env = \<lparr>pe_model = cfg_model cfg, pe_bw = cfg_bandwidth cfg\<rparr>,
          w_cm = cm_init ds (cfg_model cfg) (cfg_node cfg) (cfg_bandwidth cfg) 0 (out_uuids out),
          w_nodes = map_of (map (\<lambda>n. (n, mn_init n (cfg_model cfg) (cfg_node cfg))) (ps @ ds)),
          prefill_ids = ps, decode_ids = ds, w_transfer = build_transfer_model (cfg_bandwidth cfg),
          decisions = Map.empty, w_requests = Map.empty, pending_transfers = Map.empty, transfer_counter = Map.empty,
          w_model = cfg_model cfg, w_bw = cfg_bandwidth cfg, late_batch = Map.empty, w_metrics = collector_init,
          w_gen = gen\<rparr>)"

definition attach_all :: "unit sim" where
  "attach_all =
     py_bind (\<lambda>s. case py_bind wire_simulator (\<lambda>_. metrics_attach) (snd s) of (r, e') \<Rightarrow> (r, (fst s, e')))
       (\<lambda>_. gen_attach)"

text \<open>\<open>_run_one\<close>, with a bound on the rounds of the event loop: the state after \<open>eng.run()\<close>, and the summary.\<close>

definition run_world :: "nat \<Rightarrow> outside \<Rightarrow> nano_kv_config \<Rightarrow> string \<Rightarrow> world result" where
  "run_world fuel out cfg name =
     (case build_scheduler name (sc_params (cfg_scheduler cfg)) of Inl e \<Rightarrow> Inl e | Inr pol \<Rightarrow>
      (case build_arrivals out cfg of Inl e \<Rightarrow> Inl e | Inr gen \<Rightarrow>
       (case attach_all (world_init out cfg pol gen, engine_init) of
          (Inl e, _) \<Rightarrow> Inl e
        | (Inr _, s) \<Rightarrow>
            (case run_loop fuel handle s of
               (Inl e, _, _) \<Rightarrow> Inl e
             | (Inr _, _, (w, _)) \<Rightarrow> Inr w))))"

definition run_one :: "nat \<Rightarrow> outside \<Rightarrow> nano_kv_config \<Rightarrow> string \<Rightarrow> summary result" where
  "run_one fuel out cfg name = map_sum id (\<lambda>w. summary_of (w_metrics w)) (run_world fuel out cfg name)"

end
