(* ===== verification/Reports.thy ===== *)
theory Reports
  imports Simulator "HOL-Library.Sublist"
begin

text \<open>
  The reports of \<open>cli.py\<close> around \<open>_run_one\<close>: the dictionary of a summary, the comparison of two runs, the
  sensitivity experiments (one field of the configuration, several values) and the rows of the
  prefix-sensitivity table. A metric value is \<open>None\<close>, a number or a dictionary. What a run takes from
  outside is a function of the configuration it is run with. A report is a command: the messages printed
  until it ended, with its result or the exception. Paths, files and the subcommands are in \<open>Commands\<close>;
  the layout of the tables and the formatting of numbers are left out.
\<close>

section \<open>Metric values\<close>

datatype mval = M_none | M_num rat | M_map "(string \<times> mval) list"

type_synonym metrics = "(string \<times> mval) list"

definition m_opt :: "rat option \<Rightarrow> mval" where
  "m_opt x = (case x of None \<Rightarrow> M_none | Some r \<Rightarrow> M_num r)"

definition m_nat :: "nat \<Rightarrow> mval" where
  "m_nat n = M_num (of_nat n)"

text \<open>The keys of \<open>MetricsCollector.summary\<close>, in its order.\<close>

definition summary_dict :: "summary \<Rightarrow> metrics" where
  "summary_dict s =
     [(''total_arrived'', m_nat (sm_total_arrived s)), (''completed'', m_nat (sm_completed s)),
      (''rejected'', m_nat (sm_rejected s)), (''rejection_rate'', m_opt (sm_rejection_rate s)),
      (''ttft_p50_ms'', m_opt (sm_ttft_p50_ms s)), (''ttft_p99_ms'', m_opt (sm_ttft_p99_ms s)),
      (''ttft_avg_ms'', m_opt (sm_ttft_avg_ms s)), (''tbt_p50_ms'', m_opt (sm_tbt_p50_ms s)),
      (''tbt_avg_ms'', m_opt (sm_tbt_avg_ms s)), (''e2e_p50_ms'', m_opt (sm_e2e_p50_ms s)),
      (''e2e_avg_ms'', m_opt (sm_e2e_avg_ms s)), (''slo_ttft_hit_rate'', m_opt (sm_slo_ttft_hit_rate s)),
      (''cache_hit_ratio'', m_opt (sm_cache_hit_ratio s)), (''throughput_req_per_s'', m_opt (sm_throughput_req_per_s s)),
      (''avg_batch_size'', m_opt (sm_avg_batch_size s)),
      (''decode_throughput_tokens_per_s'', m_opt (sm_decode_throughput_tokens_per_s s)),
      (''avg_chunked_prefill_steps_per_request'', m_opt (sm_avg_chunked_prefill_steps_per_request s)),
      (''kv_transfer_time_avg_ms'', m_opt (sm_kv_transfer_time_avg_ms s)),
      (''dual_phase_tick_count'', m_nat (sm_dual_phase_tick_count s)),
      (''kv_transfer_queued_avg_ms'', M_num (sm_kv_transfer_queued_avg_ms s)),
      (''cache_hit_by_tier_blocks'', M_map (map (\<lambda>(t, n). (t, m_nat n)) (sm_cache_hit_by_tier_blocks s))),
      (''cache_hit_by_tier_ratio'', (case sm_cache_hit_by_tier_ratio s of None \<Rightarrow> M_none
         | Some ts \<Rightarrow> M_map (map (\<lambda>(t, r). (t, M_num r)) ts)))]"

text \<open>\<open>d.get(k)\<close>, and \<open>dict(pairs)\<close>.\<close>

definition dict_get :: "metrics \<Rightarrow> string \<Rightarrow> mval" where
  "dict_get d k = (case map_of d k of None \<Rightarrow> M_none | Some v \<Rightarrow> v)"

definition dict_of :: "(string \<times> mval) list \<Rightarrow> metrics" where
  "dict_of ps = fold (\<lambda>(k, v). AList.update k v) ps []"

definition sorted_keys :: "metrics \<Rightarrow> metrics \<Rightarrow> string list" where
  "sorted_keys a b = sorted_list_of_set (set (map fst a) \<union> set (map fst b))"

section \<open>Comparing two runs\<close>

definition select_metrics :: "metrics \<Rightarrow> string list \<Rightarrow> metrics" where
  "select_metrics s names = dict_of (map (\<lambda>n. (n, dict_get s n)) names)"

lemma dict_get_size: "size (dict_get d k) \<le> size_list (size_prod (\<lambda>_. 0) size) d"
proof (cases "map_of d k")
  case (Some v)
  then have "(k, v) \<in> set d" by (rule map_of_SomeD)
  then have "size_prod (\<lambda>_. 0) size (k, v) \<le> size_list (size_prod (\<lambda>_. 0) size) d"
    by (intro size_list_estimation') auto
  then show ?thesis using Some by (simp add: dict_get_def)
qed (simp add: dict_get_def)

function delta_abs :: "mval \<Rightarrow> mval \<Rightarrow> mval" where
  "delta_abs baseline candidate =
     (case (baseline, candidate) of
        (M_map b, M_map c) \<Rightarrow> M_map (map (\<lambda>k. (k, delta_abs (dict_get b k) (dict_get c k))) (sorted_keys b c))
      | (M_num x, M_num y) \<Rightarrow> M_num (y - x)
      | _ \<Rightarrow> M_none)"
  by pat_completeness auto
termination
  by (relation "measure (\<lambda>(b, c). size b)") (auto simp: less_Suc_eq_le dict_get_size)

function delta_pct :: "mval \<Rightarrow> mval \<Rightarrow> mval" where
  "delta_pct baseline candidate =
     (case (baseline, candidate) of
        (M_map b, M_map c) \<Rightarrow> M_map (map (\<lambda>k. (k, delta_pct (dict_get b k) (dict_get c k))) (sorted_keys b c))
      | (M_num x, M_num y) \<Rightarrow> if x = 0 then M_none else M_num ((y - x) / x)
      | _ \<Rightarrow> M_none)"
  by pat_completeness auto
termination
  by (relation "measure (\<lambda>(b, c). size b)") (auto simp: less_Suc_eq_le dict_get_size)

declare delta_abs.simps [simp del] delta_pct.simps [simp del]

fun metric_leaves :: "string \<Rightarrow> mval \<Rightarrow> (string \<times> mval) list" where
  "metric_leaves name (M_map kvs) = concat (map (\<lambda>(k, v). metric_leaves (name @ ''.'' @ k) v) kvs)"
| "metric_leaves name v = [(name, v)]"

definition has_part :: "string \<Rightarrow> string \<Rightarrow> bool" where
  "has_part part s \<longleftrightarrow> sublist part s"

definition threshold_met :: "string \<Rightarrow> mval \<Rightarrow> mval \<Rightarrow> bool" where
  "threshold_met name baseline candidate =
     (case (baseline, candidate) of
        (M_num b, M_num c) \<Rightarrow>
          (let d = \<bar>c - b\<bar>; pct_ge = (b \<noteq> 0 \<and> 1 / 100 \<le> \<bar>(c - b) / b\<bar>);
               root = takeWhile (\<lambda>x. x \<noteq> CHR ''.'') name
           in if suffix ''_ratio'' root \<or> suffix ''_rate'' root then 5 / 1000 \<le> d
              else if suffix ''_ms'' root then 1 / 2 \<le> d \<or> pct_ge
              else if has_part ''throughput'' root \<or> has_part ''rejection'' root then 5 / 1000 \<le> d \<or> pct_ge
              else if suffix ''_count'' root \<or> has_part ''steps_per_request'' root \<or> has_part ''batch_size'' root
                then 1 / 2 \<le> d \<or> pct_ge
              else 1 / 10 ^ 9 < d)
      | _ \<Rightarrow> False)"

definition changed_leaves :: "metrics \<Rightarrow> string \<times> mval \<Rightarrow> string list" where
  "changed_leaves candidate_metrics nv =
     (case nv of (name, bv) \<Rightarrow>
       (let bl = dict_of (metric_leaves name bv); cl = dict_of (metric_leaves name (dict_get candidate_metrics name))
        in filter (\<lambda>leaf. threshold_met leaf (dict_get bl leaf) (dict_get cl leaf)) (sorted_keys bl cl)))"

definition changed_metric_names :: "metrics \<Rightarrow> metrics \<Rightarrow> string list" where
  "changed_metric_names baseline_metrics candidate_metrics =
     sorted_list_of_set (set (concat (map (changed_leaves candidate_metrics) baseline_metrics)))"

section \<open>Fields of the configuration\<close>

text \<open>
  \<open>getattr\<close> and \<open>setattr\<close> along a dotted path, for the paths that lead to a number. Pydantic does not
  validate assignments. A number that is not of the type of the field (which Python would store
  nevertheless) has no counterpart in the record and is not set; every other path counts as unknown.
\<close>

type_synonym num_field = "(nano_kv_config \<Rightarrow> rat) \<times> (rat \<Rightarrow> nano_kv_config \<Rightarrow> nano_kv_config option)"

definition nat_field :: "(nano_kv_config \<Rightarrow> nat) \<Rightarrow> ((nat \<Rightarrow> nat) \<Rightarrow> nano_kv_config \<Rightarrow> nano_kv_config) \<Rightarrow> num_field" where
  "nat_field g u = (\<lambda>c. of_nat (g c), \<lambda>v c. if v = of_nat (nat \<lfloor>v\<rfloor>) then Some (u (\<lambda>_. nat \<lfloor>v\<rfloor>) c) else None)"

definition rat_field :: "(nano_kv_config \<Rightarrow> rat) \<Rightarrow> ((rat \<Rightarrow> rat) \<Rightarrow> nano_kv_config \<Rightarrow> nano_kv_config) \<Rightarrow> num_field" where
  "rat_field g u = (g, \<lambda>v c. Some (u (\<lambda>_. v) c))"

definition number_fields :: "(string \<times> num_field) list" where
  "number_fields =
     [(''cluster.prefill_nodes'', nat_field (\<lambda>c. cl_prefill_nodes (cfg_cluster c)) (\<lambda>f. cfg_cluster_update (cl_prefill_nodes_update f))),
      (''cluster.decode_nodes'', nat_field (\<lambda>c. cl_decode_nodes (cfg_cluster c)) (\<lambda>f. cfg_cluster_update (cl_decode_nodes_update f))),
      (''node.gpu_blocks'', nat_field (\<lambda>c. gpu_blocks (cfg_node c)) (\<lambda>f. cfg_node_update (gpu_blocks_update f))),
      (''node.cpu_blocks'', nat_field (\<lambda>c. cpu_blocks (cfg_node c)) (\<lambda>f. cfg_node_update (cpu_blocks_update f))),
      (''node.disk_blocks'', nat_field (\<lambda>c. disk_blocks (cfg_node c)) (\<lambda>f. cfg_node_update (disk_blocks_update f))),
      (''node.capacity'', nat_field (\<lambda>c. capacity (cfg_node c)) (\<lambda>f. cfg_node_update (capacity_update f))),
      (''model.block_size'', nat_field (\<lambda>c. block_size (cfg_model c)) (\<lambda>f. cfg_model_update (block_size_update f))),
      (''model.kv_bytes_per_token'', nat_field (\<lambda>c. kv_bytes_per_token (cfg_model c)) (\<lambda>f. cfg_model_update (kv_bytes_per_token_update f))),
      (''model.prefill_cost_per_token_ms'',
        rat_field (\<lambda>c. prefill_cost_per_token_ms (cfg_model c)) (\<lambda>f. cfg_model_update (prefill_cost_per_token_ms_update f))),
      (''model.decode_base_ms'', rat_field (\<lambda>c. decode_base_ms (cfg_model c)) (\<lambda>f. cfg_model_update (decode_base_ms_update f))),
      (''model.marginal_decode_ms'',
        rat_field (\<lambda>c. marginal_decode_ms (cfg_model c)) (\<lambda>f. cfg_model_update (marginal_decode_ms_update f))),
      (''model.prefill_chunk_size'', nat_field (\<lambda>c. prefill_chunk_size (cfg_model c)) (\<lambda>f. cfg_model_update (prefill_chunk_size_update f))),
      (''bandwidth.gpu_to_gpu'', rat_field (\<lambda>c. gpu_to_gpu (cfg_bandwidth c)) (\<lambda>f. cfg_bandwidth_update (gpu_to_gpu_update f))),
      (''bandwidth.gpu_to_cpu'', rat_field (\<lambda>c. gpu_to_cpu (cfg_bandwidth c)) (\<lambda>f. cfg_bandwidth_update (gpu_to_cpu_update f))),
      (''bandwidth.cpu_to_disk'', rat_field (\<lambda>c. cpu_to_disk (cfg_bandwidth c)) (\<lambda>f. cfg_bandwidth_update (cpu_to_disk_update f))),
      (''slo.ttft_target_ms'', rat_field (\<lambda>c. ttft_target_ms (cfg_slo c)) (\<lambda>f. cfg_slo_update (ttft_target_ms_update f))),
      (''slo.tbt_target_ms'', rat_field (\<lambda>c. tbt_target_ms (cfg_slo c)) (\<lambda>f. cfg_slo_update (tbt_target_ms_update f))),
      (''workload.request_rate'', rat_field (\<lambda>c. request_rate (cfg_workload c)) (\<lambda>f. cfg_workload_update (request_rate_update f))),
      (''workload.duration_s'', rat_field (\<lambda>c. duration_s (cfg_workload c)) (\<lambda>f. cfg_workload_update (duration_s_update f))),
      (''workload.prefix_sharing_ratio'',
        rat_field (\<lambda>c. prefix_sharing_ratio (cfg_workload c)) (\<lambda>f. cfg_workload_update (prefix_sharing_ratio_update f))),
      (''workload.avg_prompt_len'', nat_field (\<lambda>c. avg_prompt_len (cfg_workload c)) (\<lambda>f. cfg_workload_update (avg_prompt_len_update f))),
      (''workload.avg_output_len'', nat_field (\<lambda>c. avg_output_len (cfg_workload c)) (\<lambda>f. cfg_workload_update (avg_output_len_update f))),
      (''generator.num_buckets'', nat_field (\<lambda>c. gen_num_buckets (cfg_generator c)) (\<lambda>f. cfg_generator_update (gen_num_buckets_update f))),
      (''generator.vocab_size'', nat_field (\<lambda>c. vocab_size (cfg_generator c)) (\<lambda>f. cfg_generator_update (vocab_size_update f)))]"

definition get_nested_attr :: "nano_kv_config \<Rightarrow> string \<Rightarrow> rat result" where
  "get_nested_attr cfg path = (case map_of number_fields path of None \<Rightarrow> Inl AttributeError | Some (g, u) \<Rightarrow> Inr (g cfg))"

definition set_nested_config_value :: "nano_kv_config \<Rightarrow> string \<Rightarrow> rat \<Rightarrow> nano_kv_config result" where
  "set_nested_config_value cfg path v =
     (case map_of number_fields path of None \<Rightarrow> Inl AttributeError
      | Some (g, u) \<Rightarrow> (case u v cfg of None \<Rightarrow> Inl AttributeError | Some cfg' \<Rightarrow> Inr cfg'))"

definition set_scheduler_name :: "nano_kv_config \<Rightarrow> string \<Rightarrow> nano_kv_config" where
  "set_scheduler_name cfg name = cfg_scheduler_update (sc_name_update (\<lambda>_. name)) cfg"


section \<open>Sensitivity experiments\<close>

text \<open>How a configuration is run: the bound of the event loop, and what the run takes from outside.\<close>

record runner =
  rn_fuel :: nat
  rn_outside :: "nano_kv_config \<Rightarrow> outside"

definition run_metrics :: "runner \<Rightarrow> nano_kv_config \<Rightarrow> string \<Rightarrow> metrics result" where
  "run_metrics rn cfg name = map_sum id summary_dict (run_one (rn_fuel rn) (rn_outside rn cfg) cfg name)"

record candidate_report =
  cr_baseline_value :: rat
  cr_candidate_value :: rat
  cr_baseline :: metrics
  cr_candidate :: metrics
  cr_delta_abs :: mval
  cr_delta_pct :: mval
  cr_candidate_summary :: metrics
  cr_changed_metrics :: "string list"
  cr_changed :: bool

record experiment_report =
  er_field :: string
  er_base_config :: string
  er_scheduler :: string
  er_primary_metrics :: "string list"
  er_note :: "string option"
  er_baseline_value :: rat
  er_baseline_summary :: metrics
  er_baseline_metrics :: metrics
  er_candidates :: "candidate_report list"
  er_changed :: bool

definition candidate_report_of :: "sensitivity_experiment \<Rightarrow> rat \<Rightarrow> metrics \<Rightarrow> rat \<Rightarrow> metrics \<Rightarrow> candidate_report" where
  "candidate_report_of ex base_value base_metrics v candidate_summary =
     (let cm = select_metrics candidate_summary (ex_primary_metrics ex); changed = changed_metric_names base_metrics cm
      in \<lparr>cr_baseline_value = base_value, cr_candidate_value = v, cr_baseline = base_metrics, cr_candidate = cm,
          cr_delta_abs = delta_abs (M_map base_metrics) (M_map cm), cr_delta_pct = delta_pct (M_map base_metrics) (M_map cm),
          cr_candidate_summary = candidate_summary, cr_changed_metrics = changed, cr_changed = (changed \<noteq> [])\<rparr>)"

fun run_candidates ::
  "runner \<Rightarrow> sensitivity_experiment \<Rightarrow> nano_kv_config \<Rightarrow> rat \<Rightarrow> metrics \<Rightarrow> rat list \<Rightarrow> candidate_report list result" where
  "run_candidates rn ex cfg base_value base_metrics [] = Inr []"
| "run_candidates rn ex cfg base_value base_metrics (v # vs) =
     (case set_nested_config_value cfg (ex_field ex) v of Inl e \<Rightarrow> Inl e | Inr cfg' \<Rightarrow>
      (case run_metrics rn cfg' (ex_scheduler ex) of Inl e \<Rightarrow> Inl e | Inr s \<Rightarrow>
       (case run_candidates rn ex cfg base_value base_metrics vs of Inl e \<Rightarrow> Inl e
        | Inr rs \<Rightarrow> Inr (candidate_report_of ex base_value base_metrics v s # rs))))"

definition run_sensitivity_experiment ::
  "runner \<Rightarrow> (string \<Rightarrow> nano_kv_config result) \<Rightarrow> sensitivity_experiment \<Rightarrow> experiment_report result" where
  "run_sensitivity_experiment rn load_config ex =
     (case load_config (ex_base_config ex) of Inl e \<Rightarrow> Inl e | Inr loaded \<Rightarrow>
      (let cfg = set_scheduler_name loaded (ex_scheduler ex) in
       case get_nested_attr cfg (ex_field ex) of Inl e \<Rightarrow> Inl e | Inr base_value \<Rightarrow>
       (case run_metrics rn cfg (ex_scheduler ex) of Inl e \<Rightarrow> Inl e | Inr base_summary \<Rightarrow>
        (let base_metrics = select_metrics base_summary (ex_primary_metrics ex) in
         case run_candidates rn ex cfg base_value base_metrics (ex_values ex) of Inl e \<Rightarrow> Inl e | Inr cs \<Rightarrow>
         Inr \<lparr>er_field = ex_field ex, er_base_config = ex_base_config ex, er_scheduler = ex_scheduler ex,
              er_primary_metrics = ex_primary_metrics ex, er_note = ex_note ex, er_baseline_value = base_value,
              er_baseline_summary = base_summary, er_baseline_metrics = base_metrics, er_candidates = cs,
              er_changed = (\<exists>c \<in> set cs. cr_changed c)\<rparr>))))"

text \<open>\<open>_flatten_metric_rows\<close>, and the lines \<open>_write_sensitivity_csv\<close> writes for the metrics of a candidate.\<close>

function flatten_metric_rows :: "string \<Rightarrow> mval \<Rightarrow> (string \<times> mval) list" where
  "flatten_metric_rows name x =
     (case x of
        M_map kvs \<Rightarrow> concat (map (\<lambda>k. flatten_metric_rows (name @ ''.'' @ k) (dict_get kvs k)) (sorted_keys kvs []))
      | v \<Rightarrow> [(name, v)])"
  by pat_completeness auto
termination
  by (relation "measure (\<lambda>(_, v). size v)") (auto simp: less_Suc_eq_le dict_get_size)

declare flatten_metric_rows.simps [simp del]

definition csv_metric_rows :: "candidate_report \<Rightarrow> (string \<times> mval \<times> mval \<times> mval \<times> mval) list" where
  "csv_metric_rows c =
     (let rows = (\<lambda>v. dict_of (flatten_metric_rows '''' v));
          b = rows (M_map (cr_baseline c)); x = rows (M_map (cr_candidate c)); da = rows (cr_delta_abs c); dp = rows (cr_delta_pct c)
      in map (\<lambda>k. (dropWhile (\<lambda>ch. ch = CHR ''.'') k, dict_get b k, dict_get x k, dict_get da k, dict_get dp k)) (sorted_keys b x))"

section \<open>Comparison runs\<close>

definition SCHEDULER_NAMES :: "string list" where
  "SCHEDULER_NAMES = [''round_robin'', ''least_loaded'', ''prefix_greedy'', ''e2_policy'', ''conductor'']"

definition TABLE_KEYS :: "string list" where
  "TABLE_KEYS =
     [''total_arrived'', ''completed'', ''rejected'', ''rejection_rate'', ''ttft_p50_ms'', ''ttft_p99_ms'', ''ttft_avg_ms'',
      ''tbt_p50_ms'', ''tbt_avg_ms'', ''e2e_p50_ms'', ''e2e_avg_ms'', ''slo_ttft_hit_rate'', ''cache_hit_ratio'',
      ''cache_hit_by_tier_blocks'', ''cache_hit_by_tier_ratio'', ''throughput_req_per_s'', ''avg_batch_size'',
      ''decode_throughput_tokens_per_s'', ''avg_chunked_prefill_steps_per_request'', ''dual_phase_tick_count'',
      ''kv_transfer_time_avg_ms'']"

definition SWEEP_KEYS :: "string list" where
  "SWEEP_KEYS =
     [''ttft_p50_ms'', ''ttft_p99_ms'', ''tbt_avg_ms'', ''cache_hit_ratio'', ''rejection_rate'', ''throughput_req_per_s'',
      ''avg_batch_size'', ''decode_throughput_tokens_per_s'', ''kv_transfer_time_avg_ms'']"

text \<open>The rows of \<open>_write_csv\<close>, one per scheduler and metric.\<close>

definition csv_rows :: "(string \<times> metrics) list \<Rightarrow> (string \<times> string \<times> mval) list" where
  "csv_rows results = concat (map (\<lambda>(name, s). map (\<lambda>k. (name, k, dict_get s k)) TABLE_KEYS) results)"

section \<open>Prefix sensitivity\<close>

text \<open>The value of a row: a number, or the name of a preset of sharing layers.\<close>

datatype row_value = V_num rat | V_preset string

record sensitivity_row =
  row_axis :: string
  row_value :: row_value
  row_hit :: rat
  row_rr_hit :: rat
  row_is_baseline :: bool

definition SHARING_PRESETS :: "(string \<times> (rat \<times> rat) list) list" where
  "SHARING_PRESETS =
     [(''all_private'', [(1, 0)]), (''mixed'', [(2 / 10, 5 / 10), (5 / 10, 25 / 100), (3 / 10, 0)]),
      (''heavy_shared'', [(4 / 10, 75 / 100), (4 / 10, 5 / 10), (2 / 10, 0)])]"

definition override :: "(prefix_synthesis_config \<Rightarrow> prefix_synthesis_config) \<Rightarrow> nano_kv_config \<Rightarrow> nano_kv_config" where
  "override f cfg = cfg_trace_update (map_option (prefix_synthesis_update (map_option f))) cfg"

definition run_with_override ::
  "runner \<Rightarrow> nano_kv_config \<Rightarrow> string \<Rightarrow> (prefix_synthesis_config \<Rightarrow> prefix_synthesis_config) \<Rightarrow> rat result" where
  "run_with_override rn cfg name f =
     map_sum id (\<lambda>s. case dict_get s ''cache_hit_ratio'' of M_num r \<Rightarrow> r | _ \<Rightarrow> 0) (run_metrics rn (override f cfg) name)"

text \<open>Both runs of a row.\<close>

definition both_hits ::
  "runner \<Rightarrow> nano_kv_config \<Rightarrow> string \<Rightarrow> (prefix_synthesis_config \<Rightarrow> prefix_synthesis_config) \<Rightarrow> (rat \<times> rat) result" where
  "both_hits rn cfg name f =
     (case run_with_override rn cfg name f of Inl e \<Rightarrow> Inl e | Inr h \<Rightarrow>
      (case run_with_override rn cfg ''round_robin'' f of Inl e \<Rightarrow> Inl e | Inr r \<Rightarrow> Inr (h, r)))"

definition axis_points :: "prefix_synthesis_config \<Rightarrow>
    (string \<times> row_value \<times> (prefix_synthesis_config \<Rightarrow> prefix_synthesis_config) \<times> bool \<times> bool) list" where
  "axis_points ps =
     map (\<lambda>v. (''zipf_alpha'', V_num v, zipf_alpha_update (\<lambda>_. v), v = zipf_alpha ps, v = zipf_alpha ps)) [1 / 2, 1, 3 / 2] @
     map (\<lambda>v. (''p_local'', V_num v, p_local_update (\<lambda>_. v), \<bar>v - p_local ps\<bar> < 1 / 10 ^ 9, \<bar>v - p_local ps\<bar> < 1 / 10 ^ 9))
       [0, 3 / 10, 6 / 10, 9 / 10] @
     map (\<lambda>v. (''num_buckets'', V_num (of_nat v), num_buckets_update (\<lambda>_. v), v = num_buckets ps, v = num_buckets ps)) [16, 64, 256] @
     map (\<lambda>(n, ls). (''sharing'', V_preset n, sharing_layers_update (\<lambda>_. ls), ls = sharing_layers ps \<or> n = ''mixed'', False))
       SHARING_PRESETS"

section \<open>What a command produces\<close>

text \<open>
  The lines and tables printed to the console and the files written, as values, in the order they are produced. The
  cells of a table hold the values the code formats. A command runs in the state of what it has produced so far,
  which stays when an exception ends it.
\<close>

type_synonym csv_candidate_row =
  "string \<times> string \<times> string \<times> rat \<times> rat \<times> (string \<times> mval \<times> mval \<times> mval \<times> mval) \<times> bool \<times> bool"

datatype cli_output =
    Say string
  | Say_point string row_value
  | Single_table string "(string \<times> mval) list"
  | Comparison_table "(string \<times> mval list) list"
  | Sensitivity_table nat nat "(string \<times> string \<times> rat \<times> rat \<times> string list \<times> string \<times> string) list"
  | Synthesis_table string string "(string \<times> row_value \<times> bool \<times> rat \<times> rat option) list"
  | Say_reference rat
  | Csv_results string "(string \<times> string \<times> mval) list"
  | Json_results string "(string \<times> metrics) list"
  | Csv_sensitivity string "csv_candidate_row list"
  | Json_sensitivity string string "experiment_report list" nat nat
  | Json_synthesis string string string "(sensitivity_row \<times> rat option) list" rat

type_synonym 'a command = "(cli_output list, 'a) py"

definition produce :: "cli_output \<Rightarrow> unit command" where
  "produce x s = (Inr (), s @ [x])"

definition running :: "string \<Rightarrow> string" where
  "running what = ''[dim]running '' @ what @ ''...[/dim]''"

text \<open>\<open>_run_sensitivity_report\<close>: the experiments in turn, and the numbers of fields that passed and of all.\<close>

fun run_experiments ::
  "runner \<Rightarrow> (string \<Rightarrow> nano_kv_config result) \<Rightarrow> sensitivity_experiment list \<Rightarrow> experiment_report list command" where
  "run_experiments rn load [] = py_return []"
| "run_experiments rn load (ex # exs) =
     py_bind (produce (Say (running (''sensitivity '' @ ex_field ex @ '' ('' @ ex_base_config ex @ '', '' @ ex_scheduler ex @ '')'')))) (\<lambda>_.
     py_bind (py_of (run_sensitivity_experiment rn load ex)) (\<lambda>r.
     py_bind (run_experiments rn load exs) (\<lambda>rs. py_return (r # rs))))"

definition passed_fields :: "experiment_report list \<Rightarrow> nat" where
  "passed_fields rs = length (filter er_changed rs)"

text \<open>The loop of \<open>cmd_sweep\<close>: every scheduler in turn on the same configuration.\<close>

fun run_schedulers :: "runner \<Rightarrow> nano_kv_config \<Rightarrow> string list \<Rightarrow> (string \<times> metrics) list command" where
  "run_schedulers rn cfg [] = py_return []"
| "run_schedulers rn cfg (name # names) =
     py_bind (produce (Say (running name))) (\<lambda>_.
     py_bind (py_of (run_metrics rn cfg name)) (\<lambda>s.
     py_bind (run_schedulers rn cfg names) (\<lambda>rs. py_return ((name, s) # rs))))"

text \<open>The rows of the prefix-sensitivity table: the baseline values are reused or both schedulers are run.\<close>

fun table_rows ::
  "runner \<Rightarrow> nano_kv_config \<Rightarrow> string \<Rightarrow> rat \<times> rat \<Rightarrow>
   (string \<times> row_value \<times> (prefix_synthesis_config \<Rightarrow> prefix_synthesis_config) \<times> bool \<times> bool) list \<Rightarrow> sensitivity_row list command" where
  "table_rows rn cfg name base [] = py_return []"
| "table_rows rn cfg name base ((axis, v, f, is_base, reuse) # points) =
     py_bind (if reuse then py_return base
              else py_bind (produce (Say_point axis v)) (\<lambda>_. py_of (both_hits rn cfg name f))) (\<lambda>(h, r).
     py_bind (table_rows rn cfg name base points) (\<lambda>rows.
     py_return (\<lparr>row_axis = axis, row_value = v, row_hit = h, row_rr_hit = r, row_is_baseline = is_base\<rparr> # rows)))"

text \<open>The computation of \<open>cmd_prefix_sensitivity\<close>, from its checks to the rows of its table.\<close>

definition synthesis_section :: "nano_kv_config \<Rightarrow> prefix_synthesis_config result" where
  "synthesis_section cfg =
     (case cfg_trace cfg of None \<Rightarrow> Inl SystemExit | Some tc \<Rightarrow>
       if tr_prefix_mode tc \<noteq> Mode_synthesis then Inl SystemExit
       else case prefix_synthesis tc of None \<Rightarrow> Inl SystemExit | Some ps \<Rightarrow> Inr ps)"

definition prefix_sensitivity :: "runner \<Rightarrow> nano_kv_config \<Rightarrow> string \<Rightarrow> sensitivity_row list command" where
  "prefix_sensitivity rn cfg name =
     py_bind (py_of (synthesis_section cfg)) (\<lambda>ps.
     py_bind (produce (Say (running (''baseline ('' @ name @ '')'')))) (\<lambda>_.
     py_bind (py_of (run_with_override rn cfg name id)) (\<lambda>h.
     py_bind (produce (Say (running ''round_robin baseline for uplift''))) (\<lambda>_.
     py_bind (py_of (run_with_override rn cfg ''round_robin'' id)) (\<lambda>r.
     table_rows rn cfg name (h, r) (axis_points ps))))))"

definition uplift_vs_rr :: "rat \<Rightarrow> rat \<Rightarrow> rat option" where
  "uplift_vs_rr hit rr = (if rr = 0 then None else Some ((hit - rr) / rr * 100))"

end
