(* ===== verification/Config_Loader.thy ===== *)
theory Config_Loader
  imports Workload_Config
begin

text \<open>
  The rest of \<open>config.py\<close>: the class declarations Pydantic reads (each field with its type, its default
  and its constraints, in the order of the source) as data, and the two loaders. Reading a file,
  \<open>yaml.safe_load\<close> and Pydantic's \<open>model_validate\<close> are not part of the repository: they are parameters, and
  \<open>validates_as_documented\<close> states what the code relies on. How a scalar of another type is coerced is
  left open. A YAML document is a value of \<open>yaml\<close>, and so is a validated model (its fields in order).
\<close>

section \<open>Documents and class declarations\<close>

datatype yaml =
    Y_null | Y_bool bool | Y_int int | Y_float rat | Y_str string | Y_list "yaml list" | Y_map "(string \<times> yaml) list"

text \<open>The constraints of \<open>Field(...)\<close>, and the custom validator of one field.\<close>

datatype constraint = C_ge rat | C_gt rat | C_le rat | C_min_length nat | C_sharing_layers

datatype field_type =
    T_int | T_float | T_number | T_str | T_any_dict | T_literal "string list" | T_list field_type
  | T_pair field_type field_type | T_optional field_type | T_model "field_decl list"
and field_decl = Field (fd_name: string) (fd_type: field_type) (fd_constraints: "constraint list") (fd_default: "yaml option")

definition number_of :: "yaml \<Rightarrow> rat option" where
  "number_of v = (case v of Y_int i \<Rightarrow> Some (of_int i) | Y_float r \<Rightarrow> Some r | _ \<Rightarrow> None)"

definition pair_of :: "yaml \<Rightarrow> (rat \<times> rat) option" where
  "pair_of v = (case v of Y_list [Y_float p, Y_float r] \<Rightarrow> Some (p, r) | _ \<Rightarrow> None)"

definition layers_of :: "yaml \<Rightarrow> (rat \<times> rat) list option" where
  "layers_of v = (case v of Y_list vs \<Rightarrow> those (map pair_of vs) | _ \<Rightarrow> None)"

definition holds :: "constraint \<Rightarrow> yaml \<Rightarrow> bool" where
  "holds c v = (case c of
      C_ge b \<Rightarrow> (case number_of v of None \<Rightarrow> True | Some x \<Rightarrow> b \<le> x)
    | C_gt b \<Rightarrow> (case number_of v of None \<Rightarrow> True | Some x \<Rightarrow> b < x)
    | C_le b \<Rightarrow> (case number_of v of None \<Rightarrow> True | Some x \<Rightarrow> x \<le> b)
    | C_min_length n \<Rightarrow> (case v of Y_str s \<Rightarrow> n \<le> length s | Y_list vs \<Rightarrow> n \<le> length vs | _ \<Rightarrow> True)
    | C_sharing_layers \<Rightarrow> (case layers_of v of None \<Rightarrow> False | Some ls \<Rightarrow> validate_sharing_layers ls = Inr ls))"

text \<open>The instance of a model whose fields are all left to their defaults (\<open>default_factory=Cls\<close>).\<close>

definition model_defaults :: "field_decl list \<Rightarrow> yaml" where
  "model_defaults fs = Y_map (map (\<lambda>f. (fd_name f, case fd_default f of None \<Rightarrow> Y_null | Some v \<Rightarrow> v)) fs)"

definition sub_model :: "string \<Rightarrow> field_decl list \<Rightarrow> field_decl" where
  "sub_model name fs = Field name (T_model fs) [] (Some (model_defaults fs))"

section \<open>The classes of \<open>config.py\<close>\<close>

definition cluster_fields :: "field_decl list" where
  "cluster_fields =
     [Field ''prefill_nodes'' T_int [C_ge 1] (Some (Y_int 4)), Field ''decode_nodes'' T_int [C_ge 1] (Some (Y_int 4))]"

definition node_fields :: "field_decl list" where
  "node_fields =
     [Field ''gpu_blocks'' T_int [C_ge 0] (Some (Y_int 2000)), Field ''cpu_blocks'' T_int [C_ge 0] (Some (Y_int 10000)),
      Field ''disk_blocks'' T_int [C_ge 0] (Some (Y_int 100000)), Field ''capacity'' T_int [C_ge 1] (Some (Y_int 32))]"

definition model_fields :: "field_decl list" where
  "model_fields =
     [Field ''block_size'' T_int [C_ge 1] (Some (Y_int 16)), Field ''kv_bytes_per_token'' T_int [C_ge 1] (Some (Y_int 512)),
      Field ''prefill_cost_per_token_ms'' T_float [C_gt 0] (Some (Y_float (33 / 1000))),
      Field ''decode_base_ms'' T_float [C_gt 0] (Some (Y_float 5)),
      Field ''marginal_decode_ms'' T_float [C_gt 0] (Some (Y_float (1 / 2))),
      Field ''prefill_chunk_size'' T_int [C_ge 1] (Some (Y_int 512))]"

definition bandwidth_fields :: "field_decl list" where
  "bandwidth_fields =
     [Field ''gpu_to_gpu'' T_float [C_gt 0] (Some (Y_float 300000000000)),
      Field ''gpu_to_cpu'' T_float [C_gt 0] (Some (Y_float 32000000000)),
      Field ''cpu_to_disk'' T_float [C_gt 0] (Some (Y_float 5000000000)),
      Field ''contention_model'' (T_literal [''none'', ''per_node_lane'']) [] (Some (Y_str ''none''))]"

definition slo_fields :: "field_decl list" where
  "slo_fields =
     [Field ''ttft_target_ms'' T_float [C_gt 0] (Some (Y_float 2000)), Field ''tbt_target_ms'' T_float [C_gt 0] (Some (Y_float 100))]"

definition workload_fields :: "field_decl list" where
  "workload_fields =
     [Field ''request_rate'' T_float [C_gt 0] (Some (Y_float 50)), Field ''duration_s'' T_float [C_gt 0] (Some (Y_float 60)),
      Field ''prefix_sharing_ratio'' T_float [C_ge 0, C_le 1] (Some (Y_float (6 / 10))),
      Field ''avg_prompt_len'' T_int [C_ge 1] (Some (Y_int 1024)), Field ''avg_output_len'' T_int [C_ge 1] (Some (Y_int 256))]"

definition scheduler_fields :: "field_decl list" where
  "scheduler_fields =
     [Field ''name'' T_str [] (Some (Y_str ''round_robin'')), Field ''params'' T_any_dict [] (Some (Y_map []))]"

definition generator_fields :: "field_decl list" where
  "generator_fields =
     [Field ''num_buckets'' T_int [C_ge 1] (Some (Y_int 10)), Field ''vocab_size'' T_int [C_ge 1] (Some (Y_int 32000)),
      Field ''seed'' T_int [] (Some (Y_int 42))]"

definition synthesis_fields :: "field_decl list" where
  "synthesis_fields =
     [Field ''num_buckets'' T_int [C_ge 1] (Some (Y_int 64)), Field ''zipf_alpha'' T_float [C_gt 0] (Some (Y_float 1)),
      Field ''p_local'' T_float [C_ge 0, C_le 1] (Some (Y_float (6 / 10))),
      Field ''local_window_s'' T_float [C_gt 0] (Some (Y_float 60)),
      Field ''sharing_layers'' (T_list (T_pair T_float T_float)) [C_min_length 1, C_sharing_layers]
        (Some (Y_list [Y_list [Y_float (2 / 10), Y_float (5 / 10)], Y_list [Y_float (5 / 10), Y_float (25 / 100)],
                       Y_list [Y_float (3 / 10), Y_float 0]])),
      Field ''seed'' T_int [] (Some (Y_int 42))]"

definition trace_fields :: "field_decl list" where
  "trace_fields =
     [Field ''path'' T_str [C_min_length 1] None, Field ''speedup'' T_float [C_gt 0] (Some (Y_float 1)),
      Field ''max_requests'' (T_optional T_int) [C_ge 1] (Some Y_null),
      Field ''prefix_mode'' (T_literal [''none'', ''hash_ids'', ''synthesis'']) [] (Some (Y_str ''hash_ids'')),
      Field ''prefix_synthesis'' (T_optional (T_model synthesis_fields)) [] (Some Y_null)]"

definition nano_kv_fields :: "field_decl list" where
  "nano_kv_fields =
     [sub_model ''cluster'' cluster_fields, sub_model ''node'' node_fields, sub_model ''model'' model_fields,
      sub_model ''bandwidth'' bandwidth_fields, sub_model ''slo'' slo_fields, sub_model ''workload'' workload_fields,
      sub_model ''scheduler'' scheduler_fields, sub_model ''generator'' generator_fields,
      Field ''trace'' (T_optional (T_model trace_fields)) [] (Some Y_null)]"

definition experiment_fields :: "field_decl list" where
  "experiment_fields =
     [Field ''field'' T_str [C_min_length 1] None, Field ''base_config'' T_str [C_min_length 1] None,
      Field ''scheduler'' T_str [C_min_length 1] None, Field ''values'' (T_list T_number) [C_min_length 1] None,
      Field ''primary_metrics'' (T_list T_str) [C_min_length 1] None, Field ''note'' (T_optional T_str) [] (Some Y_null)]"

definition sensitivity_fields :: "field_decl list" where
  "sensitivity_fields = [Field ''experiments'' (T_list (T_model experiment_fields)) [C_min_length 1] None]"

section \<open>What \<open>model_validate\<close> is relied on for\<close>

text \<open>
  \<open>parsed t y v\<close>: the document \<open>y\<close> may be accepted at type \<open>t\<close> as \<open>v\<close>. A model accepts no key it does not
  declare (\<open>extra="forbid"\<close>); a field that is absent takes its default, unchecked, and must have one; a field
  that is present is converted to its type and meets its constraints.
\<close>

inductive parsed :: "field_type \<Rightarrow> yaml \<Rightarrow> yaml \<Rightarrow> bool"
  and parsed_fields :: "(string \<times> yaml) list \<Rightarrow> field_decl list \<Rightarrow> (string \<times> yaml) list \<Rightarrow> bool"
where
  parsed_int: "parsed T_int y (Y_int i)"
| parsed_float: "parsed T_float y (Y_float r)"
| parsed_number_int: "parsed T_number y (Y_int i)"
| parsed_number_float: "parsed T_number y (Y_float r)"
| parsed_str: "parsed T_str y (Y_str s)"
| parsed_any_dict: "parsed T_any_dict (Y_map kvs) (Y_map kvs)"
| parsed_literal: "s \<in> set ls \<Longrightarrow> parsed (T_literal ls) (Y_str s) (Y_str s)"
| parsed_list: "list_all2 (parsed t) ys vs \<Longrightarrow> parsed (T_list t) (Y_list ys) (Y_list vs)"
| parsed_pair: "parsed t y v \<Longrightarrow> parsed u z w \<Longrightarrow> parsed (T_pair t u) (Y_list [y, z]) (Y_list [v, w])"
| parsed_none: "parsed (T_optional t) Y_null Y_null"
| parsed_some: "y \<noteq> Y_null \<Longrightarrow> parsed t y v \<Longrightarrow> parsed (T_optional t) y v"
| parsed_model: "set (map fst kvs) \<subseteq> set (map fd_name fs) \<Longrightarrow> parsed_fields kvs fs out \<Longrightarrow> parsed (T_model fs) (Y_map kvs) (Y_map out)"
| parsed_no_field: "parsed_fields kvs [] []"
| parsed_present: "map_of kvs (fd_name f) = Some y \<Longrightarrow> parsed (fd_type f) y v \<Longrightarrow> \<forall>c \<in> set (fd_constraints f). holds c v \<Longrightarrow>
    parsed_fields kvs fs out \<Longrightarrow> parsed_fields kvs (f # fs) ((fd_name f, v) # out)"
| parsed_absent: "map_of kvs (fd_name f) = None \<Longrightarrow> fd_default f = Some v \<Longrightarrow>
    parsed_fields kvs fs out \<Longrightarrow> parsed_fields kvs (f # fs) ((fd_name f, v) # out)"

text \<open>
  The documents whose scalars have the declared types, read without any coercion (an integer is a valid
  \<open>float\<close>): these are accepted as they stand.
\<close>

fun strict :: "field_type \<Rightarrow> yaml \<Rightarrow> yaml option"
  and strict_fields :: "(string \<times> yaml) list \<Rightarrow> field_decl list \<Rightarrow> (string \<times> yaml) list option"
where
  "strict T_int y = (case y of Y_int i \<Rightarrow> Some y | _ \<Rightarrow> None)"
| "strict T_float y = map_option Y_float (number_of y)"
| "strict T_number y = (case number_of y of None \<Rightarrow> None | Some _ \<Rightarrow> Some y)"
| "strict T_str y = (case y of Y_str s \<Rightarrow> Some y | _ \<Rightarrow> None)"
| "strict T_any_dict y = (case y of Y_map kvs \<Rightarrow> Some y | _ \<Rightarrow> None)"
| "strict (T_literal ls) y = (case y of Y_str s \<Rightarrow> if s \<in> set ls then Some y else None | _ \<Rightarrow> None)"
| "strict (T_list t) y = (case y of Y_list ys \<Rightarrow> map_option Y_list (those (map (strict t) ys)) | _ \<Rightarrow> None)"
| "strict (T_pair t u) y = (case y of Y_list [a, b] \<Rightarrow>
     (case (strict t a, strict u b) of (Some v, Some w) \<Rightarrow> Some (Y_list [v, w]) | _ \<Rightarrow> None) | _ \<Rightarrow> None)"
| "strict (T_optional t) y = (if y = Y_null then Some Y_null else strict t y)"
| "strict (T_model fs) y = (case y of Y_map kvs \<Rightarrow>
     if set (map fst kvs) \<subseteq> set (map fd_name fs) then map_option Y_map (strict_fields kvs fs) else None | _ \<Rightarrow> None)"
| "strict_fields kvs [] = Some []"
| "strict_fields kvs (Field n t cs d # fs) =
     (case strict_fields kvs fs of None \<Rightarrow> None | Some out \<Rightarrow>
       (case map_of kvs n of
          None \<Rightarrow> (case d of None \<Rightarrow> None | Some v \<Rightarrow> Some ((n, v) # out))
        | Some y \<Rightarrow> (case strict t y of None \<Rightarrow> None
                     | Some v \<Rightarrow> if \<forall>c \<in> set cs. holds c v then Some ((n, v) # out) else None)))"

type_synonym validator = "field_decl list \<Rightarrow> yaml \<Rightarrow> yaml result"

definition validates_as_documented :: "validator \<Rightarrow> bool" where
  "validates_as_documented validate \<longleftrightarrow>
     (\<forall>fs y v. validate fs y = Inr v \<longrightarrow> parsed (T_model fs) y v) \<and>
     (\<forall>fs y v. strict (T_model fs) y = Some v \<longrightarrow> validate fs y = Inr v)"

section \<open>Attributes of a validated model\<close>

definition attr :: "yaml \<Rightarrow> string \<Rightarrow> yaml" where
  "attr v n = (case v of Y_map kvs \<Rightarrow> (case map_of kvs n of None \<Rightarrow> Y_null | Some x \<Rightarrow> x) | _ \<Rightarrow> Y_null)"

definition int_attr :: "yaml \<Rightarrow> string \<Rightarrow> int option" where
  "int_attr v n = (case attr v n of Y_int i \<Rightarrow> Some i | _ \<Rightarrow> None)"

definition float_attr :: "yaml \<Rightarrow> string \<Rightarrow> rat option" where
  "float_attr v n = (case attr v n of Y_float r \<Rightarrow> Some r | _ \<Rightarrow> None)"

definition str_attr :: "yaml \<Rightarrow> string \<Rightarrow> string option" where
  "str_attr v n = (case attr v n of Y_str s \<Rightarrow> Some s | _ \<Rightarrow> None)"

text \<open>The records of the development, read from the attributes.\<close>

definition cluster_of :: "yaml \<Rightarrow> cluster_config option" where
  "cluster_of v = (case (int_attr v ''prefill_nodes'', int_attr v ''decode_nodes'') of
      (Some p, Some d) \<Rightarrow> Some \<lparr>cl_prefill_nodes = nat p, cl_decode_nodes = nat d\<rparr> | _ \<Rightarrow> None)"

definition node_of :: "yaml \<Rightarrow> node_config option" where
  "node_of v = (case (int_attr v ''gpu_blocks'', int_attr v ''cpu_blocks'', int_attr v ''disk_blocks'', int_attr v ''capacity'') of
      (Some g, Some c, Some d, Some k) \<Rightarrow> Some \<lparr>gpu_blocks = nat g, cpu_blocks = nat c, disk_blocks = nat d, capacity = nat k\<rparr>
    | _ \<Rightarrow> None)"

definition model_of :: "yaml \<Rightarrow> model_config option" where
  "model_of v = (case (int_attr v ''block_size'', int_attr v ''kv_bytes_per_token'', float_attr v ''prefill_cost_per_token_ms'',
        float_attr v ''decode_base_ms'', float_attr v ''marginal_decode_ms'', int_attr v ''prefill_chunk_size'') of
      (Some b, Some k, Some p, Some d, Some m, Some c) \<Rightarrow>
        Some \<lparr>block_size = nat b, kv_bytes_per_token = nat k, prefill_cost_per_token_ms = p, decode_base_ms = d,
              marginal_decode_ms = m, prefill_chunk_size = nat c\<rparr>
    | _ \<Rightarrow> None)"

definition contention_of :: "string \<Rightarrow> contention" where
  "contention_of s = (if s = ''per_node_lane'' then Contention_per_node_lane else Contention_none)"

definition bandwidth_of :: "yaml \<Rightarrow> bandwidth_config option" where
  "bandwidth_of v = (case (float_attr v ''gpu_to_gpu'', float_attr v ''gpu_to_cpu'', float_attr v ''cpu_to_disk'', str_attr v ''contention_model'') of
      (Some g, Some c, Some d, Some m) \<Rightarrow>
        Some \<lparr>gpu_to_gpu = g, gpu_to_cpu = c, cpu_to_disk = d, contention_model = contention_of m\<rparr>
    | _ \<Rightarrow> None)"

definition slo_of :: "yaml \<Rightarrow> slo_config option" where
  "slo_of v = (case (float_attr v ''ttft_target_ms'', float_attr v ''tbt_target_ms'') of
      (Some a, Some b) \<Rightarrow> Some \<lparr>ttft_target_ms = a, tbt_target_ms = b\<rparr> | _ \<Rightarrow> None)"

definition workload_of :: "yaml \<Rightarrow> workload_config option" where
  "workload_of v = (case (float_attr v ''request_rate'', float_attr v ''duration_s'', float_attr v ''prefix_sharing_ratio'',
        int_attr v ''avg_prompt_len'', int_attr v ''avg_output_len'') of
      (Some r, Some d, Some s, Some p, Some q) \<Rightarrow>
        Some \<lparr>request_rate = r, duration_s = d, prefix_sharing_ratio = s, avg_prompt_len = nat p, avg_output_len = nat q\<rparr>
    | _ \<Rightarrow> None)"

text \<open>\<open>params\<close> is an open dictionary; the record holds numbers, as \<open>_build_scheduler\<close> reads them.\<close>

definition numeric_params :: "yaml \<Rightarrow> bool" where
  "numeric_params v = (case attr (attr v ''scheduler'') ''params'' of
      Y_map kvs \<Rightarrow> list_all (\<lambda>(k, x). number_of x \<noteq> None) kvs | _ \<Rightarrow> True)"

definition scheduler_of :: "yaml \<Rightarrow> scheduler_config option" where
  "scheduler_of v = (case (str_attr v ''name'', attr v ''params'') of
      (Some n, Y_map kvs) \<Rightarrow>
        if list_all (\<lambda>(k, x). number_of x \<noteq> None) kvs
        then Some \<lparr>sc_name = n, sc_params = (\<lambda>k. Option.bind (map_of kvs k) number_of)\<rparr> else None
    | _ \<Rightarrow> None)"

definition generator_of :: "yaml \<Rightarrow> generator_config option" where
  "generator_of v = (case (int_attr v ''num_buckets'', int_attr v ''vocab_size'', int_attr v ''seed'') of
      (Some n, Some k, Some s) \<Rightarrow> Some \<lparr>gen_num_buckets = nat n, vocab_size = nat k, gen_seed = s\<rparr> | _ \<Rightarrow> None)"

definition synthesis_of :: "yaml \<Rightarrow> prefix_synthesis_config option" where
  "synthesis_of v = (case (int_attr v ''num_buckets'', float_attr v ''zipf_alpha'', float_attr v ''p_local'', float_attr v ''local_window_s'',
        layers_of (attr v ''sharing_layers''), int_attr v ''seed'') of
      (Some n, Some z, Some p, Some w, Some ls, Some s) \<Rightarrow>
        Some \<lparr>num_buckets = nat n, zipf_alpha = z, p_local = p, local_window_s = w, sharing_layers = ls, ps_seed = s\<rparr>
    | _ \<Rightarrow> None)"

definition mode_of :: "string \<Rightarrow> prefix_mode" where
  "mode_of s = (if s = ''synthesis'' then Mode_synthesis else if s = ''hash_ids'' then Mode_hash_ids else Mode_none)"

text \<open>An attribute that may be \<open>None\<close>.\<close>

definition optional :: "(yaml \<Rightarrow> 'a option) \<Rightarrow> yaml \<Rightarrow> 'a option option" where
  "optional f v = (if v = Y_null then Some None else map_option Some (f v))"

definition trace_of :: "yaml \<Rightarrow> trace_config option" where
  "trace_of v = (case (str_attr v ''path'', float_attr v ''speedup'',
        optional (\<lambda>x. case x of Y_int i \<Rightarrow> Some (nat i) | _ \<Rightarrow> None) (attr v ''max_requests''), str_attr v ''prefix_mode'',
        optional synthesis_of (attr v ''prefix_synthesis'')) of
      (Some p, Some s, Some m, Some md, Some ps) \<Rightarrow>
        Some \<lparr>tr_path = p, speedup = s, max_requests = m, tr_prefix_mode = mode_of md, prefix_synthesis = ps\<rparr>
    | _ \<Rightarrow> None)"

definition config_of :: "yaml \<Rightarrow> nano_kv_config option" where
  "config_of v = (case (cluster_of (attr v ''cluster''), node_of (attr v ''node''), model_of (attr v ''model''),
        bandwidth_of (attr v ''bandwidth''), slo_of (attr v ''slo''), workload_of (attr v ''workload''),
        scheduler_of (attr v ''scheduler''), generator_of (attr v ''generator''), optional trace_of (attr v ''trace'')) of
      (Some cl, Some nd, Some md, Some bw, Some sl, Some wl, Some sc, Some gn, Some tr) \<Rightarrow>
        Some \<lparr>cfg_cluster = cl, cfg_node = nd, cfg_model = md, cfg_bandwidth = bw, cfg_slo = sl, cfg_workload = wl,
              cfg_scheduler = sc, cfg_generator = gn, cfg_trace = tr\<rparr>
    | _ \<Rightarrow> None)"

section \<open>The loaders\<close>

text \<open>What the loaders take from outside: the text of a file, the YAML parser, and Pydantic.\<close>

record config_io =
  io_read_text :: "string \<Rightarrow> string result"
  io_safe_load :: "string \<Rightarrow> yaml result"
  io_validate :: validator

text \<open>\<open>data or {}\<close>: every falsy document counts as an empty mapping.\<close>

definition or_empty :: "yaml \<Rightarrow> yaml" where
  "or_empty y = (if y \<in> {Y_null, Y_bool False, Y_int 0, Y_float 0, Y_str '''', Y_list [], Y_map []} then Y_map [] else y)"

definition load_model :: "config_io \<Rightarrow> field_decl list \<Rightarrow> string \<Rightarrow> yaml result" where
  "load_model io fs path =
     (case io_read_text io path of Inl e \<Rightarrow> Inl e | Inr raw \<Rightarrow>
      (case io_safe_load io raw of Inl e \<Rightarrow> Inl e | Inr data \<Rightarrow> io_validate io fs (or_empty data)))"

text \<open>\<open>HeapFault\<close> marks a \<open>params\<close> entry that is not a number, which the record cannot hold.\<close>

definition load_config :: "config_io \<Rightarrow> string \<Rightarrow> nano_kv_config result" where
  "load_config io path =
     (case load_model io nano_kv_fields path of Inl e \<Rightarrow> Inl e | Inr v \<Rightarrow>
      (case config_of v of None \<Rightarrow> Inl HeapFault | Some cfg \<Rightarrow> Inr cfg))"

definition strings_of :: "yaml \<Rightarrow> string list option" where
  "strings_of v = (case v of Y_list vs \<Rightarrow> those (map (\<lambda>x. case x of Y_str s \<Rightarrow> Some s | _ \<Rightarrow> None) vs) | _ \<Rightarrow> None)"

definition numbers_of :: "yaml \<Rightarrow> rat list option" where
  "numbers_of v = (case v of Y_list vs \<Rightarrow> those (map number_of vs) | _ \<Rightarrow> None)"

definition experiment_of :: "yaml \<Rightarrow> sensitivity_experiment option" where
  "experiment_of v = (case (str_attr v ''field'', str_attr v ''base_config'', str_attr v ''scheduler'', numbers_of (attr v ''values''),
        strings_of (attr v ''primary_metrics''), optional (\<lambda>x. case x of Y_str s \<Rightarrow> Some s | _ \<Rightarrow> None) (attr v ''note'')) of
      (Some f, Some b, Some s, Some vs, Some ms, Some n) \<Rightarrow>
        Some \<lparr>ex_field = f, ex_base_config = b, ex_scheduler = s, ex_values = vs, ex_primary_metrics = ms, ex_note = n\<rparr>
    | _ \<Rightarrow> None)"

definition experiments_of :: "yaml \<Rightarrow> sensitivity_experiment list option" where
  "experiments_of v = (case attr v ''experiments'' of Y_list vs \<Rightarrow> those (map experiment_of vs) | _ \<Rightarrow> None)"

definition load_sensitivity_config :: "config_io \<Rightarrow> string \<Rightarrow> sensitivity_experiment list result" where
  "load_sensitivity_config io path =
     (case load_model io sensitivity_fields path of Inl e \<Rightarrow> Inl e | Inr v \<Rightarrow>
      (case experiments_of v of None \<Rightarrow> Inl HeapFault | Some exs \<Rightarrow> Inr exs))"

section \<open>What a validated model holds\<close>

text \<open>The values of a type, and the declarations whose defaults have the type and the constraints of their field.\<close>

fun typed :: "field_type \<Rightarrow> yaml \<Rightarrow> bool"
  and typed_fields :: "field_decl list \<Rightarrow> (string \<times> yaml) list \<Rightarrow> bool"
where
  "typed T_int v = (case v of Y_int i \<Rightarrow> True | _ \<Rightarrow> False)"
| "typed T_float v = (case v of Y_float r \<Rightarrow> True | _ \<Rightarrow> False)"
| "typed T_number v = (number_of v \<noteq> None)"
| "typed T_str v = (case v of Y_str s \<Rightarrow> True | _ \<Rightarrow> False)"
| "typed T_any_dict v = (case v of Y_map kvs \<Rightarrow> True | _ \<Rightarrow> False)"
| "typed (T_literal ls) v = (case v of Y_str s \<Rightarrow> s \<in> set ls | _ \<Rightarrow> False)"
| "typed (T_list t) v = (case v of Y_list vs \<Rightarrow> list_all (typed t) vs | _ \<Rightarrow> False)"
| "typed (T_pair t u) v = (case v of Y_list [a, b] \<Rightarrow> typed t a \<and> typed u b | _ \<Rightarrow> False)"
| "typed (T_optional t) v = (v = Y_null \<or> typed t v)"
| "typed (T_model fs) v = (case v of Y_map kvs \<Rightarrow> typed_fields fs kvs | _ \<Rightarrow> False)"
| "typed_fields [] kvs = (kvs = [])"
| "typed_fields (Field n t cs d # fs) kvs =
     (case kvs of [] \<Rightarrow> False | (k, v) # out \<Rightarrow> k = n \<and> typed t v \<and> (\<forall>c \<in> set cs. holds c v) \<and> typed_fields fs out)"

fun well_declared :: "field_type \<Rightarrow> bool"
  and fields_declared :: "field_decl list \<Rightarrow> bool"
where
  "well_declared (T_list t) = well_declared t"
| "well_declared (T_pair t u) = (well_declared t \<and> well_declared u)"
| "well_declared (T_optional t) = well_declared t"
| "well_declared (T_model fs) = fields_declared fs"
| "well_declared t = True"
| "fields_declared [] = True"
| "fields_declared (Field n t cs d # fs) =
     (well_declared t \<and> (case d of None \<Rightarrow> True | Some v \<Rightarrow> typed t v \<and> (\<forall>c \<in> set cs. holds c v)) \<and> fields_declared fs)"

lemma parsed_typed:
  "parsed t y v \<Longrightarrow> well_declared t \<Longrightarrow> typed t v"
  "parsed_fields kvs fs out \<Longrightarrow> fields_declared fs \<Longrightarrow> typed_fields fs out"
proof (induction rule: parsed_parsed_fields.inducts)
  case (parsed_list t ys vs)
  then show ?case by (auto simp: list_all2_conv_all_nth list_all_length)
next
  case (parsed_present kvs f y v fs out)
  then show ?case by (cases f) simp
next
  case (parsed_absent kvs f v fs out)
  then show ?case by (cases f) simp
qed (simp_all add: number_of_def)

lemmas field_lists = cluster_fields_def node_fields_def model_fields_def bandwidth_fields_def slo_fields_def workload_fields_def
  scheduler_fields_def generator_fields_def synthesis_fields_def trace_fields_def

lemma declared: "fields_declared nano_kv_fields" "fields_declared sensitivity_fields"
  by (simp_all add: nano_kv_fields_def sub_model_def model_defaults_def field_lists holds_def number_of_def
      layers_of_def pair_of_def validate_sharing_layers_def sensitivity_fields_def experiment_fields_def)

lemma typed_scalars:
  "typed T_int v \<longleftrightarrow> (\<exists>i. v = Y_int i)" "typed T_float v \<longleftrightarrow> (\<exists>r. v = Y_float r)" "typed T_str v \<longleftrightarrow> (\<exists>s. v = Y_str s)"
  "typed T_any_dict v \<longleftrightarrow> (\<exists>kvs. v = Y_map kvs)" "typed (T_literal ls) v \<longleftrightarrow> (\<exists>s \<in> set ls. v = Y_str s)"
  by (auto split: yaml.splits)

lemma typed_model: "typed (T_model fs) v \<longleftrightarrow> (\<exists>kvs. v = Y_map kvs \<and> typed_fields fs kvs)"
  by (auto split: yaml.splits)

lemma typed_field_cons:
  "typed_fields (Field n t cs d # fs) kvs \<longleftrightarrow>
     (\<exists>v out. kvs = (n, v) # out \<and> typed t v \<and> (\<forall>c \<in> set cs. holds c v) \<and> typed_fields fs out)"
  by (auto split: list.splits)

lemma holds_number:
  "holds (C_ge b) (Y_int i) \<longleftrightarrow> b \<le> of_int i" "holds (C_ge b) (Y_float r) \<longleftrightarrow> b \<le> r" "holds (C_gt b) (Y_float r) \<longleftrightarrow> b < r"
  "holds (C_le b) (Y_float r) \<longleftrightarrow> r \<le> b"
  by (simp_all add: holds_def number_of_def)

lemmas typed_cases = typed_model typed_field_cons typed_scalars holds_number
lemmas reads = attr_def int_attr_def float_attr_def str_attr_def

declare typed.simps [simp del] typed_fields.simps(2) [simp del]

lemma sections_typed:
  "typed (T_model cluster_fields) v \<Longrightarrow> \<exists>c. cluster_of v = Some c \<and> cluster_config_ok c"
  "typed (T_model node_fields) v \<Longrightarrow> \<exists>c. node_of v = Some c \<and> node_config_ok c"
  "typed (T_model model_fields) v \<Longrightarrow> \<exists>c. model_of v = Some c \<and> model_config_ok c"
  "typed (T_model bandwidth_fields) v \<Longrightarrow> \<exists>c. bandwidth_of v = Some c \<and> bandwidth_config_ok c"
  "typed (T_model slo_fields) v \<Longrightarrow> \<exists>c. slo_of v = Some c \<and> slo_config_ok c"
  "typed (T_model workload_fields) v \<Longrightarrow> \<exists>c. workload_of v = Some c \<and> workload_config_ok c"
  "typed (T_model generator_fields) v \<Longrightarrow> \<exists>c. generator_of v = Some c \<and> generator_config_ok c"
  by (auto simp: field_lists typed_cases cluster_of_def node_of_def model_of_def bandwidth_of_def slo_of_def workload_of_def
      generator_of_def reads cluster_config_ok_def node_config_ok_def model_config_ok_def bandwidth_config_ok_def
      slo_config_ok_def workload_config_ok_def generator_config_ok_def le_nat_iff)

lemma scheduler_typed:
  assumes "typed (T_model scheduler_fields) v" "list_all (\<lambda>(k, x). number_of x \<noteq> None) (case attr v ''params'' of Y_map kvs \<Rightarrow> kvs | _ \<Rightarrow> [])"
  shows "\<exists>c. scheduler_of v = Some c"
  using assms by (auto simp: field_lists typed_cases scheduler_of_def reads)

lemma synthesis_typed:
  assumes "typed (T_model synthesis_fields) v"
  shows "\<exists>c. synthesis_of v = Some c \<and> prefix_synthesis_config_ok c"
proof -
  obtain n z p w ls s where v: "v = Y_map [(''num_buckets'', Y_int n), (''zipf_alpha'', Y_float z), (''p_local'', Y_float p),
        (''local_window_s'', Y_float w), (''sharing_layers'', ls), (''seed'', Y_int s)]"
      and h: "1 \<le> n" "0 < z" "0 \<le> p" "p \<le> 1" "0 < w" "holds C_sharing_layers ls"
    using assms by (auto simp: synthesis_fields_def typed_cases)
  obtain layers where "layers_of ls = Some layers" "validate_sharing_layers layers = Inr layers"
    using h(6) by (auto simp: holds_def split: option.splits)
  then show ?thesis using h(1-5) by (simp add: v synthesis_of_def reads prefix_synthesis_config_ok_def le_nat_iff)
qed

lemma optional_typed:
  assumes t: "typed (T_optional t) v" and f: "\<And>x. typed t x \<Longrightarrow> \<exists>c. f x = Some c \<and> P c"
  shows "\<exists>c. optional f v = Some c \<and> (case c of None \<Rightarrow> True | Some y \<Rightarrow> P y)"
proof (cases "v = Y_null")
  case False
  then obtain c where "f v = Some c" "P c" using t f by (auto simp: typed.simps(9))
  then show ?thesis using False by (simp add: optional_def)
qed (simp add: optional_def)

lemma trace_typed:
  assumes "typed (T_model trace_fields) v"
  shows "\<exists>c. trace_of v = Some c \<and> trace_config_ok c"
proof -
  obtain p s mx m ps where v: "v = Y_map [(''path'', Y_str p), (''speedup'', Y_float s), (''max_requests'', mx), (''prefix_mode'', Y_str m),
        (''prefix_synthesis'', ps)]" and h: "holds (C_min_length 1) (Y_str p)" "0 < s" "holds (C_ge 1) mx"
      and t: "typed (T_optional T_int) mx" "typed (T_optional (T_model synthesis_fields)) ps"
    using assms by (auto simp: trace_fields_def typed_cases)
  obtain c where c: "optional synthesis_of ps = Some c" "case c of None \<Rightarrow> True | Some y \<Rightarrow> prefix_synthesis_config_ok y"
    using optional_typed[where f = synthesis_of and P = prefix_synthesis_config_ok, OF t(2) synthesis_typed] by blast
  have "mx = Y_null \<or> (\<exists>i. mx = Y_int i \<and> 1 \<le> i)" using t(1) h(3) by (auto simp: typed.simps(9) typed_scalars holds_number)
  then obtain k where "optional (\<lambda>x. case x of Y_int i \<Rightarrow> Some (nat i) | _ \<Rightarrow> None) mx = Some k" "k \<noteq> Some 0"
    by (auto simp: optional_def)
  then show ?thesis using c h(1,2) by (auto simp: v trace_of_def reads trace_config_ok_def holds_def)
qed

lemma config_typed:
  assumes "typed (T_model nano_kv_fields) v" "numeric_params v"
  shows "\<exists>cfg. config_of v = Some cfg \<and> nano_kv_config_ok cfg"
proof -
  obtain cl nd md bw sl wl sc gn tr where v: "v = Y_map [(''cluster'', cl), (''node'', nd), (''model'', md), (''bandwidth'', bw),
        (''slo'', sl), (''workload'', wl), (''scheduler'', sc), (''generator'', gn), (''trace'', tr)]"
      and t: "typed (T_model cluster_fields) cl" "typed (T_model node_fields) nd" "typed (T_model model_fields) md"
        "typed (T_model bandwidth_fields) bw" "typed (T_model slo_fields) sl" "typed (T_model workload_fields) wl"
        "typed (T_model generator_fields) gn" "typed (T_model scheduler_fields) sc" "typed (T_optional (T_model trace_fields)) tr"
    using assms(1) by (auto simp: nano_kv_fields_def sub_model_def typed_model[of nano_kv_fields] typed_model[of "_ # _"] typed_field_cons)
  note S = sections_typed(1)[OF t(1)] sections_typed(2)[OF t(2)] sections_typed(3)[OF t(3)] sections_typed(4)[OF t(4)]
    sections_typed(5)[OF t(5)] sections_typed(6)[OF t(6)] sections_typed(7)[OF t(7)]
  have "attr v ''scheduler'' = sc" by (simp add: v attr_def)
  then obtain c where sc: "scheduler_of sc = Some c"
    using assms(2) scheduler_typed[OF t(8)] by (auto simp: numeric_params_def split: yaml.splits)
  obtain c' where "optional trace_of tr = Some c'" "case c' of None \<Rightarrow> True | Some y \<Rightarrow> trace_config_ok y"
    using optional_typed[where f = trace_of and P = trace_config_ok, OF t(9) trace_typed] by blast
  then show ?thesis using S sc by (auto simp: v config_of_def attr_def nano_kv_config_ok_def)
qed
end
