(* ===== verification/Commands.thy ===== *)
theory Commands
  imports Reports Config_Loader
begin

text \<open>
  The commands of \<open>cli.py\<close>: the resolution of the trace and base configuration paths, the tables and files, and
  \<open>cmd_run\<close>, \<open>cmd_sweep\<close>, \<open>cmd_sensitivity\<close>, \<open>cmd_prefix_sensitivity\<close> and \<open>main\<close>, each
  from its parsed arguments to what it prints and writes. The file system and \<open>argparse\<close> are parameters; \<open>_fmt\<close> is left out, and writing
  a file succeeds.
\<close>

section \<open>Paths\<close>

text \<open>\<open>pathlib\<close> on POSIX: a path is absolute or not and has components without empty ones and single dots.\<close>

record path =
  p_absolute :: bool
  p_parts :: "string list"

fun split_slash :: "string \<Rightarrow> string list" where
  "split_slash [] = [[]]"
| "split_slash (c # cs) = (if c = CHR ''/'' then [] # split_slash cs
     else case split_slash cs of [] \<Rightarrow> [[c]] | w # ws \<Rightarrow> (c # w) # ws)"

definition path_of :: "string \<Rightarrow> path" where
  "path_of s = \<lparr>p_absolute = (s \<noteq> [] \<and> hd s = CHR ''/''), p_parts = filter (\<lambda>w. w \<noteq> '''' \<and> w \<noteq> ''.'') (split_slash s)\<rparr>"

fun join_slash :: "string list \<Rightarrow> string" where
  "join_slash [] = []"
| "join_slash [w] = w"
| "join_slash (w # ws) = w @ CHR ''/'' # join_slash ws"

definition str_path :: "path \<Rightarrow> string" where
  "str_path p = (if p_absolute p then CHR ''/'' # join_slash (p_parts p)
     else if p_parts p = [] then ''.'' else join_slash (p_parts p))"

definition path_join :: "path \<Rightarrow> path \<Rightarrow> path" where
  "path_join p q = (if p_absolute q then q else p\<lparr>p_parts := p_parts p @ p_parts q\<rparr>)"

definition path_parent :: "path \<Rightarrow> path" where
  "path_parent p = p\<lparr>p_parts := butlast (p_parts p)\<rparr>"

definition path_name :: "path \<Rightarrow> string" where
  "path_name p = (if p_parts p = [] then '''' else last (p_parts p))"

record file_system =
  fs_resolve :: "path \<Rightarrow> path"
  fs_exists :: "path \<Rightarrow> bool"
  fs_cwd :: path

definition resolve_related_config_path :: "file_system \<Rightarrow> string \<Rightarrow> string \<Rightarrow> path" where
  "resolve_related_config_path fs config_path related_path =
     (let candidate = path_of related_path in
      if p_absolute candidate then candidate
      else let config_parent_candidate = path_join (path_parent (fs_resolve fs (path_of config_path))) candidate in
        if fs_exists fs config_parent_candidate then config_parent_candidate
        else let cwd_candidate = path_join (fs_cwd fs) candidate in
          if fs_exists fs cwd_candidate then cwd_candidate else config_parent_candidate)"

section \<open>Tables and files\<close>

definition single_table :: "metrics \<Rightarrow> string \<Rightarrow> cli_output" where
  "single_table s name = Single_table name (map (\<lambda>k. (k, dict_get s k)) TABLE_KEYS)"

definition comparison_table :: "(string \<times> metrics) list \<Rightarrow> cli_output" where
  "comparison_table results = Comparison_table (concat (map (\<lambda>name. case map_of results name of None \<Rightarrow> []
       | Some s \<Rightarrow> [(name, map (dict_get s) SWEEP_KEYS)]) SCHEDULER_NAMES))"

definition pass_fail :: "bool \<Rightarrow> string" where
  "pass_fail b = (if b then ''PASS'' else ''FAIL'')"

definition sensitivity_table :: "experiment_report list \<Rightarrow> cli_output" where
  "sensitivity_table rs = Sensitivity_table (passed_fields rs) (length rs)
     (concat (map (\<lambda>e. map (\<lambda>c. (er_field e, er_base_config e @ '' / '' @ er_scheduler e, cr_baseline_value c, cr_candidate_value c,
        cr_changed_metrics c, pass_fail (cr_changed c), pass_fail (er_changed e))) (er_candidates e)) rs))"

definition sensitivity_csv_rows :: "experiment_report list \<Rightarrow> csv_candidate_row list" where
  "sensitivity_csv_rows rs =
     concat (map (\<lambda>e. concat (map (\<lambda>c. map (\<lambda>m. (er_field e, er_base_config e, er_scheduler e, cr_baseline_value c,
       cr_candidate_value c, m, cr_changed c, er_changed e)) (csv_metric_rows c)) (er_candidates e))) rs)"

text \<open>The \<open>--output\<close> option: an empty name counts as none, and the suffix selects the writer.\<close>

definition write_output :: "string option \<Rightarrow> (string \<Rightarrow> cli_output) \<Rightarrow> (string \<Rightarrow> cli_output) \<Rightarrow> unit command" where
  "write_output out csv json =
     (case out of None \<Rightarrow> py_return () | Some f \<Rightarrow>
        if f = [] then py_return ()
        else py_bind (if suffix ''.csv'' f then produce (csv f)
                      else if suffix ''.json'' f then produce (json f) else py_raise SystemExit) (\<lambda>_.
             produce (Say (''[dim]results written to '' @ f @ ''[/dim]''))))"

section \<open>The commands\<close>

record args =
  ar_config :: string
  ar_scheduler :: "string option"
  ar_output :: "string option"

record cli =
  cli_io :: config_io
  cli_fs :: file_system
  cli_runner :: runner

text \<open>\<open>x or y\<close> for an optional string.\<close>

definition or_else :: "string option \<Rightarrow> string \<Rightarrow> string" where
  "or_else x y = (case x of None \<Rightarrow> y | Some s \<Rightarrow> if s = [] then y else s)"

definition set_trace_path :: "path \<Rightarrow> nano_kv_config \<Rightarrow> nano_kv_config" where
  "set_trace_path p = cfg_trace_update (map_option (tr_path_update (\<lambda>_. str_path p)))"

definition related :: "cli \<Rightarrow> args \<Rightarrow> nano_kv_config \<Rightarrow> nano_kv_config" where
  "related c a cfg = (case cfg_trace cfg of None \<Rightarrow> cfg
     | Some tc \<Rightarrow> set_trace_path (resolve_related_config_path (cli_fs c) (ar_config a) (tr_path tc)) cfg)"

definition cmd_run :: "cli \<Rightarrow> args \<Rightarrow> unit command" where
  "cmd_run c a =
     py_bind (py_of (load_config (cli_io c) (ar_config a))) (\<lambda>loaded.
       let cfg = related c a loaded; sched_name = or_else (ar_scheduler a) (sc_name (cfg_scheduler cfg)) in
       if sched_name \<notin> set SCHEDULER_NAMES then py_raise SystemExit
       else py_bind (produce (Say (running sched_name))) (\<lambda>_.
            py_bind (py_of (run_metrics (cli_runner c) cfg sched_name)) (\<lambda>summary.
            py_bind (write_output (ar_output a) (\<lambda>f. Csv_results f (csv_rows [(sched_name, summary)]))
                       (\<lambda>f. Json_results f [(sched_name, summary)])) (\<lambda>_.
            produce (single_table summary sched_name)))))"

definition cmd_sweep :: "cli \<Rightarrow> args \<Rightarrow> unit command" where
  "cmd_sweep c a =
     py_bind (py_of (load_config (cli_io c) (ar_config a))) (\<lambda>loaded.
     py_bind (run_schedulers (cli_runner c) (related c a loaded) SCHEDULER_NAMES) (\<lambda>results.
     py_bind (write_output (ar_output a) (\<lambda>f. Csv_results f (csv_rows results)) (\<lambda>f. Json_results f results)) (\<lambda>_.
     produce (comparison_table results))))"

text \<open>The base configuration of an experiment is found next to the sensitivity configuration or in the working
  directory; its trace path is used as it is.\<close>

definition load_base_config :: "cli \<Rightarrow> string \<Rightarrow> string \<Rightarrow> nano_kv_config result" where
  "load_base_config c config_path base_config =
     load_config (cli_io c) (str_path (resolve_related_config_path (cli_fs c) config_path base_config))"

definition run_sensitivity_report :: "cli \<Rightarrow> string \<Rightarrow> experiment_report list command" where
  "run_sensitivity_report c config_path =
     py_bind (py_of (load_sensitivity_config (cli_io c) config_path)) (\<lambda>exs.
     run_experiments (cli_runner c) (load_base_config c config_path) exs)"

definition cmd_sensitivity :: "cli \<Rightarrow> args \<Rightarrow> unit command" where
  "cmd_sensitivity c a =
     py_bind (run_sensitivity_report c (ar_config a)) (\<lambda>rs.
     py_bind (write_output (ar_output a) (\<lambda>f. Csv_sensitivity f (sensitivity_csv_rows rs))
                (\<lambda>f. Json_sensitivity f (ar_config a) rs (passed_fields rs) (length rs))) (\<lambda>_.
     produce (sensitivity_table rs)))"

definition MOONCAKE_REFERENCE_CACHE_HIT :: rat where
  "MOONCAKE_REFERENCE_CACHE_HIT = 146 / 1000"

definition synthesis_table :: "string \<Rightarrow> string \<Rightarrow> sensitivity_row list \<Rightarrow> cli_output" where
  "synthesis_table trace_name name rows = Synthesis_table trace_name name
     (map (\<lambda>r. (row_axis r, row_value r, row_is_baseline r, row_hit r, uplift_vs_rr (row_hit r) (row_rr_hit r))) rows)"

definition synthesis_report :: "string \<Rightarrow> path \<Rightarrow> string \<Rightarrow> sensitivity_row list \<Rightarrow> cli_output" where
  "synthesis_report f p name rows = Json_synthesis f (str_path p) name
     (map (\<lambda>r. (r, uplift_vs_rr (row_hit r) (row_rr_hit r))) rows) MOONCAKE_REFERENCE_CACHE_HIT"

definition cmd_prefix_sensitivity :: "cli \<Rightarrow> args \<Rightarrow> unit command" where
  "cmd_prefix_sensitivity c a =
     py_bind (py_of (load_config (cli_io c) (ar_config a))) (\<lambda>cfg.
     py_bind (py_of (synthesis_section cfg)) (\<lambda>_.
       let trace = (case cfg_trace cfg of None \<Rightarrow> '''' | Some tc \<Rightarrow> tr_path tc);
           abs_path = resolve_related_config_path (cli_fs c) (ar_config a) trace;
           name = or_else (ar_scheduler a) ''conductor'' in
       py_bind (prefix_sensitivity (cli_runner c) (set_trace_path abs_path cfg) name) (\<lambda>rows.
       py_bind (produce (synthesis_table (path_name abs_path) name rows)) (\<lambda>_.
       py_bind (produce (Say_reference MOONCAKE_REFERENCE_CACHE_HIT)) (\<lambda>_.
       case ar_output a of None \<Rightarrow> py_return () | Some f \<Rightarrow>
         if f = [] then py_return ()
         else py_bind (produce (synthesis_report f abs_path name rows)) (\<lambda>_.
              produce (Say (''[dim]report written to '' @ f @ ''[/dim]''))))))))"

section \<open>The entry point\<close>

text \<open>
  The sub-commands and options \<open>main\<close> declares, as data. The parser itself is a parameter: it gets the declarations and
  the words of the command line, and returns the sub-command and its options or ends the program.
\<close>

record option_decl =
  op_name :: string
  op_required :: bool
  op_default :: "string option"

definition plain_option :: "string \<Rightarrow> string option \<Rightarrow> option_decl" where
  "plain_option n d = \<lparr>op_name = n, op_required = False, op_default = d\<rparr>"

definition config_option :: option_decl where
  "config_option = \<lparr>op_name = ''config'', op_required = True, op_default = None\<rparr>"

definition subparsers :: "(string \<times> option_decl list) list" where
  "subparsers =
     [(''run'', [config_option, plain_option ''scheduler'' None, plain_option ''output'' None]),
      (''sweep'', [config_option, plain_option ''output'' None]),
      (''sensitivity'', [config_option, plain_option ''output'' None]),
      (''prefix-sensitivity'', [config_option, plain_option ''scheduler'' (Some ''conductor''), plain_option ''output'' None])]"

type_synonym arg_parser = "(string \<times> option_decl list) list \<Rightarrow> string list \<Rightarrow> (string \<times> (string \<Rightarrow> string option)) result"

definition command_of :: "string \<Rightarrow> cli \<Rightarrow> args \<Rightarrow> unit command" where
  "command_of name =
     (if name = ''run'' then cmd_run else if name = ''sweep'' then cmd_sweep
      else if name = ''sensitivity'' then cmd_sensitivity else cmd_prefix_sensitivity)"

definition main :: "arg_parser \<Rightarrow> cli \<Rightarrow> string list \<Rightarrow> unit command" where
  "main parse_args c argv =
     py_bind (py_of (parse_args subparsers argv)) (\<lambda>(name, ns).
       command_of name c \<lparr>ar_config = (case ns ''config'' of None \<Rightarrow> '''' | Some f \<Rightarrow> f),
                            ar_scheduler = ns ''scheduler'', ar_output = ns ''output''\<rparr>)"

end
