(* ===== verification/Sim_State.thy ===== *)
theory Sim_State
  imports Simulator Policy_Contracts Node_Invariant
begin

text \<open>
  The life of a request in the simulator, as an abstract state machine. \<open>stage\<close> says where a request is;
  a state of the simulator is described by a finite map from the requests in the system to their stages,
  and the map determines the slots and the pipelines of the nodes, the pending transfers, the
  bookkeeping dictionaries and, for the events that move a request, exactly which are in the queue.
\<close>

section \<open>Stages\<close>

datatype stage =
    St_arriving
  | St_waiting node_id
  | St_starting node_id
  | St_prefill node_id
  | St_prefilled node_id
  | St_transfer string
  | St_decoding node_id
  | St_ending node_id
  | St_rejected

fun stage_node :: "stage \<Rightarrow> node_id option" where
  "stage_node (St_waiting n) = Some n"
| "stage_node (St_starting n) = Some n"
| "stage_node (St_prefill n) = Some n"
| "stage_node (St_prefilled n) = Some n"
| "stage_node (St_decoding n) = Some n"
| "stage_node (St_ending n) = Some n"
| "stage_node _ = None"

type_synonym stages = "req_id \<rightharpoonup> request \<times> stage"

definition sits :: "stages \<Rightarrow> req_id \<Rightarrow> stage \<Rightarrow> bool" where
  "sits st r g \<longleftrightarrow> (\<exists>req. st r = Some (req, g))"

text \<open>The requests the bookkeeping dictionaries hold: those that have arrived and are not finished.\<close>

definition live :: "stages \<Rightarrow> req_id \<Rightarrow> request option" where
  "live st r = (case st r of None \<Rightarrow> None
     | Some (req, g) \<Rightarrow> if g = St_arriving \<or> g = St_rejected then None else Some req)"

section \<open>Events that move requests\<close>

datatype life_event =
    K_arrive request
  | K_start request node_id
  | K_prefilled request node_id
  | K_transfer string
  | K_end req_id node_id
  | K_reject req_id
  | K_batch node_id

definition for_request :: "(request \<Rightarrow> node_id \<Rightarrow> life_event) \<Rightarrow> payload \<Rightarrow> life_event option" where
  "for_request K pl = (case (pl_request pl, pl_request_id pl, pl_node_id pl) of
     (Some req, Some r, Some n) \<Rightarrow> if r = request_id req then Some (K req n) else None | _ \<Rightarrow> None)"

definition life_key :: "payload event \<Rightarrow> life_event option" where
  "life_key ev = (let pl = ev_payload ev in case ev_type ev of
      REQUEST_ARRIVE \<Rightarrow> map_option K_arrive (pl_request pl)
    | PREFILL_START \<Rightarrow> for_request K_start pl
    | PREFILL_COMPLETE \<Rightarrow> for_request K_prefilled pl
    | KV_TRANSFER_COMPLETE \<Rightarrow> map_option K_transfer (pl_transfer_id pl)
    | DECODE_COMPLETE \<Rightarrow> (case (pl_request_id pl, pl_node_id pl) of (Some r, Some n) \<Rightarrow> Some (K_end r n) | _ \<Rightarrow> None)
    | REQUEST_REJECTED \<Rightarrow> map_option K_reject (pl_request_id pl)
    | DECODE_BATCH_STEP \<Rightarrow> map_option K_batch (pl_node_id pl)
    | _ \<Rightarrow> None)"

definition silent :: "event_type \<Rightarrow> bool" where
  "silent ty \<longleftrightarrow> ty = SCHEDULED \<or> ty = TOKEN_GENERATED \<or> ty = KV_TRANSFER_START"

definition well_formed :: "payload event \<Rightarrow> bool" where
  "well_formed ev \<longleftrightarrow> (if silent (ev_type ev) then True else life_key ev \<noteq> None)"

fun stage_key :: "request \<Rightarrow> stage \<Rightarrow> life_event option" where
  "stage_key req St_arriving = Some (K_arrive req)"
| "stage_key req (St_starting n) = Some (K_start req n)"
| "stage_key req (St_prefilled n) = Some (K_prefilled req n)"
| "stage_key req (St_transfer tid) = Some (K_transfer tid)"
| "stage_key req (St_ending n) = Some (K_end (request_id req) n)"
| "stage_key req St_rejected = Some (K_reject (request_id req))"
| "stage_key req _ = None"

definition stage_keys :: "stages \<Rightarrow> life_event set" where
  "stage_keys st = {k. \<exists>r req g. st r = Some (req, g) \<and> stage_key req g = Some k}"

definition batch_keys :: "(node_id \<rightharpoonup> mock_node) \<Rightarrow> life_event set" where
  "batch_keys nds = {k. \<exists>n nd. nds n = Some nd \<and> batch_step_in_flight nd \<and> k = K_batch n}"

definition life_keys :: "payload event list \<Rightarrow> life_event list" where
  "life_keys q = concat (map (\<lambda>ev. case life_key ev of None \<Rightarrow> [] | Some k \<Rightarrow> [k]) q)"

definition q_keys :: "engine \<Rightarrow> life_event set \<Rightarrow> bool" where
  "q_keys e K \<longleftrightarrow> distinct (life_keys (ev_queue e)) \<and> set (life_keys (ev_queue e)) = K \<and>
     (\<forall>ev \<in> set (ev_queue e). well_formed ev \<and> current_time e \<le> ev_time ev)"

section \<open>The queue\<close>

definition push :: "time \<Rightarrow> event_type \<Rightarrow> payload \<Rightarrow> engine \<Rightarrow> engine" where
  "push t ty pl e = e\<lparr>ev_queue := ev_queue e @ [(mk_event t ty pl)\<lparr>ev_seq := seq_counter e\<rparr>], seq_counter := seq_counter e + 1\<rparr>"

lemma push_simps [simp]:
  "current_time (push t ty pl e) = current_time e" "handlers (push t ty pl e) = handlers e" "stopped (push t ty pl e) = stopped e"
  "now (push t ty pl e) = now e"
  by (simp_all add: push_def now_def)

lemma emit_run: "current_time e \<le> t \<Longrightarrow> emit t ty pl (w, e) = (Inr (), (w, push t ty pl e))"
  by (simp add: emit_def schedule_def mk_event_def push_def heappush_def)

lemma life_keys_simps [simp]:
  "life_keys (p @ q) = life_keys p @ life_keys q" "life_keys [] = []"
  "life_keys (ev # q) = (case life_key ev of None \<Rightarrow> [] | Some k \<Rightarrow> [k]) @ life_keys q"
  by (simp_all add: life_keys_def)

lemma mk_event_time [simp]: "ev_time (mk_event t ty pl) = t"
  by (simp add: mk_event_def)

lemma life_key_seq [simp]: "life_key (ev\<lparr>ev_seq := k\<rparr>) = life_key ev" "well_formed (ev\<lparr>ev_seq := k\<rparr>) = well_formed ev"
  by (simp_all add: life_key_def well_formed_def)

lemma q_keys_push:
  assumes "q_keys e K" "current_time e \<le> t" "well_formed (mk_event t ty pl)"
    "case life_key (mk_event t ty pl) of None \<Rightarrow> K' = K | Some k \<Rightarrow> k \<notin> K \<and> K' = insert k K"
  shows "q_keys (push t ty pl e) K'"
  using assms by (auto simp: q_keys_def push_def split: option.splits)

lemma q_keys_push_key:
  assumes "q_keys e K" "current_time e \<le> t" "life_key (mk_event t ty pl) = Some k" "k \<notin> K" "K' = insert k K"
  shows "q_keys (push t ty pl e) K'"
  by (rule q_keys_push[OF assms(1,2)]) (use assms(3-5) in \<open>simp_all add: well_formed_def\<close>)

lemma q_keys_push_silent:
  assumes "q_keys e K" "current_time e \<le> t" "silent ty"
  shows "q_keys (push t ty pl e) K"
  by (rule q_keys_push[OF assms(1,2)]) (use assms(3) in \<open>auto simp: well_formed_def silent_def life_key_def mk_event_def\<close>)

lemma life_keys_mset: "mset (life_keys q) = mset (life_keys q') \<Longrightarrow> set (life_keys q) = set (life_keys q')"
  by (metis set_mset_mset)

lemma q_keys_pop:
  assumes K: "q_keys e K" and p: "heappop (ev_queue e) = Some (ev, q)"
  defines "e' \<equiv> e\<lparr>ev_queue := q, current_time := ev_time ev\<rparr>"
  shows "well_formed ev" "current_time e \<le> ev_time ev"
    "case life_key ev of None \<Rightarrow> q_keys e' K | Some k \<Rightarrow> k \<in> K \<and> q_keys e' (K - {k})"
proof -
  have m: "mset (ev_queue e) = add_mset ev (mset q)" by (rule heap.pop_events[OF p])
  then have s: "set (ev_queue e) = insert ev (set q)" by (metis set_mset_mset set_mset_add_mset_insert)
  show "well_formed ev" "current_time e \<le> ev_time ev" using K s by (simp_all add: q_keys_def)
  have later: "ev_time ev \<le> ev_time x" if "x \<in> set q" for x
    using heap.pop_least[OF p, of x] that by (auto simp: ev_key_def)
  have lk: "mset (life_keys xs) = sum_list (map (\<lambda>ev. case life_key ev of None \<Rightarrow> {#} | Some k \<Rightarrow> {#k#}) xs)" for xs
    by (induction xs) (auto split: option.splits)
  have sl: "mset xs = mset ys \<Longrightarrow> sum_list (map f xs) = sum_list (map f ys)" for xs ys and f :: "payload event \<Rightarrow> life_event multiset"
    by (metis mset_map sum_mset_sum_list)
  have mk: "mset (life_keys (ev_queue e)) = mset (life_keys (ev # q))"
    unfolding lk by (rule sl) (simp add: m)
  have "distinct (life_keys (ev # q))" "set (life_keys (ev # q)) = K"
    using K mset_eq_imp_distinct_iff[OF mk] life_keys_mset[OF mk] unfolding q_keys_def by blast+
  then show "case life_key ev of None \<Rightarrow> q_keys e' K | Some k \<Rightarrow> k \<in> K \<and> q_keys e' (K - {k})"
    using K s later by (auto simp: q_keys_def e'_def split: option.splits)
qed

section \<open>What the stages say about the state\<close>

text \<open>The slots and pipelines of a node.\<close>

definition prefill_node_ok :: "stages \<Rightarrow> node_id \<Rightarrow> mock_node \<Rightarrow> bool" where
  "prefill_node_ok st n nd \<longleftrightarrow> mn_inv nd \<and> decoding nd = {} \<and> set (queue nd) = {r. sits st r (St_waiting n)} \<and>
     set (running_requests nd) = {r. sits st r (St_starting n) \<or> sits st r (St_prefill n) \<or> sits st r (St_prefilled n)} \<and>
     fst ` set (prefill_remaining nd) = {r. sits st r (St_prefill n)} \<and> (\<forall>u \<in> snd ` set (prefill_remaining nd). 0 < u)"

definition decode_node_ok :: "stages \<Rightarrow> node_id \<Rightarrow> mock_node \<Rightarrow> bool" where
  "decode_node_ok st n nd \<longleftrightarrow> mn_inv nd \<and> queue nd = [] \<and> prefill_remaining nd = [] \<and>
     set (running_requests nd) = {r. sits st r (St_decoding n) \<or> sits st r (St_ending n)} \<and>
     decoding nd = {r. sits st r (St_decoding n)} \<and> set (running_requests nd) \<subseteq> dom (output_tokens nd)"

definition static_ok :: "world \<Rightarrow> bool" where
  "static_ok w \<longleftrightarrow> model_config_ok (w_model w) \<and> bandwidth_config_ok (w_bw w) \<and>
     set (prefill_ids w) \<inter> set (decode_ids w) = {} \<and> dom (w_nodes w) = set (prefill_ids w) \<union> set (decode_ids w) \<and>
     (\<forall>n nd. w_nodes w n = Some nd \<longrightarrow> mn_node_id nd = n \<and> mn_model nd = w_model w \<and> 1 \<le> capacity (mn_config nd))"

definition nodes_ok :: "stages \<Rightarrow> world \<Rightarrow> bool" where
  "nodes_ok st w \<longleftrightarrow>
     (\<forall>n nd. w_nodes w n = Some nd \<longrightarrow>
        (if n \<in> set (prefill_ids w) then prefill_node_ok st n nd else decode_node_ok st n nd)) \<and>
     (\<forall>r req g n. st r = Some (req, g) \<longrightarrow> stage_node g = Some n \<longrightarrow>
        n \<in> (if (\<exists>m. g = St_decoding m \<or> g = St_ending m) then set (decode_ids w) else set (prefill_ids w)))"

definition awake :: "world \<Rightarrow> bool" where
  "awake w \<longleftrightarrow> (\<forall>n nd. w_nodes w n = Some nd \<longrightarrow> has_work nd \<longrightarrow> batch_step_in_flight nd)"

text \<open>Blocks are pinned for decoding requests only.\<close>

definition cache_ok :: "stages \<Rightarrow> world \<Rightarrow> bool" where
  "cache_ok st w \<longleftrightarrow> cm_ready (w_cm w) \<and> cm_nodes (w_cm w) = set (decode_ids w) \<and>
     (\<forall>n r. block_tables (w_cm w) (n, r) \<noteq> None \<longrightarrow> sits st r (St_decoding n) \<or> sits st r (St_ending n))"

definition transfers_ok :: "stages \<Rightarrow> world \<Rightarrow> bool" where
  "transfers_ok st w \<longleftrightarrow>
     (\<forall>tid info. pending_transfers w tid = Some info \<longrightarrow>
        st (pt_request_id info) = Some (pt_request info, St_transfer tid) \<and> (\<exists>k. tid = transfer_name (pt_request_id info) k)) \<and>
     (\<forall>r req tid. st r = Some (req, St_transfer tid) \<longrightarrow>
        (\<exists>info. pending_transfers w tid = Some info \<and> pt_request_id info = r \<and> pt_request info = req))"

definition books_ok :: "stages \<Rightarrow> world \<Rightarrow> bool" where
  "books_ok st w \<longleftrightarrow> finite (dom st) \<and> (\<forall>r req g. st r = Some (req, g) \<longrightarrow> request_id req = r) \<and>
     w_requests w = live st \<and> dom (decisions w) = dom (live st) \<and>
     (\<forall>r d. decisions w r = Some d \<longrightarrow>
        (\<exists>p \<in> set (prefill_ids w). \<exists>q \<in> set (decode_ids w). prefill_node d = Some p \<and> decode_node d = Some q))"

definition arrived :: "stages \<Rightarrow> req_id set" where
  "arrived st = {r. \<exists>req g. st r = Some (req, g) \<and> g \<noteq> St_arriving}"

definition metrics_ok :: "stages \<Rightarrow> collector \<Rightarrow> bool" where
  "metrics_ok st m \<longleftrightarrow> total_arrived m = completed_count m + rejected_count m + card (arrived st) \<and>
     arrived st \<subseteq> dom (map_of (col_requests m))"

text \<open>The names the arrival source has given out so far.\<close>

fun source_prefix :: "arrivals \<Rightarrow> string" where
  "source_prefix (Poisson s) = ''req-''"
| "source_prefix (Trace s) = ''trace-''"

fun source_index :: "arrivals \<Rightarrow> nat" where
  "source_index (Poisson s) = next_request_id s"
| "source_index (Trace s) = tg_idx s"

definition source_ok :: "stages \<Rightarrow> arrivals \<Rightarrow> bool" where
  "source_ok st g \<longleftrightarrow> (\<forall>r \<in> dom st. \<exists>k < source_index g. r = source_prefix g @ digits k)"

definition wired :: "event_type \<Rightarrow> handler list" where
  "wired ty = (case ty of
      REQUEST_ARRIVE \<Rightarrow> [Sim_on_arrive, Metrics_handler, Arrival_chain]
    | SCHEDULED \<Rightarrow> [Metrics_handler]
    | REQUEST_REJECTED \<Rightarrow> [Metrics_handler]
    | PREFILL_START \<Rightarrow> [Sim_on_prefill_start, Metrics_handler]
    | PREFILL_COMPLETE \<Rightarrow> [Sim_on_prefill_complete, Metrics_handler]
    | KV_TRANSFER_START \<Rightarrow> [Sim_on_kv_transfer_start, Metrics_handler]
    | KV_TRANSFER_COMPLETE \<Rightarrow> [Sim_on_kv_transfer_complete, Metrics_handler]
    | TOKEN_GENERATED \<Rightarrow> [Metrics_handler]
    | DECODE_BATCH_STEP \<Rightarrow> [Sim_on_decode_batch_step, Metrics_handler]
    | DECODE_COMPLETE \<Rightarrow> [Sim_on_decode_complete, Metrics_handler])"

definition engine_ok :: "engine \<Rightarrow> bool" where
  "engine_ok e \<longleftrightarrow> handlers e = (\<lambda>ty. Some (wired ty)) \<and> \<not> stopped e"

text \<open>The part of the invariant that concerns the simulator's own state, without the queue.\<close>

definition world_ok :: "stages \<Rightarrow> world \<Rightarrow> bool" where
  "world_ok st w \<longleftrightarrow> static_ok w \<and> nodes_ok st w \<and> cache_ok st w \<and> transfers_ok st w \<and> books_ok st w"

definition sim_inv :: "stages \<Rightarrow> world \<times> engine \<Rightarrow> bool" where
  "sim_inv st s \<longleftrightarrow> world_ok st (fst s) \<and> awake (fst s) \<and> metrics_ok st (w_metrics (fst s)) \<and> source_ok st (w_gen (fst s)) \<and>
     engine_ok (snd s) \<and> q_keys (snd s) (stage_keys st \<union> batch_keys (w_nodes (fst s)))"

end
