(* ===== verification/Sim_Frame.thy ===== *)
theory Sim_Frame
  imports Sim_State
begin

text \<open>
  How the parts of the simulator's invariant change when one request changes its stage, and how the
  pieces the handlers are built from run in a state that satisfies the invariant.
\<close>

section \<open>Names\<close>

lemma transfer_name_inj: "transfer_name r k = transfer_name r' k' \<Longrightarrow> r = r' \<and> k = k'"
proof -
  assume eq: "transfer_name r k = transfer_name r' k'"
  have tw: "takeWhile (\<lambda>c. c \<noteq> CHR ''-'') (rev (transfer_name x i)) = rev (digits i)" for x i
  proof -
    have "CHR ''-'' \<notin> set (digits i)" using digits_chars[of "CHR ''-''" i] by blast
    then have "takeWhile (\<lambda>c. c \<noteq> CHR ''-'') (rev (digits i) @ CHR ''-'' # ys) = rev (digits i)" for ys
      by (subst takeWhile_append2) auto
    then show ?thesis unfolding transfer_name_def by simp
  qed
  have "digits k = digits k'" using tw[of r k] tw[of r' k'] eq by simp
  then show ?thesis using digits_inj[of k k'] eq by (simp add: transfer_name_def)
qed

lemma source_name_inj: "source_prefix g @ digits k = source_prefix g @ digits j \<Longrightarrow> k = j"
  using digits_inj by simp

section \<open>Changing the stage of one request\<close>

lemma sits_simps [simp]:
  "sits (st(r \<mapsto> (req, g))) x h \<longleftrightarrow> (if x = r then h = g else sits st x h)"
  "sits (st(r := None)) x h \<longleftrightarrow> x \<noteq> r \<and> sits st x h"
  by (auto simp: sits_def)

lemma live_upd:
  "live (st(r \<mapsto> (req, g))) = (live st)(r := if g = St_arriving \<or> g = St_rejected then None else Some req)"
  "live (st(r := None)) = (live st)(r := None)"
  by (auto simp: live_def fun_eq_iff)

lemma sitsI: "st r = Some (req, g) \<Longrightarrow> sits st r g"
  by (auto simp: sits_def)

lemma sits_fun: "sits st r g \<Longrightarrow> sits st r h \<Longrightarrow> g = h"
  by (auto simp: sits_def)

lemma arrived_upd:
  "arrived (st(r \<mapsto> (req, g))) = (if g = St_arriving then arrived st - {r} else insert r (arrived st))"
  "arrived (st(r := None)) = arrived st - {r}"
  by (auto simp: arrived_def)

text \<open>A stage whose key is in the queue is the stage of one request only.\<close>

definition keyed_apart :: "stages \<Rightarrow> bool" where
  "keyed_apart st \<longleftrightarrow> (\<forall>r req g r' req' g' k. st r = Some (req, g) \<longrightarrow> st r' = Some (req', g') \<longrightarrow>
     stage_key req g = Some k \<longrightarrow> stage_key req' g' = Some k \<longrightarrow> r = r')"

lemma world_keyed_apart:
  assumes "books_ok st w" "transfers_ok st w"
  shows "keyed_apart st"
  unfolding keyed_apart_def
proof (intro allI impI)
  fix r req g r' req' g' k
  assume s: "st r = Some (req, g)" "st r' = Some (req', g')" and k: "stage_key req g = Some k" "stage_key req' g' = Some k"
  have id: "request_id req = r" "request_id req' = r'" using assms(1) s by (auto simp: books_ok_def)
  show "r = r'"
  proof (cases "\<exists>tid. g = St_transfer tid")
    case True
    then obtain tid where g: "g = St_transfer tid" by blast
    then have g': "g' = St_transfer tid" using k by (cases g') auto
    have T: "st x = Some (q, St_transfer tid) \<Longrightarrow> \<exists>info. pending_transfers w tid = Some info \<and> pt_request_id info = x" for x q
      using assms(2) unfolding transfers_ok_def by blast
    show ?thesis using T[of r req] T[of r' req'] s g g' by auto
  next
    case False
    then show ?thesis using k id by (cases g; cases g') auto
  qed
qed

lemma stage_keys_upd:
  assumes "keyed_apart st" "st r = Some (req, g)"
  shows "stage_keys (st(r \<mapsto> (req', g'))) = (stage_keys st - set_option (stage_key req g)) \<union> set_option (stage_key req' g')"
    "stage_keys (st(r := None)) = stage_keys st - set_option (stage_key req g)"
proof -
  have rest: "k \<in> stage_keys st \<and> k \<notin> set_option (stage_key req g) \<longleftrightarrow>
      (\<exists>x req0 g0. x \<noteq> r \<and> st x = Some (req0, g0) \<and> stage_key req0 g0 = Some k)" for k
  proof
    assume "k \<in> stage_keys st \<and> k \<notin> set_option (stage_key req g)"
    then obtain x req0 g0 where "st x = Some (req0, g0)" "stage_key req0 g0 = Some k" "stage_key req g \<noteq> Some k"
      by (auto simp: stage_keys_def)
    then show "\<exists>x req0 g0. x \<noteq> r \<and> st x = Some (req0, g0) \<and> stage_key req0 g0 = Some k"
      using assms(2) by (intro exI[of _ x] exI[of _ req0] exI[of _ g0]) auto
  next
    assume "\<exists>x req0 g0. x \<noteq> r \<and> st x = Some (req0, g0) \<and> stage_key req0 g0 = Some k"
    then obtain x req0 g0 where x: "x \<noteq> r" "st x = Some (req0, g0)" "stage_key req0 g0 = Some k" by blast
    then have "stage_key req g \<noteq> Some k" using assms unfolding keyed_apart_def by metis
    then show "k \<in> stage_keys st \<and> k \<notin> set_option (stage_key req g)" using x by (auto simp: stage_keys_def)
  qed
  have U: "k \<in> stage_keys (st(r := v)) \<longleftrightarrow> (\<exists>x req0 g0. x \<noteq> r \<and> st x = Some (req0, g0) \<and> stage_key req0 g0 = Some k) \<or>
      (\<exists>req0 g0. v = Some (req0, g0) \<and> stage_key req0 g0 = Some k)" for k v
    by (auto simp: stage_keys_def)
  show "stage_keys (st(r \<mapsto> (req', g'))) = (stage_keys st - set_option (stage_key req g)) \<union> set_option (stage_key req' g')"
    by (rule set_eqI) (use rest U[of _ "Some (req', g')"] in \<open>auto simp: elem_set\<close>)
  show "stage_keys (st(r := None)) = stage_keys st - set_option (stage_key req g)"
    by (rule set_eqI) (use rest U[of _ None] in \<open>auto simp: elem_set\<close>)
qed

lemma stage_keys_new:
  assumes "st r = None"
  shows "stage_keys (st(r \<mapsto> (req, g))) = stage_keys st \<union> set_option (stage_key req g)"
  using assms by (auto simp: stage_keys_def elem_set split: if_splits) (metis option.distinct(1))+

lemma stage_keys_no_batch: "K_batch n \<notin> stage_keys st"
proof -
  have "stage_key req g \<noteq> Some (K_batch n)" for req g by (cases g) auto
  then show ?thesis by (auto simp: stage_keys_def)
qed

lemma batch_keysD: "k \<in> batch_keys nds \<Longrightarrow> \<exists>n. k = K_batch n"
  by (auto simp: batch_keys_def)

lemma batch_keys_upd:
  assumes "nds n = Some nd"
  shows "batch_keys (nds(n \<mapsto> nd')) = (batch_keys nds - {K_batch n}) \<union> (if batch_step_in_flight nd' then {K_batch n} else {})"
  by (rule set_eqI) (force simp: batch_keys_def split: if_splits)

lemma batch_key_iff: "nds n = Some nd \<Longrightarrow> K_batch n \<in> batch_keys nds \<longleftrightarrow> batch_step_in_flight nd"
  by (simp add: batch_keys_def)

lemma batch_keys_same: "nds n = Some nd \<Longrightarrow> batch_step_in_flight nd' = batch_step_in_flight nd \<Longrightarrow>
    batch_keys (nds(n \<mapsto> nd')) = batch_keys nds"
  using batch_key_iff[of nds n nd] by (auto simp: batch_keys_upd)

lemma stage_keyD: "st r = Some (req, g) \<Longrightarrow> stage_key req g = Some k \<Longrightarrow> k \<in> stage_keys st"
  by (auto simp: stage_keys_def)

text \<open>The key of a stage that the request is not in is not among the keys.\<close>

lemma stage_key_absent:
  assumes "books_ok st w" "\<not> sits st (request_id req) g" "stage_key req g = Some k" "\<forall>tid. g \<noteq> St_transfer tid"
  shows "k \<notin> stage_keys st"
proof
  assume "k \<in> stage_keys st"
  then obtain r req' g' where s: "st r = Some (req', g')" "stage_key req' g' = Some k" by (auto simp: stage_keys_def)
  have "request_id req' = r" using assms(1) s(1) unfolding books_ok_def by blast
  moreover have "request_id req' = request_id req \<and> g' = g" using s(2) assms(3,4) by (cases g; cases g') auto
  ultimately show False using assms(2) s(1) by (auto simp: sits_def)
qed

section \<open>Nodes\<close>

text \<open>A node is concerned only by the requests in one of its stages.\<close>

lemma node_ok_cong:
  assumes "\<And>r g. stage_node g = Some n \<Longrightarrow> sits st' r g \<longleftrightarrow> sits st r g"
  shows "prefill_node_ok st' n nd \<longleftrightarrow> prefill_node_ok st n nd" "decode_node_ok st' n nd \<longleftrightarrow> decode_node_ok st n nd"
  using assms by (simp_all add: prefill_node_ok_def decode_node_ok_def)

lemma nodes_okD:
  assumes "nodes_ok st w" "w_nodes w n = Some nd"
  shows "n \<in> set (prefill_ids w) \<Longrightarrow> prefill_node_ok st n nd" "n \<notin> set (prefill_ids w) \<Longrightarrow> decode_node_ok st n nd" "mn_inv nd"
proof -
  have "if n \<in> set (prefill_ids w) then prefill_node_ok st n nd else decode_node_ok st n nd"
    using assms unfolding nodes_ok_def by blast
  then show "n \<in> set (prefill_ids w) \<Longrightarrow> prefill_node_ok st n nd" "n \<notin> set (prefill_ids w) \<Longrightarrow> decode_node_ok st n nd"
    by simp_all
  then show "mn_inv nd" by (cases "n \<in> set (prefill_ids w)") (simp_all add: prefill_node_ok_def decode_node_ok_def)
qed

lemma static_okD:
  assumes "static_ok w"
  shows "model_config_ok (w_model w)" "bandwidth_config_ok (w_bw w)" "set (prefill_ids w) \<inter> set (decode_ids w) = {}"
    "dom (w_nodes w) = set (prefill_ids w) \<union> set (decode_ids w)"
    "w_nodes w n = Some nd \<Longrightarrow> mn_node_id nd = n" "w_nodes w n = Some nd \<Longrightarrow> mn_model nd = w_model w"
    "w_nodes w n = Some nd \<Longrightarrow> 1 \<le> capacity (mn_config nd)"
  using assms unfolding static_ok_def by (elim conjE; simp; fail)+

lemma static_nodeE:
  assumes "static_ok w" "n \<in> set (prefill_ids w) \<union> set (decode_ids w)"
  obtains nd where "w_nodes w n = Some nd" "mn_node_id nd = n" "mn_model nd = w_model w" "1 \<le> capacity (mn_config nd)"
proof -
  have "n \<in> dom (w_nodes w)" using assms by (simp add: static_ok_def)
  then obtain nd where nd: "w_nodes w n = Some nd" by blast
  then show thesis using that[OF nd] assms(1) unfolding static_ok_def by blast
qed

text \<open>One node and the stages on it change together.\<close>

lemma nodes_ok_update:
  assumes ok: "nodes_ok st w" and st': "\<And>x g m. stage_node g = Some m \<Longrightarrow> m \<noteq> n \<Longrightarrow> sits st' x g \<longleftrightarrow> sits st x g"
    and nd: "if n \<in> set (prefill_ids w) then prefill_node_ok st' n nd' else decode_node_ok st' n nd'"
    and w': "w_nodes w' = (w_nodes w)(n \<mapsto> nd')" "prefill_ids w' = prefill_ids w" "decode_ids w' = decode_ids w"
    and pools: "\<And>x req g. st' x = Some (req, g) \<Longrightarrow> stage_node g = Some n \<Longrightarrow>
      n \<in> (if (\<exists>m. g = St_decoding m \<or> g = St_ending m) then set (decode_ids w) else set (prefill_ids w))"
  shows "nodes_ok st' w'"
proof -
  have "if m \<in> set (prefill_ids w) then prefill_node_ok st' m x else decode_node_ok st' m x"
    if "((w_nodes w)(n \<mapsto> nd')) m = Some x" for m x
  proof (cases "m = n")
    case True
    then have "x = nd'" using that by simp
    then show ?thesis using nd True by simp
  next
    case False
    then have c: "prefill_node_ok st' m x \<longleftrightarrow> prefill_node_ok st m x" "decode_node_ok st' m x \<longleftrightarrow> decode_node_ok st m x"
      using st' by (auto intro!: node_ok_cong)
    have "w_nodes w m = Some x" using that False by simp
    then show ?thesis using nodes_okD[OF ok] c by simp
  qed
  moreover have "m \<in> (if (\<exists>k. g = St_decoding k \<or> g = St_ending k) then set (decode_ids w) else set (prefill_ids w))"
    if "st' x = Some (req, g)" "stage_node g = Some m" for x req g m
  proof (cases "m = n")
    case False
    then have "sits st x g" using st'[OF that(2) False, of x] that(1) by (auto simp: sits_def)
    then obtain req' where "st x = Some (req', g)" by (auto simp: sits_def)
    then show ?thesis using ok that(2) unfolding nodes_ok_def by blast
  qed (use pools that in simp)
  ultimately show ?thesis unfolding nodes_ok_def w' by blast
qed

text \<open>The same for a change that concerns no node.\<close>

lemma nodes_ok_stages:
  assumes "nodes_ok st w" "\<And>x g m. stage_node g = Some m \<Longrightarrow> sits st' x g \<longleftrightarrow> sits st x g"
    and w': "w_nodes w' = w_nodes w" "prefill_ids w' = prefill_ids w" "decode_ids w' = decode_ids w"
  shows "nodes_ok st' w'"
proof -
  have "prefill_node_ok st' m x \<longleftrightarrow> prefill_node_ok st m x" "decode_node_ok st' m x \<longleftrightarrow> decode_node_ok st m x" for m x
    using assms(2) by (intro node_ok_cong; simp)+
  then have "if m \<in> set (prefill_ids w) then prefill_node_ok st' m x else decode_node_ok st' m x"
    if "w_nodes w m = Some x" for m x
    using nodes_okD[OF assms(1) that] by simp
  moreover have "m \<in> (if (\<exists>k. g = St_decoding k \<or> g = St_ending k) then set (decode_ids w) else set (prefill_ids w))"
    if "st' x = Some (req, g)" "stage_node g = Some m" for x req g m
  proof -
    have "sits st x g" using assms(2)[OF that(2), of x] that(1) by (auto simp: sits_def)
    then show ?thesis using assms(1) that(2) unfolding nodes_ok_def sits_def by blast
  qed
  ultimately show ?thesis unfolding nodes_ok_def w' by blast
qed

lemma static_ok_update:
  assumes "static_ok w" "w_nodes w n = Some nd" "mn_node_id nd' = mn_node_id nd" "mn_model nd' = mn_model nd"
    "mn_config nd' = mn_config nd"
    and w': "w_nodes w' = (w_nodes w)(n \<mapsto> nd')" "prefill_ids w' = prefill_ids w" "decode_ids w' = decode_ids w"
      "w_model w' = w_model w" "w_bw w' = w_bw w"
  shows "static_ok w'"
proof -
  have S: "model_config_ok (w_model w)" "bandwidth_config_ok (w_bw w)" "set (prefill_ids w) \<inter> set (decode_ids w) = {}"
    "dom (w_nodes w) = set (prefill_ids w) \<union> set (decode_ids w)"
    by (rule static_okD[OF assms(1)])+
  have d: "dom ((w_nodes w)(n \<mapsto> nd')) = dom (w_nodes w)" using assms(2) by auto
  have all: "mn_node_id x = m \<and> mn_model x = w_model w \<and> 1 \<le> capacity (mn_config x)"
    if "((w_nodes w)(n \<mapsto> nd')) m = Some x" for m x
  proof (cases "m = n")
    case True
    then have "x = nd'" using that by simp
    moreover have "mn_node_id nd = n \<and> mn_model nd = w_model w \<and> 1 \<le> capacity (mn_config nd)"
      using assms(1,2) unfolding static_ok_def by blast
    ultimately show ?thesis using True assms(3-5) by simp
  next
    case False
    then have "w_nodes w m = Some x" using that by simp
    then show ?thesis using assms(1) unfolding static_ok_def by blast
  qed
  show ?thesis unfolding static_ok_def w'
    by (rule conjI[OF S(1) conjI[OF S(2) conjI[OF S(3) conjI[OF trans[OF d S(4)]]]]]) (use all in blast)
qed

end
