(* ===== verification/Sim_Progress.thy ===== *)
theory Sim_Progress
  imports Sim_Frame
begin

text \<open>
  What an event may do to the requests: each one moves along at most one edge of its life cycle, and the
  number of events still to come, bounded by a budget per stage, does not grow.
\<close>

section \<open>The life cycle\<close>

inductive life_step :: "(request \<times> stage) option \<Rightarrow> (request \<times> stage) option \<Rightarrow> bool" where
  arrives: "life_step None (Some (req, St_arriving))"
| queued: "life_step (Some (req, St_arriving)) (Some (req, St_waiting n))"
| admitted: "life_step (Some (req, St_arriving)) (Some (req, St_starting n))"
| refused: "life_step (Some (req, St_arriving)) (Some (req, St_rejected))"
| promoted: "life_step (Some (req, St_waiting n)) (Some (req, St_starting n))"
| prefills: "life_step (Some (req, St_starting n)) (Some (req, St_prefill n))"
| cached: "life_step (Some (req, St_starting n)) (Some (req, St_prefilled n))"
| prefilled: "life_step (Some (req, St_prefill n)) (Some (req, St_prefilled n))"
| transfers: "life_step (Some (req, St_prefilled n)) (Some (req, St_transfer tid))"
| decodes: "life_step (Some (req, St_transfer tid)) (Some (req, St_decoding m))"
| dropped: "life_step (Some (req, St_transfer tid)) (Some (req, St_rejected))"
| ends: "life_step (Some (req, St_decoding m)) (Some (req, St_ending m))"
| completes: "life_step (Some (req, St_ending m)) None"
| leaves: "life_step (Some (req, St_rejected)) None"

definition life_moves :: "stages \<Rightarrow> stages \<Rightarrow> bool" where
  "life_moves st st' \<longleftrightarrow> (\<forall>r. st' r = st r \<or> life_step (st r) (st' r))"

lemma life_moves_refl: "life_moves st st"
  by (simp add: life_moves_def)

lemma life_moves_upd: "life_step (st r) v \<Longrightarrow> life_moves st (st(r := v))"
  by (simp add: life_moves_def)

section \<open>Work that is left\<close>

text \<open>The batch steps a decode stream, or a prefill, still takes at most.\<close>

definition tokens_left :: "mock_node \<Rightarrow> req_id \<Rightarrow> nat" where
  "tokens_left nd r = max 1 (nat (the (expected_output nd r) - the (output_tokens nd r)))"

definition chunk_left :: "mock_node \<Rightarrow> req_id \<Rightarrow> nat" where
  "chunk_left nd r = nat (the (map_of (prefill_remaining nd) r))"

text \<open>The events that have yet to be scheduled for a request in a stage.\<close>

definition after_prefill :: "request \<Rightarrow> nat" where
  "after_prefill req = 5 + 3 * max 1 (expected_output_len req)"

fun needs :: "(node_id \<rightharpoonup> mock_node) \<Rightarrow> req_id \<Rightarrow> request \<times> stage \<Rightarrow> nat" where
  "needs nds r (req, St_arriving) = after_prefill req + length (token_ids req) + 4"
| "needs nds r (req, St_waiting n) = after_prefill req + length (token_ids req) + 3"
| "needs nds r (req, St_starting n) = after_prefill req + length (token_ids req) + 2"
| "needs nds r (req, St_prefill n) = after_prefill req + (case nds n of None \<Rightarrow> 0 | Some nd \<Rightarrow> chunk_left nd r) + 1"
| "needs nds r (req, St_prefilled n) = after_prefill req"
| "needs nds r (req, St_transfer tid) = after_prefill req - 2"
| "needs nds r (req, St_decoding n) = 3 * (case nds n of None \<Rightarrow> 0 | Some nd \<Rightarrow> tokens_left nd r) + 1"
| "needs nds r (req, St_ending n) = 1"
| "needs nds r (req, St_rejected) = 0"

definition need :: "(node_id \<rightharpoonup> mock_node) \<Rightarrow> stages \<Rightarrow> req_id \<Rightarrow> nat" where
  "need nds st r = (case st r of None \<Rightarrow> 0 | Some x \<Rightarrow> needs nds r x)"

definition budget :: "stages \<Rightarrow> world \<times> engine \<Rightarrow> nat" where
  "budget st s = (\<Sum>r \<in> dom st. need (w_nodes (fst s)) st r) + length (ev_queue (snd s))"

text \<open>Only the requests in \<open>A\<close> need more than before.\<close>

lemma budget_change:
  assumes fin: "finite (dom st)" "finite A" and dom: "dom st' \<subseteq> dom st \<union> A"
    and rest: "\<And>r. r \<notin> A \<Longrightarrow> need (w_nodes w') st' r \<le> need (w_nodes w) st r"
    and paid: "(\<Sum>r \<in> A. need (w_nodes w') st' r) + length (ev_queue e') \<le> (\<Sum>r \<in> A. need (w_nodes w) st r) + length (ev_queue e) + k"
  shows "budget st' (w', e') \<le> budget st (w, e) + k"
proof -
  let ?D = "dom st \<union> A" and ?f = "need (w_nodes w) st" and ?f' = "need (w_nodes w') st'"
  have z: "?f r = 0" if "r \<notin> dom st" for r using that by (auto simp: need_def split: option.splits)
  have z': "?f' r = 0" if "r \<notin> dom st'" for r using that by (auto simp: need_def split: option.splits)
  have D: "finite ?D" using fin by simp
  have "sum ?f (dom st) = sum ?f ?D" by (rule sum.mono_neutral_left[OF D]) (use z in auto)
  moreover have "sum ?f' (dom st') = sum ?f' ?D" by (rule sum.mono_neutral_left[OF D dom]) (use z' in auto)
  moreover have "sum g ?D = sum g A + sum g (?D - A)" for g :: "req_id \<Rightarrow> nat"
    using D by (metis Un_upper2 add.commute sum.subset_diff)
  moreover have "sum ?f' (?D - A) \<le> sum ?f (?D - A)" by (rule sum_mono) (use rest in auto)
  ultimately show ?thesis using paid by (simp add: budget_def)
qed

text \<open>Changes at one node that leave the other requests alone.\<close>

lemma need_frame:
  assumes "nds n = Some nd" "tokens_left nd' r = tokens_left nd r" "chunk_left nd' r = chunk_left nd r" "st' r = st r"
  shows "need (nds(n \<mapsto> nd')) st' r = need nds st r"
proof -
  have "needs (nds(n \<mapsto> nd')) r (req, g) = needs nds r (req, g)" for req g
    using assms(1-3) by (cases g) auto
  then show ?thesis using assms(4) by (auto simp: need_def split: option.splits)
qed

lemma need_same: "st' r = st r \<Longrightarrow> need nds st' r = need nds st r"
  by (simp add: need_def split: option.splits)

lemma budget_node_change:
  assumes fin: "finite (dom st)" "finite A" and dom: "dom st' \<subseteq> dom st \<union> A"
    and nd: "w_nodes w n = Some nd" and w': "w_nodes w' = (w_nodes w)(n \<mapsto> nd')"
    and rest: "\<And>z. z \<notin> A \<Longrightarrow> st' z = st z \<and> tokens_left nd' z = tokens_left nd z \<and> chunk_left nd' z = chunk_left nd z"
    and paid: "(\<Sum>r \<in> A. need (w_nodes w') st' r) + length (ev_queue e') \<le> (\<Sum>r \<in> A. need (w_nodes w) st r) + length (ev_queue e) + k"
  shows "budget st' (w', e') \<le> budget st (w, e) + k"
proof (rule budget_change[OF fin dom _ paid])
  fix z assume "z \<notin> A"
  then have r: "st' z = st z" "tokens_left nd' z = tokens_left nd z" "chunk_left nd' z = chunk_left nd z" using rest by auto
  show "need (w_nodes w') st' z \<le> need (w_nodes w) st z"
    unfolding w' using need_frame[of "w_nodes w" n nd nd' z st' st] nd r by simp
qed

lemma node_left_upd_state [simp]:
  "tokens_left (upd_state q f nd) r = tokens_left nd r" "chunk_left (upd_state q f nd) r = chunk_left nd r"
  by (simp_all add: tokens_left_def chunk_left_def)

lemma length_push [simp]: "length (ev_queue (push t ty pl e)) = Suc (length (ev_queue e))"
  by (simp add: push_def)

section \<open>What a handler does to the requests\<close>

definition advance :: "stages \<Rightarrow> world \<times> engine \<Rightarrow> stages \<Rightarrow> world \<times> engine \<Rightarrow> bool" where
  "advance st s st' s' \<longleftrightarrow> life_moves st st' \<and> budget st' s' \<le> budget st s"

text \<open>The requests in the system are the same.\<close>

definition same_requests :: "stages \<Rightarrow> stages \<Rightarrow> bool" where
  "same_requests st st' \<longleftrightarrow> dom st' = dom st \<and> arrived st' = arrived st"

lemma same_requests_upd:
  assumes "st r = Some (req, g)" "g \<noteq> St_arriving" "g' \<noteq> St_arriving"
  shows "same_requests st (st(r \<mapsto> (req', g')))"
  using assms by (auto simp: same_requests_def arrived_upd) (auto simp: arrived_def)

lemma same_requests_trans: "same_requests st st' \<Longrightarrow> same_requests st' st'' \<Longrightarrow> same_requests st st''"
  by (simp add: same_requests_def)

text \<open>One request moves and its new stage is paid for by the old one.\<close>

lemma advance_move:
  assumes fin: "finite (dom st)" and g: "st r = Some x" and step: "life_step (Some x) v"
    and w': "w_nodes w' = (w_nodes w)(n := y)" "y = w_nodes w n \<or> (\<exists>nd nd'. w_nodes w n = Some nd \<and> y = Some nd' \<and>
        (\<forall>z. z \<noteq> r \<longrightarrow> tokens_left nd' z = tokens_left nd z \<and> chunk_left nd' z = chunk_left nd z))"
    and paid: "(case v of None \<Rightarrow> 0 | Some z \<Rightarrow> needs (w_nodes w') r z) + length (ev_queue e') \<le> needs (w_nodes w) r x + length (ev_queue e)"
  shows "advance st (w, e) (st(r := v)) (w', e')"
proof -
  have rest: "need (w_nodes w') (st(r := v)) z \<le> need (w_nodes w) st z" if z: "z \<notin> {r}" for z
    using w'(2)
  proof
    assume "y = w_nodes w n"
    then have "w_nodes w' = w_nodes w" using w'(1) by simp
    then show ?thesis using z need_same[of "st(r := v)" z st] by simp
  next
    assume "\<exists>nd nd'. w_nodes w n = Some nd \<and> y = Some nd' \<and>
        (\<forall>z. z \<noteq> r \<longrightarrow> tokens_left nd' z = tokens_left nd z \<and> chunk_left nd' z = chunk_left nd z)"
    then obtain nd nd' where nd: "w_nodes w n = Some nd" "y = Some nd'" "tokens_left nd' z = tokens_left nd z"
      "chunk_left nd' z = chunk_left nd z" using z by blast
    show ?thesis unfolding w'(1) nd(2) using need_frame[where nds = "w_nodes w", OF nd(1,3,4), of "st(r := v)" st] z by simp
  qed
  have "(\<Sum>z \<in> {r}. need (w_nodes w') (st(r := v)) z) + length (ev_queue e') \<le> (\<Sum>z \<in> {r}. need (w_nodes w) st z) + length (ev_queue e) + 0"
    using paid g by (simp add: need_def)
  moreover have "dom (st(r := v)) \<subseteq> dom st \<union> {r}" by auto
  ultimately have "budget (st(r := v)) (w', e') \<le> budget st (w, e)"
    using budget_change[OF fin _ _ rest, of "{r}" e' e 0] by simp
  then show ?thesis using life_moves_upd[of st r v] step g by (simp add: advance_def)
qed

end
