(* ===== verification/Sim_Steps.thy ===== *)
theory Sim_Steps
  imports Sim_Progress Node_Invariant
begin

text \<open>
  Every handler of the simulator, run in a state that satisfies the invariant on an event that was just
  taken from the queue: it returns, and the request concerned has moved to its next stage. The only
  exception that escapes is the \<open>RuntimeError\<close> of \<open>materialize_request\<close>.
\<close>

section \<open>Running the pieces\<close>

named_theorems sim_run "rules that run a step of a handler"

lemma sim_run_simps [sim_run]:
  "py_bind (get_w f) k (w, e) = k (f w) (w, e)"
  "py_bind (upd_w g) k2 (w, e) = k2 () (g w, e)"
  "py_bind clock k3 (w, e) = k3 (now e) (w, e)"
  "py_bind (the_key (Some v)) k4 s = k4 v s"
  "upd_w g (w, e) = (Inr (), (g w, e))"
  by (simp_all add: py_bind_def get_w_def upd_w_def clock_def the_key_def py_return_def)

lemma assert_in_run [sim_run]: "n \<in> set (ids w) \<Longrightarrow> py_bind (assert_in n ids) k (w, e) = k () (w, e)"
  by (simp add: py_bind_def assert_in_def)

lemma emit_bind [sim_run]: "current_time e \<le> t \<Longrightarrow> py_bind (emit t ty pl) k (w, e) = k () (w, push t ty pl e)"
  by (simp add: py_bind_def emit_run)

lemma with_node_run:
  "w_nodes w n = Some nd \<Longrightarrow> m nd = (r, nd') \<Longrightarrow>
    with_node n m (w, e) = (r, (w\<lparr>w_nodes := (w_nodes w)(n \<mapsto> nd')\<rparr>, e))"
  by (simp add: with_node_def)

lemma with_node_bind:
  "w_nodes w n = Some nd \<Longrightarrow> m nd = (Inr x, nd') \<Longrightarrow>
    py_bind (with_node n m) k (w, e) = k x (w\<lparr>w_nodes := (w_nodes w)(n \<mapsto> nd')\<rparr>, e)"
  by (simp add: py_bind_def with_node_run)

lemma with_cm_bind:
  "m (now e) (w_cm w) = (Inr x, c') \<Longrightarrow> py_bind (with_cm m) k (w, e) = k x (w\<lparr>w_cm := c'\<rparr>, e)"
  by (simp add: py_bind_def with_cm_def)

lemma q_keys_time: "q_keys e K \<Longrightarrow> now e = current_time e"
  by (simp add: now_def)

section \<open>The cache\<close>

text \<open>A cache state that only differs in what lookups change.\<close>

definition cache_step :: "cache_manager \<Rightarrow> cache_manager \<Rightarrow> bool" where
  "cache_step c c' \<longleftrightarrow> cm_ready c' \<and> cm_nodes c' = cm_nodes c \<and> block_tables c' = block_tables c"

lemma cache_step_refl: "cm_ready c \<Longrightarrow> cache_step c c"
  by (simp add: cache_step_def)

lemma cache_step_trans: "cache_step c c' \<Longrightarrow> cache_step c' c'' \<Longrightarrow> cache_step c c''"
  by (simp add: cache_step_def)

lemma cache_ok_step:
  assumes "cache_ok st w" "cache_step (w_cm w) c'" "w_cm w' = c'" "decode_ids w' = decode_ids w"
  shows "cache_ok st w'"
  using assms by (simp add: cache_ok_def cache_step_def)

lemma cache_okD: "cache_ok st w \<Longrightarrow> cm_ready (w_cm w)" "cache_ok st w \<Longrightarrow> cm_nodes (w_cm w) = set (decode_ids w)"
  by (simp_all add: cache_ok_def)

lemma lookup_step:
  assumes "cm_ready c" "n \<in> cm_nodes c"
  obtains m c' where "lookup t req n c = (Inr m, c')" "cache_step c c'" "matched_tokens m \<le> length (token_ids req)"
proof -
  obtain m c' where "lookup t req n c = (Inr m, c')" "match_ok req m" "cm_ready c'" "cm_nodes c' = cm_nodes c"
    "block_tables c' = block_tables c"
    using lookup_ready[OF assms, of t req] by blast
  then show thesis using that[of m c'] by (simp add: cache_step_def match_ok_def)
qed

lemma uncached_run:
  assumes "cm_ready (w_cm w)" "n \<in> cm_nodes (w_cm w)"
  obtains u c' where "compute_uncached_tokens req n (w, e) = (Inr u, (w\<lparr>w_cm := c'\<rparr>, e))"
    "0 \<le> u" "u \<le> int (length (token_ids req))" "cache_step (w_cm w) c'"
proof -
  obtain m c' where l: "lookup (now e) req n (w_cm w) = (Inr m, c')" "cache_step (w_cm w) c'"
    "matched_tokens m \<le> length (token_ids req)"
    by (rule lookup_step[OF assms])
  let ?u = "max 0 (int (length (token_ids req)) - int (matched_tokens m))"
  have "compute_uncached_tokens req n (w, e) = (Inr ?u, (w\<lparr>w_cm := c'\<rparr>, e))"
    using l(1) by (simp add: compute_uncached_tokens_def py_except_def with_cm_def py_bind_def py_return_def)
  then show thesis by (rule that[of ?u c']) (use l(2) in simp_all)
qed

lemma n_chunks_run:
  assumes "cm_ready (w_cm w)" "n \<in> cm_nodes (w_cm w)"
  obtains i c' where "compute_n_chunks req n sz (w, e) = (Inr i, (w\<lparr>w_cm := c'\<rparr>, e))" "cache_step (w_cm w) c'"
proof -
  obtain u c' where u: "compute_uncached_tokens req n (w, e) = (Inr u, (w\<lparr>w_cm := c'\<rparr>, e))" "cache_step (w_cm w) c'"
    by (rule uncached_run[OF assms])
  have "compute_n_chunks req n sz (w, e) =
      (Inr (if u > 0 then (u + int sz - 1) div int sz else 0), (w\<lparr>w_cm := c'\<rparr>, e))"
    using u(1) by (simp add: compute_n_chunks_def py_bind_def py_return_def)
  then show thesis using that u(2) by blast
qed

section \<open>Waking a node\<close>

lemma with_node_last:
  "w_nodes w n = Some nd \<Longrightarrow> m nd = (Inr (), nd') \<Longrightarrow> with_node n m (w, e) = (Inr (), (w\<lparr>w_nodes := (w_nodes w)(n \<mapsto> nd')\<rparr>, e))"
  by (rule with_node_run)

definition woken :: "mock_node \<Rightarrow> mock_node" where
  "woken nd = nd\<lparr>batch_step_in_flight := batch_step_in_flight nd \<or> has_work nd\<rparr>"

lemma well_formed_batch: "well_formed (mk_event t DECODE_BATCH_STEP (no_keys\<lparr>pl_node_id := Some n\<rparr>))"
  "life_key (mk_event t DECODE_BATCH_STEP (no_keys\<lparr>pl_node_id := Some n\<rparr>)) = Some (K_batch n)"
  by (simp_all add: well_formed_def silent_def life_key_def mk_event_def)

lemma wake_run:
  assumes nd: "w_nodes w n = Some nd" and t: "current_time e \<le> t" and q: "q_keys e (S \<union> batch_keys (w_nodes w))"
    and S: "K_batch n \<notin> S"
  obtains e' where "wake_batch_step n t (w, e) = (Inr (), (w\<lparr>w_nodes := (w_nodes w)(n \<mapsto> woken nd)\<rparr>, e'))"
    "q_keys e' (S \<union> batch_keys ((w_nodes w)(n \<mapsto> woken nd)))" "current_time e' = current_time e"
    "handlers e' = handlers e" "stopped e' = stopped e" "length (ev_queue e') \<le> Suc (length (ev_queue e))"
proof (cases "has_work nd \<and> \<not> batch_step_in_flight nd")
  case True
  let ?e = "push t DECODE_BATCH_STEP (no_keys\<lparr>pl_node_id := Some n\<rparr>) e"
  have w: "woken nd = nd\<lparr>batch_step_in_flight := True\<rparr>" using True by (simp add: woken_def)
  have run: "wake_batch_step n t (w, e) = (Inr (), (w\<lparr>w_nodes := (w_nodes w)(n \<mapsto> woken nd)\<rparr>, ?e))"
    using True nd by (simp add: wake_batch_step_def sim_run is_batch_step_in_flight_def t with_node_run
        mark_batch_step_scheduled_def w)
  have bk: "batch_keys ((w_nodes w)(n \<mapsto> woken nd)) = insert (K_batch n) (batch_keys (w_nodes w))"
    using batch_keys_upd[where nds = "w_nodes w" and nd' = "woken nd", OF nd] by (auto simp: w)
  have "K_batch n \<notin> S \<union> batch_keys (w_nodes w)" using S True batch_key_iff[where nds = "w_nodes w", OF nd] by simp
  then have "q_keys ?e (S \<union> batch_keys ((w_nodes w)(n \<mapsto> woken nd)))"
    unfolding bk using well_formed_batch by (intro q_keys_push[OF q t]) auto
  then show thesis using that[OF run] by simp
next
  case False
  have w: "woken nd = nd" using False by (cases nd) (auto simp: woken_def)
  have "wake_batch_step n t (w, e) = (Inr (), (w, e))"
    using False nd by (auto simp: wake_batch_step_def sim_run is_batch_step_in_flight_def py_return_def)
  moreover have same: "(w_nodes w)(n \<mapsto> woken nd) = w_nodes w" using nd by (simp add: w fun_upd_idem)
  ultimately have run: "wake_batch_step n t (w, e) = (Inr (), (w\<lparr>w_nodes := (w_nodes w)(n \<mapsto> woken nd)\<rparr>, e))" by simp
  show thesis by (rule that[OF run]) (use q in \<open>simp_all add: same\<close>)
qed

lemma woken_simps [simp]:
  "mn_node_id (woken nd) = mn_node_id nd" "mn_model (woken nd) = mn_model nd" "mn_config (woken nd) = mn_config nd"
  "running_requests (woken nd) = running_requests nd" "queue (woken nd) = queue nd" "decoding (woken nd) = decoding nd"
  "output_tokens (woken nd) = output_tokens nd" "expected_output (woken nd) = expected_output nd"
  "prefill_remaining (woken nd) = prefill_remaining nd" "states (woken nd) = states nd"
  "tokens_left (woken nd) r = tokens_left nd r" "chunk_left (woken nd) r = chunk_left nd r"
  "has_work (woken nd) = has_work nd" "has_work nd \<Longrightarrow> batch_step_in_flight (woken nd)"
  by (simp_all add: woken_def has_work_def tokens_left_def chunk_left_def)

lemma woken_ok [simp]:
  "prefill_node_ok st n (woken nd) = prefill_node_ok st n nd" "decode_node_ok st n (woken nd) = decode_node_ok st n nd"
  by (simp_all add: prefill_node_ok_def decode_node_ok_def mn_inv_defs)

text \<open>All nodes but one are awake while that one is being worked on.\<close>

definition awake_but :: "node_id \<Rightarrow> world \<Rightarrow> bool" where
  "awake_but n w \<longleftrightarrow> (\<forall>m nd. m \<noteq> n \<longrightarrow> w_nodes w m = Some nd \<longrightarrow> has_work nd \<longrightarrow> batch_step_in_flight nd)"

lemma awake_but: "awake w \<Longrightarrow> awake_but n w"
  unfolding awake_def awake_but_def by blast

lemma awake_but_upd: "awake_but n w \<Longrightarrow> w_nodes w' = (w_nodes w)(n := x) \<Longrightarrow> awake_but n w'"
  unfolding awake_but_def by simp

lemma awake_woken: "awake_but n w \<Longrightarrow> w_nodes w' = (w_nodes w)(n \<mapsto> woken nd) \<Longrightarrow> awake w'"
  unfolding awake_but_def awake_def by (simp split: if_splits)

lemma awake_upd: "awake w \<Longrightarrow> w_nodes w' = (w_nodes w)(n \<mapsto> nd) \<Longrightarrow> (has_work nd \<Longrightarrow> batch_step_in_flight nd) \<Longrightarrow> awake w'"
  unfolding awake_def by (simp split: if_splits)

section \<open>The setting of a handler\<close>

text \<open>
  What a handler finds: the invariant, with the key of its event taken out of the queue.
\<close>

definition handling :: "life_event option \<Rightarrow> stages \<Rightarrow> world \<times> engine \<Rightarrow> bool" where
  "handling k st s \<longleftrightarrow> world_ok st (fst s) \<and> awake (fst s) \<and> engine_ok (snd s) \<and>
     q_keys (snd s) (stage_keys st \<union> batch_keys (w_nodes (fst s)) - set_option k)"

text \<open>What it leaves: a state of the new stages. The collector and the arrival source are not touched.\<close>

definition settled :: "stages \<Rightarrow> world \<Rightarrow> world \<times> engine \<Rightarrow> bool" where
  "settled st w0 s \<longleftrightarrow> handling None st s \<and> w_metrics (fst s) = w_metrics w0 \<and> w_gen (fst s) = w_gen w0"

lemma handlingD:
  assumes "handling k st (w, e)"
  shows "static_ok w" "nodes_ok st w" "cache_ok st w" "transfers_ok st w" "books_ok st w" "awake w" "engine_ok e"
    "q_keys e (stage_keys st \<union> batch_keys (w_nodes w) - set_option k)" "keyed_apart st"
  using assms world_keyed_apart[of st w] by (simp_all add: handling_def world_ok_def)

lemma booksD:
  assumes "books_ok st w"
  shows "st r = Some (req, g) \<Longrightarrow> request_id req = r" "w_requests w = live st" "dom (decisions w) = dom (live st)"
    "decisions w r = Some d \<Longrightarrow> \<exists>p \<in> set (prefill_ids w). \<exists>q \<in> set (decode_ids w). prefill_node d = Some p \<and> decode_node d = Some q"
    "finite (dom st)"
  using assms unfolding books_ok_def by (elim conjE; blast)+

lemma books_okI:
  assumes "finite (dom st)" "\<And>r req g. st r = Some (req, g) \<Longrightarrow> request_id req = r" "w_requests w = live st"
    "dom (decisions w) = dom (live st)"
    "\<And>r d. decisions w r = Some d \<Longrightarrow>
      \<exists>p \<in> set (prefill_ids w). \<exists>q \<in> set (decode_ids w). prefill_node d = Some p \<and> decode_node d = Some q"
  shows "books_ok st w"
  unfolding books_ok_def using assms by blast

lemma books_decision:
  assumes "books_ok st w" "st r = Some (req, g)" "g \<noteq> St_arriving" "g \<noteq> St_rejected"
  obtains d p q where "w_requests w r = Some req" "decisions w r = Some d" "prefill_node d = Some p" "decode_node d = Some q"
    "p \<in> set (prefill_ids w)" "q \<in> set (decode_ids w)"
proof -
  have l: "live st r = Some req" using assms(2-4) by (simp add: live_def)
  then have "r \<in> dom (decisions w)" using booksD(3)[OF assms(1)] by auto
  then obtain d where d: "decisions w r = Some d" by blast
  then show thesis using that booksD(2,4)[OF assms(1)] l by metis
qed

text \<open>The book-keeping when a live request stays live.\<close>

lemma books_ok_move:
  assumes "books_ok st w" "st r = Some (req, g)" "g \<notin> {St_arriving, St_rejected}" "g' \<notin> {St_arriving, St_rejected}"
    and w': "w_requests w' = w_requests w" "decisions w' = decisions w" "prefill_ids w' = prefill_ids w" "decode_ids w' = decode_ids w"
  shows "books_ok (st(r \<mapsto> (req, g'))) w'"
proof -
  have l: "live (st(r \<mapsto> (req, g'))) = live st" using assms(2-4) by (auto simp: live_def fun_eq_iff)
  have id: "request_id req = r" using booksD(1)[OF assms(1,2)] .
  have ids: "(st(r \<mapsto> (req, g'))) x = Some (q, h) \<Longrightarrow> request_id q = x" for x q h
    using booksD(1)[OF assms(1), of x q h] id by (auto split: if_splits)
  show ?thesis
  proof (rule books_okI)
    show "\<And>x q h. (st(r \<mapsto> (req, g'))) x = Some (q, h) \<Longrightarrow> request_id q = x" by (rule ids)
    show "finite (dom (st(r \<mapsto> (req, g'))))" using booksD(5)[OF assms(1)] by simp
    show "w_requests w' = live (st(r \<mapsto> (req, g')))" "dom (decisions w') = dom (live (st(r \<mapsto> (req, g'))))"
      unfolding l w' by (rule booksD(2,3)[OF assms(1)])+
    show "\<And>x d. decisions w' x = Some d \<Longrightarrow>
        \<exists>p \<in> set (prefill_ids w'). \<exists>q \<in> set (decode_ids w'). prefill_node d = Some p \<and> decode_node d = Some q"
      unfolding w' by (rule booksD(4)[OF assms(1)])
  qed
qed

lemma cache_ok_move:
  assumes "cache_ok st w" "cache_step (w_cm w) c'" "w_cm w' = c'" "decode_ids w' = decode_ids w"
    "\<And>x n. sits st x (St_decoding n) \<or> sits st x (St_ending n) \<Longrightarrow> sits st' x (St_decoding n) \<or> sits st' x (St_ending n)"
  shows "cache_ok st' w'"
proof -
  have "sits st' x (St_decoding n) \<or> sits st' x (St_ending n)" if "block_tables c' (n, x) \<noteq> None" for n x
    using assms(1,2,5) that unfolding cache_ok_def cache_step_def by metis
  then show ?thesis using assms(1-4) by (simp add: cache_ok_def cache_step_def)
qed

lemma transfers_ok_other:
  assumes "transfers_ok st w" "st r = Some (req, g)" "\<forall>tid. g \<noteq> St_transfer tid" "\<forall>tid. g' \<noteq> St_transfer tid"
    "pending_transfers w' = pending_transfers w"
  shows "transfers_ok (st(r \<mapsto> (req', g'))) w'"
proof -
  have fwd: "st (pt_request_id info) = Some (pt_request info, St_transfer tid) \<and> (\<exists>k. tid = transfer_name (pt_request_id info) k)"
    if "pending_transfers w tid = Some info" for tid info
    using assms(1) that unfolding transfers_ok_def by blast
  have bwd: "\<exists>info. pending_transfers w tid = Some info \<and> pt_request_id info = x \<and> pt_request info = q"
    if "st x = Some (q, St_transfer tid)" for x q tid
    using assms(1) that unfolding transfers_ok_def by blast
  have "pt_request_id info \<noteq> r" if "pending_transfers w tid = Some info" for tid info
    using fwd[OF that] assms(2,3) by auto
  then show ?thesis using fwd bwd assms(4) unfolding transfers_ok_def assms(5) by simp
qed

lemma nodes_ok_move:
  assumes ok: "nodes_ok st w" and g: "st r = Some (req, g)" and "stage_node g = Some n" "stage_node g' = Some n"
    and nd: "prefill_node_ok (st(r \<mapsto> (req, g'))) n nd'"
    and w': "w_nodes w' = (w_nodes w)(n \<mapsto> nd')" "prefill_ids w' = prefill_ids w" "decode_ids w' = decode_ids w"
    and pool: "n \<in> set (prefill_ids w)" "\<forall>m. g' \<noteq> St_decoding m \<and> g' \<noteq> St_ending m"
  shows "nodes_ok (st(r \<mapsto> (req, g'))) w'"
proof (rule nodes_ok_update[OF ok _ _ w'])
  show "if n \<in> set (prefill_ids w) then prefill_node_ok (st(r \<mapsto> (req, g'))) n nd' else decode_node_ok (st(r \<mapsto> (req, g'))) n nd'"
    using nd pool(1) by simp
  fix x q h assume x: "(st(r \<mapsto> (req, g'))) x = Some (q, h)" "stage_node h = Some n"
  show "n \<in> (if (\<exists>m. h = St_decoding m \<or> h = St_ending m) then set (decode_ids w) else set (prefill_ids w))"
  proof (cases "x = r")
    case True
    then show ?thesis using x pool by auto
  next
    case False
    then have "st x = Some (q, h)" using x by simp
    then show ?thesis using ok x(2) unfolding nodes_ok_def by blast
  qed
next
  fix x h m assume "stage_node h = Some m" "m \<noteq> n"
  then show "sits (st(r \<mapsto> (req, g'))) x h \<longleftrightarrow> sits st x h"
    using assms(3,4) sitsI[of st, OF g] sits_fun[of st r g h] by auto
qed

lemma settledI:
  assumes "static_ok w'" "nodes_ok st w'" "cache_ok st w'" "transfers_ok st w'" "books_ok st w'" "awake w'" "engine_ok e'"
    "q_keys e' (stage_keys st \<union> batch_keys (w_nodes w'))" "w_metrics w' = w_metrics w" "w_gen w' = w_gen w"
  shows "settled st w (w', e')"
  using assms by (simp add: settled_def handling_def world_ok_def)

text \<open>A request that moves on within its prefill node.\<close>

lemma prefill_node_move:
  assumes pn: "prefill_node_ok st n nd" and inv: "mn_inv nd'"
    and same: "running_requests nd' = running_requests nd" "queue nd' = queue nd" "decoding nd' = decoding nd"
    and g: "g \<in> {St_starting n, St_prefill n, St_prefilled n}" "sits st r g" "g' \<in> {St_starting n, St_prefill n, St_prefilled n}"
    and pr: "fst ` set (prefill_remaining nd') = (if g' = St_prefill n then insert r (fst ` set (prefill_remaining nd)) else
        fst ` set (prefill_remaining nd) - {r})" "\<forall>u \<in> snd ` set (prefill_remaining nd'). 0 < u"
  shows "prefill_node_ok (st(r \<mapsto> (req, g'))) n nd'"
proof -
  let ?st = "st(r \<mapsto> (req, g'))"
  have only: "sits st r h \<longleftrightarrow> h = g" for h using g(2) sits_fun by blast
  have "{x. sits ?st x (St_waiting n)} = {x. sits st x (St_waiting n)}" using g(1,3) only by auto
  moreover have "{x. sits ?st x (St_starting n) \<or> sits ?st x (St_prefill n) \<or> sits ?st x (St_prefilled n)} =
      {x. sits st x (St_starting n) \<or> sits st x (St_prefill n) \<or> sits st x (St_prefilled n)}" using g(1,3) only by auto
  moreover have "{x. sits ?st x (St_prefill n)} =
      (if g' = St_prefill n then insert r {x. sits st x (St_prefill n)} else {x. sits st x (St_prefill n)} - {r})"
    using g(1,3) only by auto
  ultimately show ?thesis using pn inv pr unfolding prefill_node_ok_def same by simp
qed

section \<open>The start of a prefill\<close>

lemma update_append_fresh: "r \<notin> fst ` set al \<Longrightarrow> AList.update r u al = al @ [(r, u)]"
  by (induction al) auto

lemma on_prefill_start_step:
  assumes h: "handling (Some (K_start req n)) st (w, e)" and ev: "for_request K_start (ev_payload ev) = Some (K_start req n)"
    and g: "st (request_id req) = Some (req, St_starting n)"
  shows "\<exists>g' s'. on_prefill_start ev (w, e) = (Inr (), s') \<and> g' \<in> {St_prefill n, St_prefilled n} \<and>
    settled (st(request_id req \<mapsto> (req, g'))) w s' \<and> advance st (w, e) (st(request_id req \<mapsto> (req, g'))) s'"
proof -
  let ?r = "request_id req"
  note H = handlingD[OF h]
  have pl: "pl_request (ev_payload ev) = Some req" "pl_request_id (ev_payload ev) = Some ?r" "pl_node_id (ev_payload ev) = Some n"
    using ev by (auto simp: for_request_def split: option.splits if_splits)
  obtain d p q where d: "decisions w ?r = Some d" "decode_node d = Some q" "q \<in> set (decode_ids w)"
    by (rule books_decision[OF H(5) g]) auto
  have n: "n \<in> set (prefill_ids w)"
    using H(2) g unfolding nodes_ok_def by fastforce
  obtain nd where nd: "w_nodes w n = Some nd" by (rule static_nodeE[OF H(1), of n]) (use n in auto)
  have pn: "prefill_node_ok st n nd" by (rule nodes_okD(1)[OF H(2) nd n])
  have run: "?r \<in> set (running_requests nd)" using pn sitsI[of st, OF g] by (simp add: prefill_node_ok_def)
  obtain u c' where u: "compute_uncached_tokens req q (w, e) = (Inr u, (w\<lparr>w_cm := c'\<rparr>, e))" "0 \<le> u" "cache_step (w_cm w) c'"
    "u \<le> int (length (token_ids req))"
    by (rule uncached_run[of w q]) (use cache_okD[OF H(3)] d(3) in auto)
  have start: "on_prefill_start ev (w, e) =
      (if u = 0 then py_bind (with_node n (mark_prefill_done ?r)) (\<lambda>_. emit (now e) PREFILL_COMPLETE
          (no_keys\<lparr>pl_request_id := Some ?r, pl_node_id := Some n, pl_request := Some req\<rparr>)) (w\<lparr>w_cm := c'\<rparr>, e)
       else py_bind (with_node n (enter_prefill ?r u)) (\<lambda>_. wake_batch_step n (now e)) (w\<lparr>w_cm := c'\<rparr>, e))"
    using pl d(1,2) n u(1) by (simp add: on_prefill_start_def sim_run py_bind_Inr)
  let ?st = "\<lambda>g'. st(?r \<mapsto> (req, g'))"
  have fin: "finite (dom st)" by (rule booksD(5)[OF H(5)])
  have cok: "cache_ok (?st g') w'" if "g' \<in> {St_prefill n, St_prefilled n}" "w_cm w' = c'" "decode_ids w' = decode_ids w" for g' w'
    by (rule cache_ok_move[OF H(3) u(3) that(2,3)]) (use sitsI[of st, OF g] in \<open>auto dest: sits_fun\<close>)
  have keys: "stage_keys (?st g') = stage_keys st - {K_start req n} \<union> set_option (stage_key req g')" for g'
    using stage_keys_upd(1)[OF H(9) g, of req g'] by simp
  have mv: "books_ok (?st g') w'" "transfers_ok (?st g') w'"
    if "g' \<in> {St_prefill n, St_prefilled n}" "w_requests w' = w_requests w" "decisions w' = decisions w"
      "prefill_ids w' = prefill_ids w" "decode_ids w' = decode_ids w" "pending_transfers w' = pending_transfers w" for g' w'
    using that by (auto intro!: books_ok_move[OF H(5) g] transfers_ok_other[OF H(4) g])
  have nok: "nodes_ok (?st g') w'"
    if "g' \<in> {St_prefill n, St_prefilled n}" "prefill_node_ok (?st g') n nd'" "w_nodes w' = (w_nodes w)(n \<mapsto> nd')"
      "prefill_ids w' = prefill_ids w" "decode_ids w' = decode_ids w" for g' w' nd'
    by (rule nodes_ok_move[OF H(2) g _ _ that(2-5)]) (use that(1) n in auto)
  have noK: "K_batch n \<notin> stage_keys st - {K_start req n} \<union> X" if "K_batch n \<notin> X" for X
    using that stage_keys_no_batch[of n st] by blast
  have nin: "?r \<notin> fst ` set (prefill_remaining nd)" and pos: "\<forall>u \<in> snd ` set (prefill_remaining nd). 0 < u"
    using pn sitsI[of st, OF g] sits_fun[of st ?r "St_starting n" "St_prefill n"] unfolding prefill_node_ok_def by auto
  show ?thesis
  proof (cases "u = 0")
    case True
    let ?nd = "upd_state ?r prefill_done_state nd" and ?g = "St_prefilled n"
    let ?w = "w\<lparr>w_cm := c', w_nodes := (w_nodes w)(n \<mapsto> ?nd)\<rparr>"
    let ?pl = "no_keys\<lparr>pl_request_id := Some ?r, pl_node_id := Some n, pl_request := Some req\<rparr>"
    let ?e = "push (now e) PREFILL_COMPLETE ?pl e"
    have res: "on_prefill_start ev (w, e) = (Inr (), (?w, ?e))"
      using start True run nd by (simp add: with_node_bind mark_prefill_done_def emit_run now_def)
    have inv: "mn_inv ?nd" by (rule mark_prefill_done_inv[of nd ?r]) (use pn run in \<open>auto simp: prefill_node_ok_def mark_prefill_done_def\<close>)
    have pn': "prefill_node_ok (?st ?g) n ?nd"
      by (rule prefill_node_move[OF pn inv _ _ _ _ sitsI[of st, OF g]]) (use nin pos in auto)
    have k: "life_key (mk_event (now e) PREFILL_COMPLETE ?pl) = Some (K_prefilled req n)"
      by (simp add: life_key_def for_request_def mk_event_def)
    have "settled (?st ?g) w (?w, ?e)"
    proof (rule settledI)
      show "static_ok ?w" by (rule static_ok_update[OF H(1) nd]) simp_all
      show "nodes_ok (?st ?g) ?w" by (rule nok[OF _ pn']) simp_all
      show "cache_ok (?st ?g) ?w" "books_ok (?st ?g) ?w" "transfers_ok (?st ?g) ?w" by (rule cok mv; simp)+
      have "has_work ?nd = has_work nd" by (simp add: has_work_def)
      then show "awake ?w" using awake_upd[OF H(6), of ?w n ?nd] H(6) nd unfolding awake_def by simp
      show "engine_ok ?e" using H(7) by (simp add: engine_ok_def)
      have bk: "batch_keys ((w_nodes w)(n \<mapsto> ?nd)) = batch_keys (w_nodes w)"
        by (rule batch_keys_same[where nds = "w_nodes w", OF nd]) simp
      have "K_prefilled req n \<notin> stage_keys st"
        using sitsI[of st, OF g] by (intro stage_key_absent[OF H(5), of req "St_prefilled n"]) (auto dest: sits_fun)
      then show "q_keys ?e (stage_keys (?st ?g) \<union> batch_keys (w_nodes ?w))"
        by (intro q_keys_push_key[OF H(8) _ k]) (auto simp: now_def keys bk dest: batch_keysD)
    qed simp_all
    moreover have "advance st (w, e) (?st ?g) (?w, ?e)"
      by (rule advance_move[OF fin g, where n = n and y = "Some ?nd"]) (use nd in \<open>auto intro: life_step.intros\<close>)
    ultimately show ?thesis using res by blast
  next
    case False
    obtain f where "\<And>s. enter_prefill ?r u s = (if ?r \<notin> set (running_requests s) then (Inl RuntimeError, s)
        else (Inr (), upd_state ?r f (s\<lparr>prefill_remaining := AList.update ?r u (prefill_remaining s)\<rparr>)))"
      unfolding enter_prefill_def by blast
    then have ep: "enter_prefill ?r u nd = (Inr (), upd_state ?r f (nd\<lparr>prefill_remaining := AList.update ?r u (prefill_remaining nd)\<rparr>))"
      using run by simp
    let ?nd = "upd_state ?r f (nd\<lparr>prefill_remaining := AList.update ?r u (prefill_remaining nd)\<rparr>)" and ?g = "St_prefill n"
    let ?w1 = "w\<lparr>w_cm := c', w_nodes := (w_nodes w)(n \<mapsto> ?nd)\<rparr>"
    let ?w = "?w1\<lparr>w_nodes := (w_nodes ?w1)(n \<mapsto> woken ?nd)\<rparr>"
    have inv: "mn_inv ?nd" using pn by (intro enter_prefill_inv[OF _ ep]) (simp add: prefill_node_ok_def)
    have upd: "AList.update ?r u (prefill_remaining nd) = prefill_remaining nd @ [(?r, u)]"
      by (rule update_append_fresh[OF nin])
    have pn': "prefill_node_ok (?st ?g) n (woken ?nd)"
      unfolding woken_ok by (rule prefill_node_move[OF pn inv _ _ _ _ sitsI[of st, OF g]]) (use nin pos False u(2) in \<open>auto simp: upd\<close>)
    have bk: "batch_keys ((w_nodes w)(n \<mapsto> ?nd)) = batch_keys (w_nodes w)"
      by (rule batch_keys_same[where nds = "w_nodes w", OF nd]) simp
    have q1: "q_keys e (stage_keys (?st ?g) \<union> batch_keys (w_nodes ?w1))"
    proof -
      have "stage_keys st \<union> batch_keys (w_nodes w) - set_option (Some (K_start req n)) = stage_keys (?st ?g) \<union> batch_keys (w_nodes ?w1)"
        by (auto simp: keys bk dest: batch_keysD)
      then show ?thesis using H(8) by simp
    qed
    obtain e' where W: "wake_batch_step n (now e) (?w1, e) = (Inr (), (?w, e'))"
      "q_keys e' (stage_keys (?st ?g) \<union> batch_keys ((w_nodes ?w1)(n \<mapsto> woken ?nd)))" "current_time e' = current_time e"
      "handlers e' = handlers e" "stopped e' = stopped e" "length (ev_queue e') \<le> Suc (length (ev_queue e))"
      by (rule wake_run[of ?w1 n ?nd e "now e", OF _ _ q1 stage_keys_no_batch]) (simp_all add: now_def)
    have res: "on_prefill_start ev (w, e) = (Inr (), (?w, e'))"
      using start False nd ep W(1) by (simp add: with_node_bind)
    have "settled (?st ?g) w (?w, e')"
    proof (rule settledI)
      show "static_ok ?w" by (rule static_ok_update[OF H(1) nd, of "woken ?nd"]) simp_all
      show "nodes_ok (?st ?g) ?w" by (rule nok[OF _ pn']) simp_all
      show "cache_ok (?st ?g) ?w" "books_ok (?st ?g) ?w" "transfers_ok (?st ?g) ?w" by (rule cok mv; simp)+
      show "awake ?w" by (rule awake_woken[OF awake_but_upd[OF awake_but[OF H(6), of n], of ?w1 "Some ?nd"], of ?w]) simp_all
      show "engine_ok e'" using H(7) W(4,5) by (simp add: engine_ok_def)
      show "q_keys e' (stage_keys (?st ?g) \<union> batch_keys (w_nodes ?w))" using W(2) by simp
    qed simp_all
    moreover have "advance st (w, e) (?st ?g) (?w, e')"
    proof (rule advance_move[OF fin g, where n = n and y = "Some (woken ?nd)"])
      have "tokens_left ?nd z = tokens_left nd z \<and> chunk_left ?nd z = chunk_left nd z" if "z \<noteq> ?r" for z
        using that by (simp add: tokens_left_def chunk_left_def update_conv')
      then show "Some (woken ?nd) = w_nodes w n \<or> (\<exists>x y. w_nodes w n = Some x \<and> Some (woken ?nd) = Some y \<and>
          (\<forall>z. z \<noteq> ?r \<longrightarrow> tokens_left y z = tokens_left x z \<and> chunk_left y z = chunk_left x z))"
        using nd by simp
      have "chunk_left ?nd ?r \<le> length (token_ids req)" using u(4) by (simp add: chunk_left_def update_conv')
      then show "(case Some (req, ?g) of None \<Rightarrow> 0 | Some z \<Rightarrow> needs (w_nodes ?w) ?r z) + length (ev_queue e') \<le>
          needs (w_nodes w) ?r (req, St_starting n) + length (ev_queue e)"
        using W(6) by simp
    qed (auto intro: life_step.intros)
    ultimately show ?thesis using res by blast
  qed
qed

end
