(* ===== verification/Sim_Prefill.thy ===== *)
theory Sim_Prefill
  imports Sim_Steps
begin

text \<open>
  The end of a prefill: the slot is given to the next waiting request and the KV cache starts to move to
  the decode node.
\<close>

section \<open>Starting a prefill\<close>

lemma start_prefill_event_run:
  assumes "w_nodes w n = Some nd" "cm_ready (w_cm w)" "q \<in> cm_nodes (w_cm w)" "now e = current_time e" "request_id req = r"
  obtains pl c' where "start_prefill_event r n req q (w, e) = (Inr (), (w\<lparr>w_cm := c'\<rparr>, push (now e) PREFILL_START pl e))"
    "cache_step (w_cm w) c'" "life_key (mk_event (now e) PREFILL_START pl) = Some (K_start req n)"
proof -
  obtain i c' where c: "compute_n_chunks req q (prefill_chunk_size (mn_model nd)) (w, e) = (Inr i, (w\<lparr>w_cm := c'\<rparr>, e))"
    "cache_step (w_cm w) c'"
    by (rule n_chunks_run[OF assms(2,3)])
  let ?pl = "no_keys\<lparr>pl_request_id := Some r, pl_node_id := Some n, pl_request := Some req, pl_n_chunks := Some i\<rparr>"
  have "start_prefill_event r n req q (w, e) = (Inr (), (w\<lparr>w_cm := c'\<rparr>, push (now e) PREFILL_START ?pl e))"
    using assms(1,4) c(1) by (simp add: start_prefill_event_def sim_run py_bind_Inr emit_run)
  moreover have "life_key (mk_event (now e) PREFILL_START ?pl) = Some (K_start req n)"
    using assms(5) by (simp add: life_key_def for_request_def mk_event_def)
  ultimately show thesis using that c(2) by blast
qed

section \<open>The slot of the finished request\<close>

lemma promote_next_frame:
  "promote_next s = (r, s') \<Longrightarrow> mn_node_id s' = mn_node_id s \<and> mn_model s' = mn_model s \<and> mn_config s' = mn_config s \<and>
    decoding s' = decoding s \<and> prefill_remaining s' = prefill_remaining s \<and> batch_step_in_flight s' = batch_step_in_flight s \<and>
    output_tokens s' = output_tokens s \<and> expected_output s' = expected_output s"
  by (auto simp: promote_next_def split: list.splits if_splits)

lemma init_promoted_run:
  assumes "r \<in> set (running_requests s)" "mn_inv s"
  obtains s' where "init_promoted r k pl u s = (Inr (), s')" "mn_inv s'" "mn_node_id s' = mn_node_id s" "mn_model s' = mn_model s"
    "mn_config s' = mn_config s" "running_requests s' = running_requests s" "queue s' = queue s" "decoding s' = decoding s"
    "prefill_remaining s' = prefill_remaining s" "batch_step_in_flight s' = batch_step_in_flight s"
    "\<And>z. z \<noteq> r \<Longrightarrow> tokens_left s' z = tokens_left s z"
proof -
  obtain a b c where i: "init_promoted r k pl u s = (Inr (), s\<lparr>output_tokens := a, expected_output := b, states := c\<rparr>)"
    "\<And>z. z \<noteq> r \<Longrightarrow> a z = output_tokens s z" "\<And>z. z \<noteq> r \<Longrightarrow> b z = expected_output s z"
    using assms(1) by (simp add: init_promoted_def)
  show thesis by (rule that[OF i(1) init_promoted_inv[OF assms(2) i(1)]]) (simp_all add: tokens_left_def i(2,3))
qed

text \<open>
  What \<open>complete\<close> does to a prefill node: the request leaves, and the head of the queue takes its slot.
\<close>

lemma prefill_vacate:
  assumes pn: "prefill_node_ok st n nd" and g: "st r = Some (req, St_prefilled n)"
  obtains p nd' where "complete r nd = (Inr p, nd')" "mn_node_id nd' = mn_node_id nd" "mn_model nd' = mn_model nd"
    "mn_config nd' = mn_config nd" "batch_step_in_flight nd' = batch_step_in_flight nd" "has_work nd' = has_work nd" "mn_inv nd'"
    "prefill_remaining nd' = prefill_remaining nd" "\<And>z. z \<noteq> r \<Longrightarrow> tokens_left nd' z = tokens_left nd z"
    "\<And>g. p = None \<Longrightarrow> stage_node g = None \<Longrightarrow> prefill_node_ok (st(r \<mapsto> (req, g))) n nd'"
    "\<And>pid preq g. p = Some pid \<Longrightarrow> stage_node g = None \<Longrightarrow> pid \<noteq> r \<and> pid \<in> set (running_requests nd') \<and> sits st pid (St_waiting n) \<and>
       prefill_node_ok (st(pid \<mapsto> (preq, St_starting n), r \<mapsto> (req, g))) n nd'"
proof -
  have P: "mn_inv nd" "decoding nd = {}" "set (queue nd) = {x. sits st x (St_waiting n)}"
    "set (running_requests nd) = {x. sits st x (St_starting n) \<or> sits st x (St_prefill n) \<or> sits st x (St_prefilled n)}"
    "fst ` set (prefill_remaining nd) = {x. sits st x (St_prefill n)}" "\<forall>u \<in> snd ` set (prefill_remaining nd). 0 < u"
    using pn by (simp_all add: prefill_node_ok_def)
  have only: "sits st r h \<longleftrightarrow> h = St_prefilled n" for h using sitsI[of st, OF g] sits_fun by blast
  have rin: "r \<in> set (running_requests nd)" using P(4) only by simp
  then have rq: "r \<notin> set (queue nd)" using mn_invD(4)[OF P(1)] by auto
  have rp: "r \<notin> fst ` set (prefill_remaining nd)" using P(5) only by simp
  obtain s1 p nd' where c: "complete r nd = (Inr p, nd')" "promote_next s1 = (p, nd')" "vacated s1"
    "s1 = forget r (nd\<lparr>running_requests := remove1 r (running_requests nd), queue := remove1 r (queue nd)\<rparr>)"
    by (rule complete_run[OF P(1), of r]) (use rin in auto)
  have s1: "running_requests s1 = remove1 r (running_requests nd)" "queue s1 = queue nd" "decoding s1 = {}"
    "prefill_remaining s1 = prefill_remaining nd" "mn_node_id s1 = mn_node_id nd" "mn_model s1 = mn_model nd"
    "mn_config s1 = mn_config nd" "batch_step_in_flight s1 = batch_step_in_flight nd"
    using rq rp P(2) by (simp_all add: c(4) remove1_idem delete_idem)
  note N = promote_next_inv[OF c(3,2)] and F = promote_next_frame[OF c(2)]
  have set1: "set (running_requests s1) = set (running_requests nd) - {r}"
    using mn_invD(2)[OF P(1)] by (simp add: s1)
  have pr: "prefill_remaining nd' = prefill_remaining nd" "decoding nd' = {}" using F s1 by simp_all
  show thesis
  proof (rule that[OF c(1)])
    show "mn_node_id nd' = mn_node_id nd" "mn_model nd' = mn_model nd" "mn_config nd' = mn_config nd"
      "batch_step_in_flight nd' = batch_step_in_flight nd" "has_work nd' = has_work nd" "mn_inv nd'"
      using F s1 N(1) P(2) by (simp_all add: has_work_def)
    show "prefill_remaining nd' = prefill_remaining nd" by (rule pr(1))
    show "tokens_left nd' z = tokens_left nd z" if "z \<noteq> r" for z
      using F that by (simp add: tokens_left_def c(4))
    show "prefill_node_ok (st(r \<mapsto> (req, g))) n nd'" if "p = None" and tid: "stage_node g = None" for g
    proof -
      have "running_requests nd' = running_requests s1" "queue nd' = queue nd" using N(4,5) that(1) s1 by simp_all
      then show ?thesis unfolding prefill_node_ok_def using N(1) P(3-6) set1 pr tid only by auto
    qed
    show "pid \<noteq> r \<and> pid \<in> set (running_requests nd') \<and> sits st pid (St_waiting n) \<and>
       prefill_node_ok (st(pid \<mapsto> (preq, St_starting n), r \<mapsto> (req, g))) n nd'" if p: "p = Some pid" and tid: "stage_node g = None" for pid preq g
    proof -
      have run: "running_requests nd' = running_requests s1 @ [pid]" using N(4) p by simp
      obtain rest where q: "queue nd = pid # rest" using N(3) p s1 by (auto split: if_splits list.splits)
      have rest: "queue nd' = rest" using N(5) run q s1 by simp
      have w: "sits st pid (St_waiting n)" using q P(3) by auto
      have pnr: "pid \<noteq> r" using w only by blast
      have onlyp: "sits st pid h \<longleftrightarrow> h = St_waiting n" for h using w sits_fun by blast
      have "pid \<notin> set rest" using mn_invD(3)[OF P(1)] q by simp
      then have "set rest = set (queue nd) - {pid}" using q by auto
      then have "prefill_node_ok (st(pid \<mapsto> (preq, St_starting n), r \<mapsto> (req, g))) n nd'"
        unfolding prefill_node_ok_def run rest pr using N(1) P(3-6) set1 tid only onlyp pnr by auto
      then show ?thesis using pnr run w by simp
    qed
  qed
qed

lemma start_promoted_run:
  assumes nd: "w_nodes w n = Some nd" "pid \<in> set (running_requests nd)" "mn_inv nd"
    and known: "w_requests w pid = Some preq" "decisions w pid = Some pd" "decode_node pd = Some q" "request_id preq = pid"
    and c: "cm_ready (w_cm w)" "q \<in> cm_nodes (w_cm w)" and t: "now e = current_time e"
  obtains pl c' nd' where
    "start_promoted n pid (w, e) = (Inr (), (w\<lparr>w_cm := c', w_nodes := (w_nodes w)(n \<mapsto> nd')\<rparr>, push (now e) PREFILL_START pl e))"
    "cache_step (w_cm w) c'" "life_key (mk_event (now e) PREFILL_START pl) = Some (K_start preq n)"
    "mn_inv nd'" "mn_node_id nd' = mn_node_id nd" "mn_model nd' = mn_model nd" "mn_config nd' = mn_config nd"
    "running_requests nd' = running_requests nd" "queue nd' = queue nd" "decoding nd' = decoding nd"
    "prefill_remaining nd' = prefill_remaining nd" "batch_step_in_flight nd' = batch_step_in_flight nd"
    "\<And>z. z \<noteq> pid \<Longrightarrow> tokens_left nd' z = tokens_left nd z"
proof -
  obtain u c1 where u: "compute_uncached_tokens preq q (w, e) = (Inr u, (w\<lparr>w_cm := c1\<rparr>, e))" "cache_step (w_cm w) c1"
    by (rule uncached_run[OF c])
  obtain nd' where i: "init_promoted pid (int (expected_output_len preq)) (Some (int (length (token_ids preq)))) (Some u) nd = (Inr (), nd')"
    "mn_inv nd'" "mn_node_id nd' = mn_node_id nd" "mn_model nd' = mn_model nd" "mn_config nd' = mn_config nd"
    "running_requests nd' = running_requests nd" "queue nd' = queue nd" "decoding nd' = decoding nd"
    "prefill_remaining nd' = prefill_remaining nd" "batch_step_in_flight nd' = batch_step_in_flight nd"
    "\<And>z. z \<noteq> pid \<Longrightarrow> tokens_left nd' z = tokens_left nd z"
    by (rule init_promoted_run[OF nd(2,3)]) blast
  let ?w1 = "w\<lparr>w_cm := c1, w_nodes := (w_nodes w)(n \<mapsto> nd')\<rparr>"
  have c1: "cm_ready (w_cm ?w1)" "q \<in> cm_nodes (w_cm ?w1)" using u(2) c by (simp_all add: cache_step_def)
  obtain pl c' where s: "start_prefill_event pid n preq q (?w1, e) = (Inr (), (?w1\<lparr>w_cm := c'\<rparr>, push (now e) PREFILL_START pl e))"
    "cache_step (w_cm ?w1) c'" "life_key (mk_event (now e) PREFILL_START pl) = Some (K_start preq n)"
    by (rule start_prefill_event_run[OF _ c1 t known(4), of n nd']) simp_all
  have "start_promoted n pid (w, e) = (Inr (), (w\<lparr>w_cm := c', w_nodes := (w_nodes w)(n \<mapsto> nd')\<rparr>, push (now e) PREFILL_START pl e))"
    using known u(1) i(1) s(1) nd(1)
    by (simp add: start_promoted_def sim_run py_bind_Inr with_node_bind)
  moreover have "cache_step (w_cm w) c'" using cache_step_trans[OF u(2), of c'] s(2) by simp
  ultimately show thesis by (rule that[OF _ _ s(3) i(2-11)])
qed

section \<open>The transfer\<close>

lemma start_transfer_run:
  assumes d: "prefill_node d = Some src" "decode_node d = Some dst" and t: "now e = current_time e" and bw: "bandwidth_config_ok (w_bw w)"
  obtains tm' tc' info tid k t1 t2 pl1 pl2 where
    "start_transfer r req d (w, e) = (Inr (), (w\<lparr>w_transfer := tm', transfer_counter := tc',
       pending_transfers := (pending_transfers w)(tid \<mapsto> info)\<rparr>,
       push t2 KV_TRANSFER_COMPLETE pl2 (push t1 KV_TRANSFER_START pl1 e)))"
    "tid = transfer_name r k" "pt_request_id info = r" "pt_request info = req" "now e \<le> t1" "t1 \<le> t2" "pl_transfer_id pl2 = Some tid"
proof -
  let ?c = "of_nat (length (token_ids req) * kv_bytes_per_token (w_model w)) / gpu_to_gpu (w_bw w) * 1000"
  obtain t1 t2 tm' where rt: "request_transfer src dst (now e) ?c (w_transfer w) = ((t1, t2), tm')"
    by (metis prod.collapse)
  have "0 \<le> ?c" using bw by (simp add: bandwidth_config_ok_def)
  then have le: "now e \<le> t1" "t1 \<le> t2" using transfers.transfer_start[OF rt] by simp_all
  obtain k tc' where k: "next_transfer_id r (w\<lparr>w_transfer := tm'\<rparr>, e) =
      (Inr (transfer_name r k), (w\<lparr>w_transfer := tm', transfer_counter := tc'\<rparr>, e))"
    by (simp add: next_transfer_id_def Let_def)
  let ?tid = "transfer_name r k"
  let ?info = "\<lparr>pt_request_id = r, pt_src = src, pt_dst = dst, pt_cost_ms = t2 - now e, pt_request = req\<rparr>"
  let ?pl = "no_keys\<lparr>pl_request_id := Some r, pl_transfer_id := Some ?tid, pl_src_node_id := Some src,
    pl_dst_node_id := Some dst, pl_service_cost_ms := Some ?c, pl_queued_cost_ms := Some (t1 - now e), pl_cost_ms := Some (t2 - now e)\<rparr>"
  have "start_transfer r req d (w, e) = (Inr (), (w\<lparr>w_transfer := tm', transfer_counter := tc',
      pending_transfers := (pending_transfers w)(?tid \<mapsto> ?info)\<rparr>,
      push t2 KV_TRANSFER_COMPLETE (?pl\<lparr>pl_request := Some req\<rparr>) (push t1 KV_TRANSFER_START ?pl e)))"
    using d le t k rt by (simp add: start_transfer_def sim_run Let_def py_bind_Inr emit_run)
  then show thesis by (rule that) (use le in simp_all)
qed

lemma transfers_ok_start:
  assumes ok: "transfers_ok st w" and g: "st r = Some (req, g)" "\<forall>tid. g \<noteq> St_transfer tid" and tid: "tid = transfer_name r k"
    and w': "pending_transfers w' = (pending_transfers w)(tid \<mapsto> info)" "pt_request_id info = r" "pt_request info = req"
  shows "transfers_ok (st(r \<mapsto> (req, St_transfer tid))) w'"
proof -
  have fwd: "st (pt_request_id i) = Some (pt_request i, St_transfer x) \<and> (\<exists>k. x = transfer_name (pt_request_id i) k)"
    if "pending_transfers w x = Some i" for x i using ok that unfolding transfers_ok_def by blast
  have bwd: "\<exists>i. pending_transfers w x = Some i \<and> pt_request_id i = y \<and> pt_request i = q"
    if "st y = Some (q, St_transfer x)" for y q x using ok that unfolding transfers_ok_def by blast
  have nr: "pt_request_id i \<noteq> r" if "pending_transfers w x = Some i" for x i using fwd[OF that] g by auto
  have fresh: "pending_transfers w tid = None"
  proof (rule ccontr)
    assume "pending_transfers w tid \<noteq> None"
    then obtain i where i: "pending_transfers w tid = Some i" by blast
    obtain k' where "tid = transfer_name (pt_request_id i) k'" using fwd[OF i] by blast
    then have "pt_request_id i = r" using transfer_name_inj tid by blast
    then show False using nr[OF i] by simp
  qed
  have "(st(r \<mapsto> (req, St_transfer tid))) (pt_request_id i) = Some (pt_request i, St_transfer x) \<and> (\<exists>k. x = transfer_name (pt_request_id i) k)"
    if i: "pending_transfers w' x = Some i" for x i
  proof (cases "x = tid")
    case True
    then have "i = info" using i w'(1) by simp
    then show ?thesis using True tid w' by auto
  next
    case False
    then have "pending_transfers w x = Some i" using i w'(1) by simp
    then show ?thesis using fwd nr by simp
  qed
  moreover have "\<exists>i. pending_transfers w' x = Some i \<and> pt_request_id i = y \<and> pt_request i = q"
    if "(st(r \<mapsto> (req, St_transfer tid))) y = Some (q, St_transfer x)" for y q x
  proof (cases "y = r")
    case True
    then show ?thesis using that w' by simp
  next
    case False
    then have "st y = Some (q, St_transfer x)" using that by simp
    then obtain i where i: "pending_transfers w x = Some i" "pt_request_id i = y" "pt_request i = q" using bwd by blast
    then have "x \<noteq> tid" using fresh by auto
    then show ?thesis using i w'(1) by simp
  qed
  ultimately show ?thesis unfolding transfers_ok_def by blast
qed

section \<open>The handler\<close>

text \<open>Giving the slot away: the stages \<open>st1\<close> differ from \<open>st\<close> in the promoted request only.\<close>

lemma promotion_step:
  assumes h: "handling (Some (K_prefilled req n)) st (w, e)" and g: "st (request_id req) = Some (req, St_prefilled n)"
    and nd: "w_nodes w n = Some nd" and n: "n \<in> set (prefill_ids w)"
  obtains st1 c' nd' e1 where
    "\<And>k. py_bind (py_except (with_node n (complete (request_id req))) ValueError None)
        (\<lambda>p. py_bind (case p of None \<Rightarrow> py_return () | Some pid \<Rightarrow> start_promoted n pid) k) (w, e) =
      k () (w\<lparr>w_cm := c', w_nodes := (w_nodes w)(n \<mapsto> nd')\<rparr>, e1)"
    "cache_step (w_cm w) c'" "mn_node_id nd' = mn_node_id nd" "mn_model nd' = mn_model nd" "mn_config nd' = mn_config nd"
    "batch_step_in_flight nd' = batch_step_in_flight nd" "has_work nd' = has_work nd"
    "st1 = st \<or> (\<exists>pid preq. st pid = Some (preq, St_waiting n) \<and> st1 = st(pid \<mapsto> (preq, St_starting n)))"
    "\<And>h. stage_node h = None \<Longrightarrow> prefill_node_ok (st1(request_id req \<mapsto> (req, h))) n nd'"
    "q_keys e1 (stage_keys st1 \<union> batch_keys (w_nodes w) - {K_prefilled req n})"
    "handlers e1 = handlers e" "stopped e1 = stopped e" "current_time e1 = current_time e"
    "\<And>w'. w_nodes w' = (w_nodes w)(n \<mapsto> nd') \<Longrightarrow> budget st1 (w', e1) \<le> budget st (w, e)"
proof -
  let ?r = "request_id req"
  note H = handlingD[OF h]
  have pn: "prefill_node_ok st n nd" by (rule nodes_okD(1)[OF H(2) nd n])
  obtain p nd1 where c: "complete ?r nd = (Inr p, nd1)" "mn_node_id nd1 = mn_node_id nd" "mn_model nd1 = mn_model nd"
    "mn_config nd1 = mn_config nd" "batch_step_in_flight nd1 = batch_step_in_flight nd" "has_work nd1 = has_work nd" "mn_inv nd1"
    and left1: "prefill_remaining nd1 = prefill_remaining nd" "\<And>z. z \<noteq> ?r \<Longrightarrow> tokens_left nd1 z = tokens_left nd z"
    and c0: "\<And>g. p = None \<Longrightarrow> stage_node g = None \<Longrightarrow> prefill_node_ok (st(?r \<mapsto> (req, g))) n nd1"
    and c1: "\<And>pid preq g. p = Some pid \<Longrightarrow> stage_node g = None \<Longrightarrow> pid \<noteq> ?r \<and> pid \<in> set (running_requests nd1) \<and>
       sits st pid (St_waiting n) \<and> prefill_node_ok (st(pid \<mapsto> (preq, St_starting n), ?r \<mapsto> (req, g))) n nd1"
    by (rule prefill_vacate[OF pn g]) blast
  have fin: "finite (dom st)" by (rule booksD(5)[OF H(5)])
  let ?w1 = "w\<lparr>w_nodes := (w_nodes w)(n \<mapsto> nd1)\<rparr>"
  have first: "py_bind (py_except (with_node n (complete ?r)) ValueError None) k (w, e) = k p (?w1, e)" for k
    using c(1) nd by (simp add: py_bind_def py_except_def with_node_def)
  have e: "now e = current_time e" by (simp add: now_def)
  show thesis
  proof (cases p)
    case None
    show thesis
    proof (rule that[where c' = "w_cm w" and nd' = nd1 and ?e1.0 = e and ?st1.0 = st])
      have "py_bind (py_return ()) k s = k () s" for k :: "unit \<Rightarrow> ('z, 'y) py" and s by (simp add: py_bind_def py_return_def)
      then show "py_bind (py_except (with_node n (complete ?r)) ValueError None)
          (\<lambda>p. py_bind (case p of None \<Rightarrow> py_return () | Some pid \<Rightarrow> start_promoted n pid) k) (w, e) =
        k () (w\<lparr>w_cm := w_cm w, w_nodes := (w_nodes w)(n \<mapsto> nd1)\<rparr>, e)" for k
        unfolding first None by simp
      show "cache_step (w_cm w) (w_cm w)" using cache_step_refl cache_okD[OF H(3)] by blast
      show "budget st (w', e) \<le> budget st (w, e)" if "w_nodes w' = (w_nodes w)(n \<mapsto> nd1)" for w'
        using budget_node_change[OF fin, of "{?r}" st w n nd w' nd1 e e 0] nd that left1 g by (auto simp: need_def chunk_left_def)
    qed (use None c c0 H(8) in simp_all)
  next
    case (Some pid)
    obtain preq where w: "st pid = Some (preq, St_waiting n)" using c1[OF Some, of St_rejected] by (auto simp: sits_def)
    have id: "request_id preq = pid" by (rule booksD(1)[OF H(5) w])
    obtain pd pp q where d: "w_requests w pid = Some preq" "decisions w pid = Some pd" "decode_node pd = Some q" "q \<in> set (decode_ids w)"
      by (rule books_decision[OF H(5) w]) auto
    have c': "cm_ready (w_cm ?w1)" "q \<in> cm_nodes (w_cm ?w1)" using cache_okD[OF H(3)] d(4) by simp_all
    have pin: "pid \<in> set (running_requests nd1)" using c1[OF Some, of St_rejected] by simp
    obtain pl c' nd2 where s:
      "start_promoted n pid (?w1, e) = (Inr (), (?w1\<lparr>w_cm := c', w_nodes := (w_nodes ?w1)(n \<mapsto> nd2)\<rparr>, push (now e) PREFILL_START pl e))"
      "cache_step (w_cm ?w1) c'" "life_key (mk_event (now e) PREFILL_START pl) = Some (K_start preq n)"
      "mn_inv nd2" "mn_node_id nd2 = mn_node_id nd1" "mn_model nd2 = mn_model nd1" "mn_config nd2 = mn_config nd1"
      "running_requests nd2 = running_requests nd1" "queue nd2 = queue nd1" "decoding nd2 = decoding nd1"
      "prefill_remaining nd2 = prefill_remaining nd1" "batch_step_in_flight nd2 = batch_step_in_flight nd1"
      "\<And>z. z \<noteq> pid \<Longrightarrow> tokens_left nd2 z = tokens_left nd1 z"
      by (rule start_promoted_run[of ?w1 n nd1 pid preq pd q e, OF _ pin c(7) _ _ d(3) id c' e]) (use d in simp_all)
    let ?st = "st(pid \<mapsto> (preq, St_starting n))" and ?e = "push (now e) PREFILL_START pl e"
    have keys: "stage_keys ?st = stage_keys st \<union> {K_start preq n}" using stage_keys_upd(1)[OF H(9) w, of preq "St_starting n"] by simp
    have "K_start preq n \<notin> stage_keys st"
      using sitsI[of st, OF w] id by (intro stage_key_absent[OF H(5), of preq "St_starting n"]) (auto dest: sits_fun)
    then have q: "q_keys ?e (stage_keys ?st \<union> batch_keys (w_nodes w) - {K_prefilled req n})"
      by (intro q_keys_push_key[OF H(8) _ s(3)]) (auto simp: e keys dest: batch_keysD)
    have ok: "prefill_node_ok (?st(?r \<mapsto> (req, g))) n nd2" if "stage_node g = None" for g
      using c1[OF Some that, of preq] s(4-12) by (simp add: prefill_node_ok_def)
    show thesis
    proof (rule that[where c' = c' and nd' = nd2 and ?e1.0 = ?e and ?st1.0 = ?st])
      show "?st = st \<or> (\<exists>pid preq. st pid = Some (preq, St_waiting n) \<and> ?st = st(pid \<mapsto> (preq, St_starting n)))"
        using w by blast
      show "py_bind (py_except (with_node n (complete ?r)) ValueError None)
          (\<lambda>p. py_bind (case p of None \<Rightarrow> py_return () | Some pid \<Rightarrow> start_promoted n pid) k) (w, e) =
        k () (w\<lparr>w_cm := c', w_nodes := (w_nodes w)(n \<mapsto> nd2)\<rparr>, ?e)" for k
        unfolding first Some by (simp add: py_bind_def s(1)[simplified])
      show "has_work nd2 = has_work nd" using s(10,11) c(6) by (simp add: has_work_def)
      have pr: "pid \<noteq> ?r" using c1[OF Some, of St_rejected] by simp
      show "budget ?st (w', ?e) \<le> budget st (w, e)" if "w_nodes w' = (w_nodes w)(n \<mapsto> nd2)" for w'
        using budget_node_change[OF fin, of "{pid, ?r}" ?st w n nd w' nd2 ?e e 0] nd that left1 s(11,13) g w pr
        by (auto simp: need_def chunk_left_def)
    qed (use s c q ok in simp_all)
  qed
qed

lemma on_prefill_complete_step:
  assumes h: "handling (Some (K_prefilled req n)) st (w, e)" and ev: "for_request K_prefilled (ev_payload ev) = Some (K_prefilled req n)"
    and g: "st (request_id req) = Some (req, St_prefilled n)"
  shows "\<exists>st' s'. on_prefill_complete ev (w, e) = (Inr (), s') \<and> same_requests st st' \<and> settled st' w s' \<and>
    advance st (w, e) st' s'"
proof -
  let ?r = "request_id req"
  note H = handlingD[OF h]
  have pl: "pl_request (ev_payload ev) = Some req" "pl_request_id (ev_payload ev) = Some ?r" "pl_node_id (ev_payload ev) = Some n"
    using ev by (auto simp: for_request_def split: option.splits if_splits)
  obtain d p q where d: "decisions w ?r = Some d" "prefill_node d = Some p" "decode_node d = Some q"
    by (rule books_decision[OF H(5) g]) auto
  have n: "n \<in> set (prefill_ids w)" using H(2) g unfolding nodes_ok_def by fastforce
  obtain nd where nd: "w_nodes w n = Some nd" by (rule static_nodeE[OF H(1), of n]) (use n in auto)
  obtain st1 c' nd' e1 where P:
    "\<And>k :: unit \<Rightarrow> unit sim. py_bind (py_except (with_node n (complete ?r)) ValueError None)
        (\<lambda>p. py_bind (case p of None \<Rightarrow> py_return () | Some pid \<Rightarrow> start_promoted n pid) k) (w, e) =
      k () (w\<lparr>w_cm := c', w_nodes := (w_nodes w)(n \<mapsto> nd')\<rparr>, e1)"
    "cache_step (w_cm w) c'" "mn_node_id nd' = mn_node_id nd" "mn_model nd' = mn_model nd" "mn_config nd' = mn_config nd"
    "batch_step_in_flight nd' = batch_step_in_flight nd" "has_work nd' = has_work nd"
    "st1 = st \<or> (\<exists>pid preq. st pid = Some (preq, St_waiting n) \<and> st1 = st(pid \<mapsto> (preq, St_starting n)))"
    and ok: "\<And>h. stage_node h = None \<Longrightarrow> prefill_node_ok (st1(?r \<mapsto> (req, h))) n nd'"
    and q1: "q_keys e1 (stage_keys st1 \<union> batch_keys (w_nodes w) - {K_prefilled req n})"
    "handlers e1 = handlers e" "stopped e1 = stopped e" "current_time e1 = current_time e"
    and b1: "\<And>w'. w_nodes w' = (w_nodes w)(n \<mapsto> nd') \<Longrightarrow> budget st1 (w', e1) \<le> budget st (w, e)"
    by (rule promotion_step[OF h g nd n]) blast
  have g1: "st1 ?r = Some (req, St_prefilled n)" using P(8) g by auto
  have same1: "same_requests st st1" using P(8) same_requests_upd[of st _ _ "St_waiting n" "St_starting n"]
    by (elim disjE exE conjE) (simp_all add: same_requests_def)
  have books1: "books_ok st1 w" using P(8) H(5) books_ok_move[OF H(5), where w' = w] by auto
  have tr1: "transfers_ok st1 w" using P(8) H(4) transfers_ok_other[OF H(4), where w' = w] by auto
  let ?w1 = "w\<lparr>w_cm := c', w_nodes := (w_nodes w)(n \<mapsto> nd')\<rparr>"
  have bw: "bandwidth_config_ok (w_bw ?w1)" using static_okD(2)[OF H(1)] by simp
  obtain tm' tc' info tid k t1 t2 pl1 pl2 where S:
    "start_transfer ?r req d (?w1, e1) = (Inr (), (?w1\<lparr>w_transfer := tm', transfer_counter := tc',
       pending_transfers := (pending_transfers ?w1)(tid \<mapsto> info)\<rparr>,
       push t2 KV_TRANSFER_COMPLETE pl2 (push t1 KV_TRANSFER_START pl1 e1)))"
    "tid = transfer_name ?r k" "pt_request_id info = ?r" "pt_request info = req" "now e1 \<le> t1" "t1 \<le> t2" "pl_transfer_id pl2 = Some tid"
    by (rule start_transfer_run[OF d(2,3) _ bw, of e1 ?r req]) (simp add: now_def)
  let ?w = "?w1\<lparr>w_transfer := tm', transfer_counter := tc', pending_transfers := (pending_transfers ?w1)(tid \<mapsto> info)\<rparr>"
  let ?e = "push t2 KV_TRANSFER_COMPLETE pl2 (push t1 KV_TRANSFER_START pl1 e1)"
  let ?st = "st1(?r \<mapsto> (req, St_transfer tid))"
  have res: "on_prefill_complete ev (w, e) = (Inr (), (?w, ?e))"
    using pl d(1) n by (simp add: on_prefill_complete_def sim_run P(1) S(1)[simplified])
  have tk: "transfers_ok ?st ?w" by (rule transfers_ok_start[OF tr1 g1 _ S(2) _ S(3,4)]) simp_all
  have "settled ?st w (?w, ?e)"
  proof (rule settledI)
    show "static_ok ?w" by (rule static_ok_update[OF H(1) nd P(3-5)]) simp_all
    show "transfers_ok ?st ?w" by (rule tk)
    show bk: "books_ok ?st ?w" by (rule books_ok_move[OF books1 g1]) simp_all
    show "cache_ok ?st ?w"
    proof (rule cache_ok_move[OF H(3) P(2)])
      fix x m assume dec: "sits st x (St_decoding m) \<or> sits st x (St_ending m)"
      then have "x \<noteq> ?r" using sitsI[of st, OF g] by (auto dest: sits_fun)
      moreover have "st1 x = st x" using P(8) dec by (auto simp: sits_def)
      ultimately show "sits ?st x (St_decoding m) \<or> sits ?st x (St_ending m)" using dec by (simp add: sits_def)
    qed simp_all
    show "awake ?w" using awake_upd[OF H(6), of ?w n nd'] H(6) nd P(6,7) unfolding awake_def by simp
    show "engine_ok ?e" using H(7) q1 by (simp add: engine_ok_def)
    show "nodes_ok ?st ?w"
    proof (rule nodes_ok_update[OF H(2), where n = n and nd' = nd'])
      show "if n \<in> set (prefill_ids w) then prefill_node_ok ?st n nd' else decode_node_ok ?st n nd'" using ok[of "St_transfer tid"] n by simp
      fix x h m assume hm: "stage_node h = Some m" "m \<noteq> n"
      have "sits st1 x h \<longleftrightarrow> sits st x h" using P(8)
      proof (elim disjE exE conjE)
        fix pid preq assume a: "st pid = Some (preq, St_waiting n)" "st1 = st(pid \<mapsto> (preq, St_starting n))"
        then show ?thesis using hm sitsI[of st, OF a(1)] by (auto dest: sits_fun)
      qed simp
      moreover have "\<not> sits st ?r h" using sitsI[of st, OF g] hm by (auto dest: sits_fun)
      moreover have "h \<noteq> St_transfer tid" using hm by auto
      ultimately show "sits ?st x h \<longleftrightarrow> sits st x h" by simp
    next
      fix x y h assume x: "?st x = Some (y, h)" "stage_node h = Some n"
      show "n \<in> (if (\<exists>m. h = St_decoding m \<or> h = St_ending m) then set (decode_ids w) else set (prefill_ids w))"
      proof (cases "st x = Some (y, h)")
        case True
        then show ?thesis using H(2) x(2) unfolding nodes_ok_def by blast
      next
        case False
        then have "h = St_starting n" using P(8) x by (auto split: if_splits)
        then show ?thesis using n by simp
      qed
    qed simp_all
    have kp: "keyed_apart st1" by (rule world_keyed_apart[OF books1 tr1])
    have keys: "stage_keys ?st = stage_keys st1 - {K_prefilled req n} \<union> {K_transfer tid}"
      using stage_keys_upd(1)[OF kp g1, of req "St_transfer tid"] by simp
    have fresh: "K_transfer tid \<notin> stage_keys st1"
    proof
      assume "K_transfer tid \<in> stage_keys st1"
      then obtain x y h where x: "st1 x = Some (y, h)" "stage_key y h = Some (K_transfer tid)" by (auto simp: stage_keys_def)
      then have "h = St_transfer tid" by (cases h) auto
      moreover have "x = ?r"
      proof -
        obtain i where i: "pending_transfers w tid = Some i" "pt_request_id i = x"
          using tr1 x(1) \<open>h = St_transfer tid\<close> unfolding transfers_ok_def by blast
        then obtain k' where "tid = transfer_name x k'" using tr1 unfolding transfers_ok_def by blast
        then show ?thesis using S(2) transfer_name_inj by blast
      qed
      ultimately show False using x(1) g1 by simp
    qed
    have bk: "batch_keys ((w_nodes w)(n \<mapsto> nd')) = batch_keys (w_nodes w)"
      by (rule batch_keys_same[where nds = "w_nodes w", OF nd]) (rule P(6))
    have kk: "life_key (mk_event t2 KV_TRANSFER_COMPLETE pl2) = Some (K_transfer tid)"
      using S(7) by (simp add: life_key_def mk_event_def)
    have t: "current_time e1 \<le> t1" "current_time e1 \<le> t2" using S(5,6) by (simp_all add: now_def)
    have "q_keys (push t1 KV_TRANSFER_START pl1 e1) (stage_keys st1 \<union> batch_keys (w_nodes w) - {K_prefilled req n})"
      by (rule q_keys_push_silent[OF q1(1) t(1)]) (simp add: silent_def)
    then show "q_keys ?e (stage_keys ?st \<union> batch_keys (w_nodes ?w))"
      by (rule q_keys_push_key[OF _ _ kk]) (use t fresh in \<open>auto simp: keys bk dest: batch_keysD\<close>)
  qed simp_all
  moreover have "same_requests st ?st" by (rule same_requests_trans[OF same1 same_requests_upd[of st1, OF g1]]) simp_all
  moreover have "advance st (w, e) ?st (?w, ?e)"
  proof -
    have "advance st1 (?w1, e1) ?st (?w, ?e)"
      by (rule advance_move[OF booksD(5)[OF books1] g1, where n = n and y = "w_nodes ?w1 n"])
        (auto intro: life_step.intros simp: after_prefill_def)
    then have "budget ?st (?w, ?e) \<le> budget st (w, e)" using b1[of ?w1] by (simp add: advance_def)
    moreover have "life_step (st ?r) (Some (req, St_transfer tid))" unfolding g by (rule life_step.transfers)
    moreover have "st1 x = st x \<or> life_step (st x) (st1 x)" for x
      using P(8) by (auto simp: life_step.promoted)
    ultimately show ?thesis unfolding advance_def life_moves_def by simp
  qed
  ultimately show ?thesis using res by blast
qed

end
