(* ===== verification/Sim_Decode.thy ===== *)
theory Sim_Decode
  imports Sim_Prefill
begin

text \<open>
  The decode side: the end of a transfer, the batch steps, and the end of a request.
\<close>

section \<open>The cache\<close>

lemma on_node_frame: "on_node n m c = (r, c') \<Longrightarrow>
    bw_cfg c' = bw_cfg c \<and> cm_nodes c' = cm_nodes c \<and> block_tables c' = block_tables c"
  by (auto simp: on_node_def cm_nodes_def update_conv' split: option.splits prod.splits if_splits)

lemma materialize_step:
  assumes c: "cm_ready c" and n: "n \<in> cm_nodes c" and key: "block_tables c (n, r) = None"
    and m: "materialize_request t r toks n c = (x, c')" and ok: "x \<noteq> Inl RuntimeError"
  shows "x = Inl MemoryError \<or> isl x = False" "cm_ready c'" "cm_nodes c' = cm_nodes c"
    "\<And>k. block_tables c' k \<noteq> None \<Longrightarrow> block_tables c k \<noteq> None \<or> k = (n, r)"
proof -
  have inv: "cm_inv c" and bw: "bandwidth_config_ok (bw_cfg c)" using c by (simp_all add: cm_ready_def)
  obtain tr p where tp: "map_of (trees c) n = Some tr" "pools c n = Some p"
    by (rule cm_nodeE[OF inv, of n]) (use n in \<open>auto simp: cm_nodes_def\<close>)
  show "x = Inl MemoryError \<or> isl x = False" by (rule materialize_run[OF inv tp key m]) (use ok in auto)
  show "block_tables c k \<noteq> None \<or> k = (n, r)" if "block_tables c' k \<noteq> None" for k
    by (rule materialize_run[OF inv tp key m]) (use that in \<open>auto split: if_splits\<close>)
  have fr: "bw_cfg c' = bw_cfg c \<and> cm_nodes c' = cm_nodes c"
    using m on_node_frame[of n _ c] by (fastforce simp: materialize_request_def Let_def cm_nodes_def split: if_splits prod.splits sum.splits)
  then show "cm_ready c'" "cm_nodes c' = cm_nodes c"
    using materialize_keeps_inv[OF inv m ok] bw by (simp_all add: cm_ready_def)
qed

lemma release_step:
  assumes c: "cm_ready c" and n: "n \<in> cm_nodes c"
  obtains x c' where "release_request r n c = (x, c')" "x = Inr () \<or> x = Inl KeyError" "cm_ready c'" "cm_nodes c' = cm_nodes c"
    "block_tables c' = (block_tables c)((n, r) := None)"
proof -
  have inv: "cm_inv c" and bw: "bandwidth_config_ok (bw_cfg c)" using c by (simp_all add: cm_ready_def)
  show thesis
  proof (cases "block_tables c (n, r)")
    case None
    then have "release_request r n c = (Inl KeyError, c)" using n by (simp add: release_request_def cm_nodes_def)
    then show thesis using that[of "Inl KeyError" c] c None by (simp add: fun_upd_idem)
  next
    case (Some tb)
    obtain c' where R: "release_request r n c = (Inr (), c')" "cm_inv c'" "block_tables c' = (block_tables c)((n, r) := None)"
      by (rule release_run[OF inv Some])
    obtain y where "map_of (trees c) n = Some y" using n by (auto simp: cm_nodes_def)
    then have "on_node n (release_blocks (bt_block_ids tb)) (c\<lparr>block_tables := (block_tables c)((n, r) := None)\<rparr>) = (Inr (), c')"
      using R(1) Some by (simp add: release_request_def)
    from on_node_frame[OF this] have "bw_cfg c' = bw_cfg c \<and> cm_nodes c' = cm_nodes c" by (simp add: cm_nodes_def)
    then show thesis using that[of "Inr ()" c'] R bw by (simp add: cm_ready_def)
  qed
qed

section \<open>Changes of the books\<close>

lemma transfers_ok_end:
  assumes ok: "transfers_ok st w" and g: "st r = Some (req, St_transfer tid)" and g': "\<forall>x. g' \<noteq> St_transfer x"
    and w': "pending_transfers w' = (pending_transfers w)(tid := None)"
  shows "transfers_ok (st(r \<mapsto> (req, g'))) w'"
proof -
  have fwd: "st (pt_request_id i) = Some (pt_request i, St_transfer x) \<and> (\<exists>k. x = transfer_name (pt_request_id i) k)"
    if "pending_transfers w x = Some i" for x i using ok that unfolding transfers_ok_def by blast
  have bwd: "\<exists>i. pending_transfers w x = Some i \<and> pt_request_id i = y \<and> pt_request i = q"
    if "st y = Some (q, St_transfer x)" for y q x using ok that unfolding transfers_ok_def by blast
  have "pt_request_id i \<noteq> r \<and> pending_transfers w x = Some i" if "pending_transfers w' x = Some i" for x i
    using fwd[of x i] that g unfolding w' by (auto split: if_splits)
  moreover have "x \<noteq> tid" if x: "st y = Some (q, St_transfer x)" "y \<noteq> r" for y q x
    using bwd[OF x(1)] bwd[OF g] x(2) by auto
  moreover have "\<exists>i. pending_transfers w' x = Some i \<and> pt_request_id i = y \<and> pt_request i = q"
    if a: "(st(r \<mapsto> (req, g'))) y = Some (q, St_transfer x)" for y q x
  proof -
    have y: "y \<noteq> r" "st y = Some (q, St_transfer x)" using a g' by (auto split: if_splits)
    then show ?thesis using bwd[OF y(2)] calculation(2)[OF y(2,1)] unfolding w' by simp
  qed
  ultimately show ?thesis using fwd unfolding transfers_ok_def by simp
qed

lemma books_ok_drop:
  assumes ok: "books_ok st w" and g: "st r = Some (req, g)" and v: "v = None \<or> v = Some (req, St_rejected)"
    and w': "w_requests w' = (w_requests w)(r := None)" "decisions w' = (decisions w)(r := None)"
      "prefill_ids w' = prefill_ids w" "decode_ids w' = decode_ids w"
  shows "books_ok (st(r := v)) w'"
proof -
  have l: "live (st(r := v)) = (live st)(r := None)" using v by (auto simp: live_def fun_eq_iff)
  show ?thesis
  proof (rule books_okI)
    show "finite (dom (st(r := v)))" using booksD(5)[OF ok] v by auto
    show "request_id q = x" if "(st(r := v)) x = Some (q, h)" for x q h
      using that v booksD(1)[OF ok g] booksD(1)[OF ok, of x q h] by (auto split: if_splits)
    show "w_requests w' = live (st(r := v))" "dom (decisions w') = dom (live (st(r := v)))"
      unfolding l w' using booksD(2,3)[OF ok] by auto
    show "\<exists>p \<in> set (prefill_ids w'). \<exists>q \<in> set (decode_ids w'). prefill_node d = Some p \<and> decode_node d = Some q"
      if "decisions w' x = Some d" for x d
      using that unfolding w' by (intro booksD(4)[OF ok]) (auto split: if_splits)
  qed
qed

text \<open>One request moves between \<open>n\<close> and no node at all.\<close>

lemma nodes_ok_touch:
  assumes ok: "nodes_ok st w" and g: "st r = Some (req, g)" "stage_node g = None \<or> stage_node g = Some n"
    and v: "\<And>q h. v = Some (q, h) \<Longrightarrow> stage_node h = None \<or> stage_node h = Some n \<and> ((\<exists>m. h = St_decoding m \<or> h = St_ending m) \<and> n \<in> set (decode_ids w))"
    and nd: "if n \<in> set (prefill_ids w) then prefill_node_ok (st(r := v)) n nd' else decode_node_ok (st(r := v)) n nd'"
    and w': "w_nodes w' = (w_nodes w)(n \<mapsto> nd')" "prefill_ids w' = prefill_ids w" "decode_ids w' = decode_ids w"
  shows "nodes_ok (st(r := v)) w'"
proof (rule nodes_ok_update[OF ok _ nd w'])
  fix x h m assume m: "stage_node h = Some m" "m \<noteq> n"
  have "\<not> sits st r h" using m g by (auto simp: sits_def)
  moreover have "\<not> sits (st(r := v)) r h"
  proof
    assume "sits (st(r := v)) r h"
    then obtain q where "v = Some (q, h)" by (auto simp: sits_def)
    then show False using v[of q h] m by auto
  qed
  ultimately show "sits (st(r := v)) x h \<longleftrightarrow> sits st x h" by (cases "x = r") (simp_all add: sits_def)
next
  fix x q h assume x: "(st(r := v)) x = Some (q, h)" "stage_node h = Some n"
  show "n \<in> (if (\<exists>m. h = St_decoding m \<or> h = St_ending m) then set (decode_ids w) else set (prefill_ids w))"
  proof (cases "x = r")
    case True
    then show ?thesis using x v[of q h] by auto
  next
    case False
    then have "st x = Some (q, h)" using x by simp
    then show ?thesis using ok x(2) unfolding nodes_ok_def by blast
  qed
qed

section \<open>The end of a transfer\<close>

lemma decode_enter:
  assumes dn: "decode_node_ok st q nd" and room: "length (running_requests nd) < capacity (mn_config nd)"
    and r: "\<not> sits st r (St_decoding q)" "\<not> sits st r (St_ending q)"
  obtains nd1 nd2 where "mn_admit r i pl ul nd = (Inr True, nd1)" "start_decode r nd1 = (Inr (), nd2)"
    "decode_node_ok (st(r \<mapsto> (req, St_decoding q))) q nd2"
    "mn_node_id nd2 = mn_node_id nd" "mn_model nd2 = mn_model nd" "mn_config nd2 = mn_config nd"
    "batch_step_in_flight nd2 = batch_step_in_flight nd" "tokens_left nd2 r = max 1 (nat i)"
    "\<And>z. z \<noteq> r \<Longrightarrow> tokens_left nd2 z = tokens_left nd z" "\<And>z. chunk_left nd2 z = chunk_left nd z"
proof -
  have D: "mn_inv nd" "queue nd = []" "prefill_remaining nd = []"
    "set (running_requests nd) = {x. sits st x (St_decoding q) \<or> sits st x (St_ending q)}"
    "decoding nd = {x. sits st x (St_decoding q)}" "set (running_requests nd) \<subseteq> dom (output_tokens nd)"
    using dn unfolding decode_node_ok_def by blast+
  have rn: "r \<notin> set (running_requests nd @ queue nd)" using D(2,4) r by simp
  obtain sts where a: "mn_admit r i pl ul nd = (Inr True, nd\<lparr>states := sts, running_requests := running_requests nd @ [r],
      output_tokens := (output_tokens nd)(r \<mapsto> 0), expected_output := (expected_output nd)(r \<mapsto> i)\<rparr>)"
    using room by (simp add: mn_admit_def Let_def)
  let ?nd1 = "nd\<lparr>states := sts, running_requests := running_requests nd @ [r],
      output_tokens := (output_tokens nd)(r \<mapsto> 0), expected_output := (expected_output nd)(r \<mapsto> i)\<rparr>"
  obtain f where s: "start_decode r ?nd1 = (Inr (), (upd_state r f ?nd1)\<lparr>decoding := insert r (decoding nd)\<rparr>)"
    by (simp add: start_decode_def Let_def)
  let ?nd2 = "(upd_state r f ?nd1)\<lparr>decoding := insert r (decoding nd)\<rparr>"
  have i1: "mn_inv ?nd1" by (rule mn_admit_inv[OF D(1) rn a])
  have i2: "mn_inv ?nd2" by (rule start_decode_inv[OF i1 _ s]) simp
  have "decode_node_ok (st(r \<mapsto> (req, St_decoding q))) q ?nd2"
    unfolding decode_node_ok_def
  proof (intro conjI)
    show "mn_inv ?nd2" by (rule i2)
    show "set (running_requests ?nd2) = {x. sits (st(r \<mapsto> (req, St_decoding q))) x (St_decoding q) \<or>
        sits (st(r \<mapsto> (req, St_decoding q))) x (St_ending q)}" using D(4) r by auto
    show "decoding ?nd2 = {x. sits (st(r \<mapsto> (req, St_decoding q))) x (St_decoding q)}" using D(5) by auto
    show "set (running_requests ?nd2) \<subseteq> dom (output_tokens ?nd2)" using D(6) by auto
  qed (use D(2,3) in simp_all)
  then show thesis by (intro that[OF a s]) (simp_all add: tokens_left_def chunk_left_def)
qed

text \<open>The one exception of the handler: the clean-up of \<open>materialize_request\<close> meets a pinned block.\<close>

definition cleanup_raises :: "req_id \<Rightarrow> request \<Rightarrow> world \<times> engine \<Rightarrow> bool" where
  "cleanup_raises r req s \<longleftrightarrow> (\<exists>d q. decisions (fst s) r = Some d \<and> decode_node d = Some q \<and>
     fst (materialize_request (now (snd s)) r (token_ids req) q (w_cm (fst s))) = Inl RuntimeError)"

lemma on_kv_transfer_complete_step:
  assumes h: "handling (Some (K_transfer tid)) st (w, e)" and ev: "pl_transfer_id (ev_payload ev) = Some tid"
    and g: "st r = Some (req, St_transfer tid)"
  shows "(\<exists>st' s'. on_kv_transfer_complete ev (w, e) = (Inr (), s') \<and> same_requests st st' \<and> settled st' w s' \<and>
      advance st (w, e) st' s' \<and> st' r \<noteq> st r) \<or>
    (\<exists>s'. on_kv_transfer_complete ev (w, e) = (Inl RuntimeError, s') \<and> cleanup_raises r req (w, e))"
proof -
  note H = handlingD[OF h]
  obtain info where info: "pending_transfers w tid = Some info" "pt_request_id info = r" "pt_request info = req"
    using H(4) g unfolding transfers_ok_def by blast
  have id: "request_id req = r" by (rule booksD(1)[OF H(5) g])
  obtain d q where d: "decisions w r = Some d" "decode_node d = Some q" "q \<in> set (decode_ids w)"
    by (rule books_decision[OF H(5) g]) auto
  obtain nd where nd: "w_nodes w q = Some nd" "1 \<le> capacity (mn_config nd)"
    by (rule static_nodeE[OF H(1), of q]) (use d(3) in auto)
  have qp: "q \<notin> set (prefill_ids w)" using static_okD(3)[OF H(1)] d(3) by auto
  have dn: "decode_node_ok st q nd" by (rule nodes_okD(2)[OF H(2) nd(1) qp])
  have nosit: "\<not> sits st r (St_decoding q)" "\<not> sits st r (St_ending q)" using g by (simp_all add: sits_def)
  let ?w1 = "w\<lparr>pending_transfers := (pending_transfers w)(tid := None)\<rparr>"
  show ?thesis
  proof (cases "length (running_requests nd) \<ge> capacity (mn_config nd)")
    case True
    let ?w = "drop_request r ?w1" and ?st = "st(r \<mapsto> (req, St_rejected))"
    let ?pl = "no_keys\<lparr>pl_request_id := Some r, pl_reason := Some ''decode_capacity_exhausted''\<rparr>"
    let ?e = "push (now e) REQUEST_REJECTED ?pl e"
    have res: "on_kv_transfer_complete ev (w, e) = (Inr (), (?w, ?e))"
      using ev info d nd True by (simp add: on_kv_transfer_complete_def sim_run now_def Let_def)
    have "settled ?st w (?w, ?e)"
    proof (rule settledI)
      show "static_ok ?w" using H(1) by (simp add: static_ok_def drop_request_def)
      show "nodes_ok ?st ?w" by (rule nodes_ok_stages[OF H(2)]) (use g in \<open>auto simp: drop_request_def sits_def\<close>)
      show "cache_ok ?st ?w" by (rule cache_ok_move[OF H(3) cache_step_refl[OF cache_okD(1)[OF H(3)]]])
          (use g in \<open>auto simp: drop_request_def sits_def\<close>)
      show "transfers_ok ?st ?w" by (rule transfers_ok_end[OF H(4) g]) (simp_all add: drop_request_def)
      show "books_ok ?st ?w" by (rule books_ok_drop[OF H(5) g]) (simp_all add: drop_request_def)
      show "awake ?w" using H(6) by (simp add: awake_def drop_request_def)
      show "engine_ok ?e" using H(7) by (simp add: engine_ok_def)
      have k: "life_key (mk_event (now e) REQUEST_REJECTED ?pl) = Some (K_reject r)" by (simp add: life_key_def mk_event_def)
      have "K_reject (request_id req) \<notin> stage_keys st"
        by (rule stage_key_absent[OF H(5), of req "St_rejected"]) (use g id in \<open>auto simp: sits_def\<close>)
      moreover have "stage_keys ?st = stage_keys st - {K_transfer tid} \<union> {K_reject r}"
        using stage_keys_upd(1)[OF H(9) g, of req St_rejected] id by simp
      ultimately show "q_keys ?e (stage_keys ?st \<union> batch_keys (w_nodes ?w))"
        by (intro q_keys_push_key[OF H(8) _ k]) (auto simp: now_def id drop_request_def dest: batch_keysD)
    qed (simp_all add: drop_request_def)
    moreover have "same_requests st ?st" by (rule same_requests_upd[of st, OF g]) simp_all
    moreover have "advance st (w, e) ?st (?w, ?e)"
      by (rule advance_move[OF booksD(5)[OF H(5)] g, where n = q and y = "w_nodes w q"])
        (auto intro: life_step.intros simp: after_prefill_def drop_request_def)
    moreover have "?st r \<noteq> st r" using g by simp
    ultimately show ?thesis using res by blast
  next
    case False
    have room: "length (running_requests nd) < capacity (mn_config nd)" using False by simp
    obtain nd1 nd2 where N: "mn_admit r (int (expected_output_len req)) (Some (int (length (token_ids req)))) (Some 0) nd = (Inr True, nd1)"
      "start_decode r nd1 = (Inr (), nd2)" "decode_node_ok (st(r \<mapsto> (req, St_decoding q))) q nd2"
      "mn_node_id nd2 = mn_node_id nd" "mn_model nd2 = mn_model nd" "mn_config nd2 = mn_config nd"
      "batch_step_in_flight nd2 = batch_step_in_flight nd" "tokens_left nd2 r = max 1 (nat (int (expected_output_len req)))"
      "\<And>z. z \<noteq> r \<Longrightarrow> tokens_left nd2 z = tokens_left nd z" "\<And>z. chunk_left nd2 z = chunk_left nd z"
      by (rule decode_enter[OF dn room nosit, where i = "int (expected_output_len req)" and req = req
          and pl = "Some (int (length (token_ids req)))" and ul = "Some 0"]) blast
    obtain x c' where m: "materialize_request (now e) r (token_ids req) q (w_cm w) = (x, c')" by fastforce
    have key: "block_tables (w_cm w) (q, r) = None" using H(3) nosit unfolding cache_ok_def by blast
    have qc: "q \<in> cm_nodes (w_cm w)" using cache_okD(2)[OF H(3)] d(3) by simp
    let ?st = "st(r \<mapsto> (req, St_decoding q))"
    let ?w2 = "w\<lparr>pending_transfers := (pending_transfers w)(tid := None), w_cm := c', w_nodes := (w_nodes w)(q \<mapsto> nd2)\<rparr>"
    let ?w = "?w2\<lparr>w_nodes := (w_nodes ?w2)(q \<mapsto> woken nd2)\<rparr>"
    let ?mat = "py_except (py_bind (with_cm (\<lambda>t. materialize_request t r (token_ids req) q)) (\<lambda>_. py_return ())) MemoryError ()"
    show ?thesis
    proof (cases "x = Inl RuntimeError")
      case True
      have cache: "?mat (?w1, e) =
          (Inl RuntimeError, (?w1\<lparr>w_cm := c'\<rparr>, e))"
        using m True by (simp add: py_except_def py_bind_def with_cm_def)
      have "on_kv_transfer_complete ev (w, e) = (Inl RuntimeError, (?w1\<lparr>w_cm := c'\<rparr>, e))"
        using ev info d nd(1) False by (simp add: on_kv_transfer_complete_def sim_run py_bind_Inl[where m = ?mat, OF cache])
      moreover have "cleanup_raises r req (w, e)" using d m True by (auto simp: cleanup_raises_def)
      ultimately show ?thesis by blast
    next
      case ok: False
      note M = materialize_step[OF cache_okD(1)[OF H(3)] qc key m ok]
      have keys: "stage_keys ?st = stage_keys st - {K_transfer tid}"
        using stage_keys_upd(1)[OF H(9) g, of req "St_decoding q"] by simp
      have bk: "batch_keys ((w_nodes w)(q \<mapsto> nd2)) = batch_keys (w_nodes w)"
        by (rule batch_keys_same[where nds = "w_nodes w", OF nd(1) N(7)])
      have "stage_keys st \<union> batch_keys (w_nodes w) - set_option (Some (K_transfer tid)) = stage_keys ?st \<union> batch_keys (w_nodes ?w2)"
        by (auto simp: keys bk dest: batch_keysD)
      then have q1: "q_keys e (stage_keys ?st \<union> batch_keys (w_nodes ?w2))" using H(8) by simp
      obtain e' where W: "wake_batch_step q (now e) (?w2, e) = (Inr (), (?w, e'))"
        "q_keys e' (stage_keys ?st \<union> batch_keys ((w_nodes ?w2)(q \<mapsto> woken nd2)))" "current_time e' = current_time e"
        "handlers e' = handlers e" "stopped e' = stopped e" "length (ev_queue e') \<le> Suc (length (ev_queue e))"
        by (rule wake_run[of ?w2 q nd2 e "now e", OF _ _ q1 stage_keys_no_batch]) (simp_all add: now_def)
      have cache: "?mat (?w1, e) =
          (Inr (), (?w1\<lparr>w_cm := c'\<rparr>, e))"
        using m M(1) by (cases x) (auto simp: py_except_def py_bind_def with_cm_def py_return_def)
      have res: "on_kv_transfer_complete ev (w, e) = (Inr (), (?w, e'))"
        using ev info d nd(1) False N(1,2) W(1)
        by (simp add: on_kv_transfer_complete_def sim_run py_bind_Inr[where m = ?mat, OF cache] with_node_bind)
      have "settled ?st w (?w, e')"
      proof (rule settledI)
        show "static_ok ?w" by (rule static_ok_update[OF H(1) nd(1), of "woken nd2"]) (use N in simp_all)
        show "nodes_ok ?st ?w"
          by (rule nodes_ok_touch[OF H(2) g, of q _ "woken nd2"]) (use d(3) qp N(3) in auto)
        show "cache_ok ?st ?w"
        proof -
          have "sits ?st y (St_decoding n) \<or> sits ?st y (St_ending n)" if t: "block_tables c' (n, y) \<noteq> None" for n y
          proof (cases "(n, y) = (q, r)")
            case True
            then show ?thesis by simp
          next
            case False
            then have "block_tables (w_cm w) (n, y) \<noteq> None" using M(4)[OF t] by blast
            then have "sits st y (St_decoding n) \<or> sits st y (St_ending n)" using H(3) unfolding cache_ok_def by blast
            then show ?thesis using g by (auto simp: sits_def)
          qed
          then show ?thesis using M(2,3) cache_okD[OF H(3)] by (simp add: cache_ok_def)
        qed
        show "transfers_ok ?st ?w" by (rule transfers_ok_end[OF H(4) g]) simp_all
        show "books_ok ?st ?w" by (rule books_ok_move[OF H(5) g]) simp_all
        show "awake ?w" by (rule awake_woken[OF awake_but_upd[OF awake_but[OF H(6), of q], of ?w2 "Some nd2"], of ?w]) simp_all
        show "engine_ok e'" using H(7) W(4,5) by (simp add: engine_ok_def)
        show "q_keys e' (stage_keys ?st \<union> batch_keys (w_nodes ?w))" using W(2) by simp
      qed simp_all
      moreover have "same_requests st ?st" by (rule same_requests_upd[of st, OF g]) simp_all
      moreover have "advance st (w, e) ?st (?w, e')"
        by (rule advance_move[OF booksD(5)[OF H(5)] g, where n = q and y = "Some (woken nd2)"])
          (use nd(1) N(8-10) W(6) in \<open>auto intro: life_step.intros simp: after_prefill_def\<close>)
      moreover have "?st r \<noteq> st r" using g by simp
      ultimately show ?thesis using res by blast
    qed
  qed
qed

end
