(* ===== verification/Sim_Batch.thy ===== *)
theory Sim_Batch
  imports Sim_Decode
begin

text \<open>
  A batch step: on a prefill node the oldest prefill advances by one chunk and may end, on a decode node
  every stream gets one token and some streams end.
\<close>

section \<open>Events of a batch step\<close>

lemma emit_tokens_run:
  assumes "q_keys e K" "current_time e \<le> t" "w_nodes w n = Some nd" "set rs \<subseteq> dom (output_tokens nd)"
  shows "\<exists>e'. emit_tokens n t rs (w, e) = (Inr (), (w, e')) \<and> q_keys e' K \<and> current_time e' = current_time e \<and>
    handlers e' = handlers e \<and> stopped e' = stopped e \<and> length (ev_queue e') = length (ev_queue e) + length rs"
  using assms
proof (induction rs arbitrary: e)
  case Nil
  then show ?case by (simp add: py_return_def)
next
  case (Cons r rs)
  obtain k where k: "output_tokens nd r = Some k" using Cons.prems(4) by auto
  let ?e = "push t TOKEN_GENERATED (no_keys\<lparr>pl_request_id := Some r, pl_step_index := Some (k - 1)\<rparr>) e"
  have "q_keys ?e K" by (rule q_keys_push_silent[OF Cons.prems(1,2)]) (simp add: silent_def)
  then have "\<exists>e'. emit_tokens n t rs (w, ?e) = (Inr (), (w, e')) \<and> q_keys e' K \<and> current_time e' = current_time ?e \<and>
    handlers e' = handlers ?e \<and> stopped e' = stopped ?e \<and> length (ev_queue e') = length (ev_queue ?e) + length rs"
    using Cons.prems by (intro Cons.IH) auto
  then show ?case using Cons.prems(2,3) k by (simp add: sim_run)
qed

lemma emit_completions_run:
  assumes "q_keys e K" "current_time e \<le> t" "distinct rs" "\<And>r. r \<in> set rs \<Longrightarrow> K_end r n \<notin> K"
  shows "\<exists>e'. emit_completions n t rs (w, e) = (Inr (), (w, e')) \<and> q_keys e' (K \<union> (\<lambda>r. K_end r n) ` set rs) \<and>
    current_time e' = current_time e \<and> handlers e' = handlers e \<and> stopped e' = stopped e \<and>
    length (ev_queue e') = length (ev_queue e) + length rs"
  using assms
proof (induction rs arbitrary: e K)
  case Nil
  then show ?case by (simp add: py_return_def)
next
  case (Cons r rs)
  let ?pl = "no_keys\<lparr>pl_request_id := Some r, pl_node_id := Some n\<rparr>"
  let ?e = "push t DECODE_COMPLETE ?pl e"
  have k: "life_key (mk_event t DECODE_COMPLETE ?pl) = Some (K_end r n)" by (simp add: life_key_def mk_event_def)
  have "q_keys ?e (insert (K_end r n) K)" by (rule q_keys_push_key[OF Cons.prems(1,2) k]) (use Cons.prems(4) in simp_all)
  then have "\<exists>e'. emit_completions n t rs (w, ?e) = (Inr (), (w, e')) \<and>
      q_keys e' (insert (K_end r n) K \<union> (\<lambda>r. K_end r n) ` set rs) \<and> current_time e' = current_time ?e \<and>
      handlers e' = handlers ?e \<and> stopped e' = stopped ?e \<and> length (ev_queue e') = length (ev_queue ?e) + length rs"
    using Cons.prems by (intro Cons.IH) auto
  then show ?case using Cons.prems(2) by (simp add: sim_run)
qed

section \<open>Streams that end together\<close>

definition ended :: "node_id \<Rightarrow> req_id set \<Rightarrow> stages \<Rightarrow> stages" where
  "ended n R st = (\<lambda>x. if x \<in> R then map_option (\<lambda>(q, g). (q, St_ending n)) (st x) else st x)"

lemma sits_ended: "sits (ended n R st) x h \<longleftrightarrow> (if x \<in> R then st x \<noteq> None \<and> h = St_ending n else sits st x h)"
  by (auto simp: ended_def sits_def)

lemma ended_apart: "x \<notin> R \<Longrightarrow> ended n R st x = st x"
  by (simp add: ended_def)

lemma stage_keys_ended:
  assumes "\<And>r. r \<in> R \<Longrightarrow> \<exists>req. st r = Some (req, St_decoding n) \<and> request_id req = r"
  shows "stage_keys (ended n R st) = stage_keys st \<union> (\<lambda>r. K_end r n) ` R"
proof (rule set_eqI)
  fix k
  show "k \<in> stage_keys (ended n R st) \<longleftrightarrow> k \<in> stage_keys st \<union> (\<lambda>r. K_end r n) ` R"
  proof
    assume "k \<in> stage_keys (ended n R st)"
    then obtain x q g where x: "ended n R st x = Some (q, g)" "stage_key q g = Some k" by (auto simp: stage_keys_def)
    show "k \<in> stage_keys st \<union> (\<lambda>r. K_end r n) ` R"
    proof (cases "x \<in> R")
      case True
      then obtain req where "st x = Some (req, St_decoding n)" "request_id req = x" using assms by blast
      then have "k = K_end x n" using x True by (auto simp: ended_def)
      then show ?thesis using True by blast
    next
      case False
      then show ?thesis using x stage_keyD[of st x q g k] by (simp add: ended_def)
    qed
  next
    assume "k \<in> stage_keys st \<union> (\<lambda>r. K_end r n) ` R"
    then show "k \<in> stage_keys (ended n R st)"
    proof
      assume "k \<in> stage_keys st"
      then obtain x q g where x: "st x = Some (q, g)" "stage_key q g = Some k" by (auto simp: stage_keys_def)
      have "x \<notin> R" using assms[of x] x by auto
      then show ?thesis using x stage_keyD[of "ended n R st" x q g k] by (simp add: ended_def)
    next
      assume "k \<in> (\<lambda>r. K_end r n) ` R"
      then obtain x where x: "x \<in> R" "k = K_end x n" by blast
      obtain req where "st x = Some (req, St_decoding n)" "request_id req = x" using assms[OF x(1)] by blast
      then show ?thesis using x stage_keyD[of "ended n R st" x req "St_ending n" k] by (simp add: ended_def)
    qed
  qed
qed

lemma books_ok_stages:
  assumes ok: "books_ok st w" and st': "\<And>x. map_option fst (st' x) = map_option fst (st x)" "live st' = live st"
    and w': "w_requests w' = w_requests w" "decisions w' = decisions w" "prefill_ids w' = prefill_ids w" "decode_ids w' = decode_ids w"
  shows "books_ok st' w'"
proof (rule books_okI)
  have "dom st' = dom st" using st'(1) by (force simp: dom_def map_option_case split: option.splits)
  then show "finite (dom st')" using booksD(5)[OF ok] by simp
  show "request_id q = x" if "st' x = Some (q, h)" for x q h
  proof -
    have "map_option fst (st x) = Some q" using st'(1)[of x] that by simp
    then obtain h' where "st x = Some (q, h')" by auto
    then show ?thesis by (rule booksD(1)[OF ok])
  qed
  show "w_requests w' = live st'" "dom (decisions w') = dom (live st')" unfolding st'(2) w' by (rule booksD(2,3)[OF ok])+
  show "\<exists>p \<in> set (prefill_ids w'). \<exists>q \<in> set (decode_ids w'). prefill_node d = Some p \<and> decode_node d = Some q"
    if "decisions w' x = Some d" for x d
    using that unfolding w' by (rule booksD(4)[OF ok])
qed

lemma transfers_ok_stages:
  assumes "transfers_ok st w" "\<And>x q tid. st' x = Some (q, St_transfer tid) \<longleftrightarrow> st x = Some (q, St_transfer tid)"
    "pending_transfers w' = pending_transfers w"
  shows "transfers_ok st' w'"
  using assms(1) unfolding transfers_ok_def assms(2,3) .

lemma ended_frame:
  assumes R: "\<forall>r \<in> R. sits st r (St_decoding n)"
  shows "live (ended n R st) = live st" "map_option fst (ended n R st x) = map_option fst (st x)"
    "ended n R st x = Some (q, St_transfer tid) \<longleftrightarrow> st x = Some (q, St_transfer tid)" "same_requests st (ended n R st)"
    "stage_node h = Some m \<Longrightarrow> m \<noteq> n \<Longrightarrow> sits (ended n R st) x h \<longleftrightarrow> sits st x h"
proof -
  have R': "\<exists>q. st r = Some (q, St_decoding n)" if "r \<in> R" for r using R that by (simp add: sits_def)
  show "live (ended n R st) = live st" using R' by (fastforce simp: live_def ended_def fun_eq_iff)
  show "map_option fst (ended n R st x) = map_option fst (st x)" by (cases "st x") (auto simp: ended_def)
  show "ended n R st x = Some (q, St_transfer tid) \<longleftrightarrow> st x = Some (q, St_transfer tid)"
    using R'[of x] by (auto simp: ended_def)
  have "ended n R st x = None \<longleftrightarrow> st x = None" for x by (simp add: ended_def)
  moreover have "(\<exists>q g. ended n R st x = Some (q, g) \<and> g \<noteq> St_arriving) \<longleftrightarrow> (\<exists>q g. st x = Some (q, g) \<and> g \<noteq> St_arriving)" for x
    using R'[of x] by (auto simp: ended_def)
  ultimately show "same_requests st (ended n R st)" by (simp add: same_requests_def arrived_def dom_def)
  assume "stage_node h = Some m" "m \<noteq> n"
  then show "sits (ended n R st) x h \<longleftrightarrow> sits st x h" using R sits_fun[of st x "St_decoding n" h] by (auto simp: sits_ended)
qed

section \<open>The node\<close>

lemma step_time_nonneg:
  assumes mc: "model_config_ok (mn_model s)" and pr: "\<forall>u \<in> snd ` set (prefill_remaining s). 0 < u"
  shows "0 \<le> step_time s"
proof -
  have m: "0 \<le> prefill_cost_per_token_ms (mn_model s)" "0 \<le> decode_base_ms (mn_model s)" "0 \<le> marginal_decode_ms (mn_model s)"
    using mc by (simp_all add: model_config_ok_def)
  have "0 \<le> chunk_this_step s" using pr by (auto simp: chunk_this_step_def split: list.splits)
  then have "0 \<le> of_int (chunk_this_step s) * prefill_cost_per_token_ms (mn_model s)" using m(1) by simp
  moreover have "0 \<le> decode_cost s" using m by (simp add: decode_cost_def estimate_decode_time_def)
  ultimately show ?thesis by (simp add: step_time_def)
qed

lemma prefill_tick:
  assumes pn: "prefill_node_ok st n nd"
  shows "finished nd = {}" "decoding nd = {}" "prefill_completed nd = None \<Longrightarrow> prefill_node_ok st n (ticked nd)"
    "prefill_completed nd = Some pid \<Longrightarrow> sits st pid (St_prefill n) \<and> prefill_node_ok (st(pid \<mapsto> (req, St_prefilled n))) n (ticked nd)"
proof -
  have P: "mn_inv nd" "decoding nd = {}" "fst ` set (prefill_remaining nd) = {x. sits st x (St_prefill n)}"
    "\<forall>u \<in> snd ` set (prefill_remaining nd). 0 < u"
    using pn by (simp_all add: prefill_node_ok_def)
  have d: "distinct (map fst (prefill_remaining nd))" by (rule mn_invD(9)[OF P(1)])
  show fin: "finished nd = {}" "decoding nd = {}" using P(2) by (simp_all add: finished_def)
  show "prefill_node_ok st n (ticked nd)" if c: "prefill_completed nd = None"
  proof -
    have "prefill_remaining nd = [] \<and> prefill_left nd = [] \<or>
        (\<exists>p u rest. prefill_remaining nd = (p, u) # rest \<and> 0 < u - int (prefill_chunk_size (mn_model nd)) \<and>
          prefill_left nd = (p, u - int (prefill_chunk_size (mn_model nd))) # rest)"
      using c by (auto simp: prefill_left_def prefill_completed_def split: list.splits if_splits)
    then have "map fst (prefill_left nd) = map fst (prefill_remaining nd)" "\<forall>u \<in> snd ` set (prefill_left nd). 0 < u"
      using P(4) by auto
    moreover from this(1) have "fst ` set (prefill_left nd) = fst ` set (prefill_remaining nd)" by (metis set_map)
    ultimately have "fst ` set (prefill_left nd) = fst ` set (prefill_remaining nd)" "\<forall>u \<in> snd ` set (prefill_left nd). 0 < u"
      by blast+
    then show ?thesis using pn ticked_inv[OF P(1)] fin unfolding prefill_node_ok_def by simp
  qed
  assume c: "prefill_completed nd = Some pid"
  then obtain u rest where r: "prefill_remaining nd = (pid, u) # rest" "prefill_left nd = rest"
    by (auto simp: prefill_left_def prefill_completed_def split: list.splits if_splits)
  have s: "sits st pid (St_prefill n)" using P(3) r(1) by auto
  have left: "fst ` set rest = fst ` set (prefill_remaining nd) - {pid}" using r(1) d by auto
  have "prefill_node_ok (st(pid \<mapsto> (req, St_prefilled n))) n (ticked nd)"
    by (rule prefill_node_move[OF pn ticked_inv[OF P(1)] _ _ _ _ s]) (use r left P(4) fin in auto)
  then show "sits st pid (St_prefill n) \<and> prefill_node_ok (st(pid \<mapsto> (req, St_prefilled n))) n (ticked nd)" using s by simp
qed

lemma decode_tick:
  assumes dn: "decode_node_ok st n nd"
  shows "prefill_completed nd = None" "\<And>r. r \<in> finished nd \<Longrightarrow> sits st r (St_decoding n)"
    "decode_node_ok (ended n (finished nd) st) n (ticked nd)" "decoding nd \<subseteq> dom (output_tokens (ticked nd))" "finite (decoding nd)"
proof -
  have D: "mn_inv nd" "queue nd = []" "prefill_remaining nd = []"
    "set (running_requests nd) = {x. sits st x (St_decoding n) \<or> sits st x (St_ending n)}"
    "decoding nd = {x. sits st x (St_decoding n)}" "set (running_requests nd) \<subseteq> dom (output_tokens nd)"
    using dn unfolding decode_node_ok_def by blast+
  show "prefill_completed nd = None" using D(3) by (simp add: prefill_completed_def)
  show fin: "sits st r (St_decoding n)" if "r \<in> finished nd" for r using that D(5) by (auto simp: finished_def)
  show out: "decoding nd \<subseteq> dom (output_tokens (ticked nd))" by auto
  have "decoding nd \<subseteq> set (running_requests nd)" unfolding D(4,5) by blast
  then show "finite (decoding nd)" by (rule finite_subset) simp
  let ?st = "ended n (finished nd) st"
  have E: "sits ?st x h \<longleftrightarrow> (if x \<in> finished nd then h = St_ending n else sits st x h)" for x h
  proof (cases "x \<in> finished nd")
    case True
    then have "st x \<noteq> None" using fin[of x] unfolding sits_def by blast
    then show ?thesis using True by (simp add: sits_ended)
  qed (simp add: sits_ended)
  show "decode_node_ok ?st n (ticked nd)"
    unfolding decode_node_ok_def
  proof (intro conjI)
    show "mn_inv (ticked nd)" by (rule ticked_inv[OF D(1)])
    show "set (running_requests (ticked nd)) = {x. sits ?st x (St_decoding n) \<or> sits ?st x (St_ending n)}"
      using D(4) fin by (auto simp: E)
    show "decoding (ticked nd) = {x. sits ?st x (St_decoding n)}" using D(5) by (auto simp: E)
    show "set (running_requests (ticked nd)) \<subseteq> dom (output_tokens (ticked nd))" using D(6) by (auto split: if_splits)
  qed (use D(2,3) in \<open>simp_all add: prefill_left_def\<close>)
qed

lemma in_flight_left [simp]:
  "tokens_left (nd\<lparr>batch_step_in_flight := b\<rparr>) r = tokens_left nd r" "chunk_left (nd\<lparr>batch_step_in_flight := b\<rparr>) r = chunk_left nd r"
  by (simp_all add: tokens_left_def chunk_left_def)

text \<open>What a batch step uses up.\<close>

lemma ticked_other:
  "r \<notin> decoding nd \<Longrightarrow> tokens_left (ticked nd) r = tokens_left nd r"
  "prefill_remaining nd = (p, u) # rest \<Longrightarrow> r \<noteq> p \<Longrightarrow> chunk_left (ticked nd) r = chunk_left nd r"
  "prefill_remaining nd = [] \<Longrightarrow> chunk_left (ticked nd) r = chunk_left nd r"
  by (simp_all add: tokens_left_def chunk_left_def prefill_left_def)

lemma ticked_tokens:
  assumes "r \<in> decoding nd" "r \<notin> finished nd"
  shows "tokens_left nd r = Suc (tokens_left (ticked nd) r)"
proof -
  have "the (output_tokens nd r) + 1 < the (expected_output nd r)" using assms by (simp add: finished_def at_end_def)
  then show ?thesis using assms(1) by (simp add: tokens_left_def)
qed

section \<open>The handler\<close>

lemma batch_run:
  assumes ev: "pl_node_id (ev_payload ev) = Some n" and nd: "w_nodes w n = Some nd0" "nd = nd0\<lparr>batch_step_in_flight := False\<rparr>"
    and inv: "mn_inv nd" and busy: "has_work nd" and t: "t = now e + step_time nd"
    and w1: "w1 = w\<lparr>w_nodes := (w_nodes w)(n \<mapsto> ticked nd), late_batch := (late_batch w)(ev_seq ev \<mapsto> card (decoding nd))\<rparr>"
    and fin: "finish_prefill_event n t (prefill_completed nd) (w1, e) = (Inr (), (w1, e1))"
    and tok: "emit_tokens n t (sorted_list_of_set (decoding (ticked nd) \<union> set cs)) (w1, e1) = (Inr (), (w1, e2))"
    and cs: "cs = filter (at_end nd) (sorted_list_of_set (decoding nd))"
      "emit_completions n t cs (w1, e2) = (Inr (), (w1, e3))"
    and wk: "wake_batch_step n t (w1, e3) = (Inr (), s)"
  shows "on_decode_batch_step ev (w, e) = (Inr (), s)"
proof -
  have tick: "tick_batch_step (now e) nd = (Inr (t, cs, prefill_completed nd), ticked nd)"
    using tick_run[OF inv] busy unfolding has_work_def cs(1) t by simp
  have last: "(if has_work (ticked nd) then wake_batch_step n t else py_return ()) (w1, e3) = (Inr (), s)"
  proof (cases "has_work (ticked nd)")
    case False
    then have "wake_batch_step n t (w1, e3) = (Inr (), (w1, e3))"
      by (simp add: wake_batch_step_def sim_run w1 py_return_def)
    then show ?thesis using False wk by (simp add: py_return_def)
  qed (use wk in simp)
  have node: "w_nodes w1 n = Some (ticked nd)" by (simp add: w1)
  have tail: "py_bind (finish_prefill_event n t (prefill_completed nd)) (\<lambda>_.
         py_bind (get_w w_nodes) (\<lambda>nodes. py_bind (the_key (nodes n)) (\<lambda>nd'.
         py_bind (emit_tokens n t (sorted_list_of_set (decoding nd' \<union> set cs))) (\<lambda>_.
         py_bind (emit_completions n t cs) (\<lambda>_.
           if has_work nd' then wake_batch_step n t else py_return ()))))) (w1, e) = (Inr (), s)"
    using fin tok cs(2) last node by (simp add: sim_run py_bind_Inr)
  have "w\<lparr>w_nodes := (w_nodes w)(n \<mapsto> nd), late_batch := (late_batch w)(ev_seq ev \<mapsto> card (decoding nd)),
      w_nodes := (w_nodes w)(n \<mapsto> ticked nd)\<rparr> = w1" by (simp add: w1)
  then show ?thesis
    using ev nd busy tick tail by (simp add: on_decode_batch_step_def sim_run with_node_bind mark_batch_step_completed_def)
qed

lemma in_flight_ok [simp]:
  "prefill_node_ok st n (nd\<lparr>batch_step_in_flight := b\<rparr>) = prefill_node_ok st n nd"
  "decode_node_ok st n (nd\<lparr>batch_step_in_flight := b\<rparr>) = decode_node_ok st n nd"
  by (simp_all add: prefill_node_ok_def decode_node_ok_def mn_inv_defs)

text \<open>The step ends with the next step of the node being scheduled if there is work.\<close>

lemma batch_settle:
  assumes h: "handling k st (w, e)" and nd: "w_nodes w n = Some nd0"
    and w1: "w1 = w\<lparr>w_nodes := (w_nodes w)(n \<mapsto> nd1), late_batch := lb\<rparr>"
    and same: "mn_node_id nd1 = mn_node_id nd0" "mn_model nd1 = mn_model nd0" "mn_config nd1 = mn_config nd0"
    and ok: "nodes_ok st' w1" "cache_ok st' w1" "books_ok st' w1" "transfers_ok st' w1"
    and q: "q_keys e3 (stage_keys st' \<union> batch_keys (w_nodes w1))" "current_time e3 \<le> t" "handlers e3 = handlers e" "stopped e3 = stopped e"
  obtains s' where "wake_batch_step n t (w1, e3) = (Inr (), s')" "settled st' w s'"
    "w_nodes (fst s') = (w_nodes w)(n \<mapsto> woken nd1)" "length (ev_queue (snd s')) \<le> Suc (length (ev_queue e3))"
proof -
  note H = handlingD[OF h]
  have n1: "w_nodes w1 n = Some nd1" by (simp add: w1)
  let ?w = "w1\<lparr>w_nodes := (w_nodes w1)(n \<mapsto> woken nd1)\<rparr>"
  obtain e' where W: "wake_batch_step n t (w1, e3) = (Inr (), (?w, e'))"
    "q_keys e' (stage_keys st' \<union> batch_keys ((w_nodes w1)(n \<mapsto> woken nd1)))" "current_time e' = current_time e3"
    "handlers e' = handlers e3" "stopped e' = stopped e3" "length (ev_queue e') \<le> Suc (length (ev_queue e3))"
    by (rule wake_run[OF n1 q(2,1) stage_keys_no_batch])
  have "settled st' w (?w, e')"
  proof (rule settledI)
    show "static_ok ?w" by (rule static_ok_update[OF H(1) nd, of "woken nd1"]) (simp_all add: w1 same)
    show "nodes_ok st' ?w"
    proof (rule nodes_ok_update[OF ok(1), where n = n and nd' = "woken nd1"])
      show "if n \<in> set (prefill_ids w1) then prefill_node_ok st' n (woken nd1) else decode_node_ok st' n (woken nd1)"
        using nodes_okD[OF ok(1) n1] by simp
      show "n \<in> (if (\<exists>m. g = St_decoding m \<or> g = St_ending m) then set (decode_ids w1) else set (prefill_ids w1))"
        if "st' x = Some (req, g)" "stage_node g = Some n" for x req g
        using ok(1) that unfolding nodes_ok_def by blast
    qed simp_all
    show "cache_ok st' ?w" using ok(2) by (simp add: cache_ok_def)
    show "books_ok st' ?w" using ok(3) by (simp add: books_ok_def)
    show "transfers_ok st' ?w" using ok(4) by (simp add: transfers_ok_def)
    show "awake ?w"
      by (rule awake_woken[OF awake_but_upd[OF awake_but[OF H(6), of n], of w1 "Some nd1"], of ?w]) (simp_all add: w1)
    show "engine_ok e'" using H(7) W(4,5) q(3,4) by (simp add: engine_ok_def)
    show "q_keys e' (stage_keys st' \<union> batch_keys (w_nodes ?w))" using W(2) by simp
  qed (simp_all add: w1)
  then show thesis by (rule that[OF W(1)]) (use W(6) in \<open>simp_all add: w1\<close>)
qed

lemma batch_idle:
  assumes h: "handling (Some (K_batch n)) st (w, e)" and nd: "w_nodes w n = Some nd0" and idle: "\<not> has_work nd0"
  shows "settled st w (w\<lparr>w_nodes := (w_nodes w)(n \<mapsto> nd0\<lparr>batch_step_in_flight := False\<rparr>)\<rparr>, e)"
    "advance st (w, e) st (w\<lparr>w_nodes := (w_nodes w)(n \<mapsto> nd0\<lparr>batch_step_in_flight := False\<rparr>)\<rparr>, e)"
proof -
  note H = handlingD[OF h]
  let ?nd = "nd0\<lparr>batch_step_in_flight := False\<rparr>"
  let ?w = "w\<lparr>w_nodes := (w_nodes w)(n \<mapsto> ?nd)\<rparr>"
  show "advance st (w, e) st (?w, e)"
    using budget_node_change[OF booksD(5)[OF H(5)], of "{}" st w n nd0 ?w ?nd e e 0] nd life_moves_refl
    by (simp add: advance_def)
  show "settled st w (?w, e)"
  proof (rule settledI)
    show "static_ok ?w" by (rule static_ok_update[OF H(1) nd]) simp_all
    show "nodes_ok st ?w"
    proof (rule nodes_ok_update[OF H(2), where n = n and nd' = ?nd])
      show "if n \<in> set (prefill_ids w) then prefill_node_ok st n ?nd else decode_node_ok st n ?nd"
        using nodes_okD[OF H(2) nd] by simp
      show "n \<in> (if (\<exists>m. g = St_decoding m \<or> g = St_ending m) then set (decode_ids w) else set (prefill_ids w))"
        if "st x = Some (req, g)" "stage_node g = Some n" for x req g
        using H(2) that unfolding nodes_ok_def by blast
    qed simp_all
    show "cache_ok st ?w" "books_ok st ?w" "transfers_ok st ?w"
      using H(3-5) by (simp_all add: cache_ok_def books_ok_def transfers_ok_def)
    have "\<not> has_work ?nd" using idle by (simp add: has_work_def)
    then show "awake ?w" by (intro awake_upd[OF H(6), of ?w n ?nd]) simp_all
    show "q_keys e (stage_keys st \<union> batch_keys (w_nodes ?w))"
    proof -
      have "stage_keys st \<union> batch_keys (w_nodes w) - {K_batch n} = stage_keys st \<union> batch_keys (w_nodes ?w)"
        using stage_keys_no_batch[of n st] batch_keys_upd[where nds = "w_nodes w" and nd' = ?nd, OF nd] by auto
      then show ?thesis using H(8) by simp
    qed
  qed (use H(7) in simp_all)
qed

lemma batch_keys_start:
  assumes q: "q_keys e (stage_keys st \<union> batch_keys (w_nodes w) - {K_batch n})" and nd: "w_nodes w n = Some nd0"
    and w1: "w_nodes w1 = (w_nodes w)(n \<mapsto> nd1)" "\<not> batch_step_in_flight nd1"
  shows "q_keys e (stage_keys st \<union> batch_keys (w_nodes w1))"
proof -
  have "stage_keys st \<union> batch_keys (w_nodes w) - {K_batch n} = stage_keys st \<union> batch_keys (w_nodes w1)"
    using stage_keys_no_batch[of n st] batch_keys_upd[where nds = "w_nodes w" and nd' = nd1, OF nd] w1 by auto
  then show ?thesis using q by simp
qed

lemma batch_prefill_step:
  assumes h: "handling (Some (K_batch n)) st (w, e)" and ev: "pl_node_id (ev_payload ev) = Some n"
    and nd0: "w_nodes w n = Some nd0" and work: "has_work nd0" and n: "n \<in> set (prefill_ids w)"
  shows "\<exists>st' s'. on_decode_batch_step ev (w, e) = (Inr (), s') \<and> same_requests st st' \<and> settled st' w s' \<and>
    advance st (w, e) st' s'"
proof -
  note H = handlingD[OF h]
  let ?nd = "nd0\<lparr>batch_step_in_flight := False\<rparr>"
  let ?lb = "(late_batch w)(ev_seq ev \<mapsto> card (decoding ?nd))"
  let ?w1 = "w\<lparr>w_nodes := (w_nodes w)(n \<mapsto> ticked ?nd), late_batch := ?lb\<rparr>" and ?t = "now e + step_time ?nd"
  have pn: "prefill_node_ok st n ?nd" using nodes_okD(1)[OF H(2) nd0 n] by simp
  note T = prefill_tick[OF pn]
  have inv: "mn_inv ?nd" and pos: "\<forall>u \<in> snd ` set (prefill_remaining ?nd). 0 < u" using pn by (simp_all add: prefill_node_ok_def)
  have mc: "model_config_ok (mn_model ?nd)" using static_okD(1)[OF H(1)] static_okD(6)[OF H(1) nd0] by simp
  have t: "current_time e \<le> ?t" using step_time_nonneg[OF mc pos] by (simp add: now_def)
  have busy: "has_work ?nd" using work by (simp add: has_work_def)
  have q: "q_keys e (stage_keys st \<union> batch_keys (w_nodes w) - {K_batch n})" using H(8) by simp
  have q1: "q_keys e (stage_keys st \<union> batch_keys (w_nodes ?w1))" by (rule batch_keys_start[where ?nd1.0 = "ticked ?nd", OF q nd0]) simp_all
  have nil: "[] = filter (at_end ?nd) (sorted_list_of_set (decoding ?nd))" "decoding (ticked ?nd) \<union> set ([] :: req_id list) = {}"
    using T(2) by simp_all
  have none: "emit_tokens n ?t (sorted_list_of_set (decoding (ticked ?nd) \<union> set [])) (?w1, x) = (Inr (), (?w1, x))"
    "emit_completions n ?t [] (?w1, x) = (Inr (), (?w1, x))" for x
    unfolding nil(2) by (simp_all add: py_return_def)
  have go: "\<exists>w' e'. on_decode_batch_step ev (w, e) = (Inr (), (w', e')) \<and> settled st' w (w', e') \<and>
      w_nodes w' = (w_nodes w)(n \<mapsto> woken (ticked ?nd)) \<and> length (ev_queue e') \<le> Suc (length (ev_queue e1))"
    if ok: "nodes_ok st' ?w1" "cache_ok st' ?w1" "books_ok st' ?w1" "transfers_ok st' ?w1"
      and q': "q_keys e1 (stage_keys st' \<union> batch_keys (w_nodes ?w1))" "current_time e1 = current_time e" "handlers e1 = handlers e"
        "stopped e1 = stopped e"
      and f: "finish_prefill_event n ?t (prefill_completed ?nd) (?w1, e) = (Inr (), (?w1, e1))" for st' e1
  proof -
    have t1: "current_time e1 \<le> ?t" using t q'(2) by simp
    obtain s' where wk: "wake_batch_step n ?t (?w1, e1) = (Inr (), s')" "settled st' w s'"
      "w_nodes (fst s') = (w_nodes w)(n \<mapsto> woken (ticked ?nd))" "length (ev_queue (snd s')) \<le> Suc (length (ev_queue e1))"
      by (rule batch_settle[OF h nd0 refl _ _ _ ok q'(1) t1 q'(3,4)]) simp_all
    have "on_decode_batch_step ev (w, e) = (Inr (), s')"
      by (rule batch_run[OF ev nd0 refl inv busy refl refl f none(1) nil(1) none(2) wk(1)])
    then show ?thesis using wk(2-4) by (cases s') auto
  qed
  show ?thesis
  proof (cases "prefill_completed ?nd")
    case None
    have "nodes_ok st ?w1"
    proof (rule nodes_ok_update[OF H(2), where n = n and nd' = "ticked ?nd"])
      show "if n \<in> set (prefill_ids w) then prefill_node_ok st n (ticked ?nd) else decode_node_ok st n (ticked ?nd)"
        using n T(3)[OF None] by simp
      show "n \<in> (if (\<exists>m. g = St_decoding m \<or> g = St_ending m) then set (decode_ids w) else set (prefill_ids w))"
        if "st x = Some (req, g)" "stage_node g = Some n" for x req g
        using H(2) that unfolding nodes_ok_def by blast
    qed simp_all
    moreover have "cache_ok st ?w1" "books_ok st ?w1" "transfers_ok st ?w1"
      using H(3-5) by (simp_all add: cache_ok_def books_ok_def transfers_ok_def)
    moreover have "finish_prefill_event n ?t (prefill_completed ?nd) (?w1, e) = (Inr (), (?w1, e))"
      using None by (simp add: finish_prefill_event_def py_return_def)
    ultimately obtain w' e' where R: "on_decode_batch_step ev (w, e) = (Inr (), (w', e'))" "settled st w (w', e')"
      "w_nodes w' = (w_nodes w)(n \<mapsto> woken (ticked ?nd))" "length (ev_queue e') \<le> Suc (length (ev_queue e))"
      using go[of st e] q1 by blast
    obtain p u rest where pu: "prefill_remaining ?nd = (p, u) # rest"
      "int (prefill_chunk_size (mn_model ?nd)) < u" "prefill_left ?nd = (p, u - int (prefill_chunk_size (mn_model ?nd))) # rest"
      using None work T(2) by (auto simp: has_work_def prefill_left_def prefill_completed_def split: list.splits if_splits)
    have "p \<in> fst ` set (prefill_remaining nd0)" using pu(1) by simp
    then have "sits st p (St_prefill n)" using pn unfolding prefill_node_ok_def by simp
    then obtain preq where gp: "st p = Some (preq, St_prefill n)" by (auto simp: sits_def)
    have "1 \<le> int (prefill_chunk_size (mn_model ?nd))" using mc by (simp add: model_config_ok_def)
    then have "Suc (nat (u - int (prefill_chunk_size (mn_model ?nd)))) \<le> nat u" using pu(2) by linarith
    then have "Suc (chunk_left (ticked ?nd) p) \<le> chunk_left nd0 p" using pu(1,3) by (simp add: chunk_left_def)
    then have "budget st (w', e') \<le> budget st (w, e)"
      using budget_node_change[OF booksD(5)[OF H(5)], of "{p}" st w n nd0 w' "woken (ticked ?nd)" e' e 0] nd0 R(3,4) gp T(2)
        ticked_other(2)[OF pu(1)] ticked_other(1)[of _ ?nd] by (auto simp: need_def)
    moreover have "same_requests st st" by (simp add: same_requests_def)
    ultimately show ?thesis using R(1,2) life_moves_refl unfolding advance_def by blast
  next
    case (Some pid)
    have s: "sits st pid (St_prefill n)" using T(4)[OF Some] by blast
    then obtain req where g: "st pid = Some (req, St_prefill n)" by (auto simp: sits_def)
    have id: "request_id req = pid" by (rule booksD(1)[OF H(5) g])
    have rq: "w_requests w pid = Some req" by (rule books_decision[OF H(5) g]) auto
    let ?st = "st(pid \<mapsto> (req, St_prefilled n))"
    let ?pl = "no_keys\<lparr>pl_request_id := Some pid, pl_node_id := Some n, pl_request := Some req\<rparr>"
    let ?e = "push ?t PREFILL_COMPLETE ?pl e"
    have f: "finish_prefill_event n ?t (prefill_completed ?nd) (?w1, e) = (Inr (), (?w1, ?e))"
      using Some rq t by (simp add: finish_prefill_event_def sim_run emit_run)
    have k: "life_key (mk_event ?t PREFILL_COMPLETE ?pl) = Some (K_prefilled req n)"
      using id by (simp add: life_key_def for_request_def mk_event_def)
    have "K_prefilled req n \<notin> stage_keys st"
      using s id by (intro stage_key_absent[OF H(5), of req "St_prefilled n"]) (auto dest: sits_fun)
    moreover have "stage_keys ?st = stage_keys st \<union> {K_prefilled req n}"
      using stage_keys_upd(1)[OF H(9) g, of req "St_prefilled n"] by simp
    ultimately have q': "q_keys ?e (stage_keys ?st \<union> batch_keys (w_nodes ?w1))"
      by (intro q_keys_push_key[OF q1 t k]) (auto dest: batch_keysD)
    have "nodes_ok ?st ?w1"
      by (rule nodes_ok_move[OF H(2) g, where n = n and nd' = "ticked ?nd"]) (use n T(4)[OF Some, of req] in auto)
    moreover have "cache_ok ?st ?w1"
      by (rule cache_ok_move[OF H(3) cache_step_refl[OF cache_okD(1)[OF H(3)]]]) (use s in \<open>auto dest: sits_fun\<close>)
    moreover have "books_ok ?st ?w1" by (rule books_ok_move[OF H(5) g]) simp_all
    moreover have "transfers_ok ?st ?w1" by (rule transfers_ok_other[OF H(4) g]) simp_all
    ultimately obtain w' e' where R: "on_decode_batch_step ev (w, e) = (Inr (), (w', e'))" "settled ?st w (w', e')"
      "w_nodes w' = (w_nodes w)(n \<mapsto> woken (ticked ?nd))" "length (ev_queue e') \<le> Suc (length (ev_queue ?e))"
      using go[OF _ _ _ _ q' _ _ _ f] by auto
    obtain u rest where pu: "prefill_remaining ?nd = (pid, u) # rest"
      using Some by (auto simp: prefill_completed_def split: list.splits if_splits)
    have "0 < u" using pos pu by simp
    then have "1 \<le> chunk_left nd0 pid" using pu by (simp add: chunk_left_def)
    then have "advance st (w, e) ?st (w', e')"
      using nd0 R(3,4) T(2) ticked_other(2)[OF pu] ticked_other(1)[of _ ?nd]
      by (intro advance_move[OF booksD(5)[OF H(5)] g, where n = n and y = "Some (woken (ticked ?nd))"])
        (auto intro: life_step.intros)
    moreover have "same_requests st ?st" by (rule same_requests_upd[of st, OF g]) simp_all
    ultimately show ?thesis using R(1,2) by blast
  qed
qed

lemma ended_moves:
  assumes "\<forall>r \<in> R. sits st r (St_decoding n)"
  shows "life_moves st (ended n R st)"
  unfolding life_moves_def
proof
  fix r
  show "ended n R st r = st r \<or> life_step (st r) (ended n R st r)"
  proof (cases "r \<in> R")
    case True
    then obtain req where "st r = Some (req, St_decoding n)" using assms by (auto simp: sits_def)
    then show ?thesis using True by (simp add: ended_def life_step.ends)
  qed (simp add: ended_apart)
qed

text \<open>Every stream pays for its token, the last one also for the end of the stream, and one of them for the next step.\<close>

lemma decode_budget:
  assumes fin: "finite (dom st)" and dn: "decode_node_ok st n nd" and nd0: "w_nodes w n = Some nd0" "nd = nd0\<lparr>batch_step_in_flight := b\<rparr>"
    and busy: "has_work nd" and w': "w_nodes w' = (w_nodes w)(n \<mapsto> woken (ticked nd))"
    and len: "length (ev_queue e') \<le> Suc (length (ev_queue e) + card (decoding nd) + card (finished nd))"
  shows "budget (ended n (finished nd) st) (w', e') \<le> budget st (w, e)"
proof -
  let ?R = "finished nd" and ?A = "decoding nd" and ?st = "ended n (finished nd) st"
  note T = decode_tick[OF dn]
  have pr: "prefill_remaining nd = []" and D: "decoding nd = {x. sits st x (St_decoding n)}"
    using dn by (simp_all add: decode_node_ok_def)
  have sub: "?R \<subseteq> ?A" by (auto simp: finished_def)
  have left: "tokens_left nd0 z = tokens_left nd z" "chunk_left nd0 z = chunk_left nd z" for z by (simp_all add: nd0(2))
  have ne: "?A \<noteq> {}" using busy pr by (simp add: has_work_def)
  have each: "need (w_nodes w') ?st r + 2 + (if r \<in> ?R then 1 else 0) \<le> need (w_nodes w) st r" if r: "r \<in> ?A" for r
  proof -
    obtain req where g: "st r = Some (req, St_decoding n)" using r D by (auto simp: sits_def)
    have old: "need (w_nodes w) st r = 3 * tokens_left nd r + 1" using g nd0(1) left by (simp add: need_def)
    show ?thesis
    proof (cases "r \<in> ?R")
      case True
      have "need (w_nodes w') ?st r = 1" using True g by (simp add: need_def ended_def)
      moreover have "1 \<le> tokens_left nd r" by (simp add: tokens_left_def)
      ultimately show ?thesis using True old by simp
    next
      case False
      then show ?thesis using old g w' ticked_tokens[OF r False] by (simp add: need_def ended_apart)
    qed
  qed
  have "(\<Sum>r \<in> ?A. need (w_nodes w') ?st r + 2 + (if r \<in> ?R then 1 else 0)) \<le> (\<Sum>r \<in> ?A. need (w_nodes w) st r)"
    by (rule sum_mono) (rule each)
  moreover have "(\<Sum>r \<in> ?A. if r \<in> ?R then 1 else 0 :: nat) = card ?R"
    using T(5) sub by (simp add: sum.If_cases inf_absorb2)
  ultimately have "(\<Sum>r \<in> ?A. need (w_nodes w') ?st r) + 2 * card ?A + card ?R \<le> (\<Sum>r \<in> ?A. need (w_nodes w) st r)"
    unfolding sum.distrib sum_constant by simp
  moreover have "1 \<le> card ?A" using ne T(5) by (simp add: card_gt_0_iff Suc_le_eq)
  ultimately have paid: "(\<Sum>r \<in> ?A. need (w_nodes w') ?st r) + length (ev_queue e') \<le>
      (\<Sum>r \<in> ?A. need (w_nodes w) st r) + length (ev_queue e) + 0"
    using len by linarith
  have dom: "dom ?st \<subseteq> dom st \<union> ?A" by (auto simp: ended_def split: if_splits)
  have rest: "?st z = st z \<and> tokens_left (woken (ticked nd)) z = tokens_left nd0 z \<and> chunk_left (woken (ticked nd)) z = chunk_left nd0 z"
    if "z \<notin> ?A" for z
  proof -
    have "z \<notin> ?R" using that sub by blast
    then show ?thesis using that ticked_other(1)[of z nd] ticked_other(3)[OF pr] left by (simp add: ended_apart)
  qed
  show ?thesis using budget_node_change[OF fin T(5) dom nd0(1) w' rest paid] by simp
qed

lemma batch_decode_step:
  assumes h: "handling (Some (K_batch n)) st (w, e)" and ev: "pl_node_id (ev_payload ev) = Some n"
    and nd0: "w_nodes w n = Some nd0" and work: "has_work nd0" and n: "n \<notin> set (prefill_ids w)"
  shows "\<exists>st' s'. on_decode_batch_step ev (w, e) = (Inr (), s') \<and> same_requests st st' \<and> settled st' w s' \<and>
    advance st (w, e) st' s'"
proof -
  note H = handlingD[OF h]
  let ?nd = "nd0\<lparr>batch_step_in_flight := False\<rparr>"
  let ?lb = "(late_batch w)(ev_seq ev \<mapsto> card (decoding ?nd))"
  let ?w1 = "w\<lparr>w_nodes := (w_nodes w)(n \<mapsto> ticked ?nd), late_batch := ?lb\<rparr>" and ?t = "now e + step_time ?nd"
  let ?cs = "filter (at_end ?nd) (sorted_list_of_set (decoding ?nd))" and ?R = "finished ?nd"
  let ?st = "ended n ?R st"
  have dn: "decode_node_ok st n ?nd" using nodes_okD(2)[OF H(2) nd0 n] by simp
  note T = decode_tick[OF dn]
  have "\<forall>r \<in> ?R. sits st r (St_decoding n)" using T(2) by blast
  note E = ended_frame[OF this]
  have inv: "mn_inv ?nd" and pr: "prefill_remaining ?nd = []" using dn by (simp_all add: decode_node_ok_def)
  have mc: "model_config_ok (mn_model ?nd)" using static_okD(1)[OF H(1)] static_okD(6)[OF H(1) nd0] by simp
  have t: "current_time e \<le> ?t" using step_time_nonneg[OF mc] pr by (simp add: now_def)
  have busy: "has_work ?nd" using work by (simp add: has_work_def)
  have q: "q_keys e (stage_keys st \<union> batch_keys (w_nodes w) - {K_batch n})" using H(8) by simp
  have q1: "q_keys e (stage_keys st \<union> batch_keys (w_nodes ?w1))"
    by (rule batch_keys_start[where ?nd1.0 = "ticked ?nd", OF q nd0]) simp_all
  have R: "set ?cs = ?R" using T(5) by (auto simp: finished_def)
  have f: "finish_prefill_event n ?t (prefill_completed ?nd) (?w1, e) = (Inr (), (?w1, e))"
    using T(1) by (simp add: finish_prefill_event_def py_return_def)
  have n1: "w_nodes ?w1 n = Some (ticked ?nd)" by simp
  have "decoding (ticked ?nd) \<union> set ?cs \<subseteq> decoding ?nd" unfolding R by (auto simp: finished_def)
  then have "finite (decoding (ticked ?nd) \<union> set ?cs)" "decoding (ticked ?nd) \<union> set ?cs \<subseteq> dom (output_tokens (ticked ?nd))"
    using T(4,5) finite_subset by blast+
  then have out: "set (sorted_list_of_set (decoding (ticked ?nd) \<union> set ?cs)) \<subseteq> dom (output_tokens (ticked ?nd))" by simp
  obtain e2 where tok: "emit_tokens n ?t (sorted_list_of_set (decoding (ticked ?nd) \<union> set ?cs)) (?w1, e) = (Inr (), (?w1, e2))"
    "q_keys e2 (stage_keys st \<union> batch_keys (w_nodes ?w1))" "current_time e2 = current_time e" "handlers e2 = handlers e" "stopped e2 = stopped e"
    "length (ev_queue e2) = length (ev_queue e) + length (sorted_list_of_set (decoding (ticked ?nd) \<union> set ?cs))"
    using emit_tokens_run[OF q1 t n1 out] by blast
  have dec: "\<exists>req. st r = Some (req, St_decoding n) \<and> request_id req = r" if r: "r \<in> ?R" for r
  proof -
    obtain req where g: "st r = Some (req, St_decoding n)" using T(2)[OF r] by (auto simp: sits_def)
    then show ?thesis using booksD(1)[OF H(5) g] by blast
  qed
  have fresh: "K_end r n \<notin> stage_keys st \<union> batch_keys (w_nodes ?w1)" if "r \<in> set ?cs" for r
  proof -
    have "r \<in> ?R" using that unfolding R .
    then obtain req where g: "st r = Some (req, St_decoding n)" "request_id req = r" using dec by blast
    then have "K_end r n \<notin> stage_keys st"
      using sitsI[of st, OF g(1)] by (intro stage_key_absent[OF H(5), of req "St_ending n"]) (auto dest: sits_fun)
    then show ?thesis by (auto dest: batch_keysD)
  qed
  have dist: "distinct ?cs" by simp
  have t2: "current_time e2 \<le> ?t" using t tok(3) by simp
  obtain e3 where com: "emit_completions n ?t ?cs (?w1, e2) = (Inr (), (?w1, e3))"
    "q_keys e3 (stage_keys st \<union> batch_keys (w_nodes ?w1) \<union> (\<lambda>r. K_end r n) ` set ?cs)" "current_time e3 = current_time e2"
    "handlers e3 = handlers e2" "stopped e3 = stopped e2" "length (ev_queue e3) = length (ev_queue e2) + length ?cs"
    using emit_completions_run[OF tok(2) t2 dist fresh] by blast
  have "stage_keys ?st = stage_keys st \<union> (\<lambda>r. K_end r n) ` ?R" by (rule stage_keys_ended[OF dec])
  then have q3: "q_keys e3 (stage_keys ?st \<union> batch_keys (w_nodes ?w1))" using com(2) unfolding R by (simp add: Un_ac)
  have nok: "nodes_ok ?st ?w1"
  proof (rule nodes_ok_update[OF H(2), where n = n and nd' = "ticked ?nd"])
    show "if n \<in> set (prefill_ids w) then prefill_node_ok ?st n (ticked ?nd) else decode_node_ok ?st n (ticked ?nd)"
      using n T(3) by simp
    show "sits ?st x g \<longleftrightarrow> sits st x g" if "stage_node g = Some m" "m \<noteq> n" for x g m by (rule E(5)[OF that])
    show "n \<in> (if (\<exists>m. g = St_decoding m \<or> g = St_ending m) then set (decode_ids w) else set (prefill_ids w))"
      if x: "?st x = Some (req, g)" "stage_node g = Some n" for x req g
    proof -
      have "n \<in> set (decode_ids w)" using static_okD(4)[OF H(1)] nd0 n by blast
      moreover have "\<exists>m. g = St_decoding m \<or> g = St_ending m"
      proof (cases "x \<in> ?R")
        case False
        then have "st x = Some (req, g)" using x(1) by (simp add: ended_apart)
        then have "n \<in> (if (\<exists>m. g = St_decoding m \<or> g = St_ending m) then set (decode_ids w) else set (prefill_ids w))"
          using H(2) x(2) unfolding nodes_ok_def by blast
        then show ?thesis using n by (auto split: if_splits)
      qed (use x in \<open>auto simp: ended_def\<close>)
      ultimately show ?thesis by simp
    qed
  qed simp_all
  have cok: "cache_ok ?st ?w1"
  proof (rule cache_ok_move[OF H(3) cache_step_refl[OF cache_okD(1)[OF H(3)]]])
    fix x m assume x: "sits st x (St_decoding m) \<or> sits st x (St_ending m)"
    show "sits ?st x (St_decoding m) \<or> sits ?st x (St_ending m)"
    proof (cases "x \<in> ?R")
      case True
      have "sits st x (St_decoding n)" by (rule T(2)[OF True])
      then have "m = n" "st x \<noteq> None" using x by (auto simp: sits_def)
      then show ?thesis using True by (simp add: sits_ended)
    next
      case False
      then show ?thesis using x by (simp add: sits_ended)
    qed
  qed simp_all
  have bok: "books_ok ?st ?w1" by (rule books_ok_stages[OF H(5) E(2,1)]) simp_all
  have trok: "transfers_ok ?st ?w1" by (rule transfers_ok_stages[OF H(4) E(3)]) simp_all
  have t3: "current_time e3 \<le> ?t" using t2 com(3) by simp
  obtain s' where wk: "wake_batch_step n ?t (?w1, e3) = (Inr (), s')" "settled ?st w s'"
    "w_nodes (fst s') = (w_nodes w)(n \<mapsto> woken (ticked ?nd))" "length (ev_queue (snd s')) \<le> Suc (length (ev_queue e3))"
    by (rule batch_settle[OF h nd0 refl _ _ _ nok cok bok trok q3 t3]) (use tok com in simp_all)
  obtain w' e' where s': "s' = (w', e')" by (cases s')
  have res: "on_decode_batch_step ev (w, e) = (Inr (), s')"
    by (rule batch_run[OF ev nd0 refl inv busy refl refl f tok(1) refl com(1) wk(1)])
  have "decoding (ticked ?nd) \<union> set ?cs = decoding ?nd" unfolding R by (auto simp: finished_def)
  then have "length (ev_queue e2) = length (ev_queue e) + card (decoding ?nd)" using tok(6) by simp
  moreover have "length ?cs = card ?R" using distinct_card[OF dist] unfolding R by simp
  ultimately have len: "length (ev_queue e') \<le> Suc (length (ev_queue e) + card (decoding ?nd) + card ?R)"
    using wk(4) com(6) s' by simp
  have nodes': "w_nodes w' = (w_nodes w)(n \<mapsto> woken (ticked ?nd))" using wk(3) s' by simp
  have "budget ?st (w', e') \<le> budget st (w, e)"
    by (rule decode_budget[OF booksD(5)[OF H(5)] dn nd0 refl busy nodes' len])
  then have "advance st (w, e) ?st s'"
    unfolding advance_def s' using ended_moves[OF \<open>\<forall>r \<in> ?R. sits st r (St_decoding n)\<close>] by blast
  then show ?thesis using res wk(2) E(4) by blast
qed

lemma on_decode_batch_step_step:
  assumes h: "handling (Some (K_batch n)) st (w, e)" and ev: "pl_node_id (ev_payload ev) = Some n"
    and b: "K_batch n \<in> batch_keys (w_nodes w)"
  shows "\<exists>st' s'. on_decode_batch_step ev (w, e) = (Inr (), s') \<and> same_requests st st' \<and> settled st' w s' \<and>
    advance st (w, e) st' s'"
proof -
  obtain nd where nd: "w_nodes w n = Some nd" using b by (auto simp: batch_keys_def)
  show ?thesis
  proof (cases "has_work nd")
    case True
    then show ?thesis using batch_prefill_step[OF h ev nd] batch_decode_step[OF h ev nd] by blast
  next
    case False
    let ?nd = "nd\<lparr>batch_step_in_flight := False\<rparr>"
    have "\<not> has_work ?nd" using False by (simp add: has_work_def)
    then have "on_decode_batch_step ev (w, e) = (Inr (), (w\<lparr>w_nodes := (w_nodes w)(n \<mapsto> ?nd)\<rparr>, e))"
      using ev nd by (simp add: on_decode_batch_step_def sim_run with_node_bind mark_batch_step_completed_def py_return_def)
    moreover have "same_requests st st" by (simp add: same_requests_def)
    ultimately show ?thesis using batch_idle[OF h nd False] by blast
  qed
qed

end
