(* ===== verification/Sim_Ends.thy ===== *)
theory Sim_Ends
  imports Sim_Batch
begin

text \<open>
  The two ends of a life: the last token releases the slot and the pins of the request, and an arrival is
  placed or refused by the policy.
\<close>

section \<open>The end of a request\<close>

lemma decode_leave:
  assumes dn: "decode_node_ok st n nd" and g: "st r = Some (req, St_ending n)"
  obtains nd' where "complete r nd = (Inr None, nd')" "decode_node_ok (st(r := None)) n nd'"
    "mn_node_id nd' = mn_node_id nd" "mn_model nd' = mn_model nd" "mn_config nd' = mn_config nd"
    "batch_step_in_flight nd' = batch_step_in_flight nd" "\<And>z. z \<noteq> r \<Longrightarrow> tokens_left nd' z = tokens_left nd z"
    "\<And>z. chunk_left nd' z = chunk_left nd z"
proof -
  have D: "mn_inv nd" "queue nd = []" "prefill_remaining nd = []"
    "set (running_requests nd) = {x. sits st x (St_decoding n) \<or> sits st x (St_ending n)}"
    "decoding nd = {x. sits st x (St_decoding n)}" "set (running_requests nd) \<subseteq> dom (output_tokens nd)"
    using dn unfolding decode_node_ok_def by blast+
  have only: "sits st r h \<longleftrightarrow> h = St_ending n" for h using g by (auto simp: sits_def)
  have rin: "r \<in> set (running_requests nd @ queue nd)" using D(4) only by simp
  obtain s1 p nd' where c: "complete r nd = (Inr p, nd')" "promote_next s1 = (p, nd')" "vacated s1"
    "s1 = forget r (nd\<lparr>running_requests := remove1 r (running_requests nd), queue := remove1 r (queue nd)\<rparr>)"
    by (rule complete_run[OF D(1) rin])
  have p: "p = None" "nd' = s1" using c(2,4) D(2) by (auto simp: promote_next_def)
  have inv: "mn_inv nd'" by (rule promote_next_inv(1)[OF c(3,2)])
  have set1: "set (running_requests nd') = set (running_requests nd) - {r}"
    using mn_invD(2)[OF D(1)] by (simp add: p c(4))
  have "decode_node_ok (st(r := None)) n nd'"
    unfolding decode_node_ok_def
  proof (intro conjI)
    show "mn_inv nd'" by (rule inv)
    show "set (running_requests nd') = {x. sits (st(r := None)) x (St_decoding n) \<or> sits (st(r := None)) x (St_ending n)}"
      unfolding set1 D(4) by auto
    show "decoding nd' = {x. sits (st(r := None)) x (St_decoding n)}" using only by (auto simp: p c(4) D(5))
    show "set (running_requests nd') \<subseteq> dom (output_tokens nd')" using D(6) unfolding set1 by (auto simp: p c(4))
  qed (use D(2,3) in \<open>simp_all add: p c(4)\<close>)
  with c(1)[unfolded p(1)] show thesis
    by (rule that) (simp_all add: p c(4) tokens_left_def chunk_left_def D(3))
qed

lemma transfers_ok_gone:
  assumes "transfers_ok st w" "st r = Some (req, g)" "\<forall>tid. g \<noteq> St_transfer tid" "pending_transfers w' = pending_transfers w"
  shows "transfers_ok (st(r := None)) w'"
  by (rule transfers_ok_stages[OF assms(1) _ assms(4)]) (use assms(2,3) in auto)

lemma on_decode_complete_step:
  assumes h: "handling (Some (K_end r n)) st (w, e)"
    and ev: "pl_request_id (ev_payload ev) = Some r" "pl_node_id (ev_payload ev) = Some n"
    and g: "st r = Some (req, St_ending n)"
  shows "\<exists>s'. on_decode_complete ev (w, e) = (Inr (), s') \<and> settled (st(r := None)) w s' \<and> advance st (w, e) (st(r := None)) s'"
proof -
  note H = handlingD[OF h]
  have id: "request_id req = r" by (rule booksD(1)[OF H(5) g])
  have n: "n \<in> set (decode_ids w)" using H(2) g unfolding nodes_ok_def by fastforce
  have np: "n \<notin> set (prefill_ids w)" using static_okD(3)[OF H(1)] n by auto
  obtain nd where nd: "w_nodes w n = Some nd" by (rule static_nodeE[OF H(1), of n]) (use n in auto)
  have dn: "decode_node_ok st n nd" by (rule nodes_okD(2)[OF H(2) nd np])
  let ?st = "st(r := None)"
  obtain nd' where N: "complete r nd = (Inr None, nd')" "decode_node_ok ?st n nd'"
    "mn_node_id nd' = mn_node_id nd" "mn_model nd' = mn_model nd" "mn_config nd' = mn_config nd"
    "batch_step_in_flight nd' = batch_step_in_flight nd" "\<And>z. z \<noteq> r \<Longrightarrow> tokens_left nd' z = tokens_left nd z"
    "\<And>z. chunk_left nd' z = chunk_left nd z"
    by (rule decode_leave[OF dn g]) blast
  obtain x c' where R: "release_request r n (w_cm w) = (x, c')" "x = Inr () \<or> x = Inl KeyError" "cm_ready c'"
    "cm_nodes c' = cm_nodes (w_cm w)" "block_tables c' = (block_tables (w_cm w))((n, r) := None)"
    by (rule release_step[of "w_cm w" n r]) (use cache_okD[OF H(3)] n in auto)
  let ?w1 = "w\<lparr>w_nodes := (w_nodes w)(n \<mapsto> nd')\<rparr>"
  let ?w2 = "drop_request r (?w1\<lparr>w_cm := c'\<rparr>)"
  let ?w = "?w2\<lparr>w_nodes := (w_nodes ?w2)(n \<mapsto> woken nd')\<rparr>"
  have first: "py_except (with_node n (complete r)) ValueError None (w, e) = (Inr None, (?w1, e))"
    using N(1) nd by (simp add: py_except_def with_node_def)
  have second: "py_except (with_cm (\<lambda>_. release_request r n)) KeyError () (?w1, e) = (Inr (), (?w1\<lparr>w_cm := c'\<rparr>, e))"
    using R(1,2) by (auto simp: py_except_def with_cm_def)
  have keys: "stage_keys ?st = stage_keys st - {K_end r n}"
    using stage_keys_upd(2)[OF H(9) g] id by simp
  have nodes2: "w_nodes ?w2 = (w_nodes w)(n \<mapsto> nd')" by (simp add: drop_request_def)
  have bk: "batch_keys ((w_nodes w)(n \<mapsto> nd')) = batch_keys (w_nodes w)"
    by (rule batch_keys_same[where nds = "w_nodes w", OF nd N(6)])
  have "stage_keys st \<union> batch_keys (w_nodes w) - set_option (Some (K_end r n)) = stage_keys ?st \<union> batch_keys (w_nodes ?w2)"
    unfolding nodes2 by (auto simp: keys bk dest: batch_keysD)
  then have q1: "q_keys e (stage_keys ?st \<union> batch_keys (w_nodes ?w2))" using H(8) by simp
  obtain e' where W: "wake_batch_step n (now e) (?w2, e) = (Inr (), (?w, e'))"
    "q_keys e' (stage_keys ?st \<union> batch_keys ((w_nodes ?w2)(n \<mapsto> woken nd')))" "current_time e' = current_time e"
    "handlers e' = handlers e" "stopped e' = stopped e" "length (ev_queue e') \<le> Suc (length (ev_queue e))"
    by (rule wake_run[of ?w2 n nd' e "now e", OF _ _ q1 stage_keys_no_batch]) (simp_all add: now_def nodes2)
  have res: "on_decode_complete ev (w, e) = (Inr (), (?w, e'))"
    using ev n W(1) by (simp add: on_decode_complete_def sim_run py_bind_Inr[where m = "py_except (with_node n (complete r)) ValueError None", OF first]
        py_bind_Inr[where m = "py_except (with_cm (\<lambda>_. release_request r n)) KeyError ()", OF second] drop_request_def)
  have "settled ?st w (?w, e')"
  proof (rule settledI)
    show "static_ok ?w" by (rule static_ok_update[OF H(1) nd, of "woken nd'"]) (use N in \<open>simp_all add: drop_request_def\<close>)
    show "nodes_ok ?st ?w"
      by (rule nodes_ok_touch[OF H(2) g, of n _ "woken nd'"]) (use np N(2) in \<open>auto simp: drop_request_def\<close>)
    show "cache_ok ?st ?w"
    proof -
      have "sits ?st y (St_decoding m) \<or> sits ?st y (St_ending m)" if t: "block_tables c' (m, y) \<noteq> None" for m y
      proof -
        have "block_tables (w_cm w) (m, y) \<noteq> None" "(m, y) \<noteq> (n, r)" using t unfolding R(5) by (auto split: if_splits)
        then have "sits st y (St_decoding m) \<or> sits st y (St_ending m)" using H(3) unfolding cache_ok_def by blast
        then show ?thesis using g \<open>(m, y) \<noteq> (n, r)\<close> by (auto simp: sits_def)
      qed
      then show ?thesis using R(3,4) cache_okD[OF H(3)] by (simp add: cache_ok_def drop_request_def)
    qed
    show "transfers_ok ?st ?w" by (rule transfers_ok_gone[OF H(4) g]) (simp_all add: drop_request_def)
    show "books_ok ?st ?w" by (rule books_ok_drop[OF H(5) g]) (simp_all add: drop_request_def)
    show "awake ?w" by (rule awake_woken[OF awake_but_upd[OF awake_but[OF H(6), of n], of ?w2 "Some nd'"], of ?w]) (simp_all add: nodes2)
    show "engine_ok e'" using H(7) W(4,5) by (simp add: engine_ok_def)
    show "q_keys e' (stage_keys ?st \<union> batch_keys (w_nodes ?w))" using W(2) by simp
  qed (simp_all add: drop_request_def)
  moreover have "advance st (w, e) ?st (?w, e')"
    by (rule advance_move[OF booksD(5)[OF H(5)] g, where n = n and y = "Some (woken nd')"])
      (use nd N(7,8) W(6) in \<open>auto intro: life_step.intros simp: drop_request_def\<close>)
  ultimately show ?thesis using res by blast
qed

section \<open>The decision\<close>

lemma run_scheduler_run:
  assumes st: "static_ok w" "nodes_ok st w" "cache_ok st w"
  obtains d pol' c' where "run_scheduler req (w, e) = (Inr d, (w\<lparr>w_sched := pol', w_cm := c'\<rparr>, e))" "cache_step (w_cm w) c'"
    "is_rejected d \<or> \<not> is_rejected d \<and> (\<exists>p \<in> set (prefill_ids w). \<exists>q \<in> set (decode_ids w). prefill_node d = Some p \<and> decode_node d = Some q)"
proof -
  let ?ps = "node_list w (prefill_ids w)" and ?ds = "node_list w (decode_ids w)" and ?T = "block_tables (w_cm w)"
  have node: "node_usable (the (w_nodes w n)) \<and> mn_node_id (the (w_nodes w n)) = n" if n: "n \<in> set (prefill_ids w) \<union> set (decode_ids w)" for n
  proof -
    obtain nd where nd: "w_nodes w n = Some nd" "mn_node_id nd = n" "1 \<le> capacity (mn_config nd)"
      by (rule static_nodeE[OF st(1) n])
    then show ?thesis using mn_invD(1)[OF nodes_okD(3)[OF st(2) nd(1)]] by (simp add: node_usable_def)
  qed
  have ids: "mn_node_id ` set ?ps = set (prefill_ids w)" "mn_node_id ` set ?ds = set (decode_ids w)"
    using node by (force simp: node_list_def)+
  have inv: "cm_ready (snd (w_sched w, w_cm w)) \<and> block_tables (snd (w_sched w, w_cm w)) = ?T" using cache_okD(1)[OF st(3)] by simp
  have pools: "pools_ok (cm_nodes (snd (w_sched w, w_cm w))) ?ps ?ds"
    using node cache_okD(2)[OF st(3)] by (auto simp: pools_ok_def node_list_def)
  obtain d s' where D: "policy_schedule (w_env w) (cm_query (now e)) (peek_backlog (w_transfer w)) (now e) req ?ps ?ds (w_sched w, w_cm w) = (Inr d, s')"
    "decision_for ?ps ?ds d" "cm_ready (snd s') \<and> block_tables (snd s') = ?T" "cm_nodes (snd s') = cm_nodes (w_cm w)"
    using cmt.policies.always_decides[OF inv pools, of "w_env w" "now e" "peek_backlog (w_transfer w)" "now e" req] by auto
  obtain pol' c' where s': "s' = (pol', c')" by (cases s')
  have "run_scheduler req (w, e) = (Inr d, (w\<lparr>w_sched := pol', w_cm := c'\<rparr>, e))"
    using D(1) s' by (simp add: run_scheduler_def cm_query_def)
  moreover have "cache_step (w_cm w) c'" using D(3,4) s' by (simp add: cache_step_def)
  moreover have "is_rejected d \<or> \<not> is_rejected d \<and> (\<exists>p \<in> set (prefill_ids w). \<exists>q \<in> set (decode_ids w). prefill_node d = Some p \<and> decode_node d = Some q)"
    using D(2) unfolding decision_for_def ids by (auto simp: is_rejected_def split: option.splits)
  ultimately show thesis by (rule that)
qed

section \<open>Admission\<close>

lemma prefill_admit:
  assumes pn: "prefill_node_ok st p nd" and g: "st r = Some (req, g)" "stage_node g = None"
  obtains ok nd' where "mn_admit r i pl ul nd = (Inr ok, nd')"
    "prefill_node_ok (st(r \<mapsto> (req, if ok then St_starting p else St_waiting p))) p nd'"
    "mn_node_id nd' = mn_node_id nd" "mn_model nd' = mn_model nd" "mn_config nd' = mn_config nd"
    "batch_step_in_flight nd' = batch_step_in_flight nd" "has_work nd' = has_work nd"
    "\<And>z. z \<noteq> r \<Longrightarrow> tokens_left nd' z = tokens_left nd z" "\<And>z. chunk_left nd' z = chunk_left nd z"
proof -
  have P: "mn_inv nd" "decoding nd = {}" "set (queue nd) = {x. sits st x (St_waiting p)}"
    "set (running_requests nd) = {x. sits st x (St_starting p) \<or> sits st x (St_prefill p) \<or> sits st x (St_prefilled p)}"
    "fst ` set (prefill_remaining nd) = {x. sits st x (St_prefill p)}" "\<forall>u \<in> snd ` set (prefill_remaining nd). 0 < u"
    using pn by (simp_all add: prefill_node_ok_def)
  have no: "\<not> sits st r h" if "stage_node h \<noteq> None" for h using g that by (auto simp: sits_def)
  have new: "r \<notin> set (running_requests nd @ queue nd)" using P(3,4) no by simp
  show thesis
  proof (cases "length (running_requests nd) < capacity (mn_config nd)")
    case True
    obtain sts where a: "mn_admit r i pl ul nd = (Inr True, nd\<lparr>states := sts, running_requests := running_requests nd @ [r],
        output_tokens := (output_tokens nd)(r \<mapsto> 0), expected_output := (expected_output nd)(r \<mapsto> i)\<rparr>)"
      using True by (simp add: mn_admit_def Let_def)
    have inv: "mn_inv (nd\<lparr>states := sts, running_requests := running_requests nd @ [r],
        output_tokens := (output_tokens nd)(r \<mapsto> 0), expected_output := (expected_output nd)(r \<mapsto> i)\<rparr>)"
      by (rule mn_admit_inv[OF P(1) new a])
    show thesis
      by (rule that[OF a]) (use inv P(2-6) no in \<open>auto simp: prefill_node_ok_def has_work_def tokens_left_def chunk_left_def\<close>)
  next
    case False
    obtain sts where a: "mn_admit r i pl ul nd = (Inr False, nd\<lparr>states := sts, queue := queue nd @ [r]\<rparr>)"
      using False by (simp add: mn_admit_def Let_def)
    have inv: "mn_inv (nd\<lparr>states := sts, queue := queue nd @ [r]\<rparr>)" by (rule mn_admit_inv[OF P(1) new a])
    show thesis
      by (rule that[OF a]) (use inv P(2-6) no in \<open>auto simp: prefill_node_ok_def has_work_def tokens_left_def chunk_left_def\<close>)
  qed
qed

lemma books_ok_enter:
  assumes ok: "books_ok st w" and g: "st r = Some (req, St_arriving)" "g' \<notin> {St_arriving, St_rejected}"
    and d: "prefill_node d = Some p" "decode_node d = Some q" "p \<in> set (prefill_ids w)" "q \<in> set (decode_ids w)"
    and w': "w_requests w' = (w_requests w)(r \<mapsto> req)" "decisions w' = (decisions w)(r \<mapsto> d)"
      "prefill_ids w' = prefill_ids w" "decode_ids w' = decode_ids w"
  shows "books_ok (st(r \<mapsto> (req, g'))) w'"
proof -
  have l: "live (st(r \<mapsto> (req, g'))) = (live st)(r \<mapsto> req)" using g(2) by (auto simp: live_def fun_eq_iff)
  show ?thesis
  proof (rule books_okI)
    show "finite (dom (st(r \<mapsto> (req, g'))))" using booksD(5)[OF ok] by simp
    show "request_id y = x" if "(st(r \<mapsto> (req, g'))) x = Some (y, h)" for x y h
      using that booksD(1)[OF ok g(1)] booksD(1)[OF ok, of x y h] by (auto split: if_splits)
    show "w_requests w' = live (st(r \<mapsto> (req, g')))" "dom (decisions w') = dom (live (st(r \<mapsto> (req, g'))))"
      unfolding l w' using booksD(2,3)[OF ok] by auto
    show "\<exists>p \<in> set (prefill_ids w'). \<exists>q \<in> set (decode_ids w'). prefill_node y = Some p \<and> decode_node y = Some q"
      if "decisions w' x = Some y" for x y
    proof (cases "x = r")
      case True
      then show ?thesis using that d unfolding w' by simp
    next
      case False
      then show ?thesis using that booksD(4)[OF ok, of x y] unfolding w' by simp
    qed
  qed
qed

section \<open>An arrival\<close>

text \<open>The request now counts as arrived; no other request appears or disappears.\<close>

definition enters :: "stages \<Rightarrow> req_id \<Rightarrow> stages \<Rightarrow> bool" where
  "enters st r st' \<longleftrightarrow> dom st' = dom st \<and> r \<notin> arrived st \<and> arrived st' = insert r (arrived st)"

lemma enters_upd: "st r = Some (req, St_arriving) \<Longrightarrow> g \<noteq> St_arriving \<Longrightarrow> enters st r (st(r \<mapsto> (req, g)))"
  by (auto simp: enters_def arrived_upd) (auto simp: arrived_def)

lemma arrive_reject:
  assumes h: "handling (Some (K_arrive req)) st (w, e)" and g: "st (request_id req) = Some (req, St_arriving)"
    and w1: "w1 = w\<lparr>w_sched := pol', w_cm := c'\<rparr>" "cache_step (w_cm w) c'"
    and pl: "pl_request_id pl = Some (request_id req)"
  shows "settled (st(request_id req \<mapsto> (req, St_rejected))) w (w1, push (now e) REQUEST_REJECTED pl e)"
    "advance st (w, e) (st(request_id req \<mapsto> (req, St_rejected))) (w1, push (now e) REQUEST_REJECTED pl e)"
proof -
  note H = handlingD[OF h]
  let ?r = "request_id req"
  let ?st = "st(?r \<mapsto> (req, St_rejected))" and ?e = "push (now e) REQUEST_REJECTED pl e"
  show "advance st (w, e) ?st (w1, ?e)"
    by (rule advance_move[OF booksD(5)[OF H(5)] g, where n = "''p''" and y = "w_nodes w ''p''"])
      (auto intro: life_step.intros simp: w1 after_prefill_def)
  show "settled ?st w (w1, ?e)"
  proof (rule settledI)
    show "static_ok w1" using H(1) by (simp add: static_ok_def w1)
    show "nodes_ok ?st w1" by (rule nodes_ok_stages[OF H(2)]) (use g in \<open>auto simp: w1 sits_def\<close>)
    show "cache_ok ?st w1" by (rule cache_ok_move[OF H(3) w1(2)]) (use g in \<open>auto simp: w1 sits_def\<close>)
    show "transfers_ok ?st w1" by (rule transfers_ok_other[OF H(4) g]) (simp_all add: w1)
    show "books_ok ?st w1"
      by (rule books_ok_stages[OF H(5)]) (use g in \<open>auto simp: w1 live_def fun_eq_iff\<close>)
    show "awake w1" using H(6) by (simp add: awake_def w1)
    show "engine_ok ?e" using H(7) by (simp add: engine_ok_def)
    have k: "life_key (mk_event (now e) REQUEST_REJECTED pl) = Some (K_reject ?r)" using pl by (simp add: life_key_def mk_event_def)
    have "K_reject ?r \<notin> stage_keys st"
      by (rule stage_key_absent[OF H(5), of req "St_rejected"]) (use g in \<open>auto simp: sits_def\<close>)
    moreover have "stage_keys ?st = stage_keys st - {K_arrive req} \<union> {K_reject ?r}"
      using stage_keys_upd(1)[OF H(9) g, of req St_rejected] by simp
    ultimately show "q_keys ?e (stage_keys ?st \<union> batch_keys (w_nodes w1))"
      by (intro q_keys_push_key[OF H(8) _ k]) (auto simp: now_def w1 dest: batch_keysD)
  qed (simp_all add: w1)
qed

lemma arrive_accept:
  assumes h: "handling (Some (K_arrive req)) st (w, e)" and g: "st (request_id req) = Some (req, St_arriving)"
    and d: "prefill_node d = Some p" "decode_node d = Some q" "p \<in> set (prefill_ids w)" "q \<in> set (decode_ids w)"
    and nd: "w_nodes w p = Some nd" "mn_admit (request_id req) i pl ul nd = (Inr ok, nd')"
    and w1: "w1 = w\<lparr>w_sched := pol', w_cm := c', decisions := (decisions w)(request_id req \<mapsto> d),
        w_requests := (w_requests w)(request_id req \<mapsto> req), w_nodes := (w_nodes w)(p \<mapsto> nd')\<rparr>" "cache_step (w_cm w) c'"
    and e1: "e1 = push (now e) SCHEDULED plS e" "e2 = (if ok then push (now e) PREFILL_START plK e1 else e1)"
      "life_key (mk_event (now e) PREFILL_START plK) = Some (K_start req p)"
    and stg: "stg = (if ok then St_starting p else St_waiting p)"
    and N: "prefill_node_ok (st(request_id req \<mapsto> (req, stg))) p nd'" "mn_node_id nd' = mn_node_id nd" "mn_model nd' = mn_model nd"
      "mn_config nd' = mn_config nd" "batch_step_in_flight nd' = batch_step_in_flight nd" "has_work nd' = has_work nd"
      "\<And>z. z \<noteq> request_id req \<Longrightarrow> tokens_left nd' z = tokens_left nd z" "\<And>z. chunk_left nd' z = chunk_left nd z"
  shows "settled (st(request_id req \<mapsto> (req, stg))) w (w1, e2)" "advance st (w, e) (st(request_id req \<mapsto> (req, stg))) (w1, e2)"
proof -
  note H = handlingD[OF h]
  let ?r = "request_id req"
  let ?st = "st(?r \<mapsto> (req, stg))"
  have step: "life_step (Some (req, St_arriving)) (Some (req, stg))" by (auto simp: stg intro: life_step.intros)
  show "advance st (w, e) ?st (w1, e2)"
    by (rule advance_move[OF booksD(5)[OF H(5)] g step, where n = p and y = "Some nd'"])
      (use nd(1) N(7,8) in \<open>auto simp: w1 e1 stg\<close>)
  show "settled ?st w (w1, e2)"
  proof (rule settledI)
    show "static_ok w1" by (rule static_ok_update[OF H(1) nd(1) N(2-4)]) (simp_all add: w1)
    show "nodes_ok ?st w1"
    proof (rule nodes_ok_update[OF H(2), where n = p and nd' = nd'])
      show "if p \<in> set (prefill_ids w) then prefill_node_ok ?st p nd' else decode_node_ok ?st p nd'" using d(3) N(1) by simp
      fix x y m assume "stage_node y = Some m" "m \<noteq> p"
      then show "sits ?st x y \<longleftrightarrow> sits st x y" using g by (auto simp: stg sits_def)
    next
      fix x y f assume x: "?st x = Some (y, f)" "stage_node f = Some p"
      show "p \<in> (if (\<exists>m. f = St_decoding m \<or> f = St_ending m) then set (decode_ids w) else set (prefill_ids w))"
      proof (cases "x = ?r")
        case True
        then show ?thesis using x d(3) by (auto simp: stg split: if_splits)
      next
        case False
        then have "st x = Some (y, f)" using x by simp
        then show ?thesis using H(2) x(2) unfolding nodes_ok_def by blast
      qed
    qed (simp_all add: w1)
    show "cache_ok ?st w1" by (rule cache_ok_move[OF H(3) w1(2)]) (use g in \<open>auto simp: w1 sits_def\<close>)
    show "transfers_ok ?st w1" by (rule transfers_ok_other[OF H(4) g]) (simp_all add: w1 stg)
    show "books_ok ?st w1" by (rule books_ok_enter[OF H(5) g _ d]) (simp_all add: w1 stg)
    show "awake w1" using awake_upd[OF H(6), of w1 p nd'] H(6) nd(1) N(5,6) unfolding awake_def w1 by simp
    show "engine_ok e2" using H(7) by (simp add: engine_ok_def e1)
    have keys: "stage_keys ?st = stage_keys st - {K_arrive req} \<union> set_option (stage_key req stg)"
      using stage_keys_upd(1)[OF H(9) g, of req stg] by simp
    have bk: "batch_keys ((w_nodes w)(p \<mapsto> nd')) = batch_keys (w_nodes w)"
      by (rule batch_keys_same[where nds = "w_nodes w", OF nd(1) N(5)])
    have q1: "q_keys e1 (stage_keys st \<union> batch_keys (w_nodes w) - {K_arrive req})"
      using H(8) unfolding e1(1) by (intro q_keys_push_silent) (simp_all add: silent_def now_def)
    have "K_start req p \<notin> stage_keys st"
      by (rule stage_key_absent[OF H(5), of req "St_starting p"]) (use g in \<open>auto simp: sits_def\<close>)
    then have q2: "q_keys (push (now e) PREFILL_START plK e1) (insert (K_start req p) (stage_keys st \<union> batch_keys (w_nodes w) - {K_arrive req}))"
      by (intro q_keys_push_key[OF q1 _ e1(3)]) (auto simp: e1(1) now_def dest: batch_keysD)
    have "stage_keys ?st \<union> batch_keys (w_nodes w1) =
        (if ok then insert (K_start req p) else id) (stage_keys st \<union> batch_keys (w_nodes w) - {K_arrive req})"
      unfolding keys w1 by (auto simp: bk stg dest: batch_keysD)
    then show "q_keys e2 (stage_keys ?st \<union> batch_keys (w_nodes w1))" using q1 q2 by (cases ok) (simp_all add: e1(2))
  qed (simp_all add: w1)
qed

lemma on_arrive_step:
  assumes h: "handling (Some (K_arrive req)) st (w, e)" and ev: "pl_request (ev_payload ev) = Some req"
    and g: "st (request_id req) = Some (req, St_arriving)"
  shows "\<exists>st' s'. on_arrive ev (w, e) = (Inr (), s') \<and> enters st (request_id req) st' \<and> settled st' w s' \<and> advance st (w, e) st' s'"
proof -
  note H = handlingD[OF h]
  let ?r = "request_id req"
  obtain d pol' c1 where S: "run_scheduler req (w, e) = (Inr d, (w\<lparr>w_sched := pol', w_cm := c1\<rparr>, e))" "cache_step (w_cm w) c1"
    "is_rejected d \<or> \<not> is_rejected d \<and> (\<exists>p \<in> set (prefill_ids w). \<exists>q \<in> set (decode_ids w). prefill_node d = Some p \<and> decode_node d = Some q)"
    by (rule run_scheduler_run[OF H(1-3)])
  show ?thesis
  proof (cases "is_rejected d")
    case True
    let ?w = "w\<lparr>w_sched := pol', w_cm := c1\<rparr>"
    let ?e = "push (now e) REQUEST_REJECTED (no_keys\<lparr>pl_request_id := Some ?r, pl_reason := reject_reason d\<rparr>) e"
    have "on_arrive ev (w, e) = (Inr (), (?w, ?e))"
      using ev True by (simp add: on_arrive_def sim_run py_bind_Inr[where m = "run_scheduler req", OF S(1)] emit_run now_def)
    moreover have "enters st ?r (st(?r \<mapsto> (req, St_rejected)))" by (rule enters_upd[of st, OF g]) simp
    ultimately show ?thesis using arrive_reject[OF h g refl S(2), of "no_keys\<lparr>pl_request_id := Some ?r, pl_reason := reject_reason d\<rparr>"]
      by auto
  next
    case False
    then obtain p q where d: "prefill_node d = Some p" "decode_node d = Some q" "p \<in> set (prefill_ids w)" "q \<in> set (decode_ids w)"
      using S(3) by blast
    obtain nd where nd: "w_nodes w p = Some nd" "mn_model nd = w_model w" by (rule static_nodeE[OF H(1), of p]) (use d(3) in auto)
    have pn: "prefill_node_ok st p nd" by (rule nodes_okD(1)[OF H(2) nd(1) d(3)])
    have c1: "cm_ready c1" "q \<in> cm_nodes c1" using S(2) cache_okD[OF H(3)] d(4) by (simp_all add: cache_step_def)
    obtain m c2 where L: "lookup (now e) req q c1 = (Inr m, c2)" "cache_step c1 c2" by (rule lookup_step[OF c1])
    let ?ul = "Some (max 0 (int (length (token_ids req)) - int (matched_tokens m)))"
    obtain ok nd' where N: "mn_admit ?r (int (expected_output_len req)) (Some (int (length (token_ids req)))) ?ul nd = (Inr ok, nd')"
      "prefill_node_ok (st(?r \<mapsto> (req, if ok then St_starting p else St_waiting p))) p nd'"
      "mn_node_id nd' = mn_node_id nd" "mn_model nd' = mn_model nd" "mn_config nd' = mn_config nd"
      "batch_step_in_flight nd' = batch_step_in_flight nd" "has_work nd' = has_work nd"
      "\<And>z. z \<noteq> ?r \<Longrightarrow> tokens_left nd' z = tokens_left nd z" "\<And>z. chunk_left nd' z = chunk_left nd z"
      by (rule prefill_admit[OF pn g, where i = "int (expected_output_len req)" and ul = ?ul
          and pl = "Some (int (length (token_ids req)))"]) auto
    let ?plS = "no_keys\<lparr>pl_request_id := Some ?r, pl_decision := Some d, pl_matched_tokens := Some (matched_tokens m),
        pl_matched_blocks_by_tier := Some (matched_blocks_by_tier m)\<rparr>"
    let ?e1 = "push (now e) SCHEDULED ?plS e"
    let ?w2 = "\<lambda>c. w\<lparr>w_sched := pol', w_cm := c, decisions := (decisions w)(?r \<mapsto> d),
        w_requests := (w_requests w)(?r \<mapsto> req), w_nodes := (w_nodes w)(p \<mapsto> nd')\<rparr>"
    have c2: "cm_ready (w_cm (?w2 c2))" "q \<in> cm_nodes (w_cm (?w2 c2))" using L(2) c1 by (simp_all add: cache_step_def)
    obtain plK c3 where K: "start_prefill_event ?r p req q (?w2 c2, ?e1) = (Inr (), (?w2 c2\<lparr>w_cm := c3\<rparr>, push (now ?e1) PREFILL_START plK ?e1))"
      "cache_step (w_cm (?w2 c2)) c3" "life_key (mk_event (now ?e1) PREFILL_START plK) = Some (K_start req p)"
      by (rule start_prefill_event_run[of "?w2 c2" p nd' q ?e1 req ?r, OF _ c2]) (simp_all add: now_def)
    let ?c = "if ok then c3 else c2" and ?e2 = "if ok then push (now e) PREFILL_START plK ?e1 else ?e1"
    have cs: "cache_step (w_cm w) ?c"
      using cache_step_trans[OF S(2) L(2)] K(2) cache_step_trans[of "w_cm w" c2 c3] by simp
    have res: "on_arrive ev (w, e) = (Inr (), (?w2 ?c, ?e2))"
      using ev False d nd(1) L(1) N(1) K(1)
      by (cases ok) (simp_all add: on_arrive_def sim_run py_bind_Inr[where m = "run_scheduler req", OF S(1)] with_cm_bind with_node_bind
          now_def py_return_def)
    note A = arrive_accept[OF h g d nd(1) N(1) refl cs refl refl K(3)[simplified] refl N(2-9)]
    have "enters st ?r (st(?r \<mapsto> (req, if ok then St_starting p else St_waiting p)))" by (rule enters_upd[of st, OF g]) simp
    then show ?thesis using res A by blast
  qed
qed

end
