(* ===== verification/Sim_Source.thy ===== *)
theory Sim_Source
  imports Sim_Ends
begin

text \<open>
  The two passive parts of a run as the simulator needs them: what the collector counts, and what an
  arrival source promises about the requests it gives out.
\<close>

section \<open>What the collector counts\<close>

definition counted :: "collector \<Rightarrow> nat \<times> nat \<times> nat \<times> req_id set" where
  "counted m = (total_arrived m, completed_count m, rejected_count m, dom (map_of (col_requests m)))"

lemma counted_upd_record [simp]: "counted (upd_record r f m) = counted m"
  by (auto simp: counted_def upd_record_def update_conv' split: option.splits)

lemma counted_other [simp]:
  "counted (m\<lparr>ttft_per_request := a\<rparr>) = counted m" "counted (m\<lparr>last_decode_step_time := b\<rparr>) = counted m"
  "counted (m\<lparr>tbt_samples := c\<rparr>) = counted m" "counted (m\<lparr>batch_size_samples := d\<rparr>) = counted m"
  "counted (m\<lparr>total_decode_tokens := f\<rparr>) = counted m" "counted (m\<lparr>dual_phase_tick_count := g\<rparr>) = counted m"
  "counted (m\<lparr>cache_hit_by_tier := h\<rparr>) = counted m" "counted (m\<lparr>seen_transfer_ids := i\<rparr>) = counted m"
  "counted (m\<lparr>active_prefills := j\<rparr>) = counted m" "counted (m\<lparr>active_decodes := k\<rparr>) = counted m"
  "counted (m\<lparr>request_n_chunks := l\<rparr>) = counted m" "counted (m\<lparr>kv_transfer_cost_samples := n\<rparr>) = counted m"
  "counted (m\<lparr>kv_transfer_queued_samples := p\<rparr>) = counted m"
  by (simp_all add: counted_def)

lemma observe_silent:
  assumes "ev_type ev \<notin> {REQUEST_ARRIVE, REQUEST_REJECTED, DECODE_COMPLETE}"
  shows "counted (observe f ev m) = counted m"
proof (cases "ev_type ev")
  case SCHEDULED
  then show ?thesis by (simp add: observe_def m_on_scheduled_def Let_def split: option.splits)
next
  case PREFILL_START
  then show ?thesis by (simp add: observe_def m_on_prefill_start_def split: option.splits)
next
  case PREFILL_COMPLETE
  then show ?thesis by (simp add: observe_def m_on_prefill_complete_def split: option.splits)
next
  case KV_TRANSFER_START
  then show ?thesis by (simp add: observe_def m_on_kv_transfer_start_def split: option.splits)
next
  case KV_TRANSFER_COMPLETE
  then show ?thesis by (simp add: observe_def m_on_kv_transfer_complete_def Let_def split: option.splits)
next
  case TOKEN_GENERATED
  then show ?thesis by (simp add: observe_def m_on_decode_step_def Let_def split: option.splits)
next
  case DECODE_BATCH_STEP
  then show ?thesis by (simp add: observe_def m_on_decode_batch_step_def Let_def split: option.splits)
qed (use assms in simp_all)

lemma observe_arrival:
  assumes "ev_type ev = REQUEST_ARRIVE" "pl_request (ev_payload ev) = Some req" "counted m = (a, c, j, D)"
  shows "counted (observe f ev m) = (Suc a, c, j, insert (request_id req) D)"
  using assms by (auto simp: observe_def m_on_arrive_def Let_def counted_def update_conv')

lemma observe_rejection:
  assumes "ev_type ev = REQUEST_REJECTED" "pl_request_id (ev_payload ev) = Some r" "counted m = (a, c, j, D)"
  shows "counted (observe f ev m) = (a, c, Suc j, D)"
  using assms by (auto simp: observe_def m_on_rejected_def counted_def)

lemma observe_completion:
  assumes "ev_type ev = DECODE_COMPLETE" "pl_request_id (ev_payload ev) = Some r" "counted m = (a, c, j, D)" "r \<in> D"
  shows "counted (observe f ev m) = (a, Suc c, j, D)"
  using assms by (auto simp: observe_def m_on_decode_complete_def counted_def Let_def split: option.splits)

lemma metrics_ok_counted:
  "metrics_ok st m \<longleftrightarrow> (case counted m of (a, c, j, D) \<Rightarrow> a = c + j + card (arrived st) \<and> arrived st \<subseteq> D)"
  by (simp add: metrics_ok_def counted_def)

lemma merged_keys [simp]:
  "ev_type (merged w ev) = ev_type ev" "pl_request (ev_payload (merged w ev)) = pl_request (ev_payload ev)"
  "pl_request_id (ev_payload (merged w ev)) = pl_request_id (ev_payload ev)"
  by (simp_all add: merged_def split: option.splits)

section \<open>Arrival sources\<close>

text \<open>The events a request still needs when its arrival is enqueued, its own arrival included.\<close>

definition request_need :: "request \<Rightarrow> nat" where
  "request_need req = after_prefill req + length (token_ids req) + 5"

text \<open>
  What a run relies on: the requests are named by a counter that only grows, and a bounded source pays for
  each request out of a finite stock.
\<close>

locale arrival_source =
  fixes give :: "time \<Rightarrow> ('g, (time \<times> request) option) py"
    and name :: "'g \<Rightarrow> nat \<Rightarrow> string"
    and given :: "'g \<Rightarrow> nat"
    and bounded :: "'g \<Rightarrow> bool"
    and stock :: "'g \<Rightarrow> nat"
  assumes name_inj: "name g i = name g j \<Longrightarrow> i = j"
    and name_kept: "give t g = (x, g') \<Longrightarrow> name g' = name g"
    and give_request: "give t g = (Inr (Some (t', req)), g') \<Longrightarrow> request_id req = name g (given g) \<and> given g' = Suc (given g)"
    and give_none: "give t g = (Inr None, g') \<Longrightarrow> given g' = given g"
    and give_pays: "bounded g \<Longrightarrow> give t g = (Inr a, g') \<Longrightarrow>
      bounded g' \<and> stock g' + (case a of None \<Rightarrow> 0 | Some (t', req) \<Rightarrow> request_need req) \<le> stock g"
    and give_raises: "give t g = (Inl err, g') \<Longrightarrow> err \<notin> {OutOfFuel, HeapFault, MemoryError, IndexError}"
begin

definition knows :: "string set \<Rightarrow> 'g \<Rightarrow> bool" where
  "knows R g \<longleftrightarrow> (\<forall>r \<in> R. \<exists>k < given g. r = name g k)"

lemma give_fresh:
  assumes "knows R g" "give t g = (Inr (Some (t', req)), g')"
  shows "request_id req \<notin> R" "knows (insert (request_id req) R) g'"
proof -
  note G = give_request[OF assms(2)] name_kept[OF assms(2)]
  show "request_id req \<notin> R"
  proof
    assume "request_id req \<in> R"
    then obtain k where "k < given g" "name g (given g) = name g k" using assms(1) G(1) unfolding knows_def by metis
    then show False using name_inj by fastforce
  qed
  show "knows (insert (request_id req) R) g'"
    using assms(1) G unfolding knows_def by (metis insert_iff less_Suc_eq)
qed

lemma give_nothing: "knows R g \<Longrightarrow> give t g = (Inr None, g') \<Longrightarrow> knows R g'"
  unfolding knows_def using give_none name_kept by metis

end

definition source_name :: "arrivals \<Rightarrow> nat \<Rightarrow> string" where
  "source_name g k = source_prefix g @ digits k"

fun is_trace :: "arrivals \<Rightarrow> bool" where
  "is_trace (Poisson s) = False"
| "is_trace (Trace s) = (tg_attached s \<or> tg_file s = None)"

definition line_need :: "trace_line \<Rightarrow> nat" where
  "line_need l = (case l of Malformed \<Rightarrow> 0
     | Record_line r \<Rightarrow> 10 + 3 * max 1 (case output_length r of None \<Rightarrow> 0 | Some n \<Rightarrow> n) +
         (case input_length r of None \<Rightarrow> 0 | Some n \<Rightarrow> n))"

definition lines_need :: "trace_line list \<Rightarrow> nat" where
  "lines_need ls = sum_list (map line_need ls)"

fun trace_left :: "arrivals \<Rightarrow> nat" where
  "trace_left (Poisson s) = 0"
| "trace_left (Trace s) = (case tg_file s of Some ls \<Rightarrow> lines_need ls
     | None \<Rightarrow> if tg_attached s then 0 else lines_need (tg_path s))"

lemma hash_prefix_error: "hash_prefix sha toks k = Inl err \<Longrightarrow> err = StructError"
  by (auto simp: hash_prefix_def Let_def split: if_splits)

lemma make_request_cases:
  assumes "make_request sha u toks t cfg p ol = x"
  shows "x = Inl StructError \<or> (\<exists>req. x = Inr req \<and> token_ids req = toks \<and>
    expected_output_len req = (case ol of None \<Rightarrow> avg_output_len (cfg_workload cfg) | Some n \<Rightarrow> n))"
  using assms hash_prefix_error[of sha toks "block_size (cfg_model cfg)"]
  by (auto simp: make_request_def split: sum.splits)

lemma next_arrival_gives:
  assumes "next_arrival t s = (x, s')"
  shows "x = Inl StructError \<or> x = Inr None \<and> next_request_id s' = next_request_id s \<or>
    (\<exists>t' req. x = Inr (Some (t', req)) \<and> request_id req = ''req-'' @ digits (next_request_id s) \<and> next_request_id s' = Suc (next_request_id s))"
proof -
  obtain dt s1 where d: "sample_interarrival s = (dt, s1)" by (cases "sample_interarrival s")
  then have s1: "next_request_id s1 = next_request_id s" by (auto simp: sample_interarrival_def split: prod.splits)
  show ?thesis
  proof (cases "t + dt < end_time_ms s1")
    case True
    obtain y s2 where b: "build_request (t + dt) s1 = (y, s2)" by (cases "build_request (t + dt) s1")
    have "y = Inl StructError \<or> (\<exists>req. y = Inr req \<and> request_id req = ''req-'' @ digits (next_request_id s1) \<and>
        next_request_id s2 = Suc (next_request_id s1))"
      using b make_request_cases[OF refl] unfolding build_request_def Let_def
      by (auto split: prod.splits sum.splits) (metis Inl_Inr_False Inl_inject)
    moreover have "x = (case y of Inl err \<Rightarrow> Inl err | Inr req \<Rightarrow> Inr (Some (t + dt, req)))" "s' = s2"
      using assms d b True by (auto simp: next_arrival_def py_bind_def py_return_def split: sum.splits)
    ultimately show ?thesis unfolding s1 by auto
  qed (use assms d s1 in \<open>auto simp: next_arrival_def\<close>)
qed


section \<open>Trace replay\<close>

definition expected_error :: "py_error \<Rightarrow> bool" where
  "expected_error err \<longleftrightarrow> err \<notin> {OutOfFuel, HeapFault, MemoryError, IndexError}"

lemma expected_errors [simp]:
  "expected_error ValueError" "expected_error KeyError" "expected_error AssertionError" "expected_error StructError"
  "expected_error AttributeError" "expected_error RuntimeError"
  by (simp_all add: expected_error_def)

lemma choices_error: "choices xs ws g = (Inl err, g') \<Longrightarrow> expected_error err"
  by (auto simp: choices_def Let_def split: if_splits prod.splits)

lemma pick_bucket_error: "pick_bucket s = (Inl err, s') \<Longrightarrow> expected_error err"
  unfolding pick_bucket_def using choices_error by (fastforce split: prod.splits if_splits)

lemma assign_prefix_error: "assign_prefix_tokens t n s = (Inl err, s') \<Longrightarrow> expected_error err"
  unfolding assign_prefix_tokens_def Let_def py_bind_def using choices_error pick_bucket_error
  by (fastforce split: prod.splits sum.splits if_splits)

definition same_place :: "trace_generator \<Rightarrow> trace_generator \<Rightarrow> bool" where
  "same_place s s' \<longleftrightarrow> tg_idx s' = tg_idx s \<and> tg_file s' = tg_file s \<and> tg_attached s' = tg_attached s \<and>
     tg_path s' = tg_path s"

lemma tokens_from_record:
  assumes "build_token_ids_from_record r s = (x, s')"
  shows "same_place s s'" "case x of Inl err \<Rightarrow> expected_error err | Inr toks \<Rightarrow> input_length r = Some (length toks)"
proof -
  have b: "build_token_ids h n bs g v = (x, g') \<Longrightarrow> x = Inl AssertionError \<or> (\<exists>toks. x = Inr toks \<and> length toks = n)"
    for h n bs g v x g'
    by (auto simp: build_token_ids_def Let_def split: prod.splits if_splits)
  note defs = build_token_ids_from_record_def Let_def
  show "same_place s s'" using assms
    by (auto simp: defs same_place_def split: option.splits prefix_mode.splits prod.splits sum.splits)
  show "case x of Inl err \<Rightarrow> expected_error err | Inr toks \<Rightarrow> input_length r = Some (length toks)"
  proof (cases "tr_prefix_mode (tg_trace s)")
    case Mode_none
    then show ?thesis using assms by (auto simp: defs split: option.splits prod.splits if_splits)
  next
    case Mode_hash_ids
    then show ?thesis using assms b by (auto simp: defs split: option.splits prod.splits) fastforce+
  next
    case Mode_synthesis
    then show ?thesis using assms assign_prefix_error
      by (auto simp: defs split: option.splits prod.splits sum.splits if_splits)
  qed
qed

lemma replay_gives:
  assumes "replay_record r s = (x, s')"
  shows "tg_attached s' = tg_attached s" "tg_path s' = tg_path s"
    "case x of Inl err \<Rightarrow> expected_error err \<and> tg_file s' = None
      | Inr (t, req) \<Rightarrow> request_id req = ''trace-'' @ digits (tg_idx s) \<and> tg_idx s' = Suc (tg_idx s) \<and>
          tg_file s' = tg_file s \<and> request_need req \<le> line_need (Record_line r)"
proof -
  obtain y s1 where b: "build_token_ids_from_record r s = (y, s1)" by (cases "build_token_ids_from_record r s")
  note B = tokens_from_record[OF b, unfolded same_place_def]
  show "tg_attached s' = tg_attached s" "tg_path s' = tg_path s"
    using assms b B(1) by (auto simp: replay_record_def Let_def split: sum.splits option.splits)
  show "case x of Inl err \<Rightarrow> expected_error err \<and> tg_file s' = None
      | Inr (t, req) \<Rightarrow> request_id req = ''trace-'' @ digits (tg_idx s) \<and> tg_idx s' = Suc (tg_idx s) \<and>
          tg_file s' = tg_file s \<and> request_need req \<le> line_need (Record_line r)"
  proof (cases y)
    case (Inl err)
    then show ?thesis using assms b B(2) by (auto simp: replay_record_def)
  next
    case (Inr toks)
    show ?thesis
    proof (cases "output_length r")
      case (Some n)
      let ?m = "make_request (tg_sha s1) '''' toks (raw_arrival_ms r / speedup (tg_trace s)) (tg_config s1) 0 (Some n)"
      show ?thesis
      proof (cases ?m)
        case (Inl err)
        then show ?thesis using assms b Some \<open>y = Inr toks\<close> make_request_cases[OF Inl] by (auto simp: replay_record_def)
      next
        case (Inr req)
        then have q: "token_ids req = toks" "expected_output_len req = n" using make_request_cases[OF Inr] by auto
        have x: "x = Inr (raw_arrival_ms r / speedup (tg_trace s), req\<lparr>request_id := ''trace-'' @ digits (tg_idx s)\<rparr>)"
          "s' = s1\<lparr>tg_idx := tg_idx s + 1\<rparr>"
          using assms b Some \<open>y = Inr toks\<close> Inr B(1) by (auto simp: replay_record_def)
        have "input_length r = Some (length toks)" using B(2) \<open>y = Inr toks\<close> by simp
        then show ?thesis using B(1) Some q by (simp add: x request_need_def after_prefill_def line_need_def)
      qed
    qed (use assms b Inr in \<open>auto simp: replay_record_def\<close>)
  qed
qed

lemma lines_gives:
  assumes "schedule_next_lines ls s = (x, s')"
  shows "tg_attached s' = tg_attached s \<and> tg_path s' = tg_path s \<and>
    (case x of Inl err \<Rightarrow> expected_error err
     | Inr None \<Rightarrow> tg_idx s' = tg_idx s \<and> tg_file s' = None
     | Inr (Some (t, req)) \<Rightarrow> request_id req = ''trace-'' @ digits (tg_idx s) \<and> tg_idx s' = Suc (tg_idx s) \<and>
         (\<exists>ls'. tg_file s' = Some ls' \<and> lines_need ls' + request_need req \<le> lines_need ls))"
  using assms
proof (induction ls arbitrary: s)
  case (Cons l ls)
  show ?case
  proof (cases "limit_reached s")
    case False
    show ?thesis
    proof (cases l)
      case Malformed
      then have "schedule_next_lines ls (s\<lparr>tg_file := Some ls\<rparr>) = (x, s')" using Cons.prems False by simp
      then show ?thesis using Cons.IH[of "s\<lparr>tg_file := Some ls\<rparr>"] Malformed
        by (auto simp: lines_need_def line_need_def split: sum.splits option.splits)
    next
      case (Record_line r)
      obtain y s1 where y: "replay_record r (s\<lparr>tg_file := Some ls\<rparr>) = (y, s1)" by (cases "replay_record r (s\<lparr>tg_file := Some ls\<rparr>)")
      have x: "x = (case y of Inl err \<Rightarrow> Inl err | Inr z \<Rightarrow> Inr (Some z))" "s' = s1"
        using Cons.prems False Record_line y by (auto simp: py_bind_def py_return_def split: sum.splits)
      show ?thesis using replay_gives[OF y] Record_line unfolding x
        by (auto simp: lines_need_def split: sum.splits)
    qed
  qed (use Cons.prems in auto)
qed auto

interpretation chain: arrival_source chain_arrival source_name source_index is_trace trace_left
proof
  fix g g' and t t' :: time and x req a err
  show "source_name g i = source_name g j \<Longrightarrow> i = j" for i j unfolding source_name_def by (rule source_name_inj)
  show "source_name g' = source_name g" if "chain_arrival t g = (x, g')"
    using that by (cases g) (auto simp: chain_arrival_def lift_gen_def source_name_def fun_eq_iff split: prod.splits)
  show "request_id req = source_name g (source_index g) \<and> source_index g' = Suc (source_index g)"
    if "chain_arrival t g = (Inr (Some (t', req)), g')"
    using that next_arrival_gives lines_gives
    by (cases g) (fastforce simp: chain_arrival_def lift_gen_def source_name_def schedule_next_def split: prod.splits option.splits)+
  show "source_index g' = source_index g" if "chain_arrival t g = (Inr None, g')"
    using that next_arrival_gives lines_gives
    by (cases g) (fastforce simp: chain_arrival_def lift_gen_def schedule_next_def split: prod.splits option.splits)+
  show "is_trace g' \<and> trace_left g' + (case a of None \<Rightarrow> 0 | Some (t', req) \<Rightarrow> request_need req) \<le> trace_left g"
    if "is_trace g" "chain_arrival t g = (Inr a, g')"
  proof (cases g)
    case (Trace s)
    then show ?thesis using that lines_gives
      by (fastforce simp: chain_arrival_def lift_gen_def schedule_next_def split: prod.splits option.splits)
  qed (use that in simp)
  show "err \<notin> {OutOfFuel, HeapFault, MemoryError, IndexError}" if "chain_arrival t g = (Inl err, g')"
    using that next_arrival_gives lines_gives
    by (cases g) (fastforce simp: chain_arrival_def lift_gen_def schedule_next_def expected_error_def split: prod.splits option.splits)+
qed


text \<open>\<open>attach\<close> is a source too: the first arrival, out of a generator that has given nothing yet.\<close>

definition attaching :: "time \<Rightarrow> (arrivals, (time \<times> request) option) py" where
  "attaching t = first_arrival"

lemma attaching_lines:
  assumes "\<not> tg_attached s" "attaching t (Trace s) = (x, g')"
  obtains s' where "g' = Trace s'" "schedule_next_lines (tg_path s) (s\<lparr>tg_attached := True, tg_file := Some (tg_path s)\<rparr>) = (x, s')"
  using assms by (auto simp: attaching_def first_arrival_def lift_gen_def schedule_next_def split: prod.splits)

lemma attaching_arrival:
  assumes "\<not> rg_attached s" "attaching t (Poisson s) = (x, g')"
  obtains s' where "g' = Poisson s'" "next_arrival 0 (s\<lparr>rg_attached := True\<rparr>) = (x, s')"
  using assms by (auto simp: attaching_def first_arrival_def lift_gen_def split: prod.splits)

lemma attaching_gives:
  assumes "attaching t g = (x, g')"
  shows "source_prefix g' = source_prefix g"
    "case x of Inl err \<Rightarrow> expected_error err
     | Inr None \<Rightarrow> source_index g' = source_index g
     | Inr (Some (t', req)) \<Rightarrow> request_id req = source_name g (source_index g) \<and> source_index g' = Suc (source_index g)"
    "is_trace g \<Longrightarrow> x = Inr a \<Longrightarrow> is_trace g' \<and> trace_left g' + (case a of None \<Rightarrow> 0 | Some (t', req) \<Rightarrow> request_need req) \<le> trace_left g"
proof (atomize (full), cases g)
  case (Poisson s)
  show "source_prefix g' = source_prefix g \<and>
    (case x of Inl err \<Rightarrow> expected_error err
     | Inr None \<Rightarrow> source_index g' = source_index g
     | Inr (Some (t', req)) \<Rightarrow> request_id req = source_name g (source_index g) \<and> source_index g' = Suc (source_index g)) \<and>
    (is_trace g \<longrightarrow> x = Inr a \<longrightarrow> is_trace g' \<and> trace_left g' + (case a of None \<Rightarrow> 0 | Some (t', req) \<Rightarrow> request_need req) \<le> trace_left g)"
  proof (cases "rg_attached s")
    case True
    then show ?thesis using assms Poisson by (auto simp: attaching_def first_arrival_def)
  next
    case False
    obtain s' where s': "g' = Poisson s'" "next_arrival 0 (s\<lparr>rg_attached := True\<rparr>) = (x, s')"
      by (rule attaching_arrival[OF False assms[unfolded Poisson]])
    show ?thesis using next_arrival_gives[OF s'(2)] by (auto simp: Poisson s'(1) source_name_def)
  qed
next
  case (Trace s)
  show "source_prefix g' = source_prefix g \<and>
    (case x of Inl err \<Rightarrow> expected_error err
     | Inr None \<Rightarrow> source_index g' = source_index g
     | Inr (Some (t', req)) \<Rightarrow> request_id req = source_name g (source_index g) \<and> source_index g' = Suc (source_index g)) \<and>
    (is_trace g \<longrightarrow> x = Inr a \<longrightarrow> is_trace g' \<and> trace_left g' + (case a of None \<Rightarrow> 0 | Some (t', req) \<Rightarrow> request_need req) \<le> trace_left g)"
  proof (cases "tg_attached s")
    case True
    then show ?thesis using assms Trace by (auto simp: attaching_def first_arrival_def)
  next
    case False
    obtain s' where s': "g' = Trace s'"
      "schedule_next_lines (tg_path s) (s\<lparr>tg_attached := True, tg_file := Some (tg_path s)\<rparr>) = (x, s')"
      by (rule attaching_lines[OF False assms[unfolded Trace]])
    show ?thesis using lines_gives[OF s'(2)] False
      by (auto simp: Trace s'(1) source_name_def split: sum.splits option.splits)
  qed
qed

interpretation attach: arrival_source attaching source_name source_index is_trace trace_left
proof
  fix g g' and t t' :: time and x req a err
  show "source_name g i = source_name g j \<Longrightarrow> i = j" for i j unfolding source_name_def by (rule source_name_inj)
  show "source_name g' = source_name g" if "attaching t g = (x, g')"
    using attaching_gives(1)[OF that] by (simp add: source_name_def fun_eq_iff)
  show "request_id req = source_name g (source_index g) \<and> source_index g' = Suc (source_index g)"
    if "attaching t g = (Inr (Some (t', req)), g')" using attaching_gives(2)[OF that] by simp
  show "source_index g' = source_index g" if "attaching t g = (Inr None, g')" using attaching_gives(2)[OF that] by simp
  show "is_trace g' \<and> trace_left g' + (case a of None \<Rightarrow> 0 | Some (t', req) \<Rightarrow> request_need req) \<le> trace_left g"
    if "is_trace g" "attaching t g = (Inr a, g')" using attaching_gives(3)[OF that(2,1) refl] .
  show "err \<notin> {OutOfFuel, HeapFault, MemoryError, IndexError}" if "attaching t g = (Inl err, g')"
    using attaching_gives(2)[OF that] by (simp add: expected_error_def)
qed

lemma source_ok_knows: "source_ok st g \<longleftrightarrow> chain.knows (dom st) g" "source_ok st g \<longleftrightarrow> attach.knows (dom st) g"
  by (simp_all add: source_ok_def chain.knows_def attach.knows_def source_name_def)

end
