(* ===== verification/Sim_Run.thy ===== *)
theory Sim_Run
  imports Sim_Source
begin

text \<open>
  One round of the event loop as a whole: the event is taken from the queue, its handlers run in the order
  they were registered, and the requests have moved along their life cycle.
\<close>

section \<open>A new request\<close>

definition total :: "stages \<Rightarrow> world \<times> engine \<Rightarrow> nat" where
  "total st s = budget st s + trace_left (w_gen (fst s))"

definition grows :: "(time \<times> request) option \<Rightarrow> stages \<Rightarrow> stages \<Rightarrow> bool" where
  "grows a st st' \<longleftrightarrow> (case a of None \<Rightarrow> st' = st
     | Some (t, req) \<Rightarrow> st (request_id req) = None \<and> st' = st(request_id req \<mapsto> (req, St_arriving)))"

text \<open>The queue with the arrival a source gave out.\<close>

definition enqueued :: "(time \<times> request) option \<Rightarrow> engine \<Rightarrow> engine" where
  "enqueued a e = (case a of None \<Rightarrow> e | Some (t, req) \<Rightarrow> push t REQUEST_ARRIVE (no_keys\<lparr>pl_request := Some req\<rparr>) e)"

lemma enqueued_simps [simp]:
  "current_time (enqueued a e) = current_time e" "handlers (enqueued a e) = handlers e" "stopped (enqueued a e) = stopped e"
  by (simp_all add: enqueued_def split: option.splits)

text \<open>A source that raises, or gives out an arrival that lies in the past.\<close>

definition stumbles :: "(time \<times> request) option result \<Rightarrow> time \<Rightarrow> bool" where
  "stumbles x t0 \<longleftrightarrow> (case x of Inl err \<Rightarrow> True | Inr None \<Rightarrow> False | Inr (Some (t, req)) \<Rightarrow> t < t0)"

lemma sits_arriving: "st r = None \<Longrightarrow> g \<noteq> St_arriving \<Longrightarrow> sits (st(r \<mapsto> (req, St_arriving))) x g \<longleftrightarrow> sits st x g"
  by (auto simp: sits_def)

text \<open>The collector and the arrival source are not part of the simulator's own state.\<close>

lemma world_ok_passive [simp]:
  "world_ok st (w\<lparr>w_gen := g\<rparr>) \<longleftrightarrow> world_ok st w" "awake (w\<lparr>w_gen := g\<rparr>) \<longleftrightarrow> awake w"
  "world_ok st (w\<lparr>w_metrics := m\<rparr>) \<longleftrightarrow> world_ok st w" "awake (w\<lparr>w_metrics := m\<rparr>) \<longleftrightarrow> awake w"
proof -
  have n: "nodes_ok st (w\<lparr>w_gen := g\<rparr>) \<longleftrightarrow> nodes_ok st w" "nodes_ok st (w\<lparr>w_metrics := m\<rparr>) \<longleftrightarrow> nodes_ok st w"
    unfolding nodes_ok_def by simp_all
  have b: "books_ok st (w\<lparr>w_gen := g\<rparr>) \<longleftrightarrow> books_ok st w" "books_ok st (w\<lparr>w_metrics := m\<rparr>) \<longleftrightarrow> books_ok st w"
    unfolding books_ok_def by simp_all
  have t: "transfers_ok st (w\<lparr>w_gen := g\<rparr>) \<longleftrightarrow> transfers_ok st w" "transfers_ok st (w\<lparr>w_metrics := m\<rparr>) \<longleftrightarrow> transfers_ok st w"
    unfolding transfers_ok_def by simp_all
  show "world_ok st (w\<lparr>w_gen := g\<rparr>) \<longleftrightarrow> world_ok st w" "world_ok st (w\<lparr>w_metrics := m\<rparr>) \<longleftrightarrow> world_ok st w"
    unfolding world_ok_def n b t by (simp_all add: static_ok_def cache_ok_def)
qed (simp_all add: awake_def)

lemma handling_passive [simp]:
  "handling k st (w\<lparr>w_gen := g\<rparr>, e) \<longleftrightarrow> handling k st (w, e)" "handling k st (w\<lparr>w_metrics := m\<rparr>, e) \<longleftrightarrow> handling k st (w, e)"
  by (simp_all add: handling_def)

lemma arrival_enters:
  assumes h: "handling None st (w, e)" and new: "request_id req \<notin> dom st" and t: "current_time e \<le> t"
    and pl: "pl_request pl = Some req"
  defines "st' \<equiv> st(request_id req \<mapsto> (req, St_arriving))" and "e' \<equiv> push t REQUEST_ARRIVE pl e"
  shows "handling None st' (w, e')" "budget st' (w, e') \<le> budget st (w, e) + request_need req" "arrived st' = arrived st"
proof -
  note H = handlingD[OF h]
  have n: "st (request_id req) = None" using new by auto
  have same: "sits st' x g \<longleftrightarrow> sits st x g" if "g \<noteq> St_arriving" for x g
    unfolding st'_def by (rule sits_arriving[of st, OF n that])
  have "transfers_ok st' w"
    by (rule transfers_ok_stages[OF H(4)]) (use n in \<open>auto simp: st'_def\<close>)
  moreover have "nodes_ok st' w"
  proof (rule nodes_ok_stages[OF H(2)])
    show "sits st' x g \<longleftrightarrow> sits st x g" if "stage_node g = Some m" for x g m using that by (intro same) auto
  qed simp_all
  moreover have "cache_ok st' w"
    using H(3) unfolding cache_ok_def by (simp add: same)
  moreover have "books_ok st' w"
  proof (rule books_okI)
    have "live st' = live st" using n by (auto simp: st'_def live_def fun_eq_iff)
    then show "w_requests w = live st'" "dom (decisions w) = dom (live st')" using booksD(2,3)[OF H(5)] by simp_all
    show "finite (dom st')" using booksD(5)[OF H(5)] by (simp add: st'_def)
    show "request_id y = x" if "st' x = Some (y, g)" for x y g
      using that booksD(1)[OF H(5), of x y g] by (auto simp: st'_def split: if_splits)
  qed (use booksD(4)[OF H(5)] in blast)
  moreover have "q_keys e' (stage_keys st' \<union> batch_keys (w_nodes w))"
  proof -
    have "K_arrive req \<notin> stage_keys st"
      by (rule stage_key_absent[OF H(5), of req St_arriving]) (use n in \<open>auto simp: sits_def\<close>)
    moreover have "stage_keys st' = stage_keys st \<union> {K_arrive req}"
      unfolding st'_def using stage_keys_new[of st, OF n, of req St_arriving] by simp
    ultimately show ?thesis unfolding e'_def
      by (intro q_keys_push_key[OF H(8) t, of _ _ "K_arrive req"]) (use pl in \<open>auto simp: life_key_def mk_event_def dest: batch_keysD\<close>)
  qed
  ultimately show "handling None st' (w, e')" using H(1,6,7) by (simp add: handling_def world_ok_def e'_def engine_ok_def)
  have "(\<Sum>r \<in> {request_id req}. need (w_nodes w) st' r) + length (ev_queue e') \<le>
      (\<Sum>r \<in> {request_id req}. need (w_nodes w) st r) + length (ev_queue e) + request_need req"
    by (simp add: need_def st'_def e'_def request_need_def)
  moreover have "need (w_nodes w) st' r \<le> need (w_nodes w) st r" if "r \<notin> {request_id req}" for r
    using that need_same[of st' r st] by (simp add: st'_def)
  moreover have "dom st' \<subseteq> dom st \<union> {request_id req}" by (auto simp: st'_def)
  ultimately show "budget st' (w, e') \<le> budget st (w, e) + request_need req"
    by (intro budget_change[OF booksD(5)[OF H(5)], of "{request_id req}"]) simp_all
  show "arrived st' = arrived st" using n by (auto simp: st'_def arrived_upd arrived_def)
qed


lemma emit_arrival_step:
  assumes h: "handling None st (w, e)" and m: "metrics_ok st (w_metrics w)"
    and src: "src (w_gen w) = (x, g')"
    and x: "case x of Inl err \<Rightarrow> expected_error err | Inr None \<Rightarrow> source_ok st g'
      | Inr (Some (t, req)) \<Rightarrow> request_id req \<notin> dom st \<and> source_ok (st(request_id req \<mapsto> (req, St_arriving))) g'"
    and pay: "\<And>a. is_trace (w_gen w) \<Longrightarrow> x = Inr a \<Longrightarrow>
      is_trace g' \<and> trace_left g' + (case a of None \<Rightarrow> 0 | Some (t, req) \<Rightarrow> request_need req) \<le> trace_left (w_gen w)"
  shows "(\<exists>err s'. py_bind (with_gen src) emit_arrival (w, e) = (Inl err, s') \<and> expected_error err \<and> stumbles x (current_time e)) \<or>
    (\<exists>a st'. x = Inr a \<and> py_bind (with_gen src) emit_arrival (w, e) = (Inr (), (w\<lparr>w_gen := g'\<rparr>, enqueued a e)) \<and>
      sim_inv st' (w\<lparr>w_gen := g'\<rparr>, enqueued a e) \<and> grows a st st' \<and>
      (is_trace (w_gen w) \<longrightarrow> is_trace g' \<and> total st' (w\<lparr>w_gen := g'\<rparr>, enqueued a e) \<le> total st (w, e)))"
proof -
  have run: "py_bind (with_gen src) emit_arrival (w, e) = (case x of Inl err \<Rightarrow> (Inl err, (w\<lparr>w_gen := g'\<rparr>, e))
      | Inr a \<Rightarrow> emit_arrival a (w\<lparr>w_gen := g'\<rparr>, e))"
    using src by (auto simp: py_bind_def with_gen_def split: sum.splits)
  have inv: "sim_inv st' (w\<lparr>w_gen := g'\<rparr>, e')" if "handling None st' (w, e')" "arrived st' = arrived st" "source_ok st' g'" for st' e'
    using that m by (simp add: sim_inv_def handling_def metrics_ok_def)
  have bud: "budget st' (w\<lparr>w_gen := g'\<rparr>, e') = budget st' (w, e')" for st' e' by (simp add: budget_def)
  show ?thesis
  proof (cases x)
    case (Inl err)
    then show ?thesis using x unfolding run by (simp add: stumbles_def)
  next
    case (Inr a)
    show ?thesis
    proof (cases a)
      case None
      have "sim_inv st (w\<lparr>w_gen := g'\<rparr>, e)" using inv[OF h] x Inr None by simp
      then show ?thesis using pay[OF _ Inr] None
        unfolding run Inr by (auto simp: emit_arrival_def py_return_def grows_def total_def bud enqueued_def)
    next
      case (Some z)
      obtain t req where z: "z = (t, req)" by (cases z)
      let ?pl = "no_keys\<lparr>pl_request := Some req\<rparr>" and ?st = "st(request_id req \<mapsto> (req, St_arriving))"
      show ?thesis
      proof (cases "current_time e \<le> t")
        case False
        then have "emit_arrival a (w\<lparr>w_gen := g'\<rparr>, e) = (Inl ValueError, (w\<lparr>w_gen := g'\<rparr>, e))"
          by (simp add: Some z emit_arrival_def emit_def schedule_def)
        then show ?thesis using False unfolding run Inr by (simp add: stumbles_def Some z)
      next
        case True
        have new: "request_id req \<notin> dom st" "source_ok ?st g'" using x Inr Some z by simp_all
        note A = arrival_enters[where pl = ?pl, OF h new(1) True]
        have "emit_arrival a (w\<lparr>w_gen := g'\<rparr>, e) = (Inr (), (w\<lparr>w_gen := g'\<rparr>, push t REQUEST_ARRIVE ?pl e))"
          using True by (simp add: Some z emit_arrival_def emit_run)
        moreover have "sim_inv ?st (w\<lparr>w_gen := g'\<rparr>, push t REQUEST_ARRIVE ?pl e)"
          by (rule inv[OF A(1) A(3) new(2)]) simp_all
        moreover have "grows a st ?st" using new(1) by (auto simp: grows_def Some z)
        moreover have "total ?st (w\<lparr>w_gen := g'\<rparr>, push t REQUEST_ARRIVE ?pl e) \<le> total st (w, e)" if tr: "is_trace (w_gen w)"
          using A(2) pay[OF tr Inr] by (simp add: total_def bud Some z)
        moreover have "is_trace g'" if tr: "is_trace (w_gen w)" using pay[OF tr Inr] by simp
        ultimately show ?thesis unfolding run Inr
          by (intro disjI2 exI[of _ a] exI[of _ ?st]) (simp add: enqueued_def Some z)
      qed
    qed
  qed
qed


lemma chain_step:
  assumes h: "handling None st (w, e)" and m: "metrics_ok st (w_metrics w)" and s: "source_ok st (w_gen w)"
    and c: "chain_arrival (now e) (w_gen w) = (x, g')"
  shows "(\<exists>err s'. on_arrive_chain ev (w, e) = (Inl err, s') \<and> expected_error err \<and> stumbles x (current_time e)) \<or>
    (\<exists>a st'. x = Inr a \<and> on_arrive_chain ev (w, e) = (Inr (), (w\<lparr>w_gen := g'\<rparr>, enqueued a e)) \<and>
      sim_inv st' (w\<lparr>w_gen := g'\<rparr>, enqueued a e) \<and> grows a st st' \<and>
      (is_trace (w_gen w) \<longrightarrow> is_trace g' \<and> total st' (w\<lparr>w_gen := g'\<rparr>, enqueued a e) \<le> total st (w, e)))"
proof -
  let ?src = "chain_arrival (now e)"
  have k: "chain.knows (dom st) (w_gen w)" using s by (simp add: source_ok_knows)
  have x: "case x of Inl err \<Rightarrow> expected_error err | Inr None \<Rightarrow> source_ok st g'
      | Inr (Some (t, req)) \<Rightarrow> request_id req \<notin> dom st \<and> source_ok (st(request_id req \<mapsto> (req, St_arriving))) g'"
    using chain.give_raises[of "now e" "w_gen w" _ g'] chain.give_nothing[OF k, of "now e" g'] chain.give_fresh[OF k, of "now e" _ _ g'] c
    by (auto simp: source_ok_knows expected_error_def split: sum.splits option.splits)
  have pay: "is_trace g' \<and> trace_left g' + (case a of None \<Rightarrow> 0 | Some (t, req) \<Rightarrow> request_need req) \<le> trace_left (w_gen w)"
    if "is_trace (w_gen w)" "x = Inr a" for a
    using chain.give_pays[OF that(1), of "now e" a g'] c that(2) by simp
  have run: "on_arrive_chain ev (w, e) = py_bind (with_gen ?src) emit_arrival (w, e)"
    by (simp add: on_arrive_chain_def sim_run)
  show ?thesis unfolding run by (rule emit_arrival_step[where src = ?src, OF h m c x pay])
qed


section \<open>The handlers of one event\<close>

text \<open>The handler of the simulator proper, which is the first one registered for its event type.\<close>

definition first_handler :: "payload event \<Rightarrow> unit sim" where
  "first_handler ev = (case ev_type ev of
      REQUEST_ARRIVE \<Rightarrow> on_arrive ev
    | PREFILL_START \<Rightarrow> on_prefill_start ev
    | PREFILL_COMPLETE \<Rightarrow> on_prefill_complete ev
    | KV_TRANSFER_START \<Rightarrow> on_kv_transfer_start ev
    | KV_TRANSFER_COMPLETE \<Rightarrow> on_kv_transfer_complete ev
    | DECODE_BATCH_STEP \<Rightarrow> on_decode_batch_step ev
    | DECODE_COMPLETE \<Rightarrow> on_decode_complete ev
    | _ \<Rightarrow> py_return ())"

definition observed :: "payload event \<Rightarrow> world \<Rightarrow> world" where
  "observed ev w = w\<lparr>w_metrics := observe (\<lambda>n. map_option (\<lambda>nd. card (decoding nd)) (w_nodes w n)) (merged w ev) (w_metrics w)\<rparr>"

lemma metrics_handler_run: "py_bind (metrics_handler ev) k (w, e) = k () (observed ev w, e)"
  by (simp add: metrics_handler_def observed_def upd_w_def py_bind_def)

lemma call_handlers_end: "handlers (snd s) ty = Some hs \<Longrightarrow> ev_type ev = ty \<Longrightarrow> length hs \<le> i \<Longrightarrow>
    call_handlers (Suc f) call ev i s = (Inr (), s)"
  by simp

lemma call_handlers_next: "handlers (snd s) ty = Some hs \<Longrightarrow> ev_type ev = ty \<Longrightarrow> i < length hs \<Longrightarrow>
    call_handlers (Suc f) call ev i s = py_bind (call (hs ! i) ev) (\<lambda>_. call_handlers f call ev (Suc i)) s"
  by simp

lemma first_handler_raises:
  assumes "engine_ok e" "first_handler ev (w, e) = (Inl err, s')"
  shows "call_handlers (Suc f) handle ev 0 (w, e) = (Inl err, s')"
  using assms by (cases "ev_type ev")
    (simp_all add: engine_ok_def wired_def first_handler_def handle_def py_bind_def py_return_def)

lemma first_handler_returns:
  assumes e: "engine_ok e" and r: "first_handler ev (w, e) = (Inr (), (w1, e1))" and e1: "engine_ok e1"
  shows "call_handlers (Suc (Suc (Suc f))) handle ev 0 (w, e) =
    (if ev_type ev = REQUEST_ARRIVE then py_bind (on_arrive_chain ev) (\<lambda>_. call_handlers f handle ev 3) (observed ev w1, e1)
     else (Inr (), (observed ev w1, e1)))"
proof -
  have h: "handlers e (ev_type ev) = Some (wired (ev_type ev))" "handlers e1 (ev_type ev) = Some (wired (ev_type ev))"
    using e e1 by (simp_all add: engine_ok_def)
  show ?thesis
    using r h by (cases "ev_type ev")
      (simp_all add: first_handler_def handle_def wired_def metrics_handler_run py_bind_Inr eval_nat_numeral py_return_def)
qed

section \<open>The stages and the counters after the first handler\<close>

lemma metrics_ok_observed:
  assumes m: "metrics_ok st (w_metrics w0)" "w_metrics w = w_metrics w0" and fin: "finite (arrived st)"
  shows "ev_type ev \<notin> {REQUEST_ARRIVE, REQUEST_REJECTED, DECODE_COMPLETE} \<Longrightarrow> arrived st' = arrived st \<Longrightarrow>
      metrics_ok st' (w_metrics (observed ev w))"
    "ev_type ev = REQUEST_ARRIVE \<Longrightarrow> pl_request (ev_payload ev) = Some req \<Longrightarrow> request_id req \<notin> arrived st \<Longrightarrow>
      arrived st' = insert (request_id req) (arrived st) \<Longrightarrow> metrics_ok st' (w_metrics (observed ev w))"
    "ev_type ev = REQUEST_REJECTED \<Longrightarrow> pl_request_id (ev_payload ev) = Some r \<Longrightarrow> r \<in> arrived st \<Longrightarrow>
      arrived st' = arrived st - {r} \<Longrightarrow> metrics_ok st' (w_metrics (observed ev w))"
    "ev_type ev = DECODE_COMPLETE \<Longrightarrow> pl_request_id (ev_payload ev) = Some r \<Longrightarrow> r \<in> arrived st \<Longrightarrow>
      arrived st' = arrived st - {r} \<Longrightarrow> metrics_ok st' (w_metrics (observed ev w))"
proof -
  obtain a c j D where C: "counted (w_metrics w) = (a, c, j, D)" by (metis prod_cases4)
  have I: "a = c + j + card (arrived st)" "arrived st \<subseteq> D" using m C by (simp_all add: metrics_ok_counted)
  let ?f = "\<lambda>n. map_option (\<lambda>nd. card (decoding nd)) (w_nodes w n)"
  have ob: "w_metrics (observed ev w) = observe ?f (merged w ev) (w_metrics w)" by (simp add: observed_def)
  have less: "card (arrived st) = Suc (card (arrived st - {r}))" if "r \<in> arrived st"
    using card_Suc_Diff1[OF fin that] by simp
  have ok: "metrics_ok st' (w_metrics (observed ev w))"
    if "counted (observe ?f (merged w ev) (w_metrics w)) = (a', c', j', D')" "a' = c' + j' + card (arrived st')" "arrived st' \<subseteq> D'"
    for a' c' j' D'
    using that by (simp add: ob metrics_ok_counted)
  show "metrics_ok st' (w_metrics (observed ev w))"
    if "ev_type ev \<notin> {REQUEST_ARRIVE, REQUEST_REJECTED, DECODE_COMPLETE}" "arrived st' = arrived st"
    by (rule ok[OF trans[OF observe_silent C]]) (use that I in simp_all)
  show "metrics_ok st' (w_metrics (observed ev w))"
    if "ev_type ev = REQUEST_ARRIVE" "pl_request (ev_payload ev) = Some req" "request_id req \<notin> arrived st"
      "arrived st' = insert (request_id req) (arrived st)"
  proof (rule ok)
    show "counted (observe ?f (merged w ev) (w_metrics w)) = (Suc a, c, j, insert (request_id req) D)"
      by (rule observe_arrival[OF _ _ C]) (simp_all add: that)
    show "Suc a = c + j + card (arrived st')" unfolding that(4) card_insert_disjoint[OF fin that(3)] using I(1) by simp
    show "arrived st' \<subseteq> insert (request_id req) D" unfolding that(4) using I(2) by blast
  qed
  show "metrics_ok st' (w_metrics (observed ev w))"
    if "ev_type ev = REQUEST_REJECTED" "pl_request_id (ev_payload ev) = Some r" "r \<in> arrived st" "arrived st' = arrived st - {r}"
  proof (rule ok)
    show "counted (observe ?f (merged w ev) (w_metrics w)) = (a, c, Suc j, D)"
      by (rule observe_rejection[OF _ _ C]) (simp_all add: that)
    show "a = c + Suc j + card (arrived st')" unfolding that(4) using less[OF that(3)] I(1) by simp
    show "arrived st' \<subseteq> D" unfolding that(4) using I(2) by blast
  qed
  show "metrics_ok st' (w_metrics (observed ev w))"
    if "ev_type ev = DECODE_COMPLETE" "pl_request_id (ev_payload ev) = Some r" "r \<in> arrived st" "arrived st' = arrived st - {r}"
  proof (rule ok)
    show "counted (observe ?f (merged w ev) (w_metrics w)) = (a, Suc c, j, D)"
      by (rule observe_completion[OF _ _ C]) (use that I in auto)
    show "a = Suc c + j + card (arrived st')" unfolding that(4) using less[OF that(3)] I(1) by simp
    show "arrived st' \<subseteq> D" unfolding that(4) using I(2) by blast
  qed
qed


text \<open>The stage the key of an event stands for.\<close>

lemma key_stage:
  assumes b: "books_ok st w" and k: "k \<in> stage_keys st \<union> batch_keys nds"
  shows "k = K_arrive req \<Longrightarrow> st (request_id req) = Some (req, St_arriving)"
    "k = K_start req n \<Longrightarrow> st (request_id req) = Some (req, St_starting n)"
    "k = K_prefilled req n \<Longrightarrow> st (request_id req) = Some (req, St_prefilled n)"
    "k = K_transfer tid \<Longrightarrow> \<exists>r req. st r = Some (req, St_transfer tid)"
    "k = K_end r n \<Longrightarrow> \<exists>req. st r = Some (req, St_ending n)"
    "k = K_reject r \<Longrightarrow> \<exists>req. st r = Some (req, St_rejected)"
    "k = K_batch n \<Longrightarrow> k \<in> batch_keys nds"
proof -
  have s: "\<exists>r req g. st r = Some (req, g) \<and> request_id req = r \<and> stage_key req g = Some k" if "\<forall>n. k \<noteq> K_batch n"
  proof -
    have "k \<in> stage_keys st" using k that batch_keysD[of k nds] by blast
    then obtain r req g where "st r = Some (req, g)" "stage_key req g = Some k" by (auto simp: stage_keys_def)
    then show ?thesis using booksD(1)[OF b] by blast
  qed
  have inv: "stage_key q g = Some (K_arrive req) \<longleftrightarrow> g = St_arriving \<and> q = req"
    "stage_key q g = Some (K_start req n) \<longleftrightarrow> g = St_starting n \<and> q = req"
    "stage_key q g = Some (K_prefilled req n) \<longleftrightarrow> g = St_prefilled n \<and> q = req"
    "stage_key q g = Some (K_transfer tid) \<longleftrightarrow> g = St_transfer tid"
    "stage_key q g = Some (K_end r n) \<longleftrightarrow> g = St_ending n \<and> request_id q = r"
    "stage_key q g = Some (K_reject r) \<longleftrightarrow> g = St_rejected \<and> request_id q = r" for q g
    by (cases g; auto)+
  show "k = K_arrive req \<Longrightarrow> st (request_id req) = Some (req, St_arriving)"
    "k = K_start req n \<Longrightarrow> st (request_id req) = Some (req, St_starting n)"
    "k = K_prefilled req n \<Longrightarrow> st (request_id req) = Some (req, St_prefilled n)"
    "k = K_transfer tid \<Longrightarrow> \<exists>r req. st r = Some (req, St_transfer tid)"
    "k = K_end r n \<Longrightarrow> \<exists>req. st r = Some (req, St_ending n)"
    "k = K_reject r \<Longrightarrow> \<exists>req. st r = Some (req, St_rejected)"
    using s inv by (simp; blast)+
  show "k = K_batch n \<Longrightarrow> k \<in> batch_keys nds" using k stage_keys_no_batch[of n st] by blast
qed

text \<open>The end of a transfer takes its request out of the transfer stage.\<close>

definition moves_on :: "payload event \<Rightarrow> stages \<Rightarrow> stages \<Rightarrow> bool" where
  "moves_on ev st st' \<longleftrightarrow> (\<forall>r req tid. ev_type ev = KV_TRANSFER_COMPLETE \<longrightarrow> pl_transfer_id (ev_payload ev) = Some tid \<longrightarrow>
     st r = Some (req, St_transfer tid) \<longrightarrow> st' r \<noteq> st r)"

definition handled :: "payload event \<Rightarrow> stages \<Rightarrow> world \<times> engine \<Rightarrow> stages \<Rightarrow> world \<times> engine \<Rightarrow> bool" where
  "handled ev st s st' s' \<longleftrightarrow> first_handler ev s = (Inr (), s') \<and> settled st' (fst s) s' \<and> advance st s st' s' \<and>
     (dom st' = dom st \<or> ev_type ev \<noteq> REQUEST_ARRIVE \<and> dom st' \<subseteq> dom st) \<and> metrics_ok st' (w_metrics (observed ev (fst s'))) \<and>
     moves_on ev st st'"

lemma arrived_dom: "arrived st \<subseteq> dom st"
  by (auto simp: arrived_def)

lemma handled_same:
  assumes h: "handling k st (w, e)" and m: "metrics_ok st (w_metrics w)"
    and ty: "ev_type ev \<notin> {REQUEST_ARRIVE, REQUEST_REJECTED, DECODE_COMPLETE}"
    and f: "first_handler ev (w, e) = (Inr (), s')" "same_requests st st'" "settled st' w s'" "advance st (w, e) st' s'"
    and mv: "moves_on ev st st'"
  shows "handled ev st (w, e) st' s'"
proof -
  have "finite (arrived st)" using booksD(5)[OF handlingD(5)[OF h]] arrived_dom finite_subset by blast
  then have "metrics_ok st' (w_metrics (observed ev (fst s')))"
    using f(2,3) by (intro metrics_ok_observed(1)[OF m _ _ ty]) (simp_all add: settled_def same_requests_def)
  then show ?thesis using f mv by (simp add: handled_def same_requests_def)
qed

lemma handled_leaves:
  assumes h: "handling k st (w, e)" and m: "metrics_ok st (w_metrics w)"
    and ev: "ev_type ev = REQUEST_REJECTED \<or> ev_type ev = DECODE_COMPLETE" "pl_request_id (ev_payload ev) = Some r"
    and g: "st r = Some (req, g)" "g \<noteq> St_arriving"
    and f: "first_handler ev (w, e) = (Inr (), s')" "settled (st(r := None)) w s'" "advance st (w, e) (st(r := None)) s'"
  shows "handled ev st (w, e) (st(r := None)) s'"
proof -
  have fin: "finite (arrived st)" using booksD(5)[OF handlingD(5)[OF h]] arrived_dom finite_subset by blast
  have r: "r \<in> arrived st" using g by (simp add: arrived_def)
  have "w_metrics (fst s') = w_metrics w" using f(2) by (simp add: settled_def)
  note M = metrics_ok_observed(3,4)[OF m this fin, of ev r "st(r := None)", OF _ ev(2) r arrived_upd(2)]
  then have "metrics_ok (st(r := None)) (w_metrics (observed ev (fst s')))" using ev(1) by blast
  then show ?thesis using f ev(1) by (auto simp: handled_def moves_on_def)
qed

lemma reject_step:
  assumes h: "handling (Some (K_reject r)) st (w, e)" and g: "st r = Some (req, St_rejected)"
  shows "settled (st(r := None)) w (w, e)" "advance st (w, e) (st(r := None)) (w, e)"
proof -
  note H = handlingD[OF h]
  let ?st = "st(r := None)"
  show "advance st (w, e) ?st (w, e)"
    by (rule advance_move[OF booksD(5)[OF H(5)] g, where n = "''p''" and y = "w_nodes w ''p''"]) (auto intro: life_step.intros)
  have keys: "stage_keys ?st = stage_keys st - {K_reject r}" using stage_keys_upd(2)[OF H(9) g] booksD(1)[OF H(5) g] by simp
  show "settled ?st w (w, e)"
  proof (rule settledI)
    show "nodes_ok ?st w" by (rule nodes_ok_stages[OF H(2)]) (use g in \<open>auto simp: sits_def\<close>)
    show "cache_ok ?st w" by (rule cache_ok_move[OF H(3) cache_step_refl[OF cache_okD(1)[OF H(3)]]]) (use g in \<open>auto simp: sits_def\<close>)
    show "transfers_ok ?st w" by (rule transfers_ok_gone[OF H(4) g]) simp_all
    show "books_ok ?st w"
    proof (rule books_okI)
      have "live ?st = live st" using g by (auto simp: live_def fun_eq_iff)
      then show "w_requests w = live ?st" "dom (decisions w) = dom (live ?st)" using booksD(2,3)[OF H(5)] by simp_all
      show "request_id y = x" if "?st x = Some (y, h)" for x y h
        using that booksD(1)[OF H(5), of x y h] by (auto split: if_splits)
    qed (use booksD(4,5)[OF H(5)] in auto)
    have "stage_keys st \<union> batch_keys (w_nodes w) - set_option (Some (K_reject r)) = stage_keys ?st \<union> batch_keys (w_nodes w)"
      unfolding keys by (auto dest: batch_keysD)
    then show "q_keys e (stage_keys ?st \<union> batch_keys (w_nodes w))" using H(8) by simp
  qed (use H(1,6,7) in simp_all)
qed


lemma first_handler_step:
  assumes h: "handling (life_key ev) st (w, e)" and wf: "well_formed ev" and m: "metrics_ok st (w_metrics w)"
    and key: "\<forall>k. life_key ev = Some k \<longrightarrow> k \<in> stage_keys st \<union> batch_keys (w_nodes w)"
  shows "(\<exists>s' tid r req. first_handler ev (w, e) = (Inl RuntimeError, s') \<and> st r = Some (req, St_transfer tid) \<and>
      cleanup_raises r req (w, e)) \<or> (\<exists>st' s'. handled ev st (w, e) st' s')"
proof -
  have books: "books_ok st w" by (rule handlingD(5)[OF h])
  have at_stage: "k \<in> stage_keys st \<union> batch_keys (w_nodes w)" "handling (Some k) st (w, e)" if "life_key ev = Some k" for k
    using that key h by auto
  note same = handled_same[OF h m]
  have other: "moves_on ev st st'" if "ev_type ev \<noteq> KV_TRANSFER_COMPLETE" for st' using that by (simp add: moves_on_def)
  show ?thesis
  proof (cases "silent (ev_type ev)")
    case True
    then have "life_key ev = None" "first_handler ev (w, e) = (Inr (), (w, e))"
      by (auto simp: silent_def life_key_def first_handler_def py_return_def on_kv_transfer_start_def)
    moreover have "settled st w (w, e)" using h calculation(1) by (simp add: settled_def)
    moreover have "advance st (w, e) st (w, e)" by (simp add: advance_def life_moves_refl)
    ultimately have "handled ev st (w, e) st (w, e)"
      using same[of ev "(w, e)" st] other[of st] True by (auto simp: silent_def same_requests_def)
    then show ?thesis by blast
  next
    case False
    then obtain k where k: "life_key ev = Some k" using wf by (auto simp: well_formed_def)
    note K = key_stage[OF books at_stage(1)[OF k]] and hk = at_stage(2)[OF k]
    show ?thesis
    proof (cases "ev_type ev")
      case REQUEST_ARRIVE
      then obtain req where req: "pl_request (ev_payload ev) = Some req" "k = K_arrive req" using k by (auto simp: life_key_def)
      obtain st' s' where R: "on_arrive ev (w, e) = (Inr (), s')" "enters st (request_id req) st'" "settled st' w s'" "advance st (w, e) st' s'"
        using on_arrive_step[OF hk[unfolded req(2)] req(1) K(1)[OF req(2)]] by blast
      have "finite (arrived st)" using booksD(5)[OF books] arrived_dom finite_subset by blast
      then have "metrics_ok st' (w_metrics (observed ev (fst s')))"
        using R(2,3) by (intro metrics_ok_observed(2)[OF m _ _ REQUEST_ARRIVE req(1)]) (simp_all add: settled_def enters_def)
      then have "handled ev st (w, e) st' s'" using R REQUEST_ARRIVE by (simp add: handled_def first_handler_def enters_def other)
      then show ?thesis by blast
    next
      case PREFILL_START
      then have f: "for_request K_start (ev_payload ev) = Some k" using k by (simp add: life_key_def)
      then obtain req n where kk: "k = K_start req n" by (auto simp: for_request_def split: option.splits if_splits)
      have g: "st (request_id req) = Some (req, St_starting n)" by (rule K(2)[OF kk])
      obtain g' s' where R: "on_prefill_start ev (w, e) = (Inr (), s')" "g' \<in> {St_prefill n, St_prefilled n}"
        "settled (st(request_id req \<mapsto> (req, g'))) w s'" "advance st (w, e) (st(request_id req \<mapsto> (req, g'))) s'"
        using on_prefill_start_step[OF hk[unfolded kk] f[unfolded kk] g] by blast
      have "same_requests st (st(request_id req \<mapsto> (req, g')))"
        by (rule same_requests_upd[of st, OF g]) (use R(2) in auto)
      then have "handled ev st (w, e) (st(request_id req \<mapsto> (req, g'))) s'"
        using R PREFILL_START by (intro same) (simp_all add: first_handler_def other)
      then show ?thesis by blast
    next
      case PREFILL_COMPLETE
      then have f: "for_request K_prefilled (ev_payload ev) = Some k" using k by (simp add: life_key_def)
      then obtain req n where kk: "k = K_prefilled req n" by (auto simp: for_request_def split: option.splits if_splits)
      obtain st' s' where "on_prefill_complete ev (w, e) = (Inr (), s')" "same_requests st st'" "settled st' w s'" "advance st (w, e) st' s'"
        using on_prefill_complete_step[OF hk[unfolded kk] f[unfolded kk] K(3)[OF kk]] by blast
      then have "handled ev st (w, e) st' s'" using PREFILL_COMPLETE by (intro same) (simp_all add: first_handler_def other)
      then show ?thesis by blast
    next
      case KV_TRANSFER_COMPLETE
      then obtain tid where tid: "pl_transfer_id (ev_payload ev) = Some tid" "k = K_transfer tid" using k by (auto simp: life_key_def)
      obtain r req where g: "st r = Some (req, St_transfer tid)" using K(4)[OF tid(2)] by blast
      have f: "first_handler ev = on_kv_transfer_complete ev" using KV_TRANSFER_COMPLETE by (simp add: first_handler_def)
      have ty: "ev_type ev \<notin> {REQUEST_ARRIVE, REQUEST_REJECTED, DECODE_COMPLETE}" using KV_TRANSFER_COMPLETE by simp
      have apart: "keyed_apart st" by (rule handlingD(9)[OF h])
      have mv: "moves_on ev st st'" if "st' r \<noteq> st r" for st'
        unfolding moves_on_def
      proof (intro allI impI)
        fix x req' tid' assume x: "pl_transfer_id (ev_payload ev) = Some tid'" "st x = Some (req', St_transfer tid')"
        then have "x = r" using apart[unfolded keyed_apart_def, rule_format, OF x(2) g] tid(1) by simp
        then show "st' x \<noteq> st x" using that by simp
      qed
      show ?thesis using on_kv_transfer_complete_step[OF hk[unfolded tid(2)] tid(1) g] same[OF ty] mv g unfolding f by blast
    next
      case DECODE_BATCH_STEP
      then obtain n where n: "pl_node_id (ev_payload ev) = Some n" "k = K_batch n" using k by (auto simp: life_key_def)
      obtain st' s' where "on_decode_batch_step ev (w, e) = (Inr (), s')" "same_requests st st'" "settled st' w s'" "advance st (w, e) st' s'"
        using on_decode_batch_step_step[OF hk[unfolded n(2)] n(1) K(7)[OF n(2), unfolded n(2)]] by blast
      then have "handled ev st (w, e) st' s'" using DECODE_BATCH_STEP by (intro same) (simp_all add: first_handler_def other)
      then show ?thesis by blast
    next
      case DECODE_COMPLETE
      then obtain r n where rn: "pl_request_id (ev_payload ev) = Some r" "pl_node_id (ev_payload ev) = Some n" "k = K_end r n"
        using k by (auto simp: life_key_def Let_def split: option.splits)
      obtain req where g: "st r = Some (req, St_ending n)" using K(5)[OF rn(3)] by blast
      obtain s' where R: "on_decode_complete ev (w, e) = (Inr (), s')" "settled (st(r := None)) w s'" "advance st (w, e) (st(r := None)) s'"
        using on_decode_complete_step[OF hk[unfolded rn(3)] rn(1,2) g] by blast
      have "handled ev st (w, e) (st(r := None)) s'"
        by (rule handled_leaves[OF h m _ rn(1) g]) (use DECODE_COMPLETE R in \<open>simp_all add: first_handler_def\<close>)
      then show ?thesis by blast
    next
      case REQUEST_REJECTED
      then obtain r where r: "pl_request_id (ev_payload ev) = Some r" "k = K_reject r" using k by (auto simp: life_key_def)
      obtain req where g: "st r = Some (req, St_rejected)" using K(6)[OF r(2)] by blast
      have "handled ev st (w, e) (st(r := None)) (w, e)"
        by (rule handled_leaves[OF h m _ r(1) g _ _ reject_step[OF hk[unfolded r(2)] g]])
          (use REQUEST_REJECTED in \<open>simp_all add: first_handler_def py_return_def\<close>)
      then show ?thesis by blast
    qed (use False in \<open>simp_all add: silent_def\<close>)
  qed
qed


section \<open>One round of the event loop\<close>

definition popped :: "payload event \<Rightarrow> payload event list \<Rightarrow> engine \<Rightarrow> engine" where
  "popped ev q e = e\<lparr>ev_queue := q, current_time := ev_time ev\<rparr>"

lemma popped_handling:
  assumes inv: "sim_inv st (w, e)" and p: "heappop (ev_queue e) = Some (ev, q)"
  shows "handling (life_key ev) st (w, popped ev q e)" "well_formed ev"
    "\<forall>k. life_key ev = Some k \<longrightarrow> k \<in> stage_keys st \<union> batch_keys (w_nodes w)"
    "budget st (w, popped ev q e) + 1 = budget st (w, e)"
proof -
  let ?K = "stage_keys st \<union> batch_keys (w_nodes w)"
  have q: "q_keys e ?K" using inv by (simp add: sim_inv_def)
  note P = q_keys_pop[OF q p, folded popped_def]
  show "well_formed ev" by (rule P(1))
  show "\<forall>k. life_key ev = Some k \<longrightarrow> k \<in> ?K" using P(3) by auto
  have "q_keys (popped ev q e) (?K - set_option (life_key ev))" using P(3) by (cases "life_key ev") auto
  moreover have "engine_ok (popped ev q e)" using inv by (simp add: sim_inv_def engine_ok_def popped_def)
  ultimately show "handling (life_key ev) st (w, popped ev q e)" using inv by (simp add: sim_inv_def handling_def)
  have "length (ev_queue e) = Suc (length q)" using arg_cong[OF heap.pop_events[OF p], of size] by simp
  then show "budget st (w, popped ev q e) + 1 = budget st (w, e)" by (simp add: budget_def popped_def)
qed

lemma life_moves_grows:
  assumes "life_moves st st1" "dom st1 = dom st" "grows a st1 st'"
  shows "life_moves st st'"
proof (cases a)
  case (Some z)
  then obtain r req where r: "st1 r = None" "st' = st1(r \<mapsto> (req, St_arriving))"
    using assms(3) by (cases z) (auto simp: grows_def)
  then have "st r = None" using assms(2) by blast
  then have "life_step (st r) (st' r)" by (simp add: r(2) life_step.arrives)
  then show ?thesis using assms(1) unfolding life_moves_def r(2) by simp
qed (use assms in \<open>simp add: grows_def\<close>)

text \<open>What a round leaves: the requests moved along their life cycle, and a bounded run has less to do.\<close>

definition round_done :: "stages \<Rightarrow> world \<times> engine \<Rightarrow> stages \<Rightarrow> world \<times> engine \<Rightarrow> bool" where
  "round_done st s st' s' \<longleftrightarrow> sim_inv st' s' \<and> life_moves st st' \<and>
     (is_trace (w_gen (fst s)) \<longrightarrow> is_trace (w_gen (fst s')) \<and> total st' s' < total st s)"

lemma budget_passive [simp]:
  "budget st (observed ev w, e) = budget st (w, e)" "w_gen (observed ev w) = w_gen w" "w_nodes (observed ev w) = w_nodes w"
  "handling k st (observed ev w, e) \<longleftrightarrow> handling k st (w, e)"
  by (simp_all add: budget_def observed_def)

text \<open>
  The four ways a round goes: the first handler raises, the event is not an arrival and all handlers return,
  the arrival source stumbles, or it gives out what comes next.
\<close>

lemma round_cases:
  assumes inv: "sim_inv st (w, e)" and p: "heappop (ev_queue e) = Some (ev, q)" and f: "4 \<le> f"
  defines "run \<equiv> call_handlers f handle ev 0 (w, popped ev q e)"
  obtains (raises) s' tid r req where "run = (Inl RuntimeError, s')" "st r = Some (req, St_transfer tid)"
      "cleanup_raises r req (w, popped ev q e)"
    | (quiet) st1 w1 e1 where "handled ev st (w, popped ev q e) st1 (w1, e1)" "ev_type ev \<noteq> REQUEST_ARRIVE"
      "run = (Inr (), (observed ev w1, e1))" "round_done st (w, e) st1 (observed ev w1, e1)"
    | (stumbles) st1 w1 e1 x g' err s' where "handled ev st (w, popped ev q e) st1 (w1, e1)" "ev_type ev = REQUEST_ARRIVE"
      "chain_arrival (now e1) (w_gen w1) = (x, g')" "stumbles x (current_time e1)" "run = (Inl err, s')" "expected_error err"
    | (chains) st1 w1 e1 a g' st' where "handled ev st (w, popped ev q e) st1 (w1, e1)" "ev_type ev = REQUEST_ARRIVE"
      "chain_arrival (now e1) (w_gen w1) = (Inr a, g')" "grows a st1 st'"
      "run = (Inr (), ((observed ev w1)\<lparr>w_gen := g'\<rparr>, enqueued a e1))"
      "round_done st (w, e) st' ((observed ev w1)\<lparr>w_gen := g'\<rparr>, enqueued a e1)"
proof -
  let ?e = "popped ev q e"
  note P = popped_handling[OF inv p]
  have m: "metrics_ok st (w_metrics w)" and src: "source_ok st (w_gen w)" using inv by (simp_all add: sim_inv_def)
  obtain f1 where f1: "f = Suc (Suc (Suc (Suc f1)))" using f le_Suc_ex[OF f] by (auto simp: eval_nat_numeral)
  have eok: "engine_ok ?e" by (rule handlingD(7)[OF P(1)])
  consider (first_raises) s' tid r req where "first_handler ev (w, ?e) = (Inl RuntimeError, s')" "st r = Some (req, St_transfer tid)"
      "cleanup_raises r req (w, ?e)"
    | (returns) st1 w1 e1 where "handled ev st (w, ?e) st1 (w1, e1)"
    using first_handler_step[OF P(1,2) m P(3)] by auto
  then show thesis
  proof cases
    case first_raises
    then show thesis using raises first_handler_raises[OF eok first_raises(1), of "Suc (Suc (Suc f1))"] unfolding run_def f1 by blast
  next
    case returns
    note D = returns[unfolded handled_def settled_def advance_def fst_conv]
    have first: "first_handler ev (w, ?e) = (Inr (), (w1, e1))" and s1: "handling None st1 (w1, e1)" "w_gen w1 = w_gen w"
      and mv: "life_moves st st1" "dom st1 \<subseteq> dom st" "metrics_ok st1 (w_metrics (observed ev w1))"
        "ev_type ev = REQUEST_ARRIVE \<longrightarrow> dom st1 = dom st"
      and b: "budget st1 (w1, e1) < budget st (w, e)"
      using D P(4) by auto
    have eok1: "engine_ok e1" by (rule handlingD(7)[OF s1(1)])
    note after = first_handler_returns[OF eok first eok1, of "Suc f1", folded f1]
    have src1: "source_ok st1 (w_gen (observed ev w1))" using src subsetD[OF mv(2)] s1(2) unfolding source_ok_def by simp
    have h1: "handling None st1 (observed ev w1, e1)" using s1(1) by simp
    show thesis
    proof (cases "ev_type ev = REQUEST_ARRIVE")
      case False
      have "sim_inv st1 (observed ev w1, e1)"
        using h1 mv(3) src1 by (simp add: sim_inv_def handling_def)
      then have "round_done st (w, e) st1 (observed ev w1, e1)"
        using mv(1) b s1(2) by (simp add: round_done_def total_def)
      then show thesis using quiet[OF returns False] after False unfolding run_def by simp
    next
      case True
      have run2: "run = py_bind (on_arrive_chain ev) (\<lambda>_. call_handlers (Suc f1) handle ev 3) (observed ev w1, e1)"
        using after True unfolding run_def by simp
      obtain x g' where c: "chain_arrival (now e1) (w_gen w1) = (x, g')" by fastforce
      let ?s = "\<lambda>a. ((observed ev w1)\<lparr>w_gen := g'\<rparr>, enqueued a e1)"
      consider (err) err s' where "on_arrive_chain ev (observed ev w1, e1) = (Inl err, s')" "expected_error err" "stumbles x (current_time e1)"
        | (ok) a st' where "x = Inr a" "on_arrive_chain ev (observed ev w1, e1) = (Inr (), ?s a)" "sim_inv st' (?s a)" "grows a st1 st'"
          "is_trace (w_gen (observed ev w1)) \<longrightarrow> is_trace g' \<and> total st' (?s a) \<le> total st1 (observed ev w1, e1)"
        using chain_step[OF h1 mv(3) src1, of x g' ev] c unfolding budget_passive(2) by blast
      then show thesis
      proof cases
        case err
        have "run = (Inl err, s')" unfolding run2 by (rule py_bind_Inl[where m = "on_arrive_chain ev", OF err(1)])
        then show thesis by (rule stumbles[OF returns True c err(3) _ err(2)])
      next
        case ok
        have "engine_ok (enqueued a e1)" using ok(3) by (simp add: sim_inv_def)
        then have "call_handlers (Suc f1) handle ev 3 (?s a) = (Inr (), ?s a)"
          using call_handlers_end[of "?s a" REQUEST_ARRIVE "wired REQUEST_ARRIVE" ev 3 f1 handle]
          by (simp add: engine_ok_def wired_def True)
        then have "run = (Inr (), ?s a)" unfolding run2 by (simp add: py_bind_Inr[where m = "on_arrive_chain ev", OF ok(2)])
        moreover have "life_moves st st'"
          by (rule life_moves_grows[OF mv(1) _ ok(4)]) (use mv(4) True in simp)
        then have "round_done st (w, e) st' (?s a)" using ok(3,5) b s1(2) by (auto simp: round_done_def total_def)
        ultimately show thesis using chains[OF returns True c[unfolded ok(1)] ok(4)] by blast
      qed
    qed
  qed
qed

lemma round_step:
  assumes inv: "sim_inv st (w, e)" and p: "heappop (ev_queue e) = Some (ev, q)" and f: "4 \<le> f"
  shows "(\<exists>err s'. call_handlers f handle ev 0 (w, popped ev q e) = (Inl err, s') \<and> expected_error err) \<or>
    (\<exists>st' s'. call_handlers f handle ev 0 (w, popped ev q e) = (Inr (), s') \<and> round_done st (w, e) st' s')"
  using expected_errors(6) by (cases rule: round_cases[OF inv p f]) blast+


section \<open>Runs\<close>

lemma call_handlers_mono:
  assumes "call_handlers f call ev i s = (r, s')" "r \<noteq> Inl OutOfFuel"
  shows "call_handlers (f + k) call ev i s = (r, s')"
  using assms
proof (induction f arbitrary: i s)
  case (Suc f)
  show ?case
  proof (cases "\<exists>hs. handlers (snd s) (ev_type ev) = Some hs \<and> i < length hs")
    case True
    then obtain hs where hs: "handlers (snd s) (ev_type ev) = Some hs" "i < length hs" by blast
    then show ?thesis using Suc.prems Suc.IH by (auto simp: py_bind_def split: prod.splits sum.splits)
  next
    case False
    then show ?thesis using Suc.prems by (auto split: option.splits if_splits)
  qed
qed simp

lemma round_step':
  assumes inv: "sim_inv st (w, e)" and p: "heappop (ev_queue e) = Some (ev, q)"
    and c: "call_handlers f handle ev 0 (w, popped ev q e) = (r, s')" and r: "r \<noteq> Inl OutOfFuel"
  shows "(\<exists>err. r = Inl err \<and> expected_error err) \<or> r = Inr () \<and> (\<exists>st'. round_done st (w, e) st' s')"
  using round_step[OF inv p, of "f + 4"] call_handlers_mono[OF c r, of 4] by auto

inductive life_path :: "stages \<Rightarrow> stages \<Rightarrow> bool" where
  stays: "life_path st st"
| goes: "life_moves st st1 \<Longrightarrow> life_path st1 st2 \<Longrightarrow> life_path st st2"

lemma pop_nonempty:
  assumes "q \<noteq> []"
  obtains ev q' where "heappop q = Some (ev, q')"
  using assms heap.pop_None[of q] by (cases "heappop q") auto

lemma run_loop_round:
  assumes "\<not> stopped e" "heappop (ev_queue e) = Some (ev, q)"
  shows "run_loop (Suc f) call (w, e) = (case call_handlers f call ev 0 (w, popped ev q e) of
      (Inl err, s') \<Rightarrow> (Inl err, [ev], s')
    | (Inr _, s') \<Rightarrow> (case run_loop f call s' of (r, evs, s'') \<Rightarrow> (r, ev # evs, s'')))"
proof -
  have "ev_queue e \<noteq> []" using assms(2) by (auto simp: heappop_def)
  then show ?thesis using assms by (simp add: popped_def)
qed

lemma run_from_inv:
  assumes "sim_inv st s" "run_loop f handle s = (r, evs, s')" "r \<noteq> Inl OutOfFuel"
  shows "(\<exists>err. r = Inl err \<and> expected_error err) \<or>
    r = Inr () \<and> (\<exists>st'. sim_inv st' s' \<and> life_path st st' \<and> ev_queue (snd s') = [])"
  using assms
proof (induction f arbitrary: st s evs)
  case (Suc f)
  obtain w e where s: "s = (w, e)" by (cases s)
  have ns: "\<not> stopped e" using Suc.prems(1) by (simp add: s sim_inv_def engine_ok_def)
  show ?case
  proof (cases "ev_queue e = []")
    case True
    then show ?thesis using Suc.prems by (auto simp: s intro: life_path.stays)
  next
    case False
    then obtain ev q where p: "heappop (ev_queue e) = Some (ev, q)" by (rule pop_nonempty)
    obtain r1 s1 where c: "call_handlers f handle ev 0 (w, popped ev q e) = (r1, s1)" by (cases "call_handlers f handle ev 0 (w, popped ev q e)")
    note L = Suc.prems(2)[unfolded s run_loop_round[OF ns p] c]
    show ?thesis
    proof (cases r1)
      case (Inl err)
      then show ?thesis using L Suc.prems(3) round_step'[OF Suc.prems(1)[unfolded s] p c] by auto
    next
      case (Inr u)
      then obtain st1 where d: "round_done st (w, e) st1 s1" using round_step'[OF Suc.prems(1)[unfolded s] p c] by auto
      obtain r2 evs2 s2 where l: "run_loop f handle s1 = (r2, evs2, s2)" by (metis prod.collapse)
      have res: "r2 = r" "s2 = s'" using L Inr l by auto
      have inv1: "sim_inv st1 s1" "life_moves st st1" using d by (simp_all add: round_done_def)
      show ?thesis using Suc.IH[OF inv1(1) l[unfolded res] Suc.prems(3)] inv1(2) life_path.goes by blast
    qed
  qed
qed simp

lemma run_loop_ends:
  assumes "sim_inv st s" "is_trace (w_gen (fst s))" "total st s + 5 \<le> f"
  shows "fst (run_loop f handle s) \<noteq> Inl OutOfFuel"
  using assms
proof (induction f arbitrary: st s)
  case (Suc f)
  obtain w e where s: "s = (w, e)" by (cases s)
  have ns: "\<not> stopped e" using Suc.prems(1) by (simp add: s sim_inv_def engine_ok_def)
  show ?case
  proof (cases "ev_queue e = []")
    case True
    then show ?thesis by (simp add: s)
  next
    case False
    then obtain ev q where p: "heappop (ev_queue e) = Some (ev, q)" by (rule pop_nonempty)
    have "4 \<le> f" using Suc.prems(3) by simp
    note R = round_step[OF Suc.prems(1)[unfolded s] p this]
    then show ?thesis
    proof
      assume "\<exists>err s'. call_handlers f handle ev 0 (w, popped ev q e) = (Inl err, s') \<and> expected_error err"
      then show ?thesis unfolding s run_loop_round[OF ns p] by (auto simp: expected_error_def)
    next
      assume "\<exists>st' s'. call_handlers f handle ev 0 (w, popped ev q e) = (Inr (), s') \<and> round_done st (w, e) st' s'"
      then obtain st1 s1 where c: "call_handlers f handle ev 0 (w, popped ev q e) = (Inr (), s1)" "round_done st (w, e) st1 s1" by blast
      then have "fst (run_loop f handle s1) \<noteq> Inl OutOfFuel"
        using Suc.prems(2,3) by (intro Suc.IH[of st1]) (auto simp: round_done_def s)
      then show ?thesis unfolding s run_loop_round[OF ns p] c(1) by (auto split: prod.splits)
    qed
  qed
qed simp

end
