(* ===== verification/Whole_Run.thy ===== *)
theory Whole_Run
  imports Sim_Run
begin

text \<open>
  A run from the configuration to the summary: the wiring establishes the invariant, every round keeps it,
  and a run that ends leaves an idle cluster in which every request is accounted for.
\<close>

section \<open>The end of a run\<close>

lemma running_out:
  assumes inv: "sim_inv st (w, e)" and q: "ev_queue e = []"
  shows "st = Map.empty" "\<And>n nd. w_nodes w n = Some nd \<Longrightarrow> decoding nd = {} \<and> prefill_remaining nd = []"
proof -
  have W: "static_ok w" "nodes_ok st w" "awake w" using inv by (simp_all add: sim_inv_def world_ok_def)
  have none: "stage_keys st = {}" "batch_keys (w_nodes w) = {}" using inv q by (auto simp: sim_inv_def q_keys_def)
  show idle: "decoding nd = {} \<and> prefill_remaining nd = []" if nd: "w_nodes w n = Some nd" for n nd
  proof -
    have "\<not> batch_step_in_flight nd" using none(2) batch_key_iff[of "w_nodes w", OF nd] by simp
    then show ?thesis using W(3) nd by (auto simp: awake_def has_work_def)
  qed
  have prefilling: False if g: "st r = Some (req, St_prefill n)" for r req n
  proof -
    have n: "n \<in> set (prefill_ids w)" using W(2) g unfolding nodes_ok_def by fastforce
    obtain nd where nd: "w_nodes w n = Some nd" by (rule static_nodeE[OF W(1), of n]) (use n in auto)
    have "r \<in> fst ` set (prefill_remaining nd)"
      using nodes_okD(1)[OF W(2) nd n] sitsI[of st, OF g] by (simp add: prefill_node_ok_def)
    then show False using idle[OF nd] by simp
  qed
  have keyless: "stage_key req g = None" if "st r = Some (req, g)" for r req g
    using stage_keyD[of st, OF that] none(1) by (cases "stage_key req g") auto
  have "st r = None" for r
  proof (rule ccontr)
    assume "st r \<noteq> None"
    then obtain req g where g: "st r = Some (req, g)" by auto
    consider n where "g = St_waiting n" | n where "g = St_prefill n" | n where "g = St_decoding n"
      using keyless[OF g] by (cases g) auto
    then show False
    proof cases
      case 1
      then have n: "n \<in> set (prefill_ids w)" using W(2) g unfolding nodes_ok_def by fastforce
      obtain nd where nd: "w_nodes w n = Some nd" "1 \<le> capacity (mn_config nd)"
        by (rule static_nodeE[OF W(1), of n]) (use n in auto)
      note P = nodes_okD(1)[OF W(2) nd(1) n, unfolded prefill_node_ok_def]
      have "r \<in> set (queue nd)" using P sitsI[of st, OF g] 1 by simp
      then have "length (running_requests nd) = capacity (mn_config nd)"
        using P mn_invD(5)[of nd] by force
      then obtain x where "x \<in> set (running_requests nd)" using nd(2) by (cases "running_requests nd") auto
      then have "sits st x (St_starting n) \<or> sits st x (St_prefill n) \<or> sits st x (St_prefilled n)" using P by auto
      then show False using keyless prefilling by (fastforce simp: sits_def)
    next
      case 2
      then show False using prefilling g by blast
    next
      case 3
      then have n: "n \<in> set (decode_ids w)" using W(2) g unfolding nodes_ok_def by fastforce
      then have np: "n \<notin> set (prefill_ids w)" using static_okD(3)[OF W(1)] by auto
      obtain nd where nd: "w_nodes w n = Some nd" by (rule static_nodeE[OF W(1), of n]) (use n in auto)
      have "r \<in> decoding nd"
        using nodes_okD(2)[OF W(2) nd np] sitsI[of st, OF g] 3 by (simp add: decode_node_ok_def)
      then show False using idle[OF nd] by simp
    qed
  qed
  then show "st = Map.empty" by auto
qed

text \<open>Nothing of any request is left in the simulator.\<close>

definition idle_cluster :: "world \<Rightarrow> bool" where
  "idle_cluster w \<longleftrightarrow> w_requests w = Map.empty \<and> decisions w = Map.empty \<and> pending_transfers w = Map.empty \<and>
     block_tables (w_cm w) = Map.empty \<and>
     (\<forall>n nd. w_nodes w n = Some nd \<longrightarrow> running_requests nd = [] \<and> queue nd = [] \<and> decoding nd = {} \<and> prefill_remaining nd = [])"

lemma ended_idle:
  assumes inv: "sim_inv st (w, e)" and q: "ev_queue e = []"
  shows "idle_cluster w" "total_arrived (w_metrics w) = completed_count (w_metrics w) + rejected_count (w_metrics w)"
proof -
  note E = running_out[OF inv q]
  have W: "nodes_ok Map.empty w" "cache_ok Map.empty w" "transfers_ok Map.empty w" "books_ok Map.empty w"
    "metrics_ok Map.empty (w_metrics w)"
    using inv E(1) by (simp_all add: sim_inv_def world_ok_def)
  have no: "\<not> sits Map.empty r g" for r g by (simp add: sits_def)
  have "live Map.empty = Map.empty" by (simp add: live_def fun_eq_iff)
  then have "w_requests w = Map.empty" "dom (decisions w) = {}" using booksD(2,3)[OF W(4)] by simp_all
  moreover have "pending_transfers w tid = None" for tid using W(3) unfolding transfers_ok_def by (cases "pending_transfers w tid") auto
  moreover have "block_tables (w_cm w) (n, r) = None" for n r
    using W(2) no unfolding cache_ok_def by blast
  moreover have "running_requests nd = [] \<and> queue nd = []" if nd: "w_nodes w n = Some nd" for n nd
    using nodes_okD(1,2)[OF W(1) nd] no by (cases "n \<in> set (prefill_ids w)") (simp_all add: prefill_node_ok_def decode_node_ok_def)
  ultimately show "idle_cluster w" using E(2) unfolding idle_cluster_def by (auto simp: fun_eq_iff)
  show "total_arrived (w_metrics w) = completed_count (w_metrics w) + rejected_count (w_metrics w)"
    using W(5) by (simp add: metrics_ok_def arrived_def)
qed

section \<open>The start of a run\<close>

definition run_ok :: "outside \<Rightarrow> nano_kv_config \<Rightarrow> bool" where
  "run_ok out cfg \<longleftrightarrow> nano_kv_config_ok cfg \<and> (\<forall>n. inj (out_uuids out n))"

lemma pool_names_kind: "n \<in> set (pool_names c k) \<Longrightarrow> hd n = c"
  by (auto simp: pool_names_def)

lemma cm_init_nodes: "cm_nodes (cm_init ns mc nc bw t0 src) = set ns" "block_tables (cm_init ns mc nc bw t0 src) = Map.empty"
  "bw_cfg (cm_init ns mc nc bw t0 src) = bw"
proof -
  have "dom (map_of (fold (\<lambda>nid. AList.update nid x) ns acc)) = set ns \<union> dom (map_of acc)" for x :: radix_tree and acc
    by (induction ns arbitrary: acc) (auto simp: update_conv')
  then show "cm_nodes (cm_init ns mc nc bw t0 src) = set ns" by (simp add: cm_nodes_def cm_init_def)
qed (simp_all add: cm_init_def)

lemma init_world_ok:
  assumes "run_ok out cfg"
  shows "world_ok Map.empty (world_init out cfg pol gen)" "awake (world_init out cfg pol gen)"
    "batch_keys (w_nodes (world_init out cfg pol gen)) = {}"
proof -
  let ?w = "world_init out cfg pol gen"
  let ?ps = "pool_names CHR ''p'' (cl_prefill_nodes (cfg_cluster cfg))" and ?ds = "pool_names CHR ''d'' (cl_decode_nodes (cfg_cluster cfg))"
  have C: "model_config_ok (cfg_model cfg)" "bandwidth_config_ok (cfg_bandwidth cfg)" "1 \<le> capacity (cfg_node cfg)"
    "\<And>n. inj (out_uuids out n)"
    using assms by (simp_all add: run_ok_def nano_kv_config_ok_def node_config_ok_def)
  have f: "prefill_ids ?w = ?ps" "decode_ids ?w = ?ds" "w_model ?w = cfg_model cfg" "w_bw ?w = cfg_bandwidth cfg"
    "w_cm ?w = cm_init ?ds (cfg_model cfg) (cfg_node cfg) (cfg_bandwidth cfg) 0 (out_uuids out)"
    "decisions ?w = Map.empty" "w_requests ?w = Map.empty" "pending_transfers ?w = Map.empty"
    by (simp_all add: world_init_def Let_def)
  have nodes: "w_nodes ?w n = (if n \<in> set ?ps \<union> set ?ds then Some (mn_init n (cfg_model cfg) (cfg_node cfg)) else None)" for n
    by (simp add: world_init_def Let_def map_of_map_restrict restrict_map_def del: map_append)
  have init: "prefill_node_ok Map.empty n (mn_init n mc nc)" "decode_node_ok Map.empty n (mn_init n mc nc)"
    "\<not> has_work (mn_init n mc nc)" "\<not> batch_step_in_flight (mn_init n mc nc)" for n mc nc
    using mn_init_inv by (simp_all add: prefill_node_ok_def decode_node_ok_def sits_def mn_init_def has_work_def)
  have "static_ok ?w"
    using C(1-3) pool_names_kind[of _ "CHR ''p''"] pool_names_kind[of _ "CHR ''d''"]
    unfolding static_ok_def f by (fastforce simp: nodes mn_init_def split: if_splits)
  moreover have "nodes_ok Map.empty ?w"
    unfolding nodes_ok_def using init(1,2) by (auto simp: nodes split: if_splits)
  moreover have "cache_ok Map.empty ?w"
    using cm_init_inv[OF C(1), of "out_uuids out"] C(2,4) by (simp add: cache_ok_def f cm_init_nodes cm_ready_def)
  moreover have "transfers_ok Map.empty ?w" "books_ok Map.empty ?w"
    by (auto simp: transfers_ok_def books_ok_def f live_def)
  ultimately show "world_ok Map.empty ?w" by (simp add: world_ok_def)
  show "awake ?w" "batch_keys (w_nodes ?w) = {}" using init(3,4) by (auto simp: awake_def batch_keys_def nodes split: if_splits)
qed


definition wired_engine :: engine where
  "wired_engine = engine_init\<lparr>handlers := (\<lambda>ty. Some (wired ty))\<rparr>"

lemma attach_run: "attach_all (w, engine_init) = py_bind (with_gen (attaching 0)) emit_arrival (w, wired_engine)"
proof -
  have reg: "on ty h e = (Inr (), e\<lparr>handlers := (handlers e)(ty \<mapsto> (case handlers e ty of None \<Rightarrow> [] | Some hs \<Rightarrow> hs) @ [h])\<rparr>)"
    for ty h and e :: engine by (simp add: on_def)
  obtain e1 where e1: "py_bind wire_simulator (\<lambda>_. metrics_attach) engine_init = (Inr (), e1)"
    "on REQUEST_ARRIVE Arrival_chain e1 = (Inr (), wired_engine)"
  proof
    let ?f = "\<lambda>ty. Some (if ty = REQUEST_ARRIVE then [Sim_on_arrive, Metrics_handler] else wired ty)"
    show "py_bind wire_simulator (\<lambda>_. metrics_attach) engine_init = (Inr (), engine_init\<lparr>handlers := ?f\<rparr>)"
      by (simp add: wire_simulator_def metrics_attach_def py_bind_def py_return_def reg engine_init_def)
        (rule ext, rename_tac ty, case_tac ty; simp add: wired_def)
    show "on REQUEST_ARRIVE Arrival_chain (engine_init\<lparr>handlers := ?f\<rparr>) = (Inr (), wired_engine)"
      by (simp add: reg wired_engine_def engine_init_def) (rule ext, rename_tac ty, case_tac ty; simp add: wired_def)
  qed
  show ?thesis by (simp add: attach_all_def gen_attach_def py_bind_def e1(1)[unfolded py_bind_def] e1(2) attaching_def)
qed

lemma fresh_source:
  assumes "build_arrivals out cfg = Inr gen"
  shows "source_ok Map.empty gen" "cfg_trace cfg \<noteq> None \<Longrightarrow> is_trace gen \<and> trace_left gen = lines_need (out_trace out)"
  using assms by (auto simp: source_ok_def build_arrivals_def tg_init_def Let_def split: option.splits if_splits)

lemma attach_step:
  fixes pol :: policy
  assumes ok: "run_ok out cfg" and gen: "build_arrivals out cfg = Inr gen"
  defines "w \<equiv> world_init out cfg pol gen"
  shows "\<exists>x g'. attaching 0 gen = (x, g') \<and>
    ((\<exists>err s'. attach_all (w, engine_init) = (Inl err, s') \<and> expected_error err \<and> stumbles x 0) \<or>
     (\<exists>a st'. x = Inr a \<and> attach_all (w, engine_init) = (Inr (), (w\<lparr>w_gen := g'\<rparr>, enqueued a wired_engine)) \<and>
       sim_inv st' (w\<lparr>w_gen := g'\<rparr>, enqueued a wired_engine) \<and> grows a Map.empty st' \<and>
       (cfg_trace cfg \<noteq> None \<longrightarrow> is_trace g' \<and> total st' (w\<lparr>w_gen := g'\<rparr>, enqueued a wired_engine) \<le> lines_need (out_trace out))))"
proof -
  note I = init_world_ok[OF ok, of pol gen, folded w_def]
  have wg: "w_gen w = gen" "w_metrics w = collector_init" by (simp_all add: w_def world_init_def Let_def)
  have h: "handling None Map.empty (w, wired_engine)"
    using I by (simp add: handling_def wired_engine_def engine_ok_def engine_init_def q_keys_def stage_keys_def)
  have m: "metrics_ok Map.empty (w_metrics w)" by (simp add: wg metrics_ok_def collector_init_def arrived_def)
  obtain x g' where c: "attaching 0 (w_gen w) = (x, g')" by (cases "attaching 0 (w_gen w)")
  have k: "attach.knows (dom (Map.empty :: stages)) (w_gen w)"
    using fresh_source(1)[OF gen] by (simp add: source_ok_knows wg)
  have x: "case x of Inl err \<Rightarrow> expected_error err | Inr None \<Rightarrow> source_ok Map.empty g'
      | Inr (Some (t, req)) \<Rightarrow> request_id req \<notin> dom (Map.empty :: stages) \<and> source_ok (Map.empty(request_id req \<mapsto> (req, St_arriving))) g'"
    using attach.give_raises[of 0 "w_gen w" _ g'] attach.give_nothing[OF k, of 0 g'] attach.give_fresh[OF k, of 0 _ _ g'] c
    by (auto simp: source_ok_knows(2) expected_error_def split: sum.splits option.splits)
  have pay: "is_trace g' \<and> trace_left g' + (case a of None \<Rightarrow> 0 | Some (t, req) \<Rightarrow> request_need req) \<le> trace_left (w_gen w)"
    if "is_trace (w_gen w)" "x = Inr a" for a
    using attach.give_pays[OF that(1), of 0 a g'] c that(2) by simp
  have "total Map.empty (w, wired_engine) = trace_left gen"
    by (simp add: total_def budget_def wg wired_engine_def engine_init_def)
  moreover have "current_time wired_engine = 0" by (simp add: wired_engine_def engine_init_def)
  ultimately show ?thesis
    using emit_arrival_step[where src = "attaching 0", OF h m c x pay] fresh_source(2)[OF gen] c unfolding attach_run wg
    by (intro exI[of _ x] exI[of _ g']) auto
qed

section \<open>Whole runs\<close>

lemma build_scheduler_error: "build_scheduler name ps = Inl err \<Longrightarrow> err = ValueError"
  by (auto simp: build_scheduler_def pg_init_def e2_init_def conductor_init_def split: if_splits)

lemma build_arrivals_error: "build_arrivals out cfg = Inl err \<Longrightarrow> err = ValueError"
  by (auto simp: build_arrivals_def tg_init_def Let_def split: option.splits if_splits)

lemma run_world_cases:
  assumes ok: "run_ok out cfg" and r: "run_world fuel out cfg name = r"
  shows "r = Inl OutOfFuel \<and> \<not> (cfg_trace cfg \<noteq> None \<and> lines_need (out_trace out) + 5 \<le> fuel) \<or>
    (\<exists>err. r = Inl err \<and> expected_error err) \<or>
    (\<exists>pol gen s evs w e st. build_scheduler name (sc_params (cfg_scheduler cfg)) = Inr pol \<and> build_arrivals out cfg = Inr gen \<and>
       attach_all (world_init out cfg pol gen, engine_init) = (Inr (), s) \<and> run_loop fuel handle s = (Inr (), evs, (w, e)) \<and>
       sim_inv st (w, e) \<and> ev_queue e = [] \<and> r = Inr w)"
proof (cases "build_scheduler name (sc_params (cfg_scheduler cfg))")
  case (Inl err)
  then show ?thesis using r build_scheduler_error[OF Inl] by (auto simp: run_world_def)
next
  case pol: (Inr pol)
  show ?thesis
  proof (cases "build_arrivals out cfg")
    case (Inl err)
    then show ?thesis using r pol build_arrivals_error[OF Inl] by (auto simp: run_world_def)
  next
    case gen: (Inr gen)
    consider (err) err s' where "attach_all (world_init out cfg pol gen, engine_init) = (Inl err, s')" "expected_error err"
      | (fine) st s where "attach_all (world_init out cfg pol gen, engine_init) = (Inr (), s)" "sim_inv st s"
        "cfg_trace cfg \<noteq> None \<longrightarrow> is_trace (w_gen (fst s)) \<and> total st s \<le> lines_need (out_trace out)"
      using attach_step[OF ok gen, of pol] by fastforce
    then show ?thesis
    proof cases
      case err
      then show ?thesis using r pol gen by (auto simp: run_world_def)
    next
      case fine
      obtain r1 evs s1 where l: "run_loop fuel handle s = (r1, evs, s1)" by (metis prod.collapse)
      have res: "r = (case r1 of Inl e \<Rightarrow> Inl e | Inr _ \<Rightarrow> Inr (fst s1))"
        using r pol gen fine(1) l by (auto simp: run_world_def split: prod.splits sum.splits)
      show ?thesis
      proof (cases "r1 = Inl OutOfFuel")
        case True
        then show ?thesis using run_loop_ends[OF fine(2), of fuel] fine(3) l res by fastforce
      next
        case False
        obtain w e where s1: "s1 = (w, e)" by (cases s1)
        from run_from_inv[OF fine(2) l False] show ?thesis
        proof
          assume "\<exists>err. r1 = Inl err \<and> expected_error err"
          then show ?thesis using res by auto
        next
          assume "r1 = Inr () \<and> (\<exists>st'. sim_inv st' s1 \<and> life_path st st' \<and> ev_queue (snd s1) = [])"
          then obtain st' where "r1 = Inr ()" "sim_inv st' (w, e)" "ev_queue e = []" using s1 by auto
          then show ?thesis using res pol gen fine(1) l unfolding s1
            by (intro disjI2 exI[of _ pol] exI[of _ gen] exI[of _ s] exI[of _ evs] exI[of _ w] exI[of _ e] exI[of _ st']) simp
        qed
      qed
    qed
  qed
qed


section \<open>States a run passes through\<close>

inductive sim_reaches :: "outside \<Rightarrow> nano_kv_config \<Rightarrow> string \<Rightarrow> world \<times> engine \<Rightarrow> bool" for out cfg name where
  starts: "build_scheduler name (sc_params (cfg_scheduler cfg)) = Inr pol \<Longrightarrow> build_arrivals out cfg = Inr gen \<Longrightarrow>
    attach_all (world_init out cfg pol gen, engine_init) = (Inr (), s) \<Longrightarrow> sim_reaches out cfg name s"
| proceeds: "sim_reaches out cfg name (w, e) \<Longrightarrow> heappop (ev_queue e) = Some (ev, q) \<Longrightarrow>
    call_handlers fuel handle ev 0 (w, e\<lparr>ev_queue := q, current_time := ev_time ev\<rparr>) = (Inr (), s) \<Longrightarrow> sim_reaches out cfg name s"

lemma reached_inv:
  assumes "run_ok out cfg"
  shows "sim_reaches out cfg name s \<Longrightarrow> \<exists>st. sim_inv st s"
proof (induction rule: sim_reaches.induct)
  case (starts pol gen s)
  then show ?case using attach_step[OF assms starts(2), of pol] by auto
next
  case (proceeds w e ev q fuel s)
  then obtain st where st: "sim_inv st (w, e)" by blast
  have "\<exists>st'. round_done st (w, e) st' s"
    using round_step'[OF st proceeds(2) proceeds(3)[folded popped_def]] by simp
  then show ?case by (auto simp: round_done_def)
qed

text \<open>
  C4. Simulation of the life cycle. In every state a run reaches, there is an assignment of stages to the
  requests in the system (arriving, waiting, starting, prefilling, prefilled, in transfer, decoding, ending,
  rejected) that the state implements: the slots, queues and pipelines of the nodes, the pinned block
  tables, the pending transfers, the dictionaries of the simulator, the counters of the collector and
  the pending events are those the stages require. Processing any next event keeps this, and moves each
  request along at most one edge of the life cycle.
\<close>

theorem events_follow_life_cycle:
  assumes "run_ok out cfg" "sim_reaches out cfg name (w, e)"
  shows "\<exists>st. sim_inv st (w, e) \<and>
    (\<forall>ev q fuel s'. heappop (ev_queue e) = Some (ev, q) \<longrightarrow>
       call_handlers fuel handle ev 0 (w, e\<lparr>ev_queue := q, current_time := ev_time ev\<rparr>) = (Inr (), s') \<longrightarrow>
       (\<exists>st'. sim_inv st' s' \<and> (\<forall>r. st' r = st r \<or> life_step (st r) (st' r))))"
proof -
  obtain st where st: "sim_inv st (w, e)" using reached_inv[OF assms] by blast
  have "\<exists>st'. sim_inv st' s' \<and> (\<forall>r. st' r = st r \<or> life_step (st r) (st' r))"
    if p: "heappop (ev_queue e) = Some (ev, q)"
      and c: "call_handlers fuel handle ev 0 (w, e\<lparr>ev_queue := q, current_time := ev_time ev\<rparr>) = (Inr (), s')" for ev q fuel s'
    using round_step'[OF st p c[folded popped_def]] by (auto simp: round_done_def life_moves_def)
  then show ?thesis using st by blast
qed

text \<open>A small run: one prefill and one decode node, and a trace of one request of two tokens.\<close>

definition demo_config :: nano_kv_config where
  "demo_config = nano_kv_config_default\<lparr>cfg_cluster := \<lparr>cl_prefill_nodes = 1, cl_decode_nodes = 1\<rparr>,
     cfg_model := demo_model, cfg_slo := \<lparr>ttft_target_ms = 1, tbt_target_ms = 1\<rparr>,
     cfg_trace := Some (trace_config_default ''trace.jsonl'')\<rparr>"

definition demo_line :: trace_line where
  "demo_line = Record_line \<lparr>tl_arrival_ms = Some 1, tl_timestamp = None, input_length = Some 2, output_length = Some 1,
     hash_ids = Some [7, 8]\<rparr>"

definition demo_rng :: rng where
  "demo_rng = \<lparr>raw_draw = (\<lambda>k. k), neg_log = (\<lambda>x. 1), n_drawn = 0\<rparr>"

definition demo_outside :: "trace_line list \<Rightarrow> outside" where
  "demo_outside ls = \<lparr>out_sha256 = (\<lambda>_. ''00000000''), out_pow = (\<lambda>x _. x), out_rng = demo_rng, out_synthesis_rng = demo_rng,
     out_uuids = (\<lambda>n k. n @ digits k), out_trace = ls\<rparr>"

lemma demo_run_ok: "run_ok (demo_outside ls) demo_config"
proof -
  have "trace_config_ok (trace_config_default ''trace.jsonl'')" by (simp add: trace_config_ok_def trace_config_default_def)
  then have "nano_kv_config_ok demo_config"
    using nano_kv_config_default_ok demo_model_ok by (simp add: nano_kv_config_ok_def demo_config_def cluster_config_ok_def slo_config_ok_def)
  then show ?thesis by (auto simp: run_ok_def demo_outside_def inj_def dest: digits_inj)
qed

definition demo_arrivals :: "trace_line list \<Rightarrow> arrivals" where
  "demo_arrivals ls = Trace \<lparr>tg_config = demo_config, tg_trace = trace_config_default ''trace.jsonl'', tg_sha = (\<lambda>_. ''00000000''),
     tg_rng = demo_rng, tg_synthesis = None, tg_idx = 0, tg_path = ls, tg_file = None, tg_attached = False\<rparr>"

lemma demo_parts:
  "build_arrivals (demo_outside ls) demo_config = Inr (demo_arrivals ls)"
  "build_scheduler ''round_robin'' (sc_params (cfg_scheduler demo_config)) = Inr (Round_robin rr_init)"
  by (simp_all add: build_arrivals_def demo_config_def demo_outside_def tg_init_def demo_arrivals_def
      trace_config_default_def build_scheduler_def)

lemma demo_first:
  "\<exists>req s. attaching 0 (demo_arrivals [demo_line]) = (Inr (Some (1, req)), Trace s) \<and> slo_tbt req = 1 \<and> tg_file s = Some []"
proof -
  have "build_token_ids [7, 8] 2 1 g v = (Inr [7, 8], g)" for g v
    by (simp add: build_token_ids_def expand_hash_def min_def upt_conv_Cons)
  then show ?thesis
    by (simp add: attaching_def first_arrival_def lift_gen_def schedule_next_def demo_arrivals_def demo_line_def limit_reached_def
        trace_config_default_def replay_record_def build_token_ids_from_record_def raw_arrival_ms_def demo_config_def demo_model_def
        make_request_def hash_prefix_def py_bind_def py_return_def)
qed

lemma demo_reached:
  obtains w e where "sim_reaches (demo_outside [demo_line]) demo_config ''round_robin'' (w, e)" "length (ev_queue e) = 1"
proof -
  let ?w = "world_init (demo_outside [demo_line]) demo_config (Round_robin rr_init) (demo_arrivals [demo_line])"
  obtain req g' where "attaching 0 (demo_arrivals [demo_line]) = (Inr (Some (1, req)), g')" using demo_first by blast
  moreover have "w_gen ?w = demo_arrivals [demo_line]" by (simp add: world_init_def Let_def)
  ultimately have "attach_all (?w, engine_init) =
      (Inr (), (?w\<lparr>w_gen := g'\<rparr>, push 1 REQUEST_ARRIVE (no_keys\<lparr>pl_request := Some req\<rparr>) wired_engine))"
    unfolding attach_run by (simp add: py_bind_def with_gen_def emit_arrival_def emit_run wired_engine_def engine_init_def)
  from sim_reaches.starts[OF demo_parts(2,1) this] show thesis
    by (rule that) (simp add: wired_engine_def engine_init_def)
qed

theorem events_follow_life_cycle_witness:
  "\<exists>w e. length (ev_queue e) = 1 \<and> (\<exists>st. sim_inv st (w, e) \<and>
    (\<forall>ev q fuel s'. heappop (ev_queue e) = Some (ev, q) \<longrightarrow>
       call_handlers fuel handle ev 0 (w, e\<lparr>ev_queue := q, current_time := ev_time ev\<rparr>) = (Inr (), s') \<longrightarrow>
       (\<exists>st'. sim_inv st' s' \<and> (\<forall>r. st' r = st r \<or> life_step (st r) (st' r)))))"
proof -
  obtain w e where "sim_reaches (demo_outside [demo_line]) demo_config ''round_robin'' (w, e)" "length (ev_queue e) = 1"
    by (rule demo_reached)
  then show ?thesis using events_follow_life_cycle[OF demo_run_ok, of "[demo_line]" "''round_robin''" w e] by blast
qed

text \<open>A run on a trace without records.\<close>

lemma empty_trace_run:
  assumes "cfg_trace cfg = Some tc" "tr_prefix_mode tc = Mode_synthesis \<longrightarrow> prefix_synthesis tc \<noteq> None" "out_trace out = [Malformed]"
    and pol: "build_scheduler name (sc_params (cfg_scheduler cfg)) = Inr pol"
  shows "\<exists>w. run_world 9 out cfg name = Inr w"
proof -
  have "\<exists>s. build_arrivals out cfg = Inr (Trace s) \<and> \<not> tg_attached s \<and> tg_path s = [Malformed]"
    using assms(1-3) by (auto simp: build_arrivals_def tg_init_def Let_def)
  then obtain g where g: "build_arrivals out cfg = Inr (Trace g)" "\<not> tg_attached g" "tg_path g = [Malformed]" by blast
  let ?w = "world_init out cfg pol (Trace g)"
  have "\<exists>g'. attaching 0 (Trace g) = (Inr None, g')"
    using g(2,3) by (simp add: attaching_def first_arrival_def lift_gen_def schedule_next_def split: prod.splits if_splits)
  then obtain g' where "attaching 0 (Trace g) = (Inr None, g')" by blast
  moreover have "w_gen ?w = Trace g" by (simp add: world_init_def Let_def)
  ultimately have "attach_all (?w, engine_init) = (Inr (), (?w\<lparr>w_gen := g'\<rparr>, wired_engine))"
    unfolding attach_run by (simp add: py_bind_def with_gen_def emit_arrival_def py_return_def)
  moreover have "run_loop 9 handle (?w\<lparr>w_gen := g'\<rparr>, wired_engine) = (Inr (), [], (?w\<lparr>w_gen := g'\<rparr>, wired_engine))"
    by (subst numeral_eq_Suc, subst run_loop.simps) (simp add: wired_engine_def engine_init_def)
  ultimately show ?thesis using g(1) pol by (simp add: run_world_def)
qed

section \<open>What a run guarantees\<close>

text \<open>
  C1. A run that returns has finished every request: none is left in a slot, a queue or a batch of any
  node, no transfer is pending, no decision or request is kept, no block of the cache is pinned any
  more, and the requests that arrived are exactly those counted as completed or as rejected.
\<close>

theorem run_leaves_idle_cluster:
  assumes "run_ok out cfg" "run_world fuel out cfg name = Inr w"
  shows "(\<forall>n nd. w_nodes w n = Some nd \<longrightarrow>
       running_requests nd = [] \<and> queue nd = [] \<and> decoding nd = {} \<and> prefill_remaining nd = []) \<and>
    pending_transfers w = Map.empty \<and> decisions w = Map.empty \<and> w_requests w = Map.empty \<and>
    block_tables (w_cm w) = Map.empty \<and>
    total_arrived (w_metrics w) = completed_count (w_metrics w) + rejected_count (w_metrics w)"
proof -
  obtain e st where "sim_inv st (w, e)" "ev_queue e = []" using run_world_cases[OF assms] by auto
  from ended_idle[OF this] show ?thesis by (simp add: idle_cluster_def)
qed



end
