(* ===== verification/Report_Properties.thy ===== *)
theory Report_Properties
  imports Reports Whole_Run
begin

text \<open>What the reports say about the runs they compare.\<close>

section \<open>Comparing a run with itself\<close>

lemma threshold_met_self [simp]: "\<not> threshold_met name v v"
  by (auto simp: threshold_met_def Let_def split: mval.splits)

lemma dict_get_self:
  assumes "distinct (map fst d)" "(k, v) \<in> set d"
  shows "dict_get d k = v"
  using assms by (simp add: dict_get_def map_of_is_SomeI)

lemma changed_leaves_self: "dict_get c name = v \<Longrightarrow> changed_leaves c (name, v) = []"
  by (simp add: changed_leaves_def Let_def)

lemma changed_self:
  assumes "distinct (map fst d)"
  shows "changed_metric_names d d = []"
proof -
  have "changed_leaves d nv = []" if "nv \<in> set d" for nv
  proof -
    obtain n v where nv: "nv = (n, v)" by (cases nv)
    have "dict_get d n = v" by (rule dict_get_self[OF assms]) (use that nv in simp)
    then show ?thesis unfolding nv by (rule changed_leaves_self)
  qed
  then show ?thesis by (simp add: changed_metric_names_def)
qed

lemma distinct_dict_of: "distinct (map fst (dict_of ps))"
proof -
  have "distinct (map fst acc) \<Longrightarrow> distinct (map fst (fold (\<lambda>(k, v). AList.update k v) ps acc))" for acc :: metrics
    by (induction ps arbitrary: acc) (auto simp: distinct_update)
  then show ?thesis by (simp add: dict_of_def)
qed

section \<open>Fields\<close>

definition lawful :: "num_field \<Rightarrow> bool" where
  "lawful gu \<longleftrightarrow> (\<forall>c. snd gu (fst gu c) c = Some c) \<and> (\<forall>v c c'. snd gu v c = Some c' \<longrightarrow> fst gu c' = v)"

lemma lawful_nat: "(\<And>c. u (\<lambda>_. g c) c = c) \<Longrightarrow> (\<And>n c. g (u (\<lambda>_. n) c) = n) \<Longrightarrow> lawful (nat_field g u)"
  by (auto simp: lawful_def nat_field_def split: if_splits)

lemma lawful_rat: "(\<And>c. u (\<lambda>_. g c) c = c) \<Longrightarrow> (\<And>n c. g (u (\<lambda>_. n) c) = n) \<Longrightarrow> lawful (rat_field g u)"
  by (auto simp: lawful_def rat_field_def)

lemma number_fields_lawful: "\<forall>f \<in> set (map snd number_fields). lawful f"
  unfolding number_fields_def list.map snd_conv list.set ball_simps
  by (intro conjI; (rule lawful_nat lawful_rat)?; simp)

lemma field_laws:
  "get_nested_attr cfg path = Inr v \<Longrightarrow> set_nested_config_value cfg path v = Inr cfg"
  "set_nested_config_value cfg path v = Inr cfg' \<Longrightarrow> get_nested_attr cfg' path = Inr v"
proof -
  have law: "lawful (g, u)" if "map_of number_fields path = Some (g, u)" for g u
    using number_fields_lawful map_of_SomeD[OF that] by force
  show "get_nested_attr cfg path = Inr v \<Longrightarrow> set_nested_config_value cfg path v = Inr cfg"
    using law by (auto simp: get_nested_attr_def set_nested_config_value_def lawful_def split: option.splits prod.splits)
  show "set_nested_config_value cfg path v = Inr cfg' \<Longrightarrow> get_nested_attr cfg' path = Inr v"
    using law by (fastforce simp: get_nested_attr_def set_nested_config_value_def lawful_def split: option.splits prod.splits)
qed


section \<open>Experiments\<close>

lemma candidates_run:
  assumes "run_candidates rn ex cfg bv bm vs = Inr cs" "c \<in> set cs"
  shows "\<exists>v cfg' s. v \<in> set vs \<and> set_nested_config_value cfg (ex_field ex) v = Inr cfg' \<and>
    run_metrics rn cfg' (ex_scheduler ex) = Inr s \<and> c = candidate_report_of ex bv bm v s"
  using assms
proof (induction vs arbitrary: cs)
  case (Cons v vs)
  then show ?case by (fastforce split: sum.splits)
qed simp

lemma changed_names_iff: "k \<in> set (changed_metric_names b c) \<longleftrightarrow> (\<exists>nv \<in> set b. k \<in> set (changed_leaves c nv))"
  by (simp add: changed_metric_names_def)

text \<open>
  C20. A sensitivity experiment does not report a change that is none: a candidate whose value is the one the
  base configuration already has is run on exactly the base configuration, has the same summary, and lists
  no changed metric; and the experiment as a whole passes only if some candidate value, different from the
  base value, moved a selected metric.
\<close>

theorem sensitivity_no_false_alarm:
  assumes "run_sensitivity_experiment rn load ex = Inr rep"
  shows "(\<forall>c \<in> set (er_candidates rep). cr_candidate_value c = er_baseline_value rep \<longrightarrow>
      cr_candidate_summary c = er_baseline_summary rep \<and> cr_changed_metrics c = [] \<and> \<not> cr_changed c) \<and>
    (er_changed rep \<longrightarrow> (\<exists>c \<in> set (er_candidates rep). cr_changed c \<and> cr_candidate_value c \<noteq> er_baseline_value rep))"
proof -
  obtain loaded where l: "load (ex_base_config ex) = Inr loaded"
    using assms by (cases "load (ex_base_config ex)") (simp_all add: run_sensitivity_experiment_def)
  define cfg where "cfg = set_scheduler_name loaded (ex_scheduler ex)"
  obtain bv where bv: "get_nested_attr cfg (ex_field ex) = Inr bv"
    using assms l by (cases "get_nested_attr cfg (ex_field ex)") (simp_all add: run_sensitivity_experiment_def cfg_def)
  obtain s where s: "run_metrics rn cfg (ex_scheduler ex) = Inr s"
    using assms l bv by (cases "run_metrics rn cfg (ex_scheduler ex)") (simp_all add: run_sensitivity_experiment_def cfg_def)
  let ?bm = "select_metrics s (ex_primary_metrics ex)"
  obtain cs where cs: "run_candidates rn ex cfg bv ?bm (ex_values ex) = Inr cs"
    using assms l bv s by (cases "run_candidates rn ex cfg bv ?bm (ex_values ex)")
      (simp_all add: run_sensitivity_experiment_def cfg_def)
  have rep: "er_candidates rep = cs" "er_baseline_value rep = bv" "er_baseline_summary rep = s"
    "er_changed rep = (\<exists>c \<in> set cs. cr_changed c)"
    using assms l bv s cs by (auto simp: run_sensitivity_experiment_def cfg_def)
  have same: "cr_candidate_summary c = s \<and> cr_changed_metrics c = [] \<and> \<not> cr_changed c"
    if c: "c \<in> set cs" "cr_candidate_value c = bv" for c
  proof -
    obtain v cfg' s' where r: "set_nested_config_value cfg (ex_field ex) v = Inr cfg'"
      "run_metrics rn cfg' (ex_scheduler ex) = Inr s'" "c = candidate_report_of ex bv ?bm v s'"
      using candidates_run[OF cs c(1)] by blast
    have "v = bv" using c(2) r(3) by (simp add: candidate_report_of_def Let_def)
    then have "cfg' = cfg" using r(1) field_laws(1)[OF bv] by simp
    then have "s' = s" using r(2) s by simp
    then show ?thesis using changed_self[of ?bm] by (simp add: r(3) candidate_report_of_def Let_def select_metrics_def distinct_dict_of)
  qed
  then show ?thesis unfolding rep by blast
qed

text \<open>An experiment on the capacity of the nodes, over a trace without records.\<close>

definition empty_runner :: runner where
  "empty_runner = \<lparr>rn_fuel = 9, rn_outside = (\<lambda>_. demo_outside [Malformed])\<rparr>"

definition demo_experiment :: sensitivity_experiment where
  "demo_experiment = \<lparr>ex_field = ''node.capacity'', ex_base_config = ''demo.yaml'', ex_scheduler = ''round_robin'', ex_values = [32, 16],
     ex_primary_metrics = [''rejection_rate'', ''ttft_avg_ms''], ex_note = None\<rparr>"

lemma empty_metrics_of:
  assumes "cfg_trace cfg = Some tc" "tr_prefix_mode tc = Mode_synthesis \<longrightarrow> prefix_synthesis tc \<noteq> None"
    and "build_scheduler name (sc_params (cfg_scheduler cfg)) = Inr pol"
  shows "\<exists>s. run_metrics empty_runner cfg name = Inr s"
proof -
  have "\<exists>w. run_world 9 (demo_outside [Malformed]) cfg name = Inr w"
    by (rule empty_trace_run[OF assms(1,2) _ assms(3)]) (simp add: demo_outside_def)
  then show ?thesis by (auto simp: run_metrics_def run_one_def empty_runner_def)
qed

lemma empty_metrics:
  assumes "cfg_trace cfg = Some tc" "tr_prefix_mode tc = Mode_synthesis \<longrightarrow> prefix_synthesis tc \<noteq> None"
  shows "\<exists>s. run_metrics empty_runner cfg ''round_robin'' = Inr s"
  by (rule empty_metrics_of[OF assms]) (simp add: build_scheduler_def)

lemma demo_report:
  obtains rep where "run_sensitivity_experiment empty_runner (\<lambda>_. Inr demo_config) demo_experiment = Inr rep"
    "er_baseline_value rep = 32" "map cr_candidate_value (er_candidates rep) = [32, 16]"
proof -
  have cfg: "set_scheduler_name demo_config ''round_robin'' = demo_config"
    by (simp add: set_scheduler_name_def demo_config_def nano_kv_config_default_def scheduler_config_default_def)
  have v: "get_nested_attr demo_config ''node.capacity'' = Inr 32"
    by (simp add: get_nested_attr_def number_fields_def nat_field_def demo_config_def nano_kv_config_default_def node_config_default_def)
  obtain c16 where c16: "set_nested_config_value demo_config ''node.capacity'' 16 = Inr c16" "cfg_trace c16 = Some (trace_config_default ''trace.jsonl'')"
    by (simp add: set_nested_config_value_def number_fields_def nat_field_def demo_config_def)
  have tr: "cfg_trace demo_config = Some (trace_config_default ''trace.jsonl'')" by (simp add: demo_config_def)
  have m: "tr_prefix_mode (trace_config_default ''trace.jsonl'') = Mode_synthesis \<longrightarrow> prefix_synthesis (trace_config_default ''trace.jsonl'') \<noteq> None"
    by (simp add: trace_config_default_def)
  obtain s s16 where s: "run_metrics empty_runner demo_config ''round_robin'' = Inr s" "run_metrics empty_runner c16 ''round_robin'' = Inr s16"
    using empty_metrics[OF tr m] empty_metrics[OF c16(2) m] by blast
  obtain rep where "run_sensitivity_experiment empty_runner (\<lambda>_. Inr demo_config) demo_experiment = Inr rep"
    "er_baseline_value rep = 32" "map cr_candidate_value (er_candidates rep) = [32, 16]"
    using cfg v field_laws(1)[OF v] s c16(1)
    by (auto simp: run_sensitivity_experiment_def demo_experiment_def candidate_report_of_def Let_def)
  then show thesis by (rule that)
qed

theorem sensitivity_no_false_alarm_witness:
  "\<exists>rep c. run_sensitivity_experiment empty_runner (\<lambda>_. Inr demo_config) demo_experiment = Inr rep \<and>
     c \<in> set (er_candidates rep) \<and> cr_candidate_value c = 32 \<and> \<not> cr_changed c"
proof -
  obtain rep where R: "run_sensitivity_experiment empty_runner (\<lambda>_. Inr demo_config) demo_experiment = Inr rep"
    "er_baseline_value rep = 32" "map cr_candidate_value (er_candidates rep) = [32, 16]"
    by (rule demo_report)
  then obtain c where c: "c \<in> set (er_candidates rep)" "cr_candidate_value c = 32" by (cases "er_candidates rep") auto
  then show ?thesis using sensitivity_no_false_alarm[OF R(1)] R by auto
qed

section \<open>The prefix-sensitivity table\<close>

lemma override_same:
  assumes "cfg_trace cfg = Some tc" "prefix_synthesis tc = Some ps" "f ps = ps"
  shows "override f cfg = cfg"
  using assms by (simp add: override_def)

lemma both_hits_Inr: "both_hits rn cfg name f = Inr (h, r) \<longleftrightarrow>
    run_with_override rn cfg name f = Inr h \<and> run_with_override rn cfg ''round_robin'' f = Inr r"
  by (auto simp: both_hits_def split: sum.splits)

lemma produce_bind [simp]: "py_bind (produce x) k s = k () (s @ [x])"
  by (simp add: py_bind_def produce_def)

lemma table_rows_run:
  assumes "table_rows rn cfg name base points s = (Inr rows, s')" "row \<in> set rows"
  shows "\<exists>f is_base reuse. (row_axis row, row_value row, f, is_base, reuse) \<in> set points \<and> row_is_baseline row = is_base \<and>
    (if reuse then base = (row_hit row, row_rr_hit row) else both_hits rn cfg name f = Inr (row_hit row, row_rr_hit row))"
  using assms
proof (induction points arbitrary: rows s s')
  case (Cons p points)
  obtain axis v f is_base reuse where p: "p = (axis, v, f, is_base, reuse)" by (cases p)
  let ?hits = "if reuse then py_return base else py_bind (produce (Say_point axis v)) (\<lambda>_. py_of (both_hits rn cfg name f))"
  obtain hr s1 where hits': "?hits s = (Inr hr, s1)"
    and rest': "(case hr of (h, r) \<Rightarrow> py_bind (table_rows rn cfg name base points) (\<lambda>rows. py_return
        (\<lparr>row_axis = axis, row_value = v, row_hit = h, row_rr_hit = r, row_is_baseline = is_base\<rparr> # rows))) s1 = (Inr rows, s')"
    using Cons.prems(1) unfolding p table_rows.simps by (rule py_bind_InrE)
  obtain h r where hr: "hr = (h, r)" by (cases hr)
  note hits = hits'[unfolded hr] and rest = rest'[unfolded hr case_prod_conv]
  obtain rs s2 where R: "table_rows rn cfg name base points s1 = (Inr rs, s2)"
    "rows = \<lparr>row_axis = axis, row_value = v, row_hit = h, row_rr_hit = r, row_is_baseline = is_base\<rparr> # rs"
    using rest by (auto simp: py_return_def elim!: py_bind_InrE)
  have H: "if reuse then base = (h, r) else both_hits rn cfg name f = Inr (h, r)"
    using hits by (auto simp: py_return_def py_of_def split: if_splits)
  show ?case
  proof (cases "row \<in> set rs")
    case True
    obtain g b u where "(row_axis row, row_value row, g, b, u) \<in> set points" "row_is_baseline row = b"
      "if u then base = (row_hit row, row_rr_hit row) else both_hits rn cfg name g = Inr (row_hit row, row_rr_hit row)"
      using Cons.IH[OF R(1) True] by blast
    then show ?thesis by (intro exI[of _ g] exI[of _ b] exI[of _ u]) simp
  next
    case False
    then have "row = \<lparr>row_axis = axis, row_value = v, row_hit = h, row_rr_hit = r, row_is_baseline = is_base\<rparr>"
      using Cons.prems(2) R(2) by simp
    then show ?thesis using H by (intro exI[of _ f] exI[of _ is_base] exI[of _ reuse]) (simp add: p)
  qed
qed (simp add: py_return_def)

lemma synthesis_section_Inr: "cfg_trace cfg = Some tc \<Longrightarrow> prefix_synthesis tc = Some ps \<Longrightarrow>
    synthesis_section cfg = (if tr_prefix_mode tc = Mode_synthesis then Inr ps else Inl SystemExit)"
  by (simp add: synthesis_section_def)

lemma prefix_sensitivity_Inr:
  assumes "prefix_sensitivity rn cfg name s = (Inr rows, s')" "cfg_trace cfg = Some tc" "prefix_synthesis tc = Some ps"
  obtains base s1 where "both_hits rn cfg name id = Inr base" "table_rows rn cfg name base (axis_points ps) s1 = (Inr rows, s')"
  using assms
  by (auto simp: prefix_sensitivity_def synthesis_section_Inr both_hits_def py_of_def py_raise_def elim!: py_bind_InrE split: if_splits)

text \<open>
  C21. In the table of the prefix-sensitivity command every row of the axes \<open>zipf_alpha\<close>, \<open>num_buckets\<close> and
  \<open>sharing\<close> holds the cache hits of the scheduler and of round robin on the configuration with that value, also
  where the command reuses the baseline instead of running again. A row of the first two axes is marked as
  baseline exactly when its value is the configured one; the sharing preset \<open>mixed\<close> is marked as baseline whatever
  is configured.
\<close>

theorem prefix_rows_report_their_configuration:
  assumes "prefix_sensitivity rn cfg name printed = (Inr rows, printed')" "cfg_trace cfg = Some tc" "prefix_synthesis tc = Some ps" "row \<in> set rows"
  shows "(row_axis row = ''zipf_alpha'' \<longrightarrow> (\<exists>v. row_value row = V_num v \<and> row_is_baseline row = (v = zipf_alpha ps) \<and>
      run_with_override rn cfg name (zipf_alpha_update (\<lambda>_. v)) = Inr (row_hit row) \<and>
      run_with_override rn cfg ''round_robin'' (zipf_alpha_update (\<lambda>_. v)) = Inr (row_rr_hit row))) \<and>
    (row_axis row = ''num_buckets'' \<longrightarrow> (\<exists>v. row_value row = V_num (of_nat v) \<and> row_is_baseline row = (v = num_buckets ps) \<and>
      run_with_override rn cfg name (num_buckets_update (\<lambda>_. v)) = Inr (row_hit row) \<and>
      run_with_override rn cfg ''round_robin'' (num_buckets_update (\<lambda>_. v)) = Inr (row_rr_hit row))) \<and>
    (row_axis row = ''sharing'' \<longrightarrow> (\<exists>n ls. row_value row = V_preset n \<and> (n, ls) \<in> set SHARING_PRESETS \<and>
      row_is_baseline row = (ls = sharing_layers ps \<or> n = ''mixed'') \<and>
      run_with_override rn cfg name (sharing_layers_update (\<lambda>_. ls)) = Inr (row_hit row) \<and>
      run_with_override rn cfg ''round_robin'' (sharing_layers_update (\<lambda>_. ls)) = Inr (row_rr_hit row)))"
proof -
  obtain base s1 where base: "both_hits rn cfg name id = Inr base" "table_rows rn cfg name base (axis_points ps) s1 = (Inr rows, printed')"
    by (rule prefix_sensitivity_Inr[OF assms(1-3)])
  obtain f is_base reuse where R: "(row_axis row, row_value row, f, is_base, reuse) \<in> set (axis_points ps)" "row_is_baseline row = is_base"
    "if reuse then base = (row_hit row, row_rr_hit row) else both_hits rn cfg name f = Inr (row_hit row, row_rr_hit row)"
    using table_rows_run[OF base(2) assms(4)] by blast
  have id: "override g cfg = override id cfg" if "g ps = ps" for g
    using override_same[OF assms(2,3)] that by simp
  have hits: "run_with_override rn cfg name f = Inr (row_hit row) \<and> run_with_override rn cfg ''round_robin'' f = Inr (row_rr_hit row)"
    if "reuse \<Longrightarrow> f ps = ps"
  proof (cases reuse)
    case True
    then show ?thesis using R(3) base(1) id[of f] that[OF True] by (simp add: both_hits_Inr run_with_override_def)
  next
    case False
    then show ?thesis using R(3) by (simp add: both_hits_Inr)
  qed
  show ?thesis using R(1,2) hits unfolding axis_points_def by auto
qed

definition demo_synthesis :: nano_kv_config where
  "demo_synthesis = demo_config\<lparr>cfg_trace := Some ((trace_config_default ''trace.jsonl'')\<lparr>tr_prefix_mode := Mode_synthesis,
     prefix_synthesis := Some (prefix_synthesis_config_default\<lparr>sharing_layers := [(1, 0)]\<rparr>)\<rparr>)\<rparr>"

lemma table_rows_defined:
  assumes "\<And>f. \<exists>x. both_hits rn cfg name f = Inr x"
  shows "\<exists>rows s'. table_rows rn cfg name base points s = (Inr rows, s') \<and>
    map (\<lambda>r. (row_axis r, row_value r)) rows = map (\<lambda>(a, v, _). (a, v)) points"
proof (induction points arbitrary: s)
  case (Cons p points)
  obtain axis v f is_base reuse where p: "p = (axis, v, f, is_base, reuse)" by (cases p)
  obtain h r s1 where "(if reuse then py_return base
      else py_bind (produce (Say_point axis v)) (\<lambda>_. py_of (both_hits rn cfg name f))) s = (Inr (h, r), s1)"
    using assms[of f] by (cases reuse; cases base) (auto simp: py_return_def)
  moreover obtain rows s2 where "table_rows rn cfg name base points s1 = (Inr rows, s2)"
    "map (\<lambda>r. (row_axis r, row_value r)) rows = map (\<lambda>(a, v, _). (a, v)) points"
    using Cons.IH by blast
  ultimately show ?case unfolding p table_rows.simps by (simp add: py_bind_Inr py_return_def del: produce_bind)
qed (simp add: py_return_def)

theorem prefix_rows_report_their_configuration_witness:
  "\<exists>rows row printed. prefix_sensitivity empty_runner demo_synthesis ''round_robin'' [] = (Inr rows, printed) \<and> row \<in> set rows \<and>
     row_value row = V_preset ''mixed'' \<and> row_is_baseline row \<and>
     map_option (map_option sharing_layers \<circ> prefix_synthesis) (cfg_trace demo_synthesis) = Some (Some [(1, 0)])"
proof -
  let ?ps = "prefix_synthesis_config_default\<lparr>sharing_layers := [(1, 0)]\<rparr>"
  let ?tc = "(trace_config_default ''trace.jsonl'')\<lparr>tr_prefix_mode := Mode_synthesis, prefix_synthesis := Some ?ps\<rparr>"
  have tr: "cfg_trace demo_synthesis = Some ?tc" "prefix_synthesis ?tc = Some ?ps" by (simp_all add: demo_synthesis_def)
  have o: "cfg_trace (override f demo_synthesis) = Some (?tc\<lparr>prefix_synthesis := Some (f ?ps)\<rparr>)" for f
    by (simp add: override_def demo_synthesis_def)
  have "\<exists>h. run_with_override empty_runner demo_synthesis ''round_robin'' f = Inr h" for f
    using empty_metrics[OF o, of f] by (auto simp: run_with_override_def)
  then have b: "\<exists>x. both_hits empty_runner demo_synthesis ''round_robin'' f = Inr x" for f
    by (metis both_hits_Inr)
  obtain h where base: "both_hits empty_runner demo_synthesis ''round_robin'' id = Inr (h, h)"
    using b[of id] by (auto simp: both_hits_Inr)
  let ?s = "[Say (running (''baseline (round_robin)'')), Say (running ''round_robin baseline for uplift'')]"
  obtain rows printed where rows: "table_rows empty_runner demo_synthesis ''round_robin'' (h, h) (axis_points ?ps) ?s = (Inr rows, printed)"
    "map (\<lambda>r. (row_axis r, row_value r)) rows = map (\<lambda>(a, v, _). (a, v)) (axis_points ?ps)"
    using table_rows_defined[OF b, of "(h, h)" "axis_points ?ps" ?s] by blast
  have P: "prefix_sensitivity empty_runner demo_synthesis ''round_robin'' [] = (Inr rows, printed)"
    using base rows(1) by (simp add: prefix_sensitivity_def synthesis_section_Inr[OF tr] both_hits_Inr)
  have "(''sharing'', V_preset ''mixed'') \<in> set (map (\<lambda>r. (row_axis r, row_value r)) rows)"
    unfolding rows(2) by (simp add: axis_points_def SHARING_PRESETS_def)
  then obtain row where row: "row \<in> set rows" "row_axis row = ''sharing''" "row_value row = V_preset ''mixed''" by auto
  have "row_is_baseline row"
    using prefix_rows_report_their_configuration[OF P tr row(1)] row(2,3) by auto
  then show ?thesis using P row tr by auto
qed

end
