(* ===== verification/Config_Properties.thy ===== *)
theory Config_Properties
  imports Config_Loader
begin

text \<open>
  Properties of the loaders: what a loaded configuration satisfies, and that a document which spells a valid
  configuration out loads as that configuration, with every omitted section at its declared default.
\<close>

section \<open>A validator that coerces nothing\<close>

lemma strict_list:
  "those (map f ys) = Some vs \<longleftrightarrow> list_all2 (\<lambda>y v. f y = Some v) ys vs"
  by (induction ys arbitrary: vs) (auto simp: list_all2_Cons1 split: option.splits)




lemma parsed_field:
  assumes "parsed_fields kvs fs out"
  shows "map_of kvs n = None \<Longrightarrow> parsed_fields kvs (Field n t cs (Some v) # fs) ((n, v) # out)"
    "map_of kvs n = Some y \<Longrightarrow> parsed t y v \<Longrightarrow> \<forall>c \<in> set cs. holds c v \<Longrightarrow> parsed_fields kvs (Field n t cs d # fs) ((n, v) # out)"
  using parsed_absent[of kvs "Field n t cs (Some v)"] parsed_present[of kvs "Field n t cs d"] assms by simp_all

lemma parsed_map:
  "fst ` set kvs \<subseteq> fd_name ` set fs \<Longrightarrow> parsed_fields kvs fs out \<Longrightarrow> parsed (T_model fs) (Y_map kvs) (Y_map out)"
  by (rule parsed_model) simp_all

lemma strict_parsed:
  "strict t y = Some v \<Longrightarrow> parsed t y v"
  "strict_fields kvs fs = Some out \<Longrightarrow> parsed_fields kvs fs out"
proof (induction t y and kvs fs arbitrary: v and out rule: strict_strict_fields.induct)
  case (7 t y)
  then show ?case
    by (auto simp: strict_list intro!: parsed_list elim!: list.rel_mono_strong split: yaml.splits)
qed (auto simp: number_of_def intro!: parsed_map intro: parsed_parsed_fields.intros(1-11,13) parsed_field split: yaml.splits option.splits list.splits if_splits)

definition strict_validate :: validator where
  "strict_validate fs y = (case strict (T_model fs) y of None \<Rightarrow> Inl ValueError | Some v \<Rightarrow> Inr v)"

lemma strict_validate_documented: "validates_as_documented strict_validate"
  unfolding validates_as_documented_def strict_validate_def using strict_parsed(1) by (auto split: option.splits)

section \<open>Documents that spell a configuration out\<close>

definition cluster_doc :: "cluster_config \<Rightarrow> yaml" where
  "cluster_doc c = Y_map [(''prefill_nodes'', Y_int (int (cl_prefill_nodes c))), (''decode_nodes'', Y_int (int (cl_decode_nodes c)))]"

definition node_doc :: "node_config \<Rightarrow> yaml" where
  "node_doc c = Y_map [(''gpu_blocks'', Y_int (int (gpu_blocks c))), (''cpu_blocks'', Y_int (int (cpu_blocks c))),
     (''disk_blocks'', Y_int (int (disk_blocks c))), (''capacity'', Y_int (int (capacity c)))]"

definition model_doc :: "model_config \<Rightarrow> yaml" where
  "model_doc c = Y_map [(''block_size'', Y_int (int (block_size c))), (''kv_bytes_per_token'', Y_int (int (kv_bytes_per_token c))),
     (''prefill_cost_per_token_ms'', Y_float (prefill_cost_per_token_ms c)), (''decode_base_ms'', Y_float (decode_base_ms c)),
     (''marginal_decode_ms'', Y_float (marginal_decode_ms c)), (''prefill_chunk_size'', Y_int (int (prefill_chunk_size c)))]"

definition bandwidth_doc :: "bandwidth_config \<Rightarrow> yaml" where
  "bandwidth_doc c = Y_map [(''gpu_to_gpu'', Y_float (gpu_to_gpu c)), (''gpu_to_cpu'', Y_float (gpu_to_cpu c)),
     (''cpu_to_disk'', Y_float (cpu_to_disk c)), (''contention_model'', Y_str (case contention_model c of
        Contention_none \<Rightarrow> ''none'' | Contention_per_node_lane \<Rightarrow> ''per_node_lane''))]"

definition slo_doc :: "slo_config \<Rightarrow> yaml" where
  "slo_doc c = Y_map [(''ttft_target_ms'', Y_float (ttft_target_ms c)), (''tbt_target_ms'', Y_float (tbt_target_ms c))]"

definition workload_doc :: "workload_config \<Rightarrow> yaml" where
  "workload_doc c = Y_map [(''request_rate'', Y_float (request_rate c)), (''duration_s'', Y_float (duration_s c)),
     (''prefix_sharing_ratio'', Y_float (prefix_sharing_ratio c)), (''avg_prompt_len'', Y_int (int (avg_prompt_len c))),
     (''avg_output_len'', Y_int (int (avg_output_len c)))]"

definition scheduler_doc :: "(string \<times> rat) list \<Rightarrow> scheduler_config \<Rightarrow> yaml" where
  "scheduler_doc ps c = Y_map [(''name'', Y_str (sc_name c)), (''params'', Y_map (map (\<lambda>(k, r). (k, Y_float r)) ps))]"

definition generator_doc :: "generator_config \<Rightarrow> yaml" where
  "generator_doc c = Y_map [(''num_buckets'', Y_int (int (gen_num_buckets c))), (''vocab_size'', Y_int (int (vocab_size c))),
     (''seed'', Y_int (gen_seed c))]"

definition synthesis_doc :: "prefix_synthesis_config \<Rightarrow> yaml" where
  "synthesis_doc c = Y_map [(''num_buckets'', Y_int (int (num_buckets c))), (''zipf_alpha'', Y_float (zipf_alpha c)),
     (''p_local'', Y_float (p_local c)), (''local_window_s'', Y_float (local_window_s c)),
     (''sharing_layers'', Y_list (map (\<lambda>(p, r). Y_list [Y_float p, Y_float r]) (sharing_layers c))), (''seed'', Y_int (ps_seed c))]"

definition mode_doc :: "prefix_mode \<Rightarrow> string" where
  "mode_doc m = (case m of Mode_none \<Rightarrow> ''none'' | Mode_hash_ids \<Rightarrow> ''hash_ids'' | Mode_synthesis \<Rightarrow> ''synthesis'')"

definition trace_doc :: "trace_config \<Rightarrow> yaml" where
  "trace_doc c = Y_map [(''path'', Y_str (tr_path c)), (''speedup'', Y_float (speedup c)),
     (''max_requests'', case max_requests c of None \<Rightarrow> Y_null | Some n \<Rightarrow> Y_int (int n)),
     (''prefix_mode'', Y_str (mode_doc (tr_prefix_mode c))),
     (''prefix_synthesis'', case prefix_synthesis c of None \<Rightarrow> Y_null | Some p \<Rightarrow> synthesis_doc p)]"

definition config_doc :: "(string \<times> rat) list \<Rightarrow> nano_kv_config \<Rightarrow> yaml" where
  "config_doc ps c = Y_map [(''cluster'', cluster_doc (cfg_cluster c)), (''node'', node_doc (cfg_node c)),
     (''model'', model_doc (cfg_model c)), (''bandwidth'', bandwidth_doc (cfg_bandwidth c)), (''slo'', slo_doc (cfg_slo c)),
     (''workload'', workload_doc (cfg_workload c)), (''scheduler'', scheduler_doc ps (cfg_scheduler c)),
     (''generator'', generator_doc (cfg_generator c)),
     (''trace'', case cfg_trace c of None \<Rightarrow> Y_null | Some t \<Rightarrow> trace_doc t)]"

lemmas docs = cluster_doc_def node_doc_def model_doc_def bandwidth_doc_def slo_doc_def workload_doc_def generator_doc_def
lemmas oks = cluster_config_ok_def node_config_ok_def model_config_ok_def bandwidth_config_ok_def slo_config_ok_def
  workload_config_ok_def generator_config_ok_def

lemma sections_strict:
  "cluster_config_ok a \<Longrightarrow> strict (T_model cluster_fields) (cluster_doc a) = Some (cluster_doc a)"
  "node_config_ok b \<Longrightarrow> strict (T_model node_fields) (node_doc b) = Some (node_doc b)"
  "model_config_ok c \<Longrightarrow> strict (T_model model_fields) (model_doc c) = Some (model_doc c)"
  "bandwidth_config_ok d \<Longrightarrow> strict (T_model bandwidth_fields) (bandwidth_doc d) = Some (bandwidth_doc d)"
  "slo_config_ok e \<Longrightarrow> strict (T_model slo_fields) (slo_doc e) = Some (slo_doc e)"
  "workload_config_ok f \<Longrightarrow> strict (T_model workload_fields) (workload_doc f) = Some (workload_doc f)"
  "generator_config_ok g \<Longrightarrow> strict (T_model generator_fields) (generator_doc g) = Some (generator_doc g)"
  by (simp_all add: docs oks field_lists number_of_def holds_number split: contention.split)

lemma sections_read:
  "cluster_of (cluster_doc a) = Some a" "node_of (node_doc b) = Some b" "model_of (model_doc c) = Some c"
  "bandwidth_of (bandwidth_doc d) = Some d" "slo_of (slo_doc e) = Some e" "workload_of (workload_doc f) = Some f"
  "generator_of (generator_doc g) = Some g"
  by (simp_all add: docs reads cluster_of_def node_of_def model_of_def bandwidth_of_def slo_of_def workload_of_def
      generator_of_def contention_of_def split: contention.split)

lemma scheduler_strict: "strict (T_model scheduler_fields) (scheduler_doc ps c) = Some (scheduler_doc ps c)"
  by (simp add: scheduler_doc_def field_lists)

lemma scheduler_read:
  assumes "sc_params c = map_of ps"
  shows "scheduler_of (scheduler_doc ps c) = Some c"
proof -
  have "(\<lambda>k. Option.bind (map_of (map (\<lambda>(k, r). (k, Y_float r)) ps) k) number_of) = map_of ps"
  proof
    fix k
    show "Option.bind (map_of (map (\<lambda>(k, r). (k, Y_float r)) ps) k) number_of = map_of ps k"
      by (induction ps) (auto simp: number_of_def)
  qed
  then show ?thesis using assms by (simp add: scheduler_of_def scheduler_doc_def reads list_all_iff number_of_def case_prod_beta)
qed

lemma layers_read: "layers_of (Y_list (map (\<lambda>(p, r). Y_list [Y_float p, Y_float r]) ls)) = Some ls"
  by (induction ls) (auto simp: layers_of_def pair_of_def)

lemma layers_strict: "those (map (strict (T_pair T_float T_float)) (map (\<lambda>(p, r). Y_list [Y_float p, Y_float r]) ls)) =
    Some (map (\<lambda>(p, r). Y_list [Y_float p, Y_float r]) ls)"
  by (induction ls) (auto simp: number_of_def)

lemma synthesis_strict:
  assumes "prefix_synthesis_config_ok c"
  shows "strict (T_model synthesis_fields) (synthesis_doc c) = Some (synthesis_doc c)"
proof -
  have "sharing_layers c \<noteq> []" using assms validate_layersD(2) by (auto simp: prefix_synthesis_config_ok_def)
  then show ?thesis using assms
    by (simp add: synthesis_doc_def synthesis_fields_def prefix_synthesis_config_ok_def number_of_def holds_number layers_strict
        del: map_map list.map_comp) (simp add: holds_def layers_read Suc_le_eq)
qed

lemma synthesis_read: "synthesis_of (synthesis_doc c) = Some c"
  by (simp add: synthesis_doc_def synthesis_of_def reads layers_read)

lemma synthesis_doc_map: "synthesis_doc c \<noteq> Y_null" by (simp add: synthesis_doc_def)

lemma strict_map:
  "fst ` set kvs \<subseteq> fd_name ` set fs \<Longrightarrow> strict_fields kvs fs = Some out \<Longrightarrow> strict (T_model fs) (Y_map kvs) = Some (Y_map out)"
  by simp

lemma optional_strict:
  assumes "\<And>x. m = Some x \<Longrightarrow> d x \<noteq> Y_null \<and> strict t (d x) = Some (d x)"
  shows "strict (T_optional t) (case m of None \<Rightarrow> Y_null | Some x \<Rightarrow> d x) = Some (case m of None \<Rightarrow> Y_null | Some x \<Rightarrow> d x)"
  using assms by (cases m) auto

lemma optional_read:
  assumes "\<And>x. d x \<noteq> Y_null \<and> f (d x) = Some x"
  shows "optional f (case m of None \<Rightarrow> Y_null | Some x \<Rightarrow> d x) = Some m"
  using assms by (cases m) (auto simp: optional_def)

lemma trace_strict:
  assumes "trace_config_ok c"
  shows "strict (T_model trace_fields) (trace_doc c) = Some (trace_doc c)"
proof -
  have "strict (T_optional (T_model synthesis_fields)) (case prefix_synthesis c of None \<Rightarrow> Y_null | Some p \<Rightarrow> synthesis_doc p) =
      Some (case prefix_synthesis c of None \<Rightarrow> Y_null | Some p \<Rightarrow> synthesis_doc p)"
    using assms by (intro optional_strict) (simp add: synthesis_strict trace_config_ok_def synthesis_doc_map del: strict.simps(10))
  moreover have "strict (T_optional T_int) (case max_requests c of None \<Rightarrow> Y_null | Some n \<Rightarrow> Y_int (int n)) =
      Some (case max_requests c of None \<Rightarrow> Y_null | Some n \<Rightarrow> Y_int (int n))"
    by (intro optional_strict) simp
  moreover have "holds (C_ge 1) (case max_requests c of None \<Rightarrow> Y_null | Some n \<Rightarrow> Y_int (int n))"
    using assms by (auto simp: trace_config_ok_def holds_def number_of_def split: option.splits)
  moreover have "holds (C_min_length 1) (Y_str (tr_path c))" using assms by (simp add: trace_config_ok_def holds_def Suc_le_eq)
  ultimately show ?thesis unfolding trace_doc_def using assms
    by (intro strict_map) (simp_all add: trace_fields_def trace_config_ok_def number_of_def holds_number mode_doc_def
        del: strict.simps(9,10) split: prefix_mode.split)
qed

lemma trace_read: "trace_of (trace_doc c) = Some c"
  using optional_read[where d = "\<lambda>n. Y_int (int n)" and f = "\<lambda>x. case x of Y_int i \<Rightarrow> Some (nat i) | _ \<Rightarrow> None" and m = "max_requests c"]
    optional_read[where d = synthesis_doc and f = synthesis_of and m = "prefix_synthesis c"]
  by (simp add: trace_doc_def trace_of_def reads synthesis_read synthesis_doc_map mode_doc_def mode_of_def split: prefix_mode.split)

lemma config_strict:
  assumes "nano_kv_config_ok c"
  shows "strict (T_model nano_kv_fields) (config_doc ps c) = Some (config_doc ps c)"
proof -
  have t: "trace_doc x \<noteq> Y_null" for x by (simp add: trace_doc_def)
  have "strict (T_optional (T_model trace_fields)) (case cfg_trace c of None \<Rightarrow> Y_null | Some t \<Rightarrow> trace_doc t) =
      Some (case cfg_trace c of None \<Rightarrow> Y_null | Some t \<Rightarrow> trace_doc t)"
    using assms by (intro optional_strict) (simp add: trace_strict nano_kv_config_ok_def t del: strict.simps(10))
  then show ?thesis unfolding config_doc_def using assms
    by (intro strict_map) (simp_all add: nano_kv_fields_def sub_model_def sections_strict scheduler_strict nano_kv_config_ok_def
        del: strict.simps(9,10))
qed

lemma config_read:
  assumes "sc_params (cfg_scheduler c) = map_of ps"
  shows "config_of (config_doc ps c) = Some c"
  using optional_read[where d = trace_doc and f = trace_of and m = "cfg_trace c"]
  by (simp add: config_doc_def config_of_def attr_def sections_read scheduler_read[OF assms] trace_read) (simp add: trace_doc_def)

section \<open>What loading guarantees\<close>


definition demo_io :: "yaml \<Rightarrow> config_io" where
  "demo_io y = \<lparr>io_read_text = (\<lambda>_. Inr ''text''), io_safe_load = (\<lambda>_. Inr y), io_validate = strict_validate\<rparr>"


text \<open>A document that spells a valid configuration out loads as exactly that configuration.\<close>

lemma config_document_roundtrip:
  assumes "validates_as_documented (io_validate io)" "io_read_text io path = Inr raw" "io_safe_load io raw = Inr (config_doc ps cfg)"
    and "nano_kv_config_ok cfg" "sc_params (cfg_scheduler cfg) = map_of ps"
  shows "load_config io path = Inr cfg"
proof -
  have "or_empty (config_doc ps cfg) = config_doc ps cfg" by (simp add: or_empty_def config_doc_def)
  then have "load_model io nano_kv_fields path = Inr (config_doc ps cfg)"
    using assms(1-3) config_strict[OF assms(4)] by (simp add: load_model_def validates_as_documented_def del: strict.simps)
  then show ?thesis using config_read[OF assms(5)] by (simp add: load_config_def)
qed

lemma default_document_loads:
  "load_config (demo_io (config_doc [] nano_kv_config_default)) ''a.yaml'' = Inr nano_kv_config_default"
  by (rule config_document_roundtrip[where raw = "''text''" and ps = "[]"])
    (simp_all add: demo_io_def strict_validate_documented nano_kv_config_default_ok, simp add: nano_kv_config_default_def scheduler_config_default_def)








end
