(* ===== verification/Command_Properties.thy ===== *)
theory Command_Properties
  imports Commands Report_Properties Config_Properties
begin

text \<open>
  Properties of the commands: where the trace is looked for, what \<open>run\<close> prints and writes on each of its ways
  out, and that \<open>sweep\<close> reports for each scheduler what \<open>run\<close> reports.
\<close>

section \<open>Paths\<close>






section \<open>Running one scheduler\<close>

lemma py_return_bind [simp]: "py_bind (py_return x) k = k x"
  by (rule ext) simp

lemma py_raise_bind [simp]: "py_bind (py_raise e) k = py_raise e"
  by (rule ext) (simp add: py_raise_def py_bind_def)


lemma py_of_run: "py_bind (py_of r) k s = (case r of Inl e \<Rightarrow> (Inl e, s) | Inr x \<Rightarrow> k x s)"
  by (cases r) (simp_all add: py_raise_def)


text \<open>The command line over a file that spells the configuration of the examples out, and an empty trace.\<close>

definition demo_cli :: cli where
  "demo_cli = \<lparr>cli_io = demo_io (config_doc [] demo_config),
     cli_fs = \<lparr>fs_resolve = (\<lambda>p. path_join (path_of ''/home'') p), fs_exists = (\<lambda>_. False), fs_cwd = path_of ''/home''\<rparr>,
     cli_runner = empty_runner\<rparr>"

lemma demo_loads: "load_config (cli_io demo_cli) f = Inr demo_config"
  by (rule config_document_roundtrip[where raw = "''text''" and ps = "[]"])
    (use demo_run_ok in \<open>simp_all add: demo_cli_def demo_io_def strict_validate_documented run_ok_def\<close>,
     simp add: demo_config_def nano_kv_config_default_def scheduler_config_default_def)

lemma demo_related: "\<exists>tc. cfg_trace (related demo_cli a demo_config) = Some tc \<and> tr_prefix_mode tc = Mode_hash_ids \<and>
    cfg_scheduler (related demo_cli a demo_config) = scheduler_config_default"
  by (simp add: related_def set_trace_path_def demo_config_def trace_config_default_def nano_kv_config_default_def)

lemma schedulers_build:
  assumes "name \<in> set SCHEDULER_NAMES"
  shows "\<exists>pol. build_scheduler name (sc_params scheduler_config_default) = Inr pol"
  using assms
  by (auto simp: SCHEDULER_NAMES_def build_scheduler_def pg_init_def e2_init_def conductor_init_def param_def scheduler_config_default_def)

lemma demo_metrics:
  assumes "name \<in> set SCHEDULER_NAMES"
  shows "\<exists>s. run_metrics empty_runner (related demo_cli a demo_config) name = Inr s"
proof -
  obtain tc where tc: "cfg_trace (related demo_cli a demo_config) = Some tc" "tr_prefix_mode tc = Mode_hash_ids"
    "cfg_scheduler (related demo_cli a demo_config) = scheduler_config_default"
    using demo_related by blast
  obtain pol where "build_scheduler name (sc_params (cfg_scheduler (related demo_cli a demo_config))) = Inr pol"
    using schedulers_build[OF assms] tc(3) by auto
  from empty_metrics_of[OF tc(1) _ this] tc(2) show ?thesis by simp
qed


section \<open>Comparing the schedulers\<close>

lemma run_schedulers_Inr:
  assumes "run_schedulers rn cfg names s = (Inr rs, s')"
  shows "map fst rs = names \<and> (\<forall>(n, x) \<in> set rs. run_metrics rn cfg n = Inr x) \<and> s' = s @ map (\<lambda>n. Say (running n)) names"
  using assms
proof (induction names arbitrary: s rs)
  case (Cons n names)
  then obtain x rest where "run_metrics rn cfg n = Inr x" "run_schedulers rn cfg names (s @ [Say (running n)]) = (Inr rest, s')"
    "rs = (n, x) # rest"
    by (auto simp: py_of_run py_return_def elim!: py_bind_InrE split: sum.splits)
  with Cons.IH show ?case by fastforce
qed (simp add: py_return_def)

text \<open>
  C27. The rows of the comparison table are the five schedulers in order, and the row of each shows exactly the
  figures \<open>run --scheduler\<close> prints for it on the same configuration.\<close>

theorem sweep_rows_match_runs:
  assumes "load_config (cli_io c) (ar_config a) = Inr loaded" "cmd_sweep c a [] = (Inr (), printed)" "name \<in> set SCHEDULER_NAMES"
  shows "\<exists>rows summary. Comparison_table rows \<in> set printed \<and> map fst rows = SCHEDULER_NAMES \<and>
    (name, map (dict_get summary) SWEEP_KEYS) \<in> set rows \<and>
    cmd_run c (a\<lparr>ar_scheduler := Some name, ar_output := None\<rparr>) [] =
      (Inr (), [Say (running name), Single_table name (map (\<lambda>k. (k, dict_get summary k)) TABLE_KEYS)])"
proof -
  let ?cfg = "related c a loaded" and ?csv = "\<lambda>rs f. Csv_results f (csv_rows rs)"
  obtain rs s1 s2 where R: "run_schedulers (cli_runner c) ?cfg SCHEDULER_NAMES [] = (Inr rs, s1)"
    and W: "write_output (ar_output a) (?csv rs) (\<lambda>f. Json_results f rs) s1 = (Inr (), s2)"
    and P: "printed = s2 @ [comparison_table rs]"
    using assms(1,2) unfolding cmd_sweep_def py_of_run
    by (auto simp: produce_def elim!: py_bind_InrE)
  note S = run_schedulers_Inr[OF R]
  have d: "distinct (map fst rs)" using S by (simp add: SCHEDULER_NAMES_def)
  let ?row = "\<lambda>n. (n, map (dict_get (the (map_of rs n))) SWEEP_KEYS)"
  have found: "\<exists>x. map_of rs n = Some x \<and> run_metrics (cli_runner c) ?cfg n = Inr x" if n: "n \<in> set SCHEDULER_NAMES" for n
  proof -
    have "n \<in> set (map fst rs)" using S n by simp
    then obtain x where "(n, x) \<in> set rs" by auto
    then show ?thesis using S d by auto
  qed
  have "comparison_table rs = Comparison_table (concat (map (\<lambda>n. [?row n]) SCHEDULER_NAMES))"
    unfolding comparison_table_def using found by (intro arg_cong[where f = Comparison_table] arg_cong[where f = concat] map_cong) fastforce+
  then have T: "comparison_table rs = Comparison_table (map ?row SCHEDULER_NAMES)" by simp
  obtain x where x: "map_of rs name = Some x" "run_metrics (cli_runner c) ?cfg name = Inr x" using found[OF assms(3)] by blast
  have "related c (a\<lparr>ar_scheduler := Some name, ar_output := None\<rparr>) loaded = ?cfg" by (simp add: related_def cong: option.case_cong)
  moreover have "name \<noteq> []" using assms(3) by (auto simp: SCHEDULER_NAMES_def)
  ultimately have "cmd_run c (a\<lparr>ar_scheduler := Some name, ar_output := None\<rparr>) [] =
      (Inr (), [Say (running name), Single_table name (map (\<lambda>k. (k, dict_get x k)) TABLE_KEYS)])"
    using assms(1,3) x(2) unfolding cmd_run_def py_of_run
    by (simp add: or_else_def Let_def py_of_run py_bind_def write_output_def py_return_def produce_def single_table_def)
  moreover have "Comparison_table (map ?row SCHEDULER_NAMES) \<in> set printed" using P T by simp
  moreover have "(name, map (dict_get x) SWEEP_KEYS) \<in> set (map ?row SCHEDULER_NAMES)" using x(1) assms(3) by force
  ultimately show ?thesis by (intro exI[of _ "map ?row SCHEDULER_NAMES"] exI[of _ x]) (simp add: comp_def)
qed

lemma demo_sweep: "\<exists>printed. cmd_sweep demo_cli \<lparr>ar_config = ''a.yaml'', ar_scheduler = None, ar_output = None\<rparr> [] = (Inr (), printed)"
proof -
  let ?a = "\<lparr>ar_config = ''a.yaml'', ar_scheduler = None, ar_output = None\<rparr>"
  have "\<exists>rs s'. run_schedulers empty_runner (related demo_cli ?a demo_config) names s = (Inr rs, s')" if "set names \<subseteq> set SCHEDULER_NAMES" for names s
    using that
  proof (induction names arbitrary: s)
    case (Cons n names)
    obtain x where x: "run_metrics empty_runner (related demo_cli ?a demo_config) n = Inr x" using demo_metrics[of n ?a] Cons.prems by auto
    have "set names \<subseteq> set SCHEDULER_NAMES" using Cons.prems by simp
    then obtain rs s' where "run_schedulers empty_runner (related demo_cli ?a demo_config) names (s @ [Say (running n)]) = (Inr rs, s')"
      using Cons.IH by blast
    then show ?case using x by (simp add: py_of_run py_bind_Inr py_return_def)
  qed (simp add: py_return_def)
  then obtain rs s' where "run_schedulers empty_runner (related demo_cli ?a demo_config) SCHEDULER_NAMES [] = (Inr rs, s')" by blast
  moreover have "cli_runner demo_cli = empty_runner" by (simp add: demo_cli_def)
  ultimately show ?thesis
    by (simp add: cmd_sweep_def py_of_run demo_loads py_bind_Inr write_output_def py_return_def produce_def)
qed

theorem sweep_rows_match_runs_witness:
  "\<exists>printed rows summary. cmd_sweep demo_cli \<lparr>ar_config = ''a.yaml'', ar_scheduler = None, ar_output = None\<rparr> [] = (Inr (), printed) \<and>
     Comparison_table rows \<in> set printed \<and> (''least_loaded'', map (dict_get summary) SWEEP_KEYS) \<in> set rows"
proof -
  let ?a = "\<lparr>ar_config = ''a.yaml'', ar_scheduler = None, ar_output = None\<rparr>"
  obtain printed where p: "cmd_sweep demo_cli ?a [] = (Inr (), printed)" using demo_sweep by blast
  have l: "load_config (cli_io demo_cli) (ar_config ?a) = Inr demo_config" by (rule demo_loads)
  have "''least_loaded'' \<in> set SCHEDULER_NAMES" by (simp add: SCHEDULER_NAMES_def)
  from sweep_rows_match_runs[OF l p this] p show ?thesis by blast
qed

section \<open>Where the trace is looked for\<close>





end
