(* ===== verification/Cache_Room.thy ===== *)
theory Cache_Room
  imports Cache_Query
begin

text \<open>
  A cache with room to spare: every block a radix node owns is allocated, and the GPU tier has at least a
  given number of free blocks. Such a node never evicts; an admission takes at most one block more than
  the prompt fills, and the only exception that could end a run, the \<open>RuntimeError\<close> of the clean-up of a
  path with freed blocks, does not occur.
\<close>

section \<open>One node\<close>

definition all_live :: "node_cache \<Rightarrow> bool" where
  "all_live s \<longleftrightarrow> tree_blocks (fst s) \<subseteq> dom (block_tier (snd s))"

definition node_room :: "nat \<Rightarrow> nat \<Rightarrow> node_cache \<Rightarrow> bool" where
  "node_room cap k s \<longleftrightarrow> node_inv s \<and> all_live s \<and> caps (snd s) gpu = Some cap \<and> int k \<le> gpu_room (snd s)"

lemma node_roomD:
  assumes "node_room cap k (t, p)"
  shows "node_inv (t, p)" "tree_blocks t \<subseteq> dom (block_tier p)" "caps p gpu = Some cap" "int k \<le> gpu_room p"
  using assms by (simp_all add: node_room_def all_live_def)

lemma node_room_weaken: "node_room cap k s \<Longrightarrow> j \<le> k \<Longrightarrow> node_room cap j s"
  by (simp add: node_room_def)

lemma node_room_shape:
  assumes "node_room cap k (t, p)" "strip t' = strip t" "node_inv (t', p)"
  shows "node_room cap k (t', p)"
  using assms tree_blocks_shape[OF assms(2)] by (simp add: node_room_def all_live_def)

lemma node_room_repinned:
  assumes "node_room cap k (t, p)" "repinned p A d p'"
  shows "node_room cap k (t, p')"
  using assms repinned_node_inv[OF assms(2)] by (simp add: node_room_def all_live_def repinned_def caps_def gpu_room_def)

lemma room_used: "node_room cap k (t, p) \<Longrightarrow> gpu_used p + k \<le> cap"
  using gpu_room_used[of p cap] node_invD(2)[of t p] by (simp add: node_room_def)

lemma make_room_idle: "gpu_used p + need \<le> cap \<Longrightarrow> make_room (Suc f) cap need now (t, p) = (Inr (), (t, p))"
  by simp

lemma mint_all_live:
  "keeps (\<lambda>q. pool_inv q \<and> dom (block_tier p0) \<union> (pool_issued q - pool_issued p0) \<subseteq> dom (block_tier q)) (pool_mint n)"
  unfolding keeps_def
proof (intro allI impI)
  fix q
  assume I: "pool_inv q \<and> dom (block_tier p0) \<union> (pool_issued q - pool_issued p0) \<subseteq> dom (block_tier q)"
  obtain r q' where m: "pool_mint n q = (r, q')" by (cases "pool_mint n q")
  show "pool_inv (snd (pool_mint n q)) \<and>
      dom (block_tier p0) \<union> (pool_issued (snd (pool_mint n q)) - pool_issued p0) \<subseteq> dom (block_tier (snd (pool_mint n q)))"
  proof (cases r)
    case (Inl e)
    then have "q' = q" using gpu_source.mint_raises[of q n e q'] I m by blast
    then show ?thesis using I m by simp
  next
    case (Inr ids)
    have q: "pool_inv q" using I by blast
    have "dom (block_tier q') = dom (block_tier q) \<union> set ids"
      using allocate_Inr(3)[OF m[unfolded Inr pool_mint_def]] by (auto split: if_splits)
    then show ?thesis
      using I m gpu_source.mint_issued[OF q m[unfolded Inr]] gpu_source.mint_inv[OF q m[unfolded Inr]] by auto
  qed
qed

lemma insert_room:
  assumes s: "node_room cap (k + n + 1) (t, p)" and bs: "tree_block_size t = bs" "0 < bs"
    and al: "length aligned = n * bs" "0 < n" and r: "tree_insert pool_mint now aligned (t, p) = (r, (t', p'))"
  shows "\<exists>ids. r = Inr ids" "node_room cap k (t', p')"
proof -
  note S = node_roomD[OF s]
  have ne: "aligned \<noteq> []" using al bs(2) by auto
  have nb: "n_blocks t aligned = n" using bs al by (simp add: n_blocks_ceil)
  note N = node_insert[OF S(1) ne r]
  show "\<exists>ids. r = Inr ids" using N(4) S(4) nb by (cases r) auto
  obtain L where L: "tree_wf t L" using node_invD(1)[OF S(1)] by (auto simp: tree_ok_def)
  have post: "insert_post pool_issued gpu_room pool_inv t p aligned (r, (t', p'))"
    using gpu_source.tree_insert_post[OF L node_invD(2,3)[OF S(1)] ne] r by metis
  have "pool_inv p \<and> dom (block_tier p) \<union> (pool_issued p - pool_issued p) \<subseteq> dom (block_tier p)"
    using node_invD(2)[OF S(1)] by simp
  then have "dom (block_tier p) \<union> (pool_issued p' - pool_issued p) \<subseteq> dom (block_tier p')"
    using tree_insert_keeps[where mint = pool_mint and now = now and toks = aligned and s = "(t, p)", OF mint_all_live[of p]] r
    by (simp del: insert_loop.simps)
  moreover have "tree_blocks t' = tree_blocks t \<union> (pool_issued p' - pool_issued p)" using N(3) by (simp add: grows_def)
  ultimately have "all_live (t', p')" unfolding all_live_def fst_conv snd_conv using S(2) by blast
  moreover have "int k \<le> gpu_room p'" using post S(4) nb by (simp add: insert_post_def)
  moreover have "caps p' gpu = Some cap" using caps_frame[OF N(2)] S(3) by simp
  ultimately show "node_room cap k (t', p')" using N(1) by (simp add: node_room_def)
qed

lemma admit_slow_room:
  assumes s: "node_room cap (k + n + 1) (t, p)" and bs: "tree_block_size t = bs" "0 < bs"
    and al: "length aligned = n * bs" "0 < n"
  obtains s' where "admit_slow cap now aligned n (t, p) = (Inr (), s')" "node_room cap k s'"
proof -
  have u: "gpu_used p + (n + 1) \<le> cap" using room_used[OF s] by simp
  then have need: "gpu_used p + min (n + 1) cap \<le> cap" by simp
  obtain r t' p' where ins: "tree_insert pool_mint now aligned (t, p) = (r, (t', p'))"
    by (cases "tree_insert pool_mint now aligned (t, p)") auto
  note I = insert_room[OF s bs al ins]
  obtain ids where "r = Inr ids" using I(1) by blast
  then have "admit_slow cap now aligned n (t, p) = (Inr (), (t', p'))"
    using u ins make_room_idle[OF need]
    by (simp add: admit_slow_def Let_def py_bind_def py_return_def del: make_room.simps insert_loop.simps)
  then show thesis using I(2) that by blast
qed

text \<open>The blocks of a path are distinct and allocated.\<close>

lemma path_all_live:
  assumes "all_live (t, p)" "tree_wf t L" "path_blocks t a ids"
  shows "length (tiers_of p (take n ids)) = length (take n ids)"
proof -
  note P = path_blocks_facts(2,4)[OF assms(2,3)]
  have "{b \<in> set (take n ids). block_tier p b \<noteq> None} = set (take n ids)"
    using P(2) assms(1) in_set_takeD[of _ n ids] by (fastforce simp: all_live_def)
  then show ?thesis using P(1) by (simp add: tiers_of_length distinct_card)
qed

lemma matched_cached:
  assumes wf: "tree_wf t L" and a: "live t a" "L a = take m toks" "m \<le> length toks" and n: "length toks = n * bs" "n \<le> m div bs"
  shows "m = length toks" "toks \<in> cached t"
proof -
  have "n * bs \<le> m" using n(2) by (metis mult_le_mono1 div_times_less_eq_dividend le_trans)
  then show m: "m = length toks" using a(3) n(1) by simp
  then show "toks \<in> cached t" using cached_labels[OF wf] a(1,2) by auto
qed

lemma cached_match:
  assumes wf: "tree_wf t L" and c: "toks \<in> cached t" and m: "m \<le> length toks"
    and best: "\<And>x. live t x \<Longrightarrow> prefix (L x) toks \<Longrightarrow> length (L x) \<le> m"
  shows "m = length toks"
  using c m best cached_labels[OF wf] by (metis (mono_tags, lifting) imageE le_antisym mem_Collect_eq prefix_order.refl)

lemma admit_room:
  assumes s: "node_room cap (k + n + 1) (t, p)" and bs: "tree_block_size t = bs" "0 < bs"
    and al: "length aligned = n * bs" "0 < n"
  obtains s' where "admit_node bs cap now aligned (t, p) = (Inr (), s')" "node_room cap k s'"
proof -
  note S = node_roomD[OF s]
  have div: "length aligned div bs = n" "take (n * bs) aligned = aligned" using al bs(2) by simp_all
  show thesis
  proof (rule call_match_path_spec[OF S(1), of now aligned])
    fix m ids t1 a L
    assume M: "call_match_path now aligned (t, p) = (Inr (m, ids), (t1, p))" "strip t1 = strip t"
      "demoted (t, p) (t1, p)" "tree_wf t L" "m \<le> length aligned" "live t a" "L a = take m aligned" "path_blocks t a ids"
    have s1: "node_room cap (k + n + 1) (t1, p)" by (rule node_room_shape[OF s M(2) demotedD(1)[OF M(3)]])
    have bs1: "tree_block_size t1 = bs" using arg_cong[OF M(2), of tree_block_size] bs(1) by simp
    have run: "admit_node bs cap now aligned (t, p) =
       (if m div bs \<ge> n then
          (if length (tiers_of p (take n ids)) = n then (Inr (), (t1, p))
           else py_bind (call_purge_path aligned) (\<lambda>_. admit_slow cap now aligned n) (t1, p))
        else admit_slow cap now aligned n (t1, p))"
      using M(1) al(2) unfolding admit_node_def Let_def div py_bind_def by simp
    show thesis
    proof (cases "n \<le> m div bs")
      case True
      have "L a = aligned" using matched_cached(1)[OF M(4,6,7,5) al(1) True] M(7) by simp
      then have "n \<le> length ids" using path_blocks_length[OF M(4,8) bs(1), of "length aligned"] div(1) by simp
      then have "length (tiers_of p (take n ids)) = n" using path_all_live[OF _ M(4,8), of p n] S(2) by (simp add: all_live_def)
      then show thesis using run True node_room_weaken[OF s1, of k] that by simp
    next
      case False
      obtain s' where "admit_slow cap now aligned n (t1, p) = (Inr (), s')" "node_room cap k s'"
        by (rule admit_slow_room[OF s1 bs1 bs(2) al])
      then show thesis using run False that by simp
    qed
  qed
qed

text \<open>A prompt that is cached on a node without freed blocks gets its table.\<close>

lemma second_match:
  assumes s: "node_room cap k (t, p)" and bs: "tree_block_size t = bs" "0 < bs"
    and al: "length aligned = n * bs" and c: "aligned \<in> cached t"
  obtains m path t' where "call_match_path now aligned (t, p) = (Inr (m, path), (t', p))" "m div bs = n"
    "length (tiers_of p (take n path)) = n" "distinct (take n path)" "\<forall>b \<in> set (take n path). block_tier p b \<noteq> None"
    "node_room cap k (t', p)"
proof (rule call_match_path_spec[OF node_roomD(1)[OF s], of now aligned])
  fix m path t' a L
  assume M: "call_match_path now aligned (t, p) = (Inr (m, path), (t', p))" "strip t' = strip t"
    "demoted (t, p) (t', p)" "tree_wf t L" "m \<le> length aligned" "live t a" "L a = take m aligned" "path_blocks t a path"
    "\<And>x. live t x \<Longrightarrow> prefix (L x) aligned \<Longrightarrow> length (L x) \<le> m"
  have m: "m = length aligned" by (rule cached_match[OF M(4) c M(5) M(9)])
  then have d: "m div bs = n" using al bs(2) by simp
  have "length (L a) = m" using M(5,7) by simp
  then have len: "n \<le> length path" using path_blocks_length[OF M(4,8) bs(1)] d by metis
  have "length (tiers_of p (take n path)) = length (take n path)"
    by (rule path_all_live[OF _ M(4,8)]) (use s in \<open>simp add: node_room_def\<close>)
  moreover have "length (take n path) = n" using len by simp
  moreover have "distinct (take n path)" using path_blocks_facts(2)[OF M(4,8)] by simp
  moreover have "\<forall>b \<in> set (take n path). block_tier p b \<noteq> None"
    using path_blocks_facts(4)[OF M(4,8)] node_roomD(2)[OF s] in_set_takeD[of _ n path] by fastforce
  ultimately show thesis using that[OF M(1) d] node_room_shape[OF s M(2) demotedD(1)[OF M(3)]] by simp
qed

lemma materialize_rest_room:
  assumes s: "node_room cap (k + n + 1) (t, p)" and bs: "tree_block_size t = bs" "0 < bs"
    and al: "length aligned = n * bs" "0 < n" and pre: "length pre = n \<Longrightarrow> aligned \<in> cached t" "length pre \<le> n"
  obtains ids s' where "materialize_rest bs cap now aligned n pre (t, p) = (Inr ids, s')" "node_room cap k s'"
proof -
  obtain s1 where A: "(if length pre < n then admit_node bs cap now aligned else py_return ()) (t, p) = (Inr (), s1)"
    "node_room cap k s1" "tree_block_size (fst s1) = bs" "aligned \<in> cached (fst s1)"
  proof (cases "length pre < n")
    case True
    obtain s1 where R: "admit_node bs cap now aligned (t, p) = (Inr (), s1)" "node_room cap k s1" by (rule admit_room[OF s bs al])
    have "admit_post (take (length aligned div bs * bs) aligned) (t, p) (admit_node bs cap now aligned (t, p))"
      by (rule admit_node_post[OF node_roomD(1)[OF s] bs(2)]) (use al bs in simp)
    then show thesis using R True al bs by (intro that[of s1]) (simp_all add: admit_post_def)
  next
    case False
    then show thesis using that[of "(t, p)"] node_room_weaken[OF s, of k] pre bs(1) by (simp add: py_return_def)
  qed
  obtain t1 p1 where s1: "s1 = (t1, p1)" by (cases s1)
  show thesis
  proof (rule second_match[OF A(2)[unfolded s1] _ bs(2) al(1), of now])
    fix m path t2
    assume M: "call_match_path now aligned (t1, p1) = (Inr (m, path), (t2, p1))" "m div bs = n"
      "length (tiers_of p1 (take n path)) = n" "distinct (take n path)" "\<forall>b \<in> set (take n path). block_tier p1 b \<noteq> None"
      "node_room cap k (t2, p1)"
    let ?new = "filter (\<lambda>b. b \<notin> set pre) (take n path)"
    obtain p3 where R: "retain_blocks ?new (t2, p1) = (Inr (), (t2, p3))" "repinned p1 (set ?new) 1 p3"
      using retain_blocks_spec[OF node_invD(2)[OF node_roomD(1)[OF M(6)]], of ?new t2] M(4,5) by auto
    have "materialize_rest bs cap now aligned n pre (t, p) = (Inr (take n path), (t2, p3))"
      unfolding materialize_rest_def using A(1) s1 M(1-3) R(1) by (simp add: py_bind_def py_return_def)
    then show thesis using that node_room_repinned[OF M(6) R(2)] by blast
  qed (use A s1 in simp_all)
qed

lemma materialize_node_room:
  assumes s: "node_room cap (k + n + 1) (t, p)" and bs: "tree_block_size t = bs" "0 < bs"
    and al: "length aligned = n * bs" "0 < n"
  obtains ids j s' where "materialize_node bs cap now aligned n (t, p) = (Inr (ids, j), s')" "node_room cap k s'"
proof (rule call_match_path_spec[OF node_roomD(1)[OF s], of now aligned])
  fix m path t1 a L
  assume M: "call_match_path now aligned (t, p) = (Inr (m, path), (t1, p))" "strip t1 = strip t"
    "demoted (t, p) (t1, p)" "tree_wf t L" "m \<le> length aligned" "live t a" "L a = take m aligned" "path_blocks t a path"
  let ?pre = "takeWhile (\<lambda>b. tier_of p b \<noteq> None) (take (min (m div bs) n) path)"
  have pre: "live_prefix_block_ids bs now aligned n (t, p) = (Inr ?pre, (t1, p))"
    using M(1) by (simp add: live_prefix_block_ids_def py_bind_def)
  have s1: "node_room cap (k + n + 1) (t1, p)" by (rule node_room_shape[OF s M(2) demotedD(1)[OF M(3)]])
  have bs1: "tree_block_size t1 = bs" using arg_cong[OF M(2), of tree_block_size] bs(1) by simp
  have le: "length ?pre \<le> min (m div bs) n"
    by (rule order_trans[OF length_takeWhile_le]) (unfold length_take, rule min.cobounded2)
  have "distinct ?pre" using path_blocks_facts(2)[OF M(4,8)] by (simp add: distinct_takeWhile)
  moreover have "\<forall>b \<in> set ?pre. block_tier p b \<noteq> None" by (auto simp: tier_of_def dest: set_takeWhileD)
  ultimately obtain p1 where R: "retain_blocks ?pre (t1, p) = (Inr (), (t1, p1))" "repinned p (set ?pre) 1 p1"
    using retain_blocks_spec[OF node_invD(2)[OF node_roomD(1)[OF s]]] by metis
  have c: "aligned \<in> cached t1" if "length ?pre = n"
    unfolding cached_shape[OF M(2)] by (rule matched_cached(2)[OF M(4,6,7,5) al(1)]) (use that le in simp)
  obtain ids s' where "materialize_rest bs cap now aligned n ?pre (t1, p1) = (Inr ids, s')" "node_room cap k s'"
    by (rule materialize_rest_room[OF node_room_repinned[OF s1 R(2)] bs1 bs(2) al c]) (use le in auto)
  then show thesis using pre R(1) that by (simp add: materialize_node_def py_bind_def)
qed

section \<open>All nodes\<close>

definition cm_room :: "model_config \<Rightarrow> nat \<Rightarrow> cache_manager \<Rightarrow> bool" where
  "cm_room mc k c \<longleftrightarrow> cm_inv c \<and> model_cfg c = mc \<and>
     (\<forall>n t p. map_of (trees c) n = Some t \<longrightarrow> pools c n = Some p \<longrightarrow> node_room (gpu_capacity c n) k (t, p))"

text \<open>The blocks a prompt may take.\<close>

definition kv_need :: "nat \<Rightarrow> nat \<Rightarrow> nat" where
  "kv_need bs len = len div bs + 1"

lemma cm_room_weaken: "cm_room mc k c \<Longrightarrow> j \<le> k \<Longrightarrow> cm_room mc j c"
  unfolding cm_room_def using node_room_weaken by blast

lemma cm_room_update:
  assumes c: "cm_room mc k c" and n: "map_of (trees c) n = Some t" and s: "node_room (gpu_capacity c n) j (t', p')" and jk: "j \<le> k"
    and inv: "cm_inv c'"
    and c': "trees c' = AList.update n t' (trees c)" "pools c' = (pools c)(n \<mapsto> p')" "cm_capacity c' = cm_capacity c"
      "model_cfg c' = model_cfg c"
  shows "cm_room mc j c'"
proof -
  have cap: "gpu_capacity c' m = gpu_capacity c m" for m by (simp add: gpu_capacity_def c'(3))
  have "node_room (gpu_capacity c' m) j (t0, p0)" if "map_of (trees c') m = Some t0" "pools c' m = Some p0" for m t0 p0
    using that c s node_room_weaken[OF _ jk] unfolding c'(1,2) cap cm_room_def by (auto simp: update_conv' split: if_splits)
  then show ?thesis using inv c c'(4) by (simp add: cm_room_def)
qed

lemma cm_init_room:
  assumes "model_config_ok mc" "\<And>n. inj (src n)" "k \<le> gpu_blocks nc"
  shows "cm_room mc k (cm_init ns mc nc bw t0 src)"
proof -
  let ?c = "cm_init ns mc nc bw t0 src"
  have "node_room (gpu_capacity ?c n) k (t, p)" if "map_of (trees ?c) n = Some t" "pools ?c n = Some p" for n t p
  proof -
    have n: "n \<in> set ns" "t = tree_init (block_size mc) t0" using that(1) by (simp_all add: cm_init_trees split: if_splits)
    then have p: "p = pool_init nc (src n)" using that(2) by (simp add: cm_init_def)
    have "tree_blocks t = {}" by (simp add: n tree_blocks_def registered_def tree_init_def)
    moreover have "caps p gpu = Some (gpu_blocks nc)" "gpu_room p = int (gpu_blocks nc)"
      by (simp_all add: p pool_init_def caps_def gpu_room_def tier_free_def tier_used_def)
    moreover have "gpu_capacity ?c n = gpu_blocks nc" using n(1) by (simp add: gpu_capacity_def cm_init_def)
    moreover have "node_inv (t, p)" unfolding n p by (rule node_inv_init[OF assms(2)])
    ultimately show ?thesis using assms(3) by (simp add: node_room_def all_live_def)
  qed
  then show ?thesis using cm_init_inv[OF assms(1,2)] by (auto simp: cm_room_def cm_init_def)
qed

lemma lookup_room: "keeps (cm_room mc k) (lookup now req n)"
  unfolding keeps_def
proof (intro allI impI)
  fix c assume c: "cm_room mc k c"
  then have inv: "cm_inv c" by (simp add: cm_room_def)
  show "cm_room mc k (snd (lookup now req n c))"
  proof (cases "map_of (trees c) n = None")
    case True
    then show ?thesis using c by (simp add: lookup_def on_node_def)
  next
    case False
    obtain t p where n: "map_of (trees c) n = Some t" "pools c n = Some p" by (rule cm_nodeE[OF inv False])
    have s: "node_room (gpu_capacity c n) k (t, p)" using c n by (simp add: cm_room_def)
    show ?thesis
    proof (rule lookup_run[OF inv n, of now req])
      fix m path t' a L
      let ?c = "c\<lparr>trees := AList.update n t' (trees c), pools := (pools c)(n \<mapsto> p)\<rparr>"
      assume M: "lookup now req n c = (Inr (summarise (model_cfg c) (bw_cfg c) m path p), ?c)" "strip t' = strip t" "cm_inv ?c"
      have "node_inv (t', p)" using cm_invD(4)[OF M(3), of n t' p] by (simp add: node_ready_def update_conv')
      from cm_room_update[OF c n(1) node_room_shape[OF s M(2) this] order_refl M(3)] show ?thesis by (simp add: M(1))
    qed
  qed
qed

lemma lookup_each_room: "keeps (cm_room mc k) (lookup_each now req ns)"
proof (induction ns)
  case (Cons n ns)
  have "lookup_each now req (n # ns) = py_bind (lookup now req n) (\<lambda>c. py_bind (lookup_each now req ns) (\<lambda>cs. py_return ((n, c) # cs)))"
    by (rule ext) simp
  then show ?case using lookup_room Cons by (simp add: keeps_rules)
qed (simp add: keeps_def)

lemma lookup_all_room: "keeps (cm_room mc k) (lookup_all now req)"
  using lookup_each_room unfolding keeps_def lookup_all_def by blast

lemma release_room: "keeps (cm_room mc k) (release_request r n)"
  unfolding keeps_def
proof (intro allI impI)
  fix c assume c: "cm_room mc k c"
  then have inv: "cm_inv c" by (simp add: cm_room_def)
  show "cm_room mc k (snd (release_request r n c))"
  proof (cases "block_tables c (n, r)")
    case None
    then show ?thesis using c by (auto simp: release_request_def)
  next
    case (Some tb)
    obtain t p where n: "map_of (trees c) n = Some t" "pools c n = Some p" by (rule cm_nodeE[OF inv cm_invD(5)[OF inv Some]])
    have s: "node_room (gpu_capacity c n) k (t, p)" using c n by (simp add: cm_room_def)
    obtain c' where R: "release_request r n c = (Inr (), c')" "cm_inv c'" by (rule release_run[OF inv Some])
    have "fst (snd (release_blocks (bt_block_ids tb) (t, p))) = t" by (simp add: release_blocks_def split: prod.splits)
    then obtain x p' where rel: "release_blocks (bt_block_ids tb) (t, p) = (x, (t, p'))" by (metis prod.collapse)
    have c': "c' = c\<lparr>trees := AList.update n t (trees c), pools := (pools c)(n \<mapsto> p'), block_tables := (block_tables c)((n, r) := None)\<rparr>"
      and x: "x = Inr ()"
      using R(1) n Some rel by (auto simp: release_request_def on_node_def)
    have "node_inv (t, p')" using cm_invD(4)[OF R(2), of n t p'] by (simp add: c' node_ready_def update_conv')
    moreover have "p' = p \<or> p' = fold (bump (- 1)) (bt_block_ids tb) p"
      using rel x unpin_Inr(1)[of "bt_block_ids tb" p _ p'] by (auto simp: release_blocks_def split: if_splits prod.splits)
    then have "block_tier p' = block_tier p" "tiers p' = tiers p" by auto
    ultimately have "node_room (gpu_capacity c n) k (t, p')" using s by (simp add: node_room_def all_live_def caps_def gpu_room_def)
    from cm_room_update[OF c n(1) this order_refl R(2)] show ?thesis by (simp add: R(1) c')
  qed
qed

text \<open>With room for the prompt, an active table is created, and only that room is used up.\<close>

lemma materialize_room:
  assumes c: "cm_room mc (k + kv_need (block_size mc) (length toks)) c" and n: "n \<in> cm_nodes c"
    and key: "block_tables c (n, r) = None"
  obtains tb c' where "materialize_request now r toks n c = (Inr tb, c')" "cm_room mc k c'"
proof -
  let ?bs = "block_size mc" and ?n = "length toks div block_size mc"
  let ?al = "take (?n * ?bs) toks"
  have inv: "cm_inv c" and mc: "model_cfg c = mc" using c by (simp_all add: cm_room_def)
  obtain t p where tp: "map_of (trees c) n = Some t" "pools c n = Some p" "node_ready c n t p"
    by (rule cm_nodeE[OF inv, of n]) (use n in \<open>auto simp: cm_nodes_def\<close>)
  obtain x c' where m: "materialize_request now r toks n c = (x, c')" by (cases "materialize_request now r toks n c")
  show thesis
  proof (cases "?n = 0")
    case True
    then obtain tb where x: "x = Inr tb"
      and c': "trees c' = trees c \<and> pools c' = pools c \<and> cm_capacity c' = cm_capacity c \<and> model_cfg c' = model_cfg c"
      using m tp key by (auto simp: mc materialize_request_def aligned_tokens_def Let_def)
    have "cm_inv c'" by (rule materialize_keeps_inv[OF inv m]) (simp add: x)
    then have "cm_room mc k c'" using cm_room_weaken[OF c, of k] c' by (simp add: cm_room_def gpu_capacity_def)
    then show thesis using that m x by blast
  next
    case False
    have len: "length ?al = ?n * ?bs" by (simp add: min_absorb2 div_times_less_eq_dividend)
    have s: "node_room (gpu_capacity c n) (k + ?n + 1) (t, p)" using c tp(1,2) by (simp add: cm_room_def kv_need_def add.assoc)
    obtain ids j s' where R: "materialize_node ?bs (gpu_capacity c n) now ?al ?n (t, p) = (Inr (ids, j), s')"
      "node_room (gpu_capacity c n) k s'"
      by (rule materialize_node_room[OF s _ cm_invD(1)[OF inv, unfolded mc] len]) (use tp(3) False mc in \<open>auto simp: node_ready_def\<close>)
    obtain t' p' where s': "s' = (t', p')" by (cases s')
    obtain tb where res: "x = Inr tb" "trees c' = AList.update n t' (trees c)" "pools c' = (pools c)(n \<mapsto> p')"
      "cm_capacity c' = cm_capacity c" "model_cfg c' = model_cfg c"
      using m R(1) tp(1,2) key False s' by (auto simp: mc materialize_request_def aligned_tokens_def on_node_run Let_def)
    have "cm_inv c'" by (rule materialize_keeps_inv[OF inv m]) (simp add: res(1))
    from cm_room_update[OF c tp(1) R(2)[unfolded s'] _ this res(2-5)] have "cm_room mc k c'" by simp
    then show thesis using that m res(1) by blast
  qed
qed

end
