(* ===== verification/Sim_Room.thy ===== *)
theory Sim_Room
  imports Sim_Run Cache_Room
begin

text \<open>
  A simulation with room to spare: the cache manager can store every prompt still to come, the nodes have
  a slot for every request and the policy turns none down. No handler then rejects a request or raises.
\<close>

section \<open>What the handlers leave alone\<close>

text \<open>The events that only the arrival source and a rejection schedule.\<close>

definition outer :: "payload event \<Rightarrow> bool" where
  "outer ev \<longleftrightarrow> ev_type ev = REQUEST_ARRIVE \<or> ev_type ev = REQUEST_REJECTED"

text \<open>The one policy that rejects requests although there are nodes.\<close>

definition picky :: "policy \<Rightarrow> bool" where
  "picky pol \<longleftrightarrow> (case pol of Conductor _ \<Rightarrow> True | _ \<Rightarrow> False)"

definition outer_view :: "engine \<Rightarrow> payload event list \<times> time" where
  "outer_view e = (filter outer (ev_queue e), current_time e)"

definition calm :: "model_config \<Rightarrow> nat \<Rightarrow> nat \<Rightarrow> payload event list \<times> time \<Rightarrow> world \<times> engine \<Rightarrow> bool" where
  "calm mc k N q s \<longleftrightarrow> cm_room mc k (w_cm (fst s)) \<and>
     (\<forall>n nd. w_nodes (fst s) n = Some nd \<longrightarrow> N \<le> capacity (mn_config nd)) \<and> \<not> picky (w_sched (fst s)) \<and>
     prefill_ids (fst s) \<noteq> [] \<and> decode_ids (fst s) \<noteq> [] \<and> outer_view (snd s) = q"

lemma calmD:
  assumes "calm mc k N q (w, e)"
  shows "cm_room mc k (w_cm w)" "w_nodes w n = Some nd \<Longrightarrow> N \<le> capacity (mn_config nd)" "\<not> picky (w_sched w)"
    "prefill_ids w \<noteq> []" "decode_ids w \<noteq> []" "outer_view e = q"
  using assms by (simp_all add: calm_def)

lemma keeps_bind_post:
  assumes "keeps I m" "\<And>s x s'. I s \<Longrightarrow> m s = (Inr x, s') \<Longrightarrow> P x" "\<And>x. P x \<Longrightarrow> keeps I (k x)"
  shows "keeps I (py_bind m k)"
  unfolding keeps_def
proof (intro allI impI)
  fix s assume s: "I s"
  show "I (snd (py_bind m k s))"
  proof (rule keeps_bindI)
    show "I (snd (m s))" using assms(1) s by (simp add: keeps_def)
    show "I (snd (k x s'))" if "m s = (Inr x, s')" "I s'" for x s'
      using assms(3)[OF assms(2)[OF s that(1)]] that(2) by (simp add: keeps_def)
  qed
qed

lemma keeps_except [keeps_rules]: "keeps I m \<Longrightarrow> keeps I (py_except m err x)"
  unfolding keeps_def
proof (intro allI impI)
  fix s assume m: "\<forall>s. I s \<longrightarrow> I (snd (m s))" and s: "I s"
  obtain r s' where r: "m s = (r, s')" by fastforce
  then have "I s'" using m s by (metis snd_conv)
  then show "I (snd (py_except m err x s))" by (cases r) (simp_all add: py_except_def r)
qed

lemma reads_keep [keeps_rules]:
  "keeps I (get_w f)" "keeps I clock" "keeps I (assert_in n ids)"
  by (simp_all add: keeps_def get_w_def clock_def assert_in_def)

lemma the_key_keeps [keeps_rules]: "keeps I (the_key x)"
  by (cases x) (simp_all add: the_key_def keeps_rules)

lemma emit_calm [keeps_rules]: "\<not> (ty = REQUEST_ARRIVE \<or> ty = REQUEST_REJECTED) \<Longrightarrow> keeps (calm mc k N q) (emit t ty pl)"
  by (auto simp: keeps_def emit_def schedule_def heappush_def calm_def outer_view_def outer_def mk_event_def)

lemma upd_w_calm:
  assumes "\<And>w. w_cm (f w) = w_cm w \<and> w_nodes (f w) = w_nodes w \<and> w_sched (f w) = w_sched w \<and>
    prefill_ids (f w) = prefill_ids w \<and> decode_ids (f w) = decode_ids w"
  shows "keeps (calm mc k N q) (upd_w f)"
  using assms by (simp add: keeps_def upd_w_def calm_def)

lemma next_id_calm [keeps_rules]: "keeps (calm mc k N q) (next_transfer_id r)"
  by (simp add: keeps_def next_transfer_id_def Let_def calm_def)

lemma with_cm_calm: "(\<And>t. keeps (cm_room mc k) (m t)) \<Longrightarrow> keeps (calm mc k N q) (with_cm m)"
  unfolding keeps_def with_cm_def calm_def by (auto split: prod.splits) (metis snd_conv)

lemma lookup_calm [keeps_rules]: "keeps (calm mc k N q) (with_cm (\<lambda>t. lookup t req n))"
  by (rule with_cm_calm) (rule lookup_room)

lemma release_calm [keeps_rules]: "keeps (calm mc k N q) (with_cm (\<lambda>_. release_request r n))"
  by (rule with_cm_calm) (rule release_room)

section \<open>Operations of a node\<close>

text \<open>No operation of a node changes its configuration.\<close>

definition same_config :: "(mock_node, 'a) py \<Rightarrow> bool" where
  "same_config m \<longleftrightarrow> (\<forall>nd. mn_config (snd (m nd)) = mn_config nd)"

lemma with_node_calm [keeps_rules]:
  assumes "same_config m"
  shows "keeps (calm mc k N q) (with_node n m)"
  unfolding keeps_def
proof (intro allI impI)
  fix s assume s: "calm mc k N q s"
  have "mn_config nd' = mn_config nd" if "m nd = (r, nd')" for nd r nd'
    using assms that unfolding same_config_def by (metis snd_conv)
  then show "calm mc k N q (snd (with_node n m s))"
    using s by (auto simp: calm_def with_node_def split: option.splits prod.splits)
qed

lemma advance_config: "mn_config (snd (advance_streams rs s)) = mn_config s"
proof (induction rs arbitrary: s)
  case (Cons r rs)
  have "mn_config s' = mn_config s0" if "advance_streams rs s0 = (x, s')" for s0 x s' using Cons.IH[of s0] that by simp
  then show ?case by (auto simp: Let_def py_bind_def py_return_def split: option.splits prod.splits sum.splits)
qed simp

lemma finish_config: "finish_prefill s = (p, s') \<Longrightarrow> mn_config s' = mn_config s"
  by (auto simp: finish_prefill_def split: list.splits if_splits)

lemma promoted_config: "promote_next s = (p, s') \<Longrightarrow> mn_config s' = mn_config s"
  by (auto simp: promote_next_def split: list.splits if_splits)

lemma node_configs [keeps_rules]:
  "same_config (mn_admit r i pl ul)" "same_config mark_batch_step_scheduled" "same_config mark_batch_step_completed"
  "same_config (start_decode r)" "same_config (init_promoted r i pl ul)" "same_config (enter_prefill r u)"
  "same_config (mark_prefill_done r)" "same_config (tick_batch_step t)" "same_config (complete r)"
proof -
  show "same_config (tick_batch_step t)"
    unfolding same_config_def
  proof
    fix nd
    obtain x s' where a: "advance_streams (sorted_list_of_set (decoding nd)) (consume_chunk nd) = (x, s')" by fastforce
    have "mn_config s' = mn_config nd" using advance_config[of "sorted_list_of_set (decoding nd)" "consume_chunk nd"] a by simp
    then show "mn_config (snd (tick_batch_step t nd)) = mn_config nd"
      using finish_config by (auto simp: tick_batch_step_def py_bind_def Let_def a split: prod.splits sum.splits) 
  qed
  show "same_config (complete r)"
    by (auto simp: same_config_def complete_def dest!: promoted_config split: prod.splits)
qed (simp_all add: same_config_def mn_admit_def Let_def mark_batch_step_scheduled_def mark_batch_step_completed_def
    start_decode_def init_promoted_def enter_prefill_def mark_prefill_done_def)

section \<open>The scheduler\<close>

lemma place_accepts: "place env backlog t req p d m = Inr x \<Longrightarrow> \<not> is_rejected x"
  by (auto simp: place_def accept_def is_rejected_def split: sum.splits)

lemma easy_policies_accept:
  assumes "\<not> picky (fst s)" "ps \<noteq> []" "ds \<noteq> []" "policy_schedule env cq backlog t req ps ds s = (Inr d, s')"
  shows "\<not> is_rejected d"
proof (cases "fst s")
  case (Round_robin st)
  then show ?thesis using assms place_accepts
    by (fastforce simp: policy_schedule_def rr_schedule_def Let_def split: prod.splits sum.splits)
next
  case Least_loaded
  then show ?thesis using assms place_accepts
    by (fastforce simp: policy_schedule_def keep_policy_def ll_schedule_def Let_def split: prod.splits sum.splits)
next
  case (Prefix_greedy h)
  then show ?thesis using assms place_accepts
    by (fastforce simp: policy_schedule_def keep_policy_def pg_schedule_def Let_def split: prod.splits sum.splits)
next
  case (E2 wt)
  then show ?thesis using assms place_accepts
    by (fastforce simp: policy_schedule_def keep_policy_def e2_schedule_def Let_def split: prod.splits sum.splits)
qed (use assms in \<open>simp add: picky_def\<close>)

text \<open>A policy changes the cache by lookups only, and never turns into another policy.\<close>

lemma policy_keeps:
  assumes look: "\<And>n. keeps I (cq_lookup cq req n)" "keeps I (cq_lookup_all cq req)" and s: "I (snd s)"
    and r: "policy_schedule env cq backlog t req ps ds s = (x, s')"
  shows "I (snd s')" "picky (fst s') = picky (fst s)"
proof -
  have l: "I c'" if "lookup_or_cold cq req n c = (y, c')" "I c" for n c y c'
    using that keepsD[OF look(1)] by (fastforce simp: lookup_or_cold_def split: prod.splits sum.splits if_splits)
  have a: "I c'" if "cq_lookup_all cq req c = (y, c')" "I c" for c y c' using keepsD[OF look(2) that(2,1)] .
  have "I (snd s') \<and> picky (fst s') = picky (fst s)"
  proof (cases "fst s")
    case (Round_robin st)
    then show ?thesis using r s l
      by (fastforce simp: policy_schedule_def rr_schedule_def Let_def picky_def split: prod.splits sum.splits if_splits)
  next
    case Least_loaded
    then show ?thesis using r s l
      by (fastforce simp: policy_schedule_def keep_policy_def ll_schedule_def Let_def picky_def split: prod.splits sum.splits if_splits)
  next
    case (Prefix_greedy h)
    then show ?thesis using r s a
      by (fastforce simp: policy_schedule_def keep_policy_def pg_schedule_def Let_def picky_def split: prod.splits sum.splits if_splits)
  next
    case (E2 wt)
    then show ?thesis using r s a
      by (fastforce simp: policy_schedule_def keep_policy_def e2_schedule_def Let_def picky_def split: prod.splits sum.splits if_splits)
  next
    case (Conductor wt)
    then show ?thesis using r s a
      by (fastforce simp: policy_schedule_def keep_policy_def conductor_schedule_def Let_def picky_def split: prod.splits sum.splits if_splits)
  qed
  then show "I (snd s')" "picky (fst s') = picky (fst s)" by simp_all
qed

lemma run_scheduler_calm:
  assumes "calm mc k N q s" "run_scheduler req s = (x, s')"
  shows "calm mc k N q s'" "x = Inr d \<Longrightarrow> \<not> is_rejected d"
proof -
  obtain w e where s: "s = (w, e)" by (cases s)
  note C = calmD[OF assms(1)[unfolded s]]
  let ?cq = "\<lparr>cq_lookup = lookup (now e), cq_lookup_all = lookup_all (now e), cq_free_blocks = free_blocks\<rparr>"
  obtain pol' c' where p: "policy_schedule (w_env w) ?cq (peek_backlog (w_transfer w)) (now e) req (node_list w (prefill_ids w))
      (node_list w (decode_ids w)) (w_sched w, w_cm w) = (x, (pol', c'))" and s': "s' = (w\<lparr>w_sched := pol', w_cm := c'\<rparr>, e)"
    using assms(2) by (auto simp: s run_scheduler_def split: prod.splits)
  have "cm_room mc k c'" "picky pol' = picky (w_sched w)"
    using policy_keeps[where I = "cm_room mc k", OF _ _ _ p] lookup_room lookup_all_room C(1) by simp_all
  then show "calm mc k N q s'" using assms(1) by (simp add: s s' calm_def)
  show "\<not> is_rejected d" if "x = Inr d"
    by (rule easy_policies_accept[OF _ _ _ p[unfolded that]]) (use C in \<open>simp_all add: node_list_def\<close>)
qed

section \<open>The handlers\<close>

lemma emit_event_calm [keeps_rules]:
  "keeps (calm mc k N q) (emit t SCHEDULED pl)" "keeps (calm mc k N q) (emit t PREFILL_START pl)"
  "keeps (calm mc k N q) (emit t PREFILL_COMPLETE pl)" "keeps (calm mc k N q) (emit t KV_TRANSFER_START pl)"
  "keeps (calm mc k N q) (emit t KV_TRANSFER_COMPLETE pl)" "keeps (calm mc k N q) (emit t TOKEN_GENERATED pl)"
  "keeps (calm mc k N q) (emit t DECODE_BATCH_STEP pl)" "keeps (calm mc k N q) (emit t DECODE_COMPLETE pl)"
  by (rule emit_calm; simp)+

lemma helpers_calm [keeps_rules]:
  "keeps (calm mc k N q) (compute_uncached_tokens req n)" "keeps (calm mc k N q) (compute_n_chunks req n c)"
  "keeps (calm mc k N q) (wake_batch_step n t)" "keeps (calm mc k N q) (start_prefill_event r n req m)"
  "keeps (calm mc k N q) (start_promoted n r)"
proof -
  show u: "keeps (calm mc k N q) (compute_uncached_tokens req n)" for req n
    unfolding compute_uncached_tokens_def by (intro keeps_rules)
  show c: "keeps (calm mc k N q) (compute_n_chunks req n c)" for req n c
    unfolding compute_n_chunks_def by (intro keeps_rules u)
  show "keeps (calm mc k N q) (wake_batch_step n t)"
    unfolding wake_batch_step_def by (intro keeps_rules)
  show p: "keeps (calm mc k N q) (start_prefill_event r n req m)" for r n req m
    unfolding start_prefill_event_def by (intro keeps_rules c)
  show "keeps (calm mc k N q) (start_promoted n r)"
    unfolding start_promoted_def by (intro keeps_rules u p)
qed

lemma start_transfer_calm [keeps_rules]: "keeps (calm mc k N q) (start_transfer r req d)"
  unfolding start_transfer_def Let_def by (intro keeps_rules upd_w_calm) simp_all

lemma emit_tokens_calm [keeps_rules]: "keeps (calm mc k N q) (emit_tokens n t rs)"
proof (induction rs)
  case (Cons r rs)
  then show ?case unfolding emit_tokens.simps by (intro keeps_rules)
qed (simp add: keeps_rules)

lemma emit_completions_calm [keeps_rules]: "keeps (calm mc k N q) (emit_completions n t rs)"
proof (induction rs)
  case (Cons r rs)
  then show ?case unfolding emit_completions.simps by (intro keeps_rules)
qed (simp add: keeps_rules)

lemma finish_prefill_calm [keeps_rules]: "keeps (calm mc k N q) (finish_prefill_event n t p)"
  unfolding finish_prefill_event_def by (intro keeps_rules)

lemma on_arrive_calm: "keeps (calm mc k N q) (on_arrive ev)"
proof -
  have "keeps (calm mc k N q) (run_scheduler req)" for req
    unfolding keeps_def using run_scheduler_calm(1) by (metis prod.collapse)
  then show ?thesis
    unfolding on_arrive_def
    by (intro keeps_rules keeps_bind_post[where P = "\<lambda>d. \<not> is_rejected d"] upd_w_calm)
      (use run_scheduler_calm(2) in \<open>auto\<close>)
qed

lemma handlers_calm:
  "keeps (calm mc k N q) (on_prefill_start ev)" "keeps (calm mc k N q) (on_prefill_complete ev)"
  "keeps (calm mc k N q) (on_decode_batch_step ev)" "keeps (calm mc k N q) (on_decode_complete ev)"
proof -
  show "keeps (calm mc k N q) (on_prefill_start ev)"
    unfolding on_prefill_start_def by (intro keeps_rules)
  show "keeps (calm mc k N q) (on_prefill_complete ev)"
    unfolding on_prefill_complete_def by (intro keeps_rules)
  show "keeps (calm mc k N q) (on_decode_batch_step ev)"
    unfolding on_decode_batch_step_def by (intro keeps_rules upd_w_calm) simp_all
  show "keeps (calm mc k N q) (on_decode_complete ev)"
    unfolding on_decode_complete_def by (intro keeps_rules upd_w_calm) (simp_all add: drop_request_def)
qed

lemma first_handler_calm:
  assumes "ev_type ev \<noteq> KV_TRANSFER_COMPLETE"
  shows "keeps (calm mc k N q) (first_handler ev)"
  using assms on_arrive_calm handlers_calm
  by (cases "ev_type ev") (simp_all add: first_handler_def on_kv_transfer_start_def keeps_rules)

text \<open>The end of a transfer needs a slot and the room of its prompt.\<close>

lemma cleanup_unneeded:
  assumes d: "decisions w r = Some d" "decode_node d = Some n" "n \<in> cm_nodes (w_cm w)"
    and key: "block_tables (w_cm w) (n, r) = None"
    and room: "cm_room mc (k + kv_need (block_size mc) (length (token_ids req))) (w_cm w)"
  shows "\<not> cleanup_raises r req (w, e)"
proof -
  obtain tb c' where "materialize_request (now e) r (token_ids req) n (w_cm w) = (Inr tb, c')"
    by (rule materialize_room[OF room d(3) key])
  then show ?thesis using d by (simp add: cleanup_raises_def)
qed

lemma transfer_complete_calm:
  assumes info: "pl_transfer_id (ev_payload ev) = Some tid" "pending_transfers w tid = Some info" "pt_request_id info = r" "pt_request info = req"
    and d: "decisions w r = Some d" "decode_node d = Some n" "n \<in> cm_nodes (w_cm w)" "n \<in> set (decode_ids w)"
    and nd: "w_nodes w n = Some nd" "length (running_requests nd) < capacity (mn_config nd)"
    and key: "block_tables (w_cm w) (n, r) = None"
    and calm: "calm mc (k + kv_need (block_size mc) (length (token_ids req))) N q (w, e)"
  shows "calm mc k N q (snd (on_kv_transfer_complete ev (w, e)))"
proof -
  let ?w1 = "w\<lparr>pending_transfers := (pending_transfers w)(tid := None)\<rparr>"
  let ?mat = "py_except (py_bind (with_cm (\<lambda>t. materialize_request t r (token_ids req) n)) (\<lambda>_. py_return ())) MemoryError ()"
  obtain tb c' where m: "materialize_request (now e) r (token_ids req) n (w_cm w) = (Inr tb, c')" "cm_room mc k c'"
    by (rule materialize_room[OF calmD(1)[OF calm] d(3) key])
  have mat: "?mat (?w1, e) = (Inr (), (?w1\<lparr>w_cm := c'\<rparr>, e))"
    using m(1) by (simp add: py_except_def py_bind_def with_cm_def py_return_def)
  let ?rest = "py_bind (with_node n (mn_admit r (int (expected_output_len req)) (Some (int (length (token_ids req)))) (Some 0)))
      (\<lambda>_. py_bind (with_node n (start_decode r)) (\<lambda>_. wake_batch_step n (now e)))"
  have run: "on_kv_transfer_complete ev (w, e) = ?rest (?w1\<lparr>w_cm := c'\<rparr>, e)"
    using info d nd by (simp add: on_kv_transfer_complete_def sim_run Let_def py_bind_Inr[where m = ?mat, OF mat])
  have "calm mc k N q (?w1\<lparr>w_cm := c'\<rparr>, e)" using calm m(2) by (simp add: calm_def)
  moreover have "keeps (calm mc k N q) ?rest" by (intro keeps_rules)
  ultimately show ?thesis unfolding run keeps_def by blast
qed

section \<open>The blocks and slots that are still needed\<close>

fun kv_of :: "nat \<Rightarrow> request \<times> stage \<Rightarrow> nat" where
  "kv_of bs (req, St_decoding n) = 0"
| "kv_of bs (req, St_ending n) = 0"
| "kv_of bs (req, St_rejected) = 0"
| "kv_of bs (req, g) = kv_need bs (length (token_ids req))"

definition kv_at :: "nat \<Rightarrow> (request \<times> stage) option \<Rightarrow> nat" where
  "kv_at bs v = (case v of None \<Rightarrow> 0 | Some x \<Rightarrow> kv_of bs x)"

definition kv_left :: "nat \<Rightarrow> stages \<Rightarrow> nat" where
  "kv_left bs st = (\<Sum>r \<in> dom st. kv_at bs (st r))"

lemma kv_at_step: "life_step (Some x) v \<Longrightarrow> kv_at bs v \<le> kv_at bs (Some x)"
  by (cases rule: life_step.cases) (auto simp: kv_at_def)

lemma kv_left_over: "finite A \<Longrightarrow> dom st \<subseteq> A \<Longrightarrow> kv_left bs st = (\<Sum>r \<in> A. kv_at bs (st r))"
  unfolding kv_left_def by (rule sum.mono_neutral_left) (auto simp: kv_at_def split: option.splits)

lemma kv_left_moves:
  assumes mv: "life_moves st st'" and fin: "finite (dom st)" "dom st' \<subseteq> dom st"
  shows "kv_left bs st' \<le> kv_left bs st"
    "st r = Some (req, St_transfer tid) \<Longrightarrow> st' r \<noteq> st r \<Longrightarrow> kv_left bs st' + kv_need bs (length (token_ids req)) \<le> kv_left bs st"
proof -
  have le: "kv_at bs (st' x) \<le> kv_at bs (st x)" for x
  proof (cases "st x")
    case None
    then have "st' x = None" using fin(2) by blast
    then show ?thesis by (simp add: kv_at_def)
  next
    case (Some y)
    then show ?thesis using mv[unfolded life_moves_def, rule_format, of x] kv_at_step[of y "st' x" bs] by auto
  qed
  show "kv_left bs st' \<le> kv_left bs st"
    unfolding kv_left_over[OF fin] unfolding kv_left_def by (rule sum_mono) (rule le)
  assume r: "st r = Some (req, St_transfer tid)" "st' r \<noteq> st r"
  then have "life_step (Some (req, St_transfer tid)) (st' r)" using mv unfolding life_moves_def by metis
  then have z: "kv_at bs (st' r) = 0" by (cases rule: life_step.cases) (simp_all add: kv_at_def)
  have d: "r \<in> dom st" using r(1) by blast
  have v: "kv_at bs (st r) = kv_need bs (length (token_ids req))" by (simp add: r(1) kv_at_def)
  have "(\<Sum>x \<in> dom st - {r}. kv_at bs (st' x)) \<le> (\<Sum>x \<in> dom st - {r}. kv_at bs (st x))" by (rule sum_mono) (rule le)
  then show "kv_left bs st' + kv_need bs (length (token_ids req)) \<le> kv_left bs st"
    unfolding kv_left_over[OF fin] unfolding kv_left_def sum.remove[OF fin(1) d] by (simp add: z v)
qed

lemma kv_left_grows:
  assumes "grows (Some (t, req)) st st'" "finite (dom st)"
  shows "kv_left bs st' = kv_left bs st + kv_need bs (length (token_ids req))"
proof -
  have g: "request_id req \<notin> dom st" "st' = st(request_id req \<mapsto> (req, St_arriving))" using assms(1) by (auto simp: grows_def)
  have "(\<Sum>x \<in> dom st. kv_at bs (st' x)) = kv_left bs st"
    unfolding kv_left_def by (rule sum.cong) (use g in auto)
  then show ?thesis using g assms(2) by (simp add: kv_left_def kv_at_def)
qed

text \<open>A node with a slot for every request given out has one for a request that is not on it.\<close>

lemma slot_left:
  assumes nd: "decode_node_ok st n nd" and r: "st r = Some (req, St_transfer tid)" and fin: "finite (dom st)"
    and src: "source_ok st g" "source_index g \<le> N" "N \<le> capacity (mn_config nd)"
  shows "length (running_requests nd) < capacity (mn_config nd)"
proof -
  have R: "set (running_requests nd) = {x. sits st x (St_decoding n) \<or> sits st x (St_ending n)}" "distinct (running_requests nd)"
    using nd mn_invD(2)[of nd] unfolding decode_node_ok_def by blast+
  then have "set (running_requests nd) \<subseteq> dom st - {r}" using r by (auto simp: sits_def)
  then have "length (running_requests nd) \<le> card (dom st - {r})" using card_mono[OF finite_Diff[OF fin, of "{r}"]] distinct_card[OF R(2)] by metis
  also have "\<dots> < card (dom st)" by (rule psubset_card_mono[OF fin]) (use r in auto)
  also have "dom st \<subseteq> (\<lambda>k. source_prefix g @ digits k) ` {..<source_index g}" using src(1) by (auto simp: source_ok_def)
  then have "card (dom st) \<le> card ((\<lambda>k. source_prefix g @ digits k) ` {..<source_index g})" by (intro card_mono) simp_all
  also have "\<dots> \<le> source_index g" using card_image_le[of "{..<source_index g}"] by simp
  finally show ?thesis using src(2,3) by simp
qed

end
