(* ===== verification/Trace_Source.thy ===== *)
theory Trace_Source
  imports Sim_Source Cache_Room
begin

text \<open>
  A trace whose records are well formed is replayed without an exception: the token lists have the length
  the record asks for, every token packs into 32 bits, and each record becomes one request.
\<close>

section \<open>Random tokens\<close>

lemma randint_range: "lo \<le> hi \<Longrightarrow> randint lo hi g = (x, g') \<Longrightarrow> lo \<le> x \<and> x \<le> hi"
  using pos_mod_bound[of "hi - lo + 1" "int (raw_draw g (n_drawn g))"] by (auto simp: randint_def next_raw_def)

definition tokens_below :: "nat \<Rightarrow> token list \<Rightarrow> bool" where
  "tokens_below v xs \<longleftrightarrow> (\<forall>x \<in> set xs. 0 \<le> x \<and> x < int v)"

lemma tokens_below_simps [simp]:
  "tokens_below v []" "tokens_below v (xs @ ys) \<longleftrightarrow> tokens_below v xs \<and> tokens_below v ys"
  "tokens_below v (concat xss) \<longleftrightarrow> (\<forall>xs \<in> set xss. tokens_below v xs)"
  by (auto simp: tokens_below_def)

lemma tokens_below_mono: "tokens_below v xs \<Longrightarrow> v \<le> v' \<Longrightarrow> tokens_below v' xs"
  by (fastforce simp: tokens_below_def)

lemma randints_spec: "1 \<le> v \<Longrightarrow> randints k v g = (xs, g') \<Longrightarrow> length xs = k \<and> tokens_below v xs"
proof (induction k arbitrary: g xs g')
  case (Suc k)
  obtain x g1 where x: "randint 0 (int v - 1) g = (x, g1)" by fastforce
  obtain ys g2 where y: "randints k v g1 = (ys, g2)" by fastforce
  have "xs = x # ys" using Suc.prems x y by simp
  moreover have "0 \<le> x \<and> x < int v" using randint_range[OF _ x] Suc.prems(1) by simp
  ultimately show ?case using Suc.IH[OF Suc.prems(1) y] by (simp add: tokens_below_def)
qed simp

lemma randint_lists_spec:
  "1 \<le> v \<Longrightarrow> randint_lists m k v g = (xss, g') \<Longrightarrow> length xss = m \<and> (\<forall>xs \<in> set xss. length xs = k \<and> tokens_below v xs)"
proof (induction m arbitrary: g xss g')
  case (Suc m)
  obtain xs g1 where x: "randints k v g = (xs, g1)" by fastforce
  obtain yss g2 where y: "randint_lists m k v g1 = (yss, g2)" by fastforce
  have "xss = xs # yss" using Suc.prems x y by simp
  then show ?case using Suc.IH[OF Suc.prems(1) y] randints_spec[OF Suc.prems(1) x] by simp
qed simp

section \<open>The tokens of a record\<close>

definition hashes_fit :: "nat \<Rightarrow> int list \<Rightarrow> bool" where
  "hashes_fit bs hs \<longleftrightarrow> (\<forall>h \<in> set hs. 0 \<le> h \<and> (h + 1) * int bs \<le> 2 ^ 32)"

lemma expand_hash_spec: "length (expand_hash bs h) = bs"
  "0 \<le> h \<Longrightarrow> (h + 1) * int bs \<le> 2 ^ 32 \<Longrightarrow> tokens_below (2 ^ 32) (expand_hash bs h)"
  by (auto simp: expand_hash_def tokens_below_def algebra_simps)

lemma sum_list_length: "(\<And>xs. xs \<in> set xss \<Longrightarrow> length xs = k) \<Longrightarrow> length (concat xss) = length xss * k"
  by (induction xss) auto

lemma build_token_ids_total:
  assumes "1 \<le> v" "v \<le> 2 ^ 32" "hashes_fit bs hs"
  obtains toks g' where "build_token_ids hs n bs g v = (Inr toks, g')" "length toks = n" "tokens_below (2 ^ 32) toks"
proof -
  let ?full = "n div bs" and ?k = "min (length hs) (n div bs)"
  let ?exp = "concat (map (expand_hash bs) (take ?k hs))"
  obtain bl g1 where b: "randint_lists (?full - ?k) bs v g = (bl, g1)" by fastforce
  obtain tl g2 where t: "randints (n - ?full * bs) v g1 = (tl, g2)" by fastforce
  have e: "length ?exp = ?k * bs"
    by (subst sum_list_length[where k = bs]) (auto simp: expand_hash_spec(1))
  have l: "length (concat bl) = (?full - ?k) * bs"
    using randint_lists_spec[OF assms(1) b] by (subst sum_list_length[where k = bs]) auto
  have "?k * bs + (?full - ?k) * bs = ?full * bs" by (metis add_mult_distrib le_add_diff_inverse min.cobounded2)
  moreover have "length tl = n - ?full * bs" using randints_spec[OF assms(1) t] by simp
  ultimately have "length (?exp @ concat bl @ tl) = n"
    unfolding length_append e l using div_times_less_eq_dividend[of n bs] by linarith
  moreover have "tokens_below (2 ^ 32) ?exp"
    using assms(3) expand_hash_spec(2) by (auto simp: hashes_fit_def dest: in_set_takeD)
  moreover have "tokens_below (2 ^ 32) (concat bl @ tl)"
    using randint_lists_spec[OF assms(1) b] randints_spec[OF assms(1) t] tokens_below_mono[OF _ assms(2)] by auto
  ultimately show thesis using that[of "?exp @ concat bl @ tl" g2] b t by (simp add: build_token_ids_def Let_def)
qed

lemma make_request_total:
  assumes "tokens_below (2 ^ 32) toks"
  obtains req where "make_request sha u toks t cfg p ol = Inr req" "token_ids req = toks"
proof -
  have "\<not> (\<exists>x \<in> set (take (block_size (cfg_model cfg)) toks). x < 0 \<or> x \<ge> 2 ^ 32)"
    using assms by (fastforce simp: tokens_below_def dest: in_set_takeD)
  then show thesis using that by (simp add: make_request_def hash_prefix_def Let_def)
qed

section \<open>The lines of a trace\<close>

fun records :: "trace_line list \<Rightarrow> trace_record list" where
  "records [] = []"
| "records (Malformed # ls) = records ls"
| "records (Record_line r # ls) = r # records ls"

definition replayable :: "nano_kv_config \<Rightarrow> trace_config \<Rightarrow> trace_record \<Rightarrow> bool" where
  "replayable cfg tc r \<longleftrightarrow> input_length r \<noteq> None \<and> output_length r \<noteq> None \<and>
     (tr_prefix_mode tc = Mode_hash_ids \<longrightarrow> (\<exists>hs. hash_ids r = Some hs \<and> hashes_fit (block_size (cfg_model cfg)) hs))"

definition replays :: "nano_kv_config \<Rightarrow> trace_config \<Rightarrow> trace_generator \<Rightarrow> bool" where
  "replays cfg tc s \<longleftrightarrow> tg_config s = cfg \<and> tg_trace s = tc \<and> tr_prefix_mode tc \<noteq> Mode_synthesis \<and>
     1 \<le> vocab_size (cfg_generator cfg) \<and> vocab_size (cfg_generator cfg) \<le> 2 ^ 32"

lemma tokens_total:
  assumes s: "replays cfg tc s" and r: "replayable cfg tc r"
  obtains toks g' where "build_token_ids_from_record r s = (Inr toks, s\<lparr>tg_rng := g'\<rparr>)"
    "input_length r = Some (length toks)" "tokens_below (2 ^ 32) toks"
proof -
  let ?v = "vocab_size (cfg_generator cfg)"
  have S: "tg_config s = cfg" "tg_trace s = tc" "tr_prefix_mode tc \<noteq> Mode_synthesis" "1 \<le> ?v" "?v \<le> 2 ^ 32"
    using s by (simp_all add: replays_def)
  obtain n where n: "input_length r = Some n" using r by (auto simp: replayable_def)
  show thesis
  proof (cases "tr_prefix_mode tc")
    case Mode_none
    obtain toks g' where t: "randints n ?v (tg_rng s) = (toks, g')" by fastforce
    note T = randints_spec[OF S(4) t]
    show thesis
      by (rule that[of toks g']) (use S n t T Mode_none tokens_below_mono[OF _ S(5)] in \<open>simp_all add: build_token_ids_from_record_def Let_def\<close>)
  next
    case Mode_hash_ids
    obtain hs where h: "hash_ids r = Some hs" "hashes_fit (block_size (cfg_model cfg)) hs"
      using r Mode_hash_ids by (auto simp: replayable_def)
    obtain toks g' where t: "build_token_ids hs n (block_size (cfg_model cfg)) (tg_rng s) ?v = (Inr toks, g')"
      "length toks = n" "tokens_below (2 ^ 32) toks"
      by (rule build_token_ids_total[OF S(4,5) h(2)])
    show thesis
      by (rule that[of toks g']) (use S n t h Mode_hash_ids in \<open>simp_all add: build_token_ids_from_record_def Let_def\<close>)
  qed (use S in simp)
qed

lemma replay_total:
  assumes s: "replays cfg tc s" and r: "replayable cfg tc r"
  obtains req s' where "replay_record r s = (Inr (raw_arrival_ms r / speedup tc, req), s')" "input_length r = Some (length (token_ids req))"
    "tg_file s' = tg_file s" "tg_idx s' = Suc (tg_idx s)" "replays cfg tc s'"
proof -
  obtain toks g' where t: "build_token_ids_from_record r s = (Inr toks, s\<lparr>tg_rng := g'\<rparr>)"
    "input_length r = Some (length toks)" "tokens_below (2 ^ 32) toks"
    by (rule tokens_total[OF s r])
  obtain k where k: "output_length r = Some k" using r by (auto simp: replayable_def)
  obtain req where m: "make_request (tg_sha s) '''' toks (raw_arrival_ms r / speedup (tg_trace s)) (tg_config s) 0 (Some k) = Inr req"
    "token_ids req = toks"
    by (rule make_request_total[OF t(3)])
  show thesis
    by (rule that[of "req\<lparr>request_id := ''trace-'' @ digits (tg_idx s)\<rparr>" "s\<lparr>tg_rng := g', tg_idx := tg_idx s + 1\<rparr>"])
      (use s t k m in \<open>simp_all add: replay_record_def Let_def replays_def\<close>)
qed

text \<open>What \<open>schedule_next\<close> does: it gives out the next record, or closes the file.\<close>

definition next_record :: "nano_kv_config \<Rightarrow> trace_config \<Rightarrow> trace_line list \<Rightarrow> trace_generator \<Rightarrow>
    (time \<times> request) option result \<times> trace_generator \<Rightarrow> bool" where
  "next_record cfg tc ls s xs \<longleftrightarrow> replays cfg tc (snd xs) \<and> (
     fst xs = Inr None \<and> tg_file (snd xs) = None \<and> tg_idx (snd xs) = tg_idx s \<and> (records ls = [] \<or> limit_reached s) \<or>
     (\<exists>r ls' req. fst xs = Inr (Some (raw_arrival_ms r / speedup tc, req)) \<and> records ls = r # records ls' \<and>
        tg_file (snd xs) = Some ls' \<and> tg_idx (snd xs) = Suc (tg_idx s) \<and> \<not> limit_reached s \<and>
        input_length r = Some (length (token_ids req))))"

lemma lines_total:
  assumes "replays cfg tc s" "\<forall>r \<in> set (records ls). replayable cfg tc r"
  shows "next_record cfg tc ls s (schedule_next_lines ls s)"
  using assms
proof (induction ls arbitrary: s)
  case (Cons l ls)
  have upd: "replays cfg tc (s\<lparr>tg_file := x\<rparr>)" for x using Cons.prems(1) by (simp add: replays_def)
  show ?case
  proof (cases "limit_reached s")
    case True
    then show ?thesis using upd by (simp add: next_record_def)
  next
    case False
    show ?thesis
    proof (cases l)
      case Malformed
      have "next_record cfg tc ls (s\<lparr>tg_file := Some ls\<rparr>) (schedule_next_lines ls (s\<lparr>tg_file := Some ls\<rparr>))"
        using Cons.prems(2) Malformed by (intro Cons.IH[OF upd]) simp
      moreover have "limit_reached (s\<lparr>tg_file := Some ls\<rparr>) = limit_reached s" by (simp add: limit_reached_def split: option.splits)
      ultimately show ?thesis using False Malformed unfolding next_record_def by simp
    next
      case (Record_line r)
      obtain req s' where R: "replay_record r (s\<lparr>tg_file := Some ls\<rparr>) = (Inr (raw_arrival_ms r / speedup tc, req), s')"
        "input_length r = Some (length (token_ids req))" "tg_file s' = Some ls" "tg_idx s' = Suc (tg_idx s)" "replays cfg tc s'"
        by (rule replay_total[OF upd[of "Some ls"], of r]) (use Cons.prems(2) Record_line in simp_all)
      then show ?thesis using False Record_line by (simp add: next_record_def py_bind_def py_return_def)
    qed
  qed
qed (simp add: next_record_def replays_def)

section \<open>What is still to come\<close>

text \<open>The requests a trace of \<open>n\<close> records gives out, and the blocks its prompts may take.\<close>

definition allowance :: "trace_config \<Rightarrow> nat \<Rightarrow> nat" where
  "allowance tc n = (case max_requests tc of None \<Rightarrow> n | Some k \<Rightarrow> min k n)"

definition blocks_of :: "nat \<Rightarrow> trace_record list \<Rightarrow> nat" where
  "blocks_of bs rs = sum_list (map (\<lambda>r. kv_need bs (case input_length r of None \<Rightarrow> 0 | Some n \<Rightarrow> n)) rs)"

definition blocks_left :: "nat \<Rightarrow> trace_generator \<Rightarrow> nat" where
  "blocks_left bs s = (case tg_file s of None \<Rightarrow> 0 | Some ls \<Rightarrow> blocks_of bs (records ls))"

definition stocked :: "nano_kv_config \<Rightarrow> trace_config \<Rightarrow> nat \<Rightarrow> trace_generator \<Rightarrow> bool" where
  "stocked cfg tc n s \<longleftrightarrow> replays cfg tc s \<and> 0 < speedup tc \<and> tg_idx s \<le> allowance tc n \<and>
     (case tg_file s of None \<Rightarrow> tg_idx s = allowance tc n
      | Some ls \<Rightarrow> tg_idx s + length (records ls) = n \<and> (\<forall>r \<in> set (records ls). replayable cfg tc r) \<and>
          sorted (map raw_arrival_ms (records ls)))"

definition no_earlier :: "trace_config \<Rightarrow> time \<Rightarrow> trace_generator \<Rightarrow> bool" where
  "no_earlier tc t s \<longleftrightarrow> (case tg_file s of None \<Rightarrow> True | Some ls \<Rightarrow> \<forall>r \<in> set (records ls). t \<le> raw_arrival_ms r / speedup tc)"

lemma stocked_next:
  assumes sup: "stocked cfg tc n s" and nx: "schedule_next s = (x, s')"
  obtains (closed) "x = Inr None" "stocked cfg tc n s'" "tg_file s' = None" "tg_idx s' = tg_idx s" "blocks_left bs s' = 0"
    | (given) t req where "x = Inr (Some (t, req))" "stocked cfg tc n s'" "tg_idx s' = Suc (tg_idx s)" "no_earlier tc t s'"
      "blocks_left bs s' + kv_need bs (length (token_ids req)) = blocks_left bs s" "\<forall>u. no_earlier tc u s \<longrightarrow> u \<le> t"
proof (cases "tg_file s")
  case None
  then show thesis using closed sup nx by (simp add: schedule_next_def blocks_left_def)
next
  case (Some ls)
  have S: "replays cfg tc s" "0 < speedup tc" "tg_idx s \<le> allowance tc n" "tg_idx s + length (records ls) = n"
    "\<forall>r \<in> set (records ls). replayable cfg tc r" "sorted (map raw_arrival_ms (records ls))"
    using sup Some by (simp_all add: stocked_def)
  have lim: "limit_reached s \<longleftrightarrow> (case max_requests tc of None \<Rightarrow> False | Some k \<Rightarrow> k \<le> tg_idx s)"
    using S(1) by (simp add: limit_reached_def replays_def)
  have N: "next_record cfg tc ls s (x, s')" using lines_total[OF S(1,5)] nx Some by (simp add: schedule_next_def)
  then have r': "replays cfg tc s'" by (simp add: next_record_def)
  consider (ends) "x = Inr None" "tg_file s' = None" "tg_idx s' = tg_idx s" "records ls = [] \<or> limit_reached s"
    | (goes) r ls' req where "x = Inr (Some (raw_arrival_ms r / speedup tc, req))" "records ls = r # records ls'"
      "tg_file s' = Some ls'" "tg_idx s' = Suc (tg_idx s)" "\<not> limit_reached s" "input_length r = Some (length (token_ids req))"
    using N by (auto simp: next_record_def)
  then show thesis
  proof cases
    case ends
    have "tg_idx s = allowance tc n"
      using ends(4) S(3,4) unfolding lim by (auto simp: allowance_def split: option.splits)
    then show thesis using closed ends r' S(2) by (simp add: stocked_def blocks_left_def)
  next
    case goes
    have "tg_idx s' \<le> allowance tc n" using goes(2,4,5) S(4) unfolding lim by (auto simp: allowance_def split: option.splits)
    then have "stocked cfg tc n s'" using goes S r' by (simp add: stocked_def)
    moreover have "no_earlier tc (raw_arrival_ms r / speedup tc) s'"
      using S(2,6) goes(2,3) by (simp add: no_earlier_def divide_right_mono)
    moreover have "u \<le> raw_arrival_ms r / speedup tc" if "no_earlier tc u s" for u
      using that goes(2) Some by (simp add: no_earlier_def)
    ultimately show thesis using goes Some by (intro given[OF goes(1)]) (simp_all add: blocks_left_def blocks_of_def)
  qed
qed

lemma no_earlier_next:
  assumes "no_earlier tc u s" "schedule_next s = (x, s')" "stocked cfg tc n s"
  shows "no_earlier tc u s'"
proof (cases "tg_file s")
  case None
  then show ?thesis using assms by (simp add: schedule_next_def)
next
  case (Some ls)
  then have "next_record cfg tc ls s (x, s')"
    using lines_total[of cfg tc s ls] assms(2,3) by (simp add: schedule_next_def stocked_def)
  then show ?thesis using assms(1) Some by (auto simp: next_record_def no_earlier_def)
qed

end
