(* ===== verification/Ample_Run.thy ===== *)
theory Ample_Run
  imports Whole_Run Sim_Room Trace_Source
begin

text \<open>
  A trace on a cluster with room for all of it: every round of the event loop returns, nothing is rejected,
  and the run ends with every record completed.
\<close>

section \<open>The invariant\<close>

text \<open>What the room, the queued arrivals \<open>q\<close> and the rest of the trace have to do with each other.\<close>

definition smooth :: "nano_kv_config \<Rightarrow> trace_config \<Rightarrow> nat \<Rightarrow> stages \<Rightarrow> world \<times> engine \<Rightarrow> bool" where
  "smooth cfg tc n st s \<longleftrightarrow> (\<exists>k q t g. calm (cfg_model cfg) k (allowance tc n) (q, t) s \<and> w_gen (fst s) = Trace g \<and>
     kv_left (block_size (cfg_model cfg)) st + blocks_left (block_size (cfg_model cfg)) g \<le> k \<and> stocked cfg tc n g \<and>
     (\<forall>ev \<in> set q. ev_type ev = REQUEST_ARRIVE \<and> no_earlier tc (ev_time ev) g) \<and> (q = [] \<longrightarrow> tg_file g = None) \<and>
     total_arrived (w_metrics (fst s)) + length q = tg_idx g \<and> rejected_count (w_metrics (fst s)) = 0)"

lemma smoothE:
  assumes "smooth cfg tc n st (w, e)"
  obtains k q t g where "calm (cfg_model cfg) k (allowance tc n) (q, t) (w, e)" "w_gen w = Trace g"
    "kv_left (block_size (cfg_model cfg)) st + blocks_left (block_size (cfg_model cfg)) g \<le> k" "stocked cfg tc n g"
    "\<And>ev. ev \<in> set q \<Longrightarrow> ev_type ev = REQUEST_ARRIVE \<and> no_earlier tc (ev_time ev) g" "q = [] \<Longrightarrow> tg_file g = None"
    "total_arrived (w_metrics w) + length q = tg_idx g" "rejected_count (w_metrics w) = 0"
  using assms by (auto simp: smooth_def)

lemma calm_weaken: "calm mc k N q s \<Longrightarrow> j \<le> k \<Longrightarrow> calm mc j N q s"
  using cm_room_weaken by (auto simp: calm_def)

lemma calm_observed [simp]: "calm mc k N q (observed ev w, e) \<longleftrightarrow> calm mc k N q (w, e)"
  "calm mc k N q (w\<lparr>w_gen := g\<rparr>, e) \<longleftrightarrow> calm mc k N q (w, e)"
  by (simp_all add: calm_def observed_def)

text \<open>Taking an event from the queue.\<close>

lemma calm_popped:
  assumes c: "calm mc k N (q, t) (w, e)" and p: "heappop (ev_queue e) = Some (ev, q')"
  shows "calm mc k N (filter outer q', ev_time ev) (w, popped ev q' e)" "set (filter outer q') \<subseteq> set q" "outer ev \<Longrightarrow> ev \<in> set q"
    "length q = (if outer ev then 1 else 0) + length (filter outer q')"
proof -
  have m: "mset (ev_queue e) = add_mset ev (mset q')" by (rule heap.pop_events[OF p])
  have q: "mset q = filter_mset outer (add_mset ev (mset q'))" using calmD(6)[OF c] m by (metis mset_filter outer_view_def prod.inject)
  then have q2: "mset q = (if outer ev then {#ev#} else {#}) + mset (filter outer q')" by simp
  show "calm mc k N (filter outer q', ev_time ev) (w, popped ev q' e)" using c by (simp add: calm_def popped_def outer_view_def)
  show "set (filter outer q') \<subseteq> set q" "outer ev \<Longrightarrow> ev \<in> set q"
    using arg_cong[OF q2, of set_mset] by (auto split: if_splits)
  have "size (mset q) = (if outer ev then 1 else 0) + size (mset (filter outer q'))" unfolding q2 size_union by simp
  then show "length q = (if outer ev then 1 else 0) + length (filter outer q')" unfolding size_mset .
qed

section \<open>The first handler\<close>

text \<open>What the invariant says about a request whose transfer ends.\<close>

lemma transfer_ready:
  assumes h: "handling lk st (w, e)" and g: "st r = Some (req, St_transfer tid)"
  obtains info d n nd where "pending_transfers w tid = Some info" "pt_request_id info = r" "pt_request info = req"
    "decisions w r = Some d" "decode_node d = Some n" "n \<in> cm_nodes (w_cm w)" "n \<in> set (decode_ids w)"
    "w_nodes w n = Some nd" "decode_node_ok st n nd" "block_tables (w_cm w) (n, r) = None"
proof -
  note H = handlingD[OF h]
  obtain info where info: "pending_transfers w tid = Some info" "pt_request_id info = r" "pt_request info = req"
    using H(4) g unfolding transfers_ok_def by blast
  obtain d n where d: "decisions w r = Some d" "decode_node d = Some n" "n \<in> set (decode_ids w)"
    by (rule books_decision[OF H(5) g]) auto
  obtain nd where nd: "w_nodes w n = Some nd" by (rule static_nodeE[OF H(1), of n]) (use d(3) in auto)
  have "n \<notin> set (prefill_ids w)" using static_okD(3)[OF H(1)] d(3) by auto
  then have "decode_node_ok st n nd" by (rule nodes_okD(2)[OF H(2) nd])
  moreover have "block_tables (w_cm w) (n, r) = None" using H(3) g unfolding cache_ok_def sits_def by fastforce
  ultimately show thesis using that info d nd cache_okD(2)[OF H(3)] by simp
qed

text \<open>The room a request in transfer needs is part of what is left.\<close>

lemma kv_left_transfer:
  assumes "finite (dom st)" "st r = Some (req, St_transfer tid)"
  shows "kv_need bs (length (token_ids req)) \<le> kv_left bs st"
proof -
  have "r \<in> dom st" using assms(2) by blast
  from member_le_sum[OF this _ assms(1), of "\<lambda>r. kv_at bs (st r)"] show ?thesis
    by (simp add: kv_left_def) (simp add: kv_at_def assms(2))
qed

lemma no_cleanup:
  assumes h: "handling lk st (w, e)" and g: "st r = Some (req, St_transfer tid)"
    and c: "calm mc k N q (w, e)" and k: "kv_left (block_size mc) st \<le> k"
  shows "\<not> cleanup_raises r req (w, e)"
proof (rule transfer_ready[OF h g])
  fix info d n nd
  assume "decisions w r = Some d" "decode_node d = Some n" "n \<in> cm_nodes (w_cm w)" "block_tables (w_cm w) (n, r) = None"
  moreover have "kv_need (block_size mc) (length (token_ids req)) \<le> k"
    using kv_left_transfer[of st r req tid "block_size mc", OF booksD(5)[OF handlingD(5)[OF h]] g] k by simp
  then have "cm_room mc (0 + kv_need (block_size mc) (length (token_ids req))) (w_cm w)"
    using cm_room_weaken[OF calmD(1)[OF c]] by simp
  ultimately show ?thesis by (rule cleanup_unneeded)
qed

lemma handled_calm:
  assumes inv: "handling (life_key ev) st (w, e)" and wf: "well_formed ev"
    and key: "\<forall>k. life_key ev = Some k \<longrightarrow> k \<in> stage_keys st \<union> batch_keys (w_nodes w)"
    and d: "handled ev st (w, e) st1 s1" and c: "calm mc k N q (w, e)"
    and src: "source_ok st (w_gen w)" "source_index (w_gen w) \<le> N" and k: "kv_left (block_size mc) st + b \<le> k"
  obtains k' where "calm mc k' N q s1" "kv_left (block_size mc) st1 + b \<le> k'"
proof -
  have D: "first_handler ev (w, e) = (Inr (), s1)" "life_moves st st1" "dom st1 \<subseteq> dom st" "moves_on ev st st1"
    using d by (auto simp: handled_def advance_def)
  have fin: "finite (dom st)" by (rule booksD(5)[OF handlingD(5)[OF inv]])
  show thesis
  proof (cases "ev_type ev = KV_TRANSFER_COMPLETE")
    case False
    have "calm mc k N q s1" using keepsD[OF first_handler_calm[OF False] c D(1)] .
    then show thesis using that[of k] k kv_left_moves(1)[of st, OF D(2) fin D(3), of "block_size mc"] by simp
  next
    case True
    then obtain tid where tid: "pl_transfer_id (ev_payload ev) = Some tid" "life_key ev = Some (K_transfer tid)"
      using wf by (auto simp: well_formed_def silent_def life_key_def)
    obtain r req where g: "st r = Some (req, St_transfer tid)"
      using key_stage(4)[OF handlingD(5)[OF inv], of "K_transfer tid" "w_nodes w" tid] key tid(2) by blast
    have mv: "kv_left (block_size mc) st1 + kv_need (block_size mc) (length (token_ids req)) \<le> kv_left (block_size mc) st"
      using kv_left_moves(2)[of st, OF D(2) fin D(3) g] D(4) g tid(1) True by (simp add: moves_on_def)
    let ?k = "k - kv_need (block_size mc) (length (token_ids req))"
    have k': "?k + kv_need (block_size mc) (length (token_ids req)) = k" "kv_left (block_size mc) st1 + b \<le> ?k"
      using mv k by simp_all
    show thesis
    proof (rule transfer_ready[OF inv g])
      fix info d n nd
      assume T: "pending_transfers w tid = Some info" "pt_request_id info = r" "pt_request info = req"
        "decisions w r = Some d" "decode_node d = Some n" "n \<in> cm_nodes (w_cm w)" "n \<in> set (decode_ids w)"
        "w_nodes w n = Some nd" "decode_node_ok st n nd" "block_tables (w_cm w) (n, r) = None"
      have "length (running_requests nd) < capacity (mn_config nd)"
        by (rule slot_left[where st = st, OF T(9) g fin src calmD(2)[OF c T(8)]])
      from transfer_complete_calm[OF tid(1) T(1-8) this T(10), of mc ?k N q e] c k'(1)
      have "calm mc ?k N q s1" using D(1) True by (simp add: first_handler_def)
      then show thesis using that k'(2) by blast
    qed
  qed
qed

section \<open>A round\<close>

lemma observe_counts:
  assumes "ev_type ev \<noteq> REQUEST_REJECTED" "ev_type ev = REQUEST_ARRIVE \<Longrightarrow> pl_request (ev_payload ev) \<noteq> None"
  shows "total_arrived (observe f ev m) = (if ev_type ev = REQUEST_ARRIVE then 1 else 0) + total_arrived m"
    "rejected_count (observe f ev m) = rejected_count m"
proof -
  obtain a c j D where C: "counted m = (a, c, j, D)" by (metis prod_cases4)
  have "(\<exists>c' D'. counted (observe f ev m) = ((if ev_type ev = REQUEST_ARRIVE then 1 else 0) + a, c', j, D'))"
  proof (cases "ev_type ev")
    case REQUEST_ARRIVE
    then obtain req where "pl_request (ev_payload ev) = Some req" using assms(2) by blast
    from observe_arrival[OF REQUEST_ARRIVE this C] show ?thesis using REQUEST_ARRIVE by simp
  next
    case DECODE_COMPLETE
    then show ?thesis using C by (auto simp: observe_def m_on_decode_complete_def counted_def Let_def split: option.splits)
  qed (use assms(1) observe_silent[of ev f m] C in auto)
  then show "total_arrived (observe f ev m) = (if ev_type ev = REQUEST_ARRIVE then 1 else 0) + total_arrived m"
    "rejected_count (observe f ev m) = rejected_count m"
    using C by (auto simp: counted_def)
qed

lemma calm_enqueued:
  assumes "calm mc k N (q, u) (w, e)"
  shows "calm mc k N (q @ (case a of None \<Rightarrow> [] | Some (t, req) \<Rightarrow>
    [(mk_event t REQUEST_ARRIVE (no_keys\<lparr>pl_request := Some req\<rparr>))\<lparr>ev_seq := seq_counter e\<rparr>]), u) (w, enqueued a e)"
  using assms by (auto simp: calm_def outer_view_def enqueued_def push_def outer_def mk_event_def split: option.splits)

text \<open>The arrival that goes with the state it leaves.\<close>

lemma smooth_grows:
  assumes c: "calm (cfg_model cfg) k (allowance tc n) (q, u) (w, e)" and g: "schedule_next g = (Inr a, g')"
    and k: "kv_left (block_size (cfg_model cfg)) st1 + blocks_left (block_size (cfg_model cfg)) g \<le> k"
    and st: "stocked cfg tc n g" "finite (dom st1)" "grows a st1 st'"
    and q: "\<And>ev. ev \<in> set q \<Longrightarrow> ev_type ev = REQUEST_ARRIVE \<and> no_earlier tc (ev_time ev) g"
    and m: "total_arrived (w_metrics w) + length q = tg_idx g" "rejected_count (w_metrics w) = 0"
  shows "smooth cfg tc n st' (w\<lparr>w_gen := Trace g'\<rparr>, enqueued a e)"
proof (rule stocked_next[OF st(1) g, of "block_size (cfg_model cfg)"])
  let ?bs = "block_size (cfg_model cfg)"
  have q': "ev_type ev = REQUEST_ARRIVE \<and> no_earlier tc (ev_time ev) g'" if "ev \<in> set q" for ev
    using q[OF that] no_earlier_next[OF _ g st(1)] by blast
  {
    assume A: "Inr a = Inr None" "stocked cfg tc n g'" "tg_file g' = None" "tg_idx g' = tg_idx g" "blocks_left ?bs g' = 0"
    then have "st' = st1" using st(3) by (simp add: grows_def)
    then show ?thesis using A c k q' m unfolding smooth_def
      by (intro exI[of _ k] exI[of _ q] exI[of _ u] exI[of _ g']) (simp add: enqueued_def)
  next
    fix t req
    assume A: "Inr a = Inr (Some (t, req))" "stocked cfg tc n g'" "tg_idx g' = Suc (tg_idx g)" "no_earlier tc t g'"
      "blocks_left ?bs g' + kv_need ?bs (length (token_ids req)) = blocks_left ?bs g"
    then have a: "a = Some (t, req)" by simp
    let ?ev = "(mk_event t REQUEST_ARRIVE (no_keys\<lparr>pl_request := Some req\<rparr>))\<lparr>ev_seq := seq_counter e\<rparr>"
    have "calm (cfg_model cfg) k (allowance tc n) (q @ [?ev], u) (w, enqueued a e)" using calm_enqueued[OF c, of a] by (simp add: a)
    moreover have "kv_left ?bs st' + blocks_left ?bs g' \<le> k" using kv_left_grows[OF st(3)[unfolded a] st(2), of ?bs] A(5) k by simp
    ultimately show ?thesis using A(2-4) q' m unfolding smooth_def
      by (intro exI[of _ k] exI[of _ "q @ [?ev]"] exI[of _ u] exI[of _ g']) (auto simp: mk_event_def)
  }
qed

lemma smooth_round:
  assumes inv: "sim_inv st (w, e)" and sm: "smooth cfg tc n st (w, e)" and p: "heappop (ev_queue e) = Some (ev, q')" and f: "4 \<le> f"
  shows "\<exists>st' s'. call_handlers f handle ev 0 (w, popped ev q' e) = (Inr (), s') \<and> round_done st (w, e) st' s' \<and> smooth cfg tc n st' s'"
proof -
  let ?mc = "cfg_model cfg" and ?N = "allowance tc n" and ?bs = "block_size (cfg_model cfg)" and ?e = "popped ev q' e"
  obtain k q t g where S: "calm ?mc k ?N (q, t) (w, e)" "w_gen w = Trace g" "kv_left ?bs st + blocks_left ?bs g \<le> k" "stocked cfg tc n g"
    "\<And>ev. ev \<in> set q \<Longrightarrow> ev_type ev = REQUEST_ARRIVE \<and> no_earlier tc (ev_time ev) g" "q = [] \<Longrightarrow> tg_file g = None"
    "total_arrived (w_metrics w) + length q = tg_idx g" "rejected_count (w_metrics w) = 0"
    by (rule smoothE[OF sm]) blast
  note P = popped_handling[OF inv p] and C = calm_popped[OF S(1) p]
  have src: "source_ok st (w_gen w)" using inv by (simp add: sim_inv_def)
  have idx: "source_index (w_gen w) \<le> ?N" using S(2,4) by (simp add: stocked_def)
  have ty: "ev_type ev \<noteq> REQUEST_REJECTED" "ev_type ev = REQUEST_ARRIVE \<Longrightarrow> pl_request (ev_payload ev) \<noteq> None"
  proof -
    show "ev_type ev \<noteq> REQUEST_REJECTED"
    proof
      assume r: "ev_type ev = REQUEST_REJECTED"
      then have "ev \<in> set q" by (intro C(3)) (simp add: outer_def)
      then show False using S(5)[of ev] r by simp
    qed
    show "pl_request (ev_payload ev) \<noteq> None" if "ev_type ev = REQUEST_ARRIVE"
      using P(2) that by (simp add: well_formed_def silent_def life_key_def)
  qed
  then have out: "outer ev \<longleftrightarrow> ev_type ev = REQUEST_ARRIVE" by (simp add: outer_def)
  have q: "ev_type x = REQUEST_ARRIVE \<and> no_earlier tc (ev_time x) g" if "x \<in> set (filter outer q')" for x
    using C(2) that S(5) by blast
  have after: "\<exists>k'. calm ?mc k' ?N (filter outer q', ev_time ev) (observed ev w1, e1) \<and> kv_left ?bs st1 + blocks_left ?bs g \<le> k' \<and>
      w_gen w1 = Trace g \<and> finite (dom st1) \<and> total_arrived (w_metrics (observed ev w1)) + length (filter outer q') = tg_idx g \<and>
      rejected_count (w_metrics (observed ev w1)) = 0 \<and> current_time e1 = ev_time ev"
    if d: "handled ev st (w, ?e) st1 (w1, e1)" for st1 w1 e1
  proof -
    obtain k' where k': "calm ?mc k' ?N (filter outer q', ev_time ev) (w1, e1)" "kv_left ?bs st1 + blocks_left ?bs g \<le> k'"
      by (rule handled_calm[OF P(1-3) d C(1) src idx S(3)])
    have D: "settled st1 w (w1, e1)" "dom st1 \<subseteq> dom st" using d by (auto simp: handled_def)
    then have "w_metrics w1 = w_metrics w" "w_gen w1 = Trace g" using S(2) by (simp_all add: settled_def)
    moreover have "finite (dom st1)" using booksD(5)[OF handlingD(5)[OF P(1)]] D(2) by (rule rev_finite_subset)
    moreover have "current_time e1 = ev_time ev" using calmD(6)[OF k'(1)] by (simp add: outer_view_def)
    moreover have "total_arrived (w_metrics (observed ev w1)) = (if ev_type ev = REQUEST_ARRIVE then 1 else 0) + total_arrived (w_metrics w1)"
      "rejected_count (w_metrics (observed ev w1)) = rejected_count (w_metrics w1)"
      using observe_counts[where ev = "merged w1 ev"] ty by (simp_all add: observed_def)
    ultimately show ?thesis using k' C(4) S(7,8) out by (intro exI[of _ k']) simp
  qed
  show ?thesis
  proof (cases rule: round_cases[OF inv p f])
    case (1 s' tid r req)
    then show ?thesis using no_cleanup[OF P(1) 1(2) C(1)] S(3) by simp
  next
    case (2 st1 w1 e1)
    obtain k' where A: "calm ?mc k' ?N (filter outer q', ev_time ev) (observed ev w1, e1)" "kv_left ?bs st1 + blocks_left ?bs g \<le> k'"
      "w_gen w1 = Trace g" "total_arrived (w_metrics (observed ev w1)) + length (filter outer q') = tg_idx g"
      "rejected_count (w_metrics (observed ev w1)) = 0"
      using after[OF 2(1)] by blast
    have "filter outer q' = [] \<Longrightarrow> q = []" using C(4) out 2(2) by simp
    then have "smooth cfg tc n st1 (observed ev w1, e1)"
      using A q S(4,6) unfolding smooth_def
      by (intro exI[of _ k'] exI[of _ "filter outer q'"] exI[of _ "ev_time ev"] exI[of _ g]) simp
    then show ?thesis using 2(3,4) by blast
  next
    case (3 st1 w1 e1 x g' err s')
    note A = after[OF 3(1)]
    then obtain g2 where sn: "schedule_next g = (x, g2)"
      using 3(3) by (auto simp: chain_arrival_def lift_gen_def split: prod.splits)
    have late: "no_earlier tc (ev_time ev) g" using C(3) out 3(2) S(5) by simp
    have "\<not> stumbles x (current_time e1)"
      using A late by (cases rule: stocked_next[OF S(4) sn]) (fastforce simp: stumbles_def)+
    then show ?thesis using 3(4) by simp
  next
    case (4 st1 w1 e1 a g' st')
    obtain k' where A: "calm ?mc k' ?N (filter outer q', ev_time ev) (observed ev w1, e1)" "kv_left ?bs st1 + blocks_left ?bs g \<le> k'"
      "w_gen w1 = Trace g" "finite (dom st1)" "total_arrived (w_metrics (observed ev w1)) + length (filter outer q') = tg_idx g"
      "rejected_count (w_metrics (observed ev w1)) = 0"
      using after[OF 4(1)] by blast
    obtain g2 where g2: "schedule_next g = (Inr a, g2)" "g' = Trace g2"
      using 4(3) A(3) by (auto simp: chain_arrival_def lift_gen_def split: prod.splits)
    have "smooth cfg tc n st' ((observed ev w1)\<lparr>w_gen := g'\<rparr>, enqueued a e1)"
      unfolding g2(2) by (rule smooth_grows[OF A(1) g2(1) A(2) S(4) A(4) 4(4) q A(5,6)])
    then show ?thesis using 4(5,6) by blast
  qed
qed

section \<open>A run\<close>

lemma smooth_run:
  assumes "sim_inv st s" "smooth cfg tc n st s" "is_trace (w_gen (fst s))" "total st s + 5 \<le> f"
  shows "\<exists>evs st' s'. run_loop f handle s = (Inr (), evs, s') \<and> sim_inv st' s' \<and> smooth cfg tc n st' s' \<and> ev_queue (snd s') = []"
  using assms
proof (induction f arbitrary: st s)
  case (Suc f)
  obtain w e where s: "s = (w, e)" by (cases s)
  have ns: "\<not> stopped e" using Suc.prems(1) by (simp add: s sim_inv_def engine_ok_def)
  show ?case
  proof (cases "ev_queue e = []")
    case True
    then show ?thesis using Suc.prems by (auto simp: s)
  next
    case False
    then obtain ev q where p: "heappop (ev_queue e) = Some (ev, q)" by (rule pop_nonempty)
    have "4 \<le> f" using Suc.prems(4) by simp
    from smooth_round[OF Suc.prems(1,2)[unfolded s] p this]
    obtain st1 s1 where c: "call_handlers f handle ev 0 (w, popped ev q e) = (Inr (), s1)" "round_done st (w, e) st1 s1"
      "smooth cfg tc n st1 s1" by blast
    have "\<exists>evs st' s'. run_loop f handle s1 = (Inr (), evs, s') \<and> sim_inv st' s' \<and> smooth cfg tc n st' s' \<and> ev_queue (snd s') = []"
      using Suc.prems(3,4) c(2,3) by (intro Suc.IH[of st1]) (auto simp: round_done_def s)
    then show ?thesis unfolding s run_loop_round[OF ns p] c(1) by auto
  qed
qed simp

text \<open>The end of such a run.\<close>

lemma smooth_end:
  assumes "sim_inv st (w, e)" "smooth cfg tc n st (w, e)" "ev_queue e = []"
  shows "total_arrived (w_metrics w) = allowance tc n" "rejected_count (w_metrics w) = 0" "completed_count (w_metrics w) = allowance tc n"
proof -
  obtain k q t g where S: "calm (cfg_model cfg) k (allowance tc n) (q, t) (w, e)" "stocked cfg tc n g" "q = [] \<Longrightarrow> tg_file g = None"
    "total_arrived (w_metrics w) + length q = tg_idx g" "rejected_count (w_metrics w) = 0"
    by (rule smoothE[OF assms(2)]) blast
  have q: "q = []" using calmD(6)[OF S(1)] assms(3) by (simp add: outer_view_def)
  then have "tg_idx g = allowance tc n" using S(2,3) by (simp add: stocked_def)
  then show "total_arrived (w_metrics w) = allowance tc n" "rejected_count (w_metrics w) = 0" "completed_count (w_metrics w) = allowance tc n"
    using S(4,5) q ended_idle(2)[OF assms(1,3)] by simp_all
qed

section \<open>The start of a run\<close>

lemma calm_init:
  assumes ok: "run_ok out cfg" and pol: "\<not> picky pol" and k: "k \<le> gpu_blocks (cfg_node cfg)" and N: "N \<le> capacity (cfg_node cfg)"
  shows "calm (cfg_model cfg) k N ([], 0) (world_init out cfg pol gen, wired_engine)"
proof -
  let ?w = "world_init out cfg pol gen"
  let ?ps = "pool_names CHR ''p'' (cl_prefill_nodes (cfg_cluster cfg))" and ?ds = "pool_names CHR ''d'' (cl_decode_nodes (cfg_cluster cfg))"
  have C: "model_config_ok (cfg_model cfg)" "1 \<le> cl_prefill_nodes (cfg_cluster cfg)" "1 \<le> cl_decode_nodes (cfg_cluster cfg)"
    "\<And>n. inj (out_uuids out n)"
    using ok by (simp_all add: run_ok_def nano_kv_config_ok_def cluster_config_ok_def)
  have "cm_room (cfg_model cfg) k (w_cm ?w)" using cm_init_room[OF C(1,4) k] by (simp add: world_init_def Let_def)
  moreover have "N \<le> capacity (mn_config nd)" if "w_nodes ?w n = Some nd" for n nd
    using that N by (auto simp: world_init_def Let_def map_of_map_restrict restrict_map_def mn_init_def simp del: map_append split: if_splits)
  moreover have "w_sched ?w = pol" "prefill_ids ?w \<noteq> []" "decode_ids ?w \<noteq> []"
    using C(2,3) by (simp_all add: world_init_def Let_def pool_names_def)
  moreover have "outer_view wired_engine = ([], 0)" by (simp add: outer_view_def wired_engine_def engine_init_def)
  ultimately show ?thesis using pol by (simp add: calm_def)
qed

text \<open>A cluster and a trace such that everything fits.\<close>

definition ample :: "outside \<Rightarrow> nano_kv_config \<Rightarrow> trace_config \<Rightarrow> bool" where
  "ample out cfg tc \<longleftrightarrow> (let rs = records (out_trace out) in
     cfg_trace cfg = Some tc \<and> tr_prefix_mode tc \<noteq> Mode_synthesis \<and> vocab_size (cfg_generator cfg) \<le> 2 ^ 32 \<and>
     (\<forall>r \<in> set rs. replayable cfg tc r \<and> 0 \<le> raw_arrival_ms r) \<and> sorted (map raw_arrival_ms rs) \<and>
     allowance tc (length rs) \<le> capacity (cfg_node cfg) \<and> blocks_of (block_size (cfg_model cfg)) rs \<le> gpu_blocks (cfg_node cfg))"

lemma smooth_start:
  assumes ok: "run_ok out cfg" and am: "ample out cfg tc" and pol: "\<not> picky pol" and gen: "build_arrivals out cfg = Inr gen"
  shows "\<exists>st' s'. attach_all (world_init out cfg pol gen, engine_init) = (Inr (), s') \<and> sim_inv st' s' \<and>
    smooth cfg tc (length (records (out_trace out))) st' s' \<and> is_trace (w_gen (fst s')) \<and> total st' s' \<le> lines_need (out_trace out)"
proof -
  let ?rs = "records (out_trace out)" and ?w = "world_init out cfg pol gen" and ?bs = "block_size (cfg_model cfg)"
  have A: "cfg_trace cfg = Some tc" "tr_prefix_mode tc \<noteq> Mode_synthesis" "vocab_size (cfg_generator cfg) \<le> 2 ^ 32"
    "\<forall>r \<in> set ?rs. replayable cfg tc r \<and> 0 \<le> raw_arrival_ms r" "sorted (map raw_arrival_ms ?rs)"
    "allowance tc (length ?rs) \<le> capacity (cfg_node cfg)" "blocks_of ?bs ?rs \<le> gpu_blocks (cfg_node cfg)"
    using am by (simp_all add: ample_def Let_def)
  have C: "0 < speedup tc" "1 \<le> vocab_size (cfg_generator cfg)"
    using ok A(1) by (simp_all add: run_ok_def nano_kv_config_ok_def trace_config_ok_def generator_config_ok_def)
  have "\<exists>g0. gen = Trace g0 \<and> \<not> tg_attached g0 \<and> tg_path g0 = out_trace out \<and> tg_config g0 = cfg \<and> tg_trace g0 = tc \<and> tg_idx g0 = 0"
    using gen A(1,2) by (auto simp: build_arrivals_def tg_init_def Let_def)
  then obtain g0 where g0: "gen = Trace g0" "\<not> tg_attached g0" "tg_path g0 = out_trace out" "tg_config g0 = cfg" "tg_trace g0 = tc" "tg_idx g0 = 0"
    by blast
  let ?g = "g0\<lparr>tg_attached := True, tg_file := Some (out_trace out)\<rparr>"
  have stk: "stocked cfg tc (length ?rs) ?g" using A C g0 by (simp add: stocked_def replays_def)
  have early: "no_earlier tc 0 ?g" using A(4) C(1) by (simp add: no_earlier_def)
  obtain x g' where at: "attaching 0 gen = (x, g')" and
    R: "(\<exists>err s'. attach_all (?w, engine_init) = (Inl err, s') \<and> expected_error err \<and> stumbles x 0) \<or>
     (\<exists>a st'. x = Inr a \<and> attach_all (?w, engine_init) = (Inr (), (?w\<lparr>w_gen := g'\<rparr>, enqueued a wired_engine)) \<and>
       sim_inv st' (?w\<lparr>w_gen := g'\<rparr>, enqueued a wired_engine) \<and> grows a Map.empty st' \<and>
       (cfg_trace cfg \<noteq> None \<longrightarrow> is_trace g' \<and> total st' (?w\<lparr>w_gen := g'\<rparr>, enqueued a wired_engine) \<le> lines_need (out_trace out)))"
    using attach_step[OF ok gen, of pol] by blast
  obtain g2 where g2: "schedule_next ?g = (x, g2)" "g' = Trace g2"
    using at g0(1-3) by (auto simp: attaching_def first_arrival_def lift_gen_def split: prod.splits)
  have "\<not> stumbles x 0" using early by (cases rule: stocked_next[OF stk g2(1)]) (fastforce simp: stumbles_def)+
  then obtain a st' where S: "x = Inr a" "attach_all (?w, engine_init) = (Inr (), (?w\<lparr>w_gen := g'\<rparr>, enqueued a wired_engine))"
    "sim_inv st' (?w\<lparr>w_gen := g'\<rparr>, enqueued a wired_engine)" "grows a Map.empty st'"
    "is_trace g'" "total st' (?w\<lparr>w_gen := g'\<rparr>, enqueued a wired_engine) \<le> lines_need (out_trace out)"
    using R A(1) by blast
  have "smooth cfg tc (length ?rs) st' (?w\<lparr>w_gen := Trace g2\<rparr>, enqueued a wired_engine)"
  proof (rule smooth_grows[OF calm_init[OF ok pol A(7,6)] g2(1)[unfolded S(1)] _ stk _ S(4)])
    show "kv_left ?bs Map.empty + blocks_left ?bs ?g \<le> blocks_of ?bs ?rs" by (simp add: kv_left_def blocks_left_def)
  qed (simp_all add: g0(6) world_init_def Let_def collector_init_def)
  then show ?thesis using S g2(2) by auto
qed

section \<open>What such a run guarantees\<close>

lemma easy_scheduler: "build_scheduler name ps = Inr pol \<Longrightarrow> name \<noteq> ''conductor'' \<Longrightarrow> \<not> picky pol"
  by (auto simp: build_scheduler_def picky_def pg_init_def e2_init_def split: if_splits)

lemma ample_run:
  assumes ok: "run_ok out cfg" and am: "ample out cfg tc" and pol: "build_scheduler name (sc_params (cfg_scheduler cfg)) = Inr pol"
    and name: "name \<noteq> ''conductor''" and fuel: "lines_need (out_trace out) + 5 \<le> fuel"
  obtains w where "run_world fuel out cfg name = Inr w" "total_arrived (w_metrics w) = allowance tc (length (records (out_trace out)))"
    "rejected_count (w_metrics w) = 0" "completed_count (w_metrics w) = allowance tc (length (records (out_trace out)))"
proof -
  obtain gen where gen: "build_arrivals out cfg = Inr gen"
    using am by (auto simp: ample_def Let_def build_arrivals_def tg_init_def)
  obtain st s where S: "attach_all (world_init out cfg pol gen, engine_init) = (Inr (), s)" "sim_inv st s"
    "smooth cfg tc (length (records (out_trace out))) st s" "is_trace (w_gen (fst s))" "total st s \<le> lines_need (out_trace out)"
    using smooth_start[OF ok am easy_scheduler[OF pol name] gen] by blast
  obtain evs st' s' where R: "run_loop fuel handle s = (Inr (), evs, s')" "sim_inv st' s'"
    "smooth cfg tc (length (records (out_trace out))) st' s'" "ev_queue (snd s') = []"
    using smooth_run[OF S(2-4), of fuel] S(5) fuel by auto
  obtain w e where s': "s' = (w, e)" by (cases s')
  have "run_world fuel out cfg name = Inr w" using pol gen S(1) R(1) s' by (simp add: run_world_def)
  then show thesis using that smooth_end[OF R(2,3)[unfolded s']] R(4) s' by simp
qed

text \<open>The small run, which completes its one request.\<close>

lemma demo_records:
  "records (out_trace (demo_outside [demo_line])) =
     [\<lparr>tl_arrival_ms = Some 1, tl_timestamp = None, input_length = Some 2, output_length = Some 1, hash_ids = Some [7, 8]\<rparr>]"
  "allowance (trace_config_default path) n = n" "lines_need (out_trace (demo_outside [demo_line])) + 5 \<le> 20"
  by (simp_all add: demo_outside_def demo_line_def allowance_def trace_config_default_def lines_need_def line_need_def)

lemma demo_ample: "ample (demo_outside [demo_line]) demo_config (trace_config_default ''trace.jsonl'')"
  unfolding ample_def Let_def demo_records(1,2)
  by (simp add: replayable_def raw_arrival_ms_def hashes_fit_def demo_config_def demo_model_def trace_config_default_def
      nano_kv_config_default_def generator_config_default_def node_config_default_def blocks_of_def kv_need_def)

theorem run_leaves_idle_cluster_witness:
  "\<exists>w. run_world 20 (demo_outside [demo_line]) demo_config ''round_robin'' = Inr w \<and> completed_count (w_metrics w) = 1 \<and>
     block_tables (w_cm w) = Map.empty \<and> total_arrived (w_metrics w) = completed_count (w_metrics w) + rejected_count (w_metrics w)"
proof (rule ample_run[OF demo_run_ok demo_ample demo_parts(2) _ demo_records(3)])
  fix w
  assume w: "run_world 20 (demo_outside [demo_line]) demo_config ''round_robin'' = Inr w"
    "completed_count (w_metrics w) = allowance (trace_config_default ''trace.jsonl'') (length (records (out_trace (demo_outside [demo_line]))))"
  then have "completed_count (w_metrics w) = 1" by (simp add: demo_records(1,2))
  with run_leaves_idle_cluster[OF demo_run_ok w(1)] w(1) show ?thesis by blast
qed simp



end
