(* ===== verification/Converters.thy ===== *)
theory Converters
  imports Workload
begin

text \<open>
  \<open>src/scripts/convert_burstgpt.py\<close> and \<open>src/scripts/convert_mooncake.py\<close>: the \<open>convert\<close> functions that
  produce the trace files \<open>TraceGenerator\<close> replays. A CSV file is the list of the rows of
  \<open>csv.DictReader\<close>, a map from column names to texts (\<open>None\<close> for a column a short row lacks); a JSON file
  is the list of its decoded lines, with typed fields. The written file is a list of records. Parsing a
  text as a float is a parameter, integers are parsed as \<open>int\<close> does. Logging, the argument parsers and the
  counters that are only logged are left out, except \<open>skipped\<close>.
\<close>

section \<open>Texts\<close>

definition is_space :: "char \<Rightarrow> bool" where
  "is_space c \<longleftrightarrow> c \<in> {CHR '' '', CHR 0x09, CHR 0x0A, CHR 0x0B, CHR 0x0C, CHR 0x0D}"

text \<open>\<open>str.strip\<close>\<close>

definition strip :: "string \<Rightarrow> string" where
  "strip s = rev (dropWhile is_space (rev (dropWhile is_space s)))"

definition digit_value :: "char \<Rightarrow> nat option" where
  "digit_value c = (if 48 \<le> (of_char c :: nat) \<and> (of_char c :: nat) \<le> 57 then Some (of_char c - 48) else None)"

text \<open>Digits with single underscores between them, as \<open>int\<close> accepts them.\<close>

fun read_digits :: "bool \<Rightarrow> nat \<Rightarrow> string \<Rightarrow> nat option" where
  "read_digits after_digit acc [] = (if after_digit then Some acc else None)"
| "read_digits after_digit acc (c # cs) =
     (case digit_value c of
        Some d \<Rightarrow> read_digits True (10 * acc + d) cs
      | None \<Rightarrow> if c = CHR ''_'' \<and> after_digit then read_digits False acc cs else None)"

definition py_int :: "string \<Rightarrow> int option" where
  "py_int s =
     (case strip s of [] \<Rightarrow> None
      | c # cs \<Rightarrow> if c = CHR ''-'' then map_option (\<lambda>n. - int n) (read_digits False 0 cs)
                 else if c = CHR ''+'' then map_option int (read_digits False 0 cs)
                 else map_option int (read_digits False 0 (c # cs)))"

section \<open>BurstGPT\<close>

type_synonym csv_row = "string \<rightharpoonup> string option"

record burst_record =
  br_request_id :: string
  br_arrival_ms :: rat
  br_input_length :: int
  br_output_length :: int
  br_session_id :: "string option"

record burst_state =
  written :: nat
  skipped :: nat
  first_timestamp :: "rat option"
  burst_out :: "burst_record list"

definition required_columns :: "string set" where
  "required_columns = {''Timestamp'', ''Session ID'', ''Request tokens'', ''Response tokens''}"

text \<open>\<open>float(row[k])\<close> and \<open>int(row[k])\<close>; a missing value raises \<open>TypeError\<close>, which is caught with \<open>ValueError\<close>.\<close>

definition column :: "csv_row \<Rightarrow> string \<Rightarrow> string option" where
  "column row k = (case row k of None \<Rightarrow> None | Some v \<Rightarrow> v)"

definition skip_row :: "burst_state \<Rightarrow> burst_state" where
  "skip_row s = s\<lparr>skipped := skipped s + 1\<rparr>"

definition write_row :: "rat \<Rightarrow> int \<Rightarrow> int \<Rightarrow> string option \<Rightarrow> burst_state \<Rightarrow> burst_state" where
  "write_row ts n m sid s =
     (let t0 = (case first_timestamp s of None \<Rightarrow> ts | Some t \<Rightarrow> t)
      in s\<lparr>first_timestamp := Some t0,
           burst_out := burst_out s @ [\<lparr>br_request_id = ''burstgpt-'' @ digits (written s), br_arrival_ms = (ts - t0) * 1000,
             br_input_length = n, br_output_length = m, br_session_id = sid\<rparr>],
           written := written s + 1\<rparr>)"

definition burst_row :: "(string \<Rightarrow> rat option) \<Rightarrow> bool \<Rightarrow> csv_row \<Rightarrow> (burst_state, unit) py" where
  "burst_row py_float require_session row s =
     (if \<not> required_columns \<subseteq> dom row then (Inr (), skip_row s)
      else case Option.bind (column row ''Timestamp'') py_float of None \<Rightarrow> (Inr (), skip_row s) | Some ts \<Rightarrow>
       (case (Option.bind (column row ''Request tokens'') py_int, Option.bind (column row ''Response tokens'') py_int) of
          (Some n, Some m) \<Rightarrow>
            if n \<le> 0 then (Inr (), skip_row s)
            else if m \<le> 0 then (Inr (), skip_row s)
            else if require_session then
              (case column row ''Session ID'' of
                 None \<Rightarrow> (Inl AttributeError, s)
               | Some sid \<Rightarrow> if strip sid = [] then (Inr (), skip_row s) else (Inr (), write_row ts n m (Some sid) s))
            else (Inr (), write_row ts n m (column row ''Session ID'') s)
        | _ \<Rightarrow> (Inr (), skip_row s)))"

fun burst_rows :: "(string \<Rightarrow> rat option) \<Rightarrow> nat option \<Rightarrow> bool \<Rightarrow> csv_row list \<Rightarrow> (burst_state, unit) py" where
  "burst_rows py_float limit req [] s = (Inr (), s)"
| "burst_rows py_float limit req (row # rows) s =
     (if (case limit of None \<Rightarrow> False | Some k \<Rightarrow> k \<le> written s) then (Inr (), s)
      else py_bind (burst_row py_float req row) (\<lambda>_. burst_rows py_float limit req rows) s)"

definition convert_burstgpt ::
  "(string \<Rightarrow> rat option) \<Rightarrow> nat option \<Rightarrow> bool \<Rightarrow> csv_row list \<Rightarrow> nat result \<times> burst_record list" where
  "convert_burstgpt py_float limit req rows =
     (case burst_rows py_float limit req rows \<lparr>written = 0, skipped = 0, first_timestamp = None, burst_out = []\<rparr> of
        (Inl e, s) \<Rightarrow> (Inl e, burst_out s) | (Inr _, s) \<Rightarrow> (Inr (written s), burst_out s))"

section \<open>Mooncake\<close>

record mooncake_record =
  mc_timestamp :: rat
  mc_input_length :: int
  mc_output_length :: int
  mc_hash_ids :: "int list"

text \<open>A line: blank, not JSON, or an object in which each required field may be absent.\<close>

datatype mooncake_line = Mc_blank | Mc_malformed
  | Mc_object "rat option" "int option" "int option" "int list option"

record mooncake_state =
  total_read :: nat
  total_written :: nat
  mc_first_timestamp :: "rat option"
  mc_out :: "mooncake_record list"

definition MOONCAKE_BLOCK_SIZE :: int where
  "MOONCAKE_BLOCK_SIZE = 512"

definition mooncake_line :: "mooncake_line \<Rightarrow> mooncake_state \<Rightarrow> mooncake_state" where
  "mooncake_line l s0 =
     (let s = s0\<lparr>total_read := total_read s0 + 1\<rparr>
      in case l of
           Mc_object (Some ts) (Some n) (Some m) (Some hids) \<Rightarrow>
             if int (length hids) \<noteq> \<lceil>(of_int n / of_int MOONCAKE_BLOCK_SIZE :: rat)\<rceil> then s
             else (let t0 = (case mc_first_timestamp s of None \<Rightarrow> ts | Some t \<Rightarrow> t)
                   in s\<lparr>mc_first_timestamp := Some t0, total_written := total_written s + 1,
                        mc_out := mc_out s @ [\<lparr>mc_timestamp = ts - t0, mc_input_length = n, mc_output_length = m, mc_hash_ids = hids\<rparr>]\<rparr>)
         | _ \<Rightarrow> s)"

definition convert_mooncake :: "mooncake_line list \<Rightarrow> (nat \<times> nat) \<times> mooncake_record list" where
  "convert_mooncake ls =
     (let s = fold mooncake_line ls \<lparr>total_read = 0, total_written = 0, mc_first_timestamp = None, mc_out = []\<rparr>
      in ((total_read s, total_written s), mc_out s))"

end
