(* ===== verification/Converter_Properties.thy ===== *)
theory Converter_Properties
  imports Converters
begin

text \<open>
  The BurstGPT conversion keeps exactly the usable rows, in order; the prompts replayed from a converted
  Mooncake trace are determined by its hash identifiers.
\<close>

section \<open>BurstGPT\<close>

definition row_fields :: "(string \<Rightarrow> rat option) \<Rightarrow> csv_row \<Rightarrow> (rat \<times> int \<times> int \<times> string option) option" where
  "row_fields f row =
     (if required_columns \<subseteq> dom row
      then (case (Option.bind (column row ''Timestamp'') f, Option.bind (column row ''Request tokens'') py_int,
                  Option.bind (column row ''Response tokens'') py_int) of
              (Some ts, Some n, Some m) \<Rightarrow> if 0 < n \<and> 0 < m then Some (ts, n, m, column row ''Session ID'') else None
            | _ \<Rightarrow> None)
      else None)"

definition in_session :: "rat \<times> int \<times> int \<times> string option \<Rightarrow> bool" where
  "in_session x = (case snd (snd (snd x)) of None \<Rightarrow> False | Some sid \<Rightarrow> strip sid \<noteq> [])"

definition usable_rows :: "(string \<Rightarrow> rat option) \<Rightarrow> bool \<Rightarrow> csv_row list \<Rightarrow> (rat \<times> int \<times> int \<times> string option) list" where
  "usable_rows f req rows = filter (\<lambda>x. req \<longrightarrow> in_session x) (List.map_filter (row_fields f) rows)"

definition burst_record_of :: "rat \<Rightarrow> nat \<times> rat \<times> int \<times> int \<times> string option \<Rightarrow> burst_record" where
  "burst_record_of t0 x = (case x of (i, ts, n, m, sid) \<Rightarrow>
     \<lparr>br_request_id = ''burstgpt-'' @ digits i, br_arrival_ms = (ts - t0) * 1000, br_input_length = n, br_output_length = m,
      br_session_id = sid\<rparr>)"

definition limited :: "nat option \<Rightarrow> nat \<Rightarrow> 'a list \<Rightarrow> 'a list" where
  "limited limit k xs = (case limit of None \<Rightarrow> xs | Some n \<Rightarrow> take (n - k) xs)"

lemma burst_row_run:
  assumes "req \<Longrightarrow> required_columns \<subseteq> dom row \<Longrightarrow> column row ''Session ID'' \<noteq> None"
  shows "burst_row f req row s = (Inr (), (case row_fields f row of None \<Rightarrow> skip_row s
    | Some (ts, n, m, sid) \<Rightarrow> if req \<longrightarrow> in_session (ts, n, m, sid) then write_row ts n m sid s else skip_row s))"
  using assms by (auto simp: burst_row_def row_fields_def in_session_def split: option.splits)

definition base_time :: "burst_state \<Rightarrow> (rat \<times> int \<times> int \<times> string option) list \<Rightarrow> rat" where
  "base_time s xs = (case first_timestamp s of None \<Rightarrow> fst (hd xs) | Some t \<Rightarrow> t)"

lemma burst_rows_run:
  assumes "\<And>row. req \<Longrightarrow> row \<in> set rows \<Longrightarrow> required_columns \<subseteq> dom row \<Longrightarrow> column row ''Session ID'' \<noteq> None"
  shows "\<exists>s'. burst_rows f limit req rows s = (Inr (), s') \<and>
    written s' = written s + length (limited limit (written s) (usable_rows f req rows)) \<and>
    burst_out s' = burst_out s @ map (burst_record_of (base_time s (limited limit (written s) (usable_rows f req rows))))
      (enumerate (written s) (limited limit (written s) (usable_rows f req rows)))"
  using assms
proof (induction rows arbitrary: s)
  case Nil
  then show ?case by (simp add: usable_rows_def limited_def map_filter_def split: option.splits)
next
  case (Cons row rows)
  show ?case
  proof (cases "case limit of None \<Rightarrow> False | Some k \<Rightarrow> k \<le> written s")
    case True
    then have "limited limit (written s) xs = []" for xs :: "(rat \<times> int \<times> int \<times> string option) list"
      by (auto simp: limited_def split: option.splits)
    then show ?thesis using True by simp
  next
    case False
    have row: "burst_row f req row s = (Inr (), (case row_fields f row of None \<Rightarrow> skip_row s
      | Some (ts, n, m, sid) \<Rightarrow> if req \<longrightarrow> in_session (ts, n, m, sid) then write_row ts n m sid s else skip_row s))"
      by (rule burst_row_run) (use Cons.prems in auto)
    have IH: "\<exists>s'. burst_rows f limit req rows s1 = (Inr (), s') \<and>
        written s' = written s1 + length (limited limit (written s1) (usable_rows f req rows)) \<and>
        burst_out s' = burst_out s1 @ map (burst_record_of (base_time s1 (limited limit (written s1) (usable_rows f req rows))))
          (enumerate (written s1) (limited limit (written s1) (usable_rows f req rows)))" for s1
      by (rule Cons.IH) (use Cons.prems in auto)
    have step: "burst_rows f limit req (row # rows) s = burst_rows f limit req rows (snd (burst_row f req row s))"
      using False row by (simp add: py_bind_def)
    consider (skip) "snd (burst_row f req row s) = skip_row s" "usable_rows f req (row # rows) = usable_rows f req rows"
      | (keep) ts n m sid where "snd (burst_row f req row s) = write_row ts n m sid s"
        "usable_rows f req (row # rows) = (ts, n, m, sid) # usable_rows f req rows"
      using row by (auto simp: usable_rows_def map_filter_def split: option.splits if_splits)
    then show ?thesis
    proof cases
      case skip
      show ?thesis using IH[of "skip_row s"] unfolding step skip by (simp add: skip_row_def base_time_def)
    next
      case keep
      let ?s = "write_row ts n m sid s"
      have w: "written ?s = written s + 1" "first_timestamp ?s = Some (case first_timestamp s of None \<Rightarrow> ts | Some t \<Rightarrow> t)"
        "burst_out ?s = burst_out s @ [burst_record_of (case first_timestamp s of None \<Rightarrow> ts | Some t \<Rightarrow> t) (written s, ts, n, m, sid)]"
        by (simp_all add: write_row_def burst_record_of_def Let_def)
      have l: "limited limit (written s) (x # xs) = x # limited limit (Suc (written s)) xs" for x and xs :: "(rat \<times> int \<times> int \<times> string option) list"
        using False by (auto simp: limited_def Suc_diff_le not_le Suc_diff_Suc[symmetric] split: option.splits)
      show ?thesis using IH[of ?s] unfolding step keep by (simp add: w l base_time_def cong: option.case_cong)
    qed
  qed
qed

text \<open>
  C22. Without rows that lack a session column, the BurstGPT conversion is: keep the rows whose required
  columns parse and whose token counts are positive (and whose session is not blank, when sessions are
  required), in order, up to the limit; number them; and give each the milliseconds since the first kept row. It
  returns how many it wrote.
\<close>

theorem burstgpt_conversion_spec:
  assumes "\<forall>row \<in> set rows. column row ''Session ID'' \<noteq> None"
  shows "convert_burstgpt f limit req rows =
    (let kept = (case limit of None \<Rightarrow> id | Some k \<Rightarrow> take k) (usable_rows f req rows)
     in (Inr (length kept), map (burst_record_of (fst (hd kept))) (enumerate 0 kept)))"
proof -
  let ?s = "\<lparr>written = 0, skipped = 0, first_timestamp = None, burst_out = []\<rparr>"
  obtain s' where "burst_rows f limit req rows ?s = (Inr (), s')"
    "written s' = written ?s + length (limited limit (written ?s) (usable_rows f req rows))"
    "burst_out s' = burst_out ?s @ map (burst_record_of (base_time ?s (limited limit (written ?s) (usable_rows f req rows))))
      (enumerate (written ?s) (limited limit (written ?s) (usable_rows f req rows)))"
    using burst_rows_run[of req rows f limit ?s] assms by blast
  then show ?thesis by (cases limit) (simp_all add: convert_burstgpt_def limited_def base_time_def Let_def)
qed


theorem burstgpt_conversion_spec_witness:
  "convert_burstgpt (\<lambda>s. if s = ''9'' then Some 9 else None) None False
     [[''Timestamp'' \<mapsto> Some ''9'', ''Session ID'' \<mapsto> Some ''s'', ''Request tokens'' \<mapsto> Some '' 1_0'', ''Response tokens'' \<mapsto> Some ''3''],
      [''Timestamp'' \<mapsto> Some ''x'', ''Session ID'' \<mapsto> Some ''s'', ''Request tokens'' \<mapsto> Some ''1'', ''Response tokens'' \<mapsto> Some ''3'']] =
   (Inr 1, [\<lparr>br_request_id = ''burstgpt-'' @ digits 0, br_arrival_ms = 0, br_input_length = 10, br_output_length = 3,
             br_session_id = Some ''s''\<rparr>])"
proof -
  let ?f = "\<lambda>s. if s = ''9'' then Some (9 :: rat) else None"
  let ?a = "[''Timestamp'' \<mapsto> Some ''9'', ''Session ID'' \<mapsto> Some ''s'', ''Request tokens'' \<mapsto> Some '' 1_0'', ''Response tokens'' \<mapsto> Some ''3''] :: csv_row"
  let ?b = "[''Timestamp'' \<mapsto> Some ''x'', ''Session ID'' \<mapsto> Some ''s'', ''Request tokens'' \<mapsto> Some ''1'', ''Response tokens'' \<mapsto> Some ''3''] :: csv_row"
  have "\<forall>row \<in> set [?a, ?b]. column row ''Session ID'' \<noteq> None" by (simp add: column_def)
  note C = burstgpt_conversion_spec[OF this, of ?f None False]
  have i: "py_int '' 1_0'' = Some 10" "py_int ''3'' = Some 3"
    by (simp_all add: py_int_def strip_def is_space_def digit_value_def)
  have a: "row_fields ?f ?a = Some (9, 10, 3, Some ''s'')"
    by (simp add: row_fields_def required_columns_def column_def i)
  have b: "row_fields ?f ?b = None" by (simp add: row_fields_def column_def)
  show ?thesis by (simp add: C usable_rows_def map_filter_def a b burst_record_of_def)
qed

section \<open>Mooncake\<close>

lemma mooncake_written:
  assumes "\<forall>r \<in> set (mc_out s). int (length (mc_hash_ids r)) = \<lceil>(of_int (mc_input_length r) / 512 :: rat)\<rceil>"
  shows "\<forall>r \<in> set (mc_out (fold mooncake_line ls s)). int (length (mc_hash_ids r)) = \<lceil>(of_int (mc_input_length r) / 512 :: rat)\<rceil>"
  using assms
proof (induction ls arbitrary: s)
  case (Cons l ls)
  have "\<forall>r \<in> set (mc_out (mooncake_line l s)). int (length (mc_hash_ids r)) = \<lceil>(of_int (mc_input_length r) / 512 :: rat)\<rceil>"
    using Cons.prems by (auto simp: mooncake_line_def MOONCAKE_BLOCK_SIZE_def Let_def split: mooncake_line.splits option.splits)
  then show ?case by (simp add: Cons.IH)
qed simp

lemma length_randint_lists [simp]: "length (fst (randints k v g)) = k"
  by (induction k arbitrary: g) (simp_all split: prod.splits, metis fst_conv)

text \<open>
  C23. In a converted Mooncake trace every record has one hash identifier per started block of 512 tokens, so
  with that block size the replayed prompt is determined by them: its full blocks are the expansions of
  the identifiers and only the last, partial block is random. Two requests share a cached prefix as far as
  their identifiers agree.
\<close>

theorem mooncake_prompts_follow_hash_ids:
  assumes "r \<in> set (snd (convert_mooncake ls))" "0 \<le> mc_input_length r"
  defines "n \<equiv> nat (mc_input_length r)"
  shows "length (mc_hash_ids r) = (n + 511) div 512 \<and>
    (\<exists>tail g'. build_token_ids (mc_hash_ids r) n 512 g vocab =
        (Inr (concat (map (expand_hash 512) (take (n div 512) (mc_hash_ids r))) @ tail), g') \<and> length tail = n mod 512)"
proof -
  have "int (length (mc_hash_ids r)) = \<lceil>(of_int (mc_input_length r) / 512 :: rat)\<rceil>"
    using assms(1) mooncake_written[of "\<lparr>total_read = 0, total_written = 0, mc_first_timestamp = None, mc_out = []\<rparr>" ls]
    by (auto simp: convert_mooncake_def Let_def)
  also have "\<lceil>(of_int (mc_input_length r) / 512 :: rat)\<rceil> = - (- mc_input_length r div 512)"
    using ceiling_divide_eq_div[of "mc_input_length r" 512] by simp
  finally have len: "length (mc_hash_ids r) = (n + 511) div 512"
    using assms(2) unfolding n_def by linarith
  have enough: "n div 512 \<le> length (mc_hash_ids r)" unfolding len by linarith
  have "build_token_ids (mc_hash_ids r) n 512 g vocab =
      (Inr (concat (map (expand_hash 512) (take (n div 512) (mc_hash_ids r))) @ fst (randints (n mod 512) vocab g)),
       snd (randints (n mod 512) vocab g))"
  proof -
    have e: "length (concat (map (expand_hash 512) hs)) = length hs * 512" for hs
      by (induction hs) (simp_all add: expand_hash_def)
    have t: "n - n div 512 * 512 = n mod 512" by (simp add: minus_div_mult_eq_mod)
    show ?thesis using enough
      by (simp add: build_token_ids_def Let_def min_absorb2 e t split: prod.splits) (metis div_mult_mod_eq fst_conv length_randint_lists)
  qed
  then show ?thesis using len by auto
qed

theorem mooncake_prompts_follow_hash_ids_witness:
  "\<forall>g. \<exists>tail g'. build_token_ids [7, 8] 513 512 g 100 = (Inr (expand_hash 512 7 @ tail), g') \<and> length tail = 1"
proof
  fix g
  let ?r = "\<lparr>mc_timestamp = 0, mc_input_length = 513, mc_output_length = 1, mc_hash_ids = [7, 8]\<rparr>"
  have c: "\<lceil>513 / 512 :: rat\<rceil> = 2" by (simp add: ceiling_eq_iff)
  have "snd (convert_mooncake [Mc_object (Some 5) (Some 513) (Some 1) (Some [7, 8])]) = [?r]"
    by (simp add: convert_mooncake_def mooncake_line_def MOONCAKE_BLOCK_SIZE_def c)
  then have "?r \<in> set (snd (convert_mooncake [Mc_object (Some 5) (Some 513) (Some 1) (Some [7, 8])]))" by simp
  from mooncake_prompts_follow_hash_ids[OF this, of g 100]
  show "\<exists>tail g'. build_token_ids [7, 8] 513 512 g 100 = (Inr (expand_hash 512 7 @ tail), g') \<and> length tail = 1" by simp
qed

end
