(* ===== verification/Spec2Isabelle.thy ===== *)
theory Spec2Isabelle
  imports Cache_Properties Node_Properties Transfer_Model Sim_Engine Policy_Properties Null_Cache Metric_Properties Command_Properties Ample_Run
    Converter_Properties
begin

text \<open>
  A model of nano-kvrouter, a discrete-event simulator of an inference cluster whose prefill and decode
  nodes are separate and whose router chooses a prefill and a decode node for each request from what the
  KV caches hold. Paths below are relative to \<open>src/src/nano_kvrouter/\<close>.

  How the program works. A generator schedules \<open>REQUEST_ARRIVE\<close> events. A policy picks a node pair (or
  rejects), the prefill node admits the request or queues it, prefill runs in chunks inside batch steps,
  the finished KV cache is moved to the decode node by the transfer model, the cache manager stores it in
  the radix tree of the decode node and pins its blocks, decode streams advance by one token per batch
  step, and the last token releases the pins and the slot. A collector watches all events.

  Which theory models what.

  \<^item> \<open>KV_Prelude\<close>: the error values, the monad of a Python method (a result or an exception, with the
    state as it was mutated until then in both cases), lemmas on maps and ordered dictionaries.
  \<^item> \<open>Config\<close>, \<open>Workload_Config\<close>, \<open>Request_Types\<close>: \<open>config.py\<close>, the record of \<open>request.py\<close> and the value
    types of \<open>scheduler/base.py\<close> and \<open>kv_cache/block_table.py\<close>.
  \<^item> \<open>Block_Pool\<close>, \<open>Pool_Properties\<close>: \<open>kv_cache/block_pool.py\<close>. The invariant \<open>pool_inv\<close>; what each
    operation does on every branch.
  \<^item> \<open>Radix_Tree\<close> and the \<open>Radix_*\<close> theories: \<open>kv_cache/radix_tree.py\<close>. Nodes are heap objects reached by
    references; \<open>Radix_Invariant\<close> states their shape, \<open>Radix_Match\<close>, \<open>Radix_Insert\<close>, \<open>Radix_Update\<close>,
    \<open>Radix_Evict\<close> and \<open>Radix_Purge\<close> show that each operation keeps it.
  \<^item> \<open>Cache_Manager\<close>, \<open>Node_Cache\<close>, \<open>Admission\<close>, \<open>Block_Tables\<close>, \<open>Cache_Properties\<close>, \<open>Cache_Query\<close>,
    \<open>Cache_Room\<close>: \<open>kv_cache/cache_manager.py\<close>. A tree and a pool per node agree on the allocated blocks, and the pins are
    exactly the active block tables. \<open>Cache_Room\<close> shows that a pool large enough for all requests never
    refuses one.
  \<^item> \<open>Mock_Node\<close>, \<open>Node_Invariant\<close>, \<open>Node_Properties\<close>: \<open>engine/mock_node.py\<close>.
  \<^item> \<open>Transfer_Model\<close>: \<open>simulator/transfer_model.py\<close>. \<open>Sim_Engine\<close>: \<open>simulator/event.py\<close>, \<open>simulator/engine.py\<close>.
  \<^item> \<open>Scheduler_Base\<close>, \<open>Policies\<close>, \<open>Policy_Contracts\<close>, \<open>Policy_Properties\<close>, \<open>Null_Cache\<close>: \<open>scheduler/\<close>.
  \<^item> \<open>Event_Payload\<close>, \<open>Metrics\<close>, \<open>Metric_Properties\<close>: \<open>metrics/collector.py\<close>. \<open>Workload\<close>: \<open>simulator/generator.py\<close>,
    \<open>simulator/prefix_synthesis.py\<close>, \<open>simulator/trace_generator.py\<close>, \<open>make_request\<close> of \<open>request.py\<close>.
  \<^item> \<open>Simulator\<close>: \<open>_wire_simulator\<close>, \<open>_build_scheduler\<close> and \<open>_run_one\<close> of \<open>cli.py\<close>, which connect all of these.
  \<^item> \<open>Config_Loader\<close>, \<open>Config_Properties\<close>: \<open>load_config\<close> and \<open>load_sensitivity_config\<close>. The Pydantic classes
    are data (a list of fields with type, bounds and default, in the order of the source), a YAML document is
    a value of the datatype \<open>yaml\<close>, and \<open>strict\<close> validates one against the other.
  \<^item> \<open>Reports\<close>, \<open>Report_Properties\<close>: the sweep, the sensitivity experiments and the prefix-sensitivity table of
    \<open>cli.py\<close>, over \<open>run_one\<close>. \<open>Commands\<close>, \<open>Command_Properties\<close>: the four subcommands, the resolution of
    related paths, the files written and \<open>main\<close>. A command returns what it printed and wrote until it ended
    together with its result or exception.
  \<^item> \<open>Converters\<close>, \<open>Converter_Properties\<close>: the scripts \<open>convert_burstgpt.py\<close> and \<open>convert_mooncake.py\<close>
    under \<open>src/scripts\<close>.

  The whole run. \<open>Sim_State\<close> describes a state of the simulator by a finite map from requests to stages
  (arriving, waiting, starting, prefill, prefilled, transfer, decoding, ending, rejected): the map determines
  the slots, queues and pipelines of all nodes, the pending transfers, the dictionaries of the closures, the
  pinned tables and the collector's counts, and which events are pending. \<open>Sim_Progress\<close> gives the edges
  of the life cycle (\<open>life_step\<close>) and a budget of events per stage. \<open>Sim_Steps\<close>, \<open>Sim_Prefill\<close>, \<open>Sim_Decode\<close>,
  \<open>Sim_Batch\<close> and \<open>Sim_Ends\<close> show of each handler that it implements edges of the cycle and stays within the
  budget; \<open>Sim_Frame\<close> has the lemmas they share. \<open>Sim_Source\<close> states what a run needs of the collector and of an
  arrival source, \<open>Sim_Run\<close> composes the handlers of an event as the engine calls them, and \<open>Whole_Run\<close>
  goes from the configuration to the summary: every event moves each request along at most one edge,
  a run on a trace ends within a number of events computed from the trace, and a run that ends leaves
  an idle cluster, no pinned block, and as many completions and rejections as arrivals. \<open>Sim_Room\<close>,
  \<open>Trace_Source\<close> and \<open>Ample_Run\<close> add the converse: on a cluster with slots and blocks for the whole of a
  well-formed trace no handler raises, no request is rejected, and every record is completed. The handlers'
  part is a set of rules for what a handler keeps (\<open>keeps_rules\<close>).

  How parts rely on each other. The contracts are locales: \<open>block_source\<close> and \<open>block_sink\<close> in \<open>Interfaces\<close>
  (the callbacks the radix tree calls, provided by the block pool), \<open>cache_query_contract\<close> in
  \<open>Scheduler_Base\<close> (what the policies need of a cache, provided by the cache manager and by the stub of
  \<open>scheduler/_testing.py\<close>), \<open>scheduling_policy\<close> in \<open>Policies\<close> (what the simulator needs of a policy),
  \<open>transfer_contract\<close> in \<open>Transfer_Model\<close>, \<open>event_queue\<close> in \<open>Sim_Engine\<close> and \<open>arrival_source\<close> in \<open>Sim_Source\<close> (fresh
  names and a bounded supply of requests, provided by the generators before and after \<open>attach\<close>). Each is interpreted on the
  definitions of the component that provides it, in that component's theory.

  Conventions. A dictionary whose order can be observed is an association list, another one a map.
  A set is iterated in the order of its sorted elements. Floating-point numbers are exact rationals, so
  rounding and NaN are not modelled. \<open>uuid4\<close> is a stream of distinct identifiers per pool, a
  \<open>random.Random\<close> a stream of raw draws, the clock of the cache manager the argument \<open>now\<close>, and sha256 and
  the power function of floats are parameters. The binary heap of \<open>heapq\<close> is represented by its multiset
  and its least element in the order of \<open>Event.__lt__\<close>; the order is total on scheduled events, so this
  fixes what \<open>heappop\<close> returns.

  Loops. Recursions over heap objects and \<open>while\<close> loops take fuel and return \<open>OutOfFuel\<close> without it; the
  fuel the operations pass (the number of heap nodes, or of tokens, or of blocks) is shown to be enough
  under the invariants, so no operation of the pool, tree, cache or node ends with \<open>OutOfFuel\<close>. \<open>run_loop\<close>
  takes a bound on the rounds as fuel, because handlers may schedule events for ever; for a trace the bound
  \<open>lines_need (out_trace out) + 5\<close> is enough (ten events per record, its prompt length and three times its
  output length). A run with the Poisson generator ends only if the sum of the sampled gaps passes the
  configured duration, which no stream of draws guarantees by itself; no bound is stated for it.

  Parameters. What the program takes from outside \<open>src\<close> is an argument of the definitions: the reading of
  YAML text into a document, the validation of Pydantic (the theorems name what its documentation promises,
  \<open>validates_as_documented\<close>, and \<open>strict\<close> is shown to satisfy it), the contents of files by path, the parsed
  command line of \<open>argparse\<close>, the hash function and the random draws.

  Not modelled: the text of YAML, JSON and CSV files (files are documents, lists of decoded rows, lines or
  records), the layout of the rich tables and the rounding of the numbers printed in them, the parsing and
  help texts of \<open>argparse\<close>, failures of the file system while writing, and logging. They compute nothing
  the other parts depend on.
\<close>

end
